(* ===== verification/PgPrelude.thy ===== *)
theory PgPrelude
  imports Complex_Main "HOL-Library.Word"
begin

text \<open>
  Shared vocabulary of the development: machine integers at their C widths, the ways a C
  computation can go wrong, and the generic lemmas on lists, scans and sums that more than one
  component uses.
\<close>

unbundle bit_operations_syntax

named_theorems run_simps \<open>equations of the fault-carrying computations\<close>

subsection \<open>C types\<close>

type_synonym u8 = "8 word"
type_synonym u16 = "16 word"
type_synonym u32 = "32 word"
type_synonym u64 = "64 word"
type_synonym i16 = "16 word"
type_synonym i32 = "32 word"

text \<open>
  A C computation either returns a value or stops in one of these ways. A model that may fault
  has type \<open>fault + 'a\<close>; one that cannot has no fault in its type.
\<close>

datatype fault =
    Assertion_failed
  | Undefined_conversion   \<comment> \<open>floating value outside the range of the target integer type\<close>
  | Null_dereference
  | Out_of_bounds
  | Double_free
  | Use_after_free
  | Division_by_zero

type_synonym 'a run = "fault + 'a"

definition run_bind :: "'a run \<Rightarrow> ('a \<Rightarrow> 'b run) \<Rightarrow> 'b run" where
  "run_bind m f = (case m of Inl e \<Rightarrow> Inl e | Inr x \<Rightarrow> f x)"

lemma run_bind_simps [simp, run_simps]:
  "run_bind (Inl e) f = Inl e"
  "run_bind (Inr x) f = f x"
  by (simp_all add: run_bind_def)

lemma run_bind_Inr_iff [run_simps]:
  "run_bind m f = Inr y \<longleftrightarrow> (\<exists>x. m = Inr x \<and> f x = Inr y)"
  by (cases m) auto

text \<open>A loop over a list whose body may stop.\<close>

primrec run_foldl :: "('b \<Rightarrow> 'a \<Rightarrow> 'b run) \<Rightarrow> 'b \<Rightarrow> 'a list \<Rightarrow> 'b run" where
  "run_foldl f b [] = Inr b"
| "run_foldl f b (x # xs) = run_bind (f b x) (\<lambda>b'. run_foldl f b' xs)"

lemma run_foldl_append:
  "run_foldl f b (xs @ ys) = run_bind (run_foldl f b xs) (\<lambda>b'. run_foldl f b' ys)"
proof (induction xs arbitrary: b)
  case (Cons x xs)
  then show ?case by (cases "f b x") simp_all
qed simp

lemma run_foldl_total:
  "(\<And>b x. x \<in> set xs \<Longrightarrow> f b x = Inr (g b x)) \<Longrightarrow> run_foldl f b xs = Inr (foldl g b xs)"
  by (induction xs arbitrary: b) simp_all

subsection \<open>Little-endian bytes\<close>

text \<open>
  The wire formats are little-endian. \<open>le_word\<close> is what \<open>le16toh\<close>, \<open>le32toh\<close>, \<open>le64toh\<close> compute
  from the bytes in memory on any host, and \<open>le_bytes n\<close> the \<open>n\<close> bytes that \<open>htole16\<close>,
  \<open>htole32\<close> leave in memory.
\<close>

primrec le_bytes :: "nat \<Rightarrow> 'a::len word \<Rightarrow> u8 list" where
  "le_bytes 0 w = []"
| "le_bytes (Suc n) w = ucast w # le_bytes n (drop_bit 8 w)"

primrec le_word :: "u8 list \<Rightarrow> 'a::len word" where
  "le_word [] = 0"
| "le_word (b # bs) = ucast b OR push_bit 8 (le_word bs)"

definition le_at :: "nat \<Rightarrow> nat \<Rightarrow> u8 list \<Rightarrow> 'a::len word" where
  "le_at n off bs = le_word (take n (drop off bs))"

lemma length_le_bytes [simp]: "length (le_bytes n w) = n"
  by (induction n arbitrary: w) simp_all

lemma bit_le_word:
  "bit (le_word bs :: 'a::len word) k \<longleftrightarrow>
     k < LENGTH('a) \<and> k div 8 < length bs \<and> bit (bs ! (k div 8)) (k mod 8)"
proof (induction bs arbitrary: k)
  case (Cons b bs)
  show ?case
  proof (cases "k < 8")
    case True
    then show ?thesis by (auto simp: bit_simps)
  next
    case False
    then obtain j where j: "k = j + 8" by (metis add.commute le_Suc_ex not_less)
    have "\<not> bit b (j + 8)" using bit_imp_le_length [of b "j + 8"] by auto
    then show ?thesis by (auto simp: j bit_simps Cons.IH)
  qed
qed simp

lemma nth_le_bytes: "k < n \<Longrightarrow> le_bytes n w ! k = ucast (drop_bit (8 * k) w)"
proof (induction n arbitrary: k w)
  case (Suc n)
  then show ?case
    by (cases k) (simp_all add: algebra_simps)
qed simp

lemma le_word_le_bytes: "LENGTH('a) \<le> 8 * n \<Longrightarrow> le_word (le_bytes n (w :: 'a::len word)) = w"
proof (rule bit_word_eqI)
  fix k
  assume n: "LENGTH('a) \<le> 8 * n" and k: "k < LENGTH('a)"
  then have "k div 8 < n" by auto
  moreover have "k mod 8 < 8" by simp
  ultimately show "bit (le_word (le_bytes n w) :: 'a word) k = bit w k"
    using k by (simp add: bit_le_word nth_le_bytes bit_simps)
qed

lemma le_bytes_le_word:
  assumes "8 * length bs \<le> LENGTH('a)"
  shows "le_bytes (length bs) (le_word bs :: 'a::len word) = bs"
proof (rule nth_equalityI)
  fix i
  assume "i < length (le_bytes (length bs) (le_word bs :: 'a word))"
  then have i: "i < length bs" by simp
  have "ucast (drop_bit (8 * i) (le_word bs :: 'a word)) = bs ! i"
  proof (rule bit_word_eqI)
    fix k
    assume k: "k < LENGTH(8)"
    then have "(8 * i + k) div 8 = i" "(8 * i + k) mod 8 = k" "8 * i + k < LENGTH('a)"
      using i assms by auto
    then show "bit (ucast (drop_bit (8 * i) (le_word bs :: 'a word)) :: u8) k = bit (bs ! i) k"
      using k i by (auto simp: bit_simps bit_le_word)
  qed
  then show "le_bytes (length bs) (le_word bs :: 'a word) ! i = bs ! i"
    using i by (simp add: nth_le_bytes)
qed simp

subsection \<open>Words\<close>

lemma unat_of_nat_small: "n < 2 ^ LENGTH('a) \<Longrightarrow> unat (of_nat n :: 'a::len word) = n"
  by (simp add: unsigned_of_nat take_bit_nat_eq_self)

end
