(* ===== verification/Ledger.thy ===== *)
theory Ledger
  imports PgPrelude
begin

section \<open>What the library has allocated\<close>

text \<open>
  The heap blocks, libusb references, open handles and mutexes a function holds, so that leaks and double releases are
  values. Blocks are numbered in the order they are requested; which requests succeed is a parameter.
\<close>

record ledger =
  live :: "nat set"
  next_id :: nat
  alloc_ok :: "nat \<Rightarrow> bool"
  refs :: "nat \<Rightarrow> nat"
  handles :: nat
  mutexes :: nat

definition alloc :: "ledger \<Rightarrow> ledger \<times> nat option" where
  "alloc L =
    (let n = next_id L
     in if alloc_ok L n then (L\<lparr>live := insert n (live L), next_id := Suc n\<rparr>, Some n) else (L\<lparr>next_id := Suc n\<rparr>, None))"

definition release :: "nat option \<Rightarrow> ledger \<Rightarrow> ledger run" where
  "release p L =
    (case p of
       None \<Rightarrow> Inr L
     | Some n \<Rightarrow> if n \<in> live L then Inr (L\<lparr>live := live L - {n}\<rparr>) else Inl Double_free)"

definition ref_device :: "nat \<Rightarrow> ledger \<Rightarrow> ledger" where
  "ref_device d L = L\<lparr>refs := (refs L)(d := Suc (refs L d))\<rparr>"

definition unref_device :: "nat \<Rightarrow> ledger \<Rightarrow> ledger run" where
  "unref_device d L = (if refs L d = 0 then Inl Double_free else Inr (L\<lparr>refs := (refs L)(d := refs L d - 1)\<rparr>))"

text \<open>Every live block has a number already given out.\<close>

definition ledger_ok :: "ledger \<Rightarrow> bool" where
  "ledger_ok L \<longleftrightarrow> (\<forall>n \<in> live L. n < next_id L)"

lemma alloc_success: "alloc_ok L (next_id L) \<Longrightarrow>
    alloc L = (L\<lparr>live := insert (next_id L) (live L), next_id := Suc (next_id L)\<rparr>, Some (next_id L))"
  by (simp add: alloc_def Let_def)

lemma alloc_failure: "\<not> alloc_ok L (next_id L) \<Longrightarrow> alloc L = (L\<lparr>next_id := Suc (next_id L)\<rparr>, None)"
  by (simp add: alloc_def Let_def)

lemma release_live: "n \<in> live L \<Longrightarrow> release (Some n) L = Inr (L\<lparr>live := live L - {n}\<rparr>)"
  by (simp add: release_def)

lemma release_simps [simp]: "release None L = Inr L"
  by (simp add: release_def)

end
