(* ===== verification/ErrorCodes.thy ===== *)
theory ErrorCodes
  imports PgPrelude
begin

section \<open>Error codes (include/pg2sdr.h, corelib/errors.c)\<close>

text \<open>
  The public error enumeration, the three functions that squeeze libusb error codes, libusb
  transfer statuses and errno values into it, and the function that turns a code into a message.
  The numeric values of the libusb constants come from the libusb header, which is not part of
  the repository: they are the fields of a record the translations take as an argument, and
  \<open>libusb_documented\<close> states what the libusb documentation says of them.
\<close>

subsection \<open>The enumeration\<close>

datatype pg2sdr_error =
    SUCCESS
  | ERROR_NOT_FOUND | ERROR_DISCONNECTED | ERROR_BAD_ARGUMENT | ERROR_NO_MEMORY
  | ERROR_NOT_IMPLEMENTED | ERROR_FIRMWARE_MISMATCH | ERROR_MULTIPLE_DEVICES | ERROR_BUSY
  | ERROR_BAD_STATE | ERROR_TIMEOUT | ERROR_CORRUPTION | ERROR_ACCESS | ERROR_LIBRARY_VERSION
  | ERROR_TRANSFER_OTHER | ERROR_TRANSFER_STALL | ERROR_TRANSFER_OVERFLOW | ERROR_TRANSFER_FORMAT
  | ERROR_TUNER_DETECT | ERROR_TUNER_PLL_LOCK | ERROR_TUNER_PLL_RANGE | ERROR_TUNER_I2C
  | ERROR_ADC_RATE_RANGE
  | ERROR_SYSTEM_MAX | ERROR_SYSTEM_MIN | ERROR_LIBUSB_MAX | ERROR_LIBUSB_MIN

primrec error_code :: "pg2sdr_error \<Rightarrow> int" where
  "error_code SUCCESS = 0"
| "error_code ERROR_NOT_FOUND = -1"
| "error_code ERROR_DISCONNECTED = -2"
| "error_code ERROR_BAD_ARGUMENT = -3"
| "error_code ERROR_NO_MEMORY = -4"
| "error_code ERROR_NOT_IMPLEMENTED = -5"
| "error_code ERROR_FIRMWARE_MISMATCH = -6"
| "error_code ERROR_MULTIPLE_DEVICES = -7"
| "error_code ERROR_BUSY = -8"
| "error_code ERROR_BAD_STATE = -9"
| "error_code ERROR_TIMEOUT = -10"
| "error_code ERROR_CORRUPTION = -11"
| "error_code ERROR_ACCESS = -12"
| "error_code ERROR_LIBRARY_VERSION = -13"
| "error_code ERROR_TRANSFER_OTHER = -200"
| "error_code ERROR_TRANSFER_STALL = -201"
| "error_code ERROR_TRANSFER_OVERFLOW = -202"
| "error_code ERROR_TRANSFER_FORMAT = -203"
| "error_code ERROR_TUNER_DETECT = -300"
| "error_code ERROR_TUNER_PLL_LOCK = -301"
| "error_code ERROR_TUNER_PLL_RANGE = -302"
| "error_code ERROR_TUNER_I2C = -303"
| "error_code ERROR_ADC_RATE_RANGE = -304"
| "error_code ERROR_SYSTEM_MAX = -1000"
| "error_code ERROR_SYSTEM_MIN = -1999"
| "error_code ERROR_LIBUSB_MAX = -2000"
| "error_code ERROR_LIBUSB_MIN = -2999"

abbreviation "PG2SDR_SUCCESS \<equiv> error_code SUCCESS"
abbreviation "PG2SDR_ERROR_NOT_FOUND \<equiv> error_code ERROR_NOT_FOUND"
abbreviation "PG2SDR_ERROR_DISCONNECTED \<equiv> error_code ERROR_DISCONNECTED"
abbreviation "PG2SDR_ERROR_BAD_ARGUMENT \<equiv> error_code ERROR_BAD_ARGUMENT"
abbreviation "PG2SDR_ERROR_NO_MEMORY \<equiv> error_code ERROR_NO_MEMORY"
abbreviation "PG2SDR_ERROR_FIRMWARE_MISMATCH \<equiv> error_code ERROR_FIRMWARE_MISMATCH"
abbreviation "PG2SDR_ERROR_MULTIPLE_DEVICES \<equiv> error_code ERROR_MULTIPLE_DEVICES"
abbreviation "PG2SDR_ERROR_BUSY \<equiv> error_code ERROR_BUSY"
abbreviation "PG2SDR_ERROR_BAD_STATE \<equiv> error_code ERROR_BAD_STATE"
abbreviation "PG2SDR_ERROR_TIMEOUT \<equiv> error_code ERROR_TIMEOUT"
abbreviation "PG2SDR_ERROR_CORRUPTION \<equiv> error_code ERROR_CORRUPTION"
abbreviation "PG2SDR_ERROR_ACCESS \<equiv> error_code ERROR_ACCESS"
abbreviation "PG2SDR_ERROR_LIBRARY_VERSION \<equiv> error_code ERROR_LIBRARY_VERSION"
abbreviation "PG2SDR_ERROR_TRANSFER_OTHER \<equiv> error_code ERROR_TRANSFER_OTHER"
abbreviation "PG2SDR_ERROR_TRANSFER_STALL \<equiv> error_code ERROR_TRANSFER_STALL"
abbreviation "PG2SDR_ERROR_TRANSFER_OVERFLOW \<equiv> error_code ERROR_TRANSFER_OVERFLOW"
abbreviation "PG2SDR_ERROR_TRANSFER_FORMAT \<equiv> error_code ERROR_TRANSFER_FORMAT"
abbreviation "PG2SDR_ERROR_TUNER_DETECT \<equiv> error_code ERROR_TUNER_DETECT"
abbreviation "PG2SDR_ERROR_TUNER_PLL_LOCK \<equiv> error_code ERROR_TUNER_PLL_LOCK"
abbreviation "PG2SDR_ERROR_TUNER_PLL_RANGE \<equiv> error_code ERROR_TUNER_PLL_RANGE"
abbreviation "PG2SDR_ERROR_TUNER_I2C \<equiv> error_code ERROR_TUNER_I2C"
abbreviation "PG2SDR_ERROR_ADC_RATE_RANGE \<equiv> error_code ERROR_ADC_RATE_RANGE"
abbreviation "PG2SDR_ERROR_SYSTEM_MAX \<equiv> error_code ERROR_SYSTEM_MAX"
abbreviation "PG2SDR_ERROR_SYSTEM_MIN \<equiv> error_code ERROR_SYSTEM_MIN"
abbreviation "PG2SDR_ERROR_LIBUSB_MAX \<equiv> error_code ERROR_LIBUSB_MAX"
abbreviation "PG2SDR_ERROR_LIBUSB_MIN \<equiv> error_code ERROR_LIBUSB_MIN"

subsection \<open>libusb's constants\<close>

record libusb_consts =
  LIBUSB_ERROR_IO :: int
  LIBUSB_ERROR_ACCESS :: int
  LIBUSB_ERROR_NO_DEVICE :: int
  LIBUSB_ERROR_BUSY :: int
  LIBUSB_ERROR_TIMEOUT :: int
  LIBUSB_ERROR_PIPE :: int
  LIBUSB_ERROR_INTERRUPTED :: int
  LIBUSB_ERROR_NO_MEM :: int

text \<open>
  The documentation of libusb-1.0: error codes are negative, distinct, and small; success is 0.
\<close>

definition libusb_codes :: "libusb_consts \<Rightarrow> int list" where
  "libusb_codes L = [LIBUSB_ERROR_IO L, LIBUSB_ERROR_ACCESS L, LIBUSB_ERROR_NO_DEVICE L,
     LIBUSB_ERROR_BUSY L, LIBUSB_ERROR_TIMEOUT L, LIBUSB_ERROR_PIPE L,
     LIBUSB_ERROR_INTERRUPTED L, LIBUSB_ERROR_NO_MEM L]"

definition libusb_documented :: "libusb_consts \<Rightarrow> bool" where
  "libusb_documented L \<longleftrightarrow> distinct (libusb_codes L) \<and> list_all (\<lambda>e. -100 < e \<and> e < 0) (libusb_codes L)"

definition libusb_1_0 :: libusb_consts where
  "libusb_1_0 = \<lparr>LIBUSB_ERROR_IO = -1, LIBUSB_ERROR_ACCESS = -3, LIBUSB_ERROR_NO_DEVICE = -4,
     LIBUSB_ERROR_BUSY = -6, LIBUSB_ERROR_TIMEOUT = -7, LIBUSB_ERROR_PIPE = -9,
     LIBUSB_ERROR_INTERRUPTED = -10, LIBUSB_ERROR_NO_MEM = -11\<rparr>"

lemma libusb_1_0_documented [simp]: "libusb_documented libusb_1_0"
  by (simp add: libusb_documented_def libusb_codes_def libusb_1_0_def)

datatype transfer_status =
    TRANSFER_COMPLETED | TRANSFER_ERROR | TRANSFER_TIMED_OUT | TRANSFER_CANCELLED
  | TRANSFER_STALL | TRANSFER_NO_DEVICE | TRANSFER_OVERFLOW

subsection \<open>Translations\<close>

definition translate_libusb_error :: "libusb_consts \<Rightarrow> int \<Rightarrow> int" where
  "translate_libusb_error L error =
    (if error = 0 then PG2SDR_SUCCESS
     else if error = LIBUSB_ERROR_NO_DEVICE L then PG2SDR_ERROR_DISCONNECTED
     else if error = LIBUSB_ERROR_BUSY L then PG2SDR_ERROR_BUSY
     else if error = LIBUSB_ERROR_TIMEOUT L then PG2SDR_ERROR_TIMEOUT
     else if error = LIBUSB_ERROR_NO_MEM L then PG2SDR_ERROR_NO_MEMORY
     else if error = LIBUSB_ERROR_ACCESS L then PG2SDR_ERROR_ACCESS
     else
       let converted = PG2SDR_ERROR_LIBUSB_MIN - error
       in if PG2SDR_ERROR_LIBUSB_MIN \<le> converted \<and> converted \<le> PG2SDR_ERROR_LIBUSB_MAX
          then converted else PG2SDR_ERROR_LIBUSB_MIN)"

primrec translate_libusb_transfer_status :: "transfer_status \<Rightarrow> int" where
  "translate_libusb_transfer_status TRANSFER_COMPLETED = PG2SDR_SUCCESS"
| "translate_libusb_transfer_status TRANSFER_TIMED_OUT = PG2SDR_ERROR_TIMEOUT"
| "translate_libusb_transfer_status TRANSFER_STALL = PG2SDR_ERROR_TRANSFER_STALL"
| "translate_libusb_transfer_status TRANSFER_OVERFLOW = PG2SDR_ERROR_TRANSFER_OVERFLOW"
| "translate_libusb_transfer_status TRANSFER_NO_DEVICE = PG2SDR_ERROR_DISCONNECTED"
| "translate_libusb_transfer_status TRANSFER_ERROR = PG2SDR_ERROR_TRANSFER_OTHER"
| "translate_libusb_transfer_status TRANSFER_CANCELLED = PG2SDR_ERROR_TRANSFER_OTHER"

text \<open>ENOMEM and EACCES have the values of the Linux ABI, the only platform the library builds on.\<close>

definition translate_errno :: "int \<Rightarrow> int" where
  "translate_errno error =
    (if error = 0 then PG2SDR_SUCCESS
     else if error = 12 then PG2SDR_ERROR_NO_MEMORY
     else if error = 13 then PG2SDR_ERROR_ACCESS
     else
       let converted = PG2SDR_ERROR_SYSTEM_MIN + error
       in if PG2SDR_ERROR_SYSTEM_MIN \<le> converted \<and> converted \<le> PG2SDR_ERROR_SYSTEM_MAX
          then converted else PG2SDR_ERROR_SYSTEM_MIN)"

subsection \<open>Messages\<close>

text \<open>
  \<open>pg2sdr_strerror_r\<close> either formats the underlying system or libusb message (whose text belongs
  to libc and libusb), returns a fixed string, or formats the number of an unknown code.
\<close>

datatype strerror_result =
    Sys_message int       \<comment> \<open>errno whose strerror text is formatted\<close>
  | Libusb_message int    \<comment> \<open>libusb code whose libusb_strerror text is formatted\<close>
  | Fixed_message string
  | Unknown_code int

primrec fixed_message :: "pg2sdr_error \<Rightarrow> string option" where
  "fixed_message SUCCESS = Some ''no error''"
| "fixed_message ERROR_NOT_FOUND = Some ''No matching device found''"
| "fixed_message ERROR_DISCONNECTED = Some ''Device unexpectedly disconnected''"
| "fixed_message ERROR_BAD_ARGUMENT = Some ''Bad argument to API call''"
| "fixed_message ERROR_NO_MEMORY = Some ''Memory allocation failed''"
| "fixed_message ERROR_NOT_IMPLEMENTED = Some ''Operation not implemented''"
| "fixed_message ERROR_FIRMWARE_MISMATCH = Some ''Host/firmware version mismatch''"
| "fixed_message ERROR_MULTIPLE_DEVICES = Some ''More than one matching device found''"
| "fixed_message ERROR_BUSY = Some ''Device already in use''"
| "fixed_message ERROR_BAD_STATE = Some ''Operation not possible in this state''"
| "fixed_message ERROR_TIMEOUT = Some ''Operation timed out''"
| "fixed_message ERROR_CORRUPTION = Some ''Heap corruption, double-free, or use-after-free detected''"
| "fixed_message ERROR_ACCESS = Some ''Insufficient permissions to access device''"
| "fixed_message ERROR_LIBRARY_VERSION = Some ''Library version is older than expected version''"
| "fixed_message ERROR_TRANSFER_OTHER = Some ''Unexpected libusb transfer status''"
| "fixed_message ERROR_TRANSFER_STALL = Some ''Bulk endpoint stalled''"
| "fixed_message ERROR_TRANSFER_OVERFLOW = Some ''Received unexpected data on bulk endpoint''"
| "fixed_message ERROR_TRANSFER_FORMAT = Some ''Received malformed data on bulk endpoint''"
| "fixed_message ERROR_TUNER_DETECT = Some ''Tuner not present on I2C bus''"
| "fixed_message ERROR_TUNER_PLL_LOCK = Some ''Tuner LO PLL did not lock''"
| "fixed_message ERROR_TUNER_PLL_RANGE = Some ''Required tuner PLL frequency out of range''"
| "fixed_message ERROR_TUNER_I2C = Some ''Tuner I2C bus communication error''"
| "fixed_message ERROR_ADC_RATE_RANGE = Some ''Required ADC sampling rate out of range for ADC hardware''"
| "fixed_message ERROR_SYSTEM_MIN = Some ''Unknown system error''"
| "fixed_message ERROR_LIBUSB_MIN = Some ''Unknown libusb error''"
| "fixed_message ERROR_LIBUSB_MAX = None"
| "fixed_message ERROR_SYSTEM_MAX = None"

definition all_errors :: "pg2sdr_error list" where
  "all_errors = [SUCCESS, ERROR_NOT_FOUND, ERROR_DISCONNECTED, ERROR_BAD_ARGUMENT, ERROR_NO_MEMORY,
     ERROR_NOT_IMPLEMENTED, ERROR_FIRMWARE_MISMATCH, ERROR_MULTIPLE_DEVICES, ERROR_BUSY,
     ERROR_BAD_STATE, ERROR_TIMEOUT, ERROR_CORRUPTION, ERROR_ACCESS, ERROR_LIBRARY_VERSION,
     ERROR_TRANSFER_OTHER, ERROR_TRANSFER_STALL, ERROR_TRANSFER_OVERFLOW, ERROR_TRANSFER_FORMAT,
     ERROR_TUNER_DETECT, ERROR_TUNER_PLL_LOCK, ERROR_TUNER_PLL_RANGE, ERROR_TUNER_I2C,
     ERROR_ADC_RATE_RANGE, ERROR_SYSTEM_MAX, ERROR_SYSTEM_MIN, ERROR_LIBUSB_MAX, ERROR_LIBUSB_MIN]"

definition strerror_r :: "int \<Rightarrow> strerror_result" where
  "strerror_r error =
    (if PG2SDR_ERROR_SYSTEM_MIN < error \<and> error \<le> PG2SDR_ERROR_SYSTEM_MAX
     then Sys_message (error - PG2SDR_ERROR_SYSTEM_MIN)
     else if PG2SDR_ERROR_LIBUSB_MIN < error \<and> error \<le> PG2SDR_ERROR_LIBUSB_MAX
     then Libusb_message (- (error - PG2SDR_ERROR_LIBUSB_MIN))
     else case find (\<lambda>e. error_code e = error) all_errors of
       Some e \<Rightarrow> (case fixed_message e of Some m \<Rightarrow> Fixed_message m | None \<Rightarrow> Unknown_code error)
     | None \<Rightarrow> Unknown_code error)"

subsection \<open>Facts\<close>

lemma all_errors_complete: "e \<in> set all_errors"
  by (cases e) (simp_all add: all_errors_def)

lemma error_code_inj: "error_code a = error_code b \<Longrightarrow> a = b"
  by (cases a; cases b; simp)

lemma error_code_le_0: "error_code e \<le> 0"
  by (cases e) simp_all

lemma translate_libusb_error_le_0: "translate_libusb_error L e \<le> 0"
  by (simp add: translate_libusb_error_def Let_def)

lemma translate_libusb_error_neg: "e \<noteq> 0 \<Longrightarrow> translate_libusb_error L e < 0"
  by (simp add: translate_libusb_error_def Let_def)

text \<open>Which libusb codes have an error of their own: those only are not recoverable by number.\<close>

definition has_own_error :: "libusb_consts \<Rightarrow> int \<Rightarrow> bool" where
  "has_own_error L e \<longleftrightarrow> e = 0 \<or> e \<in> {LIBUSB_ERROR_NO_DEVICE L, LIBUSB_ERROR_BUSY L,
     LIBUSB_ERROR_TIMEOUT L, LIBUSB_ERROR_NO_MEM L, LIBUSB_ERROR_ACCESS L}"

lemma translate_generic:
  "\<not> has_own_error L e \<Longrightarrow> -999 \<le> e \<Longrightarrow> e \<le> 0 \<Longrightarrow> translate_libusb_error L e = -2999 - e"
  by (simp add: translate_libusb_error_def has_own_error_def Let_def)

lemma strerror_libusb_range: "-2999 < c \<Longrightarrow> c \<le> -2000 \<Longrightarrow> strerror_r c = Libusb_message (-2999 - c)"
  by (simp add: strerror_r_def)

lemma strerror_errno_range: "-1999 < c \<Longrightarrow> c \<le> -1000 \<Longrightarrow> strerror_r c = Sys_message (c + 1999)"
  by (simp add: strerror_r_def)

end
