(* ===== verification/UsbControl.thy ===== *)
theory UsbControl
  imports ErrorCodes
begin

section \<open>Control transfers (corelib/control.c, include/internal/core.h)\<close>

text \<open>
  Every exchange with the firmware is a USB control transfer. \<open>libusb_control_transfer\<close> itself,
  the device behind it and the protocol header (a git submodule) are not part of the repository:
  they are the fields of \<open>usb_env\<close>, an argument of every function that talks to the device. The
  state of everything on the other side of the cable is the type variable \<open>'u\<close>.
\<close>

subsection \<open>The environment\<close>

datatype request_kind = Vendor_device | Class_interface

record ctrl_setup =
  req_kind :: request_kind
  dir_in :: bool
  bRequest :: u8
  wValue :: u16
  wIndex :: u16
  out_data :: "u8 list"      \<comment> \<open>the bytes sent, for an OUT transfer\<close>
  wLength :: u16
  ctrl_timeout :: nat

text \<open>The 32-bit members of \<open>ep0_in_board_status_t\<close>, in the order the code copies them.\<close>

datatype status_field =
    ST_flags | ST_hsadc_frequency | ST_pll_stat | ST_pll_ctrl | ST_pll_mdiv | ST_pll_np_div
  | ST_pll_frac | ST_idiv_e_ctrl | ST_adchs_fifo_cfg | ST_adchs_config | ST_adchs_adc_speed
  | ST_adchs_power_control | ST_adchs_int0_status | ST_adchs_fifo_sts | ST_adchs_dscr_sts
  | ST_gpdma_config | ST_gpdma_enbldchns | ST_gpdma_rawinttcstat | ST_gpdma_rawinterrstat
  | ST_gpdma0_config | ST_gpdma0_control | ST_gpdma0_srcaddr | ST_gpdma0_destaddr | ST_gpdma0_lli
  | ST_current_lli | ST_next_sequence | ST_usb_free_buffers | ST_usb_filled_buffers
  | ST_usb_samples_per_block | ST_usb_bytes_per_block | ST_m4_freq | ST_m4_mean_idle
  | ST_m4_mean_idle_scale | ST_m4_min_idle | ST_m4_min_idle_scale | ST_clock_32k | ST_clock_irc
  | ST_clock_pll0usb | ST_clock_pll0audio | ST_clock_pll1 | ST_clock_idiv_a | ST_clock_idiv_b
  | ST_clock_idiv_c | ST_clock_idiv_d | ST_clock_idiv_e | ST_tuner_xtal

record board_status =
  st_field :: "status_field \<Rightarrow> u32"
  st_serial_number :: u64

record firmware_metadata =
  md_version :: u32
  md_compat :: u32
  md_max_control_transfer :: u16
  md_control_timeout_ms :: u16
  md_build_type :: "u8 list"
  md_boot_mode :: u16

record protocol =
  EP0_OUT_START_TRANSFER :: u8
  EP0_OUT_STOP_TRANSFER :: u8
  EP0_IN_BOARD_STATUS :: u8
  EP0_IN_METADATA :: u8
  EP0_IN_COMMS_CHECK :: u8
  EP0_OUT_COMMS_CHECK :: u8
  EP0_OUT_TUNER_UPDATE :: u8
  EP0_OUT_SET_RF_POWER :: u8
  EP0_IN_TUNER_READ :: u8
  EP0_IN_TUNER_LOCK :: u8
  EP0_IN_FLASH_READ_QUAD :: u8
  EP0_OUT_FLASH_WRITE :: u8
  EP0_OUT_FLASH_ERASE :: u8
  EP0_OUT_LOAD_IMAGE :: u8
  EP0_OUT_RESET :: u8
  EP0_OUT_LED_PATTERN :: u8
  COMMS_CHECK_MAGIC :: u32
  STATUS_TUNER_I2C_ERROR :: u32
  RF_POWER_RESET :: u16
  RF_POWER_OFF :: u16
  CACHE_NORMAL :: u16
  BOOT_MODE_UNKNOWN :: u16
  PG2_CURRENT_VERSION :: u32
  PG2_COMPAT_VERSION :: u32
  status_size :: nat
  status_offset :: "status_field \<Rightarrow> nat"
  serial_offset :: nat
  start_transfer_struct :: "u8 list \<Rightarrow> u8 list \<Rightarrow> u8 list \<Rightarrow> u8 list \<Rightarrow> u8 list"
     \<comment> \<open>the wire image of \<open>ep0_out_start_transfer_t\<close> from its (swapped) members\<close>
  comms_check_size :: nat
  off_comms_magic :: nat
  comms_check_struct :: "u8 list \<Rightarrow> u8 list"
  tuner_lock_size :: nat
  off_pll_locked :: nat
  meta_size :: nat
  off_version :: nat
  off_compat :: nat
  off_max_control_transfer :: nat
  off_control_timeout_ms :: nat
  off_build_type :: nat
  size_build_type :: nat
  off_boot_mode :: nat

record 'u usb_env =
  libusb_control_transfer :: "'u \<Rightarrow> ctrl_setup \<Rightarrow> 'u \<times> int \<times> u8 list"
  lu :: libusb_consts
  proto :: protocol

subsection \<open>control_in and control_out\<close>

definition DEFAULT_CONTROL_TIMEOUT :: nat where
  "DEFAULT_CONTROL_TIMEOUT = 1000"

definition control_in ::
  "'u usb_env \<Rightarrow> 'u \<Rightarrow> u8 \<Rightarrow> u16 \<Rightarrow> u16 \<Rightarrow> nat \<Rightarrow> nat \<Rightarrow> 'u \<times> int \<times> u8 list" where
  "control_in E u req val idx len timeout_ms =
    (let (u', count, data) = libusb_control_transfer E u
           \<lparr>req_kind = Vendor_device, dir_in = True, bRequest = req, wValue = val, wIndex = idx,
            out_data = [], wLength = of_nat len,
            ctrl_timeout = (if timeout_ms \<noteq> 0 then timeout_ms else DEFAULT_CONTROL_TIMEOUT)\<rparr>
     in if count < 0 then (u', translate_libusb_error (lu E) count, data)
        else if count \<noteq> uint (of_nat len :: u16) then (u', PG2SDR_ERROR_FIRMWARE_MISMATCH, data)
        else (u', PG2SDR_SUCCESS, data))"

definition control_out ::
  "'u usb_env \<Rightarrow> 'u \<Rightarrow> u8 \<Rightarrow> u16 \<Rightarrow> u16 \<Rightarrow> u8 list \<Rightarrow> nat \<Rightarrow> 'u \<times> int" where
  "control_out E u req val idx data timeout_ms =
    (let (u', count, _) = libusb_control_transfer E u
           \<lparr>req_kind = Vendor_device, dir_in = False, bRequest = req, wValue = val, wIndex = idx,
            out_data = data, wLength = of_nat (length data),
            ctrl_timeout = (if timeout_ms \<noteq> 0 then timeout_ms else DEFAULT_CONTROL_TIMEOUT)\<rparr>
     in if count < 0 then (u', translate_libusb_error (lu E) count)
        else if count \<noteq> uint (of_nat (length data) :: u16) then (u', PG2SDR_ERROR_FIRMWARE_MISMATCH)
        else (u', PG2SDR_SUCCESS))"

subsection \<open>Board status and the tuner variants\<close>

definition decode_status :: "protocol \<Rightarrow> u8 list \<Rightarrow> board_status" where
  "decode_status P bs = \<lparr>st_field = (\<lambda>f. le_at 4 (status_offset P f) bs),
     st_serial_number = le_at 8 (serial_offset P) bs\<rparr>"

definition ctrl_get_status ::
  "'u usb_env \<Rightarrow> 'u \<Rightarrow> bool \<Rightarrow> nat \<Rightarrow> 'u \<times> int \<times> board_status option" where
  "ctrl_get_status E u measure_clocks timeout_ms =
    (let (u', error, data) = control_in E u (EP0_IN_BOARD_STATUS (proto E))
           (if measure_clocks then 1 else 0) 0 (status_size (proto E)) timeout_ms
     in if error < 0 then (u', error, None)
        else (u', PG2SDR_SUCCESS, Some (decode_status (proto E) data)))"

text \<open>
  After a pipe error the tuner variants ask the board whether it saw an I2C error, and refine the
  generic code when it did.
\<close>

definition refine_tuner_error :: "'u usb_env \<Rightarrow> 'u \<Rightarrow> int \<Rightarrow> nat \<Rightarrow> 'u \<times> int" where
  "refine_tuner_error E u error timeout_ms =
    (if error = PG2SDR_ERROR_LIBUSB_MIN - LIBUSB_ERROR_PIPE (lu E) then
       (case ctrl_get_status E u False timeout_ms of
          (u', e, Some status) \<Rightarrow>
            if 0 \<le> e \<and> st_field status ST_flags AND STATUS_TUNER_I2C_ERROR (proto E) \<noteq> 0
            then (u', PG2SDR_ERROR_TUNER_I2C) else (u', error)
        | (u', e, None) \<Rightarrow> (u', error))
     else (u, error))"

definition tuner_control_in ::
  "'u usb_env \<Rightarrow> 'u \<Rightarrow> u8 \<Rightarrow> u16 \<Rightarrow> u16 \<Rightarrow> nat \<Rightarrow> nat \<Rightarrow> 'u \<times> int \<times> u8 list" where
  "tuner_control_in E u req val idx len timeout_ms =
    (let (u1, error, data) = control_in E u req val idx len timeout_ms;
         (u2, error') = refine_tuner_error E u1 error timeout_ms
     in (u2, error', data))"

definition tuner_control_out ::
  "'u usb_env \<Rightarrow> 'u \<Rightarrow> u8 \<Rightarrow> u16 \<Rightarrow> u16 \<Rightarrow> u8 list \<Rightarrow> nat \<Rightarrow> 'u \<times> int" where
  "tuner_control_out E u req val idx data timeout_ms =
    (let (u1, error) = control_out E u req val idx data timeout_ms
     in refine_tuner_error E u1 error timeout_ms)"

subsection \<open>The commands\<close>

record start_transfer =
  n_divisor :: u32
  m_divisor :: u32
  p_divisor :: u32
  idiv_divisor :: u32

definition ctrl_start_transfer :: "'u usb_env \<Rightarrow> 'u \<Rightarrow> start_transfer \<Rightarrow> nat \<Rightarrow> 'u \<times> int" where
  "ctrl_start_transfer E u config timeout_ms =
    control_out E u (EP0_OUT_START_TRANSFER (proto E)) 0 0
      (start_transfer_struct (proto E) (le_bytes 4 (n_divisor config)) (le_bytes 4 (m_divisor config))
         (le_bytes 4 (p_divisor config)) (le_bytes 4 (idiv_divisor config))) timeout_ms"

definition ctrl_stop_transfer :: "'u usb_env \<Rightarrow> 'u \<Rightarrow> nat \<Rightarrow> 'u \<times> int" where
  "ctrl_stop_transfer E u timeout_ms =
    control_out E u (EP0_OUT_STOP_TRANSFER (proto E)) 0 0 [] timeout_ms"

definition decode_metadata :: "protocol \<Rightarrow> u8 list \<Rightarrow> firmware_metadata" where
  "decode_metadata P bs =
    (let v = le_at 4 (off_version P) bs;
         bt = take (size_build_type P) (drop (off_build_type P) bs)
     in \<lparr>md_version = v,
         md_compat = le_at 4 (off_compat P) bs,
         md_max_control_transfer = le_at 2 (off_max_control_transfer P) bs,
         md_control_timeout_ms = le_at 2 (off_control_timeout_ms P) bs,
         md_build_type = bt[size_build_type P - 1 := 0],
         md_boot_mode = (if 0x00090700 \<le> v then le_at 2 (off_boot_mode P) bs
                         else BOOT_MODE_UNKNOWN P)\<rparr>)"

definition ctrl_get_metadata ::
  "'u usb_env \<Rightarrow> 'u \<Rightarrow> nat \<Rightarrow> 'u \<times> int \<times> firmware_metadata option" where
  "ctrl_get_metadata E u timeout_ms =
    (let (u', error, data) = control_in E u (EP0_IN_METADATA (proto E)) 0 0 (meta_size (proto E)) timeout_ms
     in if error < 0 then (u', error, None)
        else (u', PG2SDR_SUCCESS, Some (decode_metadata (proto E) data)))"

definition ctrl_comms_check :: "'u usb_env \<Rightarrow> 'u \<Rightarrow> nat \<Rightarrow> 'u \<times> int" where
  "ctrl_comms_check E u timeout_ms =
    (let (u1, error, data) = control_in E u (EP0_IN_COMMS_CHECK (proto E)) 0 0
            (comms_check_size (proto E)) timeout_ms
     in if error < 0 then (u1, error)
        else if le_at 4 (off_comms_magic (proto E)) data \<noteq> COMMS_CHECK_MAGIC (proto E)
        then (u1, PG2SDR_ERROR_FIRMWARE_MISMATCH)
        else let (u2, error2) = control_out E u1 (EP0_OUT_COMMS_CHECK (proto E)) 0 0
                    (comms_check_struct (proto E) (le_bytes 4 (COMMS_CHECK_MAGIC (proto E)))) timeout_ms
             in if error2 < 0 then (u2, error2) else (u2, PG2SDR_SUCCESS))"

definition ctrl_tuner_update :: "'u usb_env \<Rightarrow> 'u \<Rightarrow> u16 \<Rightarrow> u8 list \<Rightarrow> nat \<Rightarrow> 'u \<times> int" where
  "ctrl_tuner_update E u first payload timeout_ms =
    tuner_control_out E u (EP0_OUT_TUNER_UPDATE (proto E)) first 0 payload timeout_ms"

definition ctrl_set_rf_power :: "'u usb_env \<Rightarrow> 'u \<Rightarrow> u16 \<Rightarrow> nat \<Rightarrow> 'u \<times> int" where
  "ctrl_set_rf_power E u mode timeout_ms =
    control_out E u (EP0_OUT_SET_RF_POWER (proto E)) mode 0 [] timeout_ms"

definition ctrl_read_tuner_register ::
  "'u usb_env \<Rightarrow> 'u \<Rightarrow> u16 \<Rightarrow> u16 \<Rightarrow> nat \<Rightarrow> nat \<Rightarrow> 'u \<times> int \<times> u8 list" where
  "ctrl_read_tuner_register E u first_reg cache_mode len timeout_ms =
    tuner_control_in E u (EP0_IN_TUNER_READ (proto E)) first_reg cache_mode len timeout_ms"

text \<open>The member \<open>pll_locked\<close> is read without byte swapping: it is a byte.\<close>

definition ctrl_update_tuner_lock :: "'u usb_env \<Rightarrow> 'u \<Rightarrow> u16 \<Rightarrow> u16 \<Rightarrow> nat \<Rightarrow> 'u \<times> int" where
  "ctrl_update_tuner_lock E u vco_current lock_timeout timeout_ms =
    (let (u', error, data) = tuner_control_in E u (EP0_IN_TUNER_LOCK (proto E)) vco_current lock_timeout
            (tuner_lock_size (proto E)) timeout_ms
     in if error < 0 then (u', error) else (u', uint (le_at 1 (off_pll_locked (proto E)) data :: u8)))"

text \<open>A 32-bit address or pattern travels as \<open>wValue\<close> (low half) and \<open>wIndex\<close> (high half).\<close>

definition low16 :: "u32 \<Rightarrow> u16" where
  "low16 a = ucast (a AND 0xFFFF)"

definition high16 :: "u32 \<Rightarrow> u16" where
  "high16 a = ucast (drop_bit 16 a)"

definition ctrl_flash_read_quad :: "'u usb_env \<Rightarrow> 'u \<Rightarrow> u32 \<Rightarrow> nat \<Rightarrow> nat \<Rightarrow> 'u \<times> int \<times> u8 list" where
  "ctrl_flash_read_quad E u address len timeout_ms =
    control_in E u (EP0_IN_FLASH_READ_QUAD (proto E)) (low16 address) (high16 address) len timeout_ms"

definition ctrl_flash_write :: "'u usb_env \<Rightarrow> 'u \<Rightarrow> u32 \<Rightarrow> u8 list \<Rightarrow> nat \<Rightarrow> 'u \<times> int" where
  "ctrl_flash_write E u address buf timeout_ms =
    control_out E u (EP0_OUT_FLASH_WRITE (proto E)) (low16 address) (high16 address) buf timeout_ms"

definition ctrl_flash_erase :: "'u usb_env \<Rightarrow> 'u \<Rightarrow> u32 \<Rightarrow> nat \<Rightarrow> 'u \<times> int" where
  "ctrl_flash_erase E u address timeout_ms =
    control_out E u (EP0_OUT_FLASH_ERASE (proto E)) (low16 address) (high16 address) [] timeout_ms"

definition ctrl_load_image :: "'u usb_env \<Rightarrow> 'u \<Rightarrow> u32 \<Rightarrow> u8 list \<Rightarrow> nat \<Rightarrow> 'u \<times> int" where
  "ctrl_load_image E u address buf timeout_ms =
    control_out E u (EP0_OUT_LOAD_IMAGE (proto E)) (low16 address) (high16 address) buf timeout_ms"

definition ctrl_reset :: "'u usb_env \<Rightarrow> 'u \<Rightarrow> nat \<Rightarrow> 'u \<times> int" where
  "ctrl_reset E u timeout_ms = control_out E u (EP0_OUT_RESET (proto E)) 0 0 [] timeout_ms"

definition ctrl_led_pattern :: "'u usb_env \<Rightarrow> 'u \<Rightarrow> u32 \<Rightarrow> nat \<Rightarrow> 'u \<times> int" where
  "ctrl_led_pattern E u pattern timeout_ms =
    control_out E u (EP0_OUT_LED_PATTERN (proto E)) (low16 pattern) (high16 pattern) [] timeout_ms"

subsection \<open>Lemmas\<close>

definition join16 :: "u16 \<Rightarrow> u16 \<Rightarrow> u32" where
  "join16 hi lo = push_bit 16 (ucast hi) OR ucast lo"

lemma low16_bit: "k < 16 \<Longrightarrow> bit (low16 a) k = bit a k"
proof -
  have m: "(0xFFFF :: u32) = mask 16" by (simp add: mask_eq_exp_minus_1)
  show "k < 16 \<Longrightarrow> bit (low16 a) k = bit a k" by (simp add: low16_def m bit_simps)
qed

lemma join_split: "join16 (high16 a) (low16 a) = a"
proof (rule bit_word_eqI)
  fix k assume "k < LENGTH(32)"
  then show "bit (join16 (high16 a) (low16 a)) k = bit a k"
    by (cases "k < 16") (auto simp: join16_def high16_def low16_bit bit_simps dest: bit_imp_le_length)
qed

lemma control_out_le_0: "snd (control_out E u r v i d t) \<le> 0"
  by (auto simp: control_out_def Let_def split: prod.splits
      intro: translate_libusb_error_le_0)

lemma control_in_le_0: "fst (snd (control_in E u r v i l t)) \<le> 0"
  by (auto simp: control_in_def Let_def split: prod.splits
      intro: translate_libusb_error_le_0)

lemma refine_tuner_error_neg_iff: "snd (refine_tuner_error E u e t) < 0 \<longleftrightarrow> e < 0"
  if "LIBUSB_ERROR_PIPE (lu E) > -2999"
  using that
  by (auto simp: refine_tuner_error_def split: prod.splits option.splits)

lemma refine_tuner_error_0 [simp]:
  "LIBUSB_ERROR_PIPE (lu E) > -2999 \<Longrightarrow> refine_tuner_error E u 0 t = (u, 0)"
  by (simp add: refine_tuner_error_def)

lemma tuner_control_out_le_0: "snd (tuner_control_out E u r v i d t) \<le> 0"
  using control_out_le_0 [of E u r v i d t]
  by (auto simp: tuner_control_out_def refine_tuner_error_def Let_def
      split: prod.splits option.splits)

lemma ctrl_tuner_update_le_0: "snd (ctrl_tuner_update E u f p t) \<le> 0"
  by (simp add: ctrl_tuner_update_def tuner_control_out_le_0)

lemma control_out_success:
  assumes "control_out E u r v i d t = (u', 0)"
  obtains ret where "libusb_control_transfer E u
     \<lparr>req_kind = Vendor_device, dir_in = False, bRequest = r, wValue = v, wIndex = i, out_data = d,
      wLength = of_nat (length d), ctrl_timeout = (if t \<noteq> 0 then t else DEFAULT_CONTROL_TIMEOUT)\<rparr>
     = (u', uint (of_nat (length d) :: u16), ret)"
proof (cases "libusb_control_transfer E u
     \<lparr>req_kind = Vendor_device, dir_in = False, bRequest = r, wValue = v, wIndex = i, out_data = d,
      wLength = of_nat (length d), ctrl_timeout = (if t \<noteq> 0 then t else DEFAULT_CONTROL_TIMEOUT)\<rparr>")
  case (fields w count ret)
  have "translate_libusb_error (lu E) count \<noteq> 0" if "count < 0"
    using that translate_libusb_error_neg [of count "lu E"] by simp
  with assms fields have "w = u'" "count = uint (of_nat (length d) :: u16)"
    unfolding control_out_def Let_def by (simp_all split: if_splits)
  with fields that show thesis by simp
qed

subsection \<open>A concrete environment\<close>

text \<open>
  A protocol with arbitrary request codes and packed little-endian structures, and a device that
  accepts every request and answers every read with zeros. They show that the hypotheses on the
  environment can hold; nothing general rests on them.
\<close>

definition sample_protocol :: protocol where
  "sample_protocol = \<lparr>
     EP0_OUT_START_TRANSFER = 1, EP0_OUT_STOP_TRANSFER = 2, EP0_IN_BOARD_STATUS = 3,
     EP0_IN_METADATA = 4, EP0_IN_COMMS_CHECK = 5, EP0_OUT_COMMS_CHECK = 6,
     EP0_OUT_TUNER_UPDATE = 7, EP0_OUT_SET_RF_POWER = 8, EP0_IN_TUNER_READ = 9,
     EP0_IN_TUNER_LOCK = 10, EP0_IN_FLASH_READ_QUAD = 11, EP0_OUT_FLASH_WRITE = 12,
     EP0_OUT_FLASH_ERASE = 13, EP0_OUT_LOAD_IMAGE = 14, EP0_OUT_RESET = 15,
     EP0_OUT_LED_PATTERN = 16, COMMS_CHECK_MAGIC = 0x12345678, STATUS_TUNER_I2C_ERROR = 1,
     RF_POWER_RESET = 2, RF_POWER_OFF = 0, CACHE_NORMAL = 0, BOOT_MODE_UNKNOWN = 0,
     PG2_CURRENT_VERSION = 0x00090700, PG2_COMPAT_VERSION = 0x00090000,
     status_size = 192, status_offset = (\<lambda>f. 0), serial_offset = 184,
     start_transfer_struct = (\<lambda>n m p i. n @ m @ p @ i),
     comms_check_size = 4, off_comms_magic = 0, comms_check_struct = (\<lambda>m. m),
     tuner_lock_size = 1, off_pll_locked = 0, meta_size = 32, off_version = 0, off_compat = 4,
     off_max_control_transfer = 8, off_control_timeout_ms = 10, off_build_type = 12,
     size_build_type = 16, off_boot_mode = 28\<rparr>"

definition accepting_env :: "unit usb_env" where
  "accepting_env = \<lparr>libusb_control_transfer =
       (\<lambda>u s. (u, uint (wLength s), if dir_in s then replicate (unat (wLength s)) 0 else [])),
     lu = libusb_1_0, proto = sample_protocol\<rparr>"

end
