(* ===== verification/IeeeRound.thy ===== *)
theory IeeeRound
  imports PgPrelude
begin

section \<open>Floating-point rounding\<close>

text \<open>
  Round to nearest, ties to even, on rationals: to integers, and to a number of significant bits, with the error bounds the frequency
  calculations need. The range of the exponent is not modelled.
\<close>

subsection \<open>Rounding to an integer, ties to even\<close>

definition rne :: "rat \<Rightarrow> int" where
  "rne x = (let f = \<lfloor>x\<rfloor>; d = x - of_int f in
     if d < 1 / 2 then f else if 1 / 2 < d then f + 1 else if even f then f else f + 1)"

lemma rne_bounds: "\<lfloor>x\<rfloor> \<le> rne x" "rne x \<le> \<lfloor>x\<rfloor> + 1"
  by (simp_all add: rne_def Let_def)

lemma rne_of_int [simp]: "rne (of_int n) = n"
  by (simp add: rne_def)

lemma rne_numeral [simp]: "rne 0 = 0" "rne 1 = 1" "rne (numeral n) = numeral n"
  using rne_of_int [of 0] rne_of_int [of 1] rne_of_int [of "numeral n"] by simp_all

lemma rne_mono: "x \<le> y \<Longrightarrow> rne x \<le> rne y"
proof (cases "\<lfloor>x\<rfloor> = \<lfloor>y\<rfloor>")
  case True
  assume "x \<le> y"
  with True show ?thesis by (auto simp: rne_def Let_def)
next
  case False
  assume "x \<le> y"
  then have "\<lfloor>x\<rfloor> + 1 \<le> \<lfloor>y\<rfloor>" using False floor_mono [of x y] by linarith
  then show ?thesis using rne_bounds [of x] rne_bounds [of y] by linarith
qed

lemma rne_error: "\<bar>of_int (rne x) - x\<bar> \<le> 1 / 2"
proof -
  have "of_int \<lfloor>x\<rfloor> \<le> x" "x < of_int \<lfloor>x\<rfloor> + 1" by linarith+
  then show ?thesis by (auto simp: rne_def Let_def)
qed

lemma rne_uminus: "rne (- x) = - rne x"
proof (cases "x = of_int \<lfloor>x\<rfloor>")
  case True
  then show ?thesis by (metis of_int_minus rne_of_int)
next
  case False
  then have lt: "of_int \<lfloor>x\<rfloor> < x" by (metis floor_correct order_le_less)
  have "\<lfloor>- x\<rfloor> = - \<lfloor>x\<rfloor> - 1"
    using lt by (subst floor_eq_iff) (auto; linarith)
  then show ?thesis by (auto simp: rne_def Let_def)
qed

subsection \<open>The binary exponent of a positive rational\<close>

function exp_up :: "rat \<Rightarrow> nat" where
  "exp_up x = (if x < 2 then 0 else Suc (exp_up (x / 2)))"
  by pat_completeness auto
termination
proof (relation "measure (\<lambda>x. nat \<lfloor>x\<rfloor>)")
  show "wf (measure (\<lambda>x. nat \<lfloor>x :: rat\<rfloor>))" by simp
next
  fix x :: rat
  assume "\<not> x < 2"
  then have "x / 2 \<le> x - 1" by simp
  then have "\<lfloor>x / 2\<rfloor> \<le> \<lfloor>x - 1\<rfloor>" by (rule floor_mono)
  then have "\<lfloor>x / 2\<rfloor> < \<lfloor>x\<rfloor>" by simp
  moreover have "0 < \<lfloor>x\<rfloor>" using \<open>\<not> x < 2\<close> by simp
  ultimately show "(x / 2, x) \<in> measure (\<lambda>x. nat \<lfloor>x\<rfloor>)" by simp
qed

function exp_down :: "rat \<Rightarrow> nat" where
  "exp_down x = (if 1 \<le> x \<or> x \<le> 0 then 0 else Suc (exp_down (x * 2)))"
  by pat_completeness auto
termination
proof (relation "measure (\<lambda>x. nat \<lceil>1 / x\<rceil>)")
  show "wf (measure (\<lambda>x. nat \<lceil>1 / x :: rat\<rceil>))" by simp
next
  fix x :: rat
  assume "\<not> (1 \<le> x \<or> x \<le> 0)"
  then have x: "0 < x" "x < 1" by auto
  have pos: "0 < \<lceil>1 / x\<rceil>" using x by simp
  have "1 / (x * 2) < of_int \<lceil>1 / x\<rceil> - 1 \<or> \<lceil>1 / x\<rceil> \<le> 2"
  proof (cases "\<lceil>1 / x\<rceil> \<le> 2")
    case False
    have "1 / (x * 2) = (1 / x) / 2" by simp
    also have "\<dots> \<le> of_int \<lceil>1 / x\<rceil> / 2" by simp
    also have "\<dots> < of_int \<lceil>1 / x\<rceil> - 1" using False by simp
    finally show ?thesis by simp
  qed simp
  then have "\<lceil>1 / (x * 2)\<rceil> < \<lceil>1 / x\<rceil>"
  proof
    assume "1 / (x * 2) < of_int \<lceil>1 / x\<rceil> - 1"
    then have "1 / (x * 2) \<le> of_int (\<lceil>1 / x\<rceil> - 1)" by simp
    then have "\<lceil>1 / (x * 2)\<rceil> \<le> \<lceil>1 / x\<rceil> - 1" by (rule ceiling_le)
    then show ?thesis by simp
  next
    assume le2: "\<lceil>1 / x\<rceil> \<le> 2"
    have "1 < 1 / x" using x by simp
    then have "1 < \<lceil>1 / x\<rceil>" by (simp add: less_ceiling_iff)
    moreover have "1 / x \<le> 2" using le2 by (simp add: ceiling_le_iff)
    then have "1 / (x * 2) \<le> of_int 1" by simp
    then have "\<lceil>1 / (x * 2)\<rceil> \<le> 1" by (rule ceiling_le)
    ultimately show ?thesis by linarith
  qed
  with pos show "(x * 2, x) \<in> measure (\<lambda>x. nat \<lceil>1 / x\<rceil>)" by simp
qed

declare exp_up.simps [simp del] exp_down.simps [simp del]

definition bexp :: "rat \<Rightarrow> int" where
  "bexp x = (if 1 \<le> x then int (exp_up x) else - int (exp_down x))"

lemma exp_up_bounds: "1 \<le> x \<Longrightarrow> 2 ^ exp_up x \<le> x \<and> x < 2 * 2 ^ exp_up x"
proof (induction x rule: exp_up.induct)
  case (1 x)
  show ?case
  proof (cases "x < 2")
    case True
    with "1.prems" show ?thesis by (simp add: exp_up.simps [of x])
  next
    case False
    then have "2 ^ exp_up (x / 2) \<le> x / 2 \<and> x / 2 < 2 * 2 ^ exp_up (x / 2)"
      using "1.IH" by simp
    with False show ?thesis by (simp add: exp_up.simps [of x])
  qed
qed

lemma exp_down_bounds: "0 < x \<Longrightarrow> x < 2 \<Longrightarrow> 1 \<le> x * 2 ^ exp_down x \<and> x * 2 ^ exp_down x < 2"
proof (induction x rule: exp_down.induct)
  case (1 x)
  show ?case
  proof (cases "1 \<le> x")
    case True
    with "1.prems" show ?thesis by (simp add: exp_down.simps [of x])
  next
    case False
    then have "1 \<le> x * 2 * 2 ^ exp_down (x * 2) \<and> x * 2 * 2 ^ exp_down (x * 2) < 2"
      using "1.IH" "1.prems" by simp
    with False "1.prems" show ?thesis by (simp add: exp_down.simps [of x] mult.assoc)
  qed
qed

lemma bexp_bounds:
  assumes "0 < x"
  shows "2 powi bexp x \<le> x" "x < 2 powi (bexp x + 1)"
proof -
  have "2 powi bexp x \<le> x \<and> x < 2 powi (bexp x + 1)"
  proof (cases "1 \<le> x")
    case True
    then show ?thesis using exp_up_bounds [of x]
      by (simp add: bexp_def power_int_add)
  next
    case False
    with assms have "1 \<le> x * 2 ^ exp_down x \<and> x * 2 ^ exp_down x < 2"
      by (intro exp_down_bounds) auto
    then have "1 / 2 ^ exp_down x \<le> x" "x < 2 / 2 ^ exp_down x"
      by (simp_all add: field_simps)
    moreover have "2 powi (1 - int (exp_down x)) = (2 :: rat) / 2 ^ exp_down x"
      by (simp add: power_int_diff)
    ultimately show ?thesis using False
      by (simp add: bexp_def power_int_minus inverse_eq_divide)
  qed
  then show "2 powi bexp x \<le> x" "x < 2 powi (bexp x + 1)" by auto
qed

lemma powi_less_iff: "(2 :: rat) powi a < 2 powi b \<longleftrightarrow> a < b"
  by (meson linorder_not_less not_less_iff_gr_or_eq one_less_numeral_iff power_int_increasing
      power_int_strict_increasing semiring_norm(76) less_imp_le)

lemma powi_le_iff: "(2 :: rat) powi a \<le> 2 powi b \<longleftrightarrow> a \<le> b"
  by (meson linorder_not_less powi_less_iff)

lemma bexp_mono: "0 < (x :: rat) \<Longrightarrow> x \<le> y \<Longrightarrow> bexp x \<le> bexp y"
proof -
  assume x: "0 < x" and xy: "x \<le> y"
  have "(2 :: rat) powi bexp x < 2 powi (bexp y + 1)"
    using bexp_bounds(1) [OF x] bexp_bounds(2) [of y] x xy by linarith
  then show ?thesis by (simp add: powi_less_iff)
qed

lemma bexp_eqI: "2 powi e \<le> x \<Longrightarrow> x < 2 powi (e + 1) \<Longrightarrow> bexp x = e"
proof -
  assume l: "2 powi e \<le> x" and u: "x < 2 powi (e + 1)"
  have x: "0 < x" using l by (rule order_less_le_trans [rotated]) simp
  have "2 powi e < (2 :: rat) powi (bexp x + 1)" "2 powi bexp x < (2 :: rat) powi (e + 1)"
    using bexp_bounds [OF x] l u by linarith+
  then show ?thesis by (simp add: powi_less_iff)
qed

subsection \<open>Rounding to p significant bits\<close>

definition rgrid :: "int \<Rightarrow> rat \<Rightarrow> rat" where
  "rgrid e x = of_int (rne (x / 2 powi e)) * 2 powi e"

definition fl :: "nat \<Rightarrow> rat \<Rightarrow> rat" where
  "fl p x = (if x = 0 then 0 else rgrid (bexp \<bar>x\<bar> - int p + 1) x)"

lemma rgrid_mono: "x \<le> y \<Longrightarrow> rgrid e x \<le> rgrid e y"
  unfolding rgrid_def by (intro mult_right_mono) (auto intro!: rne_mono divide_right_mono)

lemma rgrid_fix: "rgrid e (of_int m * 2 powi e) = of_int m * 2 powi e"
  by (simp add: rgrid_def)

lemma rgrid_powi: "e \<le> a \<Longrightarrow> rgrid e (2 powi a) = 2 powi a"
proof -
  assume "e \<le> a"
  then have "(2 :: rat) powi a = of_int (2 ^ nat (a - e)) * 2 powi e"
    using power_int_add [of "2 :: rat" "a - e" e] by (simp add: power_int_nonneg_exp)
  then show ?thesis using rgrid_fix [of e "2 ^ nat (a - e)"] by simp
qed

lemma rgrid_uminus: "rgrid e (- x) = - rgrid e x"
  using rne_uminus [of "x / 2 powi e"] by (simp add: rgrid_def)

lemma rgrid_error: "\<bar>rgrid e x - x\<bar> \<le> 2 powi e / 2"
proof -
  have "rgrid e x - x = (of_int (rne (x / 2 powi e)) - x / 2 powi e) * 2 powi e"
    by (simp add: rgrid_def left_diff_distrib)
  then have "\<bar>rgrid e x - x\<bar> = \<bar>of_int (rne (x / 2 powi e)) - x / 2 powi e\<bar> * 2 powi e"
    by (simp add: abs_mult)
  also have "\<dots> \<le> 1 / 2 * 2 powi e"
    using rne_error by (intro mult_right_mono) auto
  finally show ?thesis by simp
qed

lemma fl_0 [simp]: "fl p 0 = 0"
  by (simp add: fl_def)

lemma fl_uminus: "fl p (- x) = - fl p x"
  by (simp add: fl_def rgrid_uminus)

lemma fl_pos_bounds:
  assumes "0 < x" "1 \<le> p"
  shows "2 powi bexp x \<le> fl p x" "fl p x \<le> 2 powi (bexp x + 1)"
proof -
  have "rgrid (bexp x - int p + 1) (2 powi bexp x) \<le> fl p x"
    using assms bexp_bounds [of x] by (auto simp: fl_def intro!: rgrid_mono)
  moreover have "fl p x \<le> rgrid (bexp x - int p + 1) (2 powi (bexp x + 1))"
    using assms bexp_bounds [of x] by (auto simp: fl_def intro!: rgrid_mono)
  ultimately show "2 powi bexp x \<le> fl p x" "fl p x \<le> 2 powi (bexp x + 1)"
    using assms by (simp_all add: rgrid_powi)
qed

lemma fl_mono_pos:
  assumes "0 < x" "x \<le> y" "1 \<le> p"
  shows "fl p x \<le> fl p y"
proof (cases "bexp x = bexp y")
  case True
  with assms show ?thesis by (auto simp: fl_def intro: rgrid_mono)
next
  case False
  with assms have "bexp x + 1 \<le> bexp y" using bexp_mono [of x y] by linarith
  then have "(2 :: rat) powi (bexp x + 1) \<le> 2 powi bexp y" by (simp add: powi_le_iff)
  then show ?thesis
    using fl_pos_bounds(2) [of x p] fl_pos_bounds(1) [of y p] assms by linarith
qed

lemma fl_nonneg: "0 \<le> x \<Longrightarrow> 1 \<le> p \<Longrightarrow> 0 \<le> fl p x"
  using fl_pos_bounds(1) [of x p] by (cases "x = 0") (auto intro: order_trans [rotated])

lemma fl_mono:
  assumes "x \<le> y" "1 \<le> p"
  shows "fl p x \<le> fl p y"
proof -
  consider "0 < x" | "x \<le> 0" "0 \<le> y" | "y < 0" by linarith
  then show ?thesis
  proof cases
    case 1
    with assms show ?thesis by (simp add: fl_mono_pos)
  next
    case 2
    then have "0 \<le> fl p (- x)" "0 \<le> fl p y" using assms by (auto intro: fl_nonneg)
    then show ?thesis by (simp add: fl_uminus)
  next
    case 3
    then have "fl p (- y) \<le> fl p (- x)" using assms by (intro fl_mono_pos) auto
    then show ?thesis by (simp add: fl_uminus)
  qed
qed

lemma fl_exact:
  assumes "x = of_int m * 2 powi e" "\<bar>m\<bar> < 2 ^ p"
  shows "fl p x = x"
proof (cases "m = 0")
  case False
  have "\<bar>x\<bar> < 2 powi (int p + e)"
  proof -
    have "\<bar>x\<bar> = of_int \<bar>m\<bar> * 2 powi e" using assms(1) by (simp add: abs_mult)
    also have "\<dots> < of_int (2 ^ p) * 2 powi e"
      using assms(2) by (intro mult_strict_right_mono) (simp_all only: of_int_less_iff zero_less_power_int zero_less_numeral)
    finally show ?thesis by (simp add: power_int_add)
  qed
  moreover have x0: "0 < \<bar>x\<bar>" using False assms(1) by simp
  ultimately have "(2 :: rat) powi bexp \<bar>x\<bar> < 2 powi (int p + e)"
    using bexp_bounds(1) [of "\<bar>x\<bar>"] by linarith
  then have le: "bexp \<bar>x\<bar> - int p + 1 \<le> e" by (simp add: powi_less_iff)
  define k where "k = bexp \<bar>x\<bar> - int p + 1"
  have "k \<le> e" using le by (simp add: k_def)
  then have "2 powi e = (2 :: rat) ^ nat (e - k) * 2 powi k"
    using power_int_add [of "2 :: rat" "e - k" k] power_int_nonneg_exp [of "e - k" "2 :: rat"] by simp
  then have "x = of_int (m * 2 ^ nat (e - k)) * 2 powi k"
    using assms(1) by (simp add: mult.assoc)
  then have "rgrid k x = x" by (metis rgrid_fix)
  with x0 show ?thesis by (simp add: fl_def k_def)
qed (use assms in simp)

lemma fl_of_int: "\<bar>n\<bar> < 2 ^ p \<Longrightarrow> fl p (of_int n) = of_int n"
  using fl_exact [of "of_int n" n 0 p] by simp

lemma fl_error:
  assumes "1 \<le> p"
  shows "\<bar>fl p x - x\<bar> \<le> \<bar>x\<bar> / 2 ^ p"
proof (cases "x = 0")
  case False
  have "\<bar>fl p x - x\<bar> \<le> 2 powi (bexp \<bar>x\<bar> - int p + 1) / 2"
    using False rgrid_error [of "bexp \<bar>x\<bar> - int p + 1" x] by (simp only: fl_def if_False)
  also have "\<dots> = 2 powi bexp \<bar>x\<bar> / 2 ^ p"
    by (simp add: power_int_add power_int_diff)
  also have "\<dots> \<le> \<bar>x\<bar> / 2 ^ p"
    using bexp_bounds(1) [of "\<bar>x\<bar>"] False by (intro divide_right_mono) auto
  finally show ?thesis .
qed simp

lemma bexp_scale: "0 < x \<Longrightarrow> bexp (x * 2 ^ k) = bexp x + int k"
proof -
  assume x: "0 < x"
  have p: "(2 :: rat) powi (bexp x + int k) = 2 powi bexp x * 2 ^ k"
    "(2 :: rat) powi (bexp x + int k + 1) = 2 powi (bexp x + 1) * 2 ^ k"
    by (simp_all add: power_int_add)
  show ?thesis
    using bexp_bounds [OF x] by (intro bexp_eqI) (simp_all add: p)
qed

lemma fl_scale: "fl p (x * 2 ^ k) = fl p x * 2 ^ k"
proof (cases "x = 0")
  case False
  have "bexp \<bar>x * 2 ^ k\<bar> = bexp \<bar>x\<bar> + int k"
    using bexp_scale [of "\<bar>x\<bar>" k] False by (simp add: abs_mult)
  then have e: "bexp \<bar>x * 2 ^ k\<bar> - int p + 1 = (bexp \<bar>x\<bar> - int p + 1) + int k" by simp
  have "rgrid (f + int k) (x * 2 ^ k) = rgrid f x * 2 ^ k" for f
    by (simp add: rgrid_def power_int_add)
  then show ?thesis using False by (simp add: fl_def e)
qed simp

lemma fl_form:
  assumes "x \<noteq> 0" "1 \<le> p"
  obtains m e where "fl p x = of_int m * 2 powi e" "\<bar>m\<bar> \<le> 2 ^ p"
proof -
  define e where "e = bexp \<bar>x\<bar> - int p + 1"
  have f: "fl p x = of_int (rne (x / 2 powi e)) * 2 powi e"
    using assms by (simp add: fl_def rgrid_def e_def)
  have "\<bar>x\<bar> \<le> 2 powi (bexp \<bar>x\<bar> + 1)" using bexp_bounds(2) [of "\<bar>x\<bar>"] assms by simp
  also have "(2 :: rat) powi (bexp \<bar>x\<bar> + 1) = of_int (2 ^ p) * 2 powi e"
    using power_int_add [of "2 :: rat" "int p" e] by (simp add: e_def)
  finally have "\<bar>x\<bar> / 2 powi e \<le> of_int (2 ^ p)" by (simp add: divide_le_eq)
  then have ab: "\<bar>x / 2 powi e\<bar> \<le> of_int (2 ^ p)" by (simp add: abs_divide)
  have "x / 2 powi e \<le> of_int (2 ^ p)" by (rule order_trans [OF abs_ge_self ab])
  moreover have "- (x / 2 powi e) \<le> of_int (2 ^ p)" by (rule order_trans [OF abs_ge_minus_self ab])
  then have "of_int (- (2 ^ p)) \<le> x / 2 powi e" by simp
  ultimately have "rne (x / 2 powi e) \<le> 2 ^ p" "- (2 ^ p) \<le> rne (x / 2 powi e)"
    using rne_mono [of "x / 2 powi e" "of_int (2 ^ p)"] rne_mono [of "of_int (- (2 ^ p))" "x / 2 powi e"]
    unfolding rne_of_int by blast+
  then show thesis using that [OF f] by (simp add: abs_le_iff)
qed

lemma fl_idem: "1 \<le> p \<Longrightarrow> fl p (fl p x) = fl p x"
proof (cases "x = 0")
  case False
  assume p: "1 \<le> p"
  obtain m e where f: "fl p x = of_int m * 2 powi e" "\<bar>m\<bar> \<le> 2 ^ p" using fl_form [OF False p] by blast
  show ?thesis
  proof (cases "\<bar>m\<bar> < 2 ^ p")
    case True
    then show ?thesis using fl_exact [OF f(1)] by simp
  next
    case False
    with f(2) have "\<bar>m\<bar> = 2 ^ p" by simp
    then have m: "m = sgn m * 2 ^ p" by (metis mult_sgn_abs mult.commute)
    then have "fl p x = of_int (sgn m) * 2 powi (e + int p)"
      using f(1) by (simp add: power_int_add)
        (metis (no_types, lifting) mult.assoc mult.commute of_int_mult of_int_numeral of_int_power)
    moreover have "\<bar>sgn m\<bar> < 2 ^ p" using p by (simp add: sgn_if)
    ultimately show ?thesis using fl_exact [of "fl p x" "sgn m" "e + int p" p] by simp
  qed
qed simp

subsection \<open>Evaluation\<close>

text \<open>
  Code equations that evaluate rounding on the integers of the fraction, so that a concrete
  floating-point computation is a few divisions.
\<close>

definition rdiv :: "int \<Rightarrow> int \<Rightarrow> int" where
  "rdiv a b = (let q = a div b; r = a mod b in
     if 2 * r < b then q else if b < 2 * r then q + 1 else if even q then q else q + 1)"

lemma rne_rdiv: "0 < b \<Longrightarrow> rne (of_int a / of_int b) = rdiv a b"
proof -
  assume b: "0 < b"
  have "a = a div b * b + a mod b" by simp
  then have "(of_int a :: rat) = of_int (a div b) * of_int b + of_int (a mod b)"
    by (metis of_int_add of_int_mult)
  then have d: "(of_int a / of_int b :: rat) - of_int (a div b) = of_int (a mod b) / of_int b"
    using b by (simp add: field_simps)
  have "2 * of_int (a mod b) < (of_int b :: rat) \<longleftrightarrow> 2 * (a mod b) < b"
    by (metis of_int_less_iff of_int_mult of_int_numeral)
  then have c1: "of_int (a mod b) / of_int b < (1 / 2 :: rat) \<longleftrightarrow> 2 * (a mod b) < b"
    using b by (simp add: divide_less_eq mult.commute)
  have "of_int b < (2 * of_int (a mod b) :: rat) \<longleftrightarrow> b < 2 * (a mod b)"
    by (metis of_int_less_iff of_int_mult of_int_numeral)
  then have c2: "(1 / 2 :: rat) < of_int (a mod b) / of_int b \<longleftrightarrow> b < 2 * (a mod b)"
    using b by (simp add: less_divide_eq mult.commute)
  show ?thesis
    unfolding rne_def rdiv_def Let_def floor_divide_of_int_eq d c1 c2 by simp
qed

function ilog2 :: "int \<Rightarrow> nat" where
  "ilog2 n = (if n < 2 then 0 else Suc (ilog2 (n div 2)))"
  by pat_completeness auto
termination by (relation "measure nat") auto

declare ilog2.simps [simp del]

lemma exp_up_floor: "exp_up x = ilog2 \<lfloor>x\<rfloor>"
proof (induction x rule: exp_up.induct)
  case (1 x)
  show ?case
  proof (cases "x < 2")
    case True
    then show ?thesis
      by (subst exp_up.simps, subst ilog2.simps) (simp add: floor_less_iff)
  next
    case False
    have "of_int (\<lfloor>x\<rfloor> div 2 * 2) \<le> x" "x < of_int (\<lfloor>x\<rfloor> div 2 * 2 + 2)"
      by (simp_all only: le_floor_iff [symmetric] floor_less_iff [symmetric])
    then have "\<lfloor>x / 2\<rfloor> = \<lfloor>x\<rfloor> div 2" by (intro floor_unique) simp_all
    with False 1 show ?thesis
      by (subst exp_up.simps, subst ilog2.simps) (simp add: floor_less_iff)
  qed
qed

function down2 :: "int \<Rightarrow> int \<Rightarrow> nat" where
  "down2 a b = (if b \<le> a \<or> a \<le> 0 then 0 else Suc (down2 (2 * a) b))"
  by pat_completeness auto
termination by (relation "measure (\<lambda>(a, b). nat (b - a))") auto

declare down2.simps [simp del]

lemma exp_down_frac: "0 < b \<Longrightarrow> exp_down (of_int a / of_int b) = down2 a b"
proof (induction a b rule: down2.induct)
  case (1 a b)
  have c: "(1 \<le> (of_int a / of_int b :: rat) \<or> of_int a / of_int b \<le> (0 :: rat)) \<longleftrightarrow> b \<le> a \<or> a \<le> 0"
    using 1(2) by (simp add: le_divide_eq divide_le_0_iff)
  have m: "of_int a / of_int b * 2 = (of_int (2 * a) / of_int b :: rat)" by simp
  show ?case
    by (subst exp_down.simps, subst down2.simps) (simp only: c m, use 1 in auto)
qed

lemma fl_code [code]:
  "fl p x = (if x = 0 then 0 else
     let (a, b) = quotient_of x;
         e = (if b \<le> \<bar>a\<bar> then int (ilog2 (\<bar>a\<bar> div b)) else - int (down2 \<bar>a\<bar> b)) - int p + 1
     in if 0 \<le> e then of_int (rdiv a (b * 2 ^ nat e) * 2 ^ nat e)
        else Fract (rdiv (a * 2 ^ nat (- e)) b) (2 ^ nat (- e)))"
proof (cases "x = 0")
  case False
  obtain a b where q: "quotient_of x = (a, b)" by (cases "quotient_of x")
  have b: "0 < b" using q by (rule quotient_of_denom_pos)
  have x: "x = of_int a / of_int b" using q by (rule quotient_of_div)
  then have ax: "\<bar>x\<bar> = of_int \<bar>a\<bar> / of_int b" using b by (simp add: abs_divide)
  have be: "bexp \<bar>x\<bar> = (if b \<le> \<bar>a\<bar> then int (ilog2 (\<bar>a\<bar> div b)) else - int (down2 \<bar>a\<bar> b))"
    using b unfolding bexp_def ax
    by (simp add: exp_up_floor exp_down_frac floor_divide_of_int_eq le_divide_eq del: of_int_abs)
  define e where "e = bexp \<bar>x\<bar> - int p + 1"
  have "rgrid e x = (if 0 \<le> e then of_int (rdiv a (b * 2 ^ nat e) * 2 ^ nat e)
        else Fract (rdiv (a * 2 ^ nat (- e)) b) (2 ^ nat (- e)))"
  proof (cases "0 \<le> e")
    case True
    then have p: "(2 :: rat) powi e = of_int (2 ^ nat e)" by (simp add: power_int_nonneg_exp)
    have "x / 2 powi e = of_int a / of_int (b * 2 ^ nat e)" unfolding p x by simp
    then have "rne (x / 2 powi e) = rdiv a (b * 2 ^ nat e)" 
      using rne_rdiv [of "b * 2 ^ nat e" a] b by simp
    with True p show ?thesis by (simp add: rgrid_def)
  next
    case False
    then have p: "(2 :: rat) powi e = 1 / of_int (2 ^ nat (- e))"
      by (simp add: power_int_def field_simps)
    have "x / 2 powi e = of_int (a * 2 ^ nat (- e)) / of_int b" unfolding p x by simp
    then have "rne (x / 2 powi e) = rdiv (a * 2 ^ nat (- e)) b" using b by (simp only: rne_rdiv)
    with False p show ?thesis by (simp add: rgrid_def Fract_of_int_quotient)
  qed
  then show ?thesis using False q be by (simp add: fl_def e_def Let_def)
qed simp

end
