(* ===== verification/DeviceState.thy ===== *)
theory DeviceState
  imports UsbControl IeeeRound
begin

section \<open>The device handle (include/internal/lib.h, adc.h, tuner.h, include/pg2sdr.h)\<close>

text \<open>
  The state an opened device keeps between API calls. Pointers into a table owned by the device
  (\<open>current_gain_entry\<close>, \<open>current_bandpass_entry\<close>) are indices into that table, with
  \<open>None\<close> for NULL. Doubles are rationals (see \<open>IeeeRound\<close>). The field \<open>usb\<close> is the device at
  the other end of \<open>usb_handle\<close>. The streaming state (transfers, DSP buffers) is in
  \<open>Stream\<close>; the mutex is not modelled.
\<close>

datatype conversion_mode = MODE_LOWIF_REAL | MODE_BASEBAND

datatype sideband_mode = SIDEBAND_LOWER | SIDEBAND_UPPER

record gain_entry =
  gain_db :: rat
  ge_lna :: "4 word"
  ge_mix :: "4 word"
  ge_vga :: "4 word"

record bandpass_entry =
  lower_corner :: rat
  upper_corner :: rat
  ripple :: rat
  hpf_corner :: "4 word"
  lpf_narrow :: "1 word"
  lpf_coarse :: "2 word"
  lpf_fine :: "4 word"
  lpf_q :: "1 word"

record adc_pll_config =
  adc_valid :: bool
  adc_fractional :: bool
  adc_n :: nat
  adc_m :: rat
  adc_p :: nat
  adc_i :: nat
  adc_error :: rat
  adc_actual_fcco :: rat
  adc_actual_frequency :: rat

record tuner_pll_config =
  pll_valid :: bool
  pll_refdiv :: bool
  pll_seldiv :: int
  pll_feedback_n :: int
  pll_feedback_sdm :: int
  pll_actual_vco :: rat
  pll_actual_frequency :: rat

definition MAGIC_DEV :: u32 where "MAGIC_DEV = 0xABCD"
definition MAGIC_CTX :: u32 where "MAGIC_CTX = 0x18273645"
definition MAGIC_FREE :: u32 where "MAGIC_FREE = 0x46724565"

record 'u device =
  dev_magic :: u32
  ctx_magic :: "u32 option"
  usb :: 'u
  serial :: string
  ports :: string
  fw_version :: u32
  control_timeout_ms :: nat
  usb_samples_per_block :: u32
  usb_bytes_per_block :: u32
  streaming :: bool
  conv_mode :: conversion_mode
  adc_limit :: rat
  requested_sample_rate :: rat
  adc_config :: adc_pll_config
  changing_rate :: bool
  sideband :: sideband_mode
  requested_frequency :: rat
  tuner_config :: tuner_pll_config
  changing_freq :: bool
  requested_bandpass_low :: rat
  requested_bandpass_high :: rat
  changing_bandpass :: bool
  buffer_size :: u64
  decimation_mode :: int
  undersampling_mode :: u32
  lna_gain :: nat
  mix_gain :: nat
  vga_gain :: nat
  gain_table :: "gain_entry list"
  lna_table :: "rat list"
  mix_table :: "rat list"
  vga_table :: "rat list"
  current_gain_entry :: "nat option"
  bandpass_table :: "bandpass_entry list"
  current_bandpass_entry :: "nat option"
  usb_transfer_size :: u32
  adc_samples_per_transfer :: u32
  adc_samples_per_user_sample :: u32
  post_decimation :: nat
  tuner_xtal :: u32

definition CHECK_DEV :: "'u device option \<Rightarrow> int" where
  "CHECK_DEV dev = (case dev of
     None \<Rightarrow> PG2SDR_ERROR_BAD_ARGUMENT
   | Some d \<Rightarrow>
       (if ctx_magic d = None \<or> dev_magic d \<noteq> MAGIC_DEV \<or> ctx_magic d \<noteq> Some MAGIC_CTX
        then PG2SDR_ERROR_CORRUPTION else PG2SDR_SUCCESS))"

text \<open>A freshly opened device with a 28.8 MHz crystal, for concrete evaluations.\<close>

definition sample_device :: "unit device" where
  "sample_device = \<lparr>dev_magic = MAGIC_DEV, ctx_magic = Some MAGIC_CTX, usb = (), serial = ''0001'',
     ports = ''1-1'', fw_version = 0x00090700, control_timeout_ms = 1000,
     usb_samples_per_block = 320, usb_bytes_per_block = 512, streaming = False,
     conv_mode = MODE_BASEBAND, adc_limit = 40 * 10 ^ 6, requested_sample_rate = 12 * 10 ^ 6,
     adc_config = \<lparr>adc_valid = False, adc_fractional = False, adc_n = 0, adc_m = 0, adc_p = 0,
       adc_i = 0, adc_error = 0, adc_actual_fcco = 0, adc_actual_frequency = 0\<rparr>,
     changing_rate = False, sideband = SIDEBAND_LOWER, requested_frequency = 1090 * 10 ^ 6,
     tuner_config = \<lparr>pll_valid = False, pll_refdiv = False, pll_seldiv = 0, pll_feedback_n = 0,
       pll_feedback_sdm = 0, pll_actual_vco = 0, pll_actual_frequency = 0\<rparr>,
     changing_freq = False, requested_bandpass_low = 0, requested_bandpass_high = 0,
     changing_bandpass = False, buffer_size = 65536, decimation_mode = 0, undersampling_mode = 0,
     lna_gain = 0, mix_gain = 0, vga_gain = 0, gain_table = [], lna_table = [], mix_table = [],
     vga_table = [], current_gain_entry = None, bandpass_table = [], current_bandpass_entry = None,
     usb_transfer_size = 0, adc_samples_per_transfer = 0, adc_samples_per_user_sample = 1,
     post_decimation = 0, tuner_xtal = 28800000\<rparr>"

end
