(* ===== verification/Discovery.thy ===== *)
theory Discovery
  imports Ledger DeviceState
begin

section \<open>Discovery of devices (src/corelib/discovery.c, context.c)\<close>

text \<open>
  The devices on the bus are a list of \<open>bus_device\<close>: what libusb reports of each. The vendor and product
  numbers of the firmware headers are a parameter. A string on the heap is its block number and its contents.
\<close>

subsection \<open>Contexts\<close>

definition API_VERSION_CHECK :: "u32 \<Rightarrow> u32 \<Rightarrow> bool" where
  "API_VERSION_CHECK api min_api \<longleftrightarrow> \<not> api < min_api"

record pg_context =
  ctx_block :: nat
  magic :: u32
  debug_log :: bool

definition CHECK_CTX :: "pg_context option \<Rightarrow> int" where
  "CHECK_CTX ctx = (case ctx of
     None \<Rightarrow> PG2SDR_ERROR_BAD_ARGUMENT
   | Some c \<Rightarrow> if magic c \<noteq> MAGIC_CTX then PG2SDR_ERROR_CORRUPTION else PG2SDR_SUCCESS)"

definition init_version ::
  "libusb_consts \<Rightarrow> u32 \<Rightarrow> bool \<Rightarrow> bool \<Rightarrow> int \<Rightarrow> u32 \<Rightarrow> ledger \<Rightarrow> (ledger \<times> int \<times> pg_context option) run" where
  "init_version K api has_out debug_env usb_error min_api L =
    (if \<not> has_out then Inr (L, PG2SDR_ERROR_BAD_ARGUMENT, None)
     else if \<not> API_VERSION_CHECK api min_api then Inr (L, PG2SDR_ERROR_LIBRARY_VERSION, None)
     else case alloc L of
       (L, None) \<Rightarrow> Inr (L, PG2SDR_ERROR_NO_MEMORY, None)
     | (L, Some n) \<Rightarrow>
         if usb_error < 0 then run_bind (release (Some n) L) (\<lambda>L. Inr (L, translate_libusb_error K usb_error, None))
         else Inr (L, PG2SDR_SUCCESS, Some \<lparr>ctx_block = n, magic = MAGIC_CTX, debug_log = debug_env\<rparr>))"

definition exit_context :: "pg_context option \<Rightarrow> ledger \<Rightarrow> (ledger \<times> pg_context option \<times> int) run" where
  "exit_context ctx L =
    (if CHECK_CTX ctx < 0 then Inr (L, ctx, CHECK_CTX ctx)
     else case ctx of
       None \<Rightarrow> Inl Null_dereference
     | Some c \<Rightarrow> run_bind (release (Some (ctx_block c)) L) (\<lambda>L. Inr (L, Some (c\<lparr>magic := MAGIC_FREE\<rparr>), PG2SDR_SUCCESS)))"

subsection \<open>Devices on the bus\<close>

record usb_ids =
  PG2SDR_ID :: "u16 \<times> u16"
  AIRSPYMINI_ID :: "u16 \<times> u16"

definition PROTOTYPE_ID :: "u16 \<times> u16" where "PROTOTYPE_ID = (0xDEAD, 0xBEEF)"
definition LPC_ROM_ID :: "u16 \<times> u16" where "LPC_ROM_ID = (0x1fc9, 0x000c)"

record bus_device =
  bd_id :: "u16 \<times> u16"
  iSerialNumber :: u8
  open_error :: int
  serial_descriptor :: "int + string"
  bus_number :: u8
  port_numbers :: "int + u8 list"

definition DEVTYPE_PG2SDR :: u32 where "DEVTYPE_PG2SDR = 1"
definition DEVTYPE_PROTOTYPE :: u32 where "DEVTYPE_PROTOTYPE = 2"
definition DEVTYPE_RECOVERY :: u32 where "DEVTYPE_RECOVERY = 4"
definition DEVTYPE_OTHER :: u32 where "DEVTYPE_OTHER = 8"
definition DEVTYPE_AIRSPYMINI :: u32 where "DEVTYPE_AIRSPYMINI = 16"

definition identify_device :: "usb_ids \<Rightarrow> bus_device \<Rightarrow> u32" where
  "identify_device I d =
    (if bd_id d = PG2SDR_ID I then DEVTYPE_PG2SDR
     else if bd_id d = AIRSPYMINI_ID I then DEVTYPE_AIRSPYMINI
     else if bd_id d = PROTOTYPE_ID then DEVTYPE_PROTOTYPE
     else if bd_id d = LPC_ROM_ID then DEVTYPE_RECOVERY
     else DEVTYPE_OTHER)"

definition strdup :: "string \<Rightarrow> ledger \<Rightarrow> ledger \<times> (nat \<times> string) option" where
  "strdup s L = (case alloc L of (L, p) \<Rightarrow> (L, map_option (\<lambda>n. (n, s)) p))"

definition serial_string :: "bus_device \<Rightarrow> string" where
  "serial_string d =
    (if iSerialNumber d = 0 then ''''
     else if open_error d \<noteq> 0 then ''''
     else case serial_descriptor d of Inl e \<Rightarrow> '''' | Inr s \<Rightarrow> s)"

definition strdup_serial :: "bus_device \<Rightarrow> ledger \<Rightarrow> ledger \<times> (nat \<times> string) option" where
  "strdup_serial d L = strdup (serial_string d) L"

text \<open>
  \<open>snprintf\<close> into the 33 bytes of \<open>port_string\<close>: at most what fits is stored, but \<open>out\<close> advances by the full
  length, and the room computed from it wraps once it is past the end.
\<close>

fun decimal :: "nat \<Rightarrow> string" where
  "decimal n = (if n < 10 then [char_of (48 + n)] else decimal (n div 10) @ [char_of (48 + n mod 10)])"

declare decimal.simps [simp del]

definition PORT_BUFFER :: nat where "PORT_BUFFER = 33"

definition print_to :: "nat \<times> string \<Rightarrow> string \<Rightarrow> (nat \<times> string) run" where
  "print_to buf s = (case buf of (out, str) \<Rightarrow>
    if PORT_BUFFER < out then Inl Out_of_bounds
    else Inr (out + length s, str @ take (PORT_BUFFER - out - 1) s))"

definition strdup_ports :: "bus_device \<Rightarrow> ledger \<Rightarrow> (ledger \<times> (nat \<times> string) option) run" where
  "strdup_ports d L =
    (case port_numbers d of
       Inl e \<Rightarrow> Inr (strdup '''' L)
     | Inr [] \<Rightarrow> Inr (strdup '''' L)
     | Inr (p # ps) \<Rightarrow>
         run_bind (print_to (0, '''') (decimal (unat (bus_number d)) @ ''-'' @ decimal (unat p))) (\<lambda>buf.
           run_bind (run_foldl (\<lambda>buf p. print_to buf (''.'' @ decimal (unat p))) buf ps) (\<lambda>(out, str).
             Inr (strdup str L))))"

definition prefix_match :: "string \<Rightarrow> string \<Rightarrow> bool" where
  "prefix_match pre candidate = (if length candidate < length pre then False else take (length pre) candidate = pre)"

subsection \<open>The list of matching devices\<close>

record usb_device =
  ud_block :: nat
  ud_serial :: "nat \<times> string"
  ud_ports :: "nat \<times> string"
  ud_lu :: nat

fun strcmp :: "string \<Rightarrow> string \<Rightarrow> int" where
  "strcmp [] [] = 0"
| "strcmp [] (y # ys) = -1"
| "strcmp (x # xs) [] = 1"
| "strcmp (x # xs) (y # ys) =
    (if (of_char x :: nat) < of_char y then -1 else if (of_char y :: nat) < of_char x then 1 else strcmp xs ys)"

definition sort_devices :: "usb_device \<Rightarrow> usb_device \<Rightarrow> int" where
  "sort_devices l r = strcmp (snd (ud_serial l)) (snd (ud_serial r))"

definition matches :: "string option \<Rightarrow> string option \<Rightarrow> string \<Rightarrow> string \<Rightarrow> bool" where
  "matches serial_prefix match_ports ser por \<longleftrightarrow>
    \<not> ((case serial_prefix of None \<Rightarrow> False | Some p \<Rightarrow> \<not> prefix_match p ser) \<or>
       (case match_ports of None \<Rightarrow> False | Some p \<Rightarrow> strcmp por p \<noteq> 0))"

text \<open>The loop over the devices of the bus; the result says whether every allocation succeeded.\<close>

fun discover_loop ::
  "usb_ids \<Rightarrow> string option \<Rightarrow> string option \<Rightarrow> u32 \<Rightarrow> (nat \<times> bus_device) list \<Rightarrow> usb_device list \<Rightarrow> ledger \<Rightarrow>
   (ledger \<times> usb_device list \<times> bool) run" where
  "discover_loop I sp mp types [] matched L = Inr (L, matched, True)"
| "discover_loop I sp mp types ((i, d) # ds) matched L =
    (if identify_device I d AND types = 0 then discover_loop I sp mp types ds matched L
     else let (L, serial) = strdup_serial d L
          in run_bind (strdup_ports d L) (\<lambda>(L, ports).
            case (serial, ports) of
              (Some s, Some p) \<Rightarrow>
                if \<not> matches sp mp (snd s) (snd p)
                then run_bind (release (Some (fst s)) L) (\<lambda>L. run_bind (release (Some (fst p)) L)
                  (discover_loop I sp mp types ds matched))
                else (case alloc L of
                    (L, None) \<Rightarrow> run_bind (release (Some (fst s)) L) (\<lambda>L. run_bind (release (Some (fst p)) L) (\<lambda>L. Inr (L, matched, False)))
                  | (L, Some n) \<Rightarrow>
                      discover_loop I sp mp types ds
                        (matched @ [\<lparr>ud_block = n, ud_serial = s, ud_ports = p, ud_lu = i\<rparr>]) (ref_device i L))
            | _ \<Rightarrow> run_bind (release (map_option fst serial) L) (\<lambda>L. run_bind (release (map_option fst ports) L) (\<lambda>L. Inr (L, matched, False)))))"

definition free_entry :: "ledger \<Rightarrow> usb_device \<Rightarrow> ledger run" where
  "free_entry L u =
    run_bind (unref_device (ud_lu u) L) (\<lambda>L.
      run_bind (release (Some (fst (ud_serial u))) L) (\<lambda>L.
        run_bind (release (Some (fst (ud_ports u))) L) (release (Some (ud_block u)))))"

definition free_device_list :: "(nat \<times> usb_device list) option \<Rightarrow> ledger \<Rightarrow> ledger run" where
  "free_device_list list L =
    (case list of
       None \<Rightarrow> Inr L
     | Some (block, us) \<Rightarrow> run_bind (run_foldl free_entry L us) (release (Some block)))"

definition discover_matching ::
  "libusb_consts \<Rightarrow> usb_ids \<Rightarrow> (usb_device list \<Rightarrow> usb_device list) \<Rightarrow> int + bus_device list \<Rightarrow> pg_context option \<Rightarrow> bool \<Rightarrow>
   string option \<Rightarrow> string option \<Rightarrow> u32 \<Rightarrow> ledger \<Rightarrow> (ledger \<times> (int + nat \<times> usb_device list)) run" where
  "discover_matching K I qsort bus ctx has_out serial_prefix match_ports types L =
    (if CHECK_CTX ctx < 0 then Inr (L, Inl (CHECK_CTX ctx))
     else if \<not> has_out then Inr (L, Inl PG2SDR_ERROR_BAD_ARGUMENT)
     else case bus of
       Inl e \<Rightarrow> Inr (L, Inl (translate_libusb_error K e))
     | Inr devs \<Rightarrow>
         (case alloc L of
            (L, None) \<Rightarrow> Inr (L, Inl PG2SDR_ERROR_NO_MEMORY)
          | (L, Some block) \<Rightarrow>
              run_bind (discover_loop I serial_prefix match_ports types (enumerate 0 devs) [] L) (\<lambda>(L, matched, ok).
                if ok then Inr (L, Inr (block, if 1 < length matched then qsort matched else matched))
                else run_bind (free_device_list (Some (block, matched)) L) (\<lambda>L.
                  run_bind (release (Some block) L) (\<lambda>L. Inr (L, Inl PG2SDR_ERROR_NO_MEMORY))))))"

definition discover_devices ::
  "libusb_consts \<Rightarrow> usb_ids \<Rightarrow> (usb_device list \<Rightarrow> usb_device list) \<Rightarrow> int + bus_device list \<Rightarrow> pg_context option \<Rightarrow> bool \<Rightarrow>
   string option \<Rightarrow> string option \<Rightarrow> ledger \<Rightarrow> (ledger \<times> (int + nat \<times> usb_device list)) run" where
  "discover_devices K I qsort bus ctx has_out serial_prefix match_ports L =
    discover_matching K I qsort bus ctx has_out serial_prefix match_ports (DEVTYPE_PG2SDR OR DEVTYPE_AIRSPYMINI) L"

end
