(* ===== verification/TunerRegs.thy ===== *)
theory TunerRegs
  imports DeviceState
begin

section \<open>Tuner registers and change sets (include/internal/tuner-regs.h, src/tuner.c)\<close>

text \<open>
  The bit fields of the R860T tuner's registers, the change set that collects masked writes to
  them, and the payload that carries a change set to the firmware.
\<close>

subsection \<open>Register fields\<close>

record tuner_field =
  fld_reg :: nat
  fld_mask :: u8
  fld_offset :: nat

definition onebit :: "nat \<Rightarrow> u32" where
  "onebit x = push_bit x 1"

definition bitrange :: "nat \<Rightarrow> nat \<Rightarrow> u32" where
  "bitrange msb lsb = (push_bit msb 2 - 1) XOR (push_bit lsb 1 - 1)"

definition REG_BIT :: "nat \<Rightarrow> nat \<Rightarrow> tuner_field" where
  "REG_BIT reg n = \<lparr>fld_reg = reg, fld_mask = ucast (onebit n), fld_offset = n\<rparr>"

definition REG_BITS :: "nat \<Rightarrow> nat \<Rightarrow> nat \<Rightarrow> tuner_field" where
  "REG_BITS reg msb lsb = \<lparr>fld_reg = reg, fld_mask = ucast (bitrange msb lsb), fld_offset = lsb\<rparr>"

abbreviation TUNER_ID :: tuner_field where "TUNER_ID \<equiv> REG_BITS 0 7 0"
abbreviation DET3_ADC :: tuner_field where "DET3_ADC \<equiv> REG_BITS 1 5 0"
abbreviation PLL_LOCK :: tuner_field where "PLL_LOCK \<equiv> REG_BIT 2 6"
abbreviation VCO_ADC :: tuner_field where "VCO_ADC \<equiv> REG_BITS 2 5 0"
abbreviation MIX_ADC :: tuner_field where "MIX_ADC \<equiv> REG_BITS 3 7 4"
abbreviation LNA_ADC :: tuner_field where "LNA_ADC \<equiv> REG_BITS 3 3 0"
abbreviation VCO_FINE_TUNE :: tuner_field where "VCO_FINE_TUNE \<equiv> REG_BITS 4 5 4"
abbreviation FILT_CAL_CODE :: tuner_field where "FILT_CAL_CODE \<equiv> REG_BITS 4 3 0"
abbreviation PWD_LT :: tuner_field where "PWD_LT \<equiv> REG_BIT 5 7"
abbreviation R5_RESERVED_6_0 :: tuner_field where "R5_RESERVED_6_0 \<equiv> REG_BIT 5 6"
abbreviation PWD_LNA1 :: tuner_field where "PWD_LNA1 \<equiv> REG_BIT 5 5"
abbreviation LNA_GAIN_MODE :: tuner_field where "LNA_GAIN_MODE \<equiv> REG_BIT 5 4"
abbreviation LNA_GAIN :: tuner_field where "LNA_GAIN \<equiv> REG_BITS 5 3 0"
abbreviation PWD_PDET1 :: tuner_field where "PWD_PDET1 \<equiv> REG_BIT 6 7"
abbreviation PWD_PDET2 :: tuner_field where "PWD_PDET2 \<equiv> REG_BIT 6 6"
abbreviation FILT_3DB :: tuner_field where "FILT_3DB \<equiv> REG_BIT 6 5"
abbreviation R6_RESERVED_4_1 :: tuner_field where "R6_RESERVED_4_1 \<equiv> REG_BIT 6 4"
abbreviation R6_RESERVED_3_0 :: tuner_field where "R6_RESERVED_3_0 \<equiv> REG_BIT 6 3"
abbreviation PW_LNA :: tuner_field where "PW_LNA \<equiv> REG_BITS 6 2 0"
abbreviation IMG_R :: tuner_field where "IMG_R \<equiv> REG_BIT 7 7"
abbreviation PW_MIX :: tuner_field where "PW_MIX \<equiv> REG_BIT 7 6"
abbreviation PW0_MIX :: tuner_field where "PW0_MIX \<equiv> REG_BIT 7 5"
abbreviation MIXGAIN_MODE :: tuner_field where "MIXGAIN_MODE \<equiv> REG_BIT 7 4"
abbreviation MIX_GAIN :: tuner_field where "MIX_GAIN \<equiv> REG_BITS 7 3 0"
abbreviation PW_AMP :: tuner_field where "PW_AMP \<equiv> REG_BIT 8 7"
abbreviation PW0_AMP :: tuner_field where "PW0_AMP \<equiv> REG_BIT 8 6"
abbreviation IMR_G_PATH :: tuner_field where "IMR_G_PATH \<equiv> REG_BIT 8 5"
abbreviation IMR_G :: tuner_field where "IMR_G \<equiv> REG_BITS 8 4 0"
abbreviation PWD_IFFILT :: tuner_field where "PWD_IFFILT \<equiv> REG_BIT 9 7"
abbreviation PW1_IFFILT :: tuner_field where "PW1_IFFILT \<equiv> REG_BIT 9 6"
abbreviation IMR_P_PATH :: tuner_field where "IMR_P_PATH \<equiv> REG_BIT 9 5"
abbreviation IMR_P :: tuner_field where "IMR_P \<equiv> REG_BITS 9 4 0"
abbreviation PW_FILT :: tuner_field where "PW_FILT \<equiv> REG_BIT 10 7"
abbreviation FILTER_CUR :: tuner_field where "FILTER_CUR \<equiv> REG_BITS 10 6 5"
abbreviation IFFILT_Q :: tuner_field where "IFFILT_Q \<equiv> REG_BIT 10 4"
abbreviation IFFILT_FINE_LPF :: tuner_field where "IFFILT_FINE_LPF \<equiv> REG_BITS 10 3 0"
abbreviation IFFILT_NARROW :: tuner_field where "IFFILT_NARROW \<equiv> REG_BIT 11 7"
abbreviation IFFILT_COARSE_LPF :: tuner_field where "IFFILT_COARSE_LPF \<equiv> REG_BITS 11 6 5"
abbreviation CALIBRATION_TRIGGER :: tuner_field where "CALIBRATION_TRIGGER \<equiv> REG_BIT 11 4"
abbreviation IFFILT_HPF_CORNER :: tuner_field where "IFFILT_HPF_CORNER \<equiv> REG_BITS 11 3 0"
abbreviation PWD_ADC :: tuner_field where "PWD_ADC \<equiv> REG_BIT 12 7"
abbreviation PW_VGA :: tuner_field where "PW_VGA \<equiv> REG_BIT 12 6"
abbreviation R12_RESERVED_5_1 :: tuner_field where "R12_RESERVED_5_1 \<equiv> REG_BIT 12 5"
abbreviation VGA_GAIN_MODE :: tuner_field where "VGA_GAIN_MODE \<equiv> REG_BIT 12 4"
abbreviation VGA_GAIN :: tuner_field where "VGA_GAIN \<equiv> REG_BITS 12 3 0"
abbreviation LNA_VTH_H :: tuner_field where "LNA_VTH_H \<equiv> REG_BITS 13 7 4"
abbreviation LNA_VTH_L :: tuner_field where "LNA_VTH_L \<equiv> REG_BITS 13 3 0"
abbreviation MIX_VTH_H :: tuner_field where "MIX_VTH_H \<equiv> REG_BITS 14 7 4"
abbreviation MIX_VTH_L :: tuner_field where "MIX_VTH_L \<equiv> REG_BITS 14 3 0"
abbreviation FLT_EXT_WIDEST :: tuner_field where "FLT_EXT_WIDEST \<equiv> REG_BIT 15 7"
abbreviation R15_RESERVED_6_0 :: tuner_field where "R15_RESERVED_6_0 \<equiv> REG_BIT 15 6"
abbreviation R15_RESERVED_5_1 :: tuner_field where "R15_RESERVED_5_1 \<equiv> REG_BIT 15 5"
abbreviation CLK_OUT_DIS :: tuner_field where "CLK_OUT_DIS \<equiv> REG_BIT 15 4"
abbreviation RING_DISABLE :: tuner_field where "RING_DISABLE \<equiv> REG_BIT 15 3"
abbreviation R15_RESERVED_2_0 :: tuner_field where "R15_RESERVED_2_0 \<equiv> REG_BIT 15 2"
abbreviation CLK_AGC_DIS :: tuner_field where "CLK_AGC_DIS \<equiv> REG_BIT 15 1"
abbreviation R15_RESERVED_0_0 :: tuner_field where "R15_RESERVED_0_0 \<equiv> REG_BIT 15 0"
abbreviation SEL_DIV :: tuner_field where "SEL_DIV \<equiv> REG_BITS 16 7 5"
abbreviation REF_DIV2 :: tuner_field where "REF_DIV2 \<equiv> REG_BIT 16 4"
abbreviation XTAL_DRIVE :: tuner_field where "XTAL_DRIVE \<equiv> REG_BIT 16 3"
abbreviation DET1_CAP :: tuner_field where "DET1_CAP \<equiv> REG_BIT 16 2"
abbreviation CAPX :: tuner_field where "CAPX \<equiv> REG_BITS 16 1 0"
abbreviation PW_LDO_A :: tuner_field where "PW_LDO_A \<equiv> REG_BITS 17 7 6"
abbreviation CP_CURRENT :: tuner_field where "CP_CURRENT \<equiv> REG_BITS 17 5 3"
abbreviation R17_RESERVED_2_0 :: tuner_field where "R17_RESERVED_2_0 \<equiv> REG_BIT 17 2"
abbreviation R17_RESERVED_1_0 :: tuner_field where "R17_RESERVED_1_0 \<equiv> REG_BIT 17 1"
abbreviation R17_RESERVED_0_0 :: tuner_field where "R17_RESERVED_0_0 \<equiv> REG_BIT 17 0"
abbreviation VCO_CURRENT :: tuner_field where "VCO_CURRENT \<equiv> REG_BITS 18 7 5"
abbreviation SDM_DITHER_DIS :: tuner_field where "SDM_DITHER_DIS \<equiv> REG_BIT 18 4"
abbreviation PWD_SDM :: tuner_field where "PWD_SDM \<equiv> REG_BIT 18 3"
abbreviation R18_RESERVED_2_0 :: tuner_field where "R18_RESERVED_2_0 \<equiv> REG_BIT 18 2"
abbreviation R18_RESERVED_1_0 :: tuner_field where "R18_RESERVED_1_0 \<equiv> REG_BIT 18 1"
abbreviation R18_RESERVED_0_0 :: tuner_field where "R18_RESERVED_0_0 \<equiv> REG_BIT 18 0"
abbreviation R18_RESERVED_7_0 :: tuner_field where "R18_RESERVED_7_0 \<equiv> REG_BIT 19 7"
abbreviation VCO_MODE :: tuner_field where "VCO_MODE \<equiv> REG_BIT 19 6"
abbreviation VCO_DAC :: tuner_field where "VCO_DAC \<equiv> REG_BITS 19 5 0"
abbreviation S_I2C :: tuner_field where "S_I2C \<equiv> REG_BITS 20 7 6"
abbreviation N_I2C :: tuner_field where "N_I2C \<equiv> REG_BITS 20 5 0"
abbreviation SDM_IN_LSB :: tuner_field where "SDM_IN_LSB \<equiv> REG_BITS 21 7 0"
abbreviation SDM_IN_MSB :: tuner_field where "SDM_IN_MSB \<equiv> REG_BITS 22 7 0"
abbreviation PW_LDO_D :: tuner_field where "PW_LDO_D \<equiv> REG_BITS 23 7 6"
abbreviation DIV_BUF_CUR :: tuner_field where "DIV_BUF_CUR \<equiv> REG_BITS 23 5 4"
abbreviation OPEN_D :: tuner_field where "OPEN_D \<equiv> REG_BIT 23 3"
abbreviation R23_RESERVED_2_1 :: tuner_field where "R23_RESERVED_2_1 \<equiv> REG_BIT 23 2"
abbreviation R23_RESERVED_1_0 :: tuner_field where "R23_RESERVED_1_0 \<equiv> REG_BIT 23 1"
abbreviation R23_RESERVED_0_0 :: tuner_field where "R23_RESERVED_0_0 \<equiv> REG_BIT 23 0"
abbreviation R24_RESERVED_7_0 :: tuner_field where "R24_RESERVED_7_0 \<equiv> REG_BIT 24 7"
abbreviation R24_RESERVED_6_1 :: tuner_field where "R24_RESERVED_6_1 \<equiv> REG_BIT 24 6"
abbreviation RING_SE23 :: tuner_field where "RING_SE23 \<equiv> REG_BIT 24 5"
abbreviation PW_RING :: tuner_field where "PW_RING \<equiv> REG_BIT 24 4"
abbreviation RING_N :: tuner_field where "RING_N \<equiv> REG_BITS 24 3 0"
abbreviation PW_RFFILT :: tuner_field where "PW_RFFILT \<equiv> REG_BIT 25 7"
abbreviation RFFILT_CURRENT :: tuner_field where "RFFILT_CURRENT \<equiv> REG_BITS 25 6 5"
abbreviation SW_AGC :: tuner_field where "SW_AGC \<equiv> REG_BIT 25 4"
abbreviation R25_RESERVED_3_1 :: tuner_field where "R25_RESERVED_3_1 \<equiv> REG_BIT 25 3"
abbreviation R25_RESERVED_2_1 :: tuner_field where "R25_RESERVED_2_1 \<equiv> REG_BIT 25 2"
abbreviation RING_SELDIV :: tuner_field where "RING_SELDIV \<equiv> REG_BITS 25 1 0"
abbreviation RFMUX :: tuner_field where "RFMUX \<equiv> REG_BITS 26 7 6"
abbreviation AGC_CLOCK :: tuner_field where "AGC_CLOCK \<equiv> REG_BITS 26 5 4"
abbreviation PLL_AUTO_CLK :: tuner_field where "PLL_AUTO_CLK \<equiv> REG_BITS 26 3 2"
abbreviation RFFILT :: tuner_field where "RFFILT \<equiv> REG_BITS 26 1 0"
abbreviation TF_NCH :: tuner_field where "TF_NCH \<equiv> REG_BITS 27 7 4"
abbreviation TF_LP :: tuner_field where "TF_LP \<equiv> REG_BITS 27 3 0"
abbreviation PDET3_GAIN :: tuner_field where "PDET3_GAIN \<equiv> REG_BITS 28 7 4"
abbreviation R28_RESERVED_3_0 :: tuner_field where "R28_RESERVED_3_0 \<equiv> REG_BIT 28 3"
abbreviation DISCHARGE_MODE :: tuner_field where "DISCHARGE_MODE \<equiv> REG_BIT 28 2"
abbreviation RF_SOURCE :: tuner_field where "RF_SOURCE \<equiv> REG_BIT 28 1"
abbreviation R28_RESERVED_0_0 :: tuner_field where "R28_RESERVED_0_0 \<equiv> REG_BIT 28 0"
abbreviation DETECT_BW :: tuner_field where "DETECT_BW \<equiv> REG_BITS 29 7 6"
abbreviation PDET1_GAIN :: tuner_field where "PDET1_GAIN \<equiv> REG_BITS 29 5 3"
abbreviation PDET2_GAIN :: tuner_field where "PDET2_GAIN \<equiv> REG_BITS 29 2 0"
abbreviation SW_PDET :: tuner_field where "SW_PDET \<equiv> REG_BIT 30 7"
abbreviation FILTER_EXT :: tuner_field where "FILTER_EXT \<equiv> REG_BIT 30 6"
abbreviation PDET_CLK :: tuner_field where "PDET_CLK \<equiv> REG_BITS 30 5 0"
abbreviation LT_ATT :: tuner_field where "LT_ATT \<equiv> REG_BIT 31 7"
abbreviation R31_RESERVED_6_1 :: tuner_field where "R31_RESERVED_6_1 \<equiv> REG_BIT 31 6"
abbreviation R31_RESERVED_5_0 :: tuner_field where "R31_RESERVED_5_0 \<equiv> REG_BIT 31 5"
abbreviation R31_RESERVED_4_0 :: tuner_field where "R31_RESERVED_4_0 \<equiv> REG_BIT 31 4"
abbreviation R31_RESERVED_3_0 :: tuner_field where "R31_RESERVED_3_0 \<equiv> REG_BIT 31 3"
abbreviation R31_RESERVED_2_0 :: tuner_field where "R31_RESERVED_2_0 \<equiv> REG_BIT 31 2"
abbreviation RING_ATT :: tuner_field where "RING_ATT \<equiv> REG_BITS 31 1 0"

subsection \<open>Change sets\<close>

definition TUNER_REG_COUNT :: nat where "TUNER_REG_COUNT = 32"
definition TUNER_REG_MAX_PAYLOAD_SIZE :: nat where "TUNER_REG_MAX_PAYLOAD_SIZE = 27 * 2"

record change_set_value =
  current_value :: u8
  current_mask :: u8

type_synonym change_set = "change_set_value list"

definition empty_change_set :: change_set where
  "empty_change_set = replicate TUNER_REG_COUNT \<lparr>current_value = 0, current_mask = 0\<rparr>"

definition set_tuner_bits_helper :: "change_set \<Rightarrow> nat \<Rightarrow> u8 \<Rightarrow> u32 \<Rightarrow> change_set" where
  "set_tuner_bits_helper cs reg msk val =
     cs[reg := \<lparr>current_value = (current_value (cs ! reg) AND NOT msk) OR (ucast val AND msk),
                current_mask = current_mask (cs ! reg) OR msk\<rparr>]"

definition set_tuner_bits :: "change_set \<Rightarrow> tuner_field \<Rightarrow> u32 \<Rightarrow> change_set" where
  "set_tuner_bits cs f val =
     set_tuner_bits_helper cs (fld_reg f) (fld_mask f) (push_bit (fld_offset f) val)"

definition set_fields :: "change_set \<Rightarrow> (tuner_field \<times> u32) list \<Rightarrow> change_set" where
  "set_fields cs fs = foldl (\<lambda>cs (f, v). set_tuner_bits cs f v) cs fs"

text \<open>
  \<open>scan_entries\<close> is the first loop of \<open>pg2sdr__prepare_tuner_payload_from_change_set\<close>: the number
  of registers with a non-zero mask and the first and the last of them.
\<close>

definition scan_entries :: "change_set \<Rightarrow> nat \<times> nat \<times> nat" where
  "scan_entries cs = foldl (\<lambda>(num, first, last) i.
       if current_mask (cs ! i) \<noteq> 0
       then (num + 1, (if i < first then i else first), (if last < i then i else last))
       else (num, first, last))
     (0, TUNER_REG_COUNT, 5) [5..<TUNER_REG_COUNT]"

text \<open>Result: the cleared change set, \<open>first\<close> and the payload; an empty payload is \<open>out_size\<close> 0.\<close>

definition prepare_tuner_payload :: "change_set \<Rightarrow> change_set \<times> nat \<times> u8 list" where
  "prepare_tuner_payload cs =
    (let (num, first, last) = scan_entries cs
     in if num = 0 then (cs, 0, [])
        else let sent = [first..<last + 1]
             in (map (\<lambda>i. if first \<le> i \<and> i \<le> last then \<lparr>current_value = 0, current_mask = 0\<rparr> else cs ! i)
                   [0..<length cs],
                 first,
                 map (\<lambda>i. current_value (cs ! i)) sent @ map (\<lambda>i. current_mask (cs ! i)) sent))"

subsection \<open>The fixed initial register values of \<open>pg2sdr__init_tuner\<close>\<close>

definition init_tuner_fields :: "(tuner_field \<times> u32) list" where
  "init_tuner_fields = [
     (PWD_LT, 1), (R5_RESERVED_6_0, 0), (PWD_LNA1, 0), (LNA_GAIN_MODE, 1), (LNA_GAIN, 0),
     (PWD_PDET1, 0), (PWD_PDET2, 0), (FILT_3DB, 1), (R6_RESERVED_4_1, 1), (R6_RESERVED_3_0,
     0), (PW_LNA, 2),
     (IMG_R, 0), (PW_MIX, 1), (PW0_MIX, 1), (MIXGAIN_MODE, 0), (MIX_GAIN, 0),
     (PW_AMP, 1), (PW0_AMP, 1), (IMR_G_PATH, 0), (IMR_G, 0),
     (PWD_IFFILT, 0), (PW1_IFFILT, 1), (IMR_P_PATH, 0), (IMR_P, 0),
     (PW_FILT, 1), (FILTER_CUR, 3), (IFFILT_Q, 0), (IFFILT_FINE_LPF, 0),
     (IFFILT_NARROW, 0), (IFFILT_COARSE_LPF, 0), (CALIBRATION_TRIGGER, 0),
     (IFFILT_HPF_CORNER, 15),
     (PWD_ADC, 1), (PW_VGA, 1), (R12_RESERVED_5_1, 1), (VGA_GAIN_MODE, 0), (VGA_GAIN, 0),
     (LNA_VTH_H, 5), (LNA_VTH_L, 3),
     (MIX_VTH_H, 7), (MIX_VTH_L, 5),
     (FLT_EXT_WIDEST, 0), (R15_RESERVED_6_0, 0), (R15_RESERVED_5_1, 1), (CLK_OUT_DIS, 1),
     (RING_DISABLE, 1), (R15_RESERVED_2_0, 0), (CLK_AGC_DIS, 0), (R15_RESERVED_0_0, 0),
     (SEL_DIV, 0), (REF_DIV2, 1), (XTAL_DRIVE, 0), (DET1_CAP, 1), (CAPX, 0),
     (PW_LDO_A, 0), (CP_CURRENT, 0), (R17_RESERVED_2_0, 0), (R17_RESERVED_1_0, 0),
     (R17_RESERVED_0_0, 0),
     (VCO_CURRENT, 4), (SDM_DITHER_DIS, 0), (PWD_SDM, 1), (R18_RESERVED_2_0, 0),
     (R18_RESERVED_1_0, 0), (R18_RESERVED_0_0, 0),
     (R18_RESERVED_7_0, 0), (VCO_MODE, 0), (VCO_DAC, 0),
     (S_I2C, 0), (N_I2C, 0),
     (SDM_IN_LSB, 0),
     (SDM_IN_MSB, 0),
     (PW_LDO_D, 0), (DIV_BUF_CUR, 3), (OPEN_D, 0), (R23_RESERVED_2_1, 1), (R23_RESERVED_1_0,
     0), (R23_RESERVED_0_0, 0),
     (R24_RESERVED_7_0, 0), (R24_RESERVED_6_1, 1), (RING_SE23, 0), (PW_RING, 0), (RING_N, 0),
     (PW_RFFILT, 1), (RFFILT_CURRENT, 2), (SW_AGC, 0), (R25_RESERVED_3_1, 1),
     (R25_RESERVED_2_1, 1), (RING_SELDIV, 0),
     (RFMUX, 1), (AGC_CLOCK, 2), (PLL_AUTO_CLK, 0), (RFFILT, 0),
     (TF_NCH, 0), (TF_LP, 0),
     (PDET3_GAIN, 5), (R28_RESERVED_3_0, 0), (DISCHARGE_MODE, 1), (RF_SOURCE, 0),
     (R28_RESERVED_0_0, 0),
     (DETECT_BW, 2), (PDET1_GAIN, 4), (PDET2_GAIN, 6),
     (SW_PDET, 0), (FILTER_EXT, 0), (PDET_CLK, 10),
     (LT_ATT, 1), (R31_RESERVED_6_1, 1), (R31_RESERVED_5_0, 0), (R31_RESERVED_4_0, 0),
     (R31_RESERVED_3_0, 0), (R31_RESERVED_2_0, 0), (RING_ATT, 0)]"

subsection \<open>What a payload means\<close>

text \<open>
  The contract of the payload: of a register file, the bits selected by the masks get the new
  values and nothing else changes. \<open>apply_change_set\<close> says it of the change set itself,
  \<open>apply_payload\<close> of the bytes on the wire.
\<close>

definition masked_write :: "u8 \<Rightarrow> u8 \<Rightarrow> u8 \<Rightarrow> u8" where
  "masked_write old val msk = (old AND NOT msk) OR (val AND msk)"

definition apply_change_set :: "change_set \<Rightarrow> (nat \<Rightarrow> u8) \<Rightarrow> nat \<Rightarrow> u8" where
  "apply_change_set cs regs i =
    (if 5 \<le> i \<and> i < length cs
     then masked_write (regs i) (current_value (cs ! i)) (current_mask (cs ! i)) else regs i)"

definition apply_payload :: "nat \<Rightarrow> u8 list \<Rightarrow> (nat \<Rightarrow> u8) \<Rightarrow> nat \<Rightarrow> u8" where
  "apply_payload first payload regs i =
    (let n = length payload div 2
     in if first \<le> i \<and> i < first + n
        then masked_write (regs i) (payload ! (i - first)) (payload ! (n + (i - first)))
        else regs i)"

subsection \<open>Lemmas\<close>

lemma length_empty_change_set [simp]: "length empty_change_set = 32"
  by (simp add: empty_change_set_def TUNER_REG_COUNT_def)

lemma length_set_tuner_bits [simp]: "length (set_tuner_bits cs f v) = length cs"
  by (simp add: set_tuner_bits_def set_tuner_bits_helper_def)

lemma length_set_fields [simp]: "length (set_fields cs fs) = length cs"
  by (induction fs arbitrary: cs) (auto simp: set_fields_def)

lemma set_fields_simps [simp]:
  "set_fields cs [] = cs"
  "set_fields cs ((f, v) # fs) = set_fields (set_tuner_bits cs f v) fs"
  by (simp_all add: set_fields_def)

lemma masked_write_0 [simp]: "masked_write old val 0 = old"
  by (simp add: masked_write_def)

lemma bit_masked_write:
  "bit (masked_write old val msk) k \<longleftrightarrow> (if bit msk k then bit val k else bit old k)"
  by (cases "k < 8") (auto simp: masked_write_def bit_simps dest: bit_imp_le_length)

text \<open>The scan finds the first and the last register that has anything to write.\<close>

definition scan_ok :: "change_set \<Rightarrow> nat \<Rightarrow> nat \<times> nat \<times> nat \<Rightarrow> bool" where
  "scan_ok cs n = (\<lambda>(num, first, last).
     if num = 0 then first = 32 \<and> last = 5 \<and> (\<forall>i. 5 \<le> i \<and> i < n \<longrightarrow> current_mask (cs ! i) = 0)
     else 5 \<le> first \<and> first \<le> last \<and> last < n \<and> current_mask (cs ! first) \<noteq> 0 \<and>
       current_mask (cs ! last) \<noteq> 0 \<and>
       (\<forall>i. 5 \<le> i \<and> i < n \<and> current_mask (cs ! i) \<noteq> 0 \<longrightarrow> first \<le> i \<and> i \<le> last))"

lemma scan_ok_prefix:
  assumes "5 \<le> n" "n \<le> 32"
  shows "scan_ok cs n (foldl (\<lambda>(num, first, last) i.
       if current_mask (cs ! i) \<noteq> 0
       then (num + 1, (if i < first then i else first), (if last < i then i else last))
       else (num, first, last)) (0, 32, 5) [5..<n])"
  using assms
proof (induction n rule: dec_induct)
  case base
  then show ?case by (auto simp: scan_ok_def)
next
  case (step n)
  then show ?case
    by (auto simp: scan_ok_def less_Suc_eq split: prod.splits if_splits)
qed

lemma scan_ok_zero:
  "scan_ok cs n (0, f, l) \<Longrightarrow> \<forall>i. 5 \<le> i \<and> i < n \<longrightarrow> current_mask (cs ! i) = 0"
  by (simp add: scan_ok_def)

lemma scan_ok_some:
  "scan_ok cs n (num, f, l) \<Longrightarrow> num \<noteq> 0 \<Longrightarrow> 5 \<le> f \<and> f \<le> l \<and> l < n \<and>
    (\<forall>i. 5 \<le> i \<and> i < n \<and> current_mask (cs ! i) \<noteq> 0 \<longrightarrow> f \<le> i \<and> i < l + 1)"
  by (simp add: scan_ok_def less_Suc_eq_le)

lemma scan_entries_ok: "scan_ok cs 32 (scan_entries cs)"
  using scan_ok_prefix [of 32 cs] by (simp add: scan_entries_def TUNER_REG_COUNT_def)

lemma prepare_cases:
  assumes prep: "prepare_tuner_payload cs = (cs', first, p)"
  obtains
    (nothing) "p = []" "cs' = cs" "first = 0"
      "\<forall>i. 5 \<le> i \<and> i < 32 \<longrightarrow> current_mask (cs ! i) = 0"
  | (range) m where "5 \<le> first" "first < m" "m \<le> 32"
      "\<forall>i. 5 \<le> i \<and> i < 32 \<and> current_mask (cs ! i) \<noteq> 0 \<longrightarrow> first \<le> i \<and> i < m"
      "p = map (\<lambda>i. current_value (cs ! i)) [first..<m] @
           map (\<lambda>i. current_mask (cs ! i)) [first..<m]"
      "cs' = map (\<lambda>i. if first \<le> i \<and> i < m then \<lparr>current_value = 0, current_mask = 0\<rparr> else cs ! i)
               [0..<length cs]"
proof -
  obtain num f l where sc: "scan_entries cs = (num, f, l)" by (cases "scan_entries cs") auto
  show thesis
  proof (cases "num = 0")
    case True
    have eqs: "p = [] \<and> cs' = cs \<and> first = 0"
      using prep unfolding prepare_tuner_payload_def sc True by simp
    have masks: "\<forall>i. 5 \<le> i \<and> i < 32 \<longrightarrow> current_mask (cs ! i) = 0"
      using scan_entries_ok [of cs] unfolding sc True by (rule scan_ok_zero)
    show thesis by (rule that(1) [OF _ _ _ masks]) (use eqs in simp_all)
  next
    case False
    have step: "prepare_tuner_payload cs =
      (map (\<lambda>i. if f \<le> i \<and> i < l + 1 then \<lparr>current_value = 0, current_mask = 0\<rparr> else cs ! i)
         [0..<length cs], f,
       map (\<lambda>i. current_value (cs ! i)) [f..<l + 1] @ map (\<lambda>i. current_mask (cs ! i)) [f..<l + 1])"
      unfolding prepare_tuner_payload_def sc Let_def using False
      by (simp add: less_Suc_eq_le del: upt_Suc)
    have eqs: "first = f"
      "p = map (\<lambda>i. current_value (cs ! i)) [f..<l + 1] @ map (\<lambda>i. current_mask (cs ! i)) [f..<l + 1]"
      "cs' = map (\<lambda>i. if f \<le> i \<and> i < l + 1 then \<lparr>current_value = 0, current_mask = 0\<rparr> else cs ! i)
         [0..<length cs]"
      using trans [OF prep [symmetric] step] by blast+
    have ok: "5 \<le> f \<and> f \<le> l \<and> l < 32 \<and>
      (\<forall>i. 5 \<le> i \<and> i < 32 \<and> current_mask (cs ! i) \<noteq> 0 \<longrightarrow> f \<le> i \<and> i < l + 1)"
      using scan_entries_ok [of cs] False unfolding sc by (rule scan_ok_some)
    show thesis
      by (rule range [of "l + 1"]) (use ok eqs in \<open>simp_all del: upt_Suc\<close>)
  qed
qed

lemma prepare_payload_bytes:
  assumes "prepare_tuner_payload cs = (cs', first, p)"
  shows "even (length p)" "length p \<le> TUNER_REG_MAX_PAYLOAD_SIZE"
  using assms by (cases rule: prepare_cases; simp add: TUNER_REG_MAX_PAYLOAD_SIZE_def)+

lemma apply_payload_prepare:
  assumes prep: "prepare_tuner_payload cs = (cs', first, p)" and len: "length cs = 32"
  shows "apply_payload first p regs i = apply_change_set cs regs i"
  using prep
proof (cases rule: prepare_cases)
  case nothing
  then show ?thesis using len by (auto simp: apply_payload_def apply_change_set_def)
next
  case (range m)
  have n: "length p div 2 = m - first" using range by simp
  show ?thesis
  proof (cases "first \<le> i \<and> i < m")
    case True
    then obtain k where k: "i = first + k" "k < m - first"
      by (metis add_diff_inverse_nat diff_less_mono linorder_not_less)
    then have "p ! (i - first) = current_value (cs ! i)"
      unfolding range(5) by (simp add: nth_append)
    moreover have "p ! (m - first + (i - first)) = current_mask (cs ! i)"
      using nth_append_length_plus [of "map (\<lambda>i. current_value (cs ! i)) [first..<m]"
          "map (\<lambda>i. current_mask (cs ! i)) [first..<m]" k] k
      unfolding range(5) by simp
    ultimately show ?thesis
      using True n range len
      by (simp add: apply_payload_def apply_change_set_def Let_def)
  next
    case False
    then have "5 \<le> i \<and> i < 32 \<longrightarrow> current_mask (cs ! i) = 0" using range(4) by blast
    with False n range(1-3) len show ?thesis
      by (auto simp: apply_payload_def apply_change_set_def Let_def)
  qed
qed

lemma prepare_again:
  assumes prep: "prepare_tuner_payload cs = (cs', first, p)" and len: "length cs = 32"
  shows "prepare_tuner_payload cs' = (cs', 0, [])"
proof -
  have zero: "current_mask (cs' ! i) = 0" if "5 \<le> i" "i < 32" for i
    using prep
  proof (cases rule: prepare_cases)
    case nothing
    then show ?thesis using that by simp
  next
    case (range m)
    show ?thesis
    proof (cases "first \<le> i \<and> i < m")
      case True
      then show ?thesis using that len by (simp add: range(6))
    next
      case False
      then have "current_mask (cs ! i) = 0" using range(4) that by blast
      then show ?thesis using that len False by (simp add: range(6))
    qed
  qed
  obtain num f l where sc: "scan_entries cs' = (num, f, l)" by (cases "scan_entries cs'") auto
  then have "num = 0"
    using scan_entries_ok [of cs'] zero by (auto simp: scan_ok_def split: if_splits)
  with sc show ?thesis by (simp add: prepare_tuner_payload_def)
qed

text \<open>One field: its own bits take the value, every other bit of the register keeps its effect.\<close>

lemma apply_set_tuner_bits:
  assumes "length cs = 32" "5 \<le> fld_reg f" "fld_reg f < 32"
  shows "bit (apply_change_set (set_tuner_bits cs f v) regs (fld_reg f)) k \<longleftrightarrow>
    (if bit (fld_mask f) k then bit (ucast (push_bit (fld_offset f) v) :: u8) k
     else bit (apply_change_set cs regs (fld_reg f)) k)"
  using assms
  by (cases "k < 8")
    (auto simp: apply_change_set_def set_tuner_bits_def set_tuner_bits_helper_def bit_masked_write
      bit_simps dest: bit_imp_le_length)

lemma apply_set_tuner_bits_other:
  "i \<noteq> fld_reg f \<Longrightarrow> apply_change_set (set_tuner_bits cs f v) regs i = apply_change_set cs regs i"
  by (simp add: apply_change_set_def set_tuner_bits_def set_tuner_bits_helper_def)

definition writable :: "tuner_field \<Rightarrow> bool" where
  "writable f \<longleftrightarrow> 5 \<le> fld_reg f \<and> fld_reg f < 32"

definition fields_disjoint :: "tuner_field \<Rightarrow> tuner_field \<Rightarrow> bool" where
  "fields_disjoint f g \<longleftrightarrow> fld_reg f \<noteq> fld_reg g \<or> fld_mask f AND fld_mask g = 0"

lemma init_fields_disjoint: "sorted_wrt (\<lambda>(g, _) (f, _). fields_disjoint f g) init_tuner_fields"
  by code_simp

lemma init_fields_writable: "\<forall>(f, v) \<in> set init_tuner_fields. writable f"
  by code_simp

definition init_payload_bytes :: "u8 list" where
  "init_payload_bytes = [144, 50, 96, 192, 64, 224, 15, 224, 83, 117, 56, 20, 0, 136, 0, 0, 0, 0, 52, 64,
     204, 96, 0, 84, 166, 10, 192] @ replicate 27 255"

lemma init_payload:
  "prepare_tuner_payload (set_fields empty_change_set init_tuner_fields) =
     (empty_change_set, 5, init_payload_bytes)"
  by code_simp

end
