(* ===== verification/CNum.thy ===== *)
theory CNum
  imports IeeeRound PgPrelude "HOL-Library.Code_Target_Nat"
begin

section \<open>C's double and float\<close>

text \<open>
  A C \<open>double\<close> or \<open>float\<close> is the rational it denotes: infinities and NaN are left out, and so is
  the range of the exponent. Every operation of the source that can round is written with
  \<open>rd\<close> (to \<open>double\<close>) or \<open>rs\<close> (to \<open>float\<close>), so a comparison sees what the C code sees. Operations
  that are exact (negation, \<open>fabs\<close>, \<open>floor\<close>, \<open>ceil\<close>, \<open>round\<close>, \<open>modf\<close>) have no rounding.
  A conversion to an integer type is defined by C only if the truncated value fits it: otherwise
  the model stops with \<open>Undefined_conversion\<close>.
\<close>

type_synonym double = rat

definition rd :: "rat \<Rightarrow> rat" where "rd = fl 53"
definition rs :: "rat \<Rightarrow> rat" where "rs = fl 24"

definition trunc :: "rat \<Rightarrow> int" where
  "trunc x = (if x < 0 then \<lceil>x\<rceil> else \<lfloor>x\<rfloor>)"

definition c_round :: "rat \<Rightarrow> int" where
  "c_round x = (if x < 0 then - \<lfloor>- x + 1 / 2\<rfloor> else \<lfloor>x + 1 / 2\<rfloor>)"

definition to_unsigned :: "rat \<Rightarrow> 'a::len word run" where
  "to_unsigned x = (if 0 \<le> trunc x \<and> trunc x < 2 ^ LENGTH('a) then Inr (word_of_int (trunc x))
     else Inl Undefined_conversion)"

lemma to_unsigned_Inr:
  "0 \<le> trunc x \<Longrightarrow> trunc x < 2 ^ LENGTH('a) \<Longrightarrow>
     to_unsigned x = (Inr (word_of_int (trunc x)) :: 'a::len word run)"
  by (simp add: to_unsigned_def)

lemma trunc_nonneg [simp]: "0 \<le> x \<Longrightarrow> trunc x = \<lfloor>x\<rfloor>"
  by (simp add: trunc_def)

lemma trunc_of_int [simp]: "trunc (of_int n) = n"
  by (simp add: trunc_def)

subsection \<open>What the components use of rounding\<close>

text \<open>
  Comparing, ordering and bounding rounded quantities needs little of IEEE arithmetic: rounding is
  monotone, odd, keeps the numbers of the format and has a relative error of at most \<open>u\<close>.
\<close>

locale rounding =
  fixes rnd :: "rat \<Rightarrow> rat" and u :: rat
  assumes rnd_mono: "x \<le> y \<Longrightarrow> rnd x \<le> rnd y"
    and rnd_uminus: "rnd (- x) = - rnd x"
    and rnd_zero: "rnd 0 = 0"
    and rnd_error: "\<bar>rnd x - x\<bar> \<le> u * \<bar>x\<bar>"
    and u_bounds: "0 \<le> u" "u < 1"
begin

lemma rnd_nonneg: "0 \<le> x \<Longrightarrow> 0 \<le> rnd x"
  using rnd_mono [of 0 x] rnd_zero by simp

lemma rnd_nonpos: "x \<le> 0 \<Longrightarrow> rnd x \<le> 0"
  using rnd_mono [of x 0] rnd_zero by simp

lemma rnd_abs: "rnd \<bar>x\<bar> = \<bar>rnd x\<bar>"
  using rnd_nonneg [of x] rnd_nonpos [of x] rnd_uminus [of x] by (cases "0 \<le> x") auto

lemma rnd_pos: "0 < x \<Longrightarrow> 0 < rnd x"
proof -
  assume x: "0 < x"
  have "u * x < x" using x u_bounds by simp
  with rnd_error [of x] x show "0 < rnd x" by linarith
qed

lemma rnd_upper: "0 \<le> x \<Longrightarrow> rnd x \<le> (1 + u) * x"
  using rnd_error [of x] by (simp add: algebra_simps abs_le_iff)

lemma rnd_lower: "0 \<le> x \<Longrightarrow> (1 - u) * x \<le> rnd x"
  using rnd_error [of x] by (simp add: algebra_simps abs_le_iff)

lemma rnd_near: "\<bar>x\<bar> \<le> b \<Longrightarrow> \<bar>rnd x - x\<bar> \<le> u * b"
  using rnd_error [of x] mult_left_mono [of "\<bar>x\<bar>" b u] u_bounds by linarith

text \<open>\<open>nearly k x y\<close>: \<open>x\<close> is \<open>y\<close> up to \<open>k\<close> roundings.\<close>

definition nearly :: "nat \<Rightarrow> rat \<Rightarrow> rat \<Rightarrow> bool" where
  "nearly k x y \<longleftrightarrow> 0 \<le> y \<and> (1 - u) ^ k * y \<le> x \<and> x \<le> (1 + u) ^ k * y"

lemma nearly_refl: "0 \<le> x \<Longrightarrow> nearly 0 x x"
  by (simp add: nearly_def)

lemma nearly_nonneg: "nearly k x y \<Longrightarrow> 0 \<le> x"
  using u_bounds by (auto simp: nearly_def intro: order_trans [rotated])

lemma nearly_rnd: "nearly k x y \<Longrightarrow> nearly (Suc k) (rnd x) y"
proof -
  assume w: "nearly k x y"
  then have x: "0 \<le> x" by (rule nearly_nonneg)
  have "(1 - u) * ((1 - u) ^ k * y) \<le> (1 - u) * x" "(1 + u) * x \<le> (1 + u) * ((1 + u) ^ k * y)"
    using w u_bounds by (auto simp: nearly_def intro!: mult_left_mono)
  with rnd_upper [OF x] rnd_lower [OF x] w show "nearly (Suc k) (rnd x) y"
    by (simp add: nearly_def mult.assoc)
qed

lemma nearly_Suc: "nearly k x y \<Longrightarrow> nearly (Suc k) x y"
proof -
  assume w: "nearly k x y"
  have "(1 - u) * ((1 - u) ^ k * y) \<le> 1 * ((1 - u) ^ k * y)" "1 * ((1 + u) ^ k * y) \<le> (1 + u) * ((1 + u) ^ k * y)"
    using w u_bounds by (intro mult_right_mono; simp add: nearly_def)+
  with w show "nearly (Suc k) x y" by (simp add: nearly_def mult.assoc)
qed

lemma nearly_mono: "nearly k x y \<Longrightarrow> nearly (k + d) x y"
  by (induction d) (simp_all add: nearly_Suc)

lemma nearly_scale: "nearly k x y \<Longrightarrow> 0 \<le> c \<Longrightarrow> nearly k (x * c) (y * c)"
  by (auto simp: nearly_def intro!: mult_right_mono simp flip: mult.assoc)

lemma nearly_divide: "nearly k x y \<Longrightarrow> 0 \<le> c \<Longrightarrow> nearly k (x / c) (y / c)"
  using nearly_scale [of k x y "1 / c"] by simp

lemma nearly_add: "nearly k a b \<Longrightarrow> nearly k c d \<Longrightarrow> nearly k (a + c) (b + d)"
  by (simp add: nearly_def distrib_left add_mono)

lemma nearly_mult:
  assumes "nearly j a b" "nearly k c d"
  shows "nearly (j + k) (a * c) (b * d)"
proof -
  have "(1 - u) ^ j * b * ((1 - u) ^ k * d) \<le> a * c" "a * c \<le> (1 + u) ^ j * b * ((1 + u) ^ k * d)"
    using assms nearly_nonneg [OF assms(1)] nearly_nonneg [OF assms(2)] u_bounds
    by (auto simp: nearly_def intro!: mult_mono)
  then show ?thesis using assms by (simp add: nearly_def power_add mult_ac)
qed

end

lemma rd_of_int: "\<bar>n\<bar> < 2 ^ 53 \<Longrightarrow> rd (of_int n) = of_int n"
  by (simp add: rd_def fl_of_int)

lemma rd_0 [simp]: "rd 0 = 0"
  by (simp add: rd_def)

definition eps_d :: rat where "eps_d = 1 / 2 ^ 53"
definition eps_s :: rat where "eps_s = 1 / 2 ^ 24"

interpretation dbl: rounding rd eps_d
  using fl_error [of 53] by unfold_locales (simp_all add: rd_def fl_mono fl_uminus eps_d_def)

interpretation sgl: rounding rs eps_s
  using fl_error [of 24] by unfold_locales (simp_all add: rs_def fl_mono fl_uminus eps_s_def)

text \<open>The distance to a rounded difference: \<open>fabs(a - b)\<close> orders its arguments as the exact one does.\<close>

lemma rd_dist_mono: "\<bar>a - b\<bar> \<le> \<bar>c - d\<bar> \<Longrightarrow> \<bar>rd (a - b)\<bar> \<le> \<bar>rd (c - d)\<bar>"
  using dbl.rnd_mono [of "\<bar>a - b\<bar>" "\<bar>c - d\<bar>"] by (simp add: dbl.rnd_abs)

text \<open>Five roundings to \<open>double\<close> are far within a relative error of \<open>1 / 2 ^ 50\<close>.\<close>

lemma dbl_nearly_5:
  assumes "dbl.nearly k x y" "k \<le> 5"
  shows "\<bar>x - y\<bar> \<le> 1 / 2 ^ 50 * y"
proof -
  have "dbl.nearly (k + (5 - k)) x y"
    using assms(1) by (rule dbl.nearly_mono)
  then have "dbl.nearly 5 x y" using assms(2) by simp
  then have n: "0 \<le> y" "(1 - 1 / 2 ^ 53) ^ 5 * y \<le> x" "x \<le> (1 + 1 / 2 ^ 53) ^ 5 * y"
    unfolding dbl.nearly_def unfolding eps_d_def by blast+
  have "(1 - 1 / 2 ^ 50) * y \<le> (1 - 1 / 2 ^ 53) ^ 5 * y" "(1 + 1 / 2 ^ 53) ^ 5 * y \<le> (1 + 1 / 2 ^ 50) * y"
    using n(1) by (intro mult_right_mono; simp add: power_divide)+
  then have "(1 - 1 / 2 ^ 50) * y \<le> x" "x \<le> (1 + 1 / 2 ^ 50) * y" using n by simp_all
  then have "y - 1 / 2 ^ 50 * y \<le> x" "x \<le> y + 1 / 2 ^ 50 * y"
    by (simp_all only: left_diff_distrib distrib_right mult_1)
  then show ?thesis by linarith
qed

lemma rd_scale: "rd (x * 2 ^ k) = rd x * 2 ^ k"
  by (simp add: rd_def fl_scale)

lemma rd_idem [simp]: "rd (rd x) = rd x"
  by (simp add: rd_def fl_idem)

lemma rd_le: "x \<le> of_int n \<Longrightarrow> \<bar>n\<bar> < 2 ^ 53 \<Longrightarrow> rd x \<le> of_int n"
  using dbl.rnd_mono [of x "of_int n"] rd_of_int [of n] by simp

lemma rd_ge: "of_int n \<le> x \<Longrightarrow> \<bar>n\<bar> < 2 ^ 53 \<Longrightarrow> of_int n \<le> rd x"
  using dbl.rnd_mono [of "of_int n" x] rd_of_int [of n] by simp

lemma rd_numeral [simp]: "(numeral n :: int) < 2 ^ 53 \<Longrightarrow> rd (numeral n) = numeral n"
  using rd_of_int [of "numeral n"] by simp

lemma rd_one [simp]: "rd 1 = 1"
  using rd_of_int [of 1] by simp

lemma rd_of_nat: "n < 2 ^ 53 \<Longrightarrow> rd (of_nat n) = of_nat n"
  using rd_of_int [of "int n"] by simp

lemma c_round_of_int [simp]: "c_round (of_int n) = n"
proof -
  have "\<lfloor>of_int m + 1 / 2 :: rat\<rfloor> = m" for m by (rule floor_unique) simp_all
  from this [of n] this [of "- n"] show ?thesis by (simp add: c_round_def)
qed

lemma c_round_mono: "x \<le> y \<Longrightarrow> c_round x \<le> c_round y"
proof -
  assume xy: "x \<le> y"
  consider "0 \<le> x" | "x < 0" "0 \<le> y" | "y < 0" by linarith
  then show ?thesis
  proof cases
    case 1
    with xy show ?thesis by (simp add: c_round_def floor_mono)
  next
    case 2
    then have "c_round x \<le> 0" "0 \<le> c_round y" by (simp_all add: c_round_def)
    then show ?thesis by simp
  next
    case 3
    with xy show ?thesis by (simp add: c_round_def floor_mono)
  qed
qed

lemma c_round_le: "x \<le> of_int n \<Longrightarrow> c_round x \<le> n"
  using c_round_mono [of x "of_int n"] by simp

lemma c_round_ge: "of_int n \<le> x \<Longrightarrow> n \<le> c_round x"
  using c_round_mono [of "of_int n" x] by simp

end
