(* ===== verification/TunerPll.thy ===== *)
theory TunerPll
  imports TunerRegs CNum
begin

section \<open>Tuner PLL parameters (src/tuner.c)\<close>

text \<open>
  \<open>pg2sdr__find_pll_parameters\<close> turns a requested local oscillator frequency into the divider
  settings of the R860T: an output divider \<open>seldiv\<close>, an integer feedback divider and an 18-bit
  sigma-delta fraction (of which the code keeps the upper 16 bits).
\<close>

subsection \<open>find_pll_parameters\<close>

definition refdiv_of :: "double \<Rightarrow> bool" where
  "refdiv_of xtal = (24 * 10 ^ 6 < xtal)"

definition pll_ref_of :: "double \<Rightarrow> double" where
  "pll_ref_of xtal = (if refdiv_of xtal then rd (xtal / 2) else xtal)"

definition VCO_MIN :: double where "VCO_MIN = 1750 * 10 ^ 6"

text \<open>The loop on \<open>seldiv\<close>, a double that holds \<open>2 ^ k\<close> throughout.\<close>

function seldiv_loop :: "double \<Rightarrow> nat \<Rightarrow> nat" where
  "seldiv_loop requested k =
    (if rd (requested * 2 ^ k) < VCO_MIN \<and> (2 ^ k :: nat) < 64 then seldiv_loop requested (Suc k) else k)"
  by pat_completeness auto
termination
proof (relation "measure (\<lambda>(_, k). 6 - k)")
  fix requested k assume "rd (requested * 2 ^ k) < VCO_MIN \<and> (2 ^ k :: nat) < 64"
  then have "k < 6" using power_strict_increasing_iff [of "2 :: nat" k 6] by simp
  then show "((requested, Suc k), requested, k) \<in> measure (\<lambda>(_, k). 6 - k)" by simp
qed simp

declare seldiv_loop.simps [simp del]

definition adjust_sdm :: "nat \<Rightarrow> nat \<Rightarrow> nat \<times> nat" where
  "adjust_sdm sdm fb =
    (if sdm < 8 then (0, fb)
     else if 2 ^ 18 - 8 < sdm then (0, fb + 1)
     else if 2 ^ 17 - 8 < sdm \<and> sdm \<le> 2 ^ 17 then (2 ^ 17 - 8, fb)
     else if 2 ^ 17 < sdm \<and> sdm < 2 ^ 17 + 8 then (2 ^ 17 + 8, fb)
     else (sdm, fb))"

definition find_pll_parameters :: "double \<Rightarrow> double \<Rightarrow> (int \<times> tuner_pll_config option) run" where
  "find_pll_parameters requested xtal =
    (let refdiv = refdiv_of xtal;
         pll_ref = pll_ref_of xtal;
         seldiv = 2 ^ seldiv_loop requested 1;
         required_vco = rd (requested * seldiv);
         pll_feedback = rd (rd (required_vco / 2) / pll_ref)
     in if pll_feedback < 13 \<or> 269 \<le> pll_feedback then Inr (PG2SDR_ERROR_TUNER_PLL_RANGE, None)
        else
          let pll_feedback_frac = pll_feedback - of_int \<lfloor>pll_feedback\<rfloor>
          in run_bind (to_unsigned (of_int \<lfloor>pll_feedback\<rfloor>)) (\<lambda>fb :: u32.
             run_bind (to_unsigned (rd (rd (pll_feedback_frac * 2 ^ 18) + 1))) (\<lambda>num :: u32.
               let (sdm, fb') = adjust_sdm (unat ((num AND NOT 3) OR 1)) (unat fb);
                   actual_vco = rd (rd (pll_ref * 2) * rd (of_nat fb' + rd (of_nat sdm / 2 ^ 18)));
                   actual_out = rd (actual_vco / seldiv)
               in Inr (PG2SDR_SUCCESS, Some
                    \<lparr>pll_valid = True, pll_refdiv = refdiv, pll_seldiv = 2 ^ seldiv_loop requested 1,
                     pll_feedback_n = int fb', pll_feedback_sdm = int (sdm div 4),
                     pll_actual_vco = actual_vco, pll_actual_frequency = actual_out\<rparr>))))"

subsection \<open>The output divider\<close>

lemma seldiv_loop_props:
  "1 \<le> k \<Longrightarrow> k \<le> 6 \<Longrightarrow> k \<le> seldiv_loop r k \<and> seldiv_loop r k \<le> 6 \<and>
     (rd (r * 2 ^ seldiv_loop r k) < VCO_MIN \<longrightarrow> seldiv_loop r k = 6) \<and>
     (\<forall>j. k \<le> j \<and> j < seldiv_loop r k \<longrightarrow> rd (r * 2 ^ j) < VCO_MIN)"
proof (induction r k rule: seldiv_loop.induct)
  case (1 r k)
  have p: "(2 :: nat) ^ k < 64 \<longleftrightarrow> k < 6"
    using power_strict_increasing_iff [of 2 k 6] by simp
  show ?case
  proof (cases "rd (r * 2 ^ k) < VCO_MIN \<and> k < 6")
    case True
    with 1 p have ih: "Suc k \<le> seldiv_loop r (Suc k) \<and> seldiv_loop r (Suc k) \<le> 6 \<and>
       (rd (r * 2 ^ seldiv_loop r (Suc k)) < VCO_MIN \<longrightarrow> seldiv_loop r (Suc k) = 6) \<and>
       (\<forall>j. Suc k \<le> j \<and> j < seldiv_loop r (Suc k) \<longrightarrow> rd (r * 2 ^ j) < VCO_MIN)" by simp
    have "seldiv_loop r k = seldiv_loop r (Suc k)"
      using True p by (subst seldiv_loop.simps) simp
    with ih True show ?thesis by (metis Suc_leD Suc_le_eq order_le_less)
  next
    case False
    then have "seldiv_loop r k = k" using p by (subst seldiv_loop.simps) auto
    with False 1(3) show ?thesis by auto
  qed
qed

lemmas seldiv_loop_1 = seldiv_loop_props [of 1, simplified]

lemma two_power_seldiv: "2 ^ seldiv_loop r 1 \<in> {2, 4, 8, 16, 32, 64 :: int}"
proof -
  have "seldiv_loop r 1 \<in> {1, 2, 3, 4, 5, 6}" using seldiv_loop_1 [of r] by auto
  then show ?thesis by auto
qed

subsection \<open>The sigma-delta fraction\<close>

lemma round_down_4_or_1: "unat (((n :: u32) AND NOT 3) OR 1) = 4 * (unat n div 4) + 1"
proof -
  have ss: "Suc (Suc (k - 2)) = k" if "2 \<le> k" for k using that by simp
  have m: "(3 :: u32) = mask 2" by (simp add: mask_eq_exp_minus_1)
  have "(n AND NOT 3) OR 1 = push_bit 2 (drop_bit 2 n) OR 1"
    unfolding m by (rule bit_word_eqI) (auto simp: bit_simps not_less ss)
  also have "... = push_bit 2 (drop_bit 2 n) + 1"
    by (rule disjunctive_add_eq_or [symmetric]) (rule bit_word_eqI, auto simp: bit_simps)
  moreover have u: "unat (drop_bit 2 n) = unat n div 4"
    by (simp only: unat_drop_bit_eq) (simp add: drop_bit_eq_div)
  ultimately have e: "(n AND NOT 3) OR 1 = of_nat (4 * (unat n div 4) + 1)"
    by (simp add: push_bit_eq_mult u [symmetric] del: unat_drop_bit_eq)
  have n: "unat n < 2 ^ LENGTH(32)" by (rule unsigned_less)
  have "4 * (unat n div 4) + 1 < 2 ^ 32"
    using n by simp presburger
  then show ?thesis unfolding e by (subst unat_of_nat_small) simp_all
qed

lemma adjust_sdm_props:
  assumes "adjust_sdm (4 * (n div 4) + 1) fb = (sdm, fb')" "n \<le> 2 ^ 18 + 1"
  shows "sdm < 2 ^ 18" "fb' = fb \<or> fb' = fb + 1 \<and> sdm = 0"
    "\<bar>(int fb' * 2 ^ 18 + int sdm) - (int fb * 2 ^ 18 + int n)\<bar> \<le> 8"
    "sdm = 0 \<or> 8 \<le> sdm \<and> sdm \<le> 2 ^ 18 - 8" "sdm \<le> 2 ^ 17 - 8 \<or> 2 ^ 17 + 8 \<le> sdm"
proof -
  define q where "q = n div 4"
  have q: "4 * q \<le> n" "n \<le> 4 * q + 3" unfolding q_def by presburger+
  note e = assms(1) [folded q_def, unfolded adjust_sdm_def]
  show "sdm < 2 ^ 18" "fb' = fb \<or> fb' = fb + 1 \<and> sdm = 0"
    "sdm = 0 \<or> 8 \<le> sdm \<and> sdm \<le> 2 ^ 18 - 8" "sdm \<le> 2 ^ 17 - 8 \<or> 2 ^ 17 + 8 \<le> sdm"
    using e q assms(2) by (auto split: if_splits)
  show "\<bar>(int fb' * 2 ^ 18 + int sdm) - (int fb * 2 ^ 18 + int n)\<bar> \<le> 8"
    using e q assms(2) by (auto split: if_splits) (presburger | arith)+
qed

text \<open>The 18-bit numerator is computed in range, nearly rounding of the exact fraction.\<close>

definition sdm_raw :: "double \<Rightarrow> double" where
  "sdm_raw fr = rd (rd (fr * 2 ^ 18) + 1)"

lemma sdm_raw_bounds:
  assumes "0 \<le> f" "f < 1"
  shows "1 \<le> sdm_raw f" "sdm_raw f \<le> 2 ^ 18 + 1" "\<bar>sdm_raw f - (f * 2 ^ 18 + 1)\<bar> \<le> 1 / 2 ^ 30"
proof -
  have r: "0 \<le> rd (f * 2 ^ 18)" "rd (f * 2 ^ 18) \<le> 2 ^ 18"
    using dbl.rnd_nonneg [of "f * 2 ^ 18"] dbl.rnd_mono [of "f * 2 ^ 18" "2 ^ 18"] rd_of_int [of "2 ^ 18"] assms
    by simp_all
  show "1 \<le> sdm_raw f" "sdm_raw f \<le> 2 ^ 18 + 1"
    using dbl.rnd_mono [of 1 "rd (f * 2 ^ 18) + 1"] rd_of_int [of 1]
      dbl.rnd_mono [of "rd (f * 2 ^ 18) + 1" "2 ^ 18 + 1"] rd_of_int [of "2 ^ 18 + 1"] r
    by (simp_all add: sdm_raw_def)
  have "\<bar>rd (f * 2 ^ 18) - f * 2 ^ 18\<bar> \<le> eps_d * 2 ^ 18"
    by (rule dbl.rnd_near) (use assms in simp)
  then have "\<bar>rd (f * 2 ^ 18) - f * 2 ^ 18\<bar> \<le> 1 / 2 ^ 31" by (rule order_trans) (simp add: eps_d_def)
  moreover have "\<bar>sdm_raw f - (rd (f * 2 ^ 18) + 1)\<bar> \<le> eps_d * (2 ^ 18 + 1)"
    unfolding sdm_raw_def by (rule dbl.rnd_near) (use r in simp)
  then have "\<bar>sdm_raw f - (rd (f * 2 ^ 18) + 1)\<bar> \<le> 1 / 2 ^ 31" by (rule order_trans) (simp add: eps_d_def)
  ultimately have "\<bar>sdm_raw f - (f * 2 ^ 18 + 1)\<bar> \<le> 1 / 2 ^ 31 + 1 / 2 ^ 31" by linarith
  then show "\<bar>sdm_raw f - (f * 2 ^ 18 + 1)\<bar> \<le> 1 / 2 ^ 30" by simp
qed

lemma pll_ref_pos: "0 < xtal \<Longrightarrow> 0 < pll_ref_of xtal"
  by (simp add: pll_ref_of_def dbl.rnd_pos)

definition pll_feedback_of :: "double \<Rightarrow> double \<Rightarrow> double" where
  "pll_feedback_of requested xtal =
    rd (rd (rd (requested * 2 ^ seldiv_loop requested 1) / 2) / pll_ref_of xtal)"

lemma find_pll_cases:
  obtains (out_of_range) "pll_feedback_of r x < 13 \<or> 269 \<le> pll_feedback_of r x"
      "find_pll_parameters r x = Inr (PG2SDR_ERROR_TUNER_PLL_RANGE, None)"
  | (in_range) n sdm vco where "13 \<le> pll_feedback_of r x" "pll_feedback_of r x < 269"
      "find_pll_parameters r x = Inr (PG2SDR_SUCCESS, Some
         \<lparr>pll_valid = True, pll_refdiv = refdiv_of x, pll_seldiv = 2 ^ seldiv_loop r 1,
          pll_feedback_n = int n, pll_feedback_sdm = int (sdm div 4), pll_actual_vco = vco,
          pll_actual_frequency = rd (vco / 2 ^ seldiv_loop r 1)\<rparr>)"
      "vco = rd (rd (pll_ref_of x * 2) * rd (of_nat n + rd (of_nat sdm / 2 ^ 18)))"
      "13 \<le> n" "n \<le> 269" "n = 269 \<Longrightarrow> sdm = 0" "sdm < 2 ^ 18"
      "sdm = 0 \<or> 8 \<le> sdm \<and> sdm \<le> 2 ^ 18 - 8" "sdm \<le> 2 ^ 17 - 8 \<or> 2 ^ 17 + 8 \<le> sdm"
      "\<bar>(of_nat n + of_nat sdm / 2 ^ 18) - pll_feedback_of r x\<bar> \<le> 10 / 2 ^ 18"
proof (cases "pll_feedback_of r x < 13 \<or> 269 \<le> pll_feedback_of r x")
  case True
  then show thesis
    by (intro out_of_range) (simp_all add: find_pll_parameters_def pll_feedback_of_def Let_def)
next
  case False
  define q where "q = pll_feedback_of r x"
  define f where "f = q - of_int \<lfloor>q\<rfloor>"
  define t where "t = \<lfloor>sdm_raw f\<rfloor>"
  have q: "13 \<le> q" "q < 269" using False by (simp_all add: q_def)
  have fl: "13 \<le> \<lfloor>q\<rfloor>" "\<lfloor>q\<rfloor> < 269" using q by linarith+
  have f: "0 \<le> f" "f < 1" unfolding f_def by linarith+
  note sr = sdm_raw_bounds [OF f]
  have t: "1 \<le> t" "t \<le> 2 ^ 18 + 1" "of_int t \<le> sdm_raw f" "sdm_raw f < of_int t + 1"
    using sr(1,2) by (simp_all add: t_def le_floor_iff floor_le_iff) linarith+
  obtain sdm n where adj: "adjust_sdm (4 * (nat t div 4) + 1) (nat \<lfloor>q\<rfloor>) = (sdm, n)"
    by (cases "adjust_sdm (4 * (nat t div 4) + 1) (nat \<lfloor>q\<rfloor>)") auto
  note ap = adjust_sdm_props [OF adj]
  have nt: "nat t \<le> 2 ^ 18 + 1" using t by simp
  have dist: "\<bar>(of_nat n * 2 ^ 18 + of_nat sdm) - (of_int \<lfloor>q\<rfloor> * 2 ^ 18 + of_int t)\<bar> \<le> (8 :: rat)"
  proof -
    have "\<bar>(int n * 2 ^ 18 + int sdm) - (\<lfloor>q\<rfloor> * 2 ^ 18 + t)\<bar> \<le> 8"
      using ap(3) [OF nt] fl t by simp
    then have "of_int \<bar>(int n * 2 ^ 18 + int sdm) - (\<lfloor>q\<rfloor> * 2 ^ 18 + t)\<bar> \<le> (of_int 8 :: rat)"
      by (simp only: of_int_le_iff)
    then show ?thesis by simp
  qed
  have nq: "nat \<lfloor>q\<rfloor> < 269" using fl by arith
  have nq13: "13 \<le> nat \<lfloor>q\<rfloor>" using fl by arith
  have conv: "to_unsigned (of_int \<lfloor>q\<rfloor>) = Inr (of_nat (nat \<lfloor>q\<rfloor>) :: u32)"
    "to_unsigned (rd (rd (f * 2 ^ 18) + 1)) = Inr (of_nat (nat t) :: u32)"
    using fl t sr(1) by (simp_all add: to_unsigned_def sdm_raw_def t_def)
  have un: "unat (of_nat (nat \<lfloor>q\<rfloor>) :: u32) = nat \<lfloor>q\<rfloor>" "unat (of_nat (nat t) :: u32) = nat t"
    by (rule unat_of_nat_small, use nq nt in simp)+
  define vco where "vco = rd (rd (pll_ref_of x * 2) * rd (of_nat n + rd (of_nat sdm / 2 ^ 18)))"
  have res: "find_pll_parameters r x = Inr (PG2SDR_SUCCESS, Some
         \<lparr>pll_valid = True, pll_refdiv = refdiv_of x, pll_seldiv = 2 ^ seldiv_loop r 1,
          pll_feedback_n = int n, pll_feedback_sdm = int (sdm div 4), pll_actual_vco = vco,
          pll_actual_frequency = rd (vco / 2 ^ seldiv_loop r 1)\<rparr>)"
    unfolding find_pll_parameters_def Let_def
    unfolding pll_feedback_of_def [symmetric]
    unfolding q_def [symmetric]
    unfolding f_def [symmetric] conv run_bind_simps round_down_4_or_1 un adj
    using q by (simp add: vco_def)
  have err: "\<bar>(of_nat n + of_nat sdm / 2 ^ 18) - q\<bar> \<le> 10 / 2 ^ 18"
  proof -
    have "\<bar>sdm_raw f - ((q - of_int \<lfloor>q\<rfloor>) * 2 ^ 18 + 1)\<bar> \<le> 1" using sr(3) by (simp add: f_def)
    then have "\<bar>(of_nat n * 2 ^ 18 + of_nat sdm) - q * 2 ^ 18\<bar> \<le> 10"
      using dist t(3,4) by (simp add: left_diff_distrib abs_le_iff)
    then show ?thesis by (simp add: field_simps abs_le_iff)
  qed
  have n: "13 \<le> n" "n \<le> 269" "n = 269 \<Longrightarrow> sdm = 0"
    using ap(2) [OF nt] nq13 nq by linarith+
  show thesis
    by (rule in_range [OF _ _ res vco_def n ap(1) [OF nt] ap(4) [OF nt] ap(5) [OF nt]])
      (use False err in \<open>simp_all add: q_def\<close>)
qed

subsection \<open>How far the actual frequency is from the requested one\<close>

lemma feedback_accuracy:
  assumes x: "0 < x" and q: "13 \<le> pll_feedback_of r x" "pll_feedback_of r x < 269"
  defines "A \<equiv> r * 2 ^ seldiv_loop r 1 / 2 / pll_ref_of x"
  shows "0 \<le> r" "\<bar>pll_feedback_of r x - A\<bar> \<le> 1 / 2 ^ 30"
proof -
  have P: "0 < pll_ref_of x" using x by (rule pll_ref_pos)
  show r: "0 \<le> r"
  proof (rule ccontr)
    assume "\<not> 0 \<le> r"
    then have "rd (r * 2 ^ seldiv_loop r 1) \<le> 0" by (intro dbl.rnd_nonpos) (simp add: mult_le_0_iff)
    then have "rd (rd (r * 2 ^ seldiv_loop r 1) / 2) \<le> 0" by (intro dbl.rnd_nonpos) simp
    then have "pll_feedback_of r x \<le> 0"
      unfolding pll_feedback_of_def using P by (intro dbl.rnd_nonpos) (simp add: divide_le_0_iff)
    with q show False by simp
  qed
  have A: "0 \<le> A" using r P by (simp add: A_def)
  have w: "dbl.nearly (Suc (Suc (Suc 0))) (pll_feedback_of r x) A"
    unfolding pll_feedback_of_def A_def using r P
    by (intro dbl.nearly_rnd dbl.nearly_divide dbl.nearly_refl) simp_all
  have d: "\<bar>pll_feedback_of r x - A\<bar> \<le> 1 / 2 ^ 50 * A" by (rule dbl_nearly_5 [OF w]) simp
  have "1 / 2 ^ 50 * A \<le> 1 / 2 * A" using A by (intro mult_right_mono) simp_all
  then have A': "A \<le> 540" using d q by linarith
  have "\<bar>pll_feedback_of r x - A\<bar> \<le> 1 / 2 ^ 50 * A" by (rule d)
  also have "... \<le> 1 / 2 ^ 30" using A' by simp
  finally show "\<bar>pll_feedback_of r x - A\<bar> \<le> 1 / 2 ^ 30" .
qed

lemma output_accuracy:
  fixes n sdm k :: nat and P :: rat
  assumes P: "0 < P" and n: "n \<le> 269" and sdm: "sdm < 2 ^ 18"
  defines "m \<equiv> of_nat n + of_nat sdm / 2 ^ 18 :: rat"
  defines "out \<equiv> rd (rd (rd (P * 2) * rd (of_nat n + rd (of_nat sdm / 2 ^ 18))) / 2 ^ k)"
  shows "\<bar>out * 2 ^ k - 2 * P * m\<bar> \<le> 1 / 2 ^ 30 * (2 * P)"
proof -
  have m: "0 \<le> m" "m \<le> 270" using n sdm by (simp_all add: m_def)
  have s1: "dbl.nearly 1 (of_nat n + rd (of_nat sdm / 2 ^ 18)) m"
    unfolding m_def One_nat_def
    by (intro dbl.nearly_add dbl.nearly_rnd dbl.nearly_refl dbl.nearly_Suc) simp_all
  have s2: "dbl.nearly 1 (rd (P * 2)) (P * 2)"
    unfolding One_nat_def using P by (intro dbl.nearly_rnd dbl.nearly_refl) simp
  have s3: "dbl.nearly (1 + Suc 1) (rd (P * 2) * rd (of_nat n + rd (of_nat sdm / 2 ^ 18))) (P * 2 * m)"
    using s1 s2 P m by (intro dbl.nearly_mult dbl.nearly_rnd) simp_all
  have w: "dbl.nearly 5 out (P * 2 * m / 2 ^ k)"
  proof -
    have "dbl.nearly (Suc (Suc (1 + Suc 1))) out (P * 2 * m / 2 ^ k)"
      unfolding out_def using s3 P m by (intro dbl.nearly_rnd dbl.nearly_divide) simp_all
    then show ?thesis by (simp add: eval_nat_numeral)
  qed
  have "dbl.nearly 5 (out * 2 ^ k) (P * 2 * m / 2 ^ k * 2 ^ k)"
    using w by (rule dbl.nearly_scale) simp
  then have "dbl.nearly 5 (out * 2 ^ k) (P * 2 * m)" by simp
  then have "\<bar>out * 2 ^ k - P * 2 * m\<bar> \<le> 1 / 2 ^ 50 * (P * 2 * m)" by (rule dbl_nearly_5) simp
  also have "... \<le> 1 / 2 ^ 50 * (P * 2 * 270)" using P m by (intro mult_left_mono) simp_all
  also have "... \<le> 1 / 2 ^ 30 * (2 * P)" using P by simp
  finally show ?thesis by (simp add: mult.commute)
qed

lemma find_pll_error:
  assumes x: "0 < xtal" and ok: "find_pll_parameters requested xtal = Inr (PG2SDR_SUCCESS, Some c)"
  shows "\<bar>pll_actual_frequency c * of_int (pll_seldiv c) - requested * of_int (pll_seldiv c)\<bar>
    \<le> 11 / 2 ^ 18 * (2 * pll_ref_of xtal)"
proof (cases rule: find_pll_cases [of requested xtal])
  case out_of_range
  with ok show ?thesis by simp
next
  case (in_range n sdm vco)
  define P where "P = pll_ref_of xtal"
  define S :: rat where "S = 2 ^ seldiv_loop requested 1"
  define m :: rat where "m = of_nat n + of_nat sdm / 2 ^ 18"
  have P: "0 < P" using x by (simp add: P_def pll_ref_pos)
  have fb: "\<bar>pll_feedback_of requested xtal - requested * S / 2 / P\<bar> \<le> 1 / 2 ^ 30"
    using feedback_accuracy(2) [OF x in_range(1,2)] by (simp only: P_def S_def)
  have m: "\<bar>m - pll_feedback_of requested xtal\<bar> \<le> 10 / 2 ^ 18" using in_range(11) by (simp only: m_def)
  have out: "\<bar>rd (vco / S) * S - 2 * P * m\<bar> \<le> 1 / 2 ^ 30 * (2 * P)"
    using output_accuracy [OF P in_range(6) in_range(8), of "seldiv_loop requested 1"]
    by (simp only: in_range(4) P_def S_def m_def)
  have "\<bar>m - requested * S / 2 / P\<bar> \<le> 10 / 2 ^ 18 + 1 / 2 ^ 30" using fb m by linarith
  then have "\<bar>m - requested * S / 2 / P\<bar> * (2 * P) \<le> (10 / 2 ^ 18 + 1 / 2 ^ 30) * (2 * P)"
    using P by (intro mult_right_mono) simp_all
  moreover have "\<bar>m - requested * S / 2 / P\<bar> * (2 * P) = \<bar>2 * P * m - requested * S\<bar>"
  proof -
    have "(m - requested * S / 2 / P) * (2 * P) = 2 * P * m - requested * S"
      using P by (simp add: field_simps)
    then show ?thesis using P by (metis abs_mult abs_of_pos zero_less_mult_iff zero_less_numeral)
  qed
  ultimately have "\<bar>2 * P * m - requested * S\<bar> \<le> (10 / 2 ^ 18 + 1 / 2 ^ 30) * (2 * P)" by simp
  then have "\<bar>rd (vco / S) * S - requested * S\<bar> \<le> (10 / 2 ^ 18 + 1 / 2 ^ 30) * (2 * P) + 1 / 2 ^ 30 * (2 * P)"
    using out by linarith
  also have "... = (10 / 2 ^ 18 + 1 / 2 ^ 29) * (2 * P)" by (simp add: algebra_simps)
  also have "... \<le> 11 / 2 ^ 18 * (2 * P)" using P by (intro mult_right_mono) simp_all
  finally have "\<bar>rd (vco / S) * S - requested * S\<bar> \<le> 11 / 2 ^ 18 * (2 * P)" .
  moreover have "c = \<lparr>pll_valid = True, pll_refdiv = refdiv_of xtal, pll_seldiv = 2 ^ seldiv_loop requested 1,
          pll_feedback_n = int n, pll_feedback_sdm = int (sdm div 4), pll_actual_vco = vco,
          pll_actual_frequency = rd (vco / 2 ^ seldiv_loop requested 1)\<rparr>"
    using ok in_range(3) by simp
  ultimately show ?thesis by (simp add: S_def P_def)
qed

end
