(* ===== verification/TunerCtl.thy ===== *)
theory TunerCtl
  imports TunerPll "HOL-Library.Signed_Division"
begin

section \<open>Tuner operations (src/tuner.c)\<close>

text \<open>
  The operations on an open device that write the tuner: gains, bandpass filter, initialisation and
  the start of the local oscillator's PLL. Each builds a change set and sends it as one payload. An
  operation returns the device handle with its new state and the error code.
\<close>

subsection \<open>Sending a change set, reading bits\<close>

definition apply_tuner_changeset :: "'u usb_env \<Rightarrow> 'u device \<Rightarrow> change_set \<Rightarrow> 'u device \<times> int" where
  "apply_tuner_changeset E dev cs =
    (let (_, first, payload) = prepare_tuner_payload cs
     in if length payload = 0 then (dev, PG2SDR_SUCCESS)
        else let (u', error) = ctrl_tuner_update E (usb dev) (of_nat first) payload (control_timeout_ms dev)
             in (dev\<lparr>usb := u'\<rparr>, error))"

definition read_tuner_bits :: "'u usb_env \<Rightarrow> 'u device \<Rightarrow> tuner_field \<Rightarrow> 'u device \<times> int" where
  "read_tuner_bits E dev f =
    (let (u', error, data) = ctrl_read_tuner_register E (usb dev) (of_nat (fld_reg f))
            (CACHE_NORMAL (proto E)) 1 (control_timeout_ms dev)
     in if error < 0 then (dev\<lparr>usb := u'\<rparr>, error)
        else (dev\<lparr>usb := u'\<rparr>, uint (drop_bit (fld_offset f) (le_at 1 0 data AND fld_mask f))))"

subsection \<open>Gains\<close>

definition gains_change_set :: "'u device \<Rightarrow> int \<Rightarrow> int \<Rightarrow> int \<Rightarrow> change_set" where
  "gains_change_set dev lna mix vga =
    (let cs = empty_change_set;
         cs = (if 0 \<le> lna \<and> lna \<noteq> int (lna_gain dev) then set_tuner_bits cs LNA_GAIN (of_int lna) else cs);
         cs = (if 0 \<le> mix \<and> mix \<noteq> int (mix_gain dev) then set_tuner_bits cs MIX_GAIN (of_int mix) else cs)
     in (if 0 \<le> vga \<and> vga \<noteq> int (vga_gain dev) then set_tuner_bits cs VGA_GAIN (of_int vga) else cs))"

definition tuner_set_gains :: "'u usb_env \<Rightarrow> 'u device \<Rightarrow> int \<Rightarrow> int \<Rightarrow> int \<Rightarrow> ('u device \<times> int) run" where
  "tuner_set_gains E dev lna mix vga =
    (if \<not> (lna \<le> 15 \<and> mix \<le> 15 \<and> vga \<le> 15) then Inl Assertion_failed
     else let (dev, error) = apply_tuner_changeset E dev (gains_change_set dev lna mix vga)
          in if error < 0 then Inr (dev, error)
             else let dev = (if 0 \<le> lna then dev\<lparr>lna_gain := nat lna\<rparr> else dev);
                      dev = (if 0 \<le> mix then dev\<lparr>mix_gain := nat mix\<rparr> else dev);
                      dev = (if 0 \<le> vga then dev\<lparr>vga_gain := nat vga\<rparr> else dev)
                  in Inr (dev, PG2SDR_SUCCESS))"

definition tuner_set_lna :: "'u usb_env \<Rightarrow> 'u device \<Rightarrow> nat \<Rightarrow> ('u device \<times> int) run" where
  "tuner_set_lna E dev lna =
    (if 15 < lna then Inr (dev, PG2SDR_ERROR_BAD_ARGUMENT) else tuner_set_gains E dev (int lna) (-1) (-1))"

definition tuner_set_mix :: "'u usb_env \<Rightarrow> 'u device \<Rightarrow> nat \<Rightarrow> ('u device \<times> int) run" where
  "tuner_set_mix E dev mix =
    (if 15 < mix then Inr (dev, PG2SDR_ERROR_BAD_ARGUMENT) else tuner_set_gains E dev (-1) (int mix) (-1))"

definition tuner_set_vga :: "'u usb_env \<Rightarrow> 'u device \<Rightarrow> nat \<Rightarrow> ('u device \<times> int) run" where
  "tuner_set_vga E dev vga =
    (if 15 < vga then Inr (dev, PG2SDR_ERROR_BAD_ARGUMENT) else tuner_set_gains E dev (-1) (-1) (int vga))"

subsection \<open>Bandpass filter\<close>

definition bandpass_fields :: "bandpass_entry \<Rightarrow> (tuner_field \<times> u32) list" where
  "bandpass_fields b =
    [(IFFILT_HPF_CORNER, ucast (hpf_corner b)), (IFFILT_Q, ucast (lpf_q b)),
     (IFFILT_NARROW, ucast (lpf_narrow b)), (IFFILT_FINE_LPF, ucast (lpf_fine b)),
     (IFFILT_COARSE_LPF, ucast (lpf_coarse b))]"

definition tuner_set_bandpass ::
  "'u usb_env \<Rightarrow> 'u device \<Rightarrow> bandpass_entry option \<Rightarrow> ('u device \<times> int) run" where
  "tuner_set_bandpass E dev settings =
    (case settings of
       None \<Rightarrow> Inl Assertion_failed
     | Some b \<Rightarrow> Inr (apply_tuner_changeset E dev (set_fields empty_change_set (bandpass_fields b))))"

subsection \<open>Initialisation\<close>

definition init_tuner :: "'u usb_env \<Rightarrow> 'u device \<Rightarrow> 'u device \<times> int" where
  "init_tuner E dev =
    (let (u', error) = ctrl_set_rf_power E (usb dev) (RF_POWER_RESET (proto E)) (control_timeout_ms dev);
         dev = dev\<lparr>usb := u'\<rparr>
     in if error < 0 then (dev, error)
        else let (dev, tuner_id) = read_tuner_bits E dev TUNER_ID
             in if tuner_id < 0 then (dev, tuner_id)
                else if tuner_id \<noteq> 0x96 then (dev, PG2SDR_ERROR_TUNER_DETECT)
                else let dev = dev\<lparr>lna_gain := 0, mix_gain := 0, vga_gain := 0\<rparr>
                     in apply_tuner_changeset E dev (set_fields empty_change_set init_tuner_fields))"

subsection \<open>The local oscillator\<close>

definition seldiv_lut :: "int list" where
  "seldiv_lut = [2, 4, 8, 16, 32, 64]"

definition seldiv_index :: "int \<Rightarrow> nat" where
  "seldiv_index s = foldl (\<lambda>found i. if seldiv_lut ! i = s then i else found) 255 [0..<length seldiv_lut]"

definition vco_dac :: "double \<Rightarrow> u8 run" where
  "vco_dac vco =
    run_bind (to_unsigned (of_int (c_round (rd (rd (vco * rd (318 / 10 ^ 10)) - 49))))) (\<lambda>d :: u8.
      Inr (min 63 (max 0 d)))"

definition pll_fields :: "sideband_mode \<Rightarrow> tuner_pll_config \<Rightarrow> u8 \<Rightarrow> (tuner_field \<times> u32) list" where
  "pll_fields sb p dac =
    [(IMG_R, if sb = SIDEBAND_UPPER then 1 else 0),
     (PW_LDO_A, 1), (PW_LDO_D, 2),
     (PWD_SDM, if pll_feedback_sdm p = 0 then 1 else 0),
     (SEL_DIV, of_nat (seldiv_index (pll_seldiv p))),
     (REF_DIV2, if pll_refdiv p then 1 else 0),
     (S_I2C, ucast (of_int ((pll_feedback_n p - 13) AND 3) :: u8)),
     (N_I2C, ucast (of_int ((pll_feedback_n p - 13) sdiv 4) :: u8)),
     (SDM_IN_LSB, ucast (of_int (pll_feedback_sdm p AND 0xff) :: u8)),
     (SDM_IN_MSB, ucast (of_int (drop_bit 8 (pll_feedback_sdm p) AND 0xff) :: u8)),
     (PLL_AUTO_CLK, 0), (VCO_CURRENT, 4), (VCO_MODE, 1), (VCO_DAC, ucast dac)]"

definition configure_pll_settings ::
  "'u usb_env \<Rightarrow> 'u device \<Rightarrow> tuner_pll_config \<Rightarrow> ('u device \<times> int) run" where
  "configure_pll_settings E dev params =
    (if seldiv_index (pll_seldiv params) = 255 then Inl Assertion_failed
     else run_bind (vco_dac (pll_actual_vco params)) (\<lambda>dac.
       Inr (apply_tuner_changeset E dev (set_fields empty_change_set (pll_fields (sideband dev) params dac)))))"

text \<open>
  The loop over the VCO currents: the response of the last attempt, negative for an error.
\<close>

fun try_vco_currents :: "'u usb_env \<Rightarrow> 'u device \<Rightarrow> u16 list \<Rightarrow> int \<Rightarrow> 'u device \<times> int" where
  "try_vco_currents E dev [] resp = (dev, resp)"
| "try_vco_currents E dev (c # cs) resp =
    (let (u', r) = ctrl_update_tuner_lock E (usb dev) c 50 (control_timeout_ms dev);
         dev = dev\<lparr>usb := u'\<rparr>
     in if r < 0 then (dev, r) else if r \<noteq> 0 then (dev, r) else try_vco_currents E dev cs r)"

definition start_pll :: "'u usb_env \<Rightarrow> 'u device \<Rightarrow> tuner_pll_config \<Rightarrow> ('u device \<times> int) run" where
  "start_pll E dev params =
    run_bind (configure_pll_settings E dev params) (\<lambda>(dev, error).
      if error < 0 then Inr (dev, error)
      else let (dev, resp) = try_vco_currents E dev [4, 3, 2, 1, 0] 0
           in if resp < 0 then Inr (dev, resp)
              else if resp \<noteq> 1 then Inr (dev, PG2SDR_ERROR_TUNER_PLL_LOCK)
              else Inr (apply_tuner_changeset E dev (set_tuner_bits empty_change_set PLL_AUTO_CLK 2)))"

definition has_pll_lock :: "'u usb_env \<Rightarrow> 'u device \<Rightarrow> 'u device \<times> int" where
  "has_pll_lock E dev =
    (let (dev, v) = read_tuner_bits E dev PLL_LOCK
     in if v < 0 then (dev, v) else (dev, if v \<noteq> 0 then 1 else 0))"

subsection \<open>Reading a field back\<close>

definition field_of :: "tuner_field \<Rightarrow> (nat \<Rightarrow> u8) \<Rightarrow> u8" where
  "field_of f regs = drop_bit (fld_offset f) (regs (fld_reg f) AND fld_mask f)"

definition written :: "tuner_field \<Rightarrow> u32 \<Rightarrow> u8" where
  "written f v = drop_bit (fld_offset f) (ucast (push_bit (fld_offset f) v) AND fld_mask f)"

lemma field_of_set_same:
  assumes "length cs = 32" "writable f"
  shows "field_of f (apply_change_set (set_tuner_bits cs f v) regs) = written f v"
  using assms
  by (intro bit_word_eqI)
    (auto simp: field_of_def written_def writable_def bit_drop_bit_eq bit_and_iff apply_set_tuner_bits)

lemma field_of_set_other:
  assumes "length cs = 32" "writable f" "fields_disjoint f g"
  shows "field_of g (apply_change_set (set_tuner_bits cs f v) regs) = field_of g (apply_change_set cs regs)"
proof (cases "fld_reg f = fld_reg g")
  case False
  then show ?thesis by (simp add: field_of_def apply_set_tuner_bits_other)
next
  case True
  then have "fld_mask f AND fld_mask g = 0" using assms by (simp add: fields_disjoint_def)
  then have d: "\<not> (bit (fld_mask f) k \<and> bit (fld_mask g) k)" for k by (metis bit_and_iff bit_0_eq bot_apply bot_bool_def)
  have r: "5 \<le> fld_reg f" "fld_reg f < 32" using assms by (simp_all add: writable_def)
  show ?thesis
    unfolding field_of_def True [symmetric]
    using d by (intro bit_word_eqI) (auto simp: bit_drop_bit_eq bit_and_iff apply_set_tuner_bits [OF assms(1) r])
qed

lemma set_fields_append [simp]: "set_fields cs (xs @ ys) = set_fields (set_fields cs xs) ys"
  by (simp add: set_fields_def)

lemma field_of_set_fields_other:
  assumes "length cs = 32" "\<forall>(f, v) \<in> set fs. writable f \<and> fields_disjoint f g"
  shows "field_of g (apply_change_set (set_fields cs fs) regs) = field_of g (apply_change_set cs regs)"
  using assms by (induction fs arbitrary: cs) (auto simp: field_of_set_other)

lemma field_of_set_fields:
  assumes "length cs = 32" "\<forall>(f, v) \<in> set fs. writable f"
    "sorted_wrt (\<lambda>(g, _) (f, _). fields_disjoint f g) fs" "(f, v) \<in> set fs"
  shows "field_of f (apply_change_set (set_fields cs fs) regs) = written f v"
  using assms
proof (induction fs arbitrary: cs)
  case (Cons gv fs)
  obtain g w where gv: "gv = (g, w)" by (cases gv)
  show ?case
  proof (cases "(f, v) = (g, w)")
    case True
    with Cons.prems gv have d: "\<forall>(h, x) \<in> set fs. writable h \<and> fields_disjoint h f" by auto
    then have "field_of f (apply_change_set (set_fields (set_tuner_bits cs f v) fs) regs) =
        field_of f (apply_change_set (set_tuner_bits cs f v) regs)"
      using Cons.prems(1) by (intro field_of_set_fields_other) simp_all
    with True gv Cons.prems show ?thesis by (simp add: field_of_set_same)
  next
    case False
    with Cons.prems gv show ?thesis by (auto intro!: Cons.IH)
  qed
qed simp

lemma apply_empty_change_set [simp]: "apply_change_set empty_change_set regs = regs"
  by (rule ext) (simp add: apply_change_set_def empty_change_set_def TUNER_REG_COUNT_def)

subsection \<open>Values of fields\<close>

lemma bit_bitrange: "lsb \<le> msb \<Longrightarrow> msb < 31 \<Longrightarrow> bit (bitrange msb lsb) k \<longleftrightarrow> lsb \<le> k \<and> k \<le> msb"
proof -
  assume a: "lsb \<le> msb" "msb < 31"
  have "bitrange msb lsb = mask (Suc msb) XOR mask lsb"
    by (simp add: bitrange_def mask_eq_exp_minus_1 push_bit_eq_mult)
  then show ?thesis using a by (auto simp: bit_simps)
qed

lemma written_REG_BITS:
  assumes "lsb \<le> msb" "msb < 8"
  shows "written (REG_BITS r msb lsb) v = ucast (take_bit (Suc msb - lsb) v)"
proof (rule bit_word_eqI)
  fix k assume "k < LENGTH(8)"
  then show "bit (written (REG_BITS r msb lsb) v) k = bit (ucast (take_bit (Suc msb - lsb) v) :: u8) k"
    using assms
    by (auto simp: written_def REG_BITS_def bit_simps bit_bitrange dest: bit_imp_le_length)
qed

lemma REG_BIT_eq_REG_BITS: "n < 8 \<Longrightarrow> REG_BIT r n = REG_BITS r n n"
proof -
  assume n: "n < 8"
  have "onebit n = bitrange n n"
    using n by (intro bit_word_eqI) (auto simp: bit_bitrange onebit_def bit_simps bit_1_iff)
  then show ?thesis by (simp add: REG_BIT_def REG_BITS_def)
qed

lemma uint_written:
  "lsb \<le> msb \<Longrightarrow> msb < 8 \<Longrightarrow> uint (written (REG_BITS r msb lsb) v) = uint v mod 2 ^ (Suc msb - lsb)"
proof -
  assume a: "lsb \<le> msb" "msb < 8"
  then have le: "Suc msb - lsb \<le> 8" by simp
  have "uint (ucast (take_bit (Suc msb - lsb) v) :: u8) = take_bit 8 (take_bit (Suc msb - lsb) (uint v))"
    by (simp add: unsigned_ucast_eq unsigned_take_bit_eq take_bit_take_bit min.commute)
  also have "... = take_bit (Suc msb - lsb) (uint v)" using le by (simp add: take_bit_take_bit min_def)
  finally show ?thesis using a by (simp add: written_REG_BITS take_bit_eq_mod)
qed

lemma disjoint_pll_fields: "sorted_wrt (\<lambda>(g, _) (f, _). fields_disjoint f g) (pll_fields sb p d)"
  by (simp add: pll_fields_def fields_disjoint_def REG_BITS_def REG_BIT_def bitrange_def onebit_def)

lemma writable_pll_fields: "\<forall>(f, v) \<in> set (pll_fields sb p d). writable f"
  by (simp add: pll_fields_def writable_def REG_BITS_def REG_BIT_def)

lemma pll_field_value:
  assumes "prepare_tuner_payload (set_fields empty_change_set (pll_fields sb p d)) = (cs', first, payload)"
    "(f, v) \<in> set (pll_fields sb p d)"
  shows "field_of f (apply_payload first payload regs) = written f v"
proof -
  have "apply_payload first payload regs = apply_change_set (set_fields empty_change_set (pll_fields sb p d)) regs"
    by (rule ext) (rule apply_payload_prepare [OF assms(1)], simp)
  then show ?thesis
    using field_of_set_fields [OF _ writable_pll_fields disjoint_pll_fields assms(2)] by simp
qed


lemma uint_written_bit: "n < 8 \<Longrightarrow> uint (written (REG_BIT r n) v) = uint v mod 2"
  using uint_written [of n n r v] by (simp add: REG_BIT_eq_REG_BITS)

lemma vco_dac_cases:
  obtains "vco_dac v = Inl Undefined_conversion" | d where "vco_dac v = Inr d" "uint d \<le> 63"
proof (cases "to_unsigned (of_int (c_round (rd (rd (v * rd (318 / 10 ^ 10)) - 49)))) :: u8 run")
  case (Inl e)
  then show thesis using that(1) by (simp add: vco_dac_def to_unsigned_def split: if_splits)
next
  case (Inr d)
  have "min 63 (max 0 d) \<le> (63 :: u8)" by simp
  then have "uint (min 63 (max 0 d)) \<le> 63" by (simp add: word_le_def)
  then show thesis using that(2) [of "min 63 (max 0 d)"] Inr by (simp add: vco_dac_def)
qed

lemma int_diff13: "13 \<le> n \<Longrightarrow> int n - 13 = int (n - 13)"
  by simp

lemma uint_of_nat_u8: "n < 256 \<Longrightarrow> uint (of_nat n :: u8) = int n"
  by (simp add: uint_nat unsigned_of_nat take_bit_nat_eq_self)

lemma sdiv_4: "int a sdiv 4 = int (a div 4)"
  by (cases "a = 0") (simp_all add: signed_divide_int_def zdiv_int)

lemma feedback_fields:
  assumes "13 \<le> n" "n \<le> 269"
  shows "of_int ((int n - 13) AND 3) = (of_nat ((n - 13) mod 4) :: u8)"
    "of_int ((int n - 13) sdiv 4) = (of_nat ((n - 13) div 4) :: u8)"
proof -
  have m: "(3 :: int) = mask 2" by (simp add: mask_eq_exp_minus_1)
  show "of_int ((int n - 13) AND 3) = (of_nat ((n - 13) mod 4) :: u8)"
    unfolding int_diff13 [OF assms(1)] m take_bit_eq_mask [symmetric] take_bit_eq_mod
    using of_int_of_nat_eq [of "(n - 13) mod 4", where 'a = u8] by (simp only: zmod_int) simp
  show "of_int ((int n - 13) sdiv 4) = (of_nat ((n - 13) div 4) :: u8)"
    unfolding int_diff13 [OF assms(1)] sdiv_4 by simp
qed

lemma sdm_bytes:
  "of_int (int n AND 0xff) = (of_nat (n mod 256) :: u8)"
  "of_int (drop_bit 8 (int n) AND 0xff) = (of_nat (n div 256 mod 256) :: u8)"
proof -
  have m: "(0xff :: int) = mask 8" by (simp add: mask_eq_exp_minus_1)
  have "int n AND 0xff = int (n mod 256)" "drop_bit 8 (int n) AND 0xff = int (n div 256 mod 256)"
    unfolding m take_bit_eq_mask [symmetric] take_bit_eq_mod drop_bit_eq_div
    by (simp_all add: zmod_int zdiv_int)
  then show "of_int (int n AND 0xff) = (of_nat (n mod 256) :: u8)"
    "of_int (drop_bit 8 (int n) AND 0xff) = (of_nat (n div 256 mod 256) :: u8)"
    by (simp_all only: of_int_of_nat_eq)
qed

lemma uint_ucast_u8: "uint (ucast (w :: u8) :: u32) = uint w"
proof -
  have "uint w < 2 ^ LENGTH(8)" by (rule unsigned_less)
  then have "uint w < 2 ^ 32" by simp
  then show ?thesis by (simp add: unsigned_ucast_eq take_bit_int_eq_self)
qed

lemma uint_of_nat_u32: "n < 2 ^ 32 \<Longrightarrow> uint (of_nat n :: u32) = int n"
  by (simp add: uint_nat unsigned_of_nat take_bit_nat_eq_self)

lemma seldiv_index_seldiv: "1 \<le> k \<Longrightarrow> k \<le> 6 \<Longrightarrow> seldiv_index (2 ^ k) = k - 1"
proof -
  assume "1 \<le> k" "k \<le> 6"
  then have "k \<in> {1, 2, 3, 4, 5, 6}" by auto
  then show ?thesis by (auto simp: seldiv_index_def seldiv_lut_def upt_rec)
qed

subsection \<open>What the operations change of the handle\<close>

lemma apply_tuner_changeset_frame:
  assumes "apply_tuner_changeset E dev cs = (dev', e)"
  shows "dev' = dev\<lparr>usb := usb dev'\<rparr>" "e \<le> 0"
proof -
  obtain cs' first p where prep: "prepare_tuner_payload cs = (cs', first, p)" by (rule prod_cases3)
  obtain u r where up: "ctrl_tuner_update E (usb dev) (of_nat first) p (control_timeout_ms dev) = (u, r)"
    by fastforce
  have "r \<le> 0" using ctrl_tuner_update_le_0 [of E "usb dev" "of_nat first" p] up by (metis snd_conv)
  then show "dev' = dev\<lparr>usb := usb dev'\<rparr>" "e \<le> 0"
    using assms by (auto simp: apply_tuner_changeset_def prep up split: if_splits)
qed

lemma tuner_set_gains_result:
  assumes range: "l \<le> 15" "m \<le> 15" "v \<le> 15" and run: "tuner_set_gains E dev l m v = Inr (dev', error)"
  shows "error = PG2SDR_SUCCESS \<and>
      dev' = dev\<lparr>usb := usb dev', lna_gain := (if 0 \<le> l then nat l else lna_gain dev),
        mix_gain := (if 0 \<le> m then nat m else mix_gain dev),
        vga_gain := (if 0 \<le> v then nat v else vga_gain dev)\<rparr>
    \<or> error \<noteq> PG2SDR_SUCCESS \<and> error < 0 \<and> dev' = dev\<lparr>usb := usb dev'\<rparr>"
proof -
  obtain d e where ap: "apply_tuner_changeset E dev (gains_change_set dev l m v) = (d, e)" by fastforce
  note fr = apply_tuner_changeset_frame [OF ap]
  show ?thesis
  proof (cases "e < 0")
    case True
    then have "dev' = d" "error = e" using run range ap by (simp_all add: tuner_set_gains_def)
    with fr(1) True show ?thesis by simp
  next
    case False
    define dn where "dn = dev\<lparr>usb := usb d, lna_gain := (if 0 \<le> l then nat l else lna_gain dev),
        mix_gain := (if 0 \<le> m then nat m else mix_gain dev),
        vga_gain := (if 0 \<le> v then nat v else vga_gain dev)\<rparr>"
    obtain u where d: "d = dev\<lparr>usb := u\<rparr>" using fr(1) by blast
    have "tuner_set_gains E dev l m v = Inr (dn, 0)"
      using range False unfolding tuner_set_gains_def ap dn_def d
      by (cases "0 \<le> l"; cases "0 \<le> m"; cases "0 \<le> v") (simp_all add: Let_def)
    then have eq: "dev' = dn" "error = PG2SDR_SUCCESS" unfolding run by simp_all
    have "dn = dev\<lparr>usb := usb dn, lna_gain := (if 0 \<le> l then nat l else lna_gain dev),
        mix_gain := (if 0 \<le> m then nat m else mix_gain dev),
        vga_gain := (if 0 \<le> v then nat v else vga_gain dev)\<rparr>" by (simp add: dn_def)
    then show ?thesis unfolding eq by (intro disjI1 conjI refl)
  qed
qed

lemma tuner_set_gains_total: "l \<le> 15 \<Longrightarrow> m \<le> 15 \<Longrightarrow> v \<le> 15 \<Longrightarrow> \<exists>r. tuner_set_gains E dev l m v = Inr r"
  by (auto simp: tuner_set_gains_def Let_def split: prod.splits)

end
