(* ===== verification/BestScan.thy ===== *)
theory BestScan
  imports PgPrelude
begin

section \<open>Scans for the best element\<close>

text \<open>
  Several components walk a list once and keep the best acceptable element seen so far, replacing
  it only by a strictly better one: the ADC divisor search, the gain table and the bandpass table.
  The contract of such a scan is stated once. \<open>key\<close> is what is minimised, \<open>ok\<close> what is acceptable.
\<close>

locale best_scan =
  fixes carrier :: "'a \<Rightarrow> bool"
    and step :: "'a option \<Rightarrow> 'a \<Rightarrow> 'a option"
    and ok :: "'a \<Rightarrow> bool"
    and key :: "'a \<Rightarrow> 'k::linorder"
  assumes step_None: "carrier x \<Longrightarrow> step None x = (if ok x then Some x else None)"
    and step_Some: "carrier b \<Longrightarrow> carrier x \<Longrightarrow> ok b \<Longrightarrow>
      step (Some b) x = (if ok x \<and> key x < key b then Some x else Some b)"
begin

definition scan :: "'a option \<Rightarrow> 'a list \<Rightarrow> 'a option" where
  "scan b xs = foldl step b xs"

lemma scan_simps [simp]: "scan b [] = b" "scan b (x # xs) = scan (step b x) xs"
  by (simp_all add: scan_def)

lemma scan_append: "scan b (xs @ ys) = scan (scan b xs) ys"
  by (simp add: scan_def)

text \<open>From an acceptable best element, the result is one of the least acceptable ones.\<close>

lemma scan_Some:
  "carrier b \<Longrightarrow> ok b \<Longrightarrow> \<forall>x \<in> set xs. carrier x \<Longrightarrow>
    \<exists>r. scan (Some b) xs = Some r \<and> ok r \<and> r \<in> insert b (set xs) \<and> key r \<le> key b \<and>
     (\<forall>x \<in> set xs. ok x \<longrightarrow> key r \<le> key x)"
proof (induction xs arbitrary: b)
  case (Cons x xs)
  show ?case
  proof (cases "ok x \<and> key x < key b")
    case True
    then obtain r where "scan (Some x) xs = Some r" "ok r" "r \<in> insert x (set xs)" "key r \<le> key x"
      "\<forall>y \<in> set xs. ok y \<longrightarrow> key r \<le> key y"
      using Cons.IH [of x] Cons.prems by auto
    with True Cons.prems show ?thesis by (auto simp: step_Some)
  next
    case False
    obtain r where "scan (Some b) xs = Some r" "ok r" "r \<in> insert b (set xs)" "key r \<le> key b"
      "\<forall>y \<in> set xs. ok y \<longrightarrow> key r \<le> key y"
      using Cons.IH [of b] Cons.prems by auto
    with False Cons.prems show ?thesis by (auto simp: step_Some not_less intro: order_trans)
  qed
qed simp

lemma scan_best:
  "\<forall>x \<in> set xs. carrier x \<Longrightarrow> scan None xs = Some r \<Longrightarrow>
    ok r \<and> r \<in> set xs \<and> (\<forall>x \<in> set xs. ok x \<longrightarrow> key r \<le> key x)"
proof (induction xs)
  case (Cons x xs)
  show ?case
  proof (cases "ok x")
    case True
    with Cons.prems scan_Some [of x xs] show ?thesis by (auto simp: step_None)
  qed (use Cons in \<open>auto simp: step_None\<close>)
qed simp

lemma scan_None_iff: "\<forall>x \<in> set xs. carrier x \<Longrightarrow> scan None xs = None \<longleftrightarrow> (\<forall>x \<in> set xs. \<not> ok x)"
proof (induction xs)
  case (Cons x xs)
  show ?case
  proof (cases "ok x")
    case True
    then obtain r where "scan (Some x) xs = Some r" using scan_Some [of x xs] Cons.prems by auto
    with True Cons.prems show ?thesis by (simp add: step_None)
  qed (use Cons in \<open>simp add: step_None\<close>)
qed simp

text \<open>Of equally good elements the first one is kept.\<close>

lemma scan_Some_first:
  "carrier b \<Longrightarrow> ok b \<Longrightarrow> \<forall>x \<in> set xs. carrier x \<and> \<not> (ok x \<and> key x < key b) \<Longrightarrow> scan (Some b) xs = Some b"
  by (induction xs) (auto simp: step_Some)

end

end
