(* ===== verification/Gain.thy ===== *)
theory Gain
  imports TunerCtl BestScan "HOL-Library.Multiset"
begin

section \<open>Gain control (src/gain.c)\<close>

text \<open>
  The gain API: the three stages by step or by dB, and the total gain by a table of entries. The
  pointer \<open>current_gain_entry\<close> into the gain table is an index. A pointer argument is an option
  (or, for a result, whether it is given). \<open>alloc_ok\<close> is whether \<open>calloc\<close> succeeds, \<open>qs\<close> the
  C library's \<open>qsort\<close> with this comparison, of which only the documented result is used.
\<close>

subsection \<open>The guard of every API function\<close>

definition with_dev :: "'u device option \<Rightarrow> ('u device \<Rightarrow> ('u device \<times> 'r) run) \<Rightarrow> (int \<Rightarrow> 'r) \<Rightarrow>
    ('u device option \<times> 'r) run" where
  "with_dev dev f fail =
    (if CHECK_DEV dev < 0 then Inr (dev, fail (CHECK_DEV dev))
     else case dev of
       None \<Rightarrow> Inl Null_dereference
     | Some d \<Rightarrow> run_bind (f d) (\<lambda>(d', r). Inr (Some d', r)))"

subsection \<open>Setting a stage\<close>

definition generic_set_gain ::
  "'u device \<Rightarrow> nat \<Rightarrow> ('u device \<Rightarrow> nat \<Rightarrow> ('u device \<times> int) run) \<Rightarrow> ('u device \<times> int) run" where
  "generic_set_gain dev gain tuner_set_gain =
    run_bind (tuner_set_gain dev gain) (\<lambda>(dev, error).
      if error < 0 then Inr (dev, error) else Inr (dev\<lparr>current_gain_entry := None\<rparr>, error))"

definition db_distance :: "double list \<Rightarrow> double \<Rightarrow> nat \<Rightarrow> double" where
  "db_distance table gain i = \<bar>rd (table ! i - gain)\<bar>"

definition best_step :: "double list \<Rightarrow> double \<Rightarrow> nat" where
  "best_step table gain =
    foldl (\<lambda>best i. if db_distance table gain i < db_distance table gain best then i else best) 0 [1..<16]"

definition generic_set_gain_db ::
  "'u device \<Rightarrow> double \<Rightarrow> double list \<Rightarrow> ('u device \<Rightarrow> nat \<Rightarrow> ('u device \<times> int) run) \<Rightarrow> ('u device \<times> int) run" where
  "generic_set_gain_db dev gain table tuner_set_gain =
    generic_set_gain dev (best_step table gain) tuner_set_gain"

definition set_lna_gain :: "'u usb_env \<Rightarrow> 'u device option \<Rightarrow> nat \<Rightarrow> ('u device option \<times> int) run" where
  "set_lna_gain E dev gain = with_dev dev (\<lambda>d. generic_set_gain d gain (tuner_set_lna E)) id"

definition set_lna_gain_db :: "'u usb_env \<Rightarrow> 'u device option \<Rightarrow> double \<Rightarrow> ('u device option \<times> int) run" where
  "set_lna_gain_db E dev gain = with_dev dev (\<lambda>d. generic_set_gain_db d gain (lna_table d) (tuner_set_lna E)) id"

definition set_mix_gain :: "'u usb_env \<Rightarrow> 'u device option \<Rightarrow> nat \<Rightarrow> ('u device option \<times> int) run" where
  "set_mix_gain E dev gain = with_dev dev (\<lambda>d. generic_set_gain d gain (tuner_set_mix E)) id"

definition set_mix_gain_db :: "'u usb_env \<Rightarrow> 'u device option \<Rightarrow> double \<Rightarrow> ('u device option \<times> int) run" where
  "set_mix_gain_db E dev gain = with_dev dev (\<lambda>d. generic_set_gain_db d gain (mix_table d) (tuner_set_mix E)) id"

definition set_vga_gain :: "'u usb_env \<Rightarrow> 'u device option \<Rightarrow> nat \<Rightarrow> ('u device option \<times> int) run" where
  "set_vga_gain E dev gain = with_dev dev (\<lambda>d. generic_set_gain d gain (tuner_set_vga E)) id"

definition set_vga_gain_db :: "'u usb_env \<Rightarrow> 'u device option \<Rightarrow> double \<Rightarrow> ('u device option \<times> int) run" where
  "set_vga_gain_db E dev gain = with_dev dev (\<lambda>d. generic_set_gain_db d gain (vga_table d) (tuner_set_vga E)) id"

subsection \<open>Reading the stages\<close>

definition get_stage_gains :: "'u device option \<Rightarrow> bool \<Rightarrow> bool \<Rightarrow> bool \<Rightarrow> int \<times> nat option \<times> nat option \<times> nat option" where
  "get_stage_gains dev lna mix vga =
    (if CHECK_DEV dev < 0 then (CHECK_DEV dev, None, None, None)
     else if \<not> lna \<and> \<not> mix \<and> \<not> vga then (PG2SDR_ERROR_BAD_ARGUMENT, None, None, None)
     else let d = the dev
          in (PG2SDR_SUCCESS, if lna then Some (lna_gain d) else None,
              if mix then Some (mix_gain d) else None, if vga then Some (vga_gain d) else None))"

definition get_stage_gains_db ::
  "'u device option \<Rightarrow> bool \<Rightarrow> bool \<Rightarrow> bool \<Rightarrow> int \<times> double option \<times> double option \<times> double option" where
  "get_stage_gains_db dev lna mix vga =
    (if CHECK_DEV dev < 0 then (CHECK_DEV dev, None, None, None)
     else if \<not> lna \<and> \<not> mix \<and> \<not> vga then (PG2SDR_ERROR_BAD_ARGUMENT, None, None, None)
     else let d = the dev
          in (PG2SDR_SUCCESS, if lna then Some (lna_table d ! lna_gain d) else None,
              if mix then Some (mix_table d ! mix_gain d) else None,
              if vga then Some (vga_table d ! vga_gain d) else None))"

subsection \<open>Total gain\<close>

definition compare_gain_entry :: "gain_entry \<Rightarrow> gain_entry \<Rightarrow> int" where
  "compare_gain_entry l r = (if gain_db l < gain_db r then - 1 else if gain_db r < gain_db l then 1 else 0)"

definition get_total_gain_db :: "'u device option \<Rightarrow> bool \<Rightarrow> int \<times> double option" where
  "get_total_gain_db dev out =
    (if CHECK_DEV dev < 0 then (CHECK_DEV dev, None)
     else if \<not> out then (PG2SDR_ERROR_BAD_ARGUMENT, None)
     else let d = the dev
          in (PG2SDR_SUCCESS, Some (case current_gain_entry d of
                Some k \<Rightarrow> gain_db (gain_table d ! k)
              | None \<Rightarrow> rd (rd (lna_table d ! lna_gain d + mix_table d ! mix_gain d) + vga_table d ! vga_gain d))))"

text \<open>The loop of \<open>pg2sdr_set_total_gain_db\<close> with its early exit.\<close>

fun nearest_loop :: "gain_entry list \<Rightarrow> double \<Rightarrow> nat \<Rightarrow> nat list \<Rightarrow> nat" where
  "nearest_loop table gain nearest [] = nearest"
| "nearest_loop table gain nearest (i # is) =
    (let nearest = (if \<bar>rd (gain_db (table ! i) - gain)\<bar> < \<bar>rd (gain_db (table ! nearest) - gain)\<bar>
                    then i else nearest)
     in if gain < gain_db (table ! i) then nearest else nearest_loop table gain nearest is)"

definition set_total_gain_db :: "'u usb_env \<Rightarrow> 'u device option \<Rightarrow> double \<Rightarrow> ('u device option \<times> int) run" where
  "set_total_gain_db E dev gain = with_dev dev (\<lambda>d.
    let nearest = nearest_loop (gain_table d) gain 0 [1..<length (gain_table d)]
    in if current_gain_entry d \<noteq> Some nearest
       then let entry = gain_table d ! nearest
            in run_bind (tuner_set_gains E d (uint (ge_lna entry)) (uint (ge_mix entry)) (uint (ge_vga entry)))
                 (\<lambda>(d, error). if error < 0 then Inr (d, error)
                               else Inr (d\<lparr>current_gain_entry := Some nearest\<rparr>, error))
       else Inr (d, PG2SDR_SUCCESS)) id"

subsection \<open>The tables\<close>

definition set_gain_tables ::
  "bool \<Rightarrow> (gain_entry list \<Rightarrow> gain_entry list) \<Rightarrow> 'u device option \<Rightarrow> gain_entry list option \<Rightarrow>
   double list option \<Rightarrow> double list option \<Rightarrow> double list option \<Rightarrow> ('u device option \<times> int) run" where
  "set_gain_tables alloc_ok qs dev gt lt mt vt = with_dev dev (\<lambda>d.
    if gt = None \<and> lt = None \<and> mt = None \<and> vt = None then Inr (d, PG2SDR_ERROR_BAD_ARGUMENT)
    else if gt = Some [] then Inr (d, PG2SDR_ERROR_BAD_ARGUMENT)
    else let d = (case lt of Some t \<Rightarrow> d\<lparr>lna_table := take 16 t\<rparr> | None \<Rightarrow> d);
             d = (case mt of Some t \<Rightarrow> d\<lparr>mix_table := take 16 t\<rparr> | None \<Rightarrow> d);
             d = (case vt of Some t \<Rightarrow> d\<lparr>vga_table := take 16 t\<rparr> | None \<Rightarrow> d)
         in case gt of
              None \<Rightarrow> Inr (d, PG2SDR_SUCCESS)
            | Some t \<Rightarrow>
                if \<not> alloc_ok then Inr (d, PG2SDR_ERROR_NO_MEMORY)
                else Inr (d\<lparr>gain_table := qs t, current_gain_entry := None\<rparr>, PG2SDR_SUCCESS)) id"

definition get_gain_tables ::
  "bool \<Rightarrow> 'u device option \<Rightarrow> bool \<Rightarrow> bool \<Rightarrow> bool \<Rightarrow> bool \<Rightarrow> bool \<Rightarrow>
   int \<times> gain_entry list option \<times> double list option \<times> double list option \<times> double list option" where
  "get_gain_tables alloc_ok dev gt gt_size lt mt vt =
    (if CHECK_DEV dev < 0 then (CHECK_DEV dev, None, None, None, None)
     else if \<not> gt \<and> \<not> lt \<and> \<not> mt \<and> \<not> vt then (PG2SDR_ERROR_BAD_ARGUMENT, None, None, None, None)
     else if (gt \<and> \<not> gt_size) \<or> (\<not> gt \<and> gt_size) then (PG2SDR_ERROR_BAD_ARGUMENT, None, None, None, None)
     else if gt \<and> \<not> alloc_ok then (PG2SDR_ERROR_NO_MEMORY, None, None, None, None)
     else let d = the dev
          in (PG2SDR_SUCCESS, if gt then Some (gain_table d) else None, if lt then Some (lna_table d) else None,
              if mt then Some (mix_table d) else None, if vt then Some (vga_table d) else None))"

text \<open>What the C standard promises of \<open>qsort\<close> with \<open>compare_gain_entry\<close>.\<close>

definition is_qsort :: "(gain_entry list \<Rightarrow> gain_entry list) \<Rightarrow> bool" where
  "is_qsort qs \<longleftrightarrow> (\<forall>xs. mset (qs xs) = mset xs \<and> sorted_wrt (\<lambda>a b. compare_gain_entry a b \<le> 0) (qs xs))"

subsection \<open>The nearest entry\<close>

definition nearest_step :: "(nat \<Rightarrow> rat) \<Rightarrow> nat option \<Rightarrow> nat \<Rightarrow> nat option" where
  "nearest_step dst b i = (case b of None \<Rightarrow> Some i | Some k \<Rightarrow> Some (if dst i < dst k then i else k))"

interpretation near: best_scan "\<lambda>_. True" "nearest_step dst" "\<lambda>_. True" dst
  by unfold_locales (simp_all add: nearest_step_def)

lemma foldl_nearest:
  "Some (foldl (\<lambda>b i. if dst i < dst b then i else b) k is) = near.scan dst (Some k) is"
  by (induction "is" arbitrary: k) (simp_all add: nearest_step_def)

lemma foldl_nearest_best:
  fixes dst :: "nat \<Rightarrow> rat"
  defines "r k is \<equiv> foldl (\<lambda>b i. if dst i < dst b then i else b) k is"
  shows "r k is \<in> insert k (set is) \<and> (\<forall>i \<in> insert k (set is). dst (r k is) \<le> dst i)"
proof -
  obtain q where "near.scan dst (Some k) is = Some q" "q \<in> insert k (set is)" "dst q \<le> dst k"
    "\<forall>i \<in> set is. dst q \<le> dst i"
    using near.scan_Some [where b = k and xs = "is" and dst = dst] by auto
  then show ?thesis using foldl_nearest [of dst k "is"] by (simp add: r_def)
qed

lemma best_step_nearest:
  "best_step table g < 16 \<and> (\<forall>i < 16. db_distance table g (best_step table g) \<le> db_distance table g i)"
proof -
  have s: "insert 0 (set [1..<16]) = {i :: nat. i < 16}" by auto
  show ?thesis
    using foldl_nearest_best [of "db_distance table g" 0 "[1..<16]"]
    unfolding s best_step_def by simp
qed

text \<open>On a sorted table the loop that stops early finds what a full scan finds.\<close>

definition table_sorted :: "gain_entry list \<Rightarrow> bool" where
  "table_sorted t \<longleftrightarrow> (\<forall>i j. i \<le> j \<and> j < length t \<longrightarrow> gain_db (t ! i) \<le> gain_db (t ! j))"

definition entry_distance :: "gain_entry list \<Rightarrow> double \<Rightarrow> nat \<Rightarrow> double" where
  "entry_distance table gain i = \<bar>rd (gain_db (table ! i) - gain)\<bar>"

lemma nearest_loop_full:
  assumes "table_sorted t" "m \<le> n" "n \<le> length t"
  shows "nearest_loop t g k [m..<n] =
    foldl (\<lambda>b i. if entry_distance t g i < entry_distance t g b then i else b) k [m..<n]"
  using assms(2,3)
proof (induction "n - m" arbitrary: m k)
  case (Suc d)
  then have m: "m < n" "[m..<n] = m # [Suc m..<n]" by (simp_all add: upt_conv_Cons)
  define k' where "k' = (if entry_distance t g m < entry_distance t g k then m else k)"
  show ?case
  proof (cases "g < gain_db (t ! m)")
    case True
    have "\<not> entry_distance t g i < entry_distance t g k'" if "i \<in> set [Suc m..<n]" for i
    proof -
      have "gain_db (t ! m) \<le> gain_db (t ! i)"
        using assms(1) that Suc.prems by (auto simp: table_sorted_def)
      then have "\<bar>gain_db (t ! m) - g\<bar> \<le> \<bar>gain_db (t ! i) - g\<bar>" using True by simp
      then have "entry_distance t g m \<le> entry_distance t g i"
        unfolding entry_distance_def by (rule rd_dist_mono)
      then show ?thesis by (auto simp: k'_def)
    qed
    then have "foldl (\<lambda>b i. if entry_distance t g i < entry_distance t g b then i else b) k' [Suc m..<n] = k'"
      using near.scan_Some_first [where b = k' and xs = "[Suc m..<n]" and dst = "entry_distance t g"]
        foldl_nearest [of "entry_distance t g" k' "[Suc m..<n]"] by simp
    with True show ?thesis by (simp add: m k'_def entry_distance_def Let_def)
  next
    case False
    have "nearest_loop t g k' [Suc m..<n] =
      foldl (\<lambda>b i. if entry_distance t g i < entry_distance t g b then i else b) k' [Suc m..<n]"
      using Suc.hyps(1) [of "Suc m" k'] Suc.hyps(2) Suc.prems m by simp
    with False show ?thesis by (simp add: m k'_def entry_distance_def Let_def)
  qed
qed simp

subsection \<open>The invariant of the gain state\<close>

definition gain_inv :: "'u device \<Rightarrow> bool" where
  "gain_inv d \<longleftrightarrow> CHECK_DEV (Some d) = PG2SDR_SUCCESS \<and>
     gain_table d \<noteq> [] \<and> table_sorted (gain_table d) \<and>
     length (lna_table d) = 16 \<and> length (mix_table d) = 16 \<and> length (vga_table d) = 16 \<and>
     lna_gain d \<le> 15 \<and> mix_gain d \<le> 15 \<and> vga_gain d \<le> 15 \<and>
     (\<forall>k. current_gain_entry d = Some k \<longrightarrow> k < length (gain_table d) \<and>
        lna_gain d = unat (ge_lna (gain_table d ! k)) \<and> mix_gain d = unat (ge_mix (gain_table d ! k)) \<and>
        vga_gain d = unat (ge_vga (gain_table d ! k)))"

datatype gain_op =
    Set_lna nat | Set_lna_db double | Set_mix nat | Set_mix_db double | Set_vga nat | Set_vga_db double
  | Set_total_db double
  | Set_tables bool "gain_entry list option" "double list option" "double list option" "double list option"

primrec gain_exec ::
  "'u usb_env \<Rightarrow> (gain_entry list \<Rightarrow> gain_entry list) \<Rightarrow> 'u device option \<Rightarrow> gain_op \<Rightarrow> ('u device option \<times> int) run" where
  "gain_exec E qs d (Set_lna g) = set_lna_gain E d g"
| "gain_exec E qs d (Set_lna_db g) = set_lna_gain_db E d g"
| "gain_exec E qs d (Set_mix g) = set_mix_gain E d g"
| "gain_exec E qs d (Set_mix_db g) = set_mix_gain_db E d g"
| "gain_exec E qs d (Set_vga g) = set_vga_gain E d g"
| "gain_exec E qs d (Set_vga_db g) = set_vga_gain_db E d g"
| "gain_exec E qs d (Set_total_db g) = set_total_gain_db E d g"
| "gain_exec E qs d (Set_tables ok gt lt mt vt) = set_gain_tables ok qs d gt lt mt vt"

text \<open>The stage tables an API user passes are arrays of 16 (documented in pg2sdr.h).\<close>

definition gain_op_ok :: "gain_op \<Rightarrow> bool" where
  "gain_op_ok p \<longleftrightarrow> (case p of
     Set_tables ok gt lt mt vt \<Rightarrow> (\<forall>t. lt = Some t \<or> mt = Some t \<or> vt = Some t \<longrightarrow> length t = 16)
   | _ \<Rightarrow> True)"

lemma CHECK_DEV_update [simp]:
  "CHECK_DEV (Some (d\<lparr>usb := u\<rparr>)) = CHECK_DEV (Some d)"
  "CHECK_DEV (Some (d\<lparr>lna_gain := n\<rparr>)) = CHECK_DEV (Some d)"
  "CHECK_DEV (Some (d\<lparr>mix_gain := n\<rparr>)) = CHECK_DEV (Some d)"
  "CHECK_DEV (Some (d\<lparr>vga_gain := n\<rparr>)) = CHECK_DEV (Some d)"
  "CHECK_DEV (Some (d\<lparr>current_gain_entry := c\<rparr>)) = CHECK_DEV (Some d)"
  "CHECK_DEV (Some (d\<lparr>gain_table := gt\<rparr>)) = CHECK_DEV (Some d)"
  "CHECK_DEV (Some (d\<lparr>lna_table := t\<rparr>)) = CHECK_DEV (Some d)"
  "CHECK_DEV (Some (d\<lparr>mix_table := t\<rparr>)) = CHECK_DEV (Some d)"
  "CHECK_DEV (Some (d\<lparr>vga_table := t\<rparr>)) = CHECK_DEV (Some d)"
  by (simp_all add: CHECK_DEV_def)

lemma with_dev_ok:
  "CHECK_DEV (Some d) = PG2SDR_SUCCESS \<Longrightarrow>
     with_dev (Some d) f fail = run_bind (f d) (\<lambda>(d', r). Inr (Some d', r))"
  by (simp add: with_dev_def)

text \<open>Setting one stage: the other two are left alone.\<close>

lemma stage_result:
  assumes inv: "gain_inv d" and range: "l \<le> 15" "m \<le> 15" "v \<le> 15"
    and run: "tuner_set_gains E d l m v = Inr (d1, e)"
  shows "e < 0 \<and> gain_inv d1 \<or> \<not> e < 0 \<and> e = PG2SDR_SUCCESS \<and> gain_inv (d1\<lparr>current_gain_entry := None\<rparr>)"
  using tuner_set_gains_result [OF range run]
proof (elim disjE conjE)
  assume e: "e = PG2SDR_SUCCESS" and d: "d1 = d\<lparr>usb := usb d1, lna_gain := (if 0 \<le> l then nat l else lna_gain d),
        mix_gain := (if 0 \<le> m then nat m else mix_gain d),
        vga_gain := (if 0 \<le> v then nat v else vga_gain d)\<rparr>"
  have "gain_inv (d1\<lparr>current_gain_entry := None\<rparr>)"
    by (subst d) (use inv range in \<open>auto simp: gain_inv_def\<close>)
  with e show ?thesis by simp
next
  assume e: "e < 0" and d: "d1 = d\<lparr>usb := usb d1\<rparr>"
  have "gain_inv d1" by (subst d) (use inv in \<open>auto simp: gain_inv_def\<close>)
  with e show ?thesis by simp
qed

lemma generic_set_gain_inv:
  assumes inv: "gain_inv d" and set: "\<And>g. f d g = Inr (d, PG2SDR_ERROR_BAD_ARGUMENT) \<or>
      (\<exists>l m v. l \<le> 15 \<and> m \<le> 15 \<and> v \<le> 15 \<and> f d g = tuner_set_gains E d l m v)"
  shows "\<exists>d' e. generic_set_gain d g f = Inr (d', e) \<and> gain_inv d'"
  using set [of g]
proof (elim disjE exE conjE)
  assume "f d g = Inr (d, PG2SDR_ERROR_BAD_ARGUMENT)"
  with inv show ?thesis by (simp add: generic_set_gain_def)
next
  fix l m v :: int assume r: "l \<le> 15" "m \<le> 15" "v \<le> 15" and f: "f d g = tuner_set_gains E d l m v"
  obtain d1 e where run: "tuner_set_gains E d l m v = Inr (d1, e)"
    using tuner_set_gains_total [OF r, of E d] by fastforce
  show ?thesis using stage_result [OF inv r run] by (auto simp: generic_set_gain_def f run)
qed

lemma tuner_stage_shape:
  "tuner_set_lna E d g = Inr (d, PG2SDR_ERROR_BAD_ARGUMENT) \<or>
     (\<exists>l m v. l \<le> 15 \<and> m \<le> 15 \<and> v \<le> 15 \<and> tuner_set_lna E d g = tuner_set_gains E d l m v)"
  "tuner_set_mix E d g = Inr (d, PG2SDR_ERROR_BAD_ARGUMENT) \<or>
     (\<exists>l m v. l \<le> 15 \<and> m \<le> 15 \<and> v \<le> 15 \<and> tuner_set_mix E d g = tuner_set_gains E d l m v)"
  "tuner_set_vga E d g = Inr (d, PG2SDR_ERROR_BAD_ARGUMENT) \<or>
     (\<exists>l m v. l \<le> 15 \<and> m \<le> 15 \<and> v \<le> 15 \<and> tuner_set_vga E d g = tuner_set_gains E d l m v)"
proof -
  have ex: "\<exists>l m v. l \<le> 15 \<and> m \<le> 15 \<and> v \<le> 15 \<and> tuner_set_gains E d a b c = tuner_set_gains E d l m v"
    if "a \<le> 15" "b \<le> 15" "c \<le> 15" for a b c using that by blast
  show "tuner_set_lna E d g = Inr (d, PG2SDR_ERROR_BAD_ARGUMENT) \<or>
     (\<exists>l m v. l \<le> 15 \<and> m \<le> 15 \<and> v \<le> 15 \<and> tuner_set_lna E d g = tuner_set_gains E d l m v)"
    using ex [of "int g" "- 1" "- 1"] by (cases "15 < g") (simp_all add: tuner_set_lna_def)
  show "tuner_set_mix E d g = Inr (d, PG2SDR_ERROR_BAD_ARGUMENT) \<or>
     (\<exists>l m v. l \<le> 15 \<and> m \<le> 15 \<and> v \<le> 15 \<and> tuner_set_mix E d g = tuner_set_gains E d l m v)"
    using ex [of "- 1" "int g" "- 1"] by (cases "15 < g") (simp_all add: tuner_set_mix_def)
  show "tuner_set_vga E d g = Inr (d, PG2SDR_ERROR_BAD_ARGUMENT) \<or>
     (\<exists>l m v. l \<le> 15 \<and> m \<le> 15 \<and> v \<le> 15 \<and> tuner_set_vga E d g = tuner_set_gains E d l m v)"
    using ex [of "- 1" "- 1" "int g"] by (cases "15 < g") (simp_all add: tuner_set_vga_def)
qed

lemma nearest_loop_range:
  assumes "t \<noteq> []" "table_sorted t"
  shows "nearest_loop t g 0 [1..<length t] < length t"
    "\<forall>i < length t. entry_distance t g (nearest_loop t g 0 [1..<length t]) \<le> entry_distance t g i"
proof -
  have e: "nearest_loop t g 0 [1..<length t] =
      foldl (\<lambda>b i. if entry_distance t g i < entry_distance t g b then i else b) 0 [1..<length t]"
    using assms by (intro nearest_loop_full) (cases t; simp)+
  have s: "insert 0 (set [1..<length t]) = {i. i < length t}" using assms(1) by (cases t) auto
  show "nearest_loop t g 0 [1..<length t] < length t"
    "\<forall>i < length t. entry_distance t g (nearest_loop t g 0 [1..<length t]) \<le> entry_distance t g i"
    using foldl_nearest_best [of "entry_distance t g" 0 "[1..<length t]"] unfolding s e by simp_all
qed

lemma uint_4_bits: "uint (w :: 4 word) \<le> 15" "nat (uint w) = unat w"
proof -
  have "uint w < 2 ^ LENGTH(4)" by (rule unsigned_less)
  then show "uint w \<le> 15" "nat (uint w) = unat w" by simp_all
qed

lemma set_total_gain_db_inv:
  assumes inv: "gain_inv d"
  shows "\<exists>d' e. set_total_gain_db E (Some d) g = Inr (Some d', e) \<and> gain_inv d' \<and>
    (e = PG2SDR_SUCCESS \<longrightarrow> gain_table d' = gain_table d \<and>
       current_gain_entry d' = Some (nearest_loop (gain_table d) g 0 [1..<length (gain_table d)]))"
proof -
  define k where "k = nearest_loop (gain_table d) g 0 [1..<length (gain_table d)]"
  define en where "en = gain_table d ! k"
  have chk: "CHECK_DEV (Some d) = PG2SDR_SUCCESS" and k: "k < length (gain_table d)"
    using inv nearest_loop_range(1) by (simp_all add: gain_inv_def k_def)
  show ?thesis
  proof (cases "current_gain_entry d = Some k")
    case True
    then show ?thesis
      unfolding set_total_gain_db_def with_dev_ok [OF chk] k_def [symmetric] Let_def using inv by simp
  next
    case False
    note r = uint_4_bits(1) [of "ge_lna en"] uint_4_bits(1) [of "ge_mix en"] uint_4_bits(1) [of "ge_vga en"]
    obtain d1 e where run: "tuner_set_gains E d (uint (ge_lna en)) (uint (ge_mix en)) (uint (ge_vga en)) = Inr (d1, e)"
      using tuner_set_gains_total [OF r, of E d] by fastforce
    have set: "set_total_gain_db E (Some d) g =
        Inr (if e < 0 then (Some d1, e) else (Some (d1\<lparr>current_gain_entry := Some k\<rparr>), e))"
      unfolding set_total_gain_db_def with_dev_ok [OF chk] k_def [symmetric] Let_def en_def [symmetric]
      using False run by simp
    from tuner_set_gains_result [OF r run] show ?thesis
    proof (elim disjE conjE)
      assume e: "e = PG2SDR_SUCCESS" and
        d1: "d1 = d\<lparr>usb := usb d1, lna_gain := (if 0 \<le> uint (ge_lna en) then nat (uint (ge_lna en)) else lna_gain d),
        mix_gain := (if 0 \<le> uint (ge_mix en) then nat (uint (ge_mix en)) else mix_gain d),
        vga_gain := (if 0 \<le> uint (ge_vga en) then nat (uint (ge_vga en)) else vga_gain d)\<rparr>"
      have b: "unat (ge_lna en) \<le> 15" "unat (ge_mix en) \<le> 15" "unat (ge_vga en) \<le> 15"
        using r uint_4_bits(2) by (metis nat_le_iff of_nat_numeral)+
      define d2 where "d2 = d1\<lparr>current_gain_entry := Some k\<rparr>"
      have d2: "d2 = d\<lparr>usb := usb d1, lna_gain := unat (ge_lna en), mix_gain := unat (ge_mix en),
          vga_gain := unat (ge_vga en), current_gain_entry := Some k\<rparr>"
        unfolding d2_def by (subst d1) simp
      have "gain_inv d2 \<and> gain_table d2 = gain_table d \<and> current_gain_entry d2 = Some k"
        using inv b k by (simp add: d2 gain_inv_def en_def)
      then show ?thesis unfolding k_def [symmetric] using set e by (simp add: d2_def)
    next
      assume e: "e \<noteq> PG2SDR_SUCCESS" "e < 0" and d1: "d1 = d\<lparr>usb := usb d1\<rparr>"
      have "gain_inv d1" by (subst d1) (use inv in \<open>simp add: gain_inv_def\<close>)
      then show ?thesis using set e by simp
    qed
  qed
qed

lemma qsort_sorted:
  assumes "is_qsort qs"
  shows "table_sorted (qs t)" "t \<noteq> [] \<Longrightarrow> qs t \<noteq> []" "mset (qs t) = mset t"
proof -
  have m: "mset (qs t) = mset t" and s: "sorted_wrt (\<lambda>a b. compare_gain_entry a b \<le> 0) (qs t)"
    using assms by (simp_all add: is_qsort_def)
  show "mset (qs t) = mset t" by (rule m)
  show "t \<noteq> [] \<Longrightarrow> qs t \<noteq> []" using m by auto
  show "table_sorted (qs t)"
    unfolding table_sorted_def
  proof (intro allI impI)
    fix i j assume ij: "i \<le> j \<and> j < length (qs t)"
    show "gain_db (qs t ! i) \<le> gain_db (qs t ! j)"
    proof (cases "i = j")
      case False
      then have "compare_gain_entry (qs t ! i) (qs t ! j) \<le> 0"
        using s ij by (simp add: sorted_wrt_iff_nth_less)
      then show ?thesis by (simp add: compare_gain_entry_def split: if_splits)
    qed simp
  qed
qed

lemma set_gain_tables_inv:
  assumes inv: "gain_inv d" and qs: "is_qsort qs" and ok: "gain_op_ok (Set_tables a gt lt mt vt)"
  shows "\<exists>d' e. set_gain_tables a qs (Some d) gt lt mt vt = Inr (Some d', e) \<and> gain_inv d'"
proof -
  have chk: "CHECK_DEV (Some d) = PG2SDR_SUCCESS" using inv by (simp add: gain_inv_def)
  show ?thesis
    using inv qsort_sorted [OF qs] ok unfolding set_gain_tables_def with_dev_ok [OF chk] Let_def
    by (cases gt; cases lt; cases mt; cases vt; cases a) (simp_all add: gain_inv_def gain_op_ok_def)
qed

lemma gain_exec_inv:
  assumes inv: "gain_inv d" and qs: "is_qsort qs" and ok: "gain_op_ok p"
  shows "\<exists>d' e. gain_exec E qs (Some d) p = Inr (Some d', e) \<and> gain_inv d'"
proof -
  have chk: "CHECK_DEV (Some d) = PG2SDR_SUCCESS" using inv by (simp add: gain_inv_def)
  note lna = generic_set_gain_inv [OF inv, of "tuner_set_lna E" E, OF tuner_stage_shape(1)]
  note mix = generic_set_gain_inv [OF inv, of "tuner_set_mix E" E, OF tuner_stage_shape(2)]
  note vga = generic_set_gain_inv [OF inv, of "tuner_set_vga E" E, OF tuner_stage_shape(3)]
  show ?thesis
  proof (cases p)
    case (Set_total_db g)
    then show ?thesis using set_total_gain_db_inv [OF inv, of E g] by (simp only: gain_exec.simps) blast
  next
    case (Set_tables a gt lt mt vt)
    then show ?thesis using set_gain_tables_inv [OF inv qs] ok by simp
  next
    case (Set_lna g)
    then show ?thesis
      using lna [of g]
      by (auto simp: set_lna_gain_def with_dev_ok [OF chk])
  next
    case (Set_lna_db g)
    then show ?thesis
      using lna [of "best_step (lna_table d) g"]
      by (auto simp: set_lna_gain_db_def with_dev_ok [OF chk] generic_set_gain_db_def)
  next
    case (Set_mix g)
    then show ?thesis
      using mix [of g]
      by (auto simp: set_mix_gain_def with_dev_ok [OF chk])
  next
    case (Set_mix_db g)
    then show ?thesis
      using mix [of "best_step (mix_table d) g"]
      by (auto simp: set_mix_gain_db_def with_dev_ok [OF chk] generic_set_gain_db_def)
  next
    case (Set_vga g)
    then show ?thesis
      using vga [of g]
      by (auto simp: set_vga_gain_def with_dev_ok [OF chk])
  next
    case (Set_vga_db g)
    then show ?thesis
      using vga [of "best_step (vga_table d) g"]
      by (auto simp: set_vga_gain_db_def with_dev_ok [OF chk] generic_set_gain_db_def)
  qed
qed

primrec gain_run ::
  "'u usb_env \<Rightarrow> (gain_entry list \<Rightarrow> gain_entry list) \<Rightarrow> 'u device option \<Rightarrow> gain_op list \<Rightarrow> ('u device option) run" where
  "gain_run E qs d [] = Inr d"
| "gain_run E qs d (p # ps) = run_bind (gain_exec E qs d p) (\<lambda>(d', e). gain_run E qs d' ps)"

subsection \<open>Properties\<close>

text \<open>C38: from a consistent gain state, any sequence of calls of the gain API (whatever
  the device answers, whether memory is available or not, with any arguments) completes without an
  assertion failure and leaves a consistent state: the table sorted and not empty, the stages
  within 0 to 15 (so that they index the stage tables), and a current table entry, if there is one,
  inside the table and with exactly the gains the stages are set to. In particular the test
  \<open>current_gain_entry != nearest\<close> never skips a needed write.\<close>

theorem gain_state_invariant:
  assumes "gain_inv d" "is_qsort qs" "\<forall>p \<in> set ps. gain_op_ok p"
  shows "\<exists>d'. gain_run E qs (Some d) ps = Inr (Some d') \<and> gain_inv d'"
  using assms
proof (induction ps arbitrary: d)
  case (Cons p ps)
  obtain d1 e where "gain_exec E qs (Some d) p = Inr (Some d1, e)" "gain_inv d1"
    using gain_exec_inv [OF Cons.prems(1,2)] Cons.prems(3) by fastforce
  then show ?case using Cons.IH [of d1] Cons.prems(2,3) by simp
qed simp

text \<open>A device with a small gain table, for concrete evaluations.\<close>

definition gain_device :: "unit device" where
  "gain_device = sample_device\<lparr>
     gain_table := [\<lparr>gain_db = 0, ge_lna = 0, ge_mix = 0, ge_vga = 0\<rparr>,
       \<lparr>gain_db = 10, ge_lna = 5, ge_mix = 3, ge_vga = 2\<rparr>, \<lparr>gain_db = 30, ge_lna = 12, ge_mix = 9, ge_vga = 8\<rparr>],
     lna_table := map of_nat [0..<16], mix_table := map of_nat [0..<16], vga_table := map of_nat [0..<16]\<rparr>"

lemma gain_device_inv: "gain_inv gain_device"
proof -
  have "table_sorted (gain_table gain_device)"
    by (auto simp: table_sorted_def gain_device_def less_Suc_eq nth_Cons' split: if_splits)
  then show ?thesis
    by (simp add: gain_inv_def gain_device_def sample_device_def CHECK_DEV_def)
qed

lemma sort_key_is_qsort: "is_qsort (sort_key gain_db)"
proof -
  have "sorted_wrt (\<lambda>a b. compare_gain_entry a b \<le> 0) (sort_key gain_db xs)" for xs
  proof -
    have "sorted_wrt (\<lambda>a b. gain_db a \<le> gain_db b) (sort_key gain_db xs)"
      using sorted_sort_key [of gain_db xs] by (simp add: sorted_map)
    then show ?thesis by (rule sorted_wrt_mono_rel [rotated]) (simp add: compare_gain_entry_def)
  qed
  then show ?thesis by (simp add: is_qsort_def)
qed

theorem gain_state_invariant_witness:
  "\<exists>d'. gain_run accepting_env (sort_key gain_db) (Some gain_device) [Set_total_db 12, Set_lna 99, Set_mix_db 4] = Inr (Some d') \<and>
     gain_inv d'"
  by (rule gain_state_invariant) (simp_all add: gain_device_inv sort_key_is_qsort gain_op_ok_def)

text \<open>Note: when \<open>pg2sdr_set_total_gain_db\<close> succeeds, the entry it has made current is, of the
  whole table, one with the smallest distance to the requested gain (as computed in doubles),
  although its loop stops at the first entry above the request; the stages are set to that entry,
  and \<open>pg2sdr_get_total_gain_db\<close> then returns exactly its gain.\<close>

theorem total_gain_nearest:
  assumes inv: "gain_inv d" and run: "set_total_gain_db E (Some d) g = Inr (Some d', PG2SDR_SUCCESS)"
  shows "\<exists>k < length (gain_table d). gain_table d' = gain_table d \<and> current_gain_entry d' = Some k \<and>
     (\<forall>i < length (gain_table d). \<bar>rd (gain_db (gain_table d ! k) - g)\<bar> \<le> \<bar>rd (gain_db (gain_table d ! i) - g)\<bar>) \<and>
     lna_gain d' = unat (ge_lna (gain_table d ! k)) \<and> mix_gain d' = unat (ge_mix (gain_table d ! k)) \<and>
     vga_gain d' = unat (ge_vga (gain_table d ! k)) \<and>
     get_total_gain_db (Some d') True = (PG2SDR_SUCCESS, Some (gain_db (gain_table d ! k)))"
proof -
  define k where "k = nearest_loop (gain_table d) g 0 [1..<length (gain_table d)]"
  have d': "gain_inv d'" "gain_table d' = gain_table d" "current_gain_entry d' = Some k"
    using set_total_gain_db_inv [OF inv, of E g] run unfolding k_def by auto
  have "k < length (gain_table d)" "\<forall>i < length (gain_table d). entry_distance (gain_table d) g k \<le> entry_distance (gain_table d) g i"
    using nearest_loop_range [of "gain_table d" g] inv unfolding k_def by (simp_all add: gain_inv_def)
  with d' show ?thesis
    by (intro exI [of _ k]) (simp add: gain_inv_def entry_distance_def get_total_gain_db_def)
qed

theorem total_gain_nearest_witness:
  "\<exists>d' k. set_total_gain_db accepting_env (Some gain_device) 12 = Inr (Some d', PG2SDR_SUCCESS) \<and>
     current_gain_entry d' = Some k \<and> get_total_gain_db (Some d') True = (PG2SDR_SUCCESS, Some (gain_db (gain_table gain_device ! k)))"
proof -
  define d' where "d' = gain_device\<lparr>lna_gain := 5, mix_gain := 3, vga_gain := 2, current_gain_entry := Some 1\<rparr>"
  have run: "set_total_gain_db accepting_env (Some gain_device) 12 = Inr (Some d', PG2SDR_SUCCESS)"
    unfolding d'_def by code_simp
  show ?thesis using total_gain_nearest [OF gain_device_inv run] run by blast
qed

text \<open>Note: \<open>pg2sdr_set_gain_tables\<close> rejects a call without any table and an empty gain table
  with BAD_ARGUMENT and no effect. Otherwise the given stage tables are replaced, also when the
  allocation of the gain table's copy then fails (NO_MEMORY: the gain table and the current entry
  are kept); on success the new gain table is a sorted permutation of the caller's and there is no current
  entry.\<close>

theorem set_gain_tables_effect:
  assumes inv: "gain_inv d" and qs: "is_qsort qs"
    and run: "set_gain_tables alloc_ok qs (Some d) gt lt mt vt = Inr (Some d', e)"
  shows "(gt = None \<and> lt = None \<and> mt = None \<and> vt = None \<or> gt = Some []) \<and> e = PG2SDR_ERROR_BAD_ARGUMENT \<and> d' = d
    \<or> lna_table d' = (case lt of Some t \<Rightarrow> take 16 t | None \<Rightarrow> lna_table d) \<and>
      mix_table d' = (case mt of Some t \<Rightarrow> take 16 t | None \<Rightarrow> mix_table d) \<and>
      vga_table d' = (case vt of Some t \<Rightarrow> take 16 t | None \<Rightarrow> vga_table d) \<and>
      (case gt of
         None \<Rightarrow> e = PG2SDR_SUCCESS \<and> gain_table d' = gain_table d \<and> current_gain_entry d' = current_gain_entry d
       | Some t \<Rightarrow>
           if alloc_ok
           then e = PG2SDR_SUCCESS \<and> mset (gain_table d') = mset t \<and> table_sorted (gain_table d') \<and>
             current_gain_entry d' = None
           else e = PG2SDR_ERROR_NO_MEMORY \<and> gain_table d' = gain_table d \<and>
             current_gain_entry d' = current_gain_entry d)"
proof -
  have chk: "CHECK_DEV (Some d) = PG2SDR_SUCCESS" using inv by (simp add: gain_inv_def)
  show ?thesis
    using run qsort_sorted [OF qs] unfolding set_gain_tables_def with_dev_ok [OF chk] Let_def
    by (cases gt; cases lt; cases mt; cases vt; cases alloc_ok) (auto split: if_splits)
qed

theorem set_gain_tables_effect_witness:
  "\<exists>d'. set_gain_tables False (sort_key gain_db) (Some gain_device) (Some [\<lparr>gain_db = 7, ge_lna = 1, ge_mix = 1, ge_vga = 1\<rparr>])
      (Some (replicate 16 2)) None None = Inr (Some d', PG2SDR_ERROR_NO_MEMORY) \<and>
     lna_table d' = replicate 16 2 \<and> gain_table d' = gain_table gain_device"
proof -
  define d' where "d' = gain_device\<lparr>lna_table := replicate 16 2\<rparr>"
  have run: "set_gain_tables False (sort_key gain_db) (Some gain_device) (Some [\<lparr>gain_db = 7, ge_lna = 1, ge_mix = 1, ge_vga = 1\<rparr>])
      (Some (replicate 16 2)) None None = Inr (Some d', PG2SDR_ERROR_NO_MEMORY)"
    using gain_device_inv by (simp add: set_gain_tables_def with_dev_def gain_inv_def d'_def)
  show ?thesis
    using set_gain_tables_effect [OF gain_device_inv sort_key_is_qsort run] run by auto
qed

end
