(* ===== verification/Bandpass.thy ===== *)
theory Bandpass
  imports Gain
begin

section \<open>Bandpass filters (src/bandpass.c)\<close>

text \<open>
  The table of the tuner's bandpass filters and the choice of the filter for a signal: the entry
  with the smallest penalty, which charges for width in excess, for signal cut off (after folding at the
  Nyquist limits) and for ripple.
\<close>

definition set_bandpass_table ::
  "bool \<Rightarrow> 'u device option \<Rightarrow> bandpass_entry list option \<Rightarrow> ('u device option \<times> int) run" where
  "set_bandpass_table alloc_ok dev table =
    (if CHECK_DEV dev < 0 then Inr (dev, CHECK_DEV dev)
     else case table of
       None \<Rightarrow> Inr (dev, PG2SDR_ERROR_BAD_ARGUMENT)
     | Some t \<Rightarrow>
         if t = [] then Inr (dev, PG2SDR_ERROR_BAD_ARGUMENT)
         else if \<not> alloc_ok then Inr (dev, PG2SDR_ERROR_NO_MEMORY)
         else Inr (map_option (\<lambda>d. d\<lparr>bandpass_table := t, current_bandpass_entry := None\<rparr>) dev, PG2SDR_SUCCESS))"

definition get_bandpass_table ::
  "bool \<Rightarrow> 'u device option \<Rightarrow> bool \<Rightarrow> bool \<Rightarrow> int \<times> bandpass_entry list option" where
  "get_bandpass_table alloc_ok dev out out_size =
    (if CHECK_DEV dev < 0 then (CHECK_DEV dev, None)
     else if \<not> out \<or> \<not> out_size then (PG2SDR_ERROR_BAD_ARGUMENT, None)
     else if \<not> alloc_ok then (PG2SDR_ERROR_NO_MEMORY, None)
     else (PG2SDR_SUCCESS, Some (bandpass_table (the dev))))"

definition filter_penalty :: "bandpass_entry \<Rightarrow> double \<Rightarrow> double \<Rightarrow> double \<Rightarrow> double \<Rightarrow> double" where
  "filter_penalty entry low_signal high_signal low_nyquist high_nyquist =
    (let penalty = 0;
         lower = lower_corner entry;
         upper = upper_corner entry;
         penalty = (if lower < low_signal then rd (penalty + rd (1 / 4 * rd (low_signal - lower))) else penalty);
         penalty = (if high_signal < upper then rd (penalty + rd (1 / 4 * rd (upper - high_signal))) else penalty);
         lower = (if lower < low_nyquist then rd (low_nyquist + rd (low_nyquist - lower)) else lower);
         upper = (if high_nyquist < upper then rd (high_nyquist - rd (upper - high_nyquist)) else upper);
         penalty = (if low_signal < lower then rd (penalty + rd (lower - low_signal)) else penalty);
         penalty = (if upper < high_signal then rd (penalty + rd (high_signal - upper)) else penalty);
         penalty = rd (penalty / rd (high_signal - low_signal))
     in rd (penalty + rd (ripple entry * rd (1 / 20))))"

definition untangle :: "double \<Rightarrow> double \<Rightarrow> double \<times> double" where
  "untangle low_signal high_signal =
    (if rd (high_signal - low_signal) < 1000
     then (rd ((if low_signal < high_signal then low_signal else high_signal) - 500),
           rd ((if high_signal < low_signal then low_signal else high_signal) + 500))
     else (low_signal, high_signal))"

definition select_bandpass_filter :: "'u device \<Rightarrow> double \<Rightarrow> double \<Rightarrow> double \<Rightarrow> double \<Rightarrow> nat run" where
  "select_bandpass_filter dev low_signal high_signal low_nyquist high_nyquist =
    (if bandpass_table dev = [] then Inl Out_of_bounds
     else let (low_signal, high_signal) = untangle low_signal high_signal;
              penalty = (\<lambda>i. filter_penalty (bandpass_table dev ! i) low_signal high_signal low_nyquist high_nyquist)
          in Inr (fst (foldl (\<lambda>(best, best_penalty) i.
                    if penalty i < best_penalty then (i, penalty i) else (best, best_penalty))
               (0, penalty 0) [1..<length (bandpass_table dev)])))"

subsection \<open>Lemmas\<close>

lemma penalty_fold:
  "foldl (\<lambda>(best, bp) i. if p i < bp then (i, p i) else (best, bp)) (k, p k) is =
    (let b = foldl (\<lambda>b i. if p i < p b then i else b) k is in (b, p b))"
  by (induction "is" arbitrary: k) (auto simp: Let_def)

lemma untangle_width:
  assumes "untangle l h = (l', h')" "\<bar>l\<bar> < 2 ^ 40" "\<bar>h\<bar> < 2 ^ 40"
  shows "0 < rd (h' - l')"
proof (cases "rd (h - l) < 1000")
  case False
  then show ?thesis using assms(1) by (simp add: untangle_def)
next
  case True
  define a where "a = min l h"
  define b where "b = max l h"
  have ab: "a \<le> b" "\<bar>a\<bar> \<le> 2 ^ 40" "\<bar>b\<bar> \<le> 2 ^ 40" using assms(2,3) by (auto simp: a_def b_def)
  have e: "l' = rd (a - 500)" "h' = rd (b + 500)"
    using assms(1) True by (auto simp: untangle_def a_def b_def min_def max_def not_less split: if_splits)
  have "\<bar>rd (a - 500) - (a - 500)\<bar> \<le> eps_d * 2 ^ 41" "\<bar>rd (b + 500) - (b + 500)\<bar> \<le> eps_d * 2 ^ 41"
    using ab by (intro dbl.rnd_near; simp)+
  moreover have "eps_d * 2 ^ 41 \<le> 1" by (simp add: eps_d_def)
  ultimately have "0 < h' - l'" using ab(1) unfolding e by linarith
  then show ?thesis by (rule dbl.rnd_pos)
qed

lemma filter_penalty_nonneg:
  assumes "0 \<le> ripple e" "0 < rd (h - l)"
  shows "0 \<le> filter_penalty e l h nl nh"
proof -
  have r: "0 \<le> rd (ripple e * rd (1 / 20))" using assms(1) by (simp add: dbl.rnd_nonneg)
  have add: "0 \<le> x \<Longrightarrow> 0 \<le> y \<Longrightarrow> 0 \<le> rd (x + rd y)" for x y by (simp add: dbl.rnd_nonneg)
  have q: "0 \<le> x \<Longrightarrow> 0 \<le> y \<Longrightarrow> 0 \<le> rd (x + rd (1 / 4 * rd y))" for x y by (simp add: dbl.rnd_nonneg)
  have d: "0 \<le> x \<Longrightarrow> 0 \<le> rd (x / rd (h - l))" for x using assms(2) by (simp add: dbl.rnd_nonneg)
  define p1 where "p1 = (if lower_corner e < l then rd (0 + rd (1 / 4 * rd (l - lower_corner e))) else 0)"
  define p2 where "p2 = (if h < upper_corner e then rd (p1 + rd (1 / 4 * rd (upper_corner e - h))) else p1)"
  define lo where "lo = (if lower_corner e < nl then rd (nl + rd (nl - lower_corner e)) else lower_corner e)"
  define up where "up = (if nh < upper_corner e then rd (nh - rd (upper_corner e - nh)) else upper_corner e)"
  define p3 where "p3 = (if l < lo then rd (p2 + rd (lo - l)) else p2)"
  define p4 where "p4 = (if up < h then rd (p3 + rd (h - up)) else p3)"
  have p: "0 \<le> p1" "0 \<le> p2" "0 \<le> p3" "0 \<le> p4"
    using q [of 0 "l - lower_corner e"] q [of p1 "upper_corner e - h"] add [of p2 "lo - l"] add [of p3 "h - up"]
    by (simp_all add: p1_def p2_def p3_def p4_def)
  have "filter_penalty e l h nl nh = rd (rd (p4 / rd (h - l)) + rd (ripple e * rd (1 / 20)))"
    unfolding filter_penalty_def Let_def p1_def [symmetric] p2_def [symmetric] lo_def [symmetric] up_def [symmetric]
      p3_def [symmetric] p4_def [symmetric] by (rule refl)
  then show ?thesis using d [OF p(4)] r by (simp add: dbl.rnd_nonneg)
qed

subsection \<open>Properties\<close>

text \<open>Note: on a table that is not empty the selection terminates at an entry of the table whose penalty, for the
  signal limits after untangling, is the smallest of all entries. When the limits are frequencies below
  1 THz and no entry has a negative ripple, the untangled bandwidth is positive (the penalty never
  divides by zero) and no penalty is negative, so an entry of penalty zero is chosen when there is one.\<close>

theorem bandpass_selection_optimal:
  assumes table: "bandpass_table dev \<noteq> []"
    and limits: "\<bar>low\<bar> < 10 ^ 12" "\<bar>high\<bar> < 10 ^ 12" and r: "\<forall>e \<in> set (bandpass_table dev). 0 \<le> ripple e"
    and u: "untangle low high = (l, h)"
  shows "\<exists>k < length (bandpass_table dev). select_bandpass_filter dev low high nl nh = Inr k \<and> 0 < rd (h - l) \<and>
    (\<forall>i < length (bandpass_table dev).
       filter_penalty (bandpass_table dev ! k) l h nl nh \<le> filter_penalty (bandpass_table dev ! i) l h nl nh \<and>
       0 \<le> filter_penalty (bandpass_table dev ! i) l h nl nh)"
proof -
  define p where "p = (\<lambda>i. filter_penalty (bandpass_table dev ! i) l h nl nh)"
  define k where "k = foldl (\<lambda>b i. if p i < p b then i else b) 0 [1..<length (bandpass_table dev)]"
  have s: "insert 0 (set [1..<length (bandpass_table dev)]) = {i. i < length (bandpass_table dev)}"
    using table by (cases "bandpass_table dev") auto
  have k: "k < length (bandpass_table dev)" "\<forall>i < length (bandpass_table dev). p k \<le> p i"
    using foldl_nearest_best [of p 0 "[1..<length (bandpass_table dev)]"] unfolding s k_def by simp_all
  have w: "0 < rd (h - l)" by (rule untangle_width [OF u]) (use limits in simp_all)
  have "select_bandpass_filter dev low high nl nh = Inr k"
    using table penalty_fold [of p 0 "[1..<length (bandpass_table dev)]", unfolded p_def]
    by (simp add: select_bandpass_filter_def u k_def p_def Let_def cong: if_cong)
  moreover have "\<forall>i < length (bandpass_table dev). 0 \<le> p i"
    unfolding p_def using r w by (simp add: filter_penalty_nonneg)
  ultimately show ?thesis using k w unfolding p_def by blast
qed

definition bandpass_device :: "unit device" where
  "bandpass_device = sample_device\<lparr>bandpass_table :=
     [\<lparr>lower_corner = 1000000, upper_corner = 4000000, ripple = 1, hpf_corner = 5, lpf_narrow = 0, lpf_coarse = 1,
       lpf_fine = 3, lpf_q = 0\<rparr>,
      \<lparr>lower_corner = 2000000, upper_corner = 8000000, ripple = 0, hpf_corner = 9, lpf_narrow = 1, lpf_coarse = 2,
       lpf_fine = 7, lpf_q = 1\<rparr>]\<rparr>"

theorem bandpass_selection_optimal_witness:
  "\<exists>k < 2. select_bandpass_filter bandpass_device 2000000 8000000 0 10000000 = Inr k"
proof -
  have u: "untangle 2000000 8000000 = (2000000, 8000000)" by (simp add: untangle_def)
  show ?thesis
    using bandpass_selection_optimal [of bandpass_device 2000000 8000000, OF _ _ _ _ u, of 0 10000000]
    by (auto simp: bandpass_device_def)
qed

end
