(* ===== verification/AdcPll.thy ===== *)
theory AdcPll
  imports BestScan CNum DeviceState "HOL-Library.Product_Lexorder"
begin

section \<open>ADC clock divisors (src/adc.c, include/internal/adc.h)\<close>

text \<open>
  The ADC clock is produced from the 12 MHz reference either directly, by the divider I, or by the
  PLL: reference / N * 2M gives the frequency of the oscillator (fcco), divided by 2P (or bypassed) and by I.
  \<open>find_divisors\<close> searches the settings whose error is below a threshold for the best one.
\<close>

subsection \<open>Constants and effective divisors\<close>

definition adc_min_fcco :: nat where "adc_min_fcco = 275000000"
definition adc_max_fcco :: nat where "adc_max_fcco = 550000000"
definition adc_reference_frequency :: double where "adc_reference_frequency = 12000000"
definition adc_n_max_divisor :: nat where "adc_n_max_divisor = 256"
definition adc_p_max_divisor :: nat where "adc_p_max_divisor = 32"
definition adc_i_max_divisor :: nat where "adc_i_max_divisor = 256"
definition adc_p_i_table_size :: nat where
  "adc_p_i_table_size = adc_p_max_divisor * 2 * adc_i_max_divisor + 1"
definition UINT32_MAX :: nat where "UINT32_MAX = 4294967295"

lemmas adc_consts = adc_min_fcco_def adc_max_fcco_def adc_reference_frequency_def
  adc_n_max_divisor_def adc_p_max_divisor_def adc_i_max_divisor_def adc_p_i_table_size_def UINT32_MAX_def

text \<open>The assertions of these three functions are conditions on the argument; see \<open>p_i_step\<close>.\<close>

definition adc_effective_n_divisor :: "nat \<Rightarrow> nat" where
  "adc_effective_n_divisor n = (if 0 < n then n else 1)"

definition adc_effective_p_divisor :: "nat \<Rightarrow> nat" where
  "adc_effective_p_divisor p = (if 0 < p then p * 2 else 1)"

definition adc_effective_i_divisor :: "nat \<Rightarrow> nat" where
  "adc_effective_i_divisor i = (if 0 < i then i else 1)"

definition adc_fixed_point_m :: "double \<Rightarrow> u32 run" where
  "adc_fixed_point_m m = to_unsigned (of_int (c_round (rd (m * 32768))))"

subsection \<open>The table of P and I\<close>

text \<open>The array of 16385 tuples, as a function of the index.\<close>

type_synonym p_i_table = "nat \<Rightarrow> nat \<times> nat"

definition p_i_step :: "p_i_table \<Rightarrow> nat \<times> nat \<Rightarrow> p_i_table run" where
  "p_i_step table pair = (case pair of (p, i) \<Rightarrow>
    if i = 1 then Inr table
    else if \<not> (p \<le> adc_p_max_divisor \<and> i \<le> adc_i_max_divisor \<and> i \<noteq> 1) then Inl Assertion_failed
    else let p_i = adc_effective_p_divisor p * adc_effective_i_divisor i
         in if \<not> p_i < adc_p_i_table_size then Inl Assertion_failed
            else Inr (if i < snd (table p_i) then table(p_i := (p, i)) else table))"

definition adc_make_p_i_table :: "p_i_table run" where
  "adc_make_p_i_table =
    run_foldl p_i_step (\<lambda>_. (UINT32_MAX, UINT32_MAX))
      (List.product [0..<adc_p_max_divisor + 1] [0..<adc_i_max_divisor + 1])"

subsection \<open>Comparing candidates\<close>

definition candidate_is_better ::
  "adc_pll_config option \<Rightarrow> adc_pll_config \<Rightarrow> bool \<Rightarrow> rat \<Rightarrow> bool run" where
  "candidate_is_better current_best candidate minimize_error error_threshold =
    (if \<not> adc_valid candidate then Inr False
     else if adc_actual_fcco candidate < of_nat adc_min_fcco \<or> of_nat adc_max_fcco < adc_actual_fcco candidate
     then Inr False
     else if \<not> adc_fractional candidate \<and> (adc_m candidate < 1 \<or> 2 ^ 15 < adc_m candidate) then Inr False
     else run_bind (if adc_fractional candidate then adc_fixed_point_m (adc_m candidate) else Inr 1) (\<lambda>fm.
       if adc_fractional candidate \<and> (fm < 1 \<or> 2 ^ 22 \<le> fm) then Inr False
       else if error_threshold < adc_error candidate then Inr False
       else case current_best of
         None \<Rightarrow> Inr True
       | Some best \<Rightarrow>
           if \<not> adc_valid best then Inr True
           else if minimize_error then Inr (adc_error candidate < adc_error best)
           else if adc_fractional best = adc_fractional candidate then Inr (adc_m candidate < adc_m best)
           else if adc_fractional best then Inr (adc_m candidate \<le> rd (adc_m best * 4))
           else Inr (\<not> adc_m best \<le> rd (adc_m candidate * 4))))"

subsection \<open>The search\<close>

definition fractional_candidate :: "double \<Rightarrow> nat \<Rightarrow> nat \<Rightarrow> nat \<Rightarrow> nat \<Rightarrow> adc_pll_config" where
  "fractional_candidate target_frequency s p i desired_fcco =
    (let scaled_m = of_int (c_round (rd (rd (rd (of_nat desired_fcco / adc_reference_frequency) / 2) * 2 ^ 15)));
         test_fcco = rd (rd (rd (2 * scaled_m) / 2 ^ 15) * adc_reference_frequency);
         scaled_m = (if test_fcco < of_nat adc_min_fcco then rd (scaled_m + 1)
                     else if of_nat adc_max_fcco < test_fcco then rd (scaled_m - 1) else scaled_m);
         fractional_m = rd (scaled_m / 2 ^ 15);
         actual_fcco = rd (rd (2 * fractional_m) * adc_reference_frequency);
         actual_frequency = rd (actual_fcco / of_nat s)
     in \<lparr>adc_valid = True, adc_fractional = True, adc_n = 0, adc_m = fractional_m, adc_p = p, adc_i = i,
         adc_error = \<bar>rd (actual_frequency - target_frequency)\<bar>, adc_actual_fcco = actual_fcco,
         adc_actual_frequency = actual_frequency\<rparr>)"

definition integer_candidate ::
  "double \<Rightarrow> nat \<Rightarrow> nat \<Rightarrow> nat \<Rightarrow> nat \<Rightarrow> nat \<Rightarrow> adc_pll_config run" where
  "integer_candidate target_frequency s p i desired_fcco n =
    (let n_reference = rd (adc_reference_frequency / of_nat (adc_effective_n_divisor n))
     in run_bind (to_unsigned (of_int (c_round (rd (rd (of_nat desired_fcco / n_reference) / 2))))) (\<lambda>m :: u32.
       let integer_m = of_nat (unat m);
           actual_fcco = rd (rd (2 * integer_m) * n_reference);
           actual_frequency = rd (actual_fcco / of_nat s)
       in Inr \<lparr>adc_valid = True, adc_fractional = False, adc_n = n, adc_m = integer_m, adc_p = p, adc_i = i,
           adc_error = \<bar>rd (actual_frequency - target_frequency)\<bar>, adc_actual_fcco = actual_fcco,
           adc_actual_frequency = actual_frequency\<rparr>))"

definition consider_candidate :: "bool \<Rightarrow> rat \<Rightarrow> adc_pll_config \<Rightarrow> adc_pll_config \<Rightarrow> adc_pll_config run" where
  "consider_candidate minimize_error error_threshold best candidate =
    run_bind (candidate_is_better (Some best) candidate minimize_error (rs error_threshold)) (\<lambda>better.
      Inr (if better then candidate else best))"

definition clamp_fcco :: "nat \<Rightarrow> nat" where
  "clamp_fcco f = max adc_min_fcco (min f adc_max_fcco)"

text \<open>One value of the outer loop's \<open>s\<close>.\<close>

definition try_divisor ::
  "p_i_table \<Rightarrow> double \<Rightarrow> bool \<Rightarrow> bool \<Rightarrow> rat \<Rightarrow> adc_pll_config \<Rightarrow> nat \<Rightarrow> adc_pll_config run" where
  "try_divisor table target_frequency minimize_error enable_fractional error_threshold best s =
    (if adc_p_i_table_size \<le> s \<or> snd (table s) = UINT32_MAX then Inr best
     else let (p, i) = table s
          in run_bind (to_unsigned (rd (target_frequency * of_nat s))) (\<lambda>f :: u32.
            let desired_fcco = clamp_fcco (unat f)
            in run_bind
                 (if enable_fractional
                  then consider_candidate minimize_error error_threshold best
                         (fractional_candidate target_frequency s p i desired_fcco)
                  else Inr best) (\<lambda>best.
               run_foldl (\<lambda>best n.
                   run_bind (integer_candidate target_frequency s p i desired_fcco n)
                     (consider_candidate minimize_error error_threshold best))
                 best [0..<adc_n_max_divisor + 1])))"

definition no_config :: adc_pll_config where
  "no_config = \<lparr>adc_valid = False, adc_fractional = False, adc_n = 0, adc_m = 0, adc_p = 0, adc_i = 0,
     adc_error = 0, adc_actual_fcco = 0, adc_actual_frequency = 0\<rparr>"

definition no_pll_config :: "double \<Rightarrow> nat \<Rightarrow> adc_pll_config" where
  "no_pll_config target_frequency d =
    (let actual_frequency = rd (adc_reference_frequency / of_nat d)
     in \<lparr>adc_valid = True, adc_fractional = False, adc_n = 0, adc_m = 0, adc_p = 0,
         adc_i = (if d = 1 then 0 else d),
         adc_error = \<bar>rd (actual_frequency - target_frequency)\<bar>, adc_actual_fcco = 0,
         adc_actual_frequency = actual_frequency\<rparr>)"

definition search_pll ::
  "p_i_table \<Rightarrow> double \<Rightarrow> bool \<Rightarrow> bool \<Rightarrow> rat \<Rightarrow> (int \<times> adc_pll_config option) run" where
  "search_pll table target_frequency minimize_error enable_fractional error_threshold =
    run_bind (to_unsigned (of_int \<lceil>rd (of_nat adc_min_fcco / target_frequency)\<rceil>)) (\<lambda>range_min :: u32.
    run_bind (to_unsigned (of_int \<lfloor>rd (of_nat adc_max_fcco / target_frequency)\<rfloor>)) (\<lambda>range_max :: u32.
    run_bind (run_foldl (try_divisor table target_frequency minimize_error enable_fractional error_threshold)
        no_config [unat range_min..<unat range_max]) (\<lambda>best.
      if \<not> adc_valid best then Inr (PG2SDR_ERROR_ADC_RATE_RANGE, None)
      else Inr (PG2SDR_SUCCESS, Some best))))"

definition adc_find_divisors ::
  "p_i_table option \<Rightarrow> double \<Rightarrow> bool \<Rightarrow> bool \<Rightarrow> bool \<Rightarrow> double \<Rightarrow> (int \<times> adc_pll_config option) run" where
  "adc_find_divisors table target_frequency minimize_error enable_fractional enable_no_pll epsilon =
    (if 80000000 < target_frequency then Inr (PG2SDR_ERROR_ADC_RATE_RANGE, None)
     else case table of
       None \<Rightarrow> Inr (PG2SDR_ERROR_NO_MEMORY, None)
     | Some table \<Rightarrow>
         let epsilon = (if epsilon \<le> 0 then rd (1 / 10 ^ 6) else epsilon);
             error_threshold = rd (target_frequency * epsilon);
             search = search_pll table target_frequency minimize_error enable_fractional error_threshold
         in if \<not> enable_no_pll then search
            else run_bind (to_unsigned (of_int (c_round (rd (adc_reference_frequency / target_frequency)))))
              (\<lambda>xtal_divisor :: u32.
               let d = unat xtal_divisor; c = no_pll_config target_frequency d
               in if 1 \<le> d \<and> d \<le> 256 \<and> adc_error c \<le> error_threshold
                  then Inr (PG2SDR_SUCCESS, Some c) else search))"

subsection \<open>The table is what its comment says\<close>

definition p_i_table_ok :: "(nat \<times> nat) list \<Rightarrow> p_i_table \<Rightarrow> bool" where
  "p_i_table_ok L t \<longleftrightarrow> (\<forall>k.
     (t k = (UINT32_MAX, UINT32_MAX) \<and>
       (\<forall>(p, i) \<in> set L. i \<noteq> 1 \<longrightarrow> adc_effective_p_divisor p * adc_effective_i_divisor i \<noteq> k)) \<or>
     (\<exists>p i. t k = (p, i) \<and> (p, i) \<in> set L \<and> i \<noteq> 1 \<and>
       adc_effective_p_divisor p * adc_effective_i_divisor i = k \<and>
       (\<forall>(p', i') \<in> set L. i' \<noteq> 1 \<and> adc_effective_p_divisor p' * adc_effective_i_divisor i' = k \<longrightarrow> i \<le> i')))"

lemma p_i_step_ok:
  assumes t: "p_i_table_ok L t" and p: "p \<le> 32" and i: "i \<le> 256"
  obtains t' where "p_i_step t (p, i) = Inr t'" "p_i_table_ok (L @ [(p, i)]) t'"
proof (cases "i = 1")
  case True
  with t show thesis by (intro that [of t]) (auto simp: p_i_step_def p_i_table_ok_def)
next
  case False
  define k where "k = adc_effective_p_divisor p * adc_effective_i_divisor i"
  have "adc_effective_p_divisor p \<le> 64" "adc_effective_i_divisor i \<le> 256"
    using p i by (simp_all add: adc_effective_p_divisor_def adc_effective_i_divisor_def)
  then have "k \<le> 64 * 256" unfolding k_def by (rule mult_le_mono)
  then have st: "p_i_step t (p, i) = Inr (if i < snd (t k) then t(k := (p, i)) else t)"
    using p i False by (simp add: p_i_step_def adc_consts k_def [symmetric] Let_def)
  have iU: "i < UINT32_MAX" using i by (simp add: UINT32_MAX_def)
  have "p_i_table_ok (L @ [(p, i)]) (if i < snd (t k) then t(k := (p, i)) else t)"
    unfolding p_i_table_ok_def
  proof (intro allI)
    fix j
    note tj = t [unfolded p_i_table_ok_def, rule_format, of j]
    show "((if i < snd (t k) then t(k := (p, i)) else t) j = (UINT32_MAX, UINT32_MAX) \<and>
       (\<forall>(p, i) \<in> set (L @ [(p, i)]). i \<noteq> 1 \<longrightarrow> adc_effective_p_divisor p * adc_effective_i_divisor i \<noteq> j)) \<or>
     (\<exists>p' i'. (if i < snd (t k) then t(k := (p, i)) else t) j = (p', i') \<and> (p', i') \<in> set (L @ [(p, i)]) \<and> i' \<noteq> 1 \<and>
       adc_effective_p_divisor p' * adc_effective_i_divisor i' = j \<and>
       (\<forall>(p'', i'') \<in> set (L @ [(p, i)]). i'' \<noteq> 1 \<and>
          adc_effective_p_divisor p'' * adc_effective_i_divisor i'' = j \<longrightarrow> i' \<le> i''))"
    proof (cases "j = k")
      case True
      with tj iU False show ?thesis by (auto simp: k_def split: prod.splits)
    next
      case False
      with tj show ?thesis by (auto simp: k_def split: prod.splits)
    qed
  qed
  then show thesis using st by (intro that) simp_all
qed

lemma p_i_fold_ok:
  assumes "p_i_table_ok L t" "\<forall>(p, i) \<in> set xs. p \<le> 32 \<and> i \<le> 256"
  shows "\<exists>t'. run_foldl p_i_step t xs = Inr t' \<and> p_i_table_ok (L @ xs) t'"
  using assms
proof (induction xs arbitrary: L t)
  case (Cons x xs)
  obtain p i where x: "x = (p, i)" by (cases x)
  obtain t' where "p_i_step t (p, i) = Inr t'" "p_i_table_ok (L @ [(p, i)]) t'"
    using p_i_step_ok [OF Cons.prems(1), of p i] Cons.prems(2) x by auto
  then show ?case using Cons.IH [of "L @ [(p, i)]" t'] Cons.prems(2) x by simp
qed simp

definition legal_p_i :: "nat \<Rightarrow> nat \<Rightarrow> bool" where
  "legal_p_i p i \<longleftrightarrow> p \<le> 32 \<and> i \<le> 256 \<and> i \<noteq> 1"

lemma make_p_i_table_ok:
  "\<exists>t. adc_make_p_i_table = Inr t \<and> (\<forall>s.
     (t s = (UINT32_MAX, UINT32_MAX) \<and>
       (\<forall>p i. legal_p_i p i \<longrightarrow> adc_effective_p_divisor p * adc_effective_i_divisor i \<noteq> s)) \<or>
     (legal_p_i (fst (t s)) (snd (t s)) \<and>
       adc_effective_p_divisor (fst (t s)) * adc_effective_i_divisor (snd (t s)) = s \<and>
       (\<forall>p i. legal_p_i p i \<and> adc_effective_p_divisor p * adc_effective_i_divisor i = s \<longrightarrow> snd (t s) \<le> i)))"
proof -
  have "p_i_table_ok [] (\<lambda>_. (UINT32_MAX, UINT32_MAX))" by (simp add: p_i_table_ok_def)
  then obtain t where t: "adc_make_p_i_table = Inr t"
    and ok: "p_i_table_ok (List.product [0..<33] [0..<257]) t"
    using p_i_fold_ok [of "[]" "\<lambda>_. (UINT32_MAX, UINT32_MAX)" "List.product [0..<33] [0..<257]"]
    by (auto simp: adc_make_p_i_table_def adc_consts)
  have mem: "legal_p_i p i \<longleftrightarrow> (p, i) \<in> set (List.product [0..<33] [0..<257]) \<and> i \<noteq> 1" for p i
    by (auto simp: legal_p_i_def)
  show ?thesis
    using t ok unfolding p_i_table_ok_def mem by (intro exI [of _ t]) fastforce
qed

subsection \<open>The comparison is an order\<close>

definition adc_acceptable :: "rat \<Rightarrow> adc_pll_config \<Rightarrow> bool" where
  "adc_acceptable thr c \<longleftrightarrow> adc_valid c \<and> of_nat adc_min_fcco \<le> adc_actual_fcco c \<and>
     adc_actual_fcco c \<le> of_nat adc_max_fcco \<and>
     (if adc_fractional c
      then (case adc_fixed_point_m (adc_m c) of Inr fm \<Rightarrow> \<not> fm < 1 \<and> fm < 2 ^ 22 | Inl _ \<Rightarrow> False)
      else 1 \<le> adc_m c \<and> adc_m c \<le> 2 ^ 15) \<and>
     adc_error c \<le> thr"

definition adc_key :: "bool \<Rightarrow> adc_pll_config \<Rightarrow> rat \<times> nat" where
  "adc_key minimize c =
    (if minimize then (adc_error c, 0)
     else if adc_fractional c then (4 * adc_m c, 1) else (adc_m c, 0))"

text \<open>What the search computes of every candidate: its fixed-point M is defined and \<open>4 * m\<close> is exact.\<close>

definition adc_sound :: "adc_pll_config \<Rightarrow> bool" where
  "adc_sound c \<longleftrightarrow> adc_valid c \<and> rd (adc_m c * 4) = 4 * adc_m c \<and>
     (adc_fractional c \<longrightarrow> (\<exists>fm. adc_fixed_point_m (adc_m c) = Inr fm))"

definition better_step :: "bool \<Rightarrow> rat \<Rightarrow> adc_pll_config option \<Rightarrow> adc_pll_config \<Rightarrow> adc_pll_config option" where
  "better_step minimize thr b c =
    (if candidate_is_better b c minimize thr = Inr True then Some c else b)"

lemma candidate_is_better_None:
  "adc_sound c \<Longrightarrow> candidate_is_better None c mn thr = Inr (adc_acceptable thr c)"
  by (auto simp: candidate_is_better_def adc_acceptable_def adc_sound_def not_less not_le)

lemma candidate_is_better_Some:
  "adc_sound c \<Longrightarrow> adc_sound b \<Longrightarrow>
     candidate_is_better (Some b) c mn thr = Inr (adc_acceptable thr c \<and> adc_key mn c < adc_key mn b)"
  by (auto simp: candidate_is_better_def adc_acceptable_def adc_sound_def adc_key_def not_less not_le
      less_prod_def)

lemma candidate_is_better_invalid:
  "adc_sound c \<Longrightarrow> \<not> adc_valid b \<Longrightarrow> candidate_is_better (Some b) c mn thr = Inr (adc_acceptable thr c)"
  by (auto simp: candidate_is_better_def adc_acceptable_def adc_sound_def not_less not_le)

interpretation adc: best_scan adc_sound "better_step mn thr" "adc_acceptable thr" "adc_key mn"
  by unfold_locales (simp_all add: better_step_def candidate_is_better_None candidate_is_better_Some)

subsection \<open>Candidates are sound and never fault\<close>

lemma clamp_fcco_range: "275000000 \<le> clamp_fcco f" "clamp_fcco f \<le> 550000000"
  by (simp_all add: clamp_fcco_def adc_consts)

definition scaled_m_of :: "nat \<Rightarrow> rat" where
  "scaled_m_of d = (let m = of_int (c_round (rd (rd (rd (of_nat d / adc_reference_frequency) / 2) * 2 ^ 15)));
      t = rd (rd (rd (2 * m) / 2 ^ 15) * adc_reference_frequency)
    in if t < of_nat adc_min_fcco then rd (m + 1) else if of_nat adc_max_fcco < t then rd (m - 1) else m)"

lemma scaled_m_range:
  assumes "275000000 \<le> d" "d \<le> 550000000"
  shows "360447 \<le> scaled_m_of d" "scaled_m_of d \<le> 753665"
proof -
  define x where "x = rd (of_nat d / adc_reference_frequency)"
  have d: "(275000000 :: rat) \<le> of_nat d" "of_nat d \<le> (550000000 :: rat)"
    using assms of_nat_mono [of 275000000 d] of_nat_mono [of d 550000000] by simp_all
  have x: "22 \<le> x" "x \<le> 46"
    using rd_ge [of 22 "of_nat d / adc_reference_frequency"] rd_le [of "of_nat d / adc_reference_frequency" 46] d
    by (simp_all add: x_def adc_consts)
  define y where "y = rd (x / 2)"
  have y: "11 \<le> y" "y \<le> 23" using rd_ge [of 11 "x / 2"] rd_le [of "x / 2" 23] x by (simp_all add: y_def)
  define m where "m = c_round (rd (y * 2 ^ 15))"
  have z: "360448 \<le> rd (y * 2 ^ 15)" "rd (y * 2 ^ 15) \<le> 753664"
    using rd_ge [of 360448 "y * 2 ^ 15"] rd_le [of "y * 2 ^ 15" 753664] y by simp_all
  have m: "360448 \<le> m" "m \<le> 753664"
    using c_round_ge [of 360448 "rd (y * 2 ^ 15)"] c_round_le [of "rd (y * 2 ^ 15)" 753664] z
    by (simp_all add: m_def)
  then have m1: "rd (of_int m + 1) = of_int (m + 1)" "rd (of_int m - 1) = of_int (m - 1)"
    using rd_of_int [of "m + 1"] rd_of_int [of "m - 1"] by simp_all
  have "scaled_m_of d \<in> {of_int (m + 1), of_int (m - 1), of_int m}"
    unfolding scaled_m_of_def x_def [symmetric] y_def [symmetric] m_def [symmetric] Let_def m1 by simp
  then consider "scaled_m_of d = of_int (m + 1)" | "scaled_m_of d = of_int (m - 1)" | "scaled_m_of d = of_int m"
    by blast
  then obtain n where "scaled_m_of d = of_int n" "360447 \<le> n" "n \<le> 753665"
    by cases (use m in \<open>force intro: that [of "m + 1"] that [of "m - 1"] that [of m]\<close>)+
  then show "360447 \<le> scaled_m_of d" "scaled_m_of d \<le> 753665"
    using of_int_le_iff [of 360447 n] of_int_le_iff [of n 753665] by simp_all
qed

lemma fractional_candidate_fields:
  "adc_valid (fractional_candidate t s p i d)" "adc_fractional (fractional_candidate t s p i d)"
  "adc_n (fractional_candidate t s p i d) = 0"
  "adc_m (fractional_candidate t s p i d) = rd (scaled_m_of d / 2 ^ 15)"
  "adc_p (fractional_candidate t s p i d) = p" "adc_i (fractional_candidate t s p i d) = i"
  "adc_actual_frequency (fractional_candidate t s p i d) =
     rd (adc_actual_fcco (fractional_candidate t s p i d) / of_nat s)"
  "adc_actual_fcco (fractional_candidate t s p i d) = rd (rd (2 * adc_m (fractional_candidate t s p i d)) * 12000000)"
  "adc_error (fractional_candidate t s p i d) =
     \<bar>rd (adc_actual_frequency (fractional_candidate t s p i d) - t)\<bar>"
  by (simp_all add: fractional_candidate_def scaled_m_of_def Let_def adc_reference_frequency_def)

lemma rd_times_4: "rd (rd x * 4) = 4 * rd x"
  using rd_scale [of "rd x" 2] by simp

lemma fractional_candidate_sound:
  assumes "275000000 \<le> d" "d \<le> 550000000"
  shows "adc_sound (fractional_candidate t s p i d)"
proof -
  define m where "m = rd (scaled_m_of d / 2 ^ 15)"
  have "rd (of_int 360447 / 2 ^ 15) \<le> m" "m \<le> rd (of_int 753665 / 2 ^ 15)"
    using scaled_m_range [OF assms] by (simp_all add: m_def dbl.rnd_mono divide_right_mono)
  moreover have "10 \<le> rd (of_int 360447 / 2 ^ 15)" "rd (of_int 753665 / 2 ^ 15) \<le> 24"
    using rd_ge [of 10 "of_int 360447 / 2 ^ 15"] rd_le [of "of_int 753665 / 2 ^ 15" 24] by simp_all
  ultimately have m: "10 \<le> m" "m \<le> 24" by simp_all
  have "of_int 0 \<le> rd (m * 32768)" "rd (m * 32768) \<le> of_int 786432"
    using rd_ge [of 0 "m * 32768"] rd_le [of "m * 32768" 786432] m by simp_all
  then have "0 \<le> c_round (rd (m * 32768))" "c_round (rd (m * 32768)) \<le> 786432"
    using c_round_ge [of 0] c_round_le [of _ 786432] by blast+
  then have "\<exists>fm. adc_fixed_point_m m = Inr fm"
    by (simp add: adc_fixed_point_m_def to_unsigned_def)
  moreover have "rd (m * 4) = 4 * m" by (simp add: m_def rd_times_4)
  ultimately show ?thesis by (simp add: adc_sound_def fractional_candidate_fields m_def)
qed

lemma n_reference_range:
  assumes "n \<le> 256"
  shows "46875 \<le> rd (12000000 / of_nat (adc_effective_n_divisor n))"
    "rd (12000000 / of_nat (adc_effective_n_divisor n)) \<le> 12000000"
proof -
  have e: "1 \<le> adc_effective_n_divisor n" "adc_effective_n_divisor n \<le> 256"
    using assms by (simp_all add: adc_effective_n_divisor_def)
  then have "(1 :: rat) \<le> of_nat (adc_effective_n_divisor n)" "of_nat (adc_effective_n_divisor n) \<le> (256 :: rat)"
    using of_nat_mono [of 1 "adc_effective_n_divisor n"] of_nat_mono [of "adc_effective_n_divisor n" 256]
    by simp_all
  then have "46875 \<le> (12000000 :: rat) / of_nat (adc_effective_n_divisor n)"
    "(12000000 :: rat) / of_nat (adc_effective_n_divisor n) \<le> 12000000"
    by (simp_all add: field_simps)
  then show "46875 \<le> rd (12000000 / of_nat (adc_effective_n_divisor n))"
    "rd (12000000 / of_nat (adc_effective_n_divisor n)) \<le> 12000000"
    using rd_ge [of 46875 "12000000 / of_nat (adc_effective_n_divisor n)"]
      rd_le [of "12000000 / of_nat (adc_effective_n_divisor n)" 12000000] by simp_all
qed

lemma integer_candidate_sound:
  assumes d: "275000000 \<le> d" "d \<le> 550000000" and n: "n \<le> 256"
  obtains m where "integer_candidate t s p i d n = Inr
    \<lparr>adc_valid = True, adc_fractional = False, adc_n = n, adc_m = of_nat m, adc_p = p, adc_i = i,
     adc_error = \<bar>rd (rd (rd (rd (2 * of_nat m) * rd (12000000 / of_nat (adc_effective_n_divisor n))) / of_nat s) - t)\<bar>,
     adc_actual_fcco = rd (rd (2 * of_nat m) * rd (12000000 / of_nat (adc_effective_n_divisor n))),
     adc_actual_frequency = rd (rd (rd (2 * of_nat m) * rd (12000000 / of_nat (adc_effective_n_divisor n))) / of_nat s)\<rparr>"
    "m < 2 ^ 32"
proof -
  define r where "r = rd (12000000 / of_nat (adc_effective_n_divisor n))"
  have r: "46875 \<le> r" using n_reference_range [OF n] by (simp add: r_def)
  have dq: "0 \<le> (of_nat d :: rat)" "of_nat d \<le> (550000000 :: rat)"
    using d of_nat_mono [of d 550000000] by simp_all
  have "of_nat d / r \<le> 550000000 / 46875" using dq r by (intro frac_le) simp_all
  then have "of_nat d / r \<le> of_int 11734" by (rule order_trans) simp
  then have q: "0 \<le> rd (of_nat d / r)" "rd (of_nat d / r) \<le> 11734"
    using rd_le [of "of_nat d / r" 11734] dq r by (simp_all add: dbl.rnd_nonneg)
  have h: "of_int 0 \<le> rd (rd (of_nat d / r) / 2)" "rd (rd (of_nat d / r) / 2) \<le> of_int 5867"
    using rd_le [of "rd (of_nat d / r) / 2" 5867] q by (simp_all add: dbl.rnd_nonneg)
  define k where "k = c_round (rd (rd (of_nat d / r) / 2))"
  have k: "0 \<le> k" "k \<le> 5867" unfolding k_def by (rule c_round_ge [OF h(1)], rule c_round_le [OF h(2)])
  have conv: "to_unsigned (of_int k) = Inr (of_nat (nat k) :: u32)"
    using k by (simp add: to_unsigned_def)
  have un: "unat (of_nat (nat k) :: u32) = nat k" by (rule unat_of_nat_small) (use k in simp)
  show thesis
  proof (rule that [of "nat k"])
    show "nat k < 2 ^ 32" using k by simp
  qed (unfold integer_candidate_def adc_reference_frequency_def Let_def r_def [symmetric]
      k_def [symmetric] conv run_bind_simps un, rule refl)
qed

lemma integer_candidate_sound':
  assumes "275000000 \<le> d" "d \<le> 550000000" "n \<le> 256"
  shows "\<exists>c. integer_candidate t s p i d n = Inr c \<and> adc_sound c"
proof -
  obtain m where m: "integer_candidate t s p i d n = Inr
    \<lparr>adc_valid = True, adc_fractional = False, adc_n = n, adc_m = of_nat m, adc_p = p, adc_i = i,
     adc_error = \<bar>rd (rd (rd (rd (2 * of_nat m) * rd (12000000 / of_nat (adc_effective_n_divisor n))) / of_nat s) - t)\<bar>,
     adc_actual_fcco = rd (rd (2 * of_nat m) * rd (12000000 / of_nat (adc_effective_n_divisor n))),
     adc_actual_frequency = rd (rd (rd (2 * of_nat m) * rd (12000000 / of_nat (adc_effective_n_divisor n))) / of_nat s)\<rparr>"
    "m < 2 ^ 32" by (rule integer_candidate_sound [OF assms])
  have "rd (of_nat m * 4) = 4 * of_nat m" using rd_of_nat [of "m * 4"] m(2) by simp
  with m(1) show ?thesis by (simp add: adc_sound_def)
qed

subsection \<open>The search is a scan over the candidates\<close>

definition adc_candidates :: "p_i_table \<Rightarrow> double \<Rightarrow> bool \<Rightarrow> nat \<Rightarrow> adc_pll_config list" where
  "adc_candidates table target fr s =
    (if adc_p_i_table_size \<le> s \<or> snd (table s) = UINT32_MAX then []
     else case to_unsigned (rd (target * of_nat s)) of
       Inl _ \<Rightarrow> []
     | Inr (f :: u32) \<Rightarrow>
         let d = clamp_fcco (unat f)
         in (if fr then [fractional_candidate target s (fst (table s)) (snd (table s)) d] else []) @
            concat (map (\<lambda>n. case integer_candidate target s (fst (table s)) (snd (table s)) d n of
                Inl _ \<Rightarrow> [] | Inr c \<Rightarrow> [c]) [0..<adc_n_max_divisor + 1]))"

definition as_option :: "adc_pll_config \<Rightarrow> adc_pll_config option" where
  "as_option b = (if adc_valid b then Some b else None)"

definition best_ok :: "adc_pll_config \<Rightarrow> bool" where
  "best_ok b \<longleftrightarrow> (adc_valid b \<longrightarrow> adc_sound b)"

lemma consider_candidate_scan:
  assumes "best_ok b" "adc_sound c"
  shows "\<exists>b'. consider_candidate mn thr b c = Inr b' \<and> best_ok b' \<and>
    as_option b' = better_step mn (rs thr) (as_option b) c"
proof (cases "adc_valid b")
  case True
  with assms have "adc_sound b" by (simp add: best_ok_def)
  with True assms(2) show ?thesis
    by (auto simp: consider_candidate_def candidate_is_better_Some better_step_def as_option_def best_ok_def adc_sound_def)
next
  case False
  with assms(2) show ?thesis
    by (auto simp: consider_candidate_def candidate_is_better_invalid candidate_is_better_None better_step_def
        as_option_def best_ok_def adc_sound_def)
qed

lemma integer_loop_scan:
  assumes d: "275000000 \<le> d" "d \<le> 550000000" and ns: "\<forall>n \<in> set ns. n \<le> 256" and b: "best_ok b"
  shows "\<exists>b'. run_foldl (\<lambda>best n. run_bind (integer_candidate t s p i d n) (consider_candidate mn thr best)) b ns = Inr b' \<and>
    best_ok b' \<and> as_option b' = adc.scan mn (rs thr) (as_option b)
      (concat (map (\<lambda>n. case integer_candidate t s p i d n of Inl _ \<Rightarrow> [] | Inr c \<Rightarrow> [c]) ns))"
  using ns b
proof (induction ns arbitrary: b)
  case (Cons n ns)
  obtain c where c: "integer_candidate t s p i d n = Inr c" "adc_sound c"
    using integer_candidate_sound' [OF d, of n t s p i] Cons.prems(1) by auto
  obtain b' where b': "consider_candidate mn thr b c = Inr b'" "best_ok b'"
    "as_option b' = better_step mn (rs thr) (as_option b) c"
    using consider_candidate_scan [OF Cons.prems(2) c(2)] by blast
  show ?case using Cons.IH [OF _ b'(2)] Cons.prems(1) c b' by (simp add: adc.scan_append)
qed simp

lemma adc_candidates_sound: "\<forall>c \<in> set (adc_candidates table t fr s). adc_sound c"
proof -
  have i: "adc_sound c" if "integer_candidate t s p i (clamp_fcco f) n = Inr c" "n \<le> 256" for p i f n c
    using integer_candidate_sound' [OF clamp_fcco_range(1) [of f] clamp_fcco_range(2) [of f], of n t s p i] that
    by auto
  show ?thesis
    using fractional_candidate_sound [OF clamp_fcco_range]
    by (auto simp: adc_candidates_def adc_n_max_divisor_def Let_def less_Suc_eq_le
        split: sum.splits if_splits intro: i)
qed

lemma try_divisor_scan:
  assumes "0 \<le> t * of_nat s" "t * of_nat s \<le> 4294967295" "best_ok b"
  shows "\<exists>b'. try_divisor table t mn fr thr b s = Inr b' \<and> best_ok b' \<and>
    as_option b' = adc.scan mn (rs thr) (as_option b) (adc_candidates table t fr s)"
proof (cases "adc_p_i_table_size \<le> s \<or> snd (table s) = UINT32_MAX")
  case True
  with assms(3) show ?thesis by (simp add: try_divisor_def adc_candidates_def)
next
  case False
  obtain p i where pi: "table s = (p, i)" by (cases "table s")
  have "0 \<le> rd (t * of_nat s)" "rd (t * of_nat s) \<le> 4294967295"
    using assms(1,2) rd_le [of "t * of_nat s" 4294967295] by (simp_all add: dbl.rnd_nonneg)
  then obtain f :: u32 where f: "to_unsigned (rd (t * of_nat s)) = Inr f"
    using to_unsigned_Inr [of "rd (t * of_nat s)", where 'a = 32] by (simp add: floor_le_iff floor_less_iff)
  define d where "d = clamp_fcco (unat f)"
  have d: "275000000 \<le> d" "d \<le> 550000000" by (simp_all add: d_def clamp_fcco_range)
  obtain b1 where b1: "(if fr then consider_candidate mn thr b (fractional_candidate t s p i d) else Inr b) = Inr b1"
    "best_ok b1" "as_option b1 = adc.scan mn (rs thr) (as_option b) (if fr then [fractional_candidate t s p i d] else [])"
    using consider_candidate_scan [OF assms(3) fractional_candidate_sound [OF d]] assms(3)
    by (cases fr) fastforce+
  have ns: "\<forall>n \<in> set [0..<adc_n_max_divisor + 1]. n \<le> 256" by (auto simp: adc_n_max_divisor_def)
  obtain b2 where b2: "run_foldl (\<lambda>best n. run_bind (integer_candidate t s p i d n) (consider_candidate mn thr best)) b1
      [0..<adc_n_max_divisor + 1] = Inr b2" "best_ok b2" "as_option b2 = adc.scan mn (rs thr) (as_option b1)
      (concat (map (\<lambda>n. case integer_candidate t s p i d n of Inl _ \<Rightarrow> [] | Inr c \<Rightarrow> [c]) [0..<adc_n_max_divisor + 1]))"
    using integer_loop_scan [OF d ns b1(2)] by blast
  have "try_divisor table t mn fr thr b s = Inr b2"
    unfolding try_divisor_def pi Let_def prod.case f run_bind_simps d_def [symmetric] b1(1) b2(1)
    using False pi by simp
  moreover have "as_option b2 = adc.scan mn (rs thr) (as_option b) (adc_candidates table t fr s)"
    unfolding adc_candidates_def f sum.case Let_def d_def [symmetric] b2(3) b1(3) pi fst_conv snd_conv
    using False pi by (simp add: adc.scan_append del: upt_Suc)
  ultimately show ?thesis using b2(2) by blast
qed

lemma try_divisors_scan:
  assumes "\<forall>s \<in> set ss. 0 \<le> t * of_nat s \<and> t * of_nat s \<le> 4294967295" "best_ok b"
  shows "\<exists>b'. run_foldl (try_divisor table t mn fr thr) b ss = Inr b' \<and> best_ok b' \<and>
    as_option b' = adc.scan mn (rs thr) (as_option b) (concat (map (adc_candidates table t fr) ss))"
  using assms
proof (induction ss arbitrary: b)
  case (Cons s ss)
  obtain b' where b': "try_divisor table t mn fr thr b s = Inr b'" "best_ok b'"
    "as_option b' = adc.scan mn (rs thr) (as_option b) (adc_candidates table t fr s)"
    using try_divisor_scan [of t s b table mn fr thr] Cons.prems by auto
  show ?case using Cons.IH [OF _ b'(2)] Cons.prems(1) b' by (simp add: adc.scan_append)
qed simp

lemma in_adc_candidates:
  assumes "c \<in> set (adc_candidates table t fr s)"
  shows "s < adc_p_i_table_size" "snd (table s) \<noteq> UINT32_MAX" "adc_p c = fst (table s)" "adc_i c = snd (table s)"
    "adc_n c \<le> 256" "adc_fractional c \<Longrightarrow> fr \<and> adc_n c = 0"
    "adc_actual_fcco c = rd (rd (2 * adc_m c) * rd (12000000 / of_nat (adc_effective_n_divisor (adc_n c))))"
    "adc_actual_frequency c = rd (adc_actual_fcco c / of_nat s)"
    "adc_error c = \<bar>rd (adc_actual_frequency c - t)\<bar>"
proof -
  from assms show "s < adc_p_i_table_size" "snd (table s) \<noteq> UINT32_MAX"
    by (auto simp: adc_candidates_def split: if_splits)
  with assms obtain f :: u32 where
    c: "(fr \<and> c = fractional_candidate t s (fst (table s)) (snd (table s)) (clamp_fcco (unat f))) \<or>
      (\<exists>n < 257. integer_candidate t s (fst (table s)) (snd (table s)) (clamp_fcco (unat f)) n = Inr c)"
    by (fastforce simp: adc_candidates_def adc_n_max_divisor_def Let_def split: sum.splits if_splits)
  define d where "d = clamp_fcco (unat f)"
  have d: "275000000 \<le> d" "d \<le> 550000000" by (simp_all add: d_def clamp_fcco_range)
  have le: "n < 257 \<Longrightarrow> n \<le> 256" for n :: nat by simp
  from c consider (f) "fr" "c = fractional_candidate t s (fst (table s)) (snd (table s)) d"
    | (g) n where "n \<le> 256" "integer_candidate t s (fst (table s)) (snd (table s)) d n = Inr c"
    unfolding d_def [symmetric] using le by blast
  then have "adc_p c = fst (table s) \<and> adc_i c = snd (table s) \<and> adc_n c \<le> 256 \<and>
    (adc_fractional c \<longrightarrow> fr \<and> adc_n c = 0) \<and>
    adc_actual_fcco c = rd (rd (2 * adc_m c) * rd (12000000 / of_nat (adc_effective_n_divisor (adc_n c)))) \<and>
    adc_actual_frequency c = rd (adc_actual_fcco c / of_nat s) \<and>
    adc_error c = \<bar>rd (adc_actual_frequency c - t)\<bar>"
  proof cases
    case f
    have "rd (12000000 / of_nat (adc_effective_n_divisor 0)) = 12000000"
      by (simp add: adc_effective_n_divisor_def)
    with f show ?thesis by (simp add: fractional_candidate_fields)
  next
    case g
    show ?thesis
      by (rule integer_candidate_sound [OF d g(1), of t s "fst (table s)" "snd (table s)"]) (use g in simp)
  qed
  then show "adc_p c = fst (table s)" "adc_i c = snd (table s)"
    "adc_n c \<le> 256" "adc_fractional c \<Longrightarrow> fr \<and> adc_n c = 0"
    "adc_actual_fcco c = rd (rd (2 * adc_m c) * rd (12000000 / of_nat (adc_effective_n_divisor (adc_n c))))"
    "adc_actual_frequency c = rd (adc_actual_fcco c / of_nat s)"
    "adc_error c = \<bar>rd (adc_actual_frequency c - t)\<bar>" by blast+
qed

definition adc_range :: "double \<Rightarrow> nat list" where
  "adc_range t = [nat \<lceil>rd (of_nat adc_min_fcco / t)\<rceil>..<nat \<lfloor>rd (of_nat adc_max_fcco / t)\<rfloor>]"

definition all_adc_candidates :: "p_i_table \<Rightarrow> double \<Rightarrow> bool \<Rightarrow> adc_pll_config list" where
  "all_adc_candidates table t fr = concat (map (adc_candidates table t fr) (adc_range t))"

lemma all_adc_candidates_sound: "\<forall>c \<in> set (all_adc_candidates table t fr). adc_sound c"
  using adc_candidates_sound by (auto simp: all_adc_candidates_def)

lemma adc_range_products:
  assumes t: "1 \<le> t" and s: "s \<in> set (adc_range t)"
  shows "0 \<le> t * of_nat s \<and> t * of_nat s \<le> 4294967295"
proof -
  have x: "0 \<le> 550000000 / t" using t by simp
  have "int s < \<lfloor>rd (550000000 / t)\<rfloor>" using s
    by (simp add: adc_range_def adc_consts zless_nat_eq_int_zless)
  then have "of_nat s \<le> rd (550000000 / t)" by (metis le_floor_iff less_imp_le of_int_of_nat_eq)
  also have "... \<le> (1 + eps_d) * (550000000 / t)" by (rule dbl.rnd_upper [OF x])
  also have "... \<le> 2 * (550000000 / t)" using x by (intro mult_right_mono) (simp_all add: eps_d_def)
  finally have "t * of_nat s \<le> t * (2 * (550000000 / t))" using t by (intro mult_left_mono) simp_all
  also have "... \<le> 4294967295" using t by simp
  finally show ?thesis using t by simp
qed

lemma search_pll_scan:
  assumes t: "1 \<le> t"
  shows "search_pll table t mn fr thr = Inr
    (case adc.scan mn (rs thr) None (all_adc_candidates table t fr) of
       None \<Rightarrow> (PG2SDR_ERROR_ADC_RATE_RANGE, None) | Some c \<Rightarrow> (PG2SDR_SUCCESS, Some c))"
proof -
  have c1: "0 \<le> rd (275000000 / t)" "rd (275000000 / t) \<le> 275000000"
    using t rd_le [of "275000000 / t" 275000000] by (simp_all add: dbl.rnd_nonneg field_simps)
  have c2: "0 \<le> rd (550000000 / t)" "rd (550000000 / t) \<le> 550000000"
    using t rd_le [of "550000000 / t" 550000000] by (simp_all add: dbl.rnd_nonneg field_simps)
  define lo where "lo = nat \<lceil>rd (275000000 / t)\<rceil>"
  define hi where "hi = nat \<lfloor>rd (550000000 / t)\<rfloor>"
  have b: "\<lceil>rd (275000000 / t)\<rceil> = int lo" "lo \<le> 275000000" "\<lfloor>rd (550000000 / t)\<rfloor> = int hi" "hi \<le> 550000000"
    using c1 c2 by (simp_all add: lo_def hi_def ceiling_le_iff floor_le_iff nat_le_iff le_ceiling_iff)
  have conv: "to_unsigned (of_int \<lceil>rd (275000000 / t)\<rceil>) = Inr (of_nat lo :: u32)"
    "to_unsigned (of_int \<lfloor>rd (550000000 / t)\<rfloor>) = Inr (of_nat hi :: u32)"
    using b by (simp_all add: to_unsigned_def)
  have un: "unat (of_nat lo :: u32) = lo" "unat (of_nat hi :: u32) = hi"
    using b by (simp_all add: unat_of_nat_small del: unat_of_nat)
  have rg: "adc_range t = [lo..<hi]" by (simp add: adc_range_def adc_consts lo_def hi_def)
  obtain b' where b': "run_foldl (try_divisor table t mn fr thr) no_config [lo..<hi] = Inr b'"
    "best_ok b'" "as_option b' = adc.scan mn (rs thr) None (all_adc_candidates table t fr)"
    using try_divisors_scan [of "[lo..<hi]" t no_config table mn fr thr] adc_range_products [OF t]
    by (auto simp: rg all_adc_candidates_def best_ok_def as_option_def no_config_def)
  have e: "(of_nat adc_min_fcco :: rat) = 275000000" "(of_nat adc_max_fcco :: rat) = 550000000"
    by (simp_all add: adc_consts)
  show ?thesis
    unfolding search_pll_def e conv run_bind_simps un b'(1) b'(3) [symmetric]
    by (simp add: as_option_def)
qed

subsection \<open>Properties\<close>

text \<open>Note: the table of P and I is built without an assertion failure or an access
  outside its 16385 entries, and each entry is what its use needs: for a product that some legal
  pair (P at most 32; I at most 256 and not 1) reaches it holds such a pair with the smallest I,
  and for every other product it holds the UINT32_MAX sentinel.\<close>

theorem adc_p_i_table_minimal:
  "\<exists>table. adc_make_p_i_table = Inr table \<and> (\<forall>s.
     (table s = (UINT32_MAX, UINT32_MAX) \<and>
       (\<forall>p i. legal_p_i p i \<longrightarrow> adc_effective_p_divisor p * adc_effective_i_divisor i \<noteq> s)) \<or>
     (legal_p_i (fst (table s)) (snd (table s)) \<and>
       adc_effective_p_divisor (fst (table s)) * adc_effective_i_divisor (snd (table s)) = s \<and>
       (\<forall>p i. legal_p_i p i \<and> adc_effective_p_divisor p * adc_effective_i_divisor i = s \<longrightarrow> snd (table s) \<le> i)))"
  by (rule make_p_i_table_ok)

theorem adc_p_i_table_minimal_witness:
  "\<exists>table. adc_make_p_i_table = Inr table \<and> table 3 = (0, 3) \<and> table 257 = (UINT32_MAX, UINT32_MAX)"
proof -
  obtain table where t: "adc_make_p_i_table = Inr table" and tab: "\<forall>s.
     (table s = (UINT32_MAX, UINT32_MAX) \<and>
       (\<forall>p i. legal_p_i p i \<longrightarrow> adc_effective_p_divisor p * adc_effective_i_divisor i \<noteq> s)) \<or>
     (legal_p_i (fst (table s)) (snd (table s)) \<and>
       adc_effective_p_divisor (fst (table s)) * adc_effective_i_divisor (snd (table s)) = s \<and>
       (\<forall>p i. legal_p_i p i \<and> adc_effective_p_divisor p * adc_effective_i_divisor i = s \<longrightarrow> snd (table s) \<le> i))"
    using adc_p_i_table_minimal by blast
  have l: "legal_p_i 0 3" "adc_effective_p_divisor 0 * adc_effective_i_divisor 3 = 3"
    by (simp_all add: legal_p_i_def adc_effective_p_divisor_def adc_effective_i_divisor_def)
  have odd_p: "p = 0 \<and> adc_effective_i_divisor i = n"
    if "adc_effective_p_divisor p * adc_effective_i_divisor i = n" "odd n" for p i n
  proof -
    have "odd (adc_effective_p_divisor p)" using that by (metis even_mult_iff)
    then have "p = 0" by (cases "p = 0") (simp_all add: adc_effective_p_divisor_def)
    with that show ?thesis by (simp add: adc_effective_p_divisor_def)
  qed
  have "adc_effective_p_divisor (fst (table 3)) * adc_effective_i_divisor (snd (table 3)) = 3"
    using tab [rule_format, of 3] l by blast
  then have "fst (table 3) = 0 \<and> adc_effective_i_divisor (snd (table 3)) = 3" by (rule odd_p) simp
  then have "table 3 = (0, 3)"
    by (cases "table 3") (simp add: adc_effective_i_divisor_def split: if_splits)
  moreover have "\<not> (legal_p_i p i \<and> adc_effective_p_divisor p * adc_effective_i_divisor i = 257)" for p i
    using odd_p [of p i 257] by (auto simp: adc_effective_i_divisor_def legal_p_i_def split: if_splits)
  then have "table 257 = (UINT32_MAX, UINT32_MAX)" using tab [rule_format, of 257] by blast
  ultimately show ?thesis using t by blast
qed

text \<open>Note: every configuration that \<open>adc_find_divisors\<close> returns is one the
  hardware accepts and the arithmetic the firmware will reproduce. Bypassing the PLL, I is 0 or 2 to 256 and the
  frequency is the reference divided by it. With the PLL, P and I are legal divisors, N is at most
  256 (0 with a fractional M), the oscillator is between 275 and 550 MHz and equals 2 M times the
  divided reference, and the ADC frequency is the oscillator divided by the effective P and I. The
  error is the distance to the target and does not exceed the threshold rounded to \<open>float\<close>, the
  type of the comparison's parameter (or the exact threshold, without the PLL).\<close>

theorem adc_divisors_legal:
  assumes table: "adc_make_p_i_table = Inr table" and t: "1 \<le> target"
    and run: "adc_find_divisors (Some table) target minimize fr no_pll epsilon = Inr (PG2SDR_SUCCESS, Some c)"
    and thr: "thr = rd (target * (if epsilon \<le> 0 then rd (1 / 10 ^ 6) else epsilon))"
  shows "adc_valid c \<and> target \<le> 80000000 \<and> adc_error c = \<bar>rd (adc_actual_frequency c - target)\<bar> \<and>
    (no_pll \<and> adc_error c \<le> thr \<and> adc_n c = 0 \<and> adc_m c = 0 \<and> adc_p c = 0 \<and>
       (adc_i c = 0 \<or> 2 \<le> adc_i c \<and> adc_i c \<le> 256) \<and>
       adc_actual_frequency c = rd (12000000 / of_nat (adc_effective_i_divisor (adc_i c)))
     \<or> adc_error c \<le> rs thr \<and> legal_p_i (adc_p c) (adc_i c) \<and> adc_n c \<le> 256 \<and>
       275000000 \<le> adc_actual_fcco c \<and> adc_actual_fcco c \<le> 550000000 \<and>
       (adc_fractional c \<longrightarrow> fr \<and> adc_n c = 0) \<and>
       (\<not> adc_fractional c \<longrightarrow> 1 \<le> adc_m c \<and> adc_m c \<le> 32768) \<and>
       adc_actual_fcco c = rd (rd (2 * adc_m c) * rd (12000000 / of_nat (adc_effective_n_divisor (adc_n c)))) \<and>
       adc_actual_frequency c =
         rd (adc_actual_fcco c / of_nat (adc_effective_p_divisor (adc_p c) * adc_effective_i_divisor (adc_i c))))"
proof -
  have hi: "target \<le> 80000000" using run by (auto simp: adc_find_divisors_def not_less split: if_splits)
  consider (direct) d where "no_pll" "1 \<le> d" "d \<le> 256" "c = no_pll_config target d" "adc_error c \<le> thr"
    | (pll) "search_pll table target minimize fr thr = Inr (PG2SDR_SUCCESS, Some c)"
    using run hi by (auto simp: adc_find_divisors_def thr Let_def run_bind_Inr_iff split: if_splits)
  then show ?thesis
  proof cases
    case direct
    then show ?thesis using hi by (auto simp: no_pll_config_def Let_def adc_effective_i_divisor_def adc_reference_frequency_def)
  next
    case pll
    then have "adc.scan minimize (rs thr) None (all_adc_candidates table target fr) = Some c"
      using search_pll_scan [OF t, of table minimize fr thr] by (auto split: option.splits)
    then have c: "adc_acceptable (rs thr) c" "c \<in> set (all_adc_candidates table target fr)"
      using adc.scan_best [OF all_adc_candidates_sound] by blast+
    then obtain s where s: "c \<in> set (adc_candidates table target fr s)" by (auto simp: all_adc_candidates_def)
    note cand = in_adc_candidates [OF s]
    obtain table' where t': "adc_make_p_i_table = Inr table'" and tab: "\<forall>s.
     (table' s = (UINT32_MAX, UINT32_MAX) \<and>
       (\<forall>p i. legal_p_i p i \<longrightarrow> adc_effective_p_divisor p * adc_effective_i_divisor i \<noteq> s)) \<or>
     (legal_p_i (fst (table' s)) (snd (table' s)) \<and>
       adc_effective_p_divisor (fst (table' s)) * adc_effective_i_divisor (snd (table' s)) = s \<and>
       (\<forall>p i. legal_p_i p i \<and> adc_effective_p_divisor p * adc_effective_i_divisor i = s \<longrightarrow> snd (table' s) \<le> i))"
      using make_p_i_table_ok by blast
    have "table' = table" using trans [OF t' [symmetric] table] by (rule Inr_inject)
    with tab [rule_format, of s] cand(2) have
      leg: "legal_p_i (fst (table s)) (snd (table s))"
        "adc_effective_p_divisor (fst (table s)) * adc_effective_i_divisor (snd (table s)) = s" by auto
    have e: "(of_nat adc_min_fcco :: rat) = 275000000" "(of_nat adc_max_fcco :: rat) = 550000000"
      by (simp_all add: adc_consts)
    note acc = c(1) [unfolded adc_acceptable_def e]
    show ?thesis
      using acc cand(3-9) leg hi by (auto simp del: of_nat_mult)
  qed
qed

theorem adc_divisors_legal_witness:
  "\<exists>table c. adc_make_p_i_table = Inr table \<and>
     adc_find_divisors (Some table) 6000000 False True True 0 = Inr (PG2SDR_SUCCESS, Some c) \<and>
     adc_i c = 2 \<and> adc_actual_frequency c = rd (12000000 / of_nat (adc_effective_i_divisor (adc_i c)))"
proof -
  obtain table where table: "adc_make_p_i_table = Inr table" using make_p_i_table_ok by blast
  have conv: "to_unsigned (of_int (c_round (rd (adc_reference_frequency / 6000000)))) = (Inr 2 :: u32 run)"
    using c_round_of_int [of 2] by (simp add: adc_reference_frequency_def to_unsigned_def)
  have run: "adc_find_divisors (Some table) 6000000 False True True 0 = Inr (PG2SDR_SUCCESS, Some (no_pll_config 6000000 2))"
    unfolding adc_find_divisors_def conv
    by (simp add: no_pll_config_def Let_def adc_reference_frequency_def dbl.rnd_nonneg)
  have "adc_i (no_pll_config 6000000 2) = 2" by (simp add: no_pll_config_def Let_def)
  then show ?thesis
    using adc_divisors_legal [OF table _ run refl] table run
    by (intro exI [of _ table] exI [of _ "no_pll_config 6000000 2"]) (auto simp: no_pll_config_def Let_def adc_effective_i_divisor_def adc_reference_frequency_def)
qed

end
