(* ===== verification/Config.thy ===== *)
theory Config
  imports Bandpass AdcPll
begin

section \<open>Device configuration (src/config.c)\<close>

text \<open>
  The setters record what the user asks for and mark what has to be recomputed
  (\<open>changing_rate\<close>, \<open>changing_freq\<close>, \<open>changing_bandpass\<close>); \<open>apply_changes\<close> then computes the ADC
  clock, the transfer sizes, the local oscillator and the bandpass filter and programs the tuner.
  An enumeration argument is an option, \<open>None\<close> standing for a value outside the enumeration; a
  result is given if its pointer argument is (a Boolean). \<open>tab\<close> is the table of ADC divisors,
  allocated at its first use (\<open>None\<close>: no memory). \<open>size_t\<close> has 64 bits.
\<close>

subsection \<open>Setters and getters\<close>

definition set_conversion_mode :: "'u device option \<Rightarrow> conversion_mode option \<Rightarrow> ('u device option \<times> int) run" where
  "set_conversion_mode dev mode = with_dev dev (\<lambda>d. Inr (
    if mode \<noteq> Some (conv_mode d)
    then if streaming d then (d, PG2SDR_ERROR_BAD_STATE)
         else case mode of
           None \<Rightarrow> (d, PG2SDR_ERROR_BAD_ARGUMENT)
         | Some m \<Rightarrow> (d\<lparr>conv_mode := m, changing_rate := True, changing_freq := True, changing_bandpass := True\<rparr>,
             PG2SDR_SUCCESS)
    else (d, PG2SDR_SUCCESS))) id"

definition get_conversion_mode :: "'u device option \<Rightarrow> bool \<Rightarrow> int \<times> conversion_mode option" where
  "get_conversion_mode dev mode =
    (if CHECK_DEV dev < 0 then (CHECK_DEV dev, None)
     else if \<not> mode then (PG2SDR_ERROR_BAD_ARGUMENT, None)
     else (PG2SDR_SUCCESS, Some (conv_mode (the dev))))"

definition set_buffer_size :: "'u device option \<Rightarrow> u64 \<Rightarrow> ('u device option \<times> int) run" where
  "set_buffer_size dev sz = with_dev dev (\<lambda>d. Inr (
    if sz < 1 then (d, PG2SDR_ERROR_BAD_ARGUMENT)
    else if buffer_size d \<noteq> sz
    then if streaming d then (d, PG2SDR_ERROR_BAD_STATE)
         else (d\<lparr>buffer_size := sz, changing_rate := True\<rparr>, PG2SDR_SUCCESS)
    else (d, PG2SDR_SUCCESS))) id"

definition get_buffer_size :: "'u device option \<Rightarrow> bool \<Rightarrow> int \<times> u64 option" where
  "get_buffer_size dev out =
    (if CHECK_DEV dev < 0 then (CHECK_DEV dev, None)
     else if \<not> out then (PG2SDR_ERROR_BAD_ARGUMENT, None)
     else (PG2SDR_SUCCESS, Some (buffer_size (the dev))))"

definition set_sample_rate :: "'u device option \<Rightarrow> double \<Rightarrow> ('u device option \<times> int) run" where
  "set_sample_rate dev rate = with_dev dev (\<lambda>d. Inr (
    if rate \<le> 1000 \<or> 100000000 < rate then (d, PG2SDR_ERROR_BAD_ARGUMENT)
    else if rate \<noteq> requested_sample_rate d
    then (d\<lparr>requested_sample_rate := rate, changing_rate := True\<rparr>, PG2SDR_SUCCESS)
    else (d, PG2SDR_SUCCESS))) id"

definition set_decimation_mode :: "'u device option \<Rightarrow> int \<Rightarrow> ('u device option \<times> int) run" where
  "set_decimation_mode dev mode = with_dev dev (\<lambda>d. Inr (
    if mode < 0 \<and> mode \<noteq> -1 then (d, PG2SDR_ERROR_BAD_ARGUMENT)
    else if decimation_mode d \<noteq> mode
    then (d\<lparr>decimation_mode := mode, changing_rate := True\<rparr>, PG2SDR_SUCCESS)
    else (d, PG2SDR_SUCCESS))) id"

definition get_decimation_mode :: "'u device option \<Rightarrow> bool \<Rightarrow> bool \<Rightarrow> int \<times> int option \<times> nat option" where
  "get_decimation_mode dev mode actual =
    (if CHECK_DEV dev < 0 then (CHECK_DEV dev, None, None)
     else if \<not> mode \<and> \<not> actual then (PG2SDR_ERROR_BAD_ARGUMENT, None, None)
     else let d = the dev in
       (PG2SDR_SUCCESS, if mode then Some (decimation_mode d) else None,
        if actual then Some (if changing_rate d then 0 else post_decimation d) else None))"

definition set_undersampling_mode :: "'u device option \<Rightarrow> u32 \<Rightarrow> ('u device option \<times> int) run" where
  "set_undersampling_mode dev mode = with_dev dev (\<lambda>d. Inr (
    if mode < 1 then (d, PG2SDR_ERROR_BAD_ARGUMENT)
    else if undersampling_mode d \<noteq> mode
    then (d\<lparr>undersampling_mode := mode, changing_rate := True\<rparr>, PG2SDR_SUCCESS)
    else (d, PG2SDR_SUCCESS))) id"

definition get_undersampling_mode :: "'u device option \<Rightarrow> bool \<Rightarrow> int \<times> u32 option" where
  "get_undersampling_mode dev out =
    (if CHECK_DEV dev < 0 then (CHECK_DEV dev, None)
     else if \<not> out then (PG2SDR_ERROR_BAD_ARGUMENT, None)
     else (PG2SDR_SUCCESS, Some (undersampling_mode (the dev))))"

definition set_adc_limit :: "'u device option \<Rightarrow> double \<Rightarrow> ('u device option \<times> int) run" where
  "set_adc_limit dev limit = with_dev dev (\<lambda>d. Inr (
    if limit \<le> 0 \<or> 80000000 < limit then (d, PG2SDR_ERROR_BAD_ARGUMENT)
    else if adc_limit d \<noteq> limit
    then (d\<lparr>adc_limit := limit, changing_rate := True\<rparr>, PG2SDR_SUCCESS)
    else (d, PG2SDR_SUCCESS))) id"

definition get_adc_limit :: "'u device option \<Rightarrow> bool \<Rightarrow> int \<times> double option" where
  "get_adc_limit dev out =
    (if CHECK_DEV dev < 0 then (CHECK_DEV dev, None)
     else if \<not> out then (PG2SDR_ERROR_BAD_ARGUMENT, None)
     else (PG2SDR_SUCCESS, Some (adc_limit (the dev))))"

definition get_adc_rate :: "'u device option \<Rightarrow> bool \<Rightarrow> int \<times> double option" where
  "get_adc_rate dev out =
    (if CHECK_DEV dev < 0 then (CHECK_DEV dev, None)
     else if \<not> out then (PG2SDR_ERROR_BAD_ARGUMENT, None)
     else (PG2SDR_SUCCESS,
       Some (if changing_rate (the dev) then 0 else adc_actual_frequency (adc_config (the dev)))))"

definition set_sideband :: "'u device option \<Rightarrow> sideband_mode option \<Rightarrow> ('u device option \<times> int) run" where
  "set_sideband dev mode = with_dev dev (\<lambda>d. Inr (
    case mode of
      None \<Rightarrow> (d, PG2SDR_ERROR_BAD_ARGUMENT)
    | Some m \<Rightarrow>
        if m \<noteq> sideband d
        then (d\<lparr>sideband := m, changing_freq := True, changing_bandpass := True\<rparr>, PG2SDR_SUCCESS)
        else (d, PG2SDR_SUCCESS))) id"

definition get_sideband :: "'u device option \<Rightarrow> bool \<Rightarrow> int \<times> sideband_mode option" where
  "get_sideband dev out =
    (if CHECK_DEV dev < 0 then (CHECK_DEV dev, None)
     else if \<not> out then (PG2SDR_ERROR_BAD_ARGUMENT, None)
     else (PG2SDR_SUCCESS, Some (sideband (the dev))))"

definition set_frequency :: "'u device option \<Rightarrow> double \<Rightarrow> ('u device option \<times> int) run" where
  "set_frequency dev freq = with_dev dev (\<lambda>d. Inr (
    if freq \<noteq> requested_frequency d
    then (d\<lparr>requested_frequency := freq, changing_freq := True\<rparr>, PG2SDR_SUCCESS)
    else (d, PG2SDR_SUCCESS))) id"

definition set_bandpass :: "'u device option \<Rightarrow> double \<Rightarrow> double \<Rightarrow> ('u device option \<times> int) run" where
  "set_bandpass dev low high = with_dev dev (\<lambda>d. Inr (
    let (low, high) = (if high < low then (high, low) else (low, high))
    in if low \<noteq> requested_bandpass_low d \<or> high \<noteq> requested_bandpass_high d
       then (d\<lparr>requested_bandpass_low := low, requested_bandpass_high := high, changing_bandpass := True\<rparr>, PG2SDR_SUCCESS)
       else (d, PG2SDR_SUCCESS))) id"

subsection \<open>What is configured\<close>

definition actual_sample_rate :: "'u device \<Rightarrow> double" where
  "actual_sample_rate d =
    (if \<not> adc_valid (adc_config d) \<or> changing_rate d \<or> adc_samples_per_user_sample d = 0 then 0
     else rd (adc_actual_frequency (adc_config d) / of_nat (unat (adc_samples_per_user_sample d))))"

definition undersampling_offset :: "'u device \<Rightarrow> double" where
  "undersampling_offset d =
    rd (rd (of_nat (unat (undersampling_mode d - 1)) * adc_actual_frequency (adc_config d)) / 2)"

text \<open>LO frequency = center frequency + \<open>lo_offset\<close>.\<close>

definition lo_offset :: "'u device \<Rightarrow> double" where
  "lo_offset d =
    (let sign = (if sideband d = SIDEBAND_UPPER then - 1 else 1)
     in case conv_mode d of
          MODE_LOWIF_REAL \<Rightarrow> rd (undersampling_offset d * sign)
        | MODE_BASEBAND \<Rightarrow>
            rd (rd (rd (adc_actual_frequency (adc_config d) / 4) + undersampling_offset d) * sign))"

definition center_if_frequency :: "'u device \<Rightarrow> double" where
  "center_if_frequency d = (case conv_mode d of MODE_LOWIF_REAL \<Rightarrow> 0 | MODE_BASEBAND \<Rightarrow> \<bar>lo_offset d\<bar>)"

definition actual_frequency :: "'u device \<Rightarrow> double" where
  "actual_frequency d =
    (if \<not> pll_valid (tuner_config d) \<or> \<not> adc_valid (adc_config d) \<or> changing_rate d \<or> changing_freq d then 0
     else rd (pll_actual_frequency (tuner_config d) - lo_offset d))"

definition actual_bandpass_low :: "'u device \<Rightarrow> double" where
  "actual_bandpass_low d =
    (case current_bandpass_entry d of
       None \<Rightarrow> 0
     | Some k \<Rightarrow>
         if \<not> adc_valid (adc_config d) \<or> changing_rate d \<or> changing_bandpass d then 0
         else case sideband d of
           SIDEBAND_UPPER \<Rightarrow> rd (lower_corner (bandpass_table d ! k) - center_if_frequency d)
         | SIDEBAND_LOWER \<Rightarrow> rd (center_if_frequency d - upper_corner (bandpass_table d ! k)))"

definition actual_bandpass_high :: "'u device \<Rightarrow> double" where
  "actual_bandpass_high d =
    (case current_bandpass_entry d of
       None \<Rightarrow> 0
     | Some k \<Rightarrow>
         if \<not> adc_valid (adc_config d) \<or> changing_rate d \<or> changing_bandpass d then 0
         else case sideband d of
           SIDEBAND_UPPER \<Rightarrow> rd (upper_corner (bandpass_table d ! k) - center_if_frequency d)
         | SIDEBAND_LOWER \<Rightarrow> rd (center_if_frequency d - lower_corner (bandpass_table d ! k)))"

definition get_sample_rate :: "'u device option \<Rightarrow> bool \<Rightarrow> bool \<Rightarrow> int \<times> double option \<times> double option" where
  "get_sample_rate dev requested actual =
    (if CHECK_DEV dev < 0 then (CHECK_DEV dev, None, None)
     else if \<not> requested \<and> \<not> actual then (PG2SDR_ERROR_BAD_ARGUMENT, None, None)
     else (PG2SDR_SUCCESS, if requested then Some (requested_sample_rate (the dev)) else None,
       if actual then Some (actual_sample_rate (the dev)) else None))"

definition get_frequency :: "'u device option \<Rightarrow> bool \<Rightarrow> bool \<Rightarrow> int \<times> double option \<times> double option" where
  "get_frequency dev requested actual =
    (if CHECK_DEV dev < 0 then (CHECK_DEV dev, None, None)
     else if \<not> requested \<and> \<not> actual then (PG2SDR_ERROR_BAD_ARGUMENT, None, None)
     else (PG2SDR_SUCCESS, if requested then Some (requested_frequency (the dev)) else None,
       if actual then Some (actual_frequency (the dev)) else None))"

definition get_bandpass ::
  "'u device option \<Rightarrow> bool \<Rightarrow> bool \<Rightarrow> bool \<Rightarrow> bool \<Rightarrow>
   int \<times> double option \<times> double option \<times> double option \<times> double option" where
  "get_bandpass dev low high alow ahigh =
    (if CHECK_DEV dev < 0 then (CHECK_DEV dev, None, None, None, None)
     else if \<not> low \<and> \<not> high \<and> \<not> alow \<and> \<not> ahigh then (PG2SDR_ERROR_BAD_ARGUMENT, None, None, None, None)
     else (PG2SDR_SUCCESS, if low then Some (requested_bandpass_low (the dev)) else None,
       if high then Some (requested_bandpass_high (the dev)) else None,
       if alow then Some (actual_bandpass_low (the dev)) else None,
       if ahigh then Some (actual_bandpass_high (the dev)) else None))"

subsection \<open>Comparing settings\<close>

definition tuner_pll_config_equal :: "tuner_pll_config \<Rightarrow> tuner_pll_config \<Rightarrow> bool" where
  "tuner_pll_config_equal l r \<longleftrightarrow>
    pll_valid l \<and> pll_valid r \<and> pll_refdiv l = pll_refdiv r \<and> pll_seldiv l = pll_seldiv r \<and>
    pll_feedback_n l = pll_feedback_n r \<and> pll_feedback_sdm l = pll_feedback_sdm r"

definition tuner_bandpass_equal :: "bandpass_entry \<Rightarrow> bandpass_entry \<Rightarrow> bool" where
  "tuner_bandpass_equal l r \<longleftrightarrow>
    hpf_corner l = hpf_corner r \<and> lpf_narrow l = lpf_narrow r \<and> lpf_coarse l = lpf_coarse r \<and>
    lpf_fine l = lpf_fine r \<and> lpf_q l = lpf_q r"

subsection \<open>Applying a rate change\<close>

definition DECIMATION_MAX :: nat where "DECIMATION_MAX = 8"
definition MAX_USB_TRANSFER :: u32 where "MAX_USB_TRANSFER = 2 * 1024 * 1024"

text \<open>The loop of an explicit decimation setting, and that of the automatic one.\<close>

fun limit_decimation :: "double \<Rightarrow> double \<Rightarrow> nat \<Rightarrow> nat" where
  "limit_decimation rate limit pd =
    (if 0 < pd \<and> limit < rd (rate * of_nat (2 * 2 ^ pd)) then limit_decimation rate limit (pd - 1) else pd)"

function auto_decimation :: "double \<Rightarrow> double \<Rightarrow> double \<Rightarrow> nat \<Rightarrow> nat" where
  "auto_decimation rate limit scaled pd =
    (if rd (scaled * 4) \<le> limit \<and> pd < DECIMATION_MAX \<and> rd (scaled - rate) < 500000
     then auto_decimation rate limit (rd (scaled * 2)) (Suc pd) else pd)"
  by pat_completeness auto
termination by (relation "measure (\<lambda>(_, _, _, pd). DECIMATION_MAX - pd)") auto

declare limit_decimation.simps [simp del] auto_decimation.simps [simp del]

definition choose_decimation :: "'u device \<Rightarrow> (nat \<times> nat) option" where
  "choose_decimation d =
    (case conv_mode d of
       MODE_LOWIF_REAL \<Rightarrow> Some (1, 0)
     | MODE_BASEBAND \<Rightarrow>
         if 0 \<le> decimation_mode d
         then let pd = limit_decimation (requested_sample_rate d) (adc_limit d)
                (if int DECIMATION_MAX \<le> decimation_mode d then DECIMATION_MAX else nat (decimation_mode d))
              in Some (2 * 2 ^ pd, pd)
         else if decimation_mode d = -1
         then let pd = auto_decimation (requested_sample_rate d) (adc_limit d) (requested_sample_rate d) 0
              in Some (2 * 2 ^ pd, pd)
         else None)"

text \<open>Bytes and ADC samples of one USB transfer, in 32-bit arithmetic.\<close>

definition transfer_sizes :: "u64 \<Rightarrow> u32 \<Rightarrow> u32 \<Rightarrow> u32 \<Rightarrow> (u32 \<times> u32) run" where
  "transfer_sizes buffer samples_per_user samples_per_block bytes_per_block =
    (if samples_per_block = 0 then Inl Division_by_zero
     else let adc_samples_per_buffer = (ucast (buffer * ucast samples_per_user) :: u32);
              blocks = adc_samples_per_buffer div samples_per_block;
              transfer = blocks * bytes_per_block
          in if MAX_USB_TRANSFER < transfer
             then let blocks = MAX_USB_TRANSFER div bytes_per_block
                  in Inr (blocks * bytes_per_block, blocks * samples_per_block)
             else Inr (transfer, blocks * samples_per_block))"

text \<open>The settings a rate change computes, then their storing.\<close>

type_synonym rate_config = "adc_pll_config \<times> u32 \<times> u32 \<times> u32 \<times> nat"

definition rate_settings :: "p_i_table option \<Rightarrow> 'u device \<Rightarrow> (int \<times> rate_config option) run" where
  "rate_settings tab d =
    (case choose_decimation d of
       None \<Rightarrow> Inr (PG2SDR_ERROR_CORRUPTION, None)
     | Some (aspu, pd) \<Rightarrow>
         let target = rd (requested_sample_rate d * of_nat aspu)
         in if adc_limit d < target then Inr (PG2SDR_ERROR_ADC_RATE_RANGE, None)
            else run_bind (adc_find_divisors tab target False True (0x00090600 \<le> fw_version d) (rd (1 / 10 ^ 5)))
              (\<lambda>(error, config).
                if error < 0 then Inr (error, None)
                else case config of
                  None \<Rightarrow> Inl Null_dereference
                | Some c \<Rightarrow>
                    run_bind (transfer_sizes (buffer_size d) (of_nat aspu) (usb_samples_per_block d) (usb_bytes_per_block d))
                      (\<lambda>(bytes, samples). Inr (PG2SDR_SUCCESS, Some (c, bytes, samples, of_nat aspu, pd)))))"

definition apply_rate_change :: "p_i_table option \<Rightarrow> 'u device \<Rightarrow> ('u device \<times> int) run" where
  "apply_rate_change tab d =
    (if streaming d then Inr (d, PG2SDR_ERROR_BAD_STATE)
     else if requested_sample_rate d = 0 then Inr (d, PG2SDR_SUCCESS)
     else run_bind (rate_settings tab d) (\<lambda>(error, settings).
       case settings of
         None \<Rightarrow> Inr (d, error)
       | Some (c, bytes, samples, aspu, pd) \<Rightarrow>
           Inr (d\<lparr>adc_config := c, usb_transfer_size := bytes, adc_samples_per_transfer := samples,
                  adc_samples_per_user_sample := aspu, post_decimation := pd\<rparr>, error)))"

subsection \<open>Applying a frequency change\<close>

definition lo_target :: "'u device \<Rightarrow> double" where
  "lo_target d = rd (requested_frequency d + lo_offset d)"

definition apply_freq_change :: "'u usb_env \<Rightarrow> 'u device \<Rightarrow> ('u device \<times> int) run" where
  "apply_freq_change E d =
    (if requested_frequency d = 0 then Inr (d, PG2SDR_SUCCESS)
     else if \<not> adc_valid (adc_config d) then Inr (d, PG2SDR_SUCCESS)
     else run_bind (find_pll_parameters (lo_target d) (of_nat (unat (tuner_xtal d)))) (\<lambda>(error, config).
       if error < 0 then Inr (d, error)
       else case config of
         None \<Rightarrow> Inl Null_dereference
       | Some c \<Rightarrow>
           if tuner_pll_config_equal c (tuner_config d) then Inr (d, PG2SDR_SUCCESS)
           else run_bind (start_pll E d c) (\<lambda>(d, error).
             if error < 0 then Inr (d\<lparr>tuner_config := (tuner_config d)\<lparr>pll_valid := False\<rparr>\<rparr>, error)
             else Inr (d\<lparr>tuner_config := c\<rparr>, PG2SDR_SUCCESS))))"

subsection \<open>Applying a bandpass change\<close>

definition if_limits :: "'u device \<Rightarrow> double \<times> double \<times> double \<times> double" where
  "if_limits d =
    (let center = center_if_frequency d;
         nyquist_low = undersampling_offset d;
         nyquist_high = rd (nyquist_low + rd (adc_actual_frequency (adc_config d) / 2));
         (l, h) = (case sideband d of
             SIDEBAND_UPPER \<Rightarrow> (rd (center + requested_bandpass_low d), rd (center + requested_bandpass_high d))
           | SIDEBAND_LOWER \<Rightarrow> (rd (center - requested_bandpass_high d), rd (center - requested_bandpass_low d)));
         l = (if l < nyquist_low then nyquist_low else l);
         h = (if nyquist_high < h then nyquist_high else h)
     in (l, h, nyquist_low, nyquist_high))"

definition wanted_filter :: "'u device \<Rightarrow> nat run" where
  "wanted_filter d = (let (l, h, nl, nh) = if_limits d in select_bandpass_filter d l h nl nh)"

definition apply_bandpass_change :: "'u usb_env \<Rightarrow> 'u device \<Rightarrow> ('u device \<times> int) run" where
  "apply_bandpass_change E d =
    (if \<not> adc_valid (adc_config d) \<or> changing_rate d then Inr (d, PG2SDR_SUCCESS)
     else run_bind (wanted_filter d) (\<lambda>k.
       let settings = bandpass_table d ! k
       in if (case current_bandpass_entry d of
                None \<Rightarrow> False | Some j \<Rightarrow> tuner_bandpass_equal settings (bandpass_table d ! j))
          then Inr (d, PG2SDR_SUCCESS)
          else run_bind (tuner_set_bandpass E d (Some settings)) (\<lambda>(d, error).
            if error < 0 then Inr (d\<lparr>current_bandpass_entry := None\<rparr>, error)
            else Inr (d\<lparr>current_bandpass_entry := Some k\<rparr>, PG2SDR_SUCCESS))))"

subsection \<open>Applying all changes\<close>

text \<open>One stage: if its flag is set, apply the change, and go on only if that succeeded.\<close>

definition stage ::
  "bool \<Rightarrow> ('u device \<Rightarrow> ('u device \<times> int) run) \<Rightarrow> ('u device \<Rightarrow> 'u device) \<Rightarrow>
   ('u device \<Rightarrow> ('u device \<times> int) run) \<Rightarrow> 'u device \<Rightarrow> ('u device \<times> int) run" where
  "stage pending apply_change finish rest d =
    (if pending
     then run_bind (apply_change d) (\<lambda>(d, error). if error < 0 then Inr (d, error) else rest (finish d))
     else rest d)"

definition apply_changes :: "'u usb_env \<Rightarrow> p_i_table option \<Rightarrow> 'u device option \<Rightarrow> ('u device option \<times> int) run" where
  "apply_changes E tab dev = with_dev dev (\<lambda>d.
    stage (changing_rate d) (apply_rate_change tab)
      (\<lambda>d. d\<lparr>changing_rate := False, changing_freq := True, changing_bandpass := True\<rparr>)
      (\<lambda>d. stage (changing_freq d) (apply_freq_change E) (\<lambda>d. d\<lparr>changing_freq := False\<rparr>)
        (\<lambda>d. stage (changing_bandpass d) (apply_bandpass_change E) (\<lambda>d. d\<lparr>changing_bandpass := False\<rparr>)
          (\<lambda>d. Inr (d, PG2SDR_SUCCESS)) d) d) d) id"

end
