(* ===== verification/ConfigFacts.thy ===== *)
theory ConfigFacts
  imports Config
begin

section \<open>What the configuration guarantees\<close>

text \<open>
  The decimation chosen, the transfer sizes, and the invariant of the configuration: whatever the
  user sets and whenever it is applied, settings that are not marked as changing are those the
  requests call for.
\<close>

subsection \<open>Decimation\<close>

lemma limit_decimation_props:
  "limit_decimation rate limit pd \<le> pd \<and>
   (limit_decimation rate limit pd = 0 \<or> rd (rate * of_nat (2 * 2 ^ limit_decimation rate limit pd)) \<le> limit) \<and>
   (\<forall>q. limit_decimation rate limit pd < q \<and> q \<le> pd \<longrightarrow> limit < rd (rate * of_nat (2 * 2 ^ q)))"
proof (induction pd)
  case 0
  then show ?case by (simp add: limit_decimation.simps)
next
  case (Suc pd)
  show ?case
  proof (cases "limit < rd (rate * of_nat (2 * 2 ^ Suc pd))")
    case True
    then have e: "limit_decimation rate limit (Suc pd) = limit_decimation rate limit pd"
      by (subst limit_decimation.simps) simp
    show ?thesis unfolding e using Suc True by (auto simp: le_Suc_eq)
  next
    case False
    then have e: "limit_decimation rate limit (Suc pd) = Suc pd"
      by (subst limit_decimation.simps) simp
    show ?thesis unfolding e using False by auto
  qed
qed

definition auto_wants_more :: "double \<Rightarrow> double \<Rightarrow> nat \<Rightarrow> bool" where
  "auto_wants_more rate limit q \<longleftrightarrow>
    rate * 2 ^ (q + 2) \<le> limit \<and> q < DECIMATION_MAX \<and> rd (rate * 2 ^ q - rate) < 500000"

lemma auto_decimation_props:
  assumes "rd rate = rate" "scaled = rate * 2 ^ pd" "pd \<le> DECIMATION_MAX"
  shows "pd \<le> auto_decimation rate limit scaled pd \<and> auto_decimation rate limit scaled pd \<le> DECIMATION_MAX \<and>
    (\<forall>q. pd \<le> q \<and> q < auto_decimation rate limit scaled pd \<longrightarrow> auto_wants_more rate limit q) \<and>
    \<not> auto_wants_more rate limit (auto_decimation rate limit scaled pd)"
  using assms
proof (induction rate limit scaled pd rule: auto_decimation.induct)
  case (1 rate limit scaled pd)
  have e: "rd (scaled * 4) = rate * 2 ^ (pd + 2)" "rd (scaled * 2) = rate * 2 ^ Suc pd"
    using rd_scale [of rate "pd + 2"] rd_scale [of rate "Suc pd"] 1(2,3) by (simp_all add: ac_simps)
  have step: "auto_decimation rate limit scaled pd =
      (if auto_wants_more rate limit pd then auto_decimation rate limit (rd (scaled * 2)) (Suc pd) else pd)"
    unfolding auto_wants_more_def e(1) [symmetric] 1(3) [symmetric] by (rule auto_decimation.simps)
  show ?case
  proof (cases "auto_wants_more rate limit pd")
    case True
    then have c: "rd (scaled * 4) \<le> limit \<and> pd < DECIMATION_MAX \<and> rd (scaled - rate) < 500000"
      unfolding auto_wants_more_def e(1) [symmetric] 1(3) [symmetric] .
    then have ih: "Suc pd \<le> auto_decimation rate limit (rd (scaled * 2)) (Suc pd) \<and>
        auto_decimation rate limit (rd (scaled * 2)) (Suc pd) \<le> DECIMATION_MAX \<and>
        (\<forall>q. Suc pd \<le> q \<and> q < auto_decimation rate limit (rd (scaled * 2)) (Suc pd) \<longrightarrow> auto_wants_more rate limit q) \<and>
        \<not> auto_wants_more rate limit (auto_decimation rate limit (rd (scaled * 2)) (Suc pd))"
      using 1(1) [OF c 1(2) e(2)] by simp
    have "auto_decimation rate limit scaled pd = auto_decimation rate limit (rd (scaled * 2)) (Suc pd)"
      using step True by simp
    then show ?thesis using ih True by (metis Suc_leD Suc_leI le_neq_implies_less)
  next
    case False
    then have "auto_decimation rate limit scaled pd = pd" using step by simp
    then show ?thesis using False 1(4) by auto
  qed
qed

lemma choose_decimation_shape:
  assumes "choose_decimation d = Some (aspu, pd)"
  shows "pd \<le> 8 \<and> 1 \<le> aspu \<and> aspu \<le> 512 \<and>
    (aspu, pd) = (case conv_mode d of MODE_LOWIF_REAL \<Rightarrow> (1, 0) | MODE_BASEBAND \<Rightarrow> (2 * 2 ^ pd, pd))"
proof (cases "conv_mode d")
  case MODE_LOWIF_REAL
  then show ?thesis using assms by (simp add: choose_decimation_def)
next
  case MODE_BASEBAND
  have lim: "limit_decimation r l p \<le> p" for r l p using limit_decimation_props [of r l p] by blast
  have auto: "auto_decimation r l s p \<le> DECIMATION_MAX" if "p \<le> DECIMATION_MAX" for r l s p
    using that
  proof (induction r l s p rule: auto_decimation.induct)
    case (1 r l s p)
    show ?case by (subst auto_decimation.simps) (use 1 in \<open>simp add: Suc_le_eq\<close>)
  qed
  have pd: "pd \<le> 8" "aspu = 2 * 2 ^ pd"
    using assms MODE_BASEBAND lim auto [of 0] 
    by (auto simp: choose_decimation_def Let_def DECIMATION_MAX_def nat_le_iff split: if_splits
        intro: order_trans [OF lim])
  have "(2 :: nat) ^ pd \<le> 2 ^ 8" using pd(1) by (rule power_increasing) simp
  then show ?thesis using pd MODE_BASEBAND by simp
qed

subsection \<open>Transfer sizes\<close>

lemma transfer_sizes_ok:
  assumes spb: "0 < spb" and no_wrap: "unat buffer * n < 2 ^ 31" "unat bpb \<le> 2 * unat spb" and n: "n < 2 ^ 31"
  shows "\<exists>blocks bytes samples. transfer_sizes buffer (of_nat n) spb bpb = Inr (bytes, samples) \<and>
    unat bytes = blocks * unat bpb \<and> unat samples = blocks * unat spb \<and> unat bytes \<le> 2 * 1024 * 1024 \<and>
    unat samples \<le> unat buffer * n \<and>
    (unat spb \<le> unat buffer * n \<and> unat bpb \<le> 2 * 1024 * 1024 \<longrightarrow> 0 < blocks)"
proof -
  define a where "a = unat buffer * n"
  have m: "unat MAX_USB_TRANSFER = 2 * 1024 * 1024" by (simp add: MAX_USB_TRANSFER_def)
  have s0: "0 < unat spb" using spb by (simp add: word_less_nat_alt)
  have un: "unat (of_nat n :: u32) = n" using n by (simp add: unat_of_nat_small del: unat_of_nat)
  have "unat (buffer * ucast (of_nat n :: u32)) = a"
  proof -
    have "unat (ucast (of_nat n :: u32) :: u64) = n"
      using n by (simp add: unsigned_ucast_eq unsigned_of_nat take_bit_nat_eq_self)
    then show ?thesis using no_wrap by (simp add: unat_word_ariths a_def)
  qed
  then have buf: "unat (ucast (buffer * ucast (of_nat n :: u32)) :: u32) = a"
    using no_wrap by (simp add: unsigned_ucast_eq take_bit_nat_eq_self a_def)
  define blocks where "blocks = a div unat spb"
  have bs: "blocks * unat spb \<le> a" by (simp add: blocks_def)
  have bb: "blocks * unat bpb \<le> 2 * a"
  proof -
    have "blocks * unat bpb \<le> blocks * (2 * unat spb)" using no_wrap(2) by (rule mult_le_mono2)
    also have "... = 2 * (blocks * unat spb)" by simp
    also have "... \<le> 2 * a" using bs by (rule mult_le_mono2)
    finally show ?thesis .
  qed
  define bw where "bw = (ucast (buffer * ucast (of_nat n :: u32)) :: u32) div spb"
  have bw: "unat bw = blocks" by (simp add: bw_def unat_div buf blocks_def)
  have tr: "unat (bw * bpb) = blocks * unat bpb" "unat (bw * spb) = blocks * unat spb"
    using bb bs no_wrap by (simp_all add: unat_word_ariths bw a_def)
  show ?thesis
  proof (cases "MAX_USB_TRANSFER < bw * bpb")
    case False
    then have "transfer_sizes buffer (of_nat n) spb bpb = Inr (bw * bpb, bw * spb)"
      using spb by (simp add: transfer_sizes_def Let_def bw_def)
    moreover have "unat (bw * bpb) \<le> 2 * 1024 * 1024"
      using False m by (simp add: not_less word_le_nat_alt)
    moreover have "unat spb \<le> a \<longrightarrow> 0 < blocks" using s0 by (simp add: blocks_def div_greater_zero_iff)
    ultimately show ?thesis using tr bs unfolding a_def by (intro exI [of _ blocks] exI [of _ "bw * bpb"] exI [of _ "bw * spb"]) simp
  next
    case True
    define c where "c = unat MAX_USB_TRANSFER div unat bpb"
    define cw where "cw = MAX_USB_TRANSFER div bpb"
    have cw: "unat cw = c" by (simp add: cw_def c_def unat_div)
    have b0: "0 < unat bpb" using True by (cases "bpb = 0") (simp_all add: unat_gt_0)
    have big: "2 * 1024 * 1024 < blocks * unat bpb"
      using True m tr(1) by (simp add: word_less_nat_alt)
    have cb: "c * unat bpb \<le> 2 * 1024 * 1024" using m by (simp add: c_def)
    then have "c * unat bpb < blocks * unat bpb" using big by linarith
    then have cl: "c < blocks" using b0 by simp
    have cs: "c * unat spb \<le> a" using cl bs by (meson less_imp_le mult_le_mono1 order_trans)
    have tr': "unat (cw * bpb) = c * unat bpb" "unat (cw * spb) = c * unat spb"
      using cb cs no_wrap by (simp_all add: unat_word_ariths cw a_def)
    have "transfer_sizes buffer (of_nat n) spb bpb = Inr (cw * bpb, cw * spb)"
      using spb True by (simp add: transfer_sizes_def Let_def bw_def cw_def)
    moreover have "unat bpb \<le> 2 * 1024 * 1024 \<longrightarrow> 0 < c" using b0 m by (simp add: c_def div_greater_zero_iff)
    ultimately show ?thesis using tr' cb cs unfolding a_def by (intro exI [of _ c] exI [of _ "cw * bpb"] exI [of _ "cw * spb"]) simp
  qed
qed


subsection \<open>Every step is total but for the VCO DAC\<close>

lemma no_pll_config_valid [simp]: "adc_valid (no_pll_config t n)"
  by (simp add: no_pll_config_def Let_def)

lemma transfer_sizes_total: "0 < spb \<Longrightarrow> \<exists>x. transfer_sizes b n spb bpb = Inr x"
  by (cases "spb = 0") (auto simp: transfer_sizes_def Let_def)

lemma adc_find_divisors_total:
  assumes t: "1 \<le> target"
  shows "\<exists>e r. adc_find_divisors tab target mn fr np eps = Inr (e, r) \<and>
    (e < 0 \<and> r = None \<or> e = PG2SDR_SUCCESS \<and> (\<exists>c. r = Some c \<and> adc_valid c))"
proof -
  have q: "0 \<le> rd (12000000 / target)" "rd (12000000 / target) \<le> 12000000"
    using t rd_le [of "12000000 / target" 12000000] by (simp_all add: dbl.rnd_nonneg field_simps)
  then have r: "0 \<le> c_round (rd (12000000 / target))" "c_round (rd (12000000 / target)) \<le> 12000000"
    using c_round_ge [of 0] c_round_le [of _ 12000000] by simp_all
  obtain w :: u32 where w: "to_unsigned (of_int (c_round (rd (adc_reference_frequency / target)))) = Inr w"
    using r by (simp add: to_unsigned_def adc_reference_frequency_def)
  have s: "\<exists>e r. search_pll table target mn fr thr = Inr (e, r) \<and>
    (e < 0 \<and> r = None \<or> e = PG2SDR_SUCCESS \<and> (\<exists>c. r = Some c \<and> adc_valid c))" for table thr
  proof (cases "adc.scan mn (rs thr) None (all_adc_candidates table target fr)")
    case None
    then show ?thesis using search_pll_scan [OF t, of table mn fr thr] by simp
  next
    case (Some c)
    then have "adc_acceptable (rs thr) c" using adc.scan_best [OF all_adc_candidates_sound Some] by simp
    then have "adc_valid c" by (simp add: adc_acceptable_def)
    then show ?thesis using search_pll_scan [OF t, of table mn fr thr] Some by simp
  qed
  show ?thesis
    unfolding adc_find_divisors_def w run_bind_simps Let_def
    using s by (auto split: option.splits)
qed

lemma rate_settings_total:
  assumes rate: "1000 < requested_sample_rate d" and spb: "0 < usb_samples_per_block d"
  shows "\<exists>e r. rate_settings tab d = Inr (e, r) \<and> (e < 0 \<and> r = None \<or> e = PG2SDR_SUCCESS \<and> r \<noteq> None)"
proof (cases "choose_decimation d")
  case None
  then show ?thesis by (simp add: rate_settings_def)
next
  case (Some p)
  obtain aspu pd where p: "choose_decimation d = Some (aspu, pd)" using Some by (cases p) simp
  define target where "target = rd (requested_sample_rate d * of_nat aspu)"
  have "1 \<le> requested_sample_rate d * of_nat aspu"
    using rate choose_decimation_shape [OF p] mult_mono [of 1 "requested_sample_rate d" 1 "of_nat aspu"] by simp
  then have t: "1 \<le> target" using rd_ge [of 1] by (simp add: target_def)
  obtain x where ts: "transfer_sizes (buffer_size d) (of_nat aspu) (usb_samples_per_block d) (usb_bytes_per_block d) = Inr x"
    using transfer_sizes_total [OF spb] by blast
  show ?thesis
    unfolding rate_settings_def p option.case prod.case target_def [symmetric] Let_def ts
    using adc_find_divisors_total [OF t, of tab False True "0x00090600 \<le> fw_version d" "rd (1 / 10 ^ 5)"]
    by (auto split: prod.splits)
qed

lemma usb_frame: "(\<exists>u. d' = d\<lparr>usb := u\<rparr>) \<longleftrightarrow> d' = d\<lparr>usb := usb d'\<rparr>"
  by auto

lemma apply_tuner_changeset_usb: "apply_tuner_changeset E d cs = (d', e) \<Longrightarrow> \<exists>u. d' = d\<lparr>usb := u\<rparr>"
  unfolding usb_frame by (rule apply_tuner_changeset_frame(1))

lemma try_vco_currents_usb: "try_vco_currents E d cs r = (d', e) \<Longrightarrow> \<exists>u. d' = d\<lparr>usb := u\<rparr>"
proof (induction cs arbitrary: d r)
  case Nil
  then show ?case by (auto intro: exI [of _ "usb d"])
next
  case (Cons c cs)
  obtain u r1 where u: "ctrl_update_tuner_lock E (usb d) c 50 (control_timeout_ms d) = (u, r1)" by fastforce
  show ?case
  proof (cases "r1 = 0")
    case True
    then have "try_vco_currents E (d\<lparr>usb := u\<rparr>) cs r1 = (d', e)" using Cons.prems by (simp add: u Let_def)
    then show ?thesis using Cons.IH by fastforce
  next
    case False
    then have "d' = d\<lparr>usb := u\<rparr>" using Cons.prems by (simp add: u Let_def split: if_splits)
    then show ?thesis by blast
  qed
qed

lemma start_pll_frame:
  assumes ok: "seldiv_index (pll_seldiv c) \<noteq> 255"
  shows "start_pll E d c = Inl Undefined_conversion \<or> (\<exists>u e. start_pll E d c = Inr (d\<lparr>usb := u\<rparr>, e))"
proof (cases rule: vco_dac_cases [of "pll_actual_vco c"])
  case 1
  then show ?thesis using ok by (simp add: start_pll_def configure_pll_settings_def)
next
  case (2 dac)
  obtain d1 e1 where a: "apply_tuner_changeset E d (set_fields empty_change_set (pll_fields (sideband d) c dac)) = (d1, e1)"
    by fastforce
  obtain d2 r2 where l: "try_vco_currents E d1 [4, 3, 2, 1, 0] 0 = (d2, r2)" by fastforce
  obtain d3 e3 where b: "apply_tuner_changeset E d2 (set_tuner_bits empty_change_set PLL_AUTO_CLK 2) = (d3, e3)"
    by fastforce
  obtain u1 u2 u3 where u: "d1 = d\<lparr>usb := u1\<rparr>" "d2 = d\<lparr>usb := u2\<rparr>" "d3 = d\<lparr>usb := u3\<rparr>"
    using apply_tuner_changeset_usb [OF a] try_vco_currents_usb [OF l] apply_tuner_changeset_usb [OF b] by auto
  have "start_pll E d c = Inr (if e1 < 0 then (d1, e1) else if r2 < 0 then (d2, r2)
      else if r2 \<noteq> 1 then (d2, PG2SDR_ERROR_TUNER_PLL_LOCK) else (d3, e3))"
    unfolding start_pll_def configure_pll_settings_def 2(1) using ok by (simp add: a l b del: try_vco_currents.simps)
  then show ?thesis unfolding u by (auto split: if_splits)
qed


subsection \<open>What the computed settings depend on\<close>

lemma rate_settings_update [simp]:
  "rate_settings tab (d\<lparr>usb := x0\<rparr>) = rate_settings tab d"
  "rate_settings tab (d\<lparr>streaming := x1\<rparr>) = rate_settings tab d"
  "rate_settings tab (d\<lparr>changing_rate := x2\<rparr>) = rate_settings tab d"
  "rate_settings tab (d\<lparr>changing_freq := x3\<rparr>) = rate_settings tab d"
  "rate_settings tab (d\<lparr>changing_bandpass := x4\<rparr>) = rate_settings tab d"
  "rate_settings tab (d\<lparr>sideband := x5\<rparr>) = rate_settings tab d"
  "rate_settings tab (d\<lparr>requested_frequency := x6\<rparr>) = rate_settings tab d"
  "rate_settings tab (d\<lparr>tuner_config := x7\<rparr>) = rate_settings tab d"
  "rate_settings tab (d\<lparr>requested_bandpass_low := x8\<rparr>) = rate_settings tab d"
  "rate_settings tab (d\<lparr>requested_bandpass_high := x9\<rparr>) = rate_settings tab d"
  "rate_settings tab (d\<lparr>undersampling_mode := x10\<rparr>) = rate_settings tab d"
  "rate_settings tab (d\<lparr>bandpass_table := x11\<rparr>) = rate_settings tab d"
  "rate_settings tab (d\<lparr>current_bandpass_entry := x12\<rparr>) = rate_settings tab d"
  "rate_settings tab (d\<lparr>adc_config := x13\<rparr>) = rate_settings tab d"
  "rate_settings tab (d\<lparr>usb_transfer_size := x14\<rparr>) = rate_settings tab d"
  "rate_settings tab (d\<lparr>adc_samples_per_transfer := x15\<rparr>) = rate_settings tab d"
  "rate_settings tab (d\<lparr>adc_samples_per_user_sample := x16\<rparr>) = rate_settings tab d"
  "rate_settings tab (d\<lparr>post_decimation := x17\<rparr>) = rate_settings tab d"
  by (simp_all add: rate_settings_def choose_decimation_def
      cong del: if_weak_cong conversion_mode.case_cong_weak option.case_cong_weak prod.case_cong_weak)

lemma lo_target_update [simp]:
  "lo_target (d\<lparr>usb := x0\<rparr>) = lo_target d"
  "lo_target (d\<lparr>streaming := x1\<rparr>) = lo_target d"
  "lo_target (d\<lparr>changing_rate := x2\<rparr>) = lo_target d"
  "lo_target (d\<lparr>changing_freq := x3\<rparr>) = lo_target d"
  "lo_target (d\<lparr>changing_bandpass := x4\<rparr>) = lo_target d"
  "lo_target (d\<lparr>tuner_config := x5\<rparr>) = lo_target d"
  "lo_target (d\<lparr>requested_bandpass_low := x6\<rparr>) = lo_target d"
  "lo_target (d\<lparr>requested_bandpass_high := x7\<rparr>) = lo_target d"
  "lo_target (d\<lparr>bandpass_table := x8\<rparr>) = lo_target d"
  "lo_target (d\<lparr>current_bandpass_entry := x9\<rparr>) = lo_target d"
  "lo_target (d\<lparr>buffer_size := x10\<rparr>) = lo_target d"
  "lo_target (d\<lparr>adc_limit := x11\<rparr>) = lo_target d"
  "lo_target (d\<lparr>decimation_mode := x12\<rparr>) = lo_target d"
  "lo_target (d\<lparr>requested_sample_rate := x13\<rparr>) = lo_target d"
  by (simp_all add: lo_target_def lo_offset_def undersampling_offset_def Let_def 
      cong del: if_weak_cong conversion_mode.case_cong_weak)

lemma wanted_filter_update [simp]:
  "wanted_filter (d\<lparr>usb := x0\<rparr>) = wanted_filter d"
  "wanted_filter (d\<lparr>streaming := x1\<rparr>) = wanted_filter d"
  "wanted_filter (d\<lparr>changing_rate := x2\<rparr>) = wanted_filter d"
  "wanted_filter (d\<lparr>changing_freq := x3\<rparr>) = wanted_filter d"
  "wanted_filter (d\<lparr>changing_bandpass := x4\<rparr>) = wanted_filter d"
  "wanted_filter (d\<lparr>tuner_config := x5\<rparr>) = wanted_filter d"
  "wanted_filter (d\<lparr>requested_frequency := x6\<rparr>) = wanted_filter d"
  "wanted_filter (d\<lparr>current_bandpass_entry := x7\<rparr>) = wanted_filter d"
  "wanted_filter (d\<lparr>buffer_size := x8\<rparr>) = wanted_filter d"
  "wanted_filter (d\<lparr>adc_limit := x9\<rparr>) = wanted_filter d"
  "wanted_filter (d\<lparr>decimation_mode := x10\<rparr>) = wanted_filter d"
  "wanted_filter (d\<lparr>requested_sample_rate := x11\<rparr>) = wanted_filter d"
  by (simp_all add: wanted_filter_def if_limits_def center_if_frequency_def lo_offset_def undersampling_offset_def
      select_bandpass_filter_def Let_def 
      cong del: if_weak_cong conversion_mode.case_cong_weak sideband_mode.case_cong_weak)

subsection \<open>The invariant\<close>

definition settled_rate :: "p_i_table option \<Rightarrow> 'u device \<Rightarrow> bool" where
  "settled_rate tab d \<longleftrightarrow> requested_sample_rate d = 0 \<or>
     rate_settings tab d = Inr (PG2SDR_SUCCESS, Some (adc_config d, usb_transfer_size d,
       adc_samples_per_transfer d, adc_samples_per_user_sample d, post_decimation d))"

definition settled_freq :: "'u device \<Rightarrow> bool" where
  "settled_freq d \<longleftrightarrow> requested_frequency d = 0 \<or> \<not> adc_valid (adc_config d) \<or>
     (\<exists>c. find_pll_parameters (lo_target d) (of_nat (unat (tuner_xtal d))) = Inr (PG2SDR_SUCCESS, Some c) \<and>
        tuner_pll_config_equal c (tuner_config d))"

definition settled_bandpass :: "'u device \<Rightarrow> bool" where
  "settled_bandpass d \<longleftrightarrow> \<not> adc_valid (adc_config d) \<or>
     (\<exists>k j. wanted_filter d = Inr k \<and> current_bandpass_entry d = Some j \<and>
        tuner_bandpass_equal (bandpass_table d ! k) (bandpass_table d ! j))"

definition config_inv :: "p_i_table option \<Rightarrow> 'u device \<Rightarrow> bool" where
  "config_inv tab d \<longleftrightarrow> CHECK_DEV (Some d) = PG2SDR_SUCCESS \<and> 0 < usb_samples_per_block d \<and>
     bandpass_table d \<noteq> [] \<and> (\<forall>k. current_bandpass_entry d = Some k \<longrightarrow> k < length (bandpass_table d)) \<and>
     (requested_sample_rate d = 0 \<or> 1000 < requested_sample_rate d) \<and>
     (pll_valid (tuner_config d) \<longrightarrow>
        (\<exists>r. find_pll_parameters r (of_nat (unat (tuner_xtal d))) = Inr (PG2SDR_SUCCESS, Some (tuner_config d)))) \<and>
     (\<not> changing_rate d \<longrightarrow> settled_rate tab d) \<and>
     (\<not> changing_rate d \<and> \<not> changing_freq d \<longrightarrow> settled_freq d) \<and>
     (\<not> changing_rate d \<and> \<not> changing_bandpass d \<and> current_bandpass_entry d \<noteq> None \<longrightarrow> settled_bandpass d)"

lemmas config_defs = config_inv_def settled_rate_def settled_freq_def settled_bandpass_def CHECK_DEV_def

lemma config_inv_chk: "config_inv tab d \<Longrightarrow> CHECK_DEV (Some d) = PG2SDR_SUCCESS"
  by (simp add: config_inv_def)

lemma config_inv_usb [simp]: "config_inv tab (d\<lparr>usb := u\<rparr>) = config_inv tab d"
  by (simp add: config_defs)

lemma config_inv_streaming [simp]: "config_inv tab (d\<lparr>streaming := b\<rparr>) = config_inv tab d"
  by (simp add: config_defs)

lemma find_pll_result:
  obtains "find_pll_parameters r x = Inr (PG2SDR_ERROR_TUNER_PLL_RANGE, None)"
  | c where "find_pll_parameters r x = Inr (PG2SDR_SUCCESS, Some c)" "pll_valid c" "seldiv_index (pll_seldiv c) \<noteq> 255"
proof (cases rule: find_pll_cases [of r x])
  case out_of_range
  then show thesis using that by blast
next
  case (in_range n sdm vco)
  have k: "1 \<le> seldiv_loop r 1 \<and> seldiv_loop r 1 \<le> 6" using seldiv_loop_1 [of r] by simp
  then have "seldiv_index (2 ^ seldiv_loop r 1) = seldiv_loop r 1 - 1" by (intro seldiv_index_seldiv) simp_all
  then have "seldiv_index (2 ^ seldiv_loop r 1) \<noteq> 255" using k by linarith
  then show thesis using that(2) [OF in_range(3)] by simp
qed

lemma apply_rate_change_inv:
  assumes inv: "config_inv tab d"
  shows "\<exists>d' e. apply_rate_change tab d = Inr (d', e) \<and>
    (e < 0 \<and> d' = d \<or>
     e = PG2SDR_SUCCESS \<and> config_inv tab (d'\<lparr>changing_rate := False, changing_freq := True, changing_bandpass := True\<rparr>))"
proof -
  consider "streaming d" | "\<not> streaming d" "requested_sample_rate d = 0" | "\<not> streaming d" "1000 < requested_sample_rate d"
    using inv by (auto simp: config_inv_def)
  then show ?thesis
  proof cases
    case 1
    then show ?thesis by (simp add: apply_rate_change_def)
  next
    case 2
    then show ?thesis using inv by (simp add: apply_rate_change_def config_defs)
  next
    case 3
    have spb: "0 < usb_samples_per_block d" using inv by (simp add: config_inv_def)
    from rate_settings_total [OF 3(2) spb, of tab]
    consider (err) e where "rate_settings tab d = Inr (e, None)" "e < 0"
      | (ok) c b s a p where "rate_settings tab d = Inr (PG2SDR_SUCCESS, Some (c, b, s, a, p))" by fastforce
    then show ?thesis
    proof cases
      case err
      then show ?thesis using 3 by (simp add: apply_rate_change_def)
    next
      case ok
      then show ?thesis using 3 inv by (simp add: apply_rate_change_def config_defs)
    qed
  qed
qed

lemma apply_freq_change_inv:
  assumes inv: "config_inv tab d" and pending: "changing_freq d"
  shows "apply_freq_change E d = Inl Undefined_conversion \<or>
    (\<exists>d' e. apply_freq_change E d = Inr (d', e) \<and> changing_freq d' \<and> (changing_rate d' \<longleftrightarrow> changing_rate d) \<and>
      (e < 0 \<and> config_inv tab d' \<or> e = PG2SDR_SUCCESS \<and> config_inv tab (d'\<lparr>changing_freq := False\<rparr>)))"
proof (cases "requested_frequency d = 0 \<or> \<not> adc_valid (adc_config d)")
  case True
  then show ?thesis using inv pending by (auto simp: apply_freq_change_def config_defs)
next
  case False
  show ?thesis
  proof (cases rule: find_pll_result [of "lo_target d" "of_nat (unat (tuner_xtal d))"])
    case 1
    then show ?thesis
      unfolding apply_freq_change_def using False inv pending by (simp add: 1 del: of_nat_unat)
  next
    case (2 c)
    show ?thesis
    proof (cases "tuner_pll_config_equal c (tuner_config d)")
      case True
      have "apply_freq_change E d = Inr (d, PG2SDR_SUCCESS)"
        unfolding apply_freq_change_def 2(1) using False True by simp
      moreover have "settled_freq d" using True 2(1) unfolding settled_freq_def by blast
      ultimately show ?thesis using inv pending by (simp add: config_inv_def CHECK_DEV_def settled_rate_def
          settled_bandpass_def) (simp add: settled_freq_def)
    next
      case neq: False
      from start_pll_frame [OF 2(3), of E d] show ?thesis
      proof (elim disjE exE)
        assume "start_pll E d c = Inl Undefined_conversion"
        then have "apply_freq_change E d = Inl Undefined_conversion"
          unfolding apply_freq_change_def 2(1) using False neq by simp
        then show ?thesis ..
      next
        fix u e
        assume st: "start_pll E d c = Inr (d\<lparr>usb := u\<rparr>, e)"
        show ?thesis
        proof (cases "e < 0")
          case True
          then have "apply_freq_change E d =
              Inr (d\<lparr>usb := u, tuner_config := (tuner_config d)\<lparr>pll_valid := False\<rparr>\<rparr>, e)"
            unfolding apply_freq_change_def 2(1) using False neq st by simp
          then show ?thesis using True inv pending by (simp add: config_defs)
        next
          case ok: False
          then have "apply_freq_change E d = Inr (d\<lparr>usb := u, tuner_config := c\<rparr>, PG2SDR_SUCCESS)"
            unfolding apply_freq_change_def 2(1) using False neq st by simp
          moreover have "settled_freq (d\<lparr>usb := u, tuner_config := c, changing_freq := False\<rparr>)"
            using 2(1,2) unfolding settled_freq_def by (auto simp: tuner_pll_config_equal_def)
          moreover have "\<exists>r. find_pll_parameters r (of_nat (unat (tuner_xtal d))) = Inr (PG2SDR_SUCCESS, Some c)"
            using 2(1) by blast
          ultimately show ?thesis using inv pending
            by (simp add: config_inv_def settled_rate_def settled_bandpass_def CHECK_DEV_def)
        qed
      qed
    qed
  qed
qed

lemma wanted_filter_total:
  assumes "bandpass_table d \<noteq> []"
  shows "\<exists>k < length (bandpass_table d). wanted_filter d = Inr k"
proof -
  obtain l h nl nh where lim: "if_limits d = (l, h, nl, nh)" by (cases "if_limits d")
  obtain l' h' where u: "untangle l h = (l', h')" by (cases "untangle l h")
  define p where "p = (\<lambda>i. filter_penalty (bandpass_table d ! i) l' h' nl nh)"
  have s: "insert 0 (set [1..<length (bandpass_table d)]) = {i. i < length (bandpass_table d)}"
    using assms by (cases "bandpass_table d") auto
  have "wanted_filter d = Inr (foldl (\<lambda>b i. if p i < p b then i else b) 0 [1..<length (bandpass_table d)])"
    using assms penalty_fold [of p 0 "[1..<length (bandpass_table d)]", unfolded p_def]
    by (simp add: wanted_filter_def lim select_bandpass_filter_def u p_def Let_def cong: if_cong)
  moreover have "foldl (\<lambda>b i. if p i < p b then i else b) 0 [1..<length (bandpass_table d)] < length (bandpass_table d)"
    using foldl_nearest_best(1) [of p 0 "[1..<length (bandpass_table d)]"] unfolding s by simp
  ultimately show ?thesis by blast
qed

lemma apply_bandpass_change_inv:
  assumes inv: "config_inv tab d" and pending: "changing_bandpass d" "\<not> changing_freq d"
  shows "\<exists>d' e. apply_bandpass_change E d = Inr (d', e) \<and> changing_bandpass d' \<and> \<not> changing_freq d' \<and>
      (changing_rate d' \<longleftrightarrow> changing_rate d) \<and>
      (e < 0 \<and> config_inv tab d' \<or> e = PG2SDR_SUCCESS \<and> config_inv tab (d'\<lparr>changing_bandpass := False\<rparr>))"
proof (cases "\<not> adc_valid (adc_config d) \<or> changing_rate d")
  case True
  then show ?thesis using inv pending by (auto simp: apply_bandpass_change_def config_defs)
next
  case False
  have "bandpass_table d \<noteq> []" using inv by (simp add: config_inv_def)
  from wanted_filter_total [OF this]
  obtain k where k: "wanted_filter d = Inr k" "k < length (bandpass_table d)" by blast
  define same where "same = (case current_bandpass_entry d of
      None \<Rightarrow> False | Some j \<Rightarrow> tuner_bandpass_equal (bandpass_table d ! k) (bandpass_table d ! j))"
  show ?thesis
  proof (cases same)
    case True
    then have "apply_bandpass_change E d = Inr (d, PG2SDR_SUCCESS)"
      unfolding apply_bandpass_change_def k(1) using False by (simp add: same_def Let_def)
    moreover have "settled_bandpass d"
      using True k(1) unfolding settled_bandpass_def same_def by (auto split: option.splits)
    ultimately show ?thesis using inv pending
      by (simp add: config_inv_def settled_rate_def settled_freq_def CHECK_DEV_def) (simp add: settled_bandpass_def)
  next
    case neq: False
    obtain d1 e where ap0: "apply_tuner_changeset E d
        (set_fields empty_change_set (bandpass_fields (bandpass_table d ! k))) = (d1, e)" by fastforce
    then have ap: "tuner_set_bandpass E d (Some (bandpass_table d ! k)) = Inr (d1, e)"
      by (simp add: tuner_set_bandpass_def)
    obtain u where u: "d1 = d\<lparr>usb := u\<rparr>" using apply_tuner_changeset_usb [OF ap0] by blast
    have run: "apply_bandpass_change E d = Inr (if e < 0 then (d1\<lparr>current_bandpass_entry := None\<rparr>, e)
        else (d1\<lparr>current_bandpass_entry := Some k\<rparr>, PG2SDR_SUCCESS))"
      unfolding apply_bandpass_change_def k(1) run_bind_simps Let_def same_def [symmetric] using False neq ap by simp
    have b: "settled_bandpass (d\<lparr>usb := u, current_bandpass_entry := Some k, changing_bandpass := False\<rparr>)"
      using k(1) unfolding settled_bandpass_def by (auto simp: tuner_bandpass_equal_def)
    show ?thesis unfolding run u using inv pending k(2) b
      by (simp add: config_inv_def settled_rate_def settled_freq_def CHECK_DEV_def)
  qed
qed


subsection \<open>Sequences of operations\<close>

text \<open>The operations on the configuration; \<open>Streaming\<close> is the start or the end of a stream.\<close>

datatype config_op =
    Conversion "conversion_mode option" | Buffer u64 | Rate double | Decimation int | Undersampling u32
  | Limit double | Sideband "sideband_mode option" | Frequency double | Passband double double
  | Filters bool "bandpass_entry list option" | Streaming bool | Apply

primrec config_exec ::
  "'u usb_env \<Rightarrow> p_i_table option \<Rightarrow> 'u device option \<Rightarrow> config_op \<Rightarrow> ('u device option \<times> int) run" where
  "config_exec E tab d (Conversion m) = set_conversion_mode d m"
| "config_exec E tab d (Buffer n) = set_buffer_size d n"
| "config_exec E tab d (Rate r) = set_sample_rate d r"
| "config_exec E tab d (Decimation m) = set_decimation_mode d m"
| "config_exec E tab d (Undersampling m) = set_undersampling_mode d m"
| "config_exec E tab d (Limit l) = set_adc_limit d l"
| "config_exec E tab d (Sideband m) = set_sideband d m"
| "config_exec E tab d (Frequency f) = set_frequency d f"
| "config_exec E tab d (Passband l h) = set_bandpass d l h"
| "config_exec E tab d (Filters ok t) = set_bandpass_table ok d t"
| "config_exec E tab d (Streaming b) = Inr (map_option (\<lambda>d. d\<lparr>streaming := b\<rparr>) d, PG2SDR_SUCCESS)"
| "config_exec E tab d Apply = apply_changes E tab d"

primrec config_run ::
  "'u usb_env \<Rightarrow> p_i_table option \<Rightarrow> 'u device option \<Rightarrow> config_op list \<Rightarrow> 'u device option run" where
  "config_run E tab d [] = Inr d"
| "config_run E tab d (p # ps) = run_bind (config_exec E tab d p) (\<lambda>(d', e). config_run E tab d' ps)"

lemma apply_changes_inv:
  assumes inv: "config_inv tab d"
  shows "apply_changes E tab (Some d) = Inl Undefined_conversion \<or>
    (\<exists>d' e. apply_changes E tab (Some d) = Inr (Some d', e) \<and> config_inv tab d' \<and>
      (e < 0 \<and> (changing_rate d' \<or> changing_freq d' \<or> changing_bandpass d') \<or>
       e = PG2SDR_SUCCESS \<and> \<not> changing_freq d' \<and> \<not> changing_bandpass d' \<and> \<not> changing_rate d'))"
proof -
  note ok = with_dev_ok [OF config_inv_chk [OF inv]]
  have b: "\<exists>d' e. stage (changing_bandpass d) (apply_bandpass_change E) (\<lambda>d. d\<lparr>changing_bandpass := False\<rparr>)
          (\<lambda>d. Inr (d, PG2SDR_SUCCESS)) d = Inr (d', e) \<and> config_inv tab d' \<and>
        (e < 0 \<and> changing_bandpass d' \<or>
         e = PG2SDR_SUCCESS \<and> \<not> changing_freq d' \<and> \<not> changing_bandpass d' \<and> \<not> changing_rate d')"
    if "config_inv tab d" "\<not> changing_freq d" "\<not> changing_rate d" for d
    using apply_bandpass_change_inv [OF that(1) _ that(2), of E] that
    by (cases "changing_bandpass d") (auto simp: stage_def)
  let ?last = "\<lambda>d. stage (changing_bandpass d) (apply_bandpass_change E) (\<lambda>d. d\<lparr>changing_bandpass := False\<rparr>)
          (\<lambda>d. Inr (d, PG2SDR_SUCCESS)) d"
  have f: "stage (changing_freq d) (apply_freq_change E) (\<lambda>d. d\<lparr>changing_freq := False\<rparr>) ?last d = Inl Undefined_conversion \<or>
      (\<exists>d' e. stage (changing_freq d) (apply_freq_change E) (\<lambda>d. d\<lparr>changing_freq := False\<rparr>) ?last d = Inr (d', e) \<and>
        config_inv tab d' \<and> (e < 0 \<and> (changing_freq d' \<or> changing_bandpass d') \<or>
         e = PG2SDR_SUCCESS \<and> \<not> changing_freq d' \<and> \<not> changing_bandpass d' \<and> \<not> changing_rate d'))"
    if i: "config_inv tab d" and r: "\<not> changing_rate d" for d
  proof (cases "changing_freq d")
    case False
    then have "stage (changing_freq d) (apply_freq_change E) (\<lambda>d. d\<lparr>changing_freq := False\<rparr>) ?last d = ?last d"
      by (simp add: stage_def)
    then show ?thesis using b [OF i False r] by force
  next
    case True
    from apply_freq_change_inv [OF i True, of E] show ?thesis
    proof (elim disjE exE conjE)
      assume "apply_freq_change E d = Inl Undefined_conversion"
      then show ?thesis using True by (simp add: stage_def)
    next
      fix d' e
      assume ap: "apply_freq_change E d = Inr (d', e)" "changing_freq d'" "e < 0" "config_inv tab d'"
      then show ?thesis using True by (simp add: stage_def)
    next
      fix d' e
      assume ap: "apply_freq_change E d = Inr (d', e)" "changing_rate d' = changing_rate d" "e = PG2SDR_SUCCESS"
        "config_inv tab (d'\<lparr>changing_freq := False\<rparr>)"
      then have "stage (changing_freq d) (apply_freq_change E) (\<lambda>d. d\<lparr>changing_freq := False\<rparr>) ?last d =
          ?last (d'\<lparr>changing_freq := False\<rparr>)"
        using True by (simp add: stage_def)
      then show ?thesis using b [OF ap(4)] ap(2) r by force
    qed
  qed
  let ?rest = "\<lambda>d. stage (changing_freq d) (apply_freq_change E) (\<lambda>d. d\<lparr>changing_freq := False\<rparr>) ?last d"
  let ?fin = "\<lambda>d. d\<lparr>changing_rate := False, changing_freq := True, changing_bandpass := True\<rparr>"
  have r: "stage (changing_rate d) (apply_rate_change tab) ?fin ?rest d = Inl Undefined_conversion \<or>
      (\<exists>d' e. stage (changing_rate d) (apply_rate_change tab) ?fin ?rest d = Inr (d', e) \<and>
        config_inv tab d' \<and> (e < 0 \<and> (changing_rate d' \<or> changing_freq d' \<or> changing_bandpass d') \<or>
         e = PG2SDR_SUCCESS \<and> \<not> changing_freq d' \<and> \<not> changing_bandpass d' \<and> \<not> changing_rate d'))"
  proof (cases "changing_rate d")
    case False
    then have "stage (changing_rate d) (apply_rate_change tab) ?fin ?rest d = ?rest d"
      by (simp add: stage_def)
    then show ?thesis using f [OF inv False] by force
  next
    case True
    from apply_rate_change_inv [OF inv] obtain d' e where ap: "apply_rate_change tab d = Inr (d', e)"
      and res: "e < 0 \<and> d' = d \<or> e = PG2SDR_SUCCESS \<and> config_inv tab (?fin d')" by blast
    from res show ?thesis
    proof (elim disjE conjE)
      assume "e < 0" "d' = d"
      then show ?thesis using True inv ap by (simp add: stage_def)
    next
      assume e: "e = PG2SDR_SUCCESS" and i: "config_inv tab (?fin d')"
      then have "stage (changing_rate d) (apply_rate_change tab) ?fin ?rest d = ?rest (?fin d')"
        using True ap by (simp add: stage_def)
      then show ?thesis using f [OF i] by force
    qed
  qed
  then show ?thesis unfolding apply_changes_def ok by force
qed

lemma set_bandpass_table_config:
  "config_inv tab d \<Longrightarrow> \<exists>d' e. set_bandpass_table alloc (Some d) t = Inr (Some d', e) \<and> config_inv tab d'"
  by (cases t) (auto simp: set_bandpass_table_def config_defs)

lemma config_exec_inv:
  assumes inv: "config_inv tab d"
  shows "config_exec E tab (Some d) p = Inl Undefined_conversion \<or>
    (\<exists>d' e. config_exec E tab (Some d) p = Inr (Some d', e) \<and> config_inv tab d')"
proof -
  note ok = with_dev_ok [OF config_inv_chk [OF inv]]
  show ?thesis
  proof (cases p)
    case (Conversion m)
    then show ?thesis using inv
      by (cases m) (simp_all add: set_conversion_mode_def ok, (simp_all add: config_defs))
  next
    case (Buffer n)
    then show ?thesis using inv by (simp add: set_buffer_size_def ok) (simp add: config_defs)
  next
    case (Rate r)
    then show ?thesis using inv by (simp add: set_sample_rate_def ok) (simp add: config_defs)
  next
    case (Decimation m)
    then show ?thesis using inv by (simp add: set_decimation_mode_def ok) (simp add: config_defs)
  next
    case (Undersampling m)
    then show ?thesis using inv by (simp add: set_undersampling_mode_def ok) (simp add: config_defs)
  next
    case (Limit l)
    then show ?thesis using inv by (simp add: set_adc_limit_def ok) (simp add: config_defs)
  next
    case (Sideband m)
    then show ?thesis using inv by (cases m) (simp_all add: set_sideband_def ok, (simp_all add: config_defs))
  next
    case (Frequency f)
    then show ?thesis using inv by (simp add: set_frequency_def ok) (simp add: config_defs)
  next
    case (Passband l h)
    obtain l' h' where lh: "(if h < l then (h, l) else (l, h)) = (l', h')" by fastforce
    show ?thesis unfolding Passband config_exec.simps set_bandpass_def ok lh using inv
      by (simp add: Let_def) (simp add: config_defs)
  next
    case (Filters a t)
    then show ?thesis using set_bandpass_table_config [OF inv, of a t] by simp
  next
    case (Streaming b)
    then show ?thesis using inv by simp
  next
    case Apply
    then show ?thesis using apply_changes_inv [OF inv, of E] by auto
  qed
qed


subsection \<open>Settings with the same registers\<close>

lemma same_registers_near:
  assumes x: "0 < x" and c: "find_pll_parameters r x = Inr (PG2SDR_SUCCESS, Some c)"
    and c': "find_pll_parameters r' x = Inr (PG2SDR_SUCCESS, Some c')" and eq: "tuner_pll_config_equal c c'"
  shows "\<bar>pll_actual_frequency c' * of_int (pll_seldiv c) - pll_actual_frequency c * of_int (pll_seldiv c)\<bar>
    \<le> 4 / 2 ^ 18 * (2 * pll_ref_of x)"
proof (cases rule: find_pll_cases [of r x])
  case out_of_range
  then show ?thesis using c by simp
next
  case (in_range n sdm vco)
  note a = in_range
  show ?thesis
  proof (cases rule: find_pll_cases [of r' x])
    case out_of_range
    then show ?thesis using c' by simp
  next
    case (in_range n' sdm' vco')
    note a' = in_range
    define P where "P = pll_ref_of x"
    define k where "k = seldiv_loop r 1"
    have P: "0 < P" using x by (simp add: P_def pll_ref_pos)
    have cc: "c = \<lparr>pll_valid = True, pll_refdiv = refdiv_of x, pll_seldiv = 2 ^ k, pll_feedback_n = int n,
          pll_feedback_sdm = int (sdm div 4), pll_actual_vco = vco, pll_actual_frequency = rd (vco / 2 ^ k)\<rparr>"
      "c' = \<lparr>pll_valid = True, pll_refdiv = refdiv_of x, pll_seldiv = 2 ^ seldiv_loop r' 1, pll_feedback_n = int n',
          pll_feedback_sdm = int (sdm' div 4), pll_actual_vco = vco', pll_actual_frequency = rd (vco' / 2 ^ seldiv_loop r' 1)\<rparr>"
      using a(3) c a'(3) c' by (simp_all add: k_def)
    have same: "n' = n" "sdm div 4 = sdm' div 4" "seldiv_loop r' 1 = k"
      using eq unfolding cc tuner_pll_config_equal_def by simp_all
    have "\<bar>int sdm' - int sdm\<bar> \<le> 3" using same(2) by linarith
    then have "\<bar>of_int (int sdm' - int sdm)\<bar> \<le> (3 :: rat)" by linarith
    then have s: "\<bar>of_nat sdm' - of_nat sdm\<bar> \<le> (3 :: rat)" by simp
    have o: "\<bar>rd (vco / 2 ^ k) * 2 ^ k - 2 * P * (of_nat n + of_nat sdm / 2 ^ 18)\<bar> \<le> 1 / 2 ^ 30 * (2 * P)"
      "\<bar>rd (vco' / 2 ^ k) * 2 ^ k - 2 * P * (of_nat n + of_nat sdm' / 2 ^ 18)\<bar> \<le> 1 / 2 ^ 30 * (2 * P)"
      using output_accuracy [OF P a(6) a(8), of k] output_accuracy [OF P a'(6) a'(8), of k]
      by (simp_all only: a(4) a'(4) P_def same(1))
    have "\<bar>2 * P * (of_nat n + of_nat sdm' / 2 ^ 18) - 2 * P * (of_nat n + of_nat sdm / 2 ^ 18)\<bar> =
        \<bar>of_nat sdm' - of_nat sdm\<bar> * (2 * P / 2 ^ 18)"
    proof -
      have "2 * P * (of_nat n + of_nat sdm' / 2 ^ 18) - 2 * P * (of_nat n + of_nat sdm / 2 ^ 18) =
        (of_nat sdm' - of_nat sdm) * (2 * P / 2 ^ 18)" by (simp add: field_simps)
      then show ?thesis using P by (simp only: abs_mult) simp
    qed
    also have "... \<le> 3 * (2 * P / 2 ^ 18)" using s P by (intro mult_right_mono) simp_all
    finally have "\<bar>rd (vco' / 2 ^ k) * 2 ^ k - rd (vco / 2 ^ k) * 2 ^ k\<bar> \<le> 3 * (2 * P / 2 ^ 18) + 2 * (1 / 2 ^ 30 * (2 * P))"
      using o by linarith
    also have "... = (3 / 2 ^ 18 + 2 / 2 ^ 30) * (2 * P)" by (simp add: field_simps)
    also have "... \<le> 4 / 2 ^ 18 * (2 * P)" using P by (intro mult_right_mono) simp_all
    finally show ?thesis unfolding cc same by (simp add: P_def)
  qed
qed

end
