(* ===== verification/DeviceOpen.thy ===== *)
theory DeviceOpen
  imports Discovery ConfigFacts
begin

section \<open>Opening and closing a device (src/device.c)\<close>

text \<open>
  The default tables are generated files, a parameter. What the calls of pthread and libusb return is in \<open>open_results\<close>; the
  firmware answers through \<open>usb_env\<close> as everywhere. An opened device is its handle state and the blocks it owns.
\<close>

record default_tables =
  default_gain_table :: "gain_entry list"
  default_lna_table :: "double list"
  default_mix_table :: "double list"
  default_vga_table :: "double list"
  default_bandpass_table :: "bandpass_entry list"

record open_results =
  mutex_result :: int
  open_errno :: int
  open_result :: int
  set_configuration_result :: int
  claim_interface_result :: int

record 'u opened =
  od_dev :: "'u device"
  od_block :: nat
  od_serial :: nat
  od_ports :: nat
  od_gain_table :: nat
  od_bandpass_table :: nat

subsection \<open>build_device\<close>

definition no_adc_config :: adc_pll_config where
  "no_adc_config = \<lparr>adc_valid = False, adc_fractional = False, adc_n = 0, adc_m = 0, adc_p = 0, adc_i = 0, adc_error = 0,
     adc_actual_fcco = 0, adc_actual_frequency = 0\<rparr>"

definition no_tuner_config :: tuner_pll_config where
  "no_tuner_config = \<lparr>pll_valid = False, pll_refdiv = False, pll_seldiv = 0, pll_feedback_n = 0, pll_feedback_sdm = 0,
     pll_actual_vco = 0, pll_actual_frequency = 0\<rparr>"

text \<open>The zeroed handle with the fields set before it talks to the device.\<close>

definition blank_device :: "'u \<Rightarrow> string \<Rightarrow> string \<Rightarrow> 'u device" where
  "blank_device u ser por = \<lparr>dev_magic = MAGIC_DEV, ctx_magic = Some MAGIC_CTX, usb = u, serial = ser, ports = por, fw_version = 0,
     control_timeout_ms = 0, usb_samples_per_block = 0, usb_bytes_per_block = 0, streaming = False, conv_mode = MODE_LOWIF_REAL,
     adc_limit = 0, requested_sample_rate = 0, adc_config = no_adc_config, changing_rate = False, sideband = SIDEBAND_LOWER,
     requested_frequency = 0, tuner_config = no_tuner_config, changing_freq = False, requested_bandpass_low = 0,
     requested_bandpass_high = 0, changing_bandpass = False, buffer_size = 0, decimation_mode = 0, undersampling_mode = 0,
     lna_gain = 0, mix_gain = 0, vga_gain = 0, gain_table = [], lna_table = replicate 16 0, mix_table = replicate 16 0,
     vga_table = replicate 16 0, current_gain_entry = None, bandpass_table = [], current_bandpass_entry = None,
     usb_transfer_size = 0, adc_samples_per_transfer = 0, adc_samples_per_user_sample = 0, post_decimation = 0, tuner_xtal = 0\<rparr>"

text \<open>From the communications check to the initialised tuner.\<close>

definition probe_device :: "'u usb_env \<Rightarrow> 'u device \<Rightarrow> 'u device \<times> int" where
  "probe_device E d =
    (let (u, error) = ctrl_comms_check E (usb d) 0; d = d\<lparr>usb := u\<rparr>
     in if error < 0 then (d, error)
        else let (u, error, meta) = ctrl_get_metadata E (usb d) 0; d = d\<lparr>usb := u\<rparr>
             in case meta of
                  None \<Rightarrow> (d, error)
                | Some meta \<Rightarrow>
                    if PG2_CURRENT_VERSION (proto E) < md_compat meta then (d, PG2SDR_ERROR_FIRMWARE_MISMATCH)
                    else if md_version meta < PG2_COMPAT_VERSION (proto E) then (d, PG2SDR_ERROR_FIRMWARE_MISMATCH)
                    else let d = d\<lparr>fw_version := md_version meta, control_timeout_ms := unat (md_control_timeout_ms meta)\<rparr>;
                             (u, error, status) = ctrl_get_status E (usb d) False (control_timeout_ms d);
                             d = d\<lparr>usb := u\<rparr>
                         in case status of
                              None \<Rightarrow> (d, error)
                            | Some status \<Rightarrow>
                                init_tuner E (d\<lparr>conv_mode := MODE_BASEBAND, adc_limit := 28000000,
                                  requested_sample_rate := 0, adc_config := (adc_config d)\<lparr>adc_valid := False\<rparr>, changing_rate := False,
                                  requested_frequency := 0, sideband := SIDEBAND_LOWER,
                                  tuner_config := (tuner_config d)\<lparr>pll_valid := False\<rparr>, changing_freq := False,
                                  requested_bandpass_low := -100000000, requested_bandpass_high := 100000000, changing_bandpass := False,
                                  decimation_mode := -1, undersampling_mode := 1,
                                  usb_bytes_per_block := st_field status ST_usb_bytes_per_block,
                                  usb_samples_per_block := st_field status ST_usb_samples_per_block,
                                  tuner_xtal := st_field status ST_tuner_xtal, buffer_size := 262144\<rparr>))"

definition cleanup_nomutex :: "nat option \<Rightarrow> nat option \<Rightarrow> nat option \<Rightarrow> ledger \<Rightarrow> ledger run" where
  "cleanup_nomutex dev ser por L =
    run_bind (release dev L) (\<lambda>L. run_bind (release ser L) (release por))"

definition cleanup ::
  "nat option \<Rightarrow> nat option \<Rightarrow> bool \<Rightarrow> nat option \<Rightarrow> nat option \<Rightarrow> nat option \<Rightarrow> ledger \<Rightarrow> ledger run" where
  "cleanup bandpass gain usb_handle dev ser por L =
    run_bind (release bandpass L) (\<lambda>L.
      run_bind (release gain L) (\<lambda>L.
        let L = (if usb_handle then L\<lparr>handles := handles L - 1\<rparr> else L)
        in cleanup_nomutex dev ser por (L\<lparr>mutexes := mutexes L - 1\<rparr>)))"

definition fail_with :: "int \<Rightarrow> ledger run \<Rightarrow> (ledger \<times> (int + 'a)) run" where
  "fail_with error r = run_bind r (\<lambda>L. Inr (L, Inl error))"

definition load_tables ::
  "(gain_entry list \<Rightarrow> gain_entry list) \<Rightarrow> default_tables \<Rightarrow> nat \<Rightarrow> nat \<Rightarrow> nat \<Rightarrow> 'u device \<Rightarrow> ledger \<Rightarrow>
   (ledger \<times> (int + 'u opened)) run" where
  "load_tables qs T block ser por d L =
    (let (L, gain) = alloc L
     in run_bind (set_gain_tables (gain \<noteq> None) qs (Some d) (Some (default_gain_table T)) (Some (default_lna_table T))
          (Some (default_mix_table T)) (Some (default_vga_table T))) (\<lambda>(dev, error).
       if error < 0 then fail_with error (cleanup None gain True (Some block) (Some ser) (Some por) L)
       else let (L, bandpass) = alloc L
            in run_bind (set_bandpass_table (bandpass \<noteq> None) dev (Some (default_bandpass_table T))) (\<lambda>(dev, error).
              if error < 0 then fail_with error (cleanup bandpass gain True (Some block) (Some ser) (Some por) L)
              else case (dev, gain, bandpass) of
                (Some d, Some g, Some b) \<Rightarrow>
                  Inr (L, Inr \<lparr>od_dev = d, od_block = block, od_serial = ser, od_ports = por, od_gain_table = g, od_bandpass_table = b\<rparr>)
              | _ \<Rightarrow> Inl Null_dereference)))"

definition build_device ::
  "'u usb_env \<Rightarrow> (gain_entry list \<Rightarrow> gain_entry list) \<Rightarrow> default_tables \<Rightarrow> open_results \<Rightarrow> 'u \<Rightarrow>
   (nat \<times> string) option \<Rightarrow> (nat \<times> string) option \<Rightarrow> ledger \<Rightarrow> (ledger \<times> (int + 'u opened)) run" where
  "build_device E qs T R u serial_str ports_str L =
    (let sp = map_option fst serial_str; pp = map_option fst ports_str
     in case (serial_str, ports_str) of
       (Some (s, ser), Some (p, por)) \<Rightarrow>
         (case alloc L of
            (L, None) \<Rightarrow> fail_with PG2SDR_ERROR_NO_MEMORY (cleanup_nomutex None sp pp L)
          | (L, Some b) \<Rightarrow>
              if mutex_result R < 0 then fail_with (translate_errno (open_errno R)) (cleanup_nomutex (Some b) sp pp L)
              else let L = L\<lparr>mutexes := Suc (mutexes L)\<rparr>
                   in if open_result R < 0
                      then fail_with (translate_libusb_error (lu E) (open_result R)) (cleanup None None False (Some b) sp pp L)
                      else let L = L\<lparr>handles := Suc (handles L)\<rparr>
                           in if set_configuration_result R < 0
                              then fail_with (translate_libusb_error (lu E) (set_configuration_result R)) (cleanup None None True (Some b) sp pp L)
                              else if claim_interface_result R < 0
                              then fail_with (translate_libusb_error (lu E) (claim_interface_result R)) (cleanup None None True (Some b) sp pp L)
                              else let (d, error) = probe_device E (blank_device u ser por)
                                   in if error < 0 then fail_with error (cleanup None None True (Some b) sp pp L)
                                      else load_tables qs T b s p d L)
     | _ \<Rightarrow> fail_with PG2SDR_ERROR_NO_MEMORY (cleanup_nomutex None sp pp L))"

subsection \<open>Opening\<close>

definition open_device ::
  "'u usb_env \<Rightarrow> (gain_entry list \<Rightarrow> gain_entry list) \<Rightarrow> default_tables \<Rightarrow> open_results \<Rightarrow> pg_context option \<Rightarrow> 'u \<Rightarrow>
   usb_device option \<Rightarrow> bool \<Rightarrow> ledger \<Rightarrow> (ledger \<times> (int + 'u opened)) run" where
  "open_device E qs T R ctx u usb_dev has_out L =
    (if CHECK_CTX ctx < 0 then Inr (L, Inl (CHECK_CTX ctx))
     else case usb_dev of
       None \<Rightarrow> Inr (L, Inl PG2SDR_ERROR_BAD_ARGUMENT)
     | Some ud \<Rightarrow>
         if \<not> has_out then Inr (L, Inl PG2SDR_ERROR_BAD_ARGUMENT)
         else let (L, s) = strdup (snd (ud_serial ud)) L; (L, p) = strdup (snd (ud_ports ud)) L
              in build_device E qs T R u s p L)"

definition open_libusb_device ::
  "'u usb_env \<Rightarrow> (gain_entry list \<Rightarrow> gain_entry list) \<Rightarrow> default_tables \<Rightarrow> open_results \<Rightarrow> pg_context option \<Rightarrow> 'u \<Rightarrow>
   bus_device option \<Rightarrow> bool \<Rightarrow> ledger \<Rightarrow> (ledger \<times> (int + 'u opened)) run" where
  "open_libusb_device E qs T R ctx u lu_device has_out L =
    (if CHECK_CTX ctx < 0 then Inr (L, Inl (CHECK_CTX ctx))
     else case lu_device of
       None \<Rightarrow> Inr (L, Inl PG2SDR_ERROR_BAD_ARGUMENT)
     | Some bd \<Rightarrow>
         if \<not> has_out then Inr (L, Inl PG2SDR_ERROR_BAD_ARGUMENT)
         else let (L, s) = strdup_serial bd L
              in run_bind (strdup_ports bd L) (\<lambda>(L, p). build_device E qs T R u s p L))"

definition open_single_device ::
  "'u usb_env \<Rightarrow> usb_ids \<Rightarrow> (usb_device list \<Rightarrow> usb_device list) \<Rightarrow> (gain_entry list \<Rightarrow> gain_entry list) \<Rightarrow> default_tables \<Rightarrow> open_results \<Rightarrow>
   int + bus_device list \<Rightarrow> pg_context option \<Rightarrow> (nat \<Rightarrow> 'u) \<Rightarrow> string option \<Rightarrow> string option \<Rightarrow> bool \<Rightarrow> ledger \<Rightarrow>
   (ledger \<times> (int + 'u opened)) run" where
  "open_single_device E I dsort qs T R bus ctx u serial_prefix match_ports has_out L =
    run_bind (discover_devices (lu E) I dsort bus ctx True serial_prefix match_ports L) (\<lambda>(L, r).
      case r of
        Inl e \<Rightarrow> Inr (L, Inl e)
      | Inr (block, devices) \<Rightarrow>
          run_bind (case devices of
              [] \<Rightarrow> Inr (L, Inl PG2SDR_ERROR_NOT_FOUND)
            | [ud] \<Rightarrow> open_device E qs T R ctx (u (ud_lu ud)) (Some ud) has_out L
            | _ \<Rightarrow> Inr (L, Inl PG2SDR_ERROR_MULTIPLE_DEVICES))
            (\<lambda>(L, r). run_bind (free_device_list (Some (block, devices)) L) (\<lambda>L. Inr (L, r))))"

subsection \<open>Closing\<close>

definition close_device :: "'u usb_env \<Rightarrow> 'u opened \<Rightarrow> ledger \<Rightarrow> (ledger \<times> 'u opened \<times> int) run" where
  "close_device E od L =
    (let d = od_dev od
     in if CHECK_DEV (Some d) < 0 then Inr (L, od, CHECK_DEV (Some d))
        else if streaming d then Inr (L, od, PG2SDR_ERROR_BAD_STATE)
        else let (u, error) = ctrl_set_rf_power E (usb d) (RF_POWER_OFF (proto E)) (control_timeout_ms d)
             in run_bind (release (Some (od_gain_table od)) L) (\<lambda>L.
                  run_bind (release (Some (od_bandpass_table od)) L) (\<lambda>L.
                    run_bind (release (Some (od_block od)) (L\<lparr>handles := handles L - 1, mutexes := mutexes L - 1\<rparr>)) (\<lambda>L.
                      Inr (L, od\<lparr>od_dev := d\<lparr>usb := u, dev_magic := MAGIC_FREE\<rparr>\<rparr>, PG2SDR_SUCCESS)))))"

subsection \<open>Getters\<close>

definition valid_handle :: "'u device option \<Rightarrow> bool" where
  "valid_handle dev \<longleftrightarrow>
    (case dev of None \<Rightarrow> False | Some d \<Rightarrow> \<not> (ctx_magic d = None \<or> dev_magic d \<noteq> MAGIC_DEV \<or> ctx_magic d \<noteq> Some MAGIC_CTX))"

definition get_serial :: "'u device option \<Rightarrow> string option" where
  "get_serial dev = (if \<not> valid_handle dev then None else map_option serial dev)"

definition get_ports :: "'u device option \<Rightarrow> string option" where
  "get_ports dev = (if \<not> valid_handle dev then None else map_option ports dev)"

definition get_firmware_version :: "'u device option \<Rightarrow> u32" where
  "get_firmware_version dev = (case dev of None \<Rightarrow> 0 | Some d \<Rightarrow> if \<not> valid_handle dev then 0 else fw_version d)"

end
