(* ===== verification/TunerFacts.thy ===== *)
theory TunerFacts
  imports TunerCtl
begin

section \<open>Properties of the tuner operations (src/tuner.c)\<close>

text \<open>
  The gains cached in the handle against those in the tuner's registers, and the registers after \<open>init_tuner\<close>.
\<close>

definition gains_coherent :: "'u device \<Rightarrow> (nat \<Rightarrow> u8) \<Rightarrow> bool" where
  "gains_coherent dev regs \<longleftrightarrow> lna_gain dev \<le> 15 \<and> mix_gain dev \<le> 15 \<and> vga_gain dev \<le> 15 \<and>
     unat (field_of LNA_GAIN regs) = lna_gain dev \<and> unat (field_of MIX_GAIN regs) = mix_gain dev \<and>
     unat (field_of VGA_GAIN regs) = vga_gain dev"

lemma gain_fields_props [simp]:
  "writable LNA_GAIN" "writable MIX_GAIN" "writable VGA_GAIN"
  "fields_disjoint LNA_GAIN MIX_GAIN" "fields_disjoint LNA_GAIN VGA_GAIN"
  "fields_disjoint MIX_GAIN LNA_GAIN" "fields_disjoint MIX_GAIN VGA_GAIN"
  "fields_disjoint VGA_GAIN LNA_GAIN" "fields_disjoint VGA_GAIN MIX_GAIN"
  by (simp_all add: writable_def fields_disjoint_def REG_BITS_def)

lemma written_gain:
  assumes "0 \<le> g" "g \<le> 15"
  shows "unat (written LNA_GAIN (of_int g)) = nat g" "unat (written MIX_GAIN (of_int g)) = nat g"
    "unat (written VGA_GAIN (of_int g)) = nat g"
proof -
  have "uint (of_int g :: u32) = g" using assms by (simp add: take_bit_int_eq_self unsigned_of_int)
  then show "unat (written LNA_GAIN (of_int g)) = nat g" "unat (written MIX_GAIN (of_int g)) = nat g"
    "unat (written VGA_GAIN (of_int g)) = nat g"
    using assms by (simp_all add: unat_eq_nat_uint uint_written)
qed

lemma length_gains_change_set [simp]: "length (gains_change_set dev l m v) = 32"
  by (simp add: gains_change_set_def Let_def)

lemma gains_change_set_fields:
  fixes dev :: "'u device"
  assumes "gains_coherent dev regs" "l \<le> 15" "m \<le> 15" "v \<le> 15"
  defines "regs' \<equiv> apply_change_set (gains_change_set dev l m v) regs"
  shows "unat (field_of LNA_GAIN regs') = (if 0 \<le> l then nat l else lna_gain dev)"
    "unat (field_of MIX_GAIN regs') = (if 0 \<le> m then nat m else mix_gain dev)"
    "unat (field_of VGA_GAIN regs') = (if 0 \<le> v then nat v else vga_gain dev)"
  using assms
  by (auto simp: regs'_def gains_change_set_def Let_def gains_coherent_def field_of_set_same
      field_of_set_other written_gain)

lemma init_payload_length [simp]: "init_payload_bytes \<noteq> []"
  by (simp add: init_payload_bytes_def)

lemma init_payload_fields:
  assumes "(f, v) \<in> set init_tuner_fields"
  shows "field_of f (apply_payload 5 init_payload_bytes regs) = written f v"
proof -
  have "apply_payload 5 init_payload_bytes regs =
      apply_change_set (set_fields empty_change_set init_tuner_fields) regs"

    by (rule ext) (rule apply_payload_prepare [OF init_payload], simp)
  then show ?thesis
    using field_of_set_fields [OF _ init_fields_writable init_fields_disjoint assms] by simp
qed

text \<open>
  The tuner on the other side of the cable: \<open>regs u\<close> are its registers when the world is in state \<open>u\<close>. What is assumed of the
  firmware: an update of the tuner writes the registers its payload names, under its masks, if and only if the whole transfer is
  acknowledged; and a query of the board's status writes none.
\<close>

definition tuner_follows :: "'u usb_env \<Rightarrow> ('u \<Rightarrow> nat \<Rightarrow> u8) \<Rightarrow> bool" where
  "tuner_follows E regs \<longleftrightarrow> (\<forall>u s. let (u', count, data) = libusb_control_transfer E u s in
     (req_kind s = Vendor_device \<and> \<not> dir_in s \<and> bRequest s = EP0_OUT_TUNER_UPDATE (proto E) \<longrightarrow>
        regs u' = (if count = uint (wLength s) then apply_payload (unat (wValue s)) (out_data s) (regs u) else regs u)) \<and>
     (req_kind s = Vendor_device \<and> dir_in s \<and> bRequest s = EP0_IN_BOARD_STATUS (proto E) \<longrightarrow> regs u' = regs u))"

lemma control_out_follows:
  assumes "tuner_follows E regs" "control_out E u (EP0_OUT_TUNER_UPDATE (proto E)) val idx data t = (u', e)"
  shows "regs u' = (if e = PG2SDR_SUCCESS then apply_payload (unat val) data (regs u) else regs u)"
proof -
  define s where "s = \<lparr>req_kind = Vendor_device, dir_in = False, bRequest = EP0_OUT_TUNER_UPDATE (proto E), wValue = val, wIndex = idx,
    out_data = data, wLength = of_nat (length data), ctrl_timeout = (if t \<noteq> 0 then t else DEFAULT_CONTROL_TIMEOUT)\<rparr>"
  obtain u1 count d where tr: "libusb_control_transfer E u s = (u1, count, d)" by (metis prod_cases3)
  have r: "regs u1 = (if count = uint (of_nat (length data) :: u16) then apply_payload (unat val) data (regs u) else regs u)"
    using assms(1) [unfolded tuner_follows_def, rule_format, of u s] tr by (simp add: s_def)
  have "translate_libusb_error (lu E) count < 0" if "count < 0" using translate_libusb_error_neg that by simp
  then show ?thesis
    using assms(2) tr r unfolding control_out_def s_def [symmetric] by (auto split: if_splits)
qed

lemma refine_follows:
  assumes "tuner_follows E regs" "libusb_documented (lu E)" "e \<le> 0" "refine_tuner_error E u e t = (u', e')"
  shows "regs u' = regs u \<and> (e' = PG2SDR_SUCCESS \<longleftrightarrow> e = PG2SDR_SUCCESS)"
proof -
  define s where "s = \<lparr>req_kind = Vendor_device, dir_in = True, bRequest = EP0_IN_BOARD_STATUS (proto E), wValue = 0, wIndex = 0,
    out_data = [], wLength = of_nat (status_size (proto E)), ctrl_timeout = (if t \<noteq> 0 then t else DEFAULT_CONTROL_TIMEOUT)\<rparr>"
  obtain u1 count d where tr: "libusb_control_transfer E u s = (u1, count, d)" by (metis prod_cases3)
  have same: "regs u1 = regs u"
    using assms(1) [unfolded tuner_follows_def, rule_format, of u s] tr by (simp add: s_def)
  have "PG2SDR_ERROR_LIBUSB_MIN - LIBUSB_ERROR_PIPE (lu E) \<noteq> PG2SDR_SUCCESS"
    using assms(2) by (auto simp: libusb_documented_def libusb_codes_def)
  moreover obtain u2 e2 st where st: "ctrl_get_status E u False t = (u2, e2, st)" by (metis prod_cases3)
  moreover have "regs u2 = regs u"
    using tr [unfolded s_def] same st by (cases "t = 0") (auto simp: ctrl_get_status_def control_in_def split: if_splits)
  ultimately show ?thesis
    using assms(4) by (auto simp: refine_tuner_error_def split: if_splits option.splits)
qed

lemma apply_tuner_changeset_follows:
  assumes f: "tuner_follows E regs" "libusb_documented (lu E)" and cs: "length cs = 32"
    and ap: "apply_tuner_changeset E dev cs = (dev', e)"
  shows "regs (usb dev') = (if e = PG2SDR_SUCCESS then apply_change_set cs (regs (usb dev)) else regs (usb dev))"
proof -
  obtain cs' first p where prep: "prepare_tuner_payload cs = (cs', first, p)" by (rule prod_cases3)
  have all: "apply_payload first p r = apply_change_set cs r" for r
    by (rule ext) (rule apply_payload_prepare [OF prep cs])
  show ?thesis
  proof (cases "p = []")
    case True
    then have "apply_payload first p r = r" for r by (intro ext) (auto simp: apply_payload_def)
    then show ?thesis using ap prep True by (simp add: apply_tuner_changeset_def flip: all)
  next
    case False
    have "first < 32" using prep by (cases rule: prepare_cases) simp_all
    then have w: "unat (of_nat first :: u16) = first" by (intro unat_of_nat_small) simp
    obtain u1 e1 where co: "control_out E (usb dev) (EP0_OUT_TUNER_UPDATE (proto E)) (of_nat first) 0 p (control_timeout_ms dev) = (u1, e1)"
      by fastforce
    obtain u2 e2 where re: "refine_tuner_error E u1 e1 (control_timeout_ms dev) = (u2, e2)" by fastforce
    have "e1 \<le> 0" using control_out_le_0 co by (metis snd_conv)
    moreover have "dev' = dev\<lparr>usb := u2\<rparr>" "e = e2"
      using ap prep False co re by (simp_all add: apply_tuner_changeset_def ctrl_tuner_update_def tuner_control_out_def)
    ultimately show ?thesis
      using control_out_follows [OF f(1) co] refine_follows [OF f _ re] w by (simp add: all)
  qed
qed

text \<open>
  Setting the gains: only those that differ from the cache are sent, and the tuner still ends up with the gains that are cached,
  whether the update succeeds or fails.
\<close>

lemma tuner_set_gains_follows:
  fixes dev :: "'u device"
  assumes f: "tuner_follows E regs" "libusb_documented (lu E)"
    and coh: "gains_coherent dev (regs (usb dev))" and range: "l \<le> 15" "m \<le> 15" "v \<le> 15"
    and run: "tuner_set_gains E dev l m v = Inr (dev', error)"
  shows "gains_coherent dev' (regs (usb dev'))"
proof -
  obtain d e where ap: "apply_tuner_changeset E dev (gains_change_set dev l m v) = (d, e)" by fastforce
  note r = apply_tuner_changeset_follows [OF f length_gains_change_set ap]
  note fr = apply_tuner_changeset_frame [OF ap]
  have u: "usb dev' = usb d" "error = e"
    using run range ap fr(2) by (auto simp: tuner_set_gains_def Let_def split: if_splits)
  note fields = gains_change_set_fields [OF coh range]
  from tuner_set_gains_result [OF range run] show ?thesis
  proof (elim disjE conjE)
    assume e: "error = PG2SDR_SUCCESS" and d: "dev' = dev\<lparr>usb := usb dev', lna_gain := (if 0 \<le> l then nat l else lna_gain dev),
        mix_gain := (if 0 \<le> m then nat m else mix_gain dev),
        vga_gain := (if 0 \<le> v then nat v else vga_gain dev)\<rparr>"
    have "lna_gain dev' = (if 0 \<le> l then nat l else lna_gain dev)"
      "mix_gain dev' = (if 0 \<le> m then nat m else mix_gain dev)"
      "vga_gain dev' = (if 0 \<le> v then nat v else vga_gain dev)" by (subst d, simp)+
    then show ?thesis using fields coh range r e unfolding u by (auto simp: gains_coherent_def)
  next
    assume e: "error \<noteq> PG2SDR_SUCCESS" and d: "dev' = dev\<lparr>usb := usb dev'\<rparr>"
    have "lna_gain dev' = lna_gain dev" "mix_gain dev' = mix_gain dev" "vga_gain dev' = vga_gain dev" by (subst d, simp)+
    then show ?thesis using coh r e unfolding u by (simp add: gains_coherent_def)
  qed
qed

text \<open>A device whose every read answers 0x96, the identity of the tuner.\<close>

definition tuner_env :: "unit usb_env" where
  "tuner_env = accepting_env\<lparr>libusb_control_transfer :=
       (\<lambda>u s. (u, uint (wLength s), if dir_in s then replicate (unat (wLength s)) 0x96 else []))\<rparr>"

text \<open>Note: a successful \<open>init_tuner\<close> has reset the RF power, has read the id 0x96
  from the tuner, and has sent one payload, after which every one of the 113 fields that the code sets holds
  the value the code gives for it, whatever the registers held before.\<close>

theorem init_tuner_registers:
  assumes run: "init_tuner E dev = (dev', PG2SDR_SUCCESS)"
  shows "\<exists>u1 u2 u3.
    ctrl_set_rf_power E (usb dev) (RF_POWER_RESET (proto E)) (control_timeout_ms dev) = (u1, PG2SDR_SUCCESS) \<and>
    read_tuner_bits E (dev\<lparr>usb := u1\<rparr>) TUNER_ID = (dev\<lparr>usb := u2\<rparr>, 0x96) \<and>
    ctrl_tuner_update E u2 5 init_payload_bytes (control_timeout_ms dev) = (u3, PG2SDR_SUCCESS) \<and>
    dev' = dev\<lparr>lna_gain := 0, mix_gain := 0, vga_gain := 0, usb := u3\<rparr> \<and>
    (\<forall>(f, v) \<in> set init_tuner_fields. field_of f (apply_payload 5 init_payload_bytes regs) = written f v)"
proof -
  obtain u1 e1 where rf: "ctrl_set_rf_power E (usb dev) (RF_POWER_RESET (proto E)) (control_timeout_ms dev) = (u1, e1)"
    by fastforce
  have "e1 \<le> 0" using control_out_le_0 rf unfolding ctrl_set_rf_power_def by (metis snd_conv)
  obtain d2 i where rd: "read_tuner_bits E (dev\<lparr>usb := u1\<rparr>) TUNER_ID = (d2, i)" by fastforce
  then obtain u2 where d2: "d2 = dev\<lparr>usb := u2\<rparr>"
    by (auto simp: read_tuner_bits_def Let_def split: prod.splits if_splits)
  have "\<not> e1 < 0" "i = 0x96" and
      up: "apply_tuner_changeset E (d2\<lparr>lna_gain := 0, mix_gain := 0, vga_gain := 0\<rparr>) (set_fields empty_change_set init_tuner_fields) = (dev', 0)"
    using run rf rd by (auto simp: init_tuner_def Let_def split: if_splits)
  with \<open>e1 \<le> 0\<close> have "e1 = PG2SDR_SUCCESS" by simp
  obtain u3 e3 where tu: "ctrl_tuner_update E u2 5 init_payload_bytes (control_timeout_ms dev) = (u3, e3)"
    by fastforce
  have "dev' = dev\<lparr>lna_gain := 0, mix_gain := 0, vga_gain := 0, usb := u3\<rparr>" "e3 = PG2SDR_SUCCESS"
    using up tu by (simp_all add: apply_tuner_changeset_def init_payload d2 init_payload_length Let_def)
  moreover have "\<forall>(f, v) \<in> set init_tuner_fields. field_of f (apply_payload 5 init_payload_bytes regs) = written f v"
    using init_payload_fields by auto
  ultimately show ?thesis using rf rd tu d2 \<open>e1 = PG2SDR_SUCCESS\<close> \<open>i = 0x96\<close> by blast
qed

theorem init_tuner_registers_witness:
  "\<exists>u1 u2 u3.
    ctrl_set_rf_power tuner_env () 2 1000 = (u1, PG2SDR_SUCCESS) \<and>
    read_tuner_bits tuner_env (sample_device\<lparr>usb := u1\<rparr>) TUNER_ID = (sample_device\<lparr>usb := u2\<rparr>, 0x96) \<and>
    ctrl_tuner_update tuner_env u2 5 init_payload_bytes 1000 = (u3, PG2SDR_SUCCESS)"
proof -
  define d where "d = sample_device"
  have rd: "read_tuner_bits tuner_env d TUNER_ID = (d, 0x96)" unfolding d_def by code_simp
  have rf: "ctrl_set_rf_power tuner_env () (RF_POWER_RESET (proto tuner_env)) 1000 = ((), PG2SDR_SUCCESS)" by code_simp
  have up: "ctrl_tuner_update tuner_env () 5 init_payload_bytes 1000 = ((), PG2SDR_SUCCESS)" by code_simp
  have d: "control_timeout_ms d = 1000" "d\<lparr>usb := ()\<rparr> = d" "d\<lparr>lna_gain := 0, mix_gain := 0, vga_gain := 0\<rparr> = d" "usb d = ()"
    by (simp_all add: d_def sample_device_def)
  have "apply_tuner_changeset tuner_env d (set_fields empty_change_set init_tuner_fields) = (d, PG2SDR_SUCCESS)"
    unfolding apply_tuner_changeset_def init_payload using up by (simp add: d)
  then have run: "init_tuner tuner_env d = (d, PG2SDR_SUCCESS)"
    unfolding init_tuner_def d(1,4) rf Let_def prod.case d(2) rd d(3) by simp
  show ?thesis
    using init_tuner_registers [OF run [unfolded d_def], of "\<lambda>_. 0"]
    by (simp add: tuner_env_def accepting_env_def sample_protocol_def sample_device_def)
qed

text \<open>After \<open>init_tuner\<close> the gains are 0, in the cache and in the tuner.\<close>

lemma init_tuner_follows:
  assumes f: "tuner_follows E regs" "libusb_documented (lu E)" and run: "init_tuner E dev = (dev', PG2SDR_SUCCESS)"
  shows "gains_coherent dev' (regs (usb dev'))"
proof -
  obtain d2 where ap: "apply_tuner_changeset E (d2\<lparr>lna_gain := 0, mix_gain := 0, vga_gain := 0\<rparr>)
      (set_fields empty_change_set init_tuner_fields) = (dev', PG2SDR_SUCCESS)"
    using run by (auto simp: init_tuner_def Let_def split: prod.splits if_splits)
  have z: "lna_gain dev' = 0" "mix_gain dev' = 0" "vga_gain dev' = 0"
    by (subst apply_tuner_changeset_frame(1) [OF ap], simp)+
  have "regs (usb dev') = apply_change_set (set_fields empty_change_set init_tuner_fields) (regs (usb d2))"
    using apply_tuner_changeset_follows [OF f _ ap] by simp
  moreover have "(LNA_GAIN, 0) \<in> set init_tuner_fields" "(MIX_GAIN, 0) \<in> set init_tuner_fields" "(VGA_GAIN, 0) \<in> set init_tuner_fields"
    by (simp_all add: init_tuner_fields_def)
  ultimately show ?thesis
    using written_gain [of 0] field_of_set_fields [OF _ init_fields_writable init_fields_disjoint]
    by (simp add: gains_coherent_def z)
qed

text \<open>A tuner that is nothing but its registers, and acknowledges every update but those of the VGA.\<close>

definition register_env :: "(nat \<Rightarrow> u8) usb_env" where
  "register_env = \<lparr>libusb_control_transfer = (\<lambda>regs s.
      if \<not> dir_in s \<and> bRequest s = EP0_OUT_TUNER_UPDATE sample_protocol
      then if wValue s = 12 then (regs, LIBUSB_ERROR_TIMEOUT libusb_1_0, [])
           else (apply_payload (unat (wValue s)) (out_data s) regs, uint (wLength s), [])
      else (regs, uint (wLength s), if dir_in s then replicate (unat (wLength s)) 0x96 else [])),
    lu = libusb_1_0, proto = sample_protocol\<rparr>"

lemma register_env_follows: "tuner_follows register_env (\<lambda>regs. regs)"
proof -
  have "LIBUSB_ERROR_TIMEOUT libusb_1_0 \<noteq> uint (w :: u16)" for w
  proof
    assume "LIBUSB_ERROR_TIMEOUT libusb_1_0 = uint w"
    then have "0 \<le> LIBUSB_ERROR_TIMEOUT libusb_1_0" by simp
    then show False by (simp add: libusb_1_0_def)
  qed
  then show ?thesis by (simp add: tuner_follows_def register_env_def)
qed

text \<open>Note: below about 1.5 GHz the VCO DAC value computed by \<open>configure_pll_settings\<close> is negative, and
  its conversion to \<open>uint8_t\<close> is undefined in C; the clamps that follow come too late. The
  witness reaches it from a request that \<open>find_pll_parameters\<close> accepts (10 MHz with the 28.8 MHz
  crystal).\<close>

theorem low_vco_undefined:
  assumes vco: "pll_actual_vco p \<le> 1500000000" and sd: "seldiv_index (pll_seldiv p) \<noteq> 255"
  shows "configure_pll_settings E dev p = Inl Undefined_conversion"
proof -
  have k: "rd (1500000000 * rd (318 / 10 ^ 10)) \<le> 48" by code_simp
  have pos: "0 \<le> rd (318 / 10 ^ 10)" by (rule dbl.rnd_nonneg) simp
  have "rd (pll_actual_vco p * rd (318 / 10 ^ 10)) \<le> 48"
    using dbl.rnd_mono [OF mult_right_mono [OF vco pos]] k by linarith
  then have "rd (rd (pll_actual_vco p * rd (318 / 10 ^ 10)) - 49) \<le> rd (of_int (- 1))"
    by (intro dbl.rnd_mono) simp
  also have "... = - 1" by (subst rd_of_int) simp_all
  finally have "c_round (rd (rd (pll_actual_vco p * rd (318 / 10 ^ 10)) - 49)) \<le> - 1"
    by (simp add: c_round_def le_floor_iff)
  then have "vco_dac (pll_actual_vco p) = Inl Undefined_conversion"
    by (simp add: vco_dac_def to_unsigned_def)
  then show ?thesis using sd by (simp add: configure_pll_settings_def)
qed

theorem low_vco_undefined_witness:
  "\<exists>c. find_pll_parameters 10000000 28800000 = Inr (PG2SDR_SUCCESS, Some c) \<and>
     configure_pll_settings accepting_env sample_device c = Inl Undefined_conversion"
proof -
  define c where "c = \<lparr>pll_valid = True, pll_refdiv = True, pll_seldiv = 64, pll_feedback_n = 22,
     pll_feedback_sdm = 14563, pll_actual_vco = 163839965625 / 256,
     pll_actual_frequency = 163839965625 / 16384\<rparr>"
  have p: "find_pll_parameters 10000000 28800000 = Inr (PG2SDR_SUCCESS, Some c)"
    unfolding c_def by code_simp
  have "seldiv_index (pll_seldiv c) \<noteq> 255" unfolding c_def by code_simp
  then have "configure_pll_settings accepting_env sample_device c = Inl Undefined_conversion"
    by (intro low_vco_undefined) (simp_all add: c_def)
  with p show ?thesis by blast
qed

end
