(* ===== verification/PllFacts.thy ===== *)
theory PllFacts
  imports DeviceOpen TunerFacts
begin

section \<open>Properties of the tuner PLL (src/tuner.c)\<close>

text \<open>
  What \<open>find_pll_parameters\<close> returns and how accurate it is, and that the registers written decode to it.
\<close>

text \<open>Note: \<open>find_pll_parameters\<close> never performs an undefined conversion. It
  fails with \<open>TUNER_PLL_RANGE\<close> exactly when the feedback ratio is outside [13, 269), and otherwise
  returns settings with: an output divider in the table \<open>configure_pll_settings\<close> looks it up in (so
  that function's assertion holds), the smallest one that brings the VCO to 1750 MHz if any does; a
  feedback divider in [13, 269]; a fraction that fits its two registers and is kept away from the
  integer boundaries.\<close>

theorem find_pll_parameters_ok:
  "find_pll_parameters requested xtal = Inr (PG2SDR_ERROR_TUNER_PLL_RANGE, None) \<and>
     (pll_feedback_of requested xtal < 13 \<or> 269 \<le> pll_feedback_of requested xtal)
   \<or> (\<exists>c. find_pll_parameters requested xtal = Inr (PG2SDR_SUCCESS, Some c) \<and>
        13 \<le> pll_feedback_of requested xtal \<and> pll_feedback_of requested xtal < 269 \<and>
        seldiv_index (pll_seldiv c) \<noteq> 255 \<and>
        (rd (requested * of_int (pll_seldiv c)) < VCO_MIN \<longrightarrow> pll_seldiv c = 64) \<and>
        (\<forall>j. 1 \<le> j \<and> (2 :: int) ^ j < pll_seldiv c \<longrightarrow> rd (requested * 2 ^ j) < VCO_MIN) \<and>
        13 \<le> pll_feedback_n c \<and> pll_feedback_n c \<le> 269 \<and>
        (pll_feedback_sdm c = 0 \<or> 2 \<le> pll_feedback_sdm c \<and> pll_feedback_sdm c \<le> 65534) \<and>
        (pll_feedback_n c = 269 \<longrightarrow> pll_feedback_sdm c = 0))"
proof (cases rule: find_pll_cases [of requested xtal])
  case out_of_range
  then show ?thesis by blast
next
  case (in_range n sdm vco)
  define k where "k = seldiv_loop requested 1"
  have k: "1 \<le> k \<and> k \<le> 6 \<and> (rd (requested * 2 ^ k) < VCO_MIN \<longrightarrow> k = 6) \<and>
     (\<forall>j. 1 \<le> j \<and> j < k \<longrightarrow> rd (requested * 2 ^ j) < VCO_MIN)"
    using seldiv_loop_1 [of requested] by (simp add: k_def)
  have "seldiv_index (2 ^ k) \<noteq> 255" using k seldiv_index_seldiv [of k] by auto
  moreover have "rd (requested * of_int (2 ^ k)) < VCO_MIN \<longrightarrow> (2 :: int) ^ k = 64"
    using k by auto
  moreover have "\<forall>j. 1 \<le> j \<and> (2 :: int) ^ j < 2 ^ k \<longrightarrow> rd (requested * 2 ^ j) < VCO_MIN"
    using k by auto
  moreover have "int (sdm div 4) = 0 \<or> 2 \<le> int (sdm div 4) \<and> int (sdm div 4) \<le> 65534"
    using in_range(9) by auto
  ultimately show ?thesis
    using in_range(1,2,3,5,6,7) by (simp add: k_def)
qed

theorem find_pll_parameters_ok_witness:
  "\<exists>c. find_pll_parameters 1090000000 28800000 = Inr (PG2SDR_SUCCESS, Some c) \<and>
     seldiv_index (pll_seldiv c) \<noteq> 255 \<and> 13 \<le> pll_feedback_n c \<and> pll_feedback_n c \<le> 269"
proof -
  have "\<not> (pll_feedback_of 1090000000 28800000 < 13 \<or> 269 \<le> pll_feedback_of 1090000000 28800000)"
    by code_simp
  then show ?thesis using find_pll_parameters_ok [of 1090000000 28800000] by blast
qed

text \<open>C29: whenever settings are found for a positive crystal frequency, the frequency
  the PLL will produce differs from the requested one by at most 11 steps of the 18-bit fraction at
  the output, every rounding of the computation included.\<close>

theorem find_pll_accuracy:
  assumes x: "0 < xtal" and ok: "find_pll_parameters requested xtal = Inr (PG2SDR_SUCCESS, Some c)"
  shows "\<bar>pll_actual_frequency c * of_int (pll_seldiv c) - requested * of_int (pll_seldiv c)\<bar>
    \<le> 11 / 2 ^ 18 * (2 * pll_ref_of xtal)"
  using assms by (rule find_pll_error)

theorem find_pll_accuracy_witness:
  "\<exists>c. find_pll_parameters 1090000000 28800000 = Inr (PG2SDR_SUCCESS, Some c) \<and>
    \<bar>pll_actual_frequency c * of_int (pll_seldiv c) - 1090000000 * of_int (pll_seldiv c)\<bar>
    \<le> 11 / 2 ^ 18 * (2 * pll_ref_of 28800000)"
proof -
  have p: "find_pll_parameters 1090000000 28800000 = Inr (PG2SDR_SUCCESS, Some
      \<lparr>pll_valid = True, pll_refdiv = True, pll_seldiv = 2, pll_feedback_n = 75,
       pll_feedback_sdm = 45511, pll_actual_vco = 558080015625 / 256,
       pll_actual_frequency = 558080015625 / 512\<rparr>)"
    by code_simp
  show ?thesis using p find_pll_accuracy [OF _ p] by auto
qed

text \<open>The payload built from settings with a feedback divider of at most 268 leaves fields that decode to them.\<close>

lemma pll_payload_decodes:
  assumes find: "find_pll_parameters requested xtal = Inr (PG2SDR_SUCCESS, Some c)"
    and n: "pll_feedback_n c \<le> 268"
    and prep: "prepare_tuner_payload (set_fields empty_change_set (pll_fields sb c d)) = (cs', first, payload)"
    and regs': "regs' = apply_payload first payload regs"
  shows "13 + 4 * uint (field_of N_I2C regs') + uint (field_of S_I2C regs') = pll_feedback_n c
    \<and> 256 * uint (field_of SDM_IN_MSB regs') + uint (field_of SDM_IN_LSB regs') = pll_feedback_sdm c
    \<and> 2 ^ Suc (unat (field_of SEL_DIV regs')) = pll_seldiv c
    \<and> uint (field_of PWD_SDM regs') = (if pll_feedback_sdm c = 0 then 1 else 0)
    \<and> uint (field_of REF_DIV2 regs') = (if pll_refdiv c then 1 else 0)
    \<and> uint (field_of IMG_R regs') = (if sb = SIDEBAND_UPPER then 1 else 0)
    \<and> uint (field_of VCO_DAC regs') = uint d mod 64"
proof (cases rule: find_pll_cases [of requested xtal])
  case out_of_range
  with find show ?thesis by simp
next
  case (in_range m sdm vco)
  define k where "k = seldiv_loop requested 1"
  have k: "1 \<le> k" "k \<le> 6" using seldiv_loop_1 [of requested] by (simp_all add: k_def)
  have c: "pll_feedback_n c = int m" "pll_feedback_sdm c = int (sdm div 4)" "pll_seldiv c = 2 ^ k"
    using find in_range(3) by (auto simp: k_def)
  have m: "13 \<le> m" "m \<le> 268" using n c in_range(5) by simp_all
  have s: "sdm div 4 < 65536" using in_range(8) by simp
  have fv: "(f, v) \<in> set (pll_fields sb c d) \<Longrightarrow> field_of f regs' = written f v" for f v
    unfolding regs' by (rule pll_field_value [OF prep])
  have vals:
    "field_of N_I2C regs' = written N_I2C (ucast (of_int ((pll_feedback_n c - 13) sdiv 4) :: u8))"
    "field_of S_I2C regs' = written S_I2C (ucast (of_int ((pll_feedback_n c - 13) AND 3) :: u8))"
    "field_of SDM_IN_LSB regs' = written SDM_IN_LSB (ucast (of_int (pll_feedback_sdm c AND 0xff) :: u8))"
    "field_of SDM_IN_MSB regs' =
       written SDM_IN_MSB (ucast (of_int (drop_bit 8 (pll_feedback_sdm c) AND 0xff) :: u8))"
    "field_of SEL_DIV regs' = written SEL_DIV (of_nat (seldiv_index (pll_seldiv c)))"
    "field_of PWD_SDM regs' = written PWD_SDM (if pll_feedback_sdm c = 0 then 1 else 0)"
    "field_of REF_DIV2 regs' = written REF_DIV2 (if pll_refdiv c then 1 else 0)"
    "field_of IMG_R regs' = written IMG_R (if sb = SIDEBAND_UPPER then 1 else 0)"
    "field_of VCO_DAC regs' = written VCO_DAC (ucast d)"
    by (rule fv; simp add: pll_fields_def)+
  have m': "13 \<le> m" "m \<le> 269" using m by simp_all
  have 1: "uint (field_of N_I2C regs') = int ((m - 13) div 4)"
  proof -
    have "(m - 13) div 4 < 64" using m by simp
    then have "int ((m - 13) div 4) < 64" "(m - 13) div 4 < 256" by simp_all
    then show ?thesis
      unfolding vals c(1) feedback_fields [OF m']
      by (simp add: uint_written uint_ucast_u8 uint_of_nat_u8)
  qed
  have 2: "uint (field_of S_I2C regs') = int ((m - 13) mod 4)"
    unfolding vals c(1) feedback_fields [OF m']
    by (simp add: uint_written uint_ucast_u8 uint_of_nat_u8)
  have 3: "uint (field_of SDM_IN_LSB regs') = int ((sdm div 4) mod 256)"
    "uint (field_of SDM_IN_MSB regs') = int (sdm div 4 div 256)"
    unfolding vals c(2) sdm_bytes using s
    by (simp_all add: uint_written uint_ucast_u8 uint_of_nat_u8)
  have 4: "uint (field_of SEL_DIV regs') = int (k - 1)"
  proof -
    have u: "uint (of_nat (k - 1) :: u32) = int (k - 1)"
      by (rule uint_of_nat_u32) (use k in simp)
    have "uint (written SEL_DIV (of_nat (k - 1))) = uint (of_nat (k - 1) :: u32) mod 8"
      using uint_written [of 5 7 16 "of_nat (k - 1)"] by simp
    then show ?thesis unfolding vals c(3) seldiv_index_seldiv [OF k] u using k by simp
  qed
  have 5: "uint (field_of PWD_SDM regs') = (if pll_feedback_sdm c = 0 then 1 else 0)"
    "uint (field_of REF_DIV2 regs') = (if pll_refdiv c then 1 else 0)"
    "uint (field_of IMG_R regs') = (if sb = SIDEBAND_UPPER then 1 else 0)"
    unfolding vals by (simp_all add: uint_written_bit)
  have 6: "uint (field_of VCO_DAC regs') = uint d mod 64"
    unfolding vals by (simp add: uint_written uint_ucast_u8)
  have "unat (field_of SEL_DIV regs') = k - 1" using 4 by (simp add: unat_eq_nat_uint)
  then have e1: "2 ^ Suc (unat (field_of SEL_DIV regs')) = pll_seldiv c" using k by (simp add: c(3))
  have e2: "13 + 4 * uint (field_of N_I2C regs') + uint (field_of S_I2C regs') = pll_feedback_n c"
    
  proof -
    have "4 * ((m - 13) div 4) + (m - 13) mod 4 = m - 13" by (rule mult_div_mod_eq)
    then have "13 + 4 * ((m - 13) div 4) + (m - 13) mod 4 = m" using m(1) by linarith
    then have "int (13 + 4 * ((m - 13) div 4) + (m - 13) mod 4) = int m" by (rule arg_cong)
    then show ?thesis unfolding 1 2 c(1) of_nat_add of_nat_mult of_nat_numeral .
  qed
  have e3: "256 * uint (field_of SDM_IN_MSB regs') + uint (field_of SDM_IN_LSB regs') = pll_feedback_sdm c"
    
  proof -
    have "256 * (sdm div 4 div 256) + sdm div 4 mod 256 = sdm div 4" by (rule mult_div_mod_eq)
    then have "int (256 * (sdm div 4 div 256) + sdm div 4 mod 256) = int (sdm div 4)" by (rule arg_cong)
    then show ?thesis unfolding 3 c(2) of_nat_add of_nat_mult of_nat_numeral .
  qed
  show ?thesis by (intro conjI e1 e2 e3 5 6)
qed

lemma vco_dac_value:
  assumes "vco_dac vco = Inr d"
  shows "uint d = min 63 (c_round (rd (rd (vco * rd (318 / 10 ^ 10)) - 49)))"
proof -
  define k where "k = c_round (rd (rd (vco * rd (318 / 10 ^ 10)) - 49))"
  have k: "0 \<le> k" "k < 256" "d = min 63 (max 0 (word_of_int k))"
    using assms unfolding vco_dac_def k_def [symmetric] by (auto simp: to_unsigned_def split: if_splits)
  have u: "uint (word_of_int k :: u8) = k" using k(1,2) by (simp add: unsigned_of_int take_bit_int_eq_self)
  have "d = min 63 (word_of_int k)" using k(3) by simp
  then show ?thesis unfolding k_def [symmetric] using u by (auto simp: min_def word_le_def)
qed


definition pll_1090 :: tuner_pll_config where
  "pll_1090 = \<lparr>pll_valid = True, pll_refdiv = True, pll_seldiv = 2, pll_feedback_n = 75,
     pll_feedback_sdm = 45511, pll_actual_vco = 558080015625 / 256, pll_actual_frequency = 558080015625 / 512\<rparr>"

lemma pll_1090_payload:
  "\<exists>cs' payload. prepare_tuner_payload (set_fields empty_change_set (pll_fields SIDEBAND_LOWER pll_1090 20)) = (cs', 7, payload) \<and> payload \<noteq> []"
proof -
  have "case prepare_tuner_payload (set_fields empty_change_set (pll_fields SIDEBAND_LOWER pll_1090 20)) of
      (cs', first, payload) \<Rightarrow> first = 7 \<and> payload \<noteq> []" by code_simp
  then show ?thesis by (auto split: prod.splits)
qed


text \<open>Note: outside that range the register field is too small. A request just below the upper
  limit that \<open>find_pll_parameters\<close> accepts is rounded up to a feedback divider of 269, whose
  \<open>N_I2C\<close> of 64 does not fit the six bits of the register: the tuner is programmed for a divider of
  13, while the code reports the requested frequency as the actual one.\<close>

theorem pll_n269_wraps:
  "\<exists>c cs' first payload. find_pll_parameters 3873599900 28800000 = Inr (PG2SDR_SUCCESS, Some c) \<and>
     pll_feedback_n c = 269 \<and> pll_actual_frequency c = 3873600000 \<and>
     prepare_tuner_payload (set_fields empty_change_set (pll_fields SIDEBAND_LOWER c 63)) = (cs', first, payload) \<and>
     13 + 4 * uint (field_of N_I2C (apply_payload first payload regs))
        + uint (field_of S_I2C (apply_payload first payload regs)) = 13"
proof -
  define c where "c = \<lparr>pll_valid = True, pll_refdiv = True, pll_seldiv = 2, pll_feedback_n = 269,
       pll_feedback_sdm = 0, pll_actual_vco = 7747200000, pll_actual_frequency = 3873600000\<rparr>"
  have p: "find_pll_parameters 3873599900 28800000 = Inr (PG2SDR_SUCCESS, Some c)"
    unfolding c_def by code_simp
  obtain cs' first payload where prep:
    "prepare_tuner_payload (set_fields empty_change_set (pll_fields SIDEBAND_LOWER c 63)) = (cs', first, payload)"
    by (rule prod_cases3)
  have "field_of N_I2C (apply_payload first payload regs) =
      written N_I2C (ucast (of_int ((pll_feedback_n c - 13) sdiv 4) :: u8))"
    "field_of S_I2C (apply_payload first payload regs) =
      written S_I2C (ucast (of_int ((pll_feedback_n c - 13) AND 3) :: u8))"
    by (rule pll_field_value [OF prep], simp add: pll_fields_def)+
  then have "uint (field_of N_I2C (apply_payload first payload regs)) = 0"
    "uint (field_of S_I2C (apply_payload first payload regs)) = 0"
    by (simp_all add: uint_written c_def)
  with p prep show ?thesis by (auto simp: c_def)
qed

end
