(* ===== verification/GainProps.thy ===== *)
theory GainProps
  imports DeviceOpen TunerFacts
begin

section \<open>The cached gains are those of the tuner\<close>

text \<open>
  The gain API only sends the gains that differ from the cache in the handle, so the cache has to be right. It is after the
  initialisation of the tuner, and every call of the API keeps it so.
\<close>

lemma gains_coherent_inert [simp]:
  "gains_coherent (d\<lparr>current_gain_entry := c\<rparr>) regs = gains_coherent d regs"
  "gains_coherent (d\<lparr>gain_table := t\<rparr>) regs = gains_coherent d regs"
  "gains_coherent (d\<lparr>lna_table := l\<rparr>) regs = gains_coherent d regs"
  "gains_coherent (d\<lparr>mix_table := l\<rparr>) regs = gains_coherent d regs"
  "gains_coherent (d\<lparr>vga_table := l\<rparr>) regs = gains_coherent d regs"
  by (simp_all add: gains_coherent_def)

lemma generic_set_gain_follows:
  assumes f: "tuner_follows E regs" "libusb_documented (lu E)" and coh: "gains_coherent d (regs (usb d))"
    and shape: "f d g = Inr (d, PG2SDR_ERROR_BAD_ARGUMENT) \<or>
      (\<exists>l m v. l \<le> 15 \<and> m \<le> 15 \<and> v \<le> 15 \<and> f d g = tuner_set_gains E d l m v)"
    and run: "generic_set_gain d g f = Inr (d', e)"
  shows "gains_coherent d' (regs (usb d'))"
  using shape
proof (elim disjE exE conjE)
  assume "f d g = Inr (d, PG2SDR_ERROR_BAD_ARGUMENT)"
  then show ?thesis using run coh by (simp add: generic_set_gain_def)
next
  fix l m v :: int
  assume r: "l \<le> 15" "m \<le> 15" "v \<le> 15" and fd: "f d g = tuner_set_gains E d l m v"
  obtain d1 e1 where set: "tuner_set_gains E d l m v = Inr (d1, e1)"
    using tuner_set_gains_total [OF r, of E d] by fastforce
  have "gains_coherent d1 (regs (usb d1))" by (rule tuner_set_gains_follows [OF f coh r set])
  then show ?thesis using run by (auto simp: generic_set_gain_def fd set split: if_splits)
qed

lemma set_total_gain_db_follows:
  assumes f: "tuner_follows E regs" "libusb_documented (lu E)" and coh: "gains_coherent d (regs (usb d))"
    and chk: "CHECK_DEV (Some d) = PG2SDR_SUCCESS" and run: "set_total_gain_db E (Some d) g = Inr (Some d', e)"
  shows "gains_coherent d' (regs (usb d'))"
proof -
  define k where "k = nearest_loop (gain_table d) g 0 [1..<length (gain_table d)]"
  define en where "en = gain_table d ! k"
  note r = uint_4_bits(1) [of "ge_lna en"] uint_4_bits(1) [of "ge_mix en"] uint_4_bits(1) [of "ge_vga en"]
  obtain d1 e1 where set: "tuner_set_gains E d (uint (ge_lna en)) (uint (ge_mix en)) (uint (ge_vga en)) = Inr (d1, e1)"
    using tuner_set_gains_total [OF r, of E d] by fastforce
  have "gains_coherent d1 (regs (usb d1))" by (rule tuner_set_gains_follows [OF f coh r set])
  then show ?thesis
    using run coh unfolding set_total_gain_db_def with_dev_ok [OF chk] Let_def k_def [symmetric] en_def [symmetric]
    by (auto simp: set split: if_splits)
qed

lemma set_gain_tables_follows:
  assumes coh: "gains_coherent d (regs (usb d))" and chk: "CHECK_DEV (Some d) = PG2SDR_SUCCESS"
    and run: "set_gain_tables a qs (Some d) gt lt mt vt = Inr (Some d', e)"
  shows "gains_coherent d' (regs (usb d'))"
  using run coh unfolding set_gain_tables_def with_dev_ok [OF chk] Let_def
  by (cases gt; cases lt; cases mt; cases vt; cases a) (auto split: if_splits)

lemma gain_exec_follows:
  assumes f: "tuner_follows E regs" "libusb_documented (lu E)" and coh: "gains_coherent d (regs (usb d))"
    and chk: "CHECK_DEV (Some d) = PG2SDR_SUCCESS" and run: "gain_exec E qs (Some d) p = Inr (Some d', e)"
  shows "gains_coherent d' (regs (usb d'))"
proof -
  note lna = generic_set_gain_follows [OF f coh, of "tuner_set_lna E", OF tuner_stage_shape(1)]
  note mix = generic_set_gain_follows [OF f coh, of "tuner_set_mix E", OF tuner_stage_shape(2)]
  note vga = generic_set_gain_follows [OF f coh, of "tuner_set_vga E", OF tuner_stage_shape(3)]
  note split = run_bind_Inr_iff with_dev_ok [OF chk]
  show ?thesis
  proof (cases p)
    case (Set_total_db g)
    then show ?thesis using set_total_gain_db_follows [OF f coh chk] run by simp
  next
    case (Set_tables a gt lt mt vt)
    then show ?thesis using set_gain_tables_follows [where d = d and regs = regs, OF coh chk] run by simp
  qed (use run lna mix vga in
    \<open>auto simp: split set_lna_gain_def set_lna_gain_db_def set_mix_gain_def set_mix_gain_db_def set_vga_gain_def
      set_vga_gain_db_def generic_set_gain_db_def\<close>)
qed


definition register_device :: "(nat \<Rightarrow> u8) device" where
  "register_device = (blank_device (\<lambda>_. 0) ''0001'' ''1-1'')\<lparr>gain_table := gain_table gain_device, lna_table := lna_table gain_device,
     mix_table := mix_table gain_device, vga_table := vga_table gain_device\<rparr>"


end
