(* ===== verification/AdcProps.thy ===== *)
theory AdcProps
  imports AdcPll
begin

section \<open>The search for ADC clock settings finds the best of a stated set\<close>

text \<open>
  The set of settings that the search of \<open>AdcPll\<close> chooses from, described without its loops, its table and its candidate
  functions, and the optimality of the choice among them.
\<close>

subsection \<open>The settings\<close>

text \<open>The oscillator frequency aimed at for a product \<open>s\<close> of the divisors P and I, in whole Hz and within its range.\<close>

definition fcco_goal :: "double \<Rightarrow> nat \<Rightarrow> nat" where
  "fcco_goal target s = max 275000000 (min (nat \<lfloor>rd (target * of_nat s)\<rfloor>) 550000000)"

text \<open>The integer M nearest to the goal, for a divisor N of the reference.\<close>

definition nearest_integer_m :: "nat \<Rightarrow> nat \<Rightarrow> int" where
  "nearest_integer_m n goal = c_round (rd (of_nat goal / rd (12000000 / of_nat (adc_effective_n_divisor n))) / 2)"

text \<open>
  The nearest fractional M, in steps of 1/32768: one step is \<open>24000000 / 32768\<close> Hz of the oscillator. A step towards the middle is made if the nearest
  one is outside the oscillator's range.
\<close>

definition nearest_fractional_m :: "nat \<Rightarrow> int" where
  "nearest_fractional_m goal =
    (let k = c_round (rd (of_nat goal / 12000000) * 16384); f = of_int k * 24000000 / 32768 :: rat
     in if f < 275000000 then k + 1 else if 550000000 < f then k - 1 else k)"

definition adc_setting :: "double \<Rightarrow> bool \<Rightarrow> adc_pll_config \<Rightarrow> bool" where
  "adc_setting target fr c \<longleftrightarrow>
    (let s = adc_effective_p_divisor (adc_p c) * adc_effective_i_divisor (adc_i c)
     in adc_valid c \<and> legal_p_i (adc_p c) (adc_i c) \<and>
       (\<forall>p i. legal_p_i p i \<and> adc_effective_p_divisor p * adc_effective_i_divisor i = s \<longrightarrow> adc_i c \<le> i) \<and>
       rd (275000000 / target) \<le> of_nat s \<and> of_nat (s + 1) \<le> rd (550000000 / target) \<and>
       (if adc_fractional c
        then fr \<and> adc_n c = 0 \<and> adc_m c = of_int (nearest_fractional_m (fcco_goal target s)) / 32768
        else adc_n c \<le> 256 \<and> adc_m c = of_int (nearest_integer_m (adc_n c) (fcco_goal target s))) \<and>
       adc_actual_fcco c = rd (rd (2 * adc_m c) * rd (12000000 / of_nat (adc_effective_n_divisor (adc_n c)))) \<and>
       adc_actual_frequency c = rd (adc_actual_fcco c / of_nat s) \<and>
       adc_error c = \<bar>rd (adc_actual_frequency c - target)\<bar>)"

definition adc_usable :: "rat \<Rightarrow> adc_pll_config \<Rightarrow> bool" where
  "adc_usable threshold c \<longleftrightarrow> 275000000 \<le> adc_actual_fcco c \<and> adc_actual_fcco c \<le> 550000000 \<and>
    (\<not> adc_fractional c \<longrightarrow> 1 \<le> adc_m c \<and> adc_m c \<le> 32768) \<and> adc_error c \<le> threshold"

text \<open>The preferred setting: the smaller error, or the smaller M, where a fractional one counts four times and loses a tie.\<close>

definition preferred :: "bool \<Rightarrow> adc_pll_config \<Rightarrow> adc_pll_config \<Rightarrow> bool" where
  "preferred minimize c c' \<longleftrightarrow>
    (if minimize then adc_error c \<le> adc_error c'
     else if adc_fractional c = adc_fractional c' then adc_m c \<le> adc_m c'
     else if adc_fractional c then 4 * adc_m c < adc_m c' else adc_m c \<le> 4 * adc_m c')"

subsection \<open>The candidates are the settings\<close>

lemma config_eq_iff:
  "(c :: adc_pll_config) = c' \<longleftrightarrow> adc_valid c = adc_valid c' \<and> adc_fractional c = adc_fractional c' \<and> adc_n c = adc_n c' \<and>
    adc_m c = adc_m c' \<and> adc_p c = adc_p c' \<and> adc_i c = adc_i c' \<and> adc_error c = adc_error c' \<and>
    adc_actual_fcco c = adc_actual_fcco c' \<and> adc_actual_frequency c = adc_actual_frequency c'"
  by (cases c; cases c') simp

lemma scaled_m_nearest:
  assumes "275000000 \<le> d" "d \<le> 550000000"
  shows "scaled_m_of d = of_int (nearest_fractional_m d)"
proof -
  define x where "x = rd (of_nat d / 12000000)"
  have d: "(275000000 :: rat) \<le> of_nat d" "of_nat d \<le> (550000000 :: rat)"
    using assms of_nat_mono [of 275000000 d] of_nat_mono [of d 550000000] by simp_all
  have x: "22 \<le> x" "x \<le> 46"
    using rd_ge [of 22 "of_nat d / 12000000"] rd_le [of "of_nat d / 12000000" 46] d by (simp_all add: x_def)
  have half: "rd (rd y / 2) = rd y / 2" for y
  proof -
    have "rd (rd y / 2) * 2 ^ 1 = rd (rd y / 2 * 2 ^ 1)" by (rule rd_scale [symmetric])
    then show ?thesis by simp
  qed
  have h: "rd (x / 2) = x / 2" unfolding x_def by (rule half)
  have e: "rd (rd (x / 2) * 2 ^ 15) = x * 16384"
    unfolding h using rd_scale [of "x / 2" 15] h by simp
  define m where "m = c_round (x * 16384)"
  have m: "360448 \<le> m" "m \<le> 753664"
    using c_round_ge [of 360448 "x * 16384"] c_round_le [of "x * 16384" 753664] x by (simp_all add: m_def)
  have r1: "rd (2 * of_int m) = of_int (2 * m)" using rd_of_int [of "2 * m"] m by simp
  have r2: "rd (of_int (2 * m) / 2 ^ 15) = of_int (2 * m) / 2 ^ 15"
    using rd_scale [of "of_int (2 * m) / 2 ^ 15" 15] rd_of_int [of "2 * m"] m by simp
  have r3: "rd (of_int (2 * m) / 2 ^ 15 * 12000000) = of_int m * 24000000 / 32768"
  proof -
    have "rd (of_int (m * 46875) / 2 ^ 6) = of_int (m * 46875) / 2 ^ 6"
      using rd_scale [of "of_int (m * 46875) / 2 ^ 6" 6] rd_of_int [of "m * 46875"] m by (simp add: mult.commute)
    moreover have "(of_int (2 * m) / 2 ^ 15 * 12000000 :: rat) = of_int (m * 46875) / 2 ^ 6"
      "(of_int m * 24000000 / 32768 :: rat) = of_int (m * 46875) / 2 ^ 6" by simp_all
    ultimately show ?thesis by (simp only:)
  qed
  have m1: "rd (of_int m + 1) = of_int (m + 1)" "rd (of_int m - 1) = of_int (m - 1)"
    using rd_of_int [of "m + 1"] rd_of_int [of "m - 1"] m by simp_all
  have c: "adc_reference_frequency = 12000000" "(of_nat adc_min_fcco :: rat) = 275000000" "(of_nat adc_max_fcco :: rat) = 550000000"
    by (simp_all add: adc_consts)
  show ?thesis
    unfolding scaled_m_of_def nearest_fractional_m_def Let_def c x_def [symmetric] e m_def [symmetric] r1 r2 r3 m1 by simp
qed

lemma fractional_m_exact:
  assumes "275000000 \<le> d" "d \<le> 550000000"
  shows "rd (scaled_m_of d / 2 ^ 15) = of_int (nearest_fractional_m d) / 32768"
    and "360447 \<le> nearest_fractional_m d" "nearest_fractional_m d \<le> 753665"
proof -
  have k: "360447 \<le> nearest_fractional_m d" "nearest_fractional_m d \<le> 753665"
    using scaled_m_range [OF assms] of_int_le_iff [of 360447 "nearest_fractional_m d", where 'a = rat]
      of_int_le_iff [of "nearest_fractional_m d" 753665, where 'a = rat]
    unfolding scaled_m_nearest [OF assms] by simp_all
  then have "rd (of_int (nearest_fractional_m d) / 2 ^ 15) = of_int (nearest_fractional_m d) / 2 ^ 15"
    using rd_scale [of "of_int (nearest_fractional_m d) / 2 ^ 15" 15] rd_of_int [of "nearest_fractional_m d"] by simp
  then show "rd (scaled_m_of d / 2 ^ 15) = of_int (nearest_fractional_m d) / 32768" by (simp add: scaled_m_nearest [OF assms])
  show "360447 \<le> nearest_fractional_m d" "nearest_fractional_m d \<le> 753665" by (rule k)+
qed

lemma fractional_candidate_iff:
  assumes "275000000 \<le> d" "d \<le> 550000000"
  shows "c = fractional_candidate t s p i d \<longleftrightarrow>
    adc_valid c \<and> adc_fractional c \<and> adc_n c = 0 \<and> adc_m c = of_int (nearest_fractional_m d) / 32768 \<and> adc_p c = p \<and> adc_i c = i \<and>
    adc_actual_fcco c = rd (rd (2 * adc_m c) * 12000000) \<and> adc_actual_frequency c = rd (adc_actual_fcco c / of_nat s) \<and>
    adc_error c = \<bar>rd (adc_actual_frequency c - t)\<bar>"
proof -
  obtain c' where c': "c' = fractional_candidate t s p i d" by simp
  have f: "adc_valid c'" "adc_fractional c'" "adc_n c' = 0" "adc_m c' = of_int (nearest_fractional_m d) / 32768" "adc_p c' = p" "adc_i c' = i"
      "adc_actual_fcco c' = rd (rd (2 * adc_m c') * 12000000)" "adc_actual_frequency c' = rd (adc_actual_fcco c' / of_nat s)"
      "adc_error c' = \<bar>rd (adc_actual_frequency c' - t)\<bar>"
    unfolding c' by (rule fractional_candidate_fields | subst fractional_candidate_fields(4), rule fractional_m_exact(1) [OF assms])+
  define k where "k = (of_int (nearest_fractional_m d) / 32768 :: rat)"
  show ?thesis unfolding c' [symmetric] config_eq_iff [of c c'] using f unfolding k_def [symmetric] by auto
qed

lemma integer_candidate_value:
  assumes d: "275000000 \<le> d" "d \<le> 550000000" and n: "n \<le> 256"
  shows "\<exists>c. integer_candidate t s p i d n = Inr c \<and> adc_valid c \<and> \<not> adc_fractional c \<and> adc_n c = n \<and>
    adc_m c = of_int (nearest_integer_m n d) \<and> adc_p c = p \<and> adc_i c = i \<and>
    adc_actual_fcco c = rd (rd (2 * adc_m c) * rd (12000000 / of_nat (adc_effective_n_divisor n))) \<and>
    adc_actual_frequency c = rd (adc_actual_fcco c / of_nat s) \<and> adc_error c = \<bar>rd (adc_actual_frequency c - t)\<bar>"
proof -
  define r where "r = rd (12000000 / of_nat (adc_effective_n_divisor n))"
  have r: "46875 \<le> r" using n_reference_range [OF n] by (simp add: r_def)
  have dq: "0 \<le> (of_nat d :: rat)" "of_nat d \<le> (550000000 :: rat)" using d of_nat_mono [of d 550000000] by simp_all
  have "of_nat d / r \<le> 550000000 / 46875" using dq r by (intro frac_le) simp_all
  then have "of_nat d / r \<le> of_int 11734" by (rule order_trans) simp
  then have q: "0 \<le> rd (of_nat d / r)" "rd (of_nat d / r) \<le> 11734"
    using rd_le [of "of_nat d / r" 11734] dq r by (simp_all add: dbl.rnd_nonneg)
  have half: "rd (rd (of_nat d / r) / 2) = rd (of_nat d / r) / 2"
    using rd_scale [of "rd (of_nat d / r) / 2" 1] by simp
  define k where "k = c_round (rd (of_nat d / r) / 2)"
  have kn: "k = nearest_integer_m n d" by (simp add: k_def nearest_integer_m_def r_def)
  have h: "of_int 0 \<le> rd (of_nat d / r) / 2" "rd (of_nat d / r) / 2 \<le> of_int 5867" using q by simp_all
  have k: "0 \<le> k" "k \<le> 5867" unfolding k_def by (rule c_round_ge [OF h(1)], rule c_round_le [OF h(2)])
  have conv: "to_unsigned (of_int k) = Inr (of_nat (nat k) :: u32)" using k by (simp add: to_unsigned_def)
  have un: "unat (of_nat (nat k) :: u32) = nat k" by (rule unat_of_nat_small) (use k in simp)
  have kq: "(of_nat (nat k) :: rat) = of_int k" using k by simp
  show ?thesis
    unfolding integer_candidate_def adc_reference_frequency_def Let_def r_def [symmetric] half
      k_def [symmetric] conv run_bind_simps un kq unfolding kn [symmetric] by simp
qed

lemma integer_candidate_iff:
  assumes "275000000 \<le> d" "d \<le> 550000000" "n \<le> 256"
  shows "integer_candidate t s p i d n = Inr c \<longleftrightarrow>
    adc_valid c \<and> \<not> adc_fractional c \<and> adc_n c = n \<and> adc_m c = of_int (nearest_integer_m n d) \<and> adc_p c = p \<and> adc_i c = i \<and>
    adc_actual_fcco c = rd (rd (2 * adc_m c) * rd (12000000 / of_nat (adc_effective_n_divisor n))) \<and>
    adc_actual_frequency c = rd (adc_actual_fcco c / of_nat s) \<and> adc_error c = \<bar>rd (adc_actual_frequency c - t)\<bar>"
proof -
  obtain c' where c': "integer_candidate t s p i d n = Inr c'" "adc_valid c'" "\<not> adc_fractional c'" "adc_n c' = n"
      "adc_m c' = of_int (nearest_integer_m n d)" "adc_p c' = p" "adc_i c' = i"
      "adc_actual_fcco c' = rd (rd (2 * adc_m c') * rd (12000000 / of_nat (adc_effective_n_divisor n)))"
      "adc_actual_frequency c' = rd (adc_actual_fcco c' / of_nat s)" "adc_error c' = \<bar>rd (adc_actual_frequency c' - t)\<bar>"
    using integer_candidate_value [OF assms, of t s p i] by blast
  have "integer_candidate t s p i d n = Inr c \<longleftrightarrow> c = c'" using c'(1) by auto
  then show ?thesis unfolding config_eq_iff [of c c'] using c' by auto
qed

text \<open>A pair of divisors with the smallest I for its product is what the table holds for the product.\<close>

lemma smallest_pair:
  assumes "adc_make_p_i_table = Inr table" "s = adc_effective_p_divisor p * adc_effective_i_divisor i"
  shows "legal_p_i p i \<and> (\<forall>p' i'. legal_p_i p' i' \<and> adc_effective_p_divisor p' * adc_effective_i_divisor i' = s \<longrightarrow> i \<le> i') \<longleftrightarrow>
    s < adc_p_i_table_size \<and> snd (table s) \<noteq> UINT32_MAX \<and> table s = (p, i)"
proof -
  obtain table' where t': "adc_make_p_i_table = Inr table'" and tab: "\<forall>s.
     (table' s = (UINT32_MAX, UINT32_MAX) \<and>
       (\<forall>p i. legal_p_i p i \<longrightarrow> adc_effective_p_divisor p * adc_effective_i_divisor i \<noteq> s)) \<or>
     (legal_p_i (fst (table' s)) (snd (table' s)) \<and>
       adc_effective_p_divisor (fst (table' s)) * adc_effective_i_divisor (snd (table' s)) = s \<and>
       (\<forall>p i. legal_p_i p i \<and> adc_effective_p_divisor p * adc_effective_i_divisor i = s \<longrightarrow> snd (table' s) \<le> i))"
    using make_p_i_table_ok by blast
  have "table' = table" using trans [OF t' [symmetric] assms(1)] by (rule Inr_inject)
  note tab = tab [rule_format, of s, unfolded this]
  have unique: "p = p'" if "adc_effective_p_divisor p * adc_effective_i_divisor i = adc_effective_p_divisor p' * adc_effective_i_divisor i" for p p' i
  proof -
    have "0 < adc_effective_i_divisor i" by (simp add: adc_effective_i_divisor_def)
    then have "adc_effective_p_divisor p = adc_effective_p_divisor p'" using that by simp
    then show ?thesis by (auto simp: adc_effective_p_divisor_def split: if_splits)
  qed
  have small: "s < adc_p_i_table_size" if "legal_p_i p i"
  proof -
    have "adc_effective_p_divisor p \<le> 64" "adc_effective_i_divisor i \<le> 256"
      using that by (simp_all add: legal_p_i_def adc_effective_p_divisor_def adc_effective_i_divisor_def)
    then have "s \<le> 64 * 256" unfolding assms(2) by (rule mult_le_mono)
    then show ?thesis by (simp add: adc_consts)
  qed
  show ?thesis
  proof (intro iffI conjI; elim conjE)
    assume a: "legal_p_i p i" "\<forall>p' i'. legal_p_i p' i' \<and> adc_effective_p_divisor p' * adc_effective_i_divisor i' = s \<longrightarrow> i \<le> i'"
    show "s < adc_p_i_table_size" by (rule small [OF a(1)])
    have t: "legal_p_i (fst (table s)) (snd (table s))" "adc_effective_p_divisor (fst (table s)) * adc_effective_i_divisor (snd (table s)) = s"
        "snd (table s) \<le> i"
      using tab a(1) assms(2) by blast+
    then have i: "i = snd (table s)" using a(2) by (intro antisym) blast+
    then have "p = fst (table s)" using unique [of p i "fst (table s)"] t(2) assms(2) by metis
    then show "table s = (p, i)" using i by (cases "table s") simp
    show "snd (table s) \<noteq> UINT32_MAX" using t(1) by (auto simp: legal_p_i_def UINT32_MAX_def)
  next
    assume a: "snd (table s) \<noteq> UINT32_MAX" "table s = (p, i)"
    then show "legal_p_i p i" using tab by auto
    show "\<forall>p' i'. legal_p_i p' i' \<and> adc_effective_p_divisor p' * adc_effective_i_divisor i' = s \<longrightarrow> i \<le> i'" using tab a by auto
  qed
qed

lemma in_adc_range:
  assumes "1 \<le> t"
  shows "s \<in> set (adc_range t) \<longleftrightarrow> rd (275000000 / t) \<le> of_nat s \<and> of_nat (s + 1) \<le> rd (550000000 / t)"
proof -
  have n: "0 \<le> rd (275000000 / t)" "0 \<le> rd (550000000 / t)" using assms by (simp_all add: dbl.rnd_nonneg)
  have c: "0 \<le> \<lceil>rd (275000000 / t)\<rceil>" "0 \<le> \<lfloor>rd (550000000 / t)\<rfloor>" using n by (simp_all add: le_ceiling_iff)
  have "nat \<lceil>rd (275000000 / t)\<rceil> \<le> s \<longleftrightarrow> \<lceil>rd (275000000 / t)\<rceil> \<le> int s" by (simp add: nat_le_iff)
  also have "\<dots> \<longleftrightarrow> rd (275000000 / t) \<le> of_nat s" by (simp add: ceiling_le_iff)
  finally have lo: "nat \<lceil>rd (275000000 / t)\<rceil> \<le> s \<longleftrightarrow> rd (275000000 / t) \<le> of_nat s" .
  have "s < nat \<lfloor>rd (550000000 / t)\<rfloor> \<longleftrightarrow> int (s + 1) \<le> \<lfloor>rd (550000000 / t)\<rfloor>" using c by linarith
  also have "\<dots> \<longleftrightarrow> of_nat (s + 1) \<le> rd (550000000 / t)" by (simp only: le_floor_iff of_int_of_nat_eq)
  finally show ?thesis using lo by (simp add: adc_range_def adc_consts)
qed

lemma goal_computed:
  assumes "0 \<le> t * of_nat s" "t * of_nat s \<le> 4294967295"
  shows "\<exists>f :: u32. to_unsigned (rd (t * of_nat s)) = Inr f \<and> clamp_fcco (unat f) = fcco_goal t s"
proof -
  define x where "x = rd (t * of_nat s)"
  have x: "0 \<le> x" "x \<le> 4294967295"
    using assms rd_le [of "t * of_nat s" 4294967295] by (simp_all add: x_def dbl.rnd_nonneg)
  then have k: "0 \<le> \<lfloor>x\<rfloor>" "\<lfloor>x\<rfloor> < 2 ^ 32" by (simp_all add: floor_less_iff)
  then have "to_unsigned x = (Inr (word_of_int \<lfloor>x\<rfloor>) :: u32 run)" using x by (simp add: to_unsigned_def)
  moreover have "unat (word_of_int \<lfloor>x\<rfloor> :: u32) = nat \<lfloor>x\<rfloor>" using k by (simp add: unsigned_of_int take_bit_int_eq_self)
  ultimately show ?thesis by (intro exI [of _ "word_of_int \<lfloor>x\<rfloor>"]) (simp add: x_def clamp_fcco_def fcco_goal_def adc_consts)
qed

lemma in_concat_results:
  "c \<in> set (concat (map (\<lambda>n. case f n of Inl _ \<Rightarrow> [] | Inr c \<Rightarrow> [c]) ns)) \<longleftrightarrow> (\<exists>n \<in> set ns. f n = Inr c)"
proof (induction ns)
  case (Cons n ns)
  then show ?case by (cases "f n") auto
qed simp

lemma candidates_of_product:
  assumes "0 \<le> t * of_nat s" "t * of_nat s \<le> 4294967295" "s < adc_p_i_table_size" "snd (table s) \<noteq> UINT32_MAX" "table s = (p, i)"
  shows "c \<in> set (adc_candidates table t fr s) \<longleftrightarrow>
    adc_valid c \<and> adc_p c = p \<and> adc_i c = i \<and>
    (if adc_fractional c
     then fr \<and> adc_n c = 0 \<and> adc_m c = of_int (nearest_fractional_m (fcco_goal t s)) / 32768
     else adc_n c \<le> 256 \<and> adc_m c = of_int (nearest_integer_m (adc_n c) (fcco_goal t s))) \<and>
    adc_actual_fcco c = rd (rd (2 * adc_m c) * rd (12000000 / of_nat (adc_effective_n_divisor (adc_n c)))) \<and>
    adc_actual_frequency c = rd (adc_actual_fcco c / of_nat s) \<and> adc_error c = \<bar>rd (adc_actual_frequency c - t)\<bar>"
    (is "_ \<longleftrightarrow> ?setting")
proof -
  define d where "d = fcco_goal t s"
  obtain f :: u32 where f: "to_unsigned (rd (t * of_nat s)) = Inr f" "clamp_fcco (unat f) = d"
    using goal_computed [OF assms(1,2)] by (auto simp: d_def)
  have d: "275000000 \<le> d" "d \<le> 550000000" by (simp_all add: d_def fcco_goal_def)
  have "c \<in> set (adc_candidates table t fr s) \<longleftrightarrow>
      fr \<and> c = fractional_candidate t s p i d \<or> (\<exists>n \<le> 256. integer_candidate t s p i d n = Inr c)"
  proof -
    have "(\<exists>n \<le> 256. integer_candidate t s p i d n = Inr c) \<longleftrightarrow> (\<exists>n \<in> set [0..<adc_n_max_divisor + 1]. integer_candidate t s p i d n = Inr c)"
    proof -
      have "n \<in> set [0..<adc_n_max_divisor + 1] \<longleftrightarrow> n \<le> 256" for n by (simp only: set_upt adc_n_max_divisor_def atLeastLessThan_iff) linarith
      then show ?thesis by (simp only: Bex_def)
    qed
    also have "\<dots> \<longleftrightarrow> c \<in> set (concat (map (\<lambda>n. case integer_candidate t s p i d n of Inl _ \<Rightarrow> [] | Inr c \<Rightarrow> [c]) [0..<adc_n_max_divisor + 1]))"
      by (rule in_concat_results [symmetric])
    finally show ?thesis unfolding adc_candidates_def f sum.case Let_def f(2) assms(5) fst_conv snd_conv using assms(3-5) by auto
  qed
  also have "\<dots> \<longleftrightarrow> ?setting"
  proof -
    have n0: "rd (12000000 / of_nat (adc_effective_n_divisor 0)) = 12000000" by (simp add: adc_effective_n_divisor_def)
    have "(\<exists>n \<le> 256. integer_candidate t s p i d n = Inr c) \<longleftrightarrow> adc_n c \<le> 256 \<and> integer_candidate t s p i d (adc_n c) = Inr c"
      using integer_candidate_iff [OF d, of _ t s p i c] by blast
    then show ?thesis
      unfolding d_def [symmetric] using integer_candidate_iff [OF d, of "adc_n c" t s p i c] fractional_candidate_iff [OF d, of c t s p i] n0
      by (cases "adc_fractional c") auto
  qed
  finally show ?thesis .
qed

lemma candidates_are_settings:
  assumes table: "adc_make_p_i_table = Inr table" and t: "1 \<le> target"
  shows "c \<in> set (all_adc_candidates table target fr) \<longleftrightarrow> adc_setting target fr c"
proof -
  define s where "s = adc_effective_p_divisor (adc_p c) * adc_effective_i_divisor (adc_i c)"
  have one: "c \<in> set (adc_candidates table target fr s') \<longrightarrow> s' = s" for s'
  proof
    assume c: "c \<in> set (adc_candidates table target fr s')"
    note cand = in_adc_candidates [OF c]
    obtain table' where t': "adc_make_p_i_table = Inr table'" and tab: "\<forall>s.
     (table' s = (UINT32_MAX, UINT32_MAX) \<and>
       (\<forall>p i. legal_p_i p i \<longrightarrow> adc_effective_p_divisor p * adc_effective_i_divisor i \<noteq> s)) \<or>
     (legal_p_i (fst (table' s)) (snd (table' s)) \<and>
       adc_effective_p_divisor (fst (table' s)) * adc_effective_i_divisor (snd (table' s)) = s \<and>
       (\<forall>p i. legal_p_i p i \<and> adc_effective_p_divisor p * adc_effective_i_divisor i = s \<longrightarrow> snd (table' s) \<le> i))"
      using make_p_i_table_ok by blast
    have "table' = table" using trans [OF t' [symmetric] table] by (rule Inr_inject)
    then show "s' = s" using tab [rule_format, of s'] cand(2-4) by (auto simp: s_def)
  qed
  have "c \<in> set (all_adc_candidates table target fr) \<longleftrightarrow> s \<in> set (adc_range target) \<and> c \<in> set (adc_candidates table target fr s)"
    using one by (auto simp: all_adc_candidates_def)
  also have "\<dots> \<longleftrightarrow> s \<in> set (adc_range target) \<and> (s < adc_p_i_table_size \<and> snd (table s) \<noteq> UINT32_MAX \<and> table s = (adc_p c, adc_i c)) \<and>
      c \<in> set (adc_candidates table target fr s)"
    using in_adc_candidates(1-4) [of c table target fr s] by (metis prod.collapse)
  also have "\<dots> \<longleftrightarrow> adc_setting target fr c"
    unfolding adc_setting_def Let_def s_def [symmetric] smallest_pair [OF table s_def, symmetric] in_adc_range [OF t]
    using candidates_of_product [of target s table "adc_p c" "adc_i c" c fr] adc_range_products [OF t, of s] in_adc_range [OF t, of s]
      smallest_pair [OF table s_def]
    by (auto split: if_splits)
  finally show ?thesis .
qed

lemma settings_sound:
  assumes "adc_make_p_i_table = Inr table" "1 \<le> target" "adc_setting target fr c"
  shows "adc_acceptable threshold c \<longleftrightarrow> adc_usable threshold c" "adc_key mn c \<le> adc_key mn c' \<longleftrightarrow> preferred mn c c'"
proof -
  have e: "(of_nat adc_min_fcco :: rat) = 275000000" "(of_nat adc_max_fcco :: rat) = 550000000" by (simp_all add: adc_consts)
  have valid: "adc_valid c" using assms(3) by (simp add: adc_setting_def Let_def)
  have "case adc_fixed_point_m (adc_m c) of Inr fm \<Rightarrow> \<not> fm < 1 \<and> fm < 2 ^ 22 | Inl _ \<Rightarrow> False" if frac: "adc_fractional c"
  proof -
    obtain d where d: "275000000 \<le> d" "d \<le> 550000000" "adc_m c = of_int (nearest_fractional_m d) / 32768"
    proof -
      define g where "g = fcco_goal target (adc_effective_p_divisor (adc_p c) * adc_effective_i_divisor (adc_i c))"
      have "275000000 \<le> g" "g \<le> 550000000" by (simp_all add: g_def fcco_goal_def)
      moreover have "adc_m c = of_int (nearest_fractional_m g) / 32768"
        using assms(3) frac unfolding adc_setting_def Let_def g_def [symmetric] by simp
      ultimately show thesis by (rule that)
    qed
    define k where "k = nearest_fractional_m d"
    have k: "360447 \<le> k" "k \<le> 753665" using fractional_m_exact [OF d(1,2)] by (simp_all add: k_def)
    have "adc_fixed_point_m (adc_m c) = Inr (word_of_int k)"
      using rd_of_int [of k] k by (simp add: adc_fixed_point_m_def d(3) k_def [symmetric] to_unsigned_def)
    moreover have "uint (word_of_int k :: u32) = k" using k by (simp add: unsigned_of_int take_bit_int_eq_self)
    ultimately show ?thesis using k by (simp add: word_less_def)
  qed
  then show "adc_acceptable threshold c \<longleftrightarrow> adc_usable threshold c"
    using valid by (auto simp: adc_acceptable_def adc_usable_def e)
  show "adc_key mn c \<le> adc_key mn c' \<longleftrightarrow> preferred mn c c'"
    by (auto simp: adc_key_def preferred_def less_eq_prod_def)
qed

subsection \<open>The choice\<close>

definition crystal_divisor :: "double \<Rightarrow> int" where
  "crystal_divisor target = c_round (rd (12000000 / target))"

text \<open>C37: for any target from 1 Hz to 80 MHz the search for ADC clock settings terminates without an undefined conversion. When
  the PLL may be bypassed and the crystal divided by the nearest divisor, 1 to 256, is within the threshold, that is the
  result. Otherwise it is a preferred one of the usable PLL settings, or ADC_RATE_RANGE exactly when there is none. The PLL
  settings are: every product s of a legal P and I, with the smallest I that gives it, at least \<open>275000000 / target\<close>
  and with \<open>s + 1\<close> at most \<open>550000000 / target\<close> (so the largest product in the oscillator's range is not tried, adc.c:152);
  for each the fractional M nearest to the oscillator frequency it needs, if allowed, and for every N up to 256 the nearest
  integer M, and no other M. Usable means: oscillator and M in range, error at most the threshold. Preferred
  is, with \<open>minimize_error\<close>, the smallest error, otherwise the smallest M, where a fractional M counts four times and
  loses a tie.\<close>

theorem adc_search_optimal:
  assumes table: "adc_make_p_i_table = Inr table" and t: "1 \<le> target" "target \<le> 80000000"
    and thr: "threshold = rd (target * (if epsilon \<le> 0 then rd (1 / 10 ^ 6) else epsilon))"
  shows "\<exists>result. adc_find_divisors (Some table) target minimize fr no_pll epsilon = Inr result \<and>
    (let d = crystal_divisor target; f = rd (12000000 / of_int d)
     in if no_pll \<and> 1 \<le> d \<and> d \<le> 256 \<and> \<bar>rd (f - target)\<bar> \<le> threshold
        then \<exists>c. result = (PG2SDR_SUCCESS, Some c) \<and> adc_n c = 0 \<and> adc_m c = 0 \<and> adc_p c = 0 \<and>
          adc_i c = (if d = 1 then 0 else nat d) \<and> adc_actual_frequency c = f \<and> adc_error c = \<bar>rd (f - target)\<bar>
        else if \<exists>c. adc_setting target fr c \<and> adc_usable (rs threshold) c
        then \<exists>c. result = (PG2SDR_SUCCESS, Some c) \<and> adc_setting target fr c \<and> adc_usable (rs threshold) c \<and>
          (\<forall>c'. adc_setting target fr c' \<and> adc_usable (rs threshold) c' \<longrightarrow> preferred minimize c c')
        else result = (PG2SDR_ERROR_ADC_RATE_RANGE, None))"
proof -
  define d where "d = crystal_divisor target"
  have q: "0 \<le> rd (12000000 / target)" "rd (12000000 / target) \<le> of_int 12000000"
    using t rd_le [of "12000000 / target" 12000000] by (simp_all add: dbl.rnd_nonneg field_simps)
  have d: "0 \<le> d" "d \<le> 12000000" unfolding d_def crystal_divisor_def
    using c_round_ge [of 0 "rd (12000000 / target)"] c_round_le [OF q(2)] q(1) by simp_all
  have conv: "to_unsigned (of_int (c_round (rd (adc_reference_frequency / target)))) = (Inr (of_nat (nat d)) :: u32 run)"
    using d by (simp add: to_unsigned_def d_def crystal_divisor_def adc_reference_frequency_def)
  have un: "unat (of_nat (nat d) :: u32) = nat d" by (rule unat_of_nat_small) (use d in simp)
  define f where "f = rd (12000000 / of_int d)"
  define c0 where "c0 = no_pll_config target (nat d)"
  have nat: "1 \<le> nat d \<longleftrightarrow> 1 \<le> d" "nat d \<le> 256 \<longleftrightarrow> d \<le> 256" "nat d = 1 \<longleftrightarrow> d = 1" "(of_nat (nat d) :: rat) = of_int d" using d by auto
  have c0: "adc_n c0 = 0" "adc_m c0 = 0" "adc_p c0 = 0" "adc_i c0 = (if d = 1 then 0 else nat d)" "adc_actual_frequency c0 = f"
      "adc_error c0 = \<bar>rd (f - target)\<bar>"
    unfolding c0_def no_pll_config_def Let_def nat adc_reference_frequency_def f_def by simp_all
  let ?direct = "no_pll \<and> 1 \<le> d \<and> d \<le> 256 \<and> \<bar>rd (f - target)\<bar> \<le> threshold"
  have run: "adc_find_divisors (Some table) target minimize fr no_pll epsilon =
      (if ?direct then Inr (PG2SDR_SUCCESS, Some c0) else search_pll table target minimize fr threshold)"
    unfolding adc_find_divisors_def Let_def conv run_bind_simps un thr [symmetric] c0_def [symmetric] c0(6) nat using t by simp
  note search = search_pll_scan [OF t(1), of table minimize fr threshold]
  note set = candidates_are_settings [OF table t(1), of _ fr]
  have usable: "adc_acceptable (rs threshold) c \<longleftrightarrow> adc_usable (rs threshold) c" if "c \<in> set (all_adc_candidates table target fr)" for c
    using settings_sound(1) [OF table t(1)] that set by blast
  have order: "adc_key minimize c \<le> adc_key minimize c' \<longleftrightarrow> preferred minimize c c'" if "adc_setting target fr c" for c c'
    by (rule settings_sound(2) [OF table t(1) that])
  show ?thesis
  proof (cases ?direct)
    case True
    then show ?thesis using run c0 unfolding Let_def d_def [symmetric] f_def [symmetric] by auto
  next
    case False
    show ?thesis
    proof (cases "adc.scan minimize (rs threshold) None (all_adc_candidates table target fr)")
      case None
      then have "\<not> (\<exists>c. adc_setting target fr c \<and> adc_usable (rs threshold) c)"
        using adc.scan_None_iff [OF all_adc_candidates_sound] usable set by blast
      then show ?thesis using run search False None unfolding Let_def d_def [symmetric] f_def [symmetric] by auto
    next
      case (Some c)
      have "adc_setting target fr c \<and> adc_usable (rs threshold) c \<and>
          (\<forall>c'. adc_setting target fr c' \<and> adc_usable (rs threshold) c' \<longrightarrow> preferred minimize c c')"
        using adc.scan_best [OF all_adc_candidates_sound Some] usable set order by blast
      then show ?thesis using run search False Some unfolding Let_def d_def [symmetric] f_def [symmetric] by auto
    qed
  qed
qed

text \<open>For 80 MHz: 320 MHz, from a third of the crystal times 80, divided by 4.\<close>

definition exact_80 :: adc_pll_config where
  "exact_80 = \<lparr>adc_valid = True, adc_fractional = False, adc_n = 3, adc_m = 40, adc_p = 2, adc_i = 0, adc_error = 0,
     adc_actual_fcco = 320000000, adc_actual_frequency = 80000000\<rparr>"

lemma exact_80_usable: "adc_setting 80000000 fr exact_80 \<and> adc_usable (rs threshold) exact_80" if "0 \<le> threshold"
proof -
  have s: "adc_effective_p_divisor (adc_p exact_80) * adc_effective_i_divisor (adc_i exact_80) = 4"
    by (simp add: exact_80_def adc_effective_p_divisor_def adc_effective_i_divisor_def)
  have "fcco_goal 80000000 4 = 320000000" by (simp add: fcco_goal_def)
  moreover have "nearest_integer_m 3 320000000 = 40"
    using c_round_of_int [of 40] by (simp add: nearest_integer_m_def adc_effective_n_divisor_def)
  ultimately have "adc_setting 80000000 fr exact_80"
    unfolding adc_setting_def s Let_def
    using rd_le [of "275 / 80" 4] rd_ge [of 5 "550 / 80"]
    by (simp add: exact_80_def legal_p_i_def adc_effective_n_divisor_def)
  moreover have "0 \<le> rs threshold" using that by (simp add: sgl.rnd_nonneg)
  ultimately show ?thesis by (simp add: adc_usable_def exact_80_def)
qed

theorem adc_search_optimal_witness:
  "\<exists>table c. adc_make_p_i_table = Inr table \<and>
     adc_find_divisors (Some table) 80000000 True True False 0 = Inr (PG2SDR_SUCCESS, Some c) \<and> adc_error c = 0 \<and>
     adc_setting 80000000 True c"
proof -
  obtain table where table: "adc_make_p_i_table = Inr table" using make_p_i_table_ok by blast
  have thr: "0 \<le> rd (80000000 * rd (1 / 10 ^ 6))" by (intro dbl.rnd_nonneg mult_nonneg_nonneg) simp_all
  note e = exact_80_usable [OF thr, of True]
  obtain c where c: "adc_find_divisors (Some table) 80000000 True True False 0 = Inr (PG2SDR_SUCCESS, Some c)"
      "adc_setting 80000000 True c" "preferred True c exact_80"
    using adc_search_optimal [OF table, of 80000000 "rd (80000000 * rd (1 / 10 ^ 6))" 0 True True False] e
    by (auto simp: Let_def split: if_splits)
  moreover have "adc_error c = 0"
    using c(2,3) by (simp add: preferred_def exact_80_def adc_setting_def Let_def)
  ultimately show ?thesis using table by blast
qed

end
