(* ===== verification/DspHistory.thy ===== *)
theory DspHistory
  imports PgPrelude
begin

section \<open>Filters with history (dsp/src/dsp-history.inc)\<close>

text \<open>
  The template that turns a function on blocks into one on a stream: \<open>block\<close> maps the
  samples at the start of a buffer, \<open>block_len\<close> at a time, each with a context of \<open>context_len\<close> samples. What
  cannot be processed yet is kept in a history buffer of \<open>history_max\<close> elements, of which the
  model keeps the valid ones. The counts are unsigned in C: the one subtraction that could wrap is
  guarded, so that a wrapped count shows as \<open>Out_of_bounds\<close>.
\<close>

definition history_process ::
  "('a list \<Rightarrow> nat \<Rightarrow> 'b list run) \<Rightarrow> nat \<Rightarrow> nat \<Rightarrow> nat \<Rightarrow> 'a list \<Rightarrow> 'a list \<Rightarrow> ('b list \<times> 'a list) run" where
  "history_process block block_len context_len history_max history inp =
    (if history_max < length history then Inl Out_of_bounds
     else let history_len = length history;
              history_fill = min (history_max - history_len) (length inp);
              filled = history @ take history_fill inp;
              history_available = history_len + history_fill
          in if history_available < context_len then Inr ([], filled)
             else
               let history_samples = (history_available - context_len + 1) div block_len * block_len
               in if history_samples = 0 then Inr ([], filled)
                  else run_bind (block filled history_samples) (\<lambda>out.
                    if history_samples < history_len then Inr (out, drop history_samples filled)
                    else
                      let offset = history_samples - history_len
                      in if length inp + 1 < offset + context_len then Inl Out_of_bounds
                         else
                           let main_samples = (length inp - offset + 1 - context_len) div block_len * block_len
                           in run_bind (block (drop offset inp) main_samples) (\<lambda>out'.
                                let kept = drop (offset + main_samples) inp
                                in if history_max < length kept then Inl Out_of_bounds
                                   else Inr (out @ out', kept))))"

text \<open>Calls on consecutive parts of a stream.\<close>

fun history_stream ::
  "('a list \<Rightarrow> nat \<Rightarrow> 'b list run) \<Rightarrow> nat \<Rightarrow> nat \<Rightarrow> nat \<Rightarrow> 'a list \<Rightarrow> 'a list list \<Rightarrow> ('b list \<times> 'a list) run" where
  "history_stream block bl ctx hmax h [] = Inr ([], h)"
| "history_stream block bl ctx hmax h (c # cs) =
    run_bind (history_process block bl ctx hmax h c) (\<lambda>(out, h').
      run_bind (history_stream block bl ctx hmax h' cs) (\<lambda>(outs, h''). Inr (out @ outs, h'')))"

subsection \<open>What the template promises of a block function\<close>

locale block_filter =
  fixes block :: "'a list \<Rightarrow> nat \<Rightarrow> 'b list run" and bl ctx :: nat and win :: "'a list \<Rightarrow> 'b"
  assumes block_ok: "n + ctx \<le> length xs + 1 \<or> n = 0 \<Longrightarrow> bl dvd n \<Longrightarrow>
      block xs n = Inr (map (\<lambda>k. win (take ctx (drop (k * bl) xs))) [0..<n div bl])"
    and lens: "0 < bl" "0 < ctx"
begin

definition count :: "'a list \<Rightarrow> nat" where
  "count xs = (length xs + 1 - ctx) div bl"

definition outputs :: "'a list \<Rightarrow> 'b list" where
  "outputs xs = map (\<lambda>k. win (take ctx (drop (k * bl) xs))) [0..<count xs]"

definition rest :: "'a list \<Rightarrow> 'a list" where
  "rest xs = drop (count xs * bl) xs"

lemma count_bound: "0 < count xs \<Longrightarrow> count xs * bl + ctx \<le> length xs + 1"
proof -
  assume c: "0 < count xs"
  have "count xs * bl \<le> length xs + 1 - ctx" by (simp add: count_def)
  moreover have "0 < count xs * bl" using c lens by simp
  ultimately show ?thesis by linarith
qed

lemma count_append: "count (xs @ ys) = count xs + count (rest xs @ ys)"
proof (cases "count xs = 0")
  case False
  then have b: "count xs * bl + ctx \<le> length xs + 1" by (intro count_bound) simp
  then have "length (xs @ ys) + 1 - ctx = (length (rest xs @ ys) + 1 - ctx) + count xs * bl"
    using lens(2) by (simp add: rest_def)
  then have "count (xs @ ys) = ((length (rest xs @ ys) + 1 - ctx) + count xs * bl) div bl"
    unfolding count_def [of "xs @ ys"] by (rule arg_cong)
  also have "... = count xs + count (rest xs @ ys)"
    using lens(1) by (simp add: count_def [of "rest xs @ ys"])
  finally show ?thesis .
qed (simp add: rest_def)

lemma rest_append: "rest (xs @ ys) = rest (rest xs @ ys)"
proof -
  have "count xs * bl \<le> length xs"
    using count_bound [of xs] lens by (cases "count xs = 0") simp_all
  then have r: "drop (count xs * bl) (xs @ ys) = rest xs @ ys" by (simp add: rest_def)
  define c where "c = count (rest xs @ ys)"
  have "rest (xs @ ys) = drop (c * bl) (drop (count xs * bl) (xs @ ys))"
    unfolding rest_def [of "xs @ ys"] count_append [of xs ys] c_def [symmetric]
    by (simp only: drop_drop distrib_right add.commute)
  then show ?thesis unfolding r by (simp only: c_def rest_def [of "rest xs @ ys"])
qed

lemma outputs_append: "outputs (xs @ ys) = outputs xs @ outputs (rest xs @ ys)"
proof -
  define c where "c = count xs"
  have le: "c * bl \<le> length xs"
    unfolding c_def using count_bound [of xs] lens by (cases "count xs = 0") simp_all
  have r: "rest xs @ ys = drop (c * bl) (xs @ ys)" using le by (simp add: rest_def c_def)
  have upt_shift: "[0..<c + m] = [0..<c] @ map (\<lambda>k. k + c) [0..<m]" for m
    by (simp only: upt_add_eq_append [of 0 c m, simplified] map_add_upt add.commute [of m c])
  have "outputs (xs @ ys) =
      map (\<lambda>k. win (take ctx (drop (k * bl) (xs @ ys)))) ([0..<c] @ map (\<lambda>k. k + c) [0..<count (rest xs @ ys)])"
    unfolding outputs_def count_append [of xs ys] c_def [symmetric] upt_shift ..
  also have "... = map (\<lambda>k. win (take ctx (drop (k * bl) (xs @ ys)))) [0..<c] @ outputs (rest xs @ ys)"
  proof -
    have "drop ((k + c) * bl) (xs @ ys) = drop (k * bl) (rest xs @ ys)" for k
      unfolding r by (simp only: drop_drop distrib_right)
    then show ?thesis by (simp only: outputs_def map_append map_map comp_def)
  qed
  also have "map (\<lambda>k. win (take ctx (drop (k * bl) (xs @ ys)))) [0..<c] = outputs xs"
  proof -
    have w: "take ctx (drop (k * bl) (xs @ ys)) = take ctx (drop (k * bl) xs)" if "k < c" for k
    proof -
      have "k * bl + bl \<le> c * bl" using that mult_le_mono1 [of "Suc k" c bl] by simp
      moreover have "c * bl + ctx \<le> length xs + 1" using that count_bound [of xs] unfolding c_def by simp
      ultimately have "k * bl + ctx \<le> length xs" using lens by linarith
      then show ?thesis by simp
    qed
    show ?thesis unfolding outputs_def c_def [symmetric]
      by (intro map_cong refl) (simp only: set_upt atLeastLessThan_iff w)
  qed
  finally show ?thesis .
qed

lemma rest_settled: "count (rest xs) = 0"
proof -
  have "count (xs @ []) = count xs + count (rest xs @ [])" by (rule count_append)
  then show ?thesis by simp
qed

lemma settled [simp]: "count xs = 0 \<Longrightarrow> rest xs = xs" "count xs = 0 \<Longrightarrow> outputs xs = []"
  by (simp_all add: rest_def outputs_def)

lemma settled_length: "count xs = 0 \<Longrightarrow> length xs + 2 \<le> ctx + bl"
proof -
  assume "count xs = 0"
  then have "length xs + 1 - ctx < bl" unfolding count_def using lens(1) by (simp add: div_eq_0_iff)
  then show ?thesis by linarith
qed

lemma block_outputs: "block xs (count xs * bl) = Inr (outputs xs)"
  using block_ok [of "count xs * bl" xs] count_bound [of xs] lens by (auto simp: outputs_def)

text \<open>One call: everything that can be processed is, and what is kept fits the history.\<close>

lemma history_process_spec:
  assumes h: "count h = 0" and room: "2 * ctx + 2 * bl \<le> hmax + 4" "ctx + bl \<le> hmax + 1"
  shows "history_process block bl ctx hmax h inp = Inr (outputs (h @ inp), rest (h @ inp))"
proof -
  have hl: "length h + 2 \<le> ctx + bl" using h by (rule settled_length)
  then have fits: "length h \<le> hmax" using room lens by linarith
  define fill where "fill = min (hmax - length h) (length inp)"
  define xs where "xs = h @ take fill inp"
  define ys where "ys = drop fill inp"
  have s: "h @ inp = xs @ ys" by (simp add: xs_def ys_def)
  have lx: "length xs = length h + fill" by (simp add: xs_def fill_def)
  have all: "ys = [] \<or> length xs = hmax" using fits by (auto simp: lx ys_def fill_def)
  have n1: "(length h + fill - ctx + 1) div bl * bl = count xs * bl" if "ctx \<le> length h + fill"
    using that by (simp add: count_def lx Suc_diff_le)
  show ?thesis
  proof (cases "count xs = 0")
    case True
    have "ys = []"
    proof (rule ccontr)
      assume "ys \<noteq> []"
      then have "length xs = hmax" using all by simp
      moreover have "length xs + 2 \<le> ctx + bl" using True by (rule settled_length)
      ultimately show False using room lens by linarith
    qed
    then have "outputs (h @ inp) = []" "rest (h @ inp) = xs" unfolding s using True by simp_all
    moreover have "history_process block bl ctx hmax h inp = Inr ([], xs)"
      using fits n1 True by (auto simp: history_process_def Let_def xs_def fill_def not_less)
    ultimately show ?thesis by simp
  next
    case False
    have cx: "count xs * bl + ctx \<le> length xs + 1" using False by (intro count_bound) simp
    have pos: "bl \<le> count xs * bl" using False by simp
    have c1: "ctx \<le> length h + fill" using cx pos lens unfolding lx by linarith
    have pos0: "count xs * bl \<noteq> 0" using False lens by simp
    define n where "n = count xs * bl"
    have avail: "\<not> length h + fill < ctx" using c1 by simp
    have e: "(hmax < length h) = False" "(length h + fill < ctx) = False" "(n = 0) = False" "block xs n = Inr (outputs xs)"
      using fits avail pos0 block_outputs [of xs] by (simp_all add: n_def)
    have count_drop: "(length inp - m + 1 - ctx) div bl * bl = count (drop m inp) * bl" for m by (simp add: count_def)
    have start: "history_process block bl ctx hmax h inp =
        (if n < length h then Inr (outputs xs, drop n xs)
         else if length inp + 1 < n - length h + ctx then Inl Out_of_bounds
         else run_bind (block (drop (n - length h) inp) (count (drop (n - length h) inp) * bl)) (\<lambda>out'.
           if hmax < length (drop (n - length h + count (drop (n - length h) inp) * bl) inp) then Inl Out_of_bounds
           else Inr (outputs xs @ out', drop (n - length h + count (drop (n - length h) inp) * bl) inp)))"
      unfolding history_process_def Let_def fill_def [symmetric] xs_def [symmetric] n1 [OF c1] n_def [symmetric]
      using e by (simp only: if_False run_bind_simps prod.case count_drop)
    show ?thesis
    proof (cases "n < length h")
      case True
      have "ys = []"
      proof (rule ccontr)
        assume "ys \<noteq> []"
        then have "length xs = hmax" using all by simp
        moreover have "length xs + 1 < ctx + n + bl"
          using settled_length [OF rest_settled [of xs]] cx lens unfolding rest_def n_def by simp
        ultimately show False using room True hl by linarith
      qed
      then show ?thesis using start True s by (simp add: rest_def n_def)
    next
      case ge: False
      define off where "off = n - length h"
      have r: "rest xs @ ys = drop off inp"
      proof -
        have "rest xs @ ys = drop n (h @ inp)" unfolding s rest_def n_def using cx lens by simp
        then show ?thesis using ge by (simp add: off_def)
      qed
      have "off + ctx \<le> length inp + 1"
        using cx ge unfolding off_def n_def [symmetric] lx fill_def by linarith
      then have ok: "\<not> length inp + 1 < off + ctx" by simp
      have keep: "drop (off + count (drop off inp) * bl) inp = rest (drop off inp)"
        by (simp add: rest_def add.commute)
      have "length (rest (drop off inp)) \<le> hmax"
        using settled_length [OF rest_settled [of "drop off inp"]] room lens by linarith
      then have "history_process block bl ctx hmax h inp = Inr (outputs xs @ outputs (drop off inp), rest (drop off inp))"
        using start ge ok block_outputs [of "drop off inp"] unfolding off_def [symmetric] keep by simp
      then show ?thesis unfolding s outputs_append [of xs ys] rest_append [of xs ys] r .
    qed
  qed
qed

lemma history_stream_spec:
  assumes "count h = 0" and room: "2 * ctx + 2 * bl \<le> hmax + 4" "ctx + bl \<le> hmax + 1"
  shows "history_stream block bl ctx hmax h cs = Inr (outputs (h @ concat cs), rest (h @ concat cs))"
  using assms(1)
proof (induction cs arbitrary: h)
  case (Cons c cs)
  have "history_stream block bl ctx hmax (rest (h @ c)) cs =
      Inr (outputs (rest (h @ c) @ concat cs), rest (rest (h @ c) @ concat cs))"
    by (rule Cons.IH) (rule rest_settled)
  then show ?case
    using history_process_spec [OF Cons.prems room, of c] outputs_append [of "h @ c" "concat cs"]
      rest_append [of "h @ c" "concat cs"] by simp
qed simp

end

end
