(* ===== verification/Dsp.thy ===== *)
theory Dsp
  imports DspHistory CNum
begin

section \<open>Signal processing (dsp/impl/*.generic.c, dsp/src/dsp.c)\<close>

text \<open>
  From packed ADC words to samples, from real samples to complex ones around a quarter of the
  sample rate, and the half-band filter that decimates by two. The models are of the generic
  implementations. A signed 16-bit sample is a word read by \<open>sint\<close>; conversions to \<open>int16_t\<close> keep the low bits.
\<close>

record cs16 =
  ci :: i16
  cq :: i16

subsection \<open>Unpacking\<close>

fun unpack_loop :: "u32 list \<Rightarrow> i16 list" where
  "unpack_loop (first # second # third # inp) =
    [ucast (push_bit 4 (first AND 0x00000FFF)), ucast (drop_bit 12 (first AND 0x0FFF0000)),
     ucast (push_bit 4 (second AND 0x00000FFF)), ucast (drop_bit 12 (second AND 0x0FFF0000)),
     ucast (push_bit 4 (third AND 0x00000FFF)), ucast (drop_bit 12 (third AND 0x0FFF0000)),
     ucast ((first AND 0x0000F000) OR drop_bit 4 (second AND 0x0000F000) OR drop_bit 8 (third AND 0x0000F000)),
     ucast (drop_bit 16 (first AND 0xF0000000) OR drop_bit 20 (second AND 0xF0000000)
       OR drop_bit 24 (third AND 0xF0000000))] @ unpack_loop inp"
| "unpack_loop inp = []"

definition unpack_raw_adc_data :: "u32 list \<Rightarrow> i16 list run" where
  "unpack_raw_adc_data inp = (if length inp mod 3 \<noteq> 0 then Inl Assertion_failed else Inr (unpack_loop inp))"

fun unpack_invert_loop :: "u32 list \<Rightarrow> i16 list" where
  "unpack_invert_loop (first # second # third # inp) =
    [ucast (push_bit 4 (first AND 0x00000FFF)), - ucast (drop_bit 12 (first AND 0x0FFF0000)),
     ucast (push_bit 4 (second AND 0x00000FFF)), - ucast (drop_bit 12 (second AND 0x0FFF0000)),
     ucast (push_bit 4 (third AND 0x00000FFF)), - ucast (drop_bit 12 (third AND 0x0FFF0000)),
     ucast ((first AND 0x0000F000) OR drop_bit 4 (second AND 0x0000F000) OR drop_bit 8 (third AND 0x0000F000)),
     - ucast (drop_bit 16 (first AND 0xF0000000) OR drop_bit 20 (second AND 0xF0000000)
       OR drop_bit 24 (third AND 0xF0000000))] @ unpack_invert_loop inp"
| "unpack_invert_loop inp = []"

definition unpack_raw_adc_data_invert :: "u32 list \<Rightarrow> i16 list run" where
  "unpack_raw_adc_data_invert inp =
    (if length inp mod 3 \<noteq> 0 then Inl Assertion_failed else Inr (unpack_invert_loop inp))"

subsection \<open>Mixing with a quarter of the sample rate\<close>

fun fs4_loop :: "i16 list \<Rightarrow> cs16 list" where
  "fs4_loop (a # b # c # d # inp) =
    [\<lparr>ci = a, cq = 0\<rparr>, \<lparr>ci = 0, cq = - b\<rparr>, \<lparr>ci = - c, cq = 0\<rparr>, \<lparr>ci = 0, cq = d\<rparr>] @ fs4_loop inp"
| "fs4_loop inp = []"

definition fs4_mix :: "i16 list \<Rightarrow> cs16 list run" where
  "fs4_mix inp = (if length inp mod 4 \<noteq> 0 then Inl Assertion_failed else Inr (fs4_loop inp))"

subsection \<open>The half-band filter\<close>

text \<open>One sum of products, in 32 bits: the center tap first, then the even taps in order.\<close>

definition center_offset :: "i16 list \<Rightarrow> nat" where
  "center_offset taps = (length taps - 1) div 2"

definition mac :: "i16 list \<Rightarrow> i16 list \<Rightarrow> i32" where
  "mac taps xs =
    foldl (\<lambda>s j. s + scast (xs ! j) * scast (taps ! j))
      (scast (taps ! center_offset taps) * scast (xs ! center_offset taps))
      (filter even [0..<length taps])"

definition halfband_point :: "i16 list \<Rightarrow> cs16 list \<Rightarrow> cs16" where
  "halfband_point taps xs =
    \<lparr>ci = ucast (signed_drop_bit 15 (mac taps (map ci xs))), cq = ucast (signed_drop_bit 15 (mac taps (map cq xs)))\<rparr>"

definition halfband_decimate_block :: "i16 list \<Rightarrow> cs16 list \<Rightarrow> nat \<Rightarrow> cs16 list run" where
  "halfband_decimate_block taps inp count =
    (if taps = [] then Inl Out_of_bounds
     else if count mod 2 \<noteq> 0 then Inl Assertion_failed
     else if count \<noteq> 0 \<and> length inp + 2 < count + length taps then Inl Out_of_bounds
     else Inr (map (\<lambda>k. halfband_point taps (take (length taps) (drop (2 * k) inp))) [0..<count div 2]))"

record halfband_state =
  hb_taps :: "i16 list"
  hb_history :: "cs16 list"
  hb_history_max :: nat
  hb_context_len :: nat

definition halfband_decimate_process ::
  "halfband_state \<Rightarrow> cs16 list \<Rightarrow> (halfband_state \<times> cs16 list) run" where
  "halfband_decimate_process st inp =
    run_bind (history_process (halfband_decimate_block (hb_taps st)) 2 (hb_context_len st) (hb_history_max st)
        (hb_history st) inp) (\<lambda>(out, h). Inr (st\<lparr>hb_history := h\<rparr>, out))"

definition halfband_decimate_reset :: "halfband_state \<Rightarrow> halfband_state" where
  "halfband_decimate_reset st =
    st\<lparr>hb_history := replicate (hb_context_len st - 1) \<lparr>ci = 0, cq = 0\<rparr>\<rparr>"

subsection \<open>Creating a filter from its taps\<close>

definition halfband_taps_valid :: "double list option \<Rightarrow> bool" where
  "halfband_taps_valid taps =
    (case taps of
       None \<Rightarrow> False
     | Some t \<Rightarrow>
         let n = length t; center_tap = t ! ((n - 1) div 2)
         in n mod 2 = 1 \<and> center_tap \<noteq> 0 \<and>
            (\<forall>i \<in> set [0..<n div 2].
               \<not> ((n div 2 - i) mod 2 = 0 \<and> t ! i \<noteq> 0) \<and> t ! i = t ! (n - i - 1) \<and> \<not> \<bar>center_tap\<bar> < \<bar>t ! i\<bar>))"

definition to_int16 :: "rat \<Rightarrow> i16 run" where
  "to_int16 x = (if - (2 ^ 15) \<le> trunc x \<and> trunc x < 2 ^ 15 then Inr (word_of_int (trunc x))
     else Inl Undefined_conversion)"

definition add_tap :: "double \<Rightarrow> double \<Rightarrow> double" where
  "add_tap s x = rs (rd (s + rd (\<bar>x\<bar> * 2)))"

definition sum_taps :: "double list \<Rightarrow> double" where
  "sum_taps t = rs (foldl add_tap 0 (take (length t div 2) t) + t ! ((length t - 1) div 2))"

definition quantize_tap :: "double \<Rightarrow> double \<Rightarrow> i16 run" where
  "quantize_tap scale x = to_int16 (rd (rs (x * scale) + 1 / 2))"

text \<open>\<open>allocs\<close>: whether the allocations of the state and of its two arrays succeed.\<close>

definition halfband_decimate_create :: "bool \<times> bool \<Rightarrow> double list option \<Rightarrow> halfband_state option run" where
  "halfband_decimate_create allocs taps =
    (if \<not> halfband_taps_valid taps then Inr None
     else case taps of
       None \<Rightarrow> Inl Null_dereference
     | Some t \<Rightarrow>
         let scale = rs (32767 / sum_taps t)
         in if \<not> fst allocs then Inr None
            else if length t mod 4 = 1 \<and> t ! 0 \<noteq> 0 then Inl Assertion_failed
            else if length t mod 4 \<noteq> 1 \<and> t ! 0 = 0 then Inl Assertion_failed
            else
              let t = (if length t mod 4 = 1 then take (length t - 2) (drop 1 t) else t)
              in if \<not> snd allocs then Inr None
                 else run_bind (run_foldl (\<lambda>acc x. run_bind (quantize_tap scale x) (\<lambda>q. Inr (acc @ [q]))) [] t) (\<lambda>q.
                   Inr (Some (halfband_decimate_reset
                     \<lparr>hb_taps = q, hb_history = [], hb_history_max = 2 * length t, hb_context_len = length t\<rparr>))))"

definition default_tap :: "int \<Rightarrow> double" where
  "default_tap x = rs (rd (of_int x / 10 ^ 8))"

definition default_halfband_taps :: "double list" where
  "default_halfband_taps = map default_tap
    [- 105091, 0, 250767, 0, - 489230, 0, 855213, 0, - 1398270, 0, 2201170, 0, - 3432240, 0, 5525970, 0,
     - 10087800, 0, 31653700, 50000000, 31653700, 0, - 10087800, 0, 5525970, 0, - 3432240, 0, 2201170, 0,
     - 1398270, 0, 855213, 0, - 489230, 0, 250767, 0, - 105091]"

subsection \<open>The downconverter\<close>

record downconvert_state =
  dc_decimate :: halfband_state
  dc_max_in_length :: nat

definition downconvert_process ::
  "downconvert_state \<Rightarrow> i16 list \<Rightarrow> (downconvert_state \<times> cs16 list) run" where
  "downconvert_process st inp =
    (if length inp mod 4 \<noteq> 0 then Inl Assertion_failed
     else if dc_max_in_length st < length inp then Inl Assertion_failed
     else run_bind (fs4_mix inp) (\<lambda>mixed.
       run_bind (halfband_decimate_process (dc_decimate st) mixed) (\<lambda>(d, out).
         Inr (st\<lparr>dc_decimate := d\<rparr>, out))))"

definition downconvert_reset :: "downconvert_state \<Rightarrow> downconvert_state" where
  "downconvert_reset st = st\<lparr>dc_decimate := halfband_decimate_reset (dc_decimate st)\<rparr>"

definition downconvert_create ::
  "bool \<times> bool \<times> bool \<times> bool \<Rightarrow> double list option \<Rightarrow> nat \<Rightarrow> downconvert_state option run" where
  "downconvert_create allocs taps max_in_length =
    (case allocs of (state_ok, hb_state_ok, hb_arrays_ok, buffer_ok) \<Rightarrow>
       if \<not> state_ok then Inr None
       else run_bind (halfband_decimate_create (hb_state_ok, hb_arrays_ok) taps) (\<lambda>d.
         case d of
           None \<Rightarrow> Inr None
         | Some d \<Rightarrow>
             if \<not> buffer_ok then Inr None
             else Inr (Some (downconvert_reset \<lparr>dc_decimate = d, dc_max_in_length = max_in_length\<rparr>))))"

subsection \<open>The filter as a block filter\<close>

interpretation hb: block_filter "halfband_decimate_block (t # ts)" 2 "length (t # ts)" "halfband_point (t # ts)" for t ts
proof unfold_locales
  fix n and xs :: "cs16 list"
  assume "n + length (t # ts) \<le> length xs + 1 \<or> n = 0" "2 dvd n"
  then show "halfband_decimate_block (t # ts) xs n =
      Inr (map (\<lambda>k. halfband_point (t # ts) (take (length (t # ts)) (drop (k * 2) xs))) [0..<n div 2])"
    by (auto simp: halfband_decimate_block_def mult.commute)
qed simp_all

subsection \<open>The default taps\<close>

lemma default_tap_values:
  "default_tap (- 105091) = - (564203 / 536870912)"
  "default_tap 0 = 0"
  "default_tap 250767 = 10770361 / 4294967296"
  "default_tap (- 489230) = - (5253067 / 1073741824)"
  "default_tap 855213 = 2295695 / 268435456"
  "default_tap (- 1398270) = - (7506905 / 536870912)"
  "default_tap 2201170 = 11817441 / 536870912"
  "default_tap (- 3432240) = - (9213349 / 268435456)"
  "default_tap 5525970 = 14833663 / 268435456"
  "default_tap (- 10087800) = - (423113 / 4194304)"
  "default_tap 31653700 = 10621219 / 33554432"
  "default_tap 50000000 = 1 / 2"
  by code_simp+

lemma add_tap_values_low:
  "add_tap 0 (- (564203 / 536870912)) = 564203 / 268435456"
  "add_tap (564203 / 268435456) 0 = 564203 / 268435456"
  "add_tap (564203 / 268435456) (10770361 / 4294967296) = 15283985 / 2147483648"
  "add_tap (15283985 / 2147483648) 0 = 15283985 / 2147483648"
  "add_tap (15283985 / 2147483648) (- (5253067 / 1073741824)) = 9074063 / 536870912"
  "add_tap (9074063 / 536870912) 0 = 9074063 / 536870912"
  "add_tap (9074063 / 536870912) (2295695 / 268435456) = 4564211 / 134217728"
  "add_tap (4564211 / 134217728) 0 = 4564211 / 134217728"
  "add_tap (4564211 / 134217728) (- (7506905 / 536870912)) = 16635327 / 268435456"
  "add_tap (16635327 / 268435456) 0 = 16635327 / 268435456"
  by code_simp+

lemma add_tap_values_high:
  "add_tap (16635327 / 268435456) (11817441 / 536870912) = 889149 / 8388608"
  "add_tap (889149 / 8388608) 0 = 889149 / 8388608"
  "add_tap (889149 / 8388608) (- (9213349 / 268435456)) = 5859933 / 33554432"
  "add_tap (5859933 / 33554432) 0 = 5859933 / 33554432"
  "add_tap (5859933 / 33554432) (14833663 / 268435456) = 9568349 / 33554432"
  "add_tap (9568349 / 33554432) 0 = 9568349 / 33554432"
  "add_tap (9568349 / 33554432) (- (423113 / 4194304)) = 16338157 / 33554432"
  "add_tap (16338157 / 33554432) 0 = 16338157 / 33554432"
  "add_tap (16338157 / 33554432) (10621219 / 33554432) = 9395149 / 8388608"
  by code_simp+

lemmas add_tap_values = add_tap_values_low add_tap_values_high

lemma scale_value: "rs (9395149 / 8388608 + 1 / 2) = 13589453 / 8388608" "rs (32767 / (13589453 / 8388608)) = 2589015 / 128"
  by code_simp+

lemma quantize_tap_values:
  "quantize_tap (2589015 / 128) (- (564203 / 536870912)) = Inr (- 20)"
  "quantize_tap (2589015 / 128) 0 = Inr 0"
  "quantize_tap (2589015 / 128) (10770361 / 4294967296) = Inr 51"
  "quantize_tap (2589015 / 128) (- (5253067 / 1073741824)) = Inr (- 98)"
  "quantize_tap (2589015 / 128) (2295695 / 268435456) = Inr 173"
  "quantize_tap (2589015 / 128) (- (7506905 / 536870912)) = Inr (- 282)"
  "quantize_tap (2589015 / 128) (11817441 / 536870912) = Inr 445"
  "quantize_tap (2589015 / 128) (- (9213349 / 268435456)) = Inr (- 693)"
  "quantize_tap (2589015 / 128) (14833663 / 268435456) = Inr 1118"
  "quantize_tap (2589015 / 128) (- (423113 / 4194304)) = Inr (- 2039)"
  "quantize_tap (2589015 / 128) (10621219 / 33554432) = Inr 6402"
  "quantize_tap (2589015 / 128) (1 / 2) = Inr 10113"
  by code_simp+

lemma default_halfband_quantized:
  "halfband_decimate_create (True, True) (Some default_halfband_taps) = Inr (Some
    \<lparr>hb_taps = [- 20, 0, 51, 0, - 98, 0, 173, 0, - 282, 0, 445, 0, - 693, 0, 1118, 0, - 2039, 0, 6402, 10113, 6402, 0,
       - 2039, 0, 1118, 0, - 693, 0, 445, 0, - 282, 0, 173, 0, - 98, 0, 51, 0, - 20],
     hb_history = replicate 38 \<lparr>ci = 0, cq = 0\<rparr>, hb_history_max = 78, hb_context_len = 39\<rparr>)"
proof -
  define t where "t = default_halfband_taps"
  have t: "t = [- (564203 / 536870912), 0, 10770361 / 4294967296, 0, - (5253067 / 1073741824), 0, 2295695 / 268435456, 0, - (7506905 / 536870912), 0, 11817441 / 536870912, 0, - (9213349 / 268435456), 0, 14833663 / 268435456, 0, - (423113 / 4194304), 0, 10621219 / 33554432, 1 / 2, 10621219 / 33554432, 0, - (423113 / 4194304), 0, 14833663 / 268435456, 0, - (9213349 / 268435456), 0, 11817441 / 536870912, 0, - (7506905 / 536870912), 0, 2295695 / 268435456, 0, - (5253067 / 1073741824), 0, 10770361 / 4294967296, 0, - (564203 / 536870912)]"
    unfolding t_def default_halfband_taps_def by (simp only: list.map default_tap_values)
  have n: "length t = 39" by (simp add: t)
  have s: "rs (32767 / sum_taps t) = 2589015 / 128"
  proof -
    have h: "take (39 div 2) t = [- (564203 / 536870912), 0, 10770361 / 4294967296, 0, - (5253067 / 1073741824), 0, 2295695 / 268435456, 0, - (7506905 / 536870912), 0, 11817441 / 536870912, 0, - (9213349 / 268435456), 0, 14833663 / 268435456, 0, - (423113 / 4194304), 0, 10621219 / 33554432]" by (simp add: t)
    have c: "t ! ((39 - 1) div 2) = 1 / 2" by (simp add: t)
    show ?thesis unfolding sum_taps_def n h c by (simp only: foldl.simps add_tap_values scale_value)
  qed
  have v: "halfband_taps_valid (Some t)"
    unfolding t by code_simp
  have t0: "t ! 0 \<noteq> 0" by (simp add: t)
  have q: "run_foldl (\<lambda>acc x. run_bind (quantize_tap (2589015 / 128) x) (\<lambda>q. Inr (acc @ [q]))) [] t =
      Inr [- 20, 0, 51, 0, - 98, 0, 173, 0, - 282, 0, 445, 0, - 693, 0, 1118, 0, - 2039, 0, 6402, 10113, 6402, 0,
       - 2039, 0, 1118, 0, - 693, 0, 445, 0, - 282, 0, 173, 0, - 98, 0, 51, 0, - 20]"
    unfolding t by (simp only: run_foldl.simps quantize_tap_values run_bind_simps append.simps)
  show ?thesis
    unfolding halfband_decimate_create_def t_def [symmetric] option.case Let_def s n
    using v t0 q by (simp add: n halfband_decimate_reset_def)
qed

end
