(* ===== verification/DspProps.thy ===== *)
theory DspProps
  imports Dsp
begin

section \<open>Properties of the signal processing\<close>

text \<open>
  The packed format is decoded exactly, mixing is a rotation, the filter is an exact FIR that never
  overflows, and processing a stream in pieces is processing it whole.
\<close>

subsection \<open>The packed format\<close>

text \<open>The encoding the ADC hardware uses: eight 12-bit samples in three words.\<close>

definition pack_word :: "12 word \<Rightarrow> 4 word \<Rightarrow> 12 word \<Rightarrow> 4 word \<Rightarrow> u32" where
  "pack_word lo nib mid hi =
    ucast lo OR push_bit 12 (ucast nib) OR push_bit 16 (ucast mid) OR push_bit 28 (ucast hi)"

fun pack_samples :: "12 word list \<Rightarrow> u32 list" where
  "pack_samples (s0 # s1 # s2 # s3 # s4 # s5 # s6 # s7 # ss) =
    [pack_word s0 (ucast (drop_bit 8 s6)) s1 (ucast (drop_bit 8 s7)),
     pack_word s2 (ucast (drop_bit 4 s6)) s3 (ucast (drop_bit 4 s7)),
     pack_word s4 (ucast s6) s5 (ucast s7)] @ pack_samples ss"
| "pack_samples ss = []"

definition scale12 :: "12 word \<Rightarrow> i16" where
  "scale12 s = push_bit 4 (ucast s)"

lemma word_masks:
  "(0x00000FFF :: u32) = mask 12" "(0x0FFF0000 :: u32) = push_bit 16 (mask 12)"
  "(0x0000F000 :: u32) = push_bit 12 (mask 4)" "(0xF0000000 :: u32) = push_bit 28 (mask 4)"
  by (simp_all add: mask_eq_exp_minus_1 push_bit_eq_mult)

lemma bit_12: "bit (s :: 12 word) k \<Longrightarrow> k < 12"
  using bit_imp_le_length [of s k] by simp

lemma bit_4: "bit (s :: 4 word) k \<Longrightarrow> k < 4"
  using bit_imp_le_length [of s k] by simp

lemma bit_pack_word:
  "bit (pack_word lo nib mid hi) k \<longleftrightarrow>
    (if k < 12 then bit lo k else if k < 16 then bit nib (k - 12) else if k < 28 then bit mid (k - 16)
     else bit hi (k - 28))"
  by (auto simp: pack_word_def bit_simps dest: bit_12 bit_4)

lemma bit_scale12: "bit (scale12 s) k \<longleftrightarrow> 4 \<le> k \<and> bit s (k - 4)"
  by (auto simp: scale12_def bit_simps dest: bit_12)

lemma unpack_low: "ucast (push_bit 4 (pack_word lo nib mid hi AND mask 12)) = scale12 lo"
  by (rule bit_word_eqI) (auto simp: bit_simps bit_pack_word bit_scale12 dest: bit_12)

lemma unpack_mid: "ucast (drop_bit 12 (pack_word lo nib mid hi AND push_bit 16 (mask 12))) = scale12 mid"
  by (rule bit_word_eqI) (auto simp: bit_simps bit_pack_word bit_scale12 dest: bit_12)

lemma unpack_top:
  "ucast (pack_word a (ucast (drop_bit 8 s)) b c AND push_bit 12 (mask 4) OR
     drop_bit 4 (pack_word d (ucast (drop_bit 4 s)) e f AND push_bit 12 (mask 4)) OR
     drop_bit 8 (pack_word g (ucast s) h i AND push_bit 12 (mask 4))) = scale12 s"
proof (rule bit_word_eqI)
  fix k assume "k < LENGTH(16)"
  then have "k \<in> {0..<4} \<or> k \<in> {4..<8} \<or> k \<in> {8..<12} \<or> k \<in> {12..<16}" by auto
  then show "bit (ucast (pack_word a (ucast (drop_bit 8 s)) b c AND push_bit 12 (mask 4) OR
     drop_bit 4 (pack_word d (ucast (drop_bit 4 s)) e f AND push_bit 12 (mask 4)) OR
     drop_bit 8 (pack_word g (ucast s) h i AND push_bit 12 (mask 4))) :: i16) k = bit (scale12 s) k"
    by (elim disjE) (auto simp: bit_simps bit_pack_word bit_scale12)
qed

lemma unpack_high:
  "ucast (drop_bit 16 (pack_word a b c (ucast (drop_bit 8 s)) AND push_bit 28 (mask 4)) OR
     drop_bit 20 (pack_word d e f (ucast (drop_bit 4 s)) AND push_bit 28 (mask 4)) OR
     drop_bit 24 (pack_word g h i (ucast s) AND push_bit 28 (mask 4))) = scale12 s"
proof (rule bit_word_eqI)
  fix k assume "k < LENGTH(16)"
  then have "k \<in> {0..<4} \<or> k \<in> {4..<8} \<or> k \<in> {8..<12} \<or> k \<in> {12..<16}" by auto
  then show "bit (ucast (drop_bit 16 (pack_word a b c (ucast (drop_bit 8 s)) AND push_bit 28 (mask 4)) OR
     drop_bit 20 (pack_word d e f (ucast (drop_bit 4 s)) AND push_bit 28 (mask 4)) OR
     drop_bit 24 (pack_word g h i (ucast s) AND push_bit 28 (mask 4))) :: i16) k = bit (scale12 s) k"
    by (elim disjE) (auto simp: bit_simps bit_pack_word bit_scale12)
qed

lemma sint_word_of_int_small:
  "- (2 ^ (LENGTH('a) - 1)) \<le> x \<Longrightarrow> x < 2 ^ (LENGTH('a) - 1) \<Longrightarrow> sint (word_of_int x :: 'a::len word) = x"
  by (simp add: signed_of_int signed_take_bit_int_eq_self)

lemma unpack_loop_pack: "8 dvd length ss \<Longrightarrow> unpack_loop (pack_samples ss) = map scale12 ss"
proof (induction ss rule: pack_samples.induct)
  case (1 s0 s1 s2 s3 s4 s5 s6 s7 ss)
  then have "8 dvd length ss" by (simp add: dvd_def) presburger
  then show ?case
    using 1 by (simp only: pack_samples.simps append.simps unpack_loop.simps word_masks unpack_low unpack_mid unpack_top
        unpack_high list.map)
qed (simp_all, presburger+)

text \<open>C39: \<open>unpack_raw_adc_data\<close> recovers exactly what the hardware packed: for any number
  of groups of eight 12-bit samples, packed three words to the group, it returns the samples in order, each scaled to
  16 bits by four bits, sign included.\<close>

theorem unpack_roundtrip:
  assumes "8 dvd length ss"
  shows "unpack_raw_adc_data (pack_samples ss) = Inr (map scale12 ss) \<and>
    (\<forall>s \<in> set ss. sint (scale12 s) = 16 * sint s)"
proof -
  have "length (pack_samples ss) mod 3 = 0"
    by (induction ss rule: pack_samples.induct) simp_all
  moreover have "sint (scale12 s) = 16 * sint s" for s
  proof -
    have "scale12 s = push_bit 4 (scast s)"
    proof (rule bit_word_eqI)
      fix k assume "k < LENGTH(16)"
      then consider "k < 4" | "4 \<le> k" "k < 15" | "k = 15" by fastforce
      then show "bit (scale12 s) k = bit (push_bit 4 (scast s) :: i16) k"
        by cases (auto simp: bit_scale12 bit_simps)
    qed
    also have "push_bit 4 (scast s :: i16) = scast s * 16" by (simp only: push_bit_eq_mult) simp
    also have "... = word_of_int (sint s * 16)" by (simp only: scast_eq of_int_mult of_int_numeral)
    finally have "sint (scale12 s) = sint (word_of_int (sint s * 16) :: i16)" by (rule arg_cong)
    moreover have "sint (word_of_int (sint s * 16) :: i16) = sint s * 16"
      using sint_greater_eq [of s] sint_less [of s] by (intro sint_word_of_int_small) simp_all
    ultimately show ?thesis by (simp only: mult.commute)
  qed
  ultimately show ?thesis using unpack_loop_pack [OF assms] by (simp add: unpack_raw_adc_data_def)
qed

theorem unpack_roundtrip_witness:
  "unpack_raw_adc_data (pack_samples [1, -1, 2, -2, 3, -3, 0x7FF, 0x800]) =
    Inr (map scale12 [1, -1, 2, -2, 3, -3, 0x7FF, 0x800])"
proof -
  have "8 dvd length [1, -1, 2, -2, 3, -3, 0x7FF, 0x800 :: 12 word]" by (simp, presburger)
  then show ?thesis using unpack_roundtrip by blast
qed

subsection \<open>Inverting and mixing\<close>

definition negate_odd :: "nat \<Rightarrow> i16 \<Rightarrow> i16" where
  "negate_odd n x = (if odd n then - x else x)"

lemma unpack_invert_enumerate:
  "even n \<Longrightarrow> unpack_invert_loop ws = map (\<lambda>(k, x). negate_odd k x) (enumerate n (unpack_loop ws))"
proof (induction ws arbitrary: n rule: unpack_loop.induct)
  case (1 a b c ws)
  have "even (Suc (Suc (Suc (Suc (Suc (Suc (Suc (Suc n))))))))" using 1(2) by simp
  from 1(1) [OF this] 1(2) show ?case
    by (simp only: unpack_invert_loop.simps unpack_loop.simps append.simps enumerate_simps list.map prod.case
        negate_odd_def even_Suc not_True_eq_False not_False_eq_True if_True if_False)
qed simp_all

text \<open>Note: the inverting variant returns the samples of \<open>unpack_raw_adc_data\<close> with every second
  one negated (which mirrors the spectrum), and asserts in the same cases. The negation is in 16 bits, so
  the most negative sample stays what it is.\<close>

theorem unpack_invert_negates:
  "unpack_raw_adc_data_invert ws =
    run_bind (unpack_raw_adc_data ws) (\<lambda>xs. Inr (map (\<lambda>(k, x). negate_odd k x) (enumerate 0 xs)))"
  using unpack_invert_enumerate [of 0 ws] by (simp add: unpack_raw_adc_data_def unpack_raw_adc_data_invert_def)

lemma negation_saturates: "unpack_raw_adc_data_invert [0x08000000, 0, 0] = Inr [0, word_of_int (- 32768), 0, 0, 0, 0, 0, 0]"
  by (simp add: unpack_raw_adc_data_invert_def)

definition quarter_turn :: "cs16 \<Rightarrow> cs16" where
  "quarter_turn z = \<lparr>ci = cq z, cq = - ci z\<rparr>"

lemma quarter_turn_4: "(quarter_turn ^^ (n + 4)) z = (quarter_turn ^^ n) z"
proof -
  have "quarter_turn (quarter_turn (quarter_turn (quarter_turn z))) = z" by (simp add: quarter_turn_def)
  then show ?thesis by (simp add: numeral_eq_Suc funpow_swap1)
qed

lemma fs4_loop_turns:
  "4 dvd length xs \<Longrightarrow> 4 dvd n \<Longrightarrow>
    fs4_loop xs = map (\<lambda>(k, x). (quarter_turn ^^ k) \<lparr>ci = x, cq = 0\<rparr>) (enumerate n xs)"
proof (induction xs arbitrary: n rule: fs4_loop.induct)
  case (1 a b c d xs)
  have l: "4 dvd length xs" "4 dvd n + 4" using 1(2,3) by (simp_all, presburger+)
  have t: "(quarter_turn ^^ n) z = z" for z
  proof -
    have "(quarter_turn ^^ (4 * m)) z = z" for m
    proof (induction m)
      case (Suc m)
      have "(quarter_turn ^^ (4 * m + 4)) z = (quarter_turn ^^ (4 * m)) z" by (rule quarter_turn_4)
      then show ?case using Suc by (simp add: add.commute)
    qed simp
    then show ?thesis using 1(3) by (metis dvdE)
  qed
  have s: "(quarter_turn ^^ Suc k) z = quarter_turn ((quarter_turn ^^ k) z)" for k z by simp
  show ?case
    using 1(1) [OF l] by (simp only: fs4_loop.simps append.simps enumerate_simps list.map prod.case s t)
      (simp add: quarter_turn_def numeral_eq_Suc)
qed (simp_all, presburger+)

text \<open>Note: \<open>fs4_mix\<close> multiplies sample n by the n-th power of -j (a rotation by a quarter turn per
  sample, which moves a quarter of the sample rate to zero), without any multiplication.\<close>

theorem fs4_mix_rotates:
  assumes "4 dvd length xs"
  shows "fs4_mix xs = Inr (map (\<lambda>(k, x). (quarter_turn ^^ k) \<lparr>ci = x, cq = 0\<rparr>) (enumerate 0 xs))"
  using assms fs4_loop_turns [OF assms, of 0] by (simp add: fs4_mix_def dvd_eq_mod_eq_0)

theorem fs4_mix_rotates_witness:
  "fs4_mix [5, 6, 7, 8] = Inr (map (\<lambda>(k, x). (quarter_turn ^^ k) \<lparr>ci = x, cq = 0\<rparr>) (enumerate 0 [5, 6, 7, 8]))"
  by (rule fs4_mix_rotates) (simp, presburger)

subsection \<open>The filter is exact\<close>

definition halfband_structure :: "i16 list \<Rightarrow> bool" where
  "halfband_structure taps \<longleftrightarrow> odd (length taps) \<and> odd (center_offset taps) \<and>
    (\<forall>j < length taps. odd j \<and> j \<noteq> center_offset taps \<longrightarrow> taps ! j = 0)"

definition tap_mass :: "i16 list \<Rightarrow> int" where
  "tap_mass taps = (\<Sum>j < length taps. \<bar>sint (taps ! j)\<bar>)"

definition product_at :: "i16 list \<Rightarrow> i16 list \<Rightarrow> nat \<Rightarrow> int" where
  "product_at taps xs j = sint (xs ! j) * sint (taps ! j)"

definition fir :: "i16 list \<Rightarrow> i16 list \<Rightarrow> int" where
  "fir taps xs = (\<Sum>j < length taps. product_at taps xs j)"

text \<open>The sums in the order the code adds them: the center, then the even taps below \<open>m\<close>.\<close>

definition partial_sum :: "i16 list \<Rightarrow> i16 list \<Rightarrow> nat \<Rightarrow> int" where
  "partial_sum taps xs m = product_at taps xs (center_offset taps) + (\<Sum>j \<in> {j. j < m \<and> even j}. product_at taps xs j)"

lemma product_bound: "\<bar>product_at taps xs j\<bar> \<le> \<bar>sint (taps ! j)\<bar> * 2 ^ 15"
proof -
  have "\<bar>sint (xs ! j)\<bar> \<le> 2 ^ 15" using sint_greater_eq [of "xs ! j"] sint_less [of "xs ! j"] by simp
  then have "\<bar>sint (taps ! j)\<bar> * \<bar>sint (xs ! j)\<bar> \<le> \<bar>sint (taps ! j)\<bar> * 2 ^ 15" by (intro mult_left_mono) simp_all
  then show ?thesis by (simp add: product_at_def abs_mult mult.commute)
qed

lemma subset_sum_bound:
  assumes "J \<subseteq> {..<length taps}"
  shows "\<bar>\<Sum>j \<in> J. product_at taps xs j\<bar> \<le> tap_mass taps * 2 ^ 15"
proof -
  have "\<bar>\<Sum>j \<in> J. product_at taps xs j\<bar> \<le> (\<Sum>j \<in> J. \<bar>sint (taps ! j)\<bar> * 2 ^ 15)"
    by (rule order_trans [OF sum_abs sum_mono]) (rule product_bound)
  also have "... \<le> (\<Sum>j < length taps. \<bar>sint (taps ! j)\<bar> * 2 ^ 15)"
    using assms by (intro sum_mono2) simp_all
  finally show ?thesis by (simp add: tap_mass_def sum_distrib_right)
qed

lemma tap_mass_list: "tap_mass taps = sum_list (map (\<lambda>t. \<bar>sint t\<bar>) taps)"
  unfolding tap_mass_def by (simp add: sum_list_sum_nth atLeast0LessThan)

lemma center_less: "taps \<noteq> [] \<Longrightarrow> center_offset taps < length taps"
  by (cases taps) (auto simp: center_offset_def)

lemma partial_sum_bound:
  assumes s: "halfband_structure taps" and m: "m \<le> length taps"
  shows "\<bar>partial_sum taps xs m\<bar> \<le> tap_mass taps * 2 ^ 15"
proof -
  have ne: "taps \<noteq> []" using s by (auto simp: halfband_structure_def)
  define J where "J = insert (center_offset taps) {j. j < m \<and> even j}"
  have "partial_sum taps xs m = (\<Sum>j \<in> J. product_at taps xs j)"
    using s by (simp add: partial_sum_def J_def halfband_structure_def)
  moreover have "J \<subseteq> {..<length taps}" using center_less [OF ne] m by (auto simp: J_def)
  ultimately show ?thesis using subset_sum_bound [of J] by simp
qed

lemma partial_sum_all: "halfband_structure taps \<Longrightarrow> partial_sum taps xs (length taps) = fir taps xs"
proof -
  assume s: "halfband_structure taps"
  then have ne: "taps \<noteq> []" by (auto simp: halfband_structure_def)
  have "fir taps xs = (\<Sum>j \<in> insert (center_offset taps) {j. j < length taps \<and> even j}. product_at taps xs j)"
    unfolding fir_def using s center_less [OF ne]
    by (intro sum.mono_neutral_right) (auto simp: halfband_structure_def product_at_def)
  then show ?thesis using s by (simp add: partial_sum_def halfband_structure_def)
qed

lemma mac_partial:
  "foldl (\<lambda>s j. s + scast (xs ! j) * scast (taps ! j)) (scast (taps ! c) * scast (xs ! c)) (filter even [0..<m]) =
    (word_of_int (product_at taps xs c + (\<Sum>j \<in> {j. j < m \<and> even j}. product_at taps xs j)) :: i32)"
proof (induction m)
  case 0
  show ?case by (simp only: upt_0 filter.simps foldl.simps product_at_def scast_eq) (simp add: mult.commute)
next
  case (Suc m)
  show ?case
  proof (cases "even m")
    case True
    have e: "{j. j < Suc m \<and> even j} = insert m {j. j < m \<and> even j}" using True by (auto simp: less_Suc_eq)
    have "foldl (\<lambda>s j. s + scast (xs ! j) * scast (taps ! j)) (scast (taps ! c) * scast (xs ! c)) (filter even [0..<Suc m]) =
       (word_of_int (product_at taps xs c + (\<Sum>j \<in> {j. j < m \<and> even j}. product_at taps xs j)) :: i32) +
         scast (xs ! m) * scast (taps ! m)"
      using True Suc by simp
    also have "... = word_of_int (product_at taps xs c + (\<Sum>j \<in> {j. j < m \<and> even j}. product_at taps xs j) + product_at taps xs m)"
      by (simp only: scast_eq product_at_def of_int_add of_int_mult)
    finally show ?thesis unfolding e by (simp add: ac_simps)
  next
    case False
    have "{j. j < Suc m \<and> even j} = {j. j < m \<and> even j}" using False by (auto simp: less_Suc_eq)
    then show ?thesis using False Suc by simp
  qed
qed

lemma mac_fir: "halfband_structure taps \<Longrightarrow> mac taps xs = word_of_int (fir taps xs)"
  unfolding mac_def mac_partial partial_sum_def [symmetric] by (simp only: partial_sum_all)

lemma ucast_sint: "(ucast (w :: i32) :: i16) = word_of_int (sint w)"
  by (rule bit_word_eqI) (simp add: bit_simps min_def)

lemma scaled_sum:
  assumes s: "halfband_structure taps" and mass: "tap_mass taps \<le> 32767"
  shows "sint (ucast (signed_drop_bit 15 (mac taps xs)) :: i16) = fir taps xs div 2 ^ 15"
    "\<bar>fir taps xs div 2 ^ 15\<bar> \<le> 32767"
proof -
  have b: "\<bar>fir taps xs\<bar> \<le> 32767 * 2 ^ 15"
    using partial_sum_bound [OF s order_refl, of xs] partial_sum_all [OF s, of xs] mass by simp
  then have i: "sint (mac taps xs) = fir taps xs"
    unfolding mac_fir [OF s] by (intro sint_word_of_int_small) simp_all
  have "- 32767 \<le> fir taps xs div 2 ^ 15 \<and> fir taps xs div 2 ^ 15 \<le> 32767"
    using b by (auto simp: abs_le_iff)
  then have q: "\<bar>fir taps xs div 2 ^ 15\<bar> \<le> 32767" by (simp only: abs_le_iff) simp
  have "sint (signed_drop_bit 15 (mac taps xs)) = fir taps xs div 2 ^ 15"
    using i by (simp add: sint_signed_drop_bit_eq drop_bit_eq_div)
  then have "(ucast (signed_drop_bit 15 (mac taps xs)) :: i16) = word_of_int (fir taps xs div 2 ^ 15)"
    by (simp only: ucast_sint)
  then show "sint (ucast (signed_drop_bit 15 (mac taps xs)) :: i16) = fir taps xs div 2 ^ 15"
    using q by (simp only:) (rule sint_word_of_int_small; simp)
  show "\<bar>fir taps xs div 2 ^ 15\<bar> \<le> 32767" by (rule q)
qed

text \<open>C32: for taps with the half-band structure whose absolute values sum to at most 32767, a block of an even
  count with enough samples after it yields half as many outputs, each the exact product sum over
  all taps divided by 2 ^ 15 and rounded down: no 32-bit sum in the loop overflows, on the way or at the
  end, and the result is within the 16-bit range, so that its conversion loses nothing. Skipping the odd taps is harmless.\<close>

theorem halfband_block_exact:
  assumes s: "halfband_structure taps" and mass: "tap_mass taps \<le> 32767"
    and n: "even count" "count + length taps \<le> length inp + 2"
  shows "\<exists>out. halfband_decimate_block taps inp count = Inr out \<and> length out = count div 2 \<and>
    (\<forall>k < count div 2.
       let win = take (length taps) (drop (2 * k) inp)
       in sint (ci (out ! k)) = fir taps (map ci win) div 2 ^ 15 \<and> sint (cq (out ! k)) = fir taps (map cq win) div 2 ^ 15 \<and>
          \<bar>fir taps (map ci win) div 2 ^ 15\<bar> \<le> 32767 \<and> \<bar>fir taps (map cq win) div 2 ^ 15\<bar> \<le> 32767 \<and>
          (\<forall>m \<le> length taps. \<bar>partial_sum taps (map ci win) m\<bar> < 2 ^ 31 \<and> \<bar>partial_sum taps (map cq win) m\<bar> < 2 ^ 31))"
proof -
  have "taps \<noteq> []" using s by (auto simp: halfband_structure_def)
  then have run: "halfband_decimate_block taps inp count =
      Inr (map (\<lambda>k. halfband_point taps (take (length taps) (drop (2 * k) inp))) [0..<count div 2])"
    using n by (simp add: halfband_decimate_block_def)
  have p: "\<bar>partial_sum taps xs m\<bar> < 2 ^ 31" if "m \<le> length taps" for xs m
    using partial_sum_bound [OF s that, of xs] mass by simp
  define out where "out = map (\<lambda>k. halfband_point taps (take (length taps) (drop (2 * k) inp))) [0..<count div 2]"
  have "\<forall>k < count div 2. out ! k = halfband_point taps (take (length taps) (drop (2 * k) inp))"
    by (simp add: out_def)
  then show ?thesis
    unfolding run out_def [symmetric] Let_def
    by (intro exI [of _ out] conjI refl allI impI)
      (simp_all only: halfband_point_def cs16.select_convs scaled_sum [OF s mass] p, simp add: out_def)
qed

theorem halfband_block_exact_witness:
  "\<exists>out. halfband_decimate_block [8191, 16384, 8191] (replicate 5 \<lparr>ci = 1000, cq = - 1000\<rparr>) 4 = Inr out \<and> length out = 2"
proof -
  have s: "halfband_structure [8191, 16384, 8191]"
    by (auto simp: halfband_structure_def center_offset_def less_Suc_eq)
  have m: "tap_mass [8191, 16384, 8191] \<le> 32767"
    by (simp add: tap_mass_list)
  show ?thesis
    using halfband_block_exact [OF s m, of 4 "replicate 5 \<lparr>ci = 1000, cq = - 1000\<rparr>"] by auto
qed

subsection \<open>Streams\<close>

fun halfband_stream :: "halfband_state \<Rightarrow> cs16 list list \<Rightarrow> (halfband_state \<times> cs16 list) run" where
  "halfband_stream st [] = Inr (st, [])"
| "halfband_stream st (c # cs) =
    run_bind (halfband_decimate_process st c) (\<lambda>(st', out).
      run_bind (halfband_stream st' cs) (\<lambda>(st'', outs). Inr (st'', out @ outs)))"

lemma halfband_stream_history:
  "halfband_stream st cs =
    run_bind (history_stream (halfband_decimate_block (hb_taps st)) 2 (hb_context_len st) (hb_history_max st) (hb_history st) cs)
      (\<lambda>(out, h). Inr (st\<lparr>hb_history := h\<rparr>, out))"
proof (induction cs arbitrary: st)
  case (Cons c cs)
  show ?case
    by (cases "history_process (halfband_decimate_block (hb_taps st)) 2 (hb_context_len st) (hb_history_max st) (hb_history st) c")
      (auto simp: halfband_decimate_process_def Cons.IH run_bind_def split: sum.splits)
qed simp

definition halfband_ok :: "halfband_state \<Rightarrow> bool" where
  "halfband_ok st \<longleftrightarrow> hb_taps st \<noteq> [] \<and> hb_context_len st = length (hb_taps st) \<and>
     hb_history_max st = 2 * hb_context_len st"

text \<open>The whole stream in one: the filter at every second position, with zeros before the start.\<close>

definition filtered :: "i16 list \<Rightarrow> cs16 list \<Rightarrow> cs16 list" where
  "filtered taps s =
    map (\<lambda>k. halfband_point taps (take (length taps) (drop (2 * k) (replicate (length taps - 1) \<lparr>ci = 0, cq = 0\<rparr> @ s))))
      [0..<length s div 2]"

lemma halfband_stream_filtered:
  assumes ok: "halfband_ok st"
  shows "\<exists>h. halfband_stream (halfband_decimate_reset st) cs =
    Inr (st\<lparr>hb_history := h\<rparr>, filtered (hb_taps st) (concat cs)) \<and> length h < length (hb_taps st) + 1"
proof -
  obtain t ts where ts: "hb_taps st = t # ts" using ok by (cases "hb_taps st") (auto simp: halfband_ok_def)
  define z where "z = replicate (length (t # ts) - 1) \<lparr>ci = 0, cq = 0 :: i16\<rparr>"
  have c0: "hb.count t ts z = 0" unfolding hb.count_def z_def by simp
  have room: "2 * length (t # ts) + 2 * 2 \<le> 2 * length (t # ts) + 4" "length (t # ts) + 2 \<le> 2 * length (t # ts) + 1"
    by simp_all
  note run = hb.history_stream_spec [OF c0 room]
  have "halfband_stream (halfband_decimate_reset st) cs =
      Inr (st\<lparr>hb_history := hb.rest t ts (z @ concat cs)\<rparr>, hb.outputs t ts (z @ concat cs))"
    using ok run [of cs]
    by (simp add: halfband_stream_history halfband_decimate_reset_def halfband_ok_def ts z_def)
  moreover have "hb.outputs t ts (z @ concat cs) = filtered (hb_taps st) (concat cs)"
    unfolding hb.outputs_def hb.count_def filtered_def ts z_def by (simp add: mult.commute)
  moreover have "length (hb.rest t ts (z @ concat cs)) + 2 \<le> length (t # ts) + 2"
    by (rule hb.settled_length) (rule hb.rest_settled)
  ultimately show ?thesis using ts by auto
qed

text \<open>Note: a filter that has been reset, fed a stream in pieces of any lengths (empty ones included), produces
  without a fault exactly what filtering the whole stream at once produces, with zeros before the start, one output for two inputs: the
  history buffer neither overflows nor loses or repeats a sample at the seams.\<close>

theorem halfband_stream_whole:
  assumes "halfband_ok st"
  shows "\<exists>st'. halfband_stream (halfband_decimate_reset st) cs = Inr (st', filtered (hb_taps st) (concat cs)) \<and>
    halfband_ok st' \<and> length (hb_history st') \<le> hb_history_max st' \<and>
    length (filtered (hb_taps st) (concat cs)) = length (concat cs) div 2"
  using halfband_stream_filtered [OF assms, of cs] assms by (auto simp: halfband_ok_def filtered_def)

definition default_halfband :: halfband_state where
  "default_halfband =
    \<lparr>hb_taps = [- 20, 0, 51, 0, - 98, 0, 173, 0, - 282, 0, 445, 0, - 693, 0, 1118, 0, - 2039, 0, 6402, 10113, 6402, 0,
       - 2039, 0, 1118, 0, - 693, 0, 445, 0, - 282, 0, 173, 0, - 98, 0, 51, 0, - 20],
     hb_history = replicate 38 \<lparr>ci = 0, cq = 0\<rparr>, hb_history_max = 78, hb_context_len = 39\<rparr>"

theorem halfband_stream_whole_witness:
  "\<exists>st'. halfband_stream (halfband_decimate_reset default_halfband) [[], replicate 100 \<lparr>ci = 7, cq = 9\<rparr>, [\<lparr>ci = 1, cq = 2\<rparr>]] =
     Inr (st', filtered (hb_taps default_halfband) (replicate 100 \<lparr>ci = 7, cq = 9\<rparr> @ [\<lparr>ci = 1, cq = 2\<rparr>]))"
  using halfband_stream_whole [of default_halfband "[[], replicate 100 \<lparr>ci = 7, cq = 9\<rparr>, [\<lparr>ci = 1, cq = 2\<rparr>]]"]
  by (auto simp: halfband_ok_def default_halfband_def)

text \<open>C40: creating a filter from the library's default taps succeeds (the assertions on the
  first tap hold and every conversion to \<open>int16_t\<close> is defined) and yields 39 taps with the half-band
  structure whose absolute values sum to 32755, so that the exactness of the block filter and of streams applies to it.\<close>

theorem default_filter_ok:
  "halfband_decimate_create (True, True) (Some default_halfband_taps) = Inr (Some default_halfband) \<and>
   halfband_ok default_halfband \<and> halfband_structure (hb_taps default_halfband) \<and> tap_mass (hb_taps default_halfband) = 32755"
proof -
  have l: "length (hb_taps default_halfband) = 39" by (simp add: default_halfband_def)
  have c: "center_offset (hb_taps default_halfband) = 19" by (simp add: center_offset_def l)
  have "list_all (\<lambda>j. odd j \<and> j \<noteq> 19 \<longrightarrow> hb_taps default_halfband ! j = 0) [0..<39]"
    by (simp add: default_halfband_def upt_rec)
  then have "\<forall>j < 39. odd j \<and> j \<noteq> 19 \<longrightarrow> hb_taps default_halfband ! j = 0" by (simp add: list_all_iff)
  then have s: "halfband_structure (hb_taps default_halfband)" unfolding halfband_structure_def l c by simp
  have "tap_mass (hb_taps default_halfband) = 32755" by (simp add: tap_mass_list default_halfband_def)
  then show ?thesis
    using default_halfband_quantized s by (simp add: default_halfband_def halfband_ok_def)
qed

subsection \<open>The downconverter on streams\<close>

fun downconvert_stream :: "downconvert_state \<Rightarrow> i16 list list \<Rightarrow> (downconvert_state \<times> cs16 list) run" where
  "downconvert_stream st [] = Inr (st, [])"
| "downconvert_stream st (c # cs) =
    run_bind (downconvert_process st c) (\<lambda>(st', out).
      run_bind (downconvert_stream st' cs) (\<lambda>(st'', outs). Inr (st'', out @ outs)))"

lemma fs4_loop_append: "4 dvd length xs \<Longrightarrow> fs4_loop (xs @ ys) = fs4_loop xs @ fs4_loop ys"
proof (induction xs rule: fs4_loop.induct)
  case (1 a b c d xs)
  then have "4 dvd length xs" by (simp, presburger)
  with 1 show ?case by simp
qed (simp_all, presburger+)

lemma length_fs4_loop [simp]: "4 dvd length xs \<Longrightarrow> length (fs4_loop xs) = length xs"
proof (induction xs rule: fs4_loop.induct)
  case (1 a b c d xs)
  then have "4 dvd length xs" by (simp, presburger)
  with 1 show ?case by simp
qed (simp_all, presburger+)

lemma downconvert_stream_mixed:
  assumes "\<forall>c \<in> set cs. 4 dvd length c \<and> length c \<le> dc_max_in_length st"
  shows "downconvert_stream st cs =
    run_bind (halfband_stream (dc_decimate st) (map fs4_loop cs)) (\<lambda>(d, out). Inr (st\<lparr>dc_decimate := d\<rparr>, out))"
  using assms
proof (induction cs arbitrary: st)
  case (Cons c cs)
  then have c: "length c mod 4 = 0" "\<not> dc_max_in_length st < length c" by auto
  have IH: "downconvert_stream (st\<lparr>dc_decimate := d\<rparr>) cs =
      run_bind (halfband_stream d (map fs4_loop cs)) (\<lambda>(d, out). Inr (st\<lparr>dc_decimate := d\<rparr>, out))" for d
    using Cons by simp
  show ?case
    by (cases "halfband_decimate_process (dc_decimate st) (fs4_loop c)")
      (auto simp: downconvert_process_def fs4_mix_def c IH run_bind_def split: sum.splits)
qed simp

lemma concat_fs4_loop: "\<forall>c \<in> set cs. 4 dvd length c \<Longrightarrow> concat (map fs4_loop cs) = fs4_loop (concat cs) \<and> 4 dvd length (concat cs)"
  by (induction cs) (simp_all add: fs4_loop_append)

text \<open>C31: the downconverter, reset and fed a stream in pieces whose lengths are multiples of four up to its maximum
  (what the stream code feeds it), produces without a fault the mixed stream filtered and decimated as a
  whole: the mixer needs no phase from one piece to the next.\<close>

theorem downconvert_stream_whole:
  assumes ok: "halfband_ok (dc_decimate st)"
    and pieces: "\<forall>c \<in> set cs. 4 dvd length c \<and> length c \<le> dc_max_in_length st"
  shows "\<exists>st'. downconvert_stream (downconvert_reset st) cs =
      Inr (st', filtered (hb_taps (dc_decimate st)) (fs4_loop (concat cs))) \<and>
    length (filtered (hb_taps (dc_decimate st)) (fs4_loop (concat cs))) = length (concat cs) div 2"
proof -
  have m: "concat (map fs4_loop cs) = fs4_loop (concat cs)" "4 dvd length (concat cs)"
    using concat_fs4_loop [of cs] pieces by simp_all
  show ?thesis
    using halfband_stream_filtered [OF ok, of "map fs4_loop cs"] pieces m
      downconvert_stream_mixed [of cs "downconvert_reset st"]
    by (auto simp: downconvert_reset_def filtered_def)
qed

theorem downconvert_stream_whole_witness:
  "\<exists>st'. downconvert_stream (downconvert_reset \<lparr>dc_decimate = default_halfband, dc_max_in_length = 8\<rparr>) [[1, 2, 3, 4], [5, 6, 7, 8]] =
      Inr (st', filtered (hb_taps default_halfband) (fs4_loop [1, 2, 3, 4, 5, 6, 7, 8]))"
proof -
  have "\<forall>c \<in> set [[1, 2, 3, 4], [5, 6, 7, 8 :: i16]]. 4 dvd length c \<and> length c \<le> 8"
    by (simp, presburger)
  then show ?thesis
    using downconvert_stream_whole [of "\<lparr>dc_decimate = default_halfband, dc_max_in_length = 8\<rparr>" "[[1, 2, 3, 4], [5, 6, 7, 8]]"]
    by (auto simp: halfband_ok_def default_halfband_def)
qed

end
