(* ===== verification/Neon.thy ===== *)
theory Neon
  imports DspProps
begin

section \<open>The vector implementations (dsp/impl/*.neon.c)\<close>

text \<open>
  The same four operations as in theory Dsp, written with the NEON intrinsics of ARM. A vector is the list of its lanes, lowest
  first, and each intrinsic a function on lanes, as the C language extensions for ARM define it: signed and unsigned lanes
  are words of the same size, arithmetic wraps except where its name has a \<open>q\<close> (saturating), and reinterpreting reads
  the same bytes again, little-endian. A load that leaves its array stops the run.
\<close>

subsection \<open>Intrinsics\<close>

text \<open>Reinterpreting 32-bit lanes as 16-bit lanes, and back.\<close>

definition vreinterpret_s16_u32 :: "u32 list \<Rightarrow> i16 list" where
  "vreinterpret_s16_u32 v = concat (map (\<lambda>w. [ucast w, ucast (drop_bit 16 w)]) v)"

fun vreinterpret_u32_s16 :: "i16 list \<Rightarrow> u32 list" where
  "vreinterpret_u32_s16 (lo # hi # v) = (ucast lo OR push_bit 16 (ucast hi)) # vreinterpret_u32_s16 v"
| "vreinterpret_u32_s16 v = []"

text \<open>Loads and stores that take every \<open>n\<close>-th element of memory into a lane of the same vector, and back.\<close>

fun vld3 :: "'a list \<Rightarrow> 'a list \<times> 'a list \<times> 'a list" where
  "vld3 (a # b # c # m) = (case vld3 m of (x, y, z) \<Rightarrow> (a # x, b # y, c # z))"
| "vld3 m = ([], [], [])"

fun vst4 :: "'a list \<Rightarrow> 'a list \<Rightarrow> 'a list \<Rightarrow> 'a list \<Rightarrow> 'a list" where
  "vst4 (a # w) (b # x) (c # y) (d # z) = a # b # c # d # vst4 w x y z"
| "vst4 _ _ _ _ = []"

fun vld2 :: "'a list \<Rightarrow> 'a list \<times> 'a list" where
  "vld2 (a # b # m) = (case vld2 m of (x, y) \<Rightarrow> (a # x, b # y))"
| "vld2 m = ([], [])"

fun vst2 :: "'a list \<Rightarrow> 'a list \<Rightarrow> 'a list" where
  "vst2 (a # x) (b # y) = a # b # vst2 x y"
| "vst2 _ _ = []"

definition vshl_n :: "'a::len word list \<Rightarrow> nat \<Rightarrow> 'a word list" where
  "vshl_n v n = map (push_bit n) v"

text \<open>Shift right and insert: the top \<open>n\<close> bits of the first operand stay.\<close>

definition vsri_n :: "'a::len word list \<Rightarrow> 'a word list \<Rightarrow> nat \<Rightarrow> 'a word list" where
  "vsri_n v w n = map2 (\<lambda>a b. (a AND NOT (mask (LENGTH('a) - n))) OR drop_bit n b) v w"

definition vand :: "'a::len word list \<Rightarrow> 'a word list \<Rightarrow> 'a word list" where
  "vand v w = map2 (AND) v w"

definition vmul :: "'a::len word list \<Rightarrow> 'a word list \<Rightarrow> 'a word list" where
  "vmul v w = map2 (*) v w"

definition vneg :: "'a::len word list \<Rightarrow> 'a word list" where
  "vneg v = map uminus v"

definition vcreate_s16 :: "u64 \<Rightarrow> i16 list" where
  "vcreate_s16 x = map (\<lambda>k. ucast (drop_bit (16 * k) x)) [0..<4]"

definition vzip :: "'a list \<Rightarrow> 'a list \<Rightarrow> 'a list \<times> 'a list" where
  "vzip v w = (let z = vst2 v w in (take (length v) z, drop (length v) z))"

definition vget_low :: "'a list \<Rightarrow> 'a list" where
  "vget_low v = take (length v div 2) v"

definition vget_high :: "'a list \<Rightarrow> 'a list" where
  "vget_high v = drop (length v div 2) v"

text \<open>Saturating: add, and add twice the product of a lane with one lane of another vector.\<close>

definition saturate :: "int \<Rightarrow> i32" where
  "saturate x = word_of_int (max (- (2 ^ 31)) (min x (2 ^ 31 - 1)))"

definition vqadd_s32 :: "i32 list \<Rightarrow> i32 list \<Rightarrow> i32 list" where
  "vqadd_s32 v w = map2 (\<lambda>a b. saturate (sint a + sint b)) v w"

definition vqdmlal_lane_s16 :: "i32 list \<Rightarrow> i16 list \<Rightarrow> i16 list \<Rightarrow> nat \<Rightarrow> i32 list" where
  "vqdmlal_lane_s16 s v t lane =
    map2 (\<lambda>a b. saturate (sint a + sint (saturate (2 * (sint b * sint (t ! lane)))))) s v"

text \<open>Add and keep the high half.\<close>

definition vaddhn_s32 :: "i32 list \<Rightarrow> i32 list \<Rightarrow> i16 list" where
  "vaddhn_s32 v w = map2 (\<lambda>a b. ucast (drop_bit 16 (a + b))) v w"

definition vld1 :: "'a list \<Rightarrow> nat \<Rightarrow> nat \<Rightarrow> 'a list run" where
  "vld1 m off n = (if off + n \<le> length m then Inr (take n (drop off m)) else Inl Out_of_bounds)"

subsection \<open>Unpacking\<close>

definition bitmask :: "i16 list" where "bitmask = replicate 8 0xFFF0"
definition negate :: "i16 list" where "negate = vcreate_s16 0xFFFF0001FFFF0001"

text \<open>The four output vectors of one round, from the 12 words it reads.\<close>

definition neon_unpack_vectors :: "u32 list \<Rightarrow> i16 list \<times> i16 list \<times> i16 list \<times> i16 list" where
  "neon_unpack_vectors inp = (case vld3 inp of (v0, v1, v2) \<Rightarrow>
    let in0 = vreinterpret_s16_u32 v0; in1 = vreinterpret_s16_u32 v1; in2 = vreinterpret_s16_u32 v2;
        out3 = in0; out3 = vsri_n out3 in1 4; out3 = vsri_n out3 in2 8; out3 = vand out3 bitmask
    in (vshl_n in0 4, vshl_n in1 4, vshl_n in2 4, out3))"

definition neon_unpack_round :: "u32 list \<Rightarrow> i16 list" where
  "neon_unpack_round inp = (case neon_unpack_vectors inp of (out0, out1, out2, out3) \<Rightarrow>
    vreinterpret_s16_u32 (vst4 (vreinterpret_u32_s16 out0) (vreinterpret_u32_s16 out1) (vreinterpret_u32_s16 out2)
      (vreinterpret_u32_s16 out3)))"

definition neon_invert_round :: "u32 list \<Rightarrow> i16 list" where
  "neon_invert_round inp = (case neon_unpack_vectors inp of (out0, out1, out2, out3) \<Rightarrow>
    let negate_q = negate @ negate
    in vreinterpret_s16_u32 (vst4 (vreinterpret_u32_s16 (vmul negate_q out0)) (vreinterpret_u32_s16 (vmul negate_q out1))
      (vreinterpret_u32_s16 (vmul negate_q out2)) (vreinterpret_u32_s16 (vmul negate_q out3))))"

text \<open>The loop over 12 words at a time; the loop for the rest is the one of the generic implementation, word for word.\<close>

function neon_unpack_loop :: "(u32 list \<Rightarrow> i16 list) \<Rightarrow> (u32 list \<Rightarrow> i16 list) \<Rightarrow> u32 list \<Rightarrow> i16 list" where
  "neon_unpack_loop round_12 trailing inp =
    (if 12 \<le> length inp then round_12 (take 12 inp) @ neon_unpack_loop round_12 trailing (drop 12 inp) else trailing inp)"
  by pat_completeness auto
termination by (relation "measure (\<lambda>(_, _, inp). length inp)") auto

declare neon_unpack_loop.simps [simp del]

definition neon_unpack :: "u32 list \<Rightarrow> i16 list run" where
  "neon_unpack inp =
    (if length inp mod 3 \<noteq> 0 then Inl Assertion_failed else Inr (neon_unpack_loop neon_unpack_round unpack_loop inp))"

definition neon_unpack_invert :: "u32 list \<Rightarrow> i16 list run" where
  "neon_unpack_invert inp =
    (if length inp mod 3 \<noteq> 0 then Inl Assertion_failed else Inr (neon_unpack_loop neon_invert_round unpack_invert_loop inp))"

subsection \<open>Unpacking is the generic one\<close>

lemma reinterpret_lanes: "even (length v) \<Longrightarrow> vreinterpret_s16_u32 (vreinterpret_u32_s16 v) = v"
proof (induction v rule: vreinterpret_u32_s16.induct)
  case (1 lo hi v)
  have "(ucast (ucast lo OR push_bit 16 (ucast hi) :: u32) :: i16) = lo" "(ucast (drop_bit 16 (ucast lo OR push_bit 16 (ucast hi) :: u32)) :: i16) = hi"
    by (rule bit_word_eqI, auto simp: bit_simps dest: bit_imp_le_length)+
  then show ?case using 1 by (simp add: vreinterpret_s16_u32_def)
qed (simp_all add: vreinterpret_s16_u32_def)

lemma list_12: "length xs = 12 \<Longrightarrow> \<exists>a b c d e f g h i j k l. xs = [a, b, c, d, e, f, g, h, i, j, k, l]"
  by (simp add: numeral_eq_Suc length_Suc_conv) blast

lemma bitmask_mask: "(0xFFF0 :: i16) = push_bit 4 (mask 12)"
  by (simp add: mask_eq_exp_minus_1 push_bit_eq_mult)

lemma neon_lanes:
  fixes a :: u32
  shows "push_bit 4 (ucast a :: i16) = ucast (push_bit 4 (a AND 0x00000FFF))"
    "push_bit 4 (ucast (drop_bit 16 a) :: i16) = ucast (drop_bit 12 (a AND 0x0FFF0000))"
  unfolding word_masks by (rule bit_word_eqI; auto simp: bit_simps)+

lemma neon_top_low:
  fixes a b c :: u32
  shows "(((ucast a AND NOT (mask 12) OR drop_bit 4 (ucast b)) AND NOT (mask 8) OR drop_bit 8 (ucast c)) AND 0xFFF0 :: i16) =
    ucast (a AND 0x0000F000 OR drop_bit 4 (b AND 0x0000F000) OR drop_bit 8 (c AND 0x0000F000))"
  unfolding word_masks bitmask_mask
proof (rule bit_word_eqI)
  fix k assume "k < LENGTH(16)"
  then have "k \<in> {0..<4} \<or> k \<in> {4..<8} \<or> k \<in> {8..<12} \<or> k \<in> {12..<16}" by auto
  then show "bit (((ucast a AND NOT (mask 12) OR drop_bit 4 (ucast b)) AND NOT (mask 8) OR drop_bit 8 (ucast c)) AND push_bit 4 (mask 12) :: i16) k =
      bit (ucast (a AND push_bit 12 (mask 4) OR drop_bit 4 (b AND push_bit 12 (mask 4)) OR drop_bit 8 (c AND push_bit 12 (mask 4))) :: i16) k"
    by (elim disjE) (auto simp: bit_simps)
qed

lemma neon_top_high:
  fixes a b c :: u32
  shows "(((ucast (drop_bit 16 a) AND NOT (mask 12) OR drop_bit 4 (ucast (drop_bit 16 b))) AND NOT (mask 8) OR
      drop_bit 8 (ucast (drop_bit 16 c))) AND 0xFFF0 :: i16) =
    ucast (drop_bit 16 (a AND 0xF0000000) OR drop_bit 20 (b AND 0xF0000000) OR drop_bit 24 (c AND 0xF0000000))"
  unfolding word_masks bitmask_mask
proof (rule bit_word_eqI)
  fix k assume "k < LENGTH(16)"
  then have "k \<in> {0..<4} \<or> k \<in> {4..<8} \<or> k \<in> {8..<12} \<or> k \<in> {12..<16}" by auto
  then show "bit (((ucast (drop_bit 16 a) AND NOT (mask 12) OR drop_bit 4 (ucast (drop_bit 16 b))) AND NOT (mask 8) OR
      drop_bit 8 (ucast (drop_bit 16 c))) AND push_bit 4 (mask 12) :: i16) k =
      bit (ucast (drop_bit 16 (a AND push_bit 28 (mask 4)) OR drop_bit 20 (b AND push_bit 28 (mask 4)) OR
        drop_bit 24 (c AND push_bit 28 (mask 4))) :: i16) k"
    by (elim disjE) (auto simp: bit_simps)
qed

lemma negate_lanes: "negate = [1, - 1, 1, - 1]"
  by (simp add: negate_def vcreate_s16_def upt_rec)

lemma reinterpret_cons: "vreinterpret_s16_u32 ((ucast lo OR push_bit 16 (ucast hi)) # v) = lo # hi # vreinterpret_s16_u32 v"
  using reinterpret_lanes [of "[lo, hi]"] by (simp add: vreinterpret_s16_u32_def)

lemma bitmask_lanes: "bitmask = [0xFFF0, 0xFFF0, 0xFFF0, 0xFFF0, 0xFFF0, 0xFFF0, 0xFFF0, 0xFFF0]"
  by (simp add: bitmask_def numeral_eq_Suc)

lemma vsri_lanes:
  "vsri_n v (w :: i16 list) 4 = map2 (\<lambda>a b. (a AND NOT (mask 12)) OR drop_bit 4 b) v w"
  "vsri_n v (w :: i16 list) 8 = map2 (\<lambda>a b. (a AND NOT (mask 8)) OR drop_bit 8 b) v w"
  by (simp_all add: vsri_n_def)

lemma reinterpret_nil: "vreinterpret_s16_u32 [] = []"
  by (simp add: vreinterpret_s16_u32_def)

lemma reinterpret_words:
  "vreinterpret_s16_u32 (w # v) = ucast w # ucast (drop_bit 16 w) # vreinterpret_s16_u32 v"
  by (simp add: vreinterpret_s16_u32_def)

lemmas neon_vector_simps = vld3.simps prod.case vst4.simps vreinterpret_u32_s16.simps vshl_n_def vsri_lanes vand_def vmul_def
  bitmask_lanes negate_lanes Let_def list.map zip_Cons_Cons zip_Nil append.simps concat.simps append_Nil2

lemmas reinterpret_store = reinterpret_cons reinterpret_nil

lemma neon_rounds:
  assumes "length inp = 12"
  shows "neon_unpack_round inp = unpack_loop inp" "neon_invert_round inp = unpack_invert_loop inp"
proof -
  obtain a b c d e f g h i j k l where inp: "inp = [a, b, c, d, e, f, g, h, i, j, k, l]" using list_12 [OF assms] by blast
  have v: "neon_unpack_vectors inp =
    ([ucast (push_bit 4 (a AND 0x00000FFF)), ucast (drop_bit 12 (a AND 0x0FFF0000)), ucast (push_bit 4 (d AND 0x00000FFF)), ucast (drop_bit 12 (d AND 0x0FFF0000)),
      ucast (push_bit 4 (g AND 0x00000FFF)), ucast (drop_bit 12 (g AND 0x0FFF0000)), ucast (push_bit 4 (j AND 0x00000FFF)), ucast (drop_bit 12 (j AND 0x0FFF0000))],
     [ucast (push_bit 4 (b AND 0x00000FFF)), ucast (drop_bit 12 (b AND 0x0FFF0000)), ucast (push_bit 4 (e AND 0x00000FFF)), ucast (drop_bit 12 (e AND 0x0FFF0000)),
      ucast (push_bit 4 (h AND 0x00000FFF)), ucast (drop_bit 12 (h AND 0x0FFF0000)), ucast (push_bit 4 (k AND 0x00000FFF)), ucast (drop_bit 12 (k AND 0x0FFF0000))],
     [ucast (push_bit 4 (c AND 0x00000FFF)), ucast (drop_bit 12 (c AND 0x0FFF0000)), ucast (push_bit 4 (f AND 0x00000FFF)), ucast (drop_bit 12 (f AND 0x0FFF0000)),
      ucast (push_bit 4 (i AND 0x00000FFF)), ucast (drop_bit 12 (i AND 0x0FFF0000)), ucast (push_bit 4 (l AND 0x00000FFF)), ucast (drop_bit 12 (l AND 0x0FFF0000))],
     concat (map (\<lambda>(x, y, z). [ucast (x AND 0x0000F000 OR drop_bit 4 (y AND 0x0000F000) OR drop_bit 8 (z AND 0x0000F000)),
       ucast (drop_bit 16 (x AND 0xF0000000) OR drop_bit 20 (y AND 0xF0000000) OR drop_bit 24 (z AND 0xF0000000))])
       [(a, b, c), (d, e, f), (g, h, i), (j, k, l)]))"
    unfolding inp neon_unpack_vectors_def
    by (simp only: neon_vector_simps reinterpret_words reinterpret_nil, simp only: neon_lanes(2) neon_top_high,
        simp only: neon_lanes(1) neon_top_low)
  show "neon_unpack_round inp = unpack_loop inp"
    unfolding neon_unpack_round_def v prod.case unfolding inp
    by (simp only: neon_vector_simps unpack_loop.simps reinterpret_store)
  show "neon_invert_round inp = unpack_invert_loop inp"
    unfolding neon_invert_round_def v prod.case unfolding inp
    by (simp only: neon_vector_simps unpack_invert_loop.simps reinterpret_store mult_1 mult_minus1)
qed

lemma neon_loop_same:
  assumes "\<And>ws. length ws = 12 \<Longrightarrow> round_12 ws = trailing ws" "\<And>ws vs. length ws = 12 \<Longrightarrow> trailing (ws @ vs) = trailing ws @ trailing vs"
  shows "neon_unpack_loop round_12 trailing inp = trailing inp"
proof (induction "length inp" arbitrary: inp rule: less_induct)
  case less
  show ?case
  proof (cases "12 \<le> length inp")
    case True
    then show ?thesis
      using less [of "drop 12 inp"] assms(1) [of "take 12 inp"] assms(2) [of "take 12 inp" "drop 12 inp"]
      by (subst neon_unpack_loop.simps) simp
  next
    case False
    then show ?thesis by (subst neon_unpack_loop.simps) simp
  qed
qed

lemma unpack_loops_append:
  assumes "length ws = 12"
  shows "unpack_loop (ws @ vs) = unpack_loop ws @ unpack_loop vs"
    "unpack_invert_loop (ws @ vs) = unpack_invert_loop ws @ unpack_invert_loop vs"
proof -
  obtain a b c d e f g h i j k l where "ws = [a, b, c, d, e, f, g, h, i, j, k, l]" using list_12 [OF assms] by blast
  then show "unpack_loop (ws @ vs) = unpack_loop ws @ unpack_loop vs"
    "unpack_invert_loop (ws @ vs) = unpack_invert_loop ws @ unpack_invert_loop vs"
    by (simp_all only: append.simps unpack_loop.simps unpack_invert_loop.simps append_assoc append_Nil2)
qed

lemma neon_unpack_generic: "neon_unpack inp = unpack_raw_adc_data inp" "neon_unpack_invert inp = unpack_raw_adc_data_invert inp"
  by (simp_all add: neon_unpack_def unpack_raw_adc_data_def neon_unpack_invert_def unpack_raw_adc_data_invert_def
      neon_loop_same neon_rounds unpack_loops_append)

subsection \<open>Mixing\<close>

text \<open>The complex samples in an array of 16-bit values.\<close>

fun complex_samples :: "i16 list \<Rightarrow> cs16 list" where
  "complex_samples (i # q # m) = \<lparr>ci = i, cq = q\<rparr> # complex_samples m"
| "complex_samples m = []"

definition neon_fs4_round :: "i16 list \<Rightarrow> cs16 list" where
  "neon_fs4_round inp = (case vld2 inp of (v0, v1) \<Rightarrow>
    let i_multiplier = negate; q_multiplier = vneg i_multiplier; zero = replicate 4 0;
        out_i = vmul v0 i_multiplier; out_q = vmul v1 q_multiplier;
        (zip_i0, zip_i1) = vzip out_i zero; (zip_q0, zip_q1) = vzip zero out_q
    in complex_samples (vst2 (zip_i0 @ zip_i1) (zip_q0 @ zip_q1)))"

fun neon_fs4_trailing :: "i16 list \<Rightarrow> cs16 list" where
  "neon_fs4_trailing (a # b # c # d # inp) =
    [\<lparr>ci = a, cq = 0\<rparr>, \<lparr>ci = 0, cq = - b\<rparr>, \<lparr>ci = - c, cq = 0\<rparr>, \<lparr>ci = 0, cq = d\<rparr>]"
| "neon_fs4_trailing inp = []"

function neon_fs4_loop :: "i16 list \<Rightarrow> cs16 list" where
  "neon_fs4_loop inp =
    (if 8 \<le> length inp then neon_fs4_round (take 8 inp) @ neon_fs4_loop (drop 8 inp) else neon_fs4_trailing inp)"
  by pat_completeness auto
termination by (relation "measure length") auto

declare neon_fs4_loop.simps [simp del]

definition neon_fs4_mix :: "i16 list \<Rightarrow> cs16 list run" where
  "neon_fs4_mix inp = (if length inp mod 4 \<noteq> 0 then Inl Assertion_failed else Inr (neon_fs4_loop inp))"

lemma neon_fs4_eight:
  assumes "length inp = 8"
  shows "neon_fs4_round inp = fs4_loop inp"
proof -
  have "\<exists>a b c d e f g h. inp = [a, b, c, d, e, f, g, h]" using assms by (simp add: numeral_eq_Suc length_Suc_conv) blast
  then obtain a b c d e f g h where "inp = [a, b, c, d, e, f, g, h]" by blast
  then show ?thesis by (simp add: neon_fs4_round_def negate_lanes vneg_def vmul_def vzip_def numeral_eq_Suc)
qed

lemma neon_fs4_loop_generic: "4 dvd length inp \<Longrightarrow> neon_fs4_loop inp = fs4_loop inp"
proof (induction "length inp" arbitrary: inp rule: less_induct)
  case less
  show ?case
  proof (cases "8 \<le> length inp")
    case True
    then have "4 dvd length (drop 8 inp)" using less.prems by (auto intro: dvd_diff_nat)
    then have "neon_fs4_loop (drop 8 inp) = fs4_loop (drop 8 inp)" using less.hyps [of "drop 8 inp"] True by simp
    then have "neon_fs4_loop inp = fs4_loop (take 8 inp) @ fs4_loop (drop 8 inp)"
      using True neon_fs4_eight [of "take 8 inp"] by (subst neon_fs4_loop.simps) simp
    then show ?thesis using True fs4_loop_append [of "take 8 inp" "drop 8 inp"] by (simp add: dvd_def)
  next
    case False
    then have "neon_fs4_loop inp = neon_fs4_trailing inp" by (subst neon_fs4_loop.simps) simp
    moreover have "length inp = 0 \<or> length inp = 4" using False less.prems by presburger
    then have "inp = [] \<or> (\<exists>a b c d. inp = [a, b, c, d])" by (auto simp: numeral_eq_Suc length_Suc_conv)
    ultimately show ?thesis by auto
  qed
qed

lemma neon_fs4_mix_generic: "neon_fs4_mix inp = fs4_mix inp"
  by (simp add: neon_fs4_mix_def fs4_mix_def neon_fs4_loop_generic dvd_eq_mod_eq_0)

subsection \<open>The half-band filter\<close>

text \<open>
  The taps are padded with zeros to a multiple of four. The vector loop makes two outputs at a time and reads ahead of
  what they need, so the last outputs are made one by one.
\<close>

definition tap_array :: "i16 list \<Rightarrow> i16 list" where
  "tap_array taps = taps @ replicate (4 - length taps mod 4) 0"

definition complex_word :: "cs16 \<Rightarrow> u32" where
  "complex_word z = ucast (ci z) OR push_bit 16 (ucast (cq z))"

record neon_sums =
  in01 :: "u32 list"
  sum0 :: "i32 list"
  sum1 :: "i32 list"
  sum2 :: "i32 list"
  sum3 :: "i32 list"

definition neon_tap_round :: "i16 list \<Rightarrow> u32 list \<Rightarrow> nat \<Rightarrow> neon_sums \<Rightarrow> nat \<Rightarrow> neon_sums run" where
  "neon_tap_round taps inp i s j =
    run_bind (vld1 taps j 4) (\<lambda>t.
      run_bind (vld1 inp (i + 4 + j) 4) (\<lambda>in23.
        let in0 = vget_low (in01 s); in1 = vget_high (in01 s); in2 = vget_low in23;
            zip01 = vzip in0 in1; zip12 = vzip in1 in2;
            mul0 = vreinterpret_s16_u32 (fst zip01); mul1 = vreinterpret_s16_u32 (snd zip01);
            mul2 = vreinterpret_s16_u32 (fst zip12); mul3 = vreinterpret_s16_u32 (snd zip12)
        in Inr \<lparr>in01 = in23, sum0 = vqdmlal_lane_s16 (sum0 s) mul0 t 0, sum1 = vqdmlal_lane_s16 (sum1 s) mul1 t 1,
             sum2 = vqdmlal_lane_s16 (sum2 s) mul2 t 2, sum3 = vqdmlal_lane_s16 (sum3 s) mul3 t 3\<rparr>))"

text \<open>The loop over \<open>j\<close> runs through the multiples of four below the number of taps.\<close>

definition neon_two_outputs :: "i16 list \<Rightarrow> u32 list \<Rightarrow> nat \<Rightarrow> i16 list run" where
  "neon_two_outputs taps inp i =
    run_bind (vld1 inp i 4) (\<lambda>in01.
      run_bind (run_foldl (neon_tap_round (tap_array taps) inp i)
          \<lparr>in01 = in01, sum0 = replicate 4 0, sum1 = replicate 4 0, sum2 = replicate 4 0, sum3 = replicate 4 0\<rparr>
          (map (\<lambda>k. 4 * k) [0..<(length taps + 3) div 4])) (\<lambda>s.
        Inr (vaddhn_s32 (vqadd_s32 (sum0 s) (sum1 s)) (vqadd_s32 (sum2 s) (sum3 s)))))"

text \<open>The sums of the trailing loop: wrapping, over all taps.\<close>

definition trailing_sum :: "i16 list \<Rightarrow> i16 list \<Rightarrow> i32" where
  "trailing_sum taps xs = foldl (\<lambda>s j. s + scast (xs ! j) * scast (taps ! j)) 0 [0..<length taps]"

function neon_trailing :: "i16 list \<Rightarrow> cs16 list \<Rightarrow> nat \<Rightarrow> nat \<Rightarrow> cs16 list run" where
  "neon_trailing taps inp count i =
    (if i < count
     then run_bind (vld1 inp i (length taps)) (\<lambda>xs.
       run_bind (neon_trailing taps inp count (i + 2)) (\<lambda>out.
         Inr (\<lparr>ci = ucast (signed_drop_bit 15 (trailing_sum taps (map ci xs))),
               cq = ucast (signed_drop_bit 15 (trailing_sum taps (map cq xs)))\<rparr> # out)))
     else Inr [])"
  by pat_completeness auto
termination by (relation "measure (\<lambda>(_, _, count, i). count - i)") auto

function neon_halfband_loop :: "i16 list \<Rightarrow> cs16 list \<Rightarrow> nat \<Rightarrow> nat \<Rightarrow> cs16 list run" where
  "neon_halfband_loop taps inp count i =
    (if i + 6 < count
     then run_bind (neon_two_outputs taps (map complex_word inp) i) (\<lambda>iq_out.
       run_bind (neon_halfband_loop taps inp count (i + 4)) (\<lambda>out. Inr (complex_samples iq_out @ out)))
     else neon_trailing taps inp count i)"
  by pat_completeness auto
termination by (relation "measure (\<lambda>(_, _, count, i). count - i)") auto

declare neon_trailing.simps [simp del] neon_halfband_loop.simps [simp del]

definition neon_halfband_decimate_block :: "i16 list \<Rightarrow> cs16 list \<Rightarrow> nat \<Rightarrow> cs16 list run" where
  "neon_halfband_decimate_block taps inp count =
    (if count mod 2 \<noteq> 0 then Inl Assertion_failed else neon_halfband_loop taps inp count 0)"

subsection \<open>The vector loop computes the filter\<close>

text \<open>What each lane filters: the two outputs are two samples apart.\<close>

definition lanes :: "cs16 list \<Rightarrow> nat \<Rightarrow> i16 list list" where
  "lanes inp i = [map ci (drop i inp), map cq (drop i inp), map ci (drop (i + 2) inp), map cq (drop (i + 2) inp)]"

definition part :: "nat \<Rightarrow> nat \<Rightarrow> nat set" where
  "part k r = {j. j < 4 * k \<and> j mod 4 = r}"

lemma part_0: "part 0 r = {}"
  by (simp add: part_def)

lemma part_Suc: "r < 4 \<Longrightarrow> part (Suc k) r = insert (4 * k + r) (part k r)"
  by (auto simp: part_def) presburger+

lemma part_new: "4 * k + r \<notin> part k r"
  by (simp add: part_def)

lemma finite_part [simp]: "finite (part k r)"
  by (simp add: part_def)

lemma parts: "part k 0 \<union> part k 1 \<union> part k 2 \<union> part k 3 = {..<4 * k}"
  "part k 0 \<inter> part k 1 = {}" "part k 2 \<inter> part k 3 = {}" "(part k 0 \<union> part k 1) \<inter> (part k 2 \<union> part k 3) = {}"
  by (auto simp: part_def)

lemma saturate_small: "\<bar>x\<bar> < 2 ^ 31 \<Longrightarrow> saturate x = word_of_int x"
  by (simp add: saturate_def max_def min_def abs_less_iff)

lemma sint_small: "\<bar>x\<bar> < 2 ^ 31 \<Longrightarrow> sint (word_of_int x :: i32) = x"
  by (rule sint_word_of_int_small) (auto simp: abs_less_iff)

definition lane_sum :: "i16 list \<Rightarrow> nat set \<Rightarrow> i16 list \<Rightarrow> i32" where
  "lane_sum taps J xs = word_of_int (2 * (\<Sum>j \<in> J. product_at taps xs j))"

lemma lane_bound:
  assumes "tap_mass taps \<le> 32767" "J \<subseteq> {..<length taps}"
  shows "\<bar>2 * (\<Sum>j \<in> J. product_at taps xs j)\<bar> < 2 ^ 31"
  using subset_sum_bound [OF assms(2), of xs] assms(1) by simp

lemma lane_step:
  assumes m: "tap_mass taps \<le> 32767" and J: "insert j J \<subseteq> {..<length taps}" "j \<notin> J" and t: "t ! lane = taps ! j"
  shows "vqdmlal_lane_s16 (map (lane_sum taps J) xss) (map (\<lambda>xs. xs ! j) xss) t lane = map (lane_sum taps (insert j J)) xss"
proof -
  have f: "finite J" using J(1) by (auto intro: finite_subset)
  have "saturate (sint (lane_sum taps J xs) + sint (saturate (2 * (sint (xs ! j) * sint (t ! lane))))) = lane_sum taps (insert j J) xs" for xs
  proof -
    have a: "\<bar>2 * product_at taps xs j\<bar> < 2 ^ 31" using lane_bound [OF m, of "{j}" xs] J(1) by simp
    have b: "\<bar>2 * (\<Sum>j \<in> J. product_at taps xs j)\<bar> < 2 ^ 31" using lane_bound [OF m, of J xs] J(1) by simp
    have c: "\<bar>2 * (\<Sum>j \<in> J. product_at taps xs j) + 2 * product_at taps xs j\<bar> < 2 ^ 31"
      using lane_bound [OF m J(1), of xs] f J(2) by (simp add: algebra_simps)
    have "sint (saturate (2 * (sint (xs ! j) * sint (t ! lane)))) = 2 * product_at taps xs j"
      using a unfolding t product_at_def [symmetric] by (simp only: saturate_small sint_small)
    moreover have "sint (lane_sum taps J xs) = 2 * (\<Sum>j \<in> J. product_at taps xs j)"
      using b unfolding lane_sum_def by (simp only: sint_small)
    ultimately show ?thesis using c f J(2) by (simp add: saturate_small lane_sum_def algebra_simps)
  qed
  then show ?thesis by (simp add: vqdmlal_lane_s16_def zip_map1 zip_map2 zip_same_conv_map comp_def)
qed

lemma lane_add:
  assumes m: "tap_mass taps \<le> 32767" and J: "I \<union> J \<subseteq> {..<length taps}" "I \<inter> J = {}"
  shows "vqadd_s32 (map (lane_sum taps I) xss) (map (lane_sum taps J) xss) = map (lane_sum taps (I \<union> J)) xss"
proof -
  have f: "finite I" "finite J" using J(1) by (auto intro: finite_subset)
  have "saturate (sint (lane_sum taps I xs) + sint (lane_sum taps J xs)) = lane_sum taps (I \<union> J) xs" for xs
  proof -
    have a: "sint (lane_sum taps I xs) = 2 * (\<Sum>j \<in> I. product_at taps xs j)" "sint (lane_sum taps J xs) = 2 * (\<Sum>j \<in> J. product_at taps xs j)"
      using lane_bound [OF m, of I xs] lane_bound [OF m, of J xs] J(1) unfolding lane_sum_def by (simp_all only: sint_small Un_subset_iff)
    have s: "2 * (\<Sum>j \<in> I \<union> J. product_at taps xs j) = 2 * (\<Sum>j \<in> I. product_at taps xs j) + 2 * (\<Sum>j \<in> J. product_at taps xs j)"
      using f J(2) by (simp add: sum.union_disjoint algebra_simps)
    show ?thesis
      using lane_bound [OF m J(1), of xs] unfolding a lane_sum_def [of taps "I \<union> J"] s by (rule saturate_small)
  qed
  then show ?thesis by (simp add: vqadd_s32_def zip_map1 zip_map2 zip_same_conv_map comp_def)
qed

text \<open>The high half of the doubled sum is the sum shifted right by 15.\<close>

lemma high_half: "(ucast (drop_bit 16 (word_of_int (2 * x) :: i32)) :: i16) = ucast (signed_drop_bit 15 (word_of_int x :: i32))"
proof (rule bit_word_eqI)
  fix k assume k: "k < LENGTH(16)"
  have "bit (2 * x) (16 + k) = bit x (15 + k)" by (simp add: bit_double_iff add.commute)
  then show "bit (ucast (drop_bit 16 (word_of_int (2 * x) :: i32)) :: i16) k = bit (ucast (signed_drop_bit 15 (word_of_int x :: i32)) :: i16) k"
    using k by (simp add: bit_simps min_def add.commute [of _ 16])
qed

lemma lane_result:
  assumes "finite I" "finite J" "I \<inter> J = {}"
  shows "vaddhn_s32 (map (lane_sum taps I) xss) (map (lane_sum taps J) xss) =
    map (\<lambda>xs. ucast (signed_drop_bit 15 (word_of_int (\<Sum>j \<in> I \<union> J. product_at taps xs j) :: i32))) xss"
proof -
  have "lane_sum taps I xs + lane_sum taps J xs = word_of_int (2 * (\<Sum>j \<in> I \<union> J. product_at taps xs j))" for xs
    using assms unfolding lane_sum_def by (simp only: sum.union_disjoint distrib_left of_int_add [symmetric])
  then have "ucast (drop_bit 16 (lane_sum taps I xs + lane_sum taps J xs)) =
      (ucast (signed_drop_bit 15 (word_of_int (\<Sum>j \<in> I \<union> J. product_at taps xs j) :: i32)) :: i16)" for xs
    by (simp only: high_half)
  then show ?thesis by (simp only: vaddhn_s32_def zip_map1 zip_map2 zip_same_conv_map comp_def map_map prod.case)
qed

lemma length_tap_array: "length taps mod 4 = 3 \<Longrightarrow> length (tap_array taps) = length taps + 1"
  by (simp add: tap_array_def)

lemma tap_array_nth: "j < length taps \<Longrightarrow> tap_array taps ! j = taps ! j"
  by (simp add: tap_array_def nth_append)

lemma tap_array_mass: "tap_mass (tap_array taps) = tap_mass taps"
  by (simp add: tap_mass_list tap_array_def sum_list_replicate)

lemma tap_array_fir:
  assumes "length taps mod 4 = 3"
  shows "(\<Sum>j < length taps + 1. product_at (tap_array taps) xs j) = fir taps xs"
proof -
  have "tap_array taps ! length taps = 0" using assms by (simp add: tap_array_def nth_append)
  then show ?thesis by (simp add: fir_def product_at_def tap_array_nth)
qed

lemma take_4: "n + 4 \<le> length xs \<Longrightarrow> take 4 (drop n xs) = [xs ! n, xs ! (n + 1), xs ! (n + 2), xs ! (n + 3)]"
  by (simp add: numeral_eq_Suc take_Suc_conv_app_nth)

lemma reinterpret_complex: "vreinterpret_s16_u32 [complex_word y, complex_word z] = [ci y, cq y, ci z, cq z]"
  by (simp only: complex_word_def reinterpret_cons reinterpret_nil)

text \<open>The vectors multiplied in one round.\<close>

lemma lanes_nth:
  "i + j + 2 < length inp \<Longrightarrow> map (\<lambda>xs. xs ! j) (lanes inp i) =
    [ci (inp ! (i + j)), cq (inp ! (i + j)), ci (inp ! (i + 2 + j)), cq (inp ! (i + 2 + j))]"
  by (simp add: lanes_def)

definition round_state :: "i16 list \<Rightarrow> cs16 list \<Rightarrow> nat \<Rightarrow> nat \<Rightarrow> neon_sums" where
  "round_state taps inp i k = \<lparr>in01 = map complex_word (take 4 (drop (i + 4 * k) inp)),
     sum0 = map (lane_sum taps (part k 0)) (lanes inp i), sum1 = map (lane_sum taps (part k 1)) (lanes inp i),
     sum2 = map (lane_sum taps (part k 2)) (lanes inp i), sum3 = map (lane_sum taps (part k 3)) (lanes inp i)\<rparr>"

lemma round_step:
  assumes m: "tap_mass taps \<le> 32767" and n: "4 * k + 4 \<le> length taps" "i + 4 * k + 8 \<le> length inp"
  shows "neon_tap_round taps (map complex_word inp) i (round_state taps inp i k) (4 * k) = Inr (round_state taps inp i (Suc k))"
proof -
  define t where "t = take 4 (drop (4 * k) taps)"
  have t: "t ! r = taps ! (4 * k + r)" if "r < 4" for r using that n by (simp add: t_def)
  have J: "insert (4 * k + r) (part k r) \<subseteq> {..<length taps}" if "r < 4" for r using that n by (auto simp: part_def)
  define y where "y = (\<lambda>r. inp ! (i + 4 * k + r))"
  have z: "take 4 (drop (i + 4 * k) inp) = [y 0, y 1, y 2, y 3]" "take 4 (drop (i + 4 * Suc k) inp) = [y 4, y 5, y 6, y 7]"
    using take_4 [of "i + 4 * k" inp] take_4 [of "i + 4 * k + 4" inp] n by (simp_all add: y_def add.commute add.left_commute)
  have mul: "map (\<lambda>xs. xs ! (4 * k + r)) (lanes inp i) = [ci (y r), cq (y r), ci (y (r + 2)), cq (y (r + 2))]" if "r < 4" for r
    using lanes_nth [of i "4 * k + r" inp] that n by (simp add: y_def algebra_simps)
  have step: "vqdmlal_lane_s16 (map (lane_sum taps (part k r)) (lanes inp i)) [ci (y r), cq (y r), ci (y (r + 2)), cq (y (r + 2))] t r =
      map (lane_sum taps (part (Suc k) r)) (lanes inp i)" if "r < 4" for r
    using lane_step [OF m J [OF that] part_new t [OF that], of "lanes inp i"] that unfolding mul [OF that] by (simp only: part_Suc)
  have nums: "(0 :: nat) + 2 = 2" "(1 :: nat) + 2 = 3" "(2 :: nat) + 2 = 4" "(3 :: nat) + 2 = 5" by simp_all
  have steps: "vqdmlal_lane_s16 (map (lane_sum taps (part k 0)) (lanes inp i)) [ci (y 0), cq (y 0), ci (y 2), cq (y 2)] t 0 =
        map (lane_sum taps (part (Suc k) 0)) (lanes inp i)"
    "vqdmlal_lane_s16 (map (lane_sum taps (part k 1)) (lanes inp i)) [ci (y 1), cq (y 1), ci (y 3), cq (y 3)] t 1 =
        map (lane_sum taps (part (Suc k) 1)) (lanes inp i)"
    "vqdmlal_lane_s16 (map (lane_sum taps (part k 2)) (lanes inp i)) [ci (y 2), cq (y 2), ci (y 4), cq (y 4)] t 2 =
        map (lane_sum taps (part (Suc k) 2)) (lanes inp i)"
    "vqdmlal_lane_s16 (map (lane_sum taps (part k 3)) (lanes inp i)) [ci (y 3), cq (y 3), ci (y 5), cq (y 5)] t 3 =
        map (lane_sum taps (part (Suc k) 3)) (lanes inp i)"
    using step [of 0] step [of 1] step [of 2] step [of 3] unfolding nums by simp_all
  have vld: "vld1 taps (4 * k) 4 = Inr t" "vld1 (map complex_word inp) (i + 4 + 4 * k) 4 = Inr (map complex_word [y 4, y 5, y 6, y 7])"
    unfolding z(2) [symmetric] using n by (simp_all add: vld1_def t_def take_map drop_map ac_simps)
  have zip: "vzip [complex_word a, complex_word b] [complex_word c, complex_word d] =
      ([complex_word a, complex_word c], [complex_word b, complex_word d])" for a b c d
    by (simp add: vzip_def)
  have halves: "vget_low (map complex_word [a, b, c, d]) = [complex_word a, complex_word b]"
      "vget_high (map complex_word [a, b, c, d]) = [complex_word c, complex_word d]" for a b c d
    by (simp_all add: vget_low_def vget_high_def)
  show ?thesis
    unfolding neon_tap_round_def vld run_bind_simps round_state_def z neon_sums.select_convs Let_def halves zip fst_conv snd_conv
      reinterpret_complex steps
    by (rule refl)
qed

lemma rounds:
  assumes "tap_mass taps \<le> 32767" "4 * k \<le> length taps" "i + 4 * k + 4 \<le> length inp"
  shows "run_foldl (neon_tap_round taps (map complex_word inp) i) (round_state taps inp i 0) (map (\<lambda>k. 4 * k) [0..<k]) =
    Inr (round_state taps inp i k)"
  using assms(2,3)
proof (induction k)
  case (Suc k)
  then show ?case using round_step [OF assms(1), of k i inp] by (simp add: run_foldl_append)
qed simp

lemma round_state_0:
  "round_state taps inp i 0 = \<lparr>in01 = map complex_word (take 4 (drop i inp)), sum0 = replicate 4 0, sum1 = replicate 4 0,
     sum2 = replicate 4 0, sum3 = replicate 4 0\<rparr>"
  by (simp add: round_state_def lanes_def part_0 lane_sum_def numeral_eq_Suc)

lemma fir_window: "length taps \<le> length xs \<Longrightarrow> fir taps (take (length taps) xs) = fir taps xs"
  by (simp add: fir_def product_at_def)

lemma halfband_point_fir:
  assumes "halfband_structure taps" "i + length taps \<le> length inp"
  shows "halfband_point taps (take (length taps) (drop i inp)) =
    \<lparr>ci = ucast (signed_drop_bit 15 (word_of_int (fir taps (map ci (drop i inp))) :: i32)),
     cq = ucast (signed_drop_bit 15 (word_of_int (fir taps (map cq (drop i inp))) :: i32))\<rparr>"
  using assms by (simp only: halfband_point_def mac_fir take_map [symmetric]) (simp add: fir_window)

lemma two_outputs:
  assumes s: "halfband_structure taps" and m: "tap_mass taps \<le> 32767" and n: "length taps mod 4 = 3" "i + length taps + 5 \<le> length inp"
  shows "run_bind (neon_two_outputs taps (map complex_word inp) i) (\<lambda>iq_out. Inr (complex_samples iq_out)) =
    Inr [halfband_point taps (take (length taps) (drop i inp)), halfband_point taps (take (length taps) (drop (i + 2) inp))]"
proof -
  define A where "A = tap_array taps"
  define K where "K = (length taps + 3) div 4"
  have K: "4 * K = length taps + 1" using n(1) unfolding K_def by presburger
  have A: "tap_mass A \<le> 32767" "length A = 4 * K" using m n(1) K by (simp_all add: A_def tap_array_mass length_tap_array)
  have "run_foldl (neon_tap_round A (map complex_word inp) i) (round_state A inp i 0) (map (\<lambda>k. 4 * k) [0..<K]) = Inr (round_state A inp i K)"
    using A K n(2) by (intro rounds) simp_all
  moreover have "vld1 (map complex_word inp) i 4 = Inr (map complex_word (take 4 (drop i inp)))"
    using n(2) by (simp add: vld1_def take_map drop_map)
  ultimately have "neon_two_outputs taps (map complex_word inp) i =
      Inr (vaddhn_s32 (vqadd_s32 (map (lane_sum A (part K 0)) (lanes inp i)) (map (lane_sum A (part K 1)) (lanes inp i)))
        (vqadd_s32 (map (lane_sum A (part K 2)) (lanes inp i)) (map (lane_sum A (part K 3)) (lanes inp i))))"
    by (simp add: neon_two_outputs_def A_def [symmetric] K_def [symmetric] round_state_0 [of A inp i, symmetric])
       (simp add: round_state_def)
  also have "\<dots> = Inr (map (\<lambda>xs. ucast (signed_drop_bit 15 (word_of_int (fir taps xs) :: i32))) (lanes inp i))"
  proof -
    have "part K 0 \<union> part K 1 \<subseteq> {..<length A}" "part K 2 \<union> part K 3 \<subseteq> {..<length A}" using A(2) parts(1) [of K] by auto
    then have add: "vqadd_s32 (map (lane_sum A (part K 0)) xss) (map (lane_sum A (part K 1)) xss) = map (lane_sum A (part K 0 \<union> part K 1)) xss"
        "vqadd_s32 (map (lane_sum A (part K 2)) xss) (map (lane_sum A (part K 3)) xss) = map (lane_sum A (part K 2 \<union> part K 3)) xss" for xss
      using lane_add [OF A(1)] parts(2,3) [of K] by blast+
    have all: "part K 0 \<union> part K 1 \<union> (part K 2 \<union> part K 3) = {..<length taps + 1}" using parts(1) [of K] K by (simp add: Un_assoc)
    have f: "finite (part K 0 \<union> part K 1)" "finite (part K 2 \<union> part K 3)" by simp_all
    have fir: "(\<Sum>j < length taps + 1. product_at A xs j) = fir taps xs" for xs using tap_array_fir [OF n(1)] unfolding A_def by blast
    show ?thesis unfolding add lane_result [OF f parts(4)] all fir by (rule refl)
  qed
  finally show ?thesis
    using n(2) halfband_point_fir [OF s, of i inp] halfband_point_fir [OF s, of "i + 2" inp] by (simp add: lanes_def)
qed

subsection \<open>The loops\<close>

lemma trailing_sum_fir: "trailing_sum taps xs = word_of_int (fir taps xs)"
proof -
  have "foldl (\<lambda>s j. s + scast (xs ! j) * scast (taps ! j)) 0 [0..<m] = (word_of_int (\<Sum>j < m. product_at taps xs j) :: i32)" for m
  proof (induction m)
    case (Suc m)
    have "foldl (\<lambda>s j. s + scast (xs ! j) * scast (taps ! j)) 0 [0..<Suc m] =
        (word_of_int (\<Sum>j < m. product_at taps xs j) + scast (xs ! m) * scast (taps ! m) :: i32)"
      using Suc by simp
    also have "\<dots> = word_of_int ((\<Sum>j < m. product_at taps xs j) + product_at taps xs m)"
      by (simp only: scast_eq product_at_def of_int_add of_int_mult)
    finally show ?case by simp
  qed simp
  then show ?thesis by (simp add: trailing_sum_def fir_def)
qed

lemma trailing_generic:
  assumes s: "halfband_structure taps" and n: "even count" "count + length taps \<le> length inp + 2" "even i"
  shows "neon_trailing taps inp count i =
    Inr (map (\<lambda>k. halfband_point taps (take (length taps) (drop (2 * k) inp))) [i div 2..<count div 2])"
  using n(3)
proof (induction "count - i" arbitrary: i rule: less_induct)
  case less
  show ?case
  proof (cases "i < count")
    case True
    then have i: "i + 2 \<le> count" "2 * (i div 2) = i" "i div 2 < count div 2" "(i + 2) div 2 = Suc (i div 2)" using n(1) less.prems by presburger+
    have "vld1 inp i (length taps) = Inr (take (length taps) (drop i inp))" using i n(2) by (simp add: vld1_def)
    moreover have "\<lparr>ci = ucast (signed_drop_bit 15 (trailing_sum taps (map ci (take (length taps) (drop i inp))))),
          cq = ucast (signed_drop_bit 15 (trailing_sum taps (map cq (take (length taps) (drop i inp)))))\<rparr> =
        halfband_point taps (take (length taps) (drop i inp))"
      by (simp only: halfband_point_def trailing_sum_fir mac_fir [OF s])
    moreover have "neon_trailing taps inp count (i + 2) =
        Inr (map (\<lambda>k. halfband_point taps (take (length taps) (drop (2 * k) inp))) [(i + 2) div 2..<count div 2])"
      using less i by simp
    ultimately show ?thesis using True i by (subst neon_trailing.simps) (simp add: upt_conv_Cons [OF i(3)])
  next
    case False
    then show ?thesis by (subst neon_trailing.simps) (simp add: div_le_mono)
  qed
qed

lemma halfband_loop_generic:
  assumes s: "halfband_structure taps" and m: "tap_mass taps \<le> 32767" and n: "even count" "count + length taps \<le> length inp + 2"
    and r: "length taps mod 4 = 3" and i: "4 dvd i"
  shows "neon_halfband_loop taps inp count i =
    Inr (map (\<lambda>k. halfband_point taps (take (length taps) (drop (2 * k) inp))) [i div 2..<count div 2])"
  using i
proof (induction "count - i" arbitrary: i rule: less_induct)
  case less
  show ?case
  proof (cases "i + 6 < count")
    case True
    then have i: "i + 8 \<le> count" "2 * (i div 2) = i" "i div 2 < count div 2" "Suc (i div 2) < count div 2" "(i + 4) div 2 = Suc (Suc (i div 2))"
      using n(1) less.prems by presburger+
    have "run_bind (neon_two_outputs taps (map complex_word inp) i) (\<lambda>iq_out. Inr (complex_samples iq_out)) =
        Inr [halfband_point taps (take (length taps) (drop i inp)), halfband_point taps (take (length taps) (drop (i + 2) inp))]"
      using two_outputs [OF s m r, of i inp] i n(2) by simp
    then obtain v where v: "neon_two_outputs taps (map complex_word inp) i = Inr v"
        "complex_samples v = [halfband_point taps (take (length taps) (drop i inp)), halfband_point taps (take (length taps) (drop (i + 2) inp))]"
      by (auto simp: run_bind_Inr_iff)
    have "neon_halfband_loop taps inp count (i + 4) =
        Inr (map (\<lambda>k. halfband_point taps (take (length taps) (drop (2 * k) inp))) [(i + 4) div 2..<count div 2])"
      using less i by simp
    then show ?thesis using True i v
      by (subst neon_halfband_loop.simps) (simp add: upt_conv_Cons [OF i(3)] upt_conv_Cons [OF i(4)])
  next
    case False
    then show ?thesis using trailing_generic [OF s n, of i] less.prems by (subst neon_halfband_loop.simps) auto
  qed
qed

lemma structure_mod_4: "halfband_structure taps \<Longrightarrow> length taps mod 4 = 3"
proof -
  have "odd n \<Longrightarrow> odd ((n - 1) div 2) \<Longrightarrow> n mod 4 = 3" for n :: nat by presburger
  then show "halfband_structure taps \<Longrightarrow> length taps mod 4 = 3" unfolding halfband_structure_def center_offset_def by blast
qed

text \<open>C17: the vector implementations compute what the generic ones compute. Unpacking, with and without inversion, and
  mixing agree on every input, trapped assertions included. The half-band filter agrees on every block of an even count with its
  context after it, for every filter whose taps have the half-band structure and a mass of at most 32767, as the filters
  the library makes have: no saturating operation saturates, and reading ahead stays within the block and the padded taps.\<close>

theorem neon_equal:
  shows "neon_unpack inp = unpack_raw_adc_data inp \<and> neon_unpack_invert inp = unpack_raw_adc_data_invert inp \<and>
    neon_fs4_mix samples = fs4_mix samples \<and>
    (halfband_structure taps \<and> tap_mass taps \<le> 32767 \<and> even count \<and> count + length taps \<le> length block + 2 \<longrightarrow>
       neon_halfband_decimate_block taps block count = halfband_decimate_block taps block count)"
proof (intro conjI impI)
  assume h: "halfband_structure taps \<and> tap_mass taps \<le> 32767 \<and> even count \<and> count + length taps \<le> length block + 2"
  then have "taps \<noteq> []" by (auto simp: halfband_structure_def)
  then show "neon_halfband_decimate_block taps block count = halfband_decimate_block taps block count"
    using h halfband_loop_generic [of taps count block 0] structure_mod_4 [of taps]
    by (simp add: neon_halfband_decimate_block_def halfband_decimate_block_def)
qed (rule neon_unpack_generic neon_fs4_mix_generic)+

theorem neon_equal_witness:
  "neon_halfband_decimate_block [8191, 16384, 8191] (replicate 9 \<lparr>ci = 1000, cq = - 1000\<rparr>) 8 =
     halfband_decimate_block [8191, 16384, 8191] (replicate 9 \<lparr>ci = 1000, cq = - 1000\<rparr>) 8"
proof -
  have s: "halfband_structure [8191, 16384, 8191]" by (auto simp: halfband_structure_def center_offset_def less_Suc_eq)
  have m: "tap_mass [8191, 16384, 8191] \<le> 32767" by (simp add: tap_mass_list)
  show ?thesis
    using neon_equal [of "[]" "[]" "[8191, 16384, 8191]" 8 "replicate 9 \<lparr>ci = 1000, cq = - 1000\<rparr>"] s m by simp
qed

text \<open>With a filter of another length the vector loop reads one sample past the block.\<close>

lemma neon_reads_past_block:
  "neon_halfband_decimate_block [0, 1, 2, 1, 0] (replicate 11 \<lparr>ci = 0, cq = 0\<rparr>) 8 = Inl Out_of_bounds"
  by code_simp

end
