(* ===== verification/StreamConvert.thy ===== *)
theory StreamConvert
  imports ConfigFacts DspProps
begin

section \<open>From USB transfers to sample buffers (src/stream.c)\<close>

text \<open>
  A completed transfer is a sequence of blocks, each a header and packed ADC samples. Blocks with
  consecutive sequence numbers are converted together and handed to the user's callback with the
  timestamp of the first sample. The layout of the header (\<open>ep1_header_t\<close>, in a submodule) is a
  parameter. The samples of a buffer are a list whose length is its count. \<open>partial_samples\<close> and
  the DSP state of \<open>pg2sdr__device\<close> are in \<open>stream_state\<close>; the callback is a function of
  the user's state, which also says whether the library releases the buffer and whether the callback stopped the stream.
\<close>

subsection \<open>State\<close>

record block_format =
  header_size :: nat
  off_magic :: nat
  off_block_len :: nat
  off_samples :: nat
  off_sequence :: nat
  off_status :: nat
  BLOCK_MAGIC :: u32

record ep1_header =
  h_magic :: u32
  h_block_len :: u32
  h_samples :: u32
  h_sequence :: u32
  h_status :: u32

record stream_state =
  downconverter :: "downconvert_state option"
  post_decimators :: "halfband_state list"
  partial_samples :: u32
  draining :: bool

datatype samples = Real_samples "i16 list" | Complex_samples "cs16 list"

primrec sample_count :: "samples \<Rightarrow> nat" where
  "sample_count (Real_samples xs) = length xs"
| "sample_count (Complex_samples zs) = length zs"

record sample_buffer =
  sb_mode :: conversion_mode
  sb_samples :: samples
  sb_count :: nat
  sb_timestamp :: u64

type_synonym 'c stream_callback = "'c \<Rightarrow> sample_buffer \<Rightarrow> 'c \<times> bool \<times> bool"

subsection \<open>Blocks\<close>

definition unpack_header :: "block_format \<Rightarrow> u8 list \<Rightarrow> ep1_header" where
  "unpack_header F h =
    \<lparr>h_magic = le_at 4 (off_magic F) h, h_block_len = le_at 4 (off_block_len F) h,
     h_samples = le_at 4 (off_samples F) h, h_sequence = le_at 4 (off_sequence F) h,
     h_status = le_at 4 (off_status F) h\<rparr>"

fun le_words :: "u8 list \<Rightarrow> u32 list" where
  "le_words (a # b # c # d # bs) = le_word [a, b, c, d] # le_words bs"
| "le_words bs = []"

definition get_buffer :: "bool \<Rightarrow> 'u device \<Rightarrow> sample_buffer run" where
  "get_buffer alloc_ok d =
    (if \<not> alloc_ok then Inl Null_dereference
     else Inr \<lparr>sb_mode = conv_mode d, sb_samples = Real_samples [], sb_count = 0, sb_timestamp = 0\<rparr>)"

text \<open>
  The samples of the block at offset \<open>i\<close>. The code gives every block the room of
  \<open>usb_samples_per_block\<close> samples; if unpacking fills less, reading the rest is reading uninitialised memory.
\<close>

definition block_samples :: "block_format \<Rightarrow> 'u device \<Rightarrow> bool \<Rightarrow> u8 list \<Rightarrow> nat \<Rightarrow> i16 list run" where
  "block_samples F d inverted data i =
    (let swpb = unat (usb_samples_per_block d div 8 * 3); inp = drop (i + header_size F) data
     in if length inp < 4 * swpb then Inl Out_of_bounds
        else run_bind ((if inverted then unpack_raw_adc_data_invert else unpack_raw_adc_data) (le_words (take (4 * swpb) inp)))
          (\<lambda>xs. if length xs \<noteq> unat (usb_samples_per_block d) then Inl Out_of_bounds else Inr xs))"

definition block_offsets :: "nat \<Rightarrow> nat \<Rightarrow> nat list" where
  "block_offsets bpb len = map (\<lambda>k. k * bpb) [0..<len div bpb]"

definition unpack_blocks :: "block_format \<Rightarrow> 'u device \<Rightarrow> bool \<Rightarrow> u8 list \<Rightarrow> nat \<Rightarrow> i16 list run" where
  "unpack_blocks F d inverted data len =
    run_foldl (\<lambda>acc i. run_bind (block_samples F d inverted data i) (\<lambda>xs. Inr (acc @ xs))) []
      (block_offsets (unat (usb_bytes_per_block d)) len)"

subsection \<open>Conversion\<close>

text \<open>The decimators after the downconverter, with the capacity of the work buffers between them.\<close>

fun decimate_chain :: "nat \<Rightarrow> halfband_state list \<Rightarrow> cs16 list \<Rightarrow> (halfband_state list \<times> cs16 list) run" where
  "decimate_chain room [] zs = Inr ([], zs)"
| "decimate_chain room (f # fs) zs =
    (if room < 2 * length zs then Inl Out_of_bounds
     else run_bind (halfband_decimate_process f zs) (\<lambda>(f', out).
       run_bind (decimate_chain room fs out) (\<lambda>(fs', out'). Inr (f' # fs', out'))))"

definition inverted_spectrum :: "'u device \<Rightarrow> bool" where
  "inverted_spectrum d = ((sideband d = SIDEBAND_LOWER) \<noteq> (undersampling_mode d AND 1 = 0))"

definition convert_adc_blocks ::
  "block_format \<Rightarrow> 'u device \<Rightarrow> stream_state \<Rightarrow> u8 list \<Rightarrow> nat \<Rightarrow> (stream_state \<times> samples) run" where
  "convert_adc_blocks F d s data len =
    (if usb_bytes_per_block d = 0 then Inl Division_by_zero
     else if len mod unat (usb_bytes_per_block d) \<noteq> 0 then Inl Assertion_failed
     else case conv_mode d of
       MODE_LOWIF_REAL \<Rightarrow>
         run_bind (unpack_blocks F d False data len) (\<lambda>xs.
           if unat (buffer_size d) < length xs then Inl Out_of_bounds else Inr (s, Real_samples xs))
     | MODE_BASEBAND \<Rightarrow>
         run_bind (unpack_blocks F d (inverted_spectrum d) data len) (\<lambda>xs.
           if unat (adc_samples_per_transfer d) < length xs then Inl Out_of_bounds
           else case downconverter s of
             None \<Rightarrow> Inl Null_dereference
           | Some dc \<Rightarrow>
               if length (post_decimators s) \<noteq> post_decimation d then Inl Null_dereference
               else run_bind (downconvert_process dc xs) (\<lambda>(dc', zs).
                 run_bind (decimate_chain (unat (adc_samples_per_transfer d)) (post_decimators s) zs) (\<lambda>(fs, out).
                   if unat (buffer_size d) < length out then Inl Out_of_bounds
                   else Inr (s\<lparr>downconverter := Some dc', post_decimators := fs\<rparr>, Complex_samples out)))))"

subsection \<open>Dispatching\<close>

definition block_timestamp :: "u32 \<Rightarrow> u32 \<Rightarrow> u32 \<Rightarrow> u32 \<Rightarrow> u64" where
  "block_timestamp sequence samples_per_block partial samples_per_user =
    ucast ((sequence * samples_per_block - partial) div samples_per_user)"

definition dispatch_contiguous_blocks ::
  "block_format \<Rightarrow> 'u device \<Rightarrow> bool \<Rightarrow> 'c stream_callback \<Rightarrow> u8 list \<Rightarrow> nat \<Rightarrow> stream_state \<times> 'c \<Rightarrow>
   (stream_state \<times> 'c) run" where
  "dispatch_contiguous_blocks F d alloc_ok callback data len sc = (case sc of (s, c) \<Rightarrow>
    if usb_bytes_per_block d = 0 then Inl Division_by_zero
    else if len mod unat (usb_bytes_per_block d) \<noteq> 0 then Inl Assertion_failed
    else if adc_samples_per_user_sample d = 0 then Inl Division_by_zero
    else
      let adc_samples = of_nat (len div unat (usb_bytes_per_block d) * unat (usb_samples_per_block d)) :: u32;
          user_samples = adc_samples div adc_samples_per_user_sample d
      in if unat (buffer_size d) < unat user_samples then Inl Assertion_failed
         else run_bind (get_buffer alloc_ok d) (\<lambda>buffer.
           run_bind (convert_adc_blocks F d s data len) (\<lambda>(s, xs).
             let h = unpack_header F data;
                 buffer = buffer\<lparr>sb_samples := xs, sb_count := sample_count xs,
                   sb_timestamp := block_timestamp (h_sequence h) (usb_samples_per_block d) (partial_samples s)
                     (adc_samples_per_user_sample d)\<rparr>;
                 s = s\<lparr>partial_samples := (partial_samples s + adc_samples) mod adc_samples_per_user_sample d\<rparr>;
                 (c, release, stop) = callback c buffer
             in Inr (if stop then s\<lparr>draining := True\<rparr> else s, c))))"

definition valid_header :: "block_format \<Rightarrow> 'u device \<Rightarrow> ep1_header \<Rightarrow> bool" where
  "valid_header F d h \<longleftrightarrow> \<not> (h_magic h \<noteq> BLOCK_MAGIC F \<or> h_block_len h \<noteq> usb_bytes_per_block d \<or>
     h_samples h \<noteq> usb_samples_per_block d)"

text \<open>The loop over the blocks: \<open>start\<close> is where the pending range of blocks begins.\<close>

fun scan_blocks ::
  "block_format \<Rightarrow> 'u device \<Rightarrow> (u8 list \<Rightarrow> nat \<Rightarrow> 's \<Rightarrow> 's run) \<Rightarrow> u8 list \<Rightarrow> nat \<Rightarrow> u32 \<Rightarrow> nat list \<Rightarrow> 's \<Rightarrow> ('s \<times> int) run" where
  "scan_blocks F d dispatch data start expected [] sc =
    run_bind (dispatch (drop start data) (length data - start) sc) (\<lambda>sc. Inr (sc, PG2SDR_SUCCESS))"
| "scan_blocks F d dispatch data start expected (offset # offsets) sc =
    (let h = unpack_header F (drop offset data)
     in if \<not> valid_header F d h then Inr (sc, PG2SDR_ERROR_TRANSFER_FORMAT)
        else if offset \<noteq> 0 \<and> h_sequence h \<noteq> expected
        then run_bind (dispatch (drop start data) (offset - start) sc)
               (scan_blocks F d dispatch data offset (h_sequence h + 1) offsets)
        else scan_blocks F d dispatch data start (h_sequence h + 1) offsets sc)"

definition dispatch_transfer ::
  "block_format \<Rightarrow> 'u device \<Rightarrow> bool \<Rightarrow> 'c stream_callback \<Rightarrow> u8 list \<Rightarrow> stream_state \<times> 'c \<Rightarrow>
   ((stream_state \<times> 'c) \<times> int) run" where
  "dispatch_transfer F d alloc_ok callback data sc =
    (if usb_bytes_per_block d = 0 then Inl Division_by_zero
     else if length data mod unat (usb_bytes_per_block d) \<noteq> 0 then Inr (sc, PG2SDR_ERROR_TRANSFER_FORMAT)
     else scan_blocks F d (dispatch_contiguous_blocks F d alloc_ok callback) data 0 0
       (block_offsets (unat (usb_bytes_per_block d)) (length data)) sc)"

end
