(* ===== verification/StreamQueue.thy ===== *)
theory StreamQueue
  imports StreamConvert
begin

section \<open>Transfers and the streaming loop (src/stream.c)\<close>

text \<open>
  The transfers of a stream are an array; those submitted and not yet dispatched are also in a linked list, in the order
  of their submission. A \<open>pg2sdr__transfer_state\<close> is an address in \<open>xheap\<close>, so that the freed array and the
  pointers left to it can be told apart from the new one. What libusb knows is in \<open>in_flight\<close> (submitted
  and not called back) and \<open>cancelling\<close>; when it calls back, what the device sent, and the results of its functions
  are parameters.
\<close>

subsection \<open>State\<close>

datatype xfer_state = XFER_IDLE | XFER_BUSY | XFER_COMPLETED

type_synonym xptr = nat

record transfer =
  xstate :: xfer_state
  xnext :: "xptr option"
  xtimeout :: u32
  xlength :: u32
  xstatus :: transfer_status
  xdata :: "u8 list"

record queue =
  xheap :: "xptr \<Rightarrow> transfer option"
  transfers :: "xptr list"
  active_head :: "xptr option"
  active_tail :: "xptr option"
  completion_flag :: bool
  next_xptr :: xptr
  in_flight :: "xptr set"
  cancelling :: "xptr set"

definition xget :: "xptr \<Rightarrow> queue \<Rightarrow> transfer run" where
  "xget p q = (case xheap q p of None \<Rightarrow> Inl Use_after_free | Some t \<Rightarrow> Inr t)"

definition xset :: "xptr \<Rightarrow> transfer \<Rightarrow> queue \<Rightarrow> queue" where
  "xset p t q = q\<lparr>xheap := (xheap q)(p := Some t)\<rparr>"

definition xmodify :: "xptr \<Rightarrow> (transfer \<Rightarrow> transfer) \<Rightarrow> queue \<Rightarrow> queue run" where
  "xmodify p f q = run_bind (xget p q) (\<lambda>t. Inr (xset p (f t) q))"

subsection \<open>Completion and submission\<close>

definition transfer_callback :: "xptr \<Rightarrow> transfer_status \<Rightarrow> u8 list \<Rightarrow> queue \<Rightarrow> queue run" where
  "transfer_callback p status data q =
    run_bind (xmodify p (\<lambda>t. t\<lparr>xstatus := status, xdata := data, xstate := XFER_COMPLETED\<rparr>) q) (\<lambda>q.
      Inr (q\<lparr>completion_flag := True, in_flight := in_flight q - {p}, cancelling := cancelling q - {p}\<rparr>))"

text \<open>Appending to the list of active transfers, and removing its first.\<close>

definition link_active :: "xptr \<Rightarrow> queue \<Rightarrow> queue run" where
  "link_active p q =
    run_bind (xmodify p (\<lambda>t. t\<lparr>xnext := None\<rparr>) q) (\<lambda>q.
      run_bind (case active_tail q of
          None \<Rightarrow> Inr (q\<lparr>active_head := Some p\<rparr>)
        | Some l \<Rightarrow> xmodify l (\<lambda>t. t\<lparr>xnext := Some p\<rparr>) q)
        (\<lambda>q. Inr (q\<lparr>active_tail := Some p\<rparr>)))"

definition unlink_head :: "xptr \<Rightarrow> queue \<Rightarrow> queue run" where
  "unlink_head p q =
    run_bind (xmodify p (\<lambda>t. t\<lparr>xstate := XFER_IDLE\<rparr>) q) (\<lambda>q.
      run_bind (xget p q) (\<lambda>t.
        Inr (if xnext t = None then q\<lparr>active_head := None, active_tail := None\<rparr>
             else q\<lparr>active_head := xnext t\<rparr>)))"

definition submit_one_transfer :: "libusb_consts \<Rightarrow> int \<Rightarrow> xptr \<Rightarrow> queue \<Rightarrow> (queue \<times> int) run" where
  "submit_one_transfer L usb_error p q =
    run_bind (xget p q) (\<lambda>t.
      if xstate t \<noteq> XFER_IDLE then Inr (q, PG2SDR_ERROR_BAD_STATE)
      else let q = xset p (t\<lparr>xstate := XFER_BUSY\<rparr>) q
           in if usb_error < 0
              then Inr (xset p (t\<lparr>xstate := XFER_IDLE\<rparr>) q, translate_libusb_error L usb_error)
              else run_bind (link_active p (q\<lparr>in_flight := insert p (in_flight q)\<rparr>)) (\<lambda>q. Inr (q, PG2SDR_SUCCESS)))"

fun submit_list :: "libusb_consts \<Rightarrow> (xptr \<Rightarrow> int) \<Rightarrow> xptr list \<Rightarrow> queue \<Rightarrow> (queue \<times> int) run" where
  "submit_list L usb_error [] q = Inr (q, PG2SDR_SUCCESS)"
| "submit_list L usb_error (p # ps) q =
    run_bind (xget p q) (\<lambda>t.
      if xstate t = XFER_IDLE
      then run_bind (submit_one_transfer L (usb_error p) p q) (\<lambda>(q, error).
        if error < 0 then Inr (q, error) else submit_list L usb_error ps q)
      else submit_list L usb_error ps q)"

definition submit_transfers :: "libusb_consts \<Rightarrow> (xptr \<Rightarrow> int) \<Rightarrow> queue \<Rightarrow> (queue \<times> int) run" where
  "submit_transfers L usb_error q = submit_list L usb_error (transfers q) q"

subsection \<open>Cancelling and draining\<close>

definition cancel_one :: "queue \<Rightarrow> xptr \<Rightarrow> queue run" where
  "cancel_one q p = run_bind (xget p q) (\<lambda>t.
    Inr (if xstate t = XFER_BUSY then q\<lparr>cancelling := insert p (cancelling q)\<rparr> else q))"

definition cancel_transfers :: "queue \<Rightarrow> queue run" where
  "cancel_transfers q = run_foldl cancel_one q (transfers q)"

fun any_busy :: "xptr list \<Rightarrow> queue \<Rightarrow> bool run" where
  "any_busy [] q = Inr False"
| "any_busy (p # ps) q = run_bind (xget p q) (\<lambda>t. if xstate t = XFER_BUSY then Inr True else any_busy ps q)"

definition check_any_transfer_busy :: "queue \<Rightarrow> bool run" where
  "check_any_transfer_busy q = any_busy (transfers q) q"

text \<open>The loop that empties the list; it has no value if the list is cyclic.\<close>

partial_function (option) unlink_all :: "queue \<Rightarrow> queue run option" where
  "unlink_all q =
    (case active_head q of
       None \<Rightarrow> Some (Inr (q\<lparr>active_tail := None\<rparr>))
     | Some p \<Rightarrow>
         (case xget p q of
            Inl f \<Rightarrow> Some (Inl f)
          | Inr t \<Rightarrow> unlink_all ((xset p (t\<lparr>xstate := XFER_IDLE, xnext := None\<rparr>) q)\<lparr>active_head := xnext t\<rparr>)))"

subsection \<open>Allocation\<close>

text \<open>\<open>libusb_free_transfer\<close> must not be called on a transfer that is still active.\<close>

definition free_one :: "queue \<Rightarrow> xptr \<Rightarrow> queue run" where
  "free_one q p = (if p \<in> in_flight q then Inl Use_after_free else Inr (q\<lparr>xheap := (xheap q)(p := None)\<rparr>))"

definition free_dev_transfers :: "queue \<Rightarrow> queue run" where
  "free_dev_transfers q = run_bind (run_foldl free_one q (transfers q)) (\<lambda>q. Inr (q\<lparr>transfers := []\<rparr>))"

definition count_transfers :: "'u device \<Rightarrow> u32 run" where
  "count_transfers d =
    (if adc_samples_per_transfer d = 0 then Inl Undefined_conversion
     else run_bind (to_unsigned (rd (rd (adc_actual_frequency (adc_config d) / 4) / of_nat (unat (adc_samples_per_transfer d))))) (\<lambda>n.
       Inr (if n < 4 then 4 else if 32 < n then 32 else n)))"

definition transfer_timeout :: "'u device \<Rightarrow> u32 \<Rightarrow> u32 run" where
  "transfer_timeout d n =
    (if adc_actual_frequency (adc_config d) = 0 then Inl Undefined_conversion
     else let samples = rs (1000 * rs (of_nat (unat (adc_samples_per_transfer d))));
              fill_time_ms = rs (rd (rs (samples * of_nat (unat n)) / adc_actual_frequency (adc_config d)))
          in to_unsigned (rs (fill_time_ms + rs (of_nat (control_timeout_ms d)))))"

record allocations =
  calloc_ok :: bool
  buffer_ok :: "nat \<Rightarrow> bool"
  transfer_ok :: "nat \<Rightarrow> bool"

definition new_transfer :: "'u device \<Rightarrow> u32 \<Rightarrow> transfer" where
  "new_transfer d timeout_ms = \<lparr>xstate = XFER_IDLE, xnext = None, xtimeout = timeout_ms, xlength = usb_transfer_size d,
     xstatus = TRANSFER_COMPLETED, xdata = []\<rparr>"

definition allocate_transfers :: "allocations \<Rightarrow> 'u device \<Rightarrow> queue \<Rightarrow> (queue \<times> int) run" where
  "allocate_transfers A d q =
    run_bind (free_dev_transfers q) (\<lambda>q.
      run_bind (count_transfers d) (\<lambda>n.
        run_bind (transfer_timeout d n) (\<lambda>timeout_ms.
          if \<not> calloc_ok A \<or> (\<exists>i \<in> set [0..<unat n]. \<not> buffer_ok A i) \<or> (\<exists>i \<in> set [0..<unat n]. \<not> transfer_ok A i)
          then Inr (q, PG2SDR_ERROR_NO_MEMORY)
          else let ps = [next_xptr q..<next_xptr q + unat n]
               in Inr (q\<lparr>xheap := (\<lambda>p. if p \<in> set ps then Some (new_transfer d timeout_ms) else xheap q p),
                         transfers := ps, next_xptr := next_xptr q + unat n\<rparr>, PG2SDR_SUCCESS))))"

end
