(* ===== verification/StreamLoop.thy ===== *)
theory StreamLoop
  imports StreamQueue ConfigFacts
begin

section \<open>pg2sdr_stream_data as a state machine (src/stream.c)\<close>

text \<open>
  The thread that runs \<open>pg2sdr_stream_data\<close> is cut at the points where another thread can act: it holds the device's mutex
  except while it waits for libusb events, but the callback of a transfer may run on any thread that handles
  events, at any time. The states of the machine are these points; \<open>goto\<close> sets the state.
\<close>

datatype stream_pc =
    Returned | Loop_top | Loop_check | Loop_wait
  | Drain_start | Drain_top | Drain_check | Drain_wait | Cleaning_up | Finishing

record ('u, 'c) machine =
  m_dev :: "'u device"
  m_conv :: stream_state
  m_user :: 'c
  m_queue :: queue
  m_error :: int
  m_pc :: stream_pc

definition mutex_free :: "('u, 'c) machine \<Rightarrow> bool" where
  "mutex_free m \<longleftrightarrow> m_pc m \<in> {Returned, Loop_wait, Drain_wait}"

subsection \<open>Starting\<close>

record setup_results =
  allocs :: allocations
  downconvert_allocs :: "bool \<times> bool \<times> bool \<times> bool"
  work_buffer_allocs :: "bool \<times> bool"
  decimator_allocs :: "nat \<Rightarrow> bool \<times> bool"
  clear_halt_error :: int
  submit_error :: "xptr \<Rightarrow> int"

definition event_timeout :: "'u device \<Rightarrow> u32 run" where
  "event_timeout d =
    (if adc_actual_frequency (adc_config d) = 0 then Inl Undefined_conversion
     else to_unsigned (rd (rd (rd (1000 * of_nat (unat (adc_samples_per_transfer d))) / adc_actual_frequency (adc_config d)) +
       of_nat (control_timeout_ms d))))"

fun create_decimators :: "(nat \<Rightarrow> bool \<times> bool) \<Rightarrow> nat list \<Rightarrow> halfband_state list \<Rightarrow> (halfband_state list \<times> bool) run" where
  "create_decimators ok [] fs = Inr (fs, True)"
| "create_decimators ok (i # is) fs =
    run_bind (halfband_decimate_create (ok i) (Some default_halfband_taps)) (\<lambda>r.
      case r of None \<Rightarrow> Inr (fs, False) | Some f \<Rightarrow> create_decimators ok is (fs @ [f]))"

definition setup_conversion :: "setup_results \<Rightarrow> 'u device \<Rightarrow> stream_state \<Rightarrow> (stream_state \<times> bool) run" where
  "setup_conversion R d s =
    (case conv_mode d of
       MODE_LOWIF_REAL \<Rightarrow> Inr (s, True)
     | MODE_BASEBAND \<Rightarrow>
         run_bind (downconvert_create (downconvert_allocs R) (Some default_halfband_taps) (unat (adc_samples_per_transfer d))) (\<lambda>dc.
           let s = s\<lparr>downconverter := dc\<rparr>
           in if dc = None then Inr (s, False)
              else if \<not> (fst (work_buffer_allocs R) \<and> snd (work_buffer_allocs R)) then Inr (s, False)
              else run_bind (create_decimators (decimator_allocs R) [0..<post_decimation d] []) (\<lambda>(fs, ok).
                Inr (s\<lparr>post_decimators := fs\<rparr>, ok))))"

definition start_params :: "adc_pll_config \<Rightarrow> start_transfer run" where
  "start_params c = run_bind (to_unsigned (of_int (c_round (rd (adc_m c * 32768))))) (\<lambda>m.
    Inr \<lparr>n_divisor = of_nat (adc_n c), m_divisor = m, p_divisor = of_nat (adc_p c), idiv_divisor = of_nat (adc_i c)\<rparr>)"

definition start_transfers :: "'u usb_env \<Rightarrow> setup_results \<Rightarrow> ('u, 'c) machine \<Rightarrow> ('u, 'c) machine run" where
  "start_transfers E R m =
    (let m = m\<lparr>m_conv := (m_conv m)\<lparr>partial_samples := 0\<rparr>\<rparr>; d = m_dev m
     in if clear_halt_error R < 0
        then Inr (m\<lparr>m_error := translate_libusb_error (lu E) (clear_halt_error R), m_pc := Cleaning_up\<rparr>)
        else run_bind (start_params (adc_config d)) (\<lambda>params.
          let (u, error) = ctrl_start_transfer E (usb d) params (control_timeout_ms d);
              m = m\<lparr>m_dev := d\<lparr>usb := u\<rparr>, m_error := error\<rparr>
          in if error < 0 then Inr (m\<lparr>m_pc := Cleaning_up\<rparr>)
             else run_bind (submit_transfers (lu E) (submit_error R) (m_queue m)) (\<lambda>(q, error).
               let m = m\<lparr>m_queue := q, m_error := error\<rparr>
               in if error < 0 then Inr (m\<lparr>m_pc := Drain_start\<rparr>)
                  else Inr (m\<lparr>m_dev := (m_dev m)\<lparr>streaming := True\<rparr>, m_pc := Loop_top\<rparr>))))"

definition stream_setup :: "'u usb_env \<Rightarrow> p_i_table option \<Rightarrow> setup_results \<Rightarrow> ('u, 'c) machine \<Rightarrow> ('u, 'c) machine run" where
  "stream_setup E tab R m =
    (if CHECK_DEV (Some (m_dev m)) < 0 then Inr (m\<lparr>m_error := CHECK_DEV (Some (m_dev m))\<rparr>)
     else if streaming (m_dev m) then Inr (m\<lparr>m_error := PG2SDR_ERROR_BAD_STATE\<rparr>)
     else run_bind (apply_changes E tab (Some (m_dev m))) (\<lambda>(dev, error).
       case dev of
         None \<Rightarrow> Inl Null_dereference
       | Some d \<Rightarrow>
           let m = m\<lparr>m_dev := d, m_error := error\<rparr>
           in if error < 0 then Inr (m\<lparr>m_pc := Finishing\<rparr>)
              else if \<not> adc_valid (adc_config d) then Inr (m\<lparr>m_error := PG2SDR_ERROR_BAD_STATE, m_pc := Finishing\<rparr>)
              else run_bind (event_timeout d) (\<lambda>timeout_ms.
                run_bind (allocate_transfers (allocs R) d (m_queue m)) (\<lambda>(q, error).
                  let m = m\<lparr>m_queue := q, m_error := error\<rparr>
                  in if error < 0 then Inr (m\<lparr>m_pc := Finishing\<rparr>)
                     else run_bind (setup_conversion R d (m_conv m)) (\<lambda>(s, ok).
                       let m = m\<lparr>m_conv := s\<rparr>
                       in if \<not> ok then Inr (m\<lparr>m_error := PG2SDR_ERROR_NO_MEMORY, m_pc := Cleaning_up\<rparr>)
                          else start_transfers E R m)))))"

subsection \<open>The thread\<close>

text \<open>
  One pass of the main loop after the flag is cleared. It holds the mutex throughout, and the only action of
  others that can interleave, the callback of another transfer, commutes with it.
\<close>

record thread_results =
  handle_error :: int
  resubmit_error :: int
  buffer_alloc_ok :: bool

definition stream_check ::
  "'u usb_env \<Rightarrow> block_format \<Rightarrow> 'c stream_callback \<Rightarrow> thread_results \<Rightarrow> ('u, 'c) machine \<Rightarrow> ('u, 'c) machine run" where
  "stream_check E F callback R m =
    (let q = m_queue m
     in if draining (m_conv m) then Inr (m\<lparr>m_pc := Drain_start\<rparr>)
        else case active_head q of
          None \<Rightarrow> Inl Null_dereference
        | Some p \<Rightarrow>
            run_bind (xget p q) (\<lambda>t.
              if xstate t = XFER_BUSY then Inr (m\<lparr>m_pc := Loop_wait\<rparr>)
              else if xstate t \<noteq> XFER_COMPLETED then Inr (m\<lparr>m_error := PG2SDR_ERROR_BAD_STATE, m_pc := Drain_start\<rparr>)
              else if xstatus t \<noteq> TRANSFER_COMPLETED
              then Inr (m\<lparr>m_error := translate_libusb_transfer_status (xstatus t), m_pc := Drain_start\<rparr>)
              else run_bind (dispatch_transfer F (m_dev m) (buffer_alloc_ok R) callback (xdata t) (m_conv m, m_user m))
                (\<lambda>((s, c), error).
                  let m = m\<lparr>m_conv := s, m_user := c, m_error := error\<rparr>
                  in if error < 0 then Inr (m\<lparr>m_pc := Drain_start\<rparr>)
                     else run_bind (unlink_head p q) (\<lambda>q.
                       run_bind (submit_one_transfer (lu E) (resubmit_error R) p q) (\<lambda>(q, error).
                         Inr (m\<lparr>m_queue := q, m_error := error, m_pc := (if error < 0 then Drain_start else Loop_top)\<rparr>))))))"

definition interrupted_or_ok :: "libusb_consts \<Rightarrow> int \<Rightarrow> bool" where
  "interrupted_or_ok L usb_error \<longleftrightarrow> \<not> (usb_error < 0 \<and> usb_error \<noteq> LIBUSB_ERROR_INTERRUPTED L)"

definition drain_start :: "'u usb_env \<Rightarrow> ('u, 'c) machine \<Rightarrow> ('u, 'c) machine run" where
  "drain_start E m =
    (let (u, _) = ctrl_stop_transfer E (usb (m_dev m)) (control_timeout_ms (m_dev m))
     in run_bind (cancel_transfers (m_queue m)) (\<lambda>q.
          Inr (m\<lparr>m_conv := (m_conv m)\<lparr>draining := True\<rparr>, m_dev := (m_dev m)\<lparr>usb := u\<rparr>, m_queue := q, m_pc := Drain_top\<rparr>)))"

definition drain_check :: "('u, 'c) machine \<Rightarrow> ('u, 'c) machine run option" where
  "drain_check m =
    (case check_any_transfer_busy (m_queue m) of
       Inl f \<Rightarrow> Some (Inl f)
     | Inr True \<Rightarrow> Some (Inr (m\<lparr>m_pc := Drain_wait\<rparr>))
     | Inr False \<Rightarrow>
         map_option (\<lambda>r. run_bind r (\<lambda>q.
           Inr (m\<lparr>m_queue := q, m_conv := (m_conv m)\<lparr>draining := False\<rparr>, m_pc := Cleaning_up\<rparr>))) (unlink_all (m_queue m)))"

definition stream_cleanup :: "('u, 'c) machine \<Rightarrow> ('u, 'c) machine run" where
  "stream_cleanup m = run_bind (free_dev_transfers (m_queue m)) (\<lambda>q.
    Inr (m\<lparr>m_conv := (m_conv m)\<lparr>post_decimators := [], downconverter := None\<rparr>, m_queue := q, m_pc := Finishing\<rparr>))"

definition thread_step ::
  "'u usb_env \<Rightarrow> block_format \<Rightarrow> 'c stream_callback \<Rightarrow> thread_results \<Rightarrow> ('u, 'c) machine \<Rightarrow> ('u, 'c) machine run option" where
  "thread_step E F callback R m =
    (case m_pc m of
       Returned \<Rightarrow> Some (Inr m)
     | Loop_top \<Rightarrow> Some (Inr (m\<lparr>m_queue := (m_queue m)\<lparr>completion_flag := False\<rparr>, m_pc := Loop_check\<rparr>))
     | Loop_check \<Rightarrow> Some (stream_check E F callback R m)
     | Loop_wait \<Rightarrow>
         Some (Inr (if interrupted_or_ok (lu E) (handle_error R) then m\<lparr>m_pc := Loop_top\<rparr>
           else m\<lparr>m_error := translate_libusb_error (lu E) (handle_error R), m_pc := Drain_start\<rparr>))
     | Drain_start \<Rightarrow> Some (drain_start E m)
     | Drain_top \<Rightarrow> Some (Inr (m\<lparr>m_queue := (m_queue m)\<lparr>completion_flag := False\<rparr>, m_pc := Drain_check\<rparr>))
     | Drain_check \<Rightarrow> drain_check m
     | Drain_wait \<Rightarrow>
         Some (Inr (if interrupted_or_ok (lu E) (handle_error R) then m\<lparr>m_pc := Drain_top\<rparr>
           else m\<lparr>m_conv := (m_conv m)\<lparr>draining := False\<rparr>, m_pc := Finishing\<rparr>))
     | Cleaning_up \<Rightarrow> Some (stream_cleanup m)
     | Finishing \<Rightarrow>
         Some (Inr (m\<lparr>m_dev := (m_dev m)\<lparr>streaming := False\<rparr>, m_conv := (m_conv m)\<lparr>draining := False\<rparr>, m_pc := Returned\<rparr>)))"

subsection \<open>Other threads\<close>

definition stop_streaming :: "('u, 'c) machine \<Rightarrow> ('u, 'c) machine \<times> int" where
  "stop_streaming m =
    (if CHECK_DEV (Some (m_dev m)) < 0 then (m, CHECK_DEV (Some (m_dev m)))
     else if \<not> streaming (m_dev m) then (m, PG2SDR_ERROR_BAD_STATE)
     else (m\<lparr>m_conv := (m_conv m)\<lparr>draining := True\<rparr>, m_queue := (m_queue m)\<lparr>completion_flag := True\<rparr>\<rparr>, PG2SDR_SUCCESS))"

text \<open>The steps of a stream that has been started.\<close>

inductive stream_step ::
  "'u usb_env \<Rightarrow> block_format \<Rightarrow> p_i_table option \<Rightarrow> 'c stream_callback \<Rightarrow> ('u, 'c) machine \<Rightarrow> ('u, 'c) machine \<Rightarrow> bool"
  for E F tab callback where
  thread: "m_pc m \<noteq> Returned \<Longrightarrow> thread_step E F callback R m = Some (Inr m') \<Longrightarrow> stream_step E F tab callback m m'"
| completed: "p \<in> in_flight (m_queue m) \<Longrightarrow> transfer_callback p status data (m_queue m) = Inr q \<Longrightarrow>
    stream_step E F tab callback m (m\<lparr>m_queue := q\<rparr>)"
| stopped: "mutex_free m \<Longrightarrow> stop_streaming m = (m', error) \<Longrightarrow> stream_step E F tab callback m m'"
| configured: "mutex_free m \<Longrightarrow> (\<nexists>b. op = Streaming b) \<Longrightarrow> config_exec E tab (Some (m_dev m)) op = Inr (Some d, error) \<Longrightarrow>
    stream_step E F tab callback m (m\<lparr>m_dev := d\<rparr>)"

inductive_cases stream_stepE: "stream_step E F tab callback m m'"

text \<open>The states of one call of \<open>pg2sdr_stream_data\<close> from \<open>m0\<close>, and of the other threads during it.\<close>

inductive session ::
  "'u usb_env \<Rightarrow> block_format \<Rightarrow> p_i_table option \<Rightarrow> 'c stream_callback \<Rightarrow> ('u, 'c) machine \<Rightarrow> ('u, 'c) machine \<Rightarrow> bool"
  for E F tab callback m0 where
  started: "stream_setup E tab R m0 = Inr m \<Longrightarrow> session E F tab callback m0 m"
| continued: "session E F tab callback m0 m \<Longrightarrow> m_pc m \<noteq> Returned \<Longrightarrow> stream_step E F tab callback m m' \<Longrightarrow>
    session E F tab callback m0 m'"

end
