(* ===== verification/StreamQueueFacts.thy ===== *)
theory StreamQueueFacts
  imports StreamQueue
begin

section \<open>The list of active transfers is a queue\<close>

text \<open>
  The interface of a first-in first-out queue as a locale, the linked list of the code as its interpretation, and the
  invariant that ties the list, the states of the transfers and what libusb holds together.
\<close>

subsection \<open>Queues\<close>

locale fifo =
  fixes repr :: "'q \<Rightarrow> 'p list \<Rightarrow> bool"
    and ready :: "'p \<Rightarrow> 'q \<Rightarrow> bool"
    and enq :: "'p \<Rightarrow> 'q \<Rightarrow> 'q run"
    and deq :: "'p \<Rightarrow> 'q \<Rightarrow> 'q run"
  assumes repr_distinct: "repr q xs \<Longrightarrow> distinct xs"
    and enq_repr: "repr q xs \<Longrightarrow> p \<notin> set xs \<Longrightarrow> ready p q \<Longrightarrow> \<exists>q'. enq p q = Inr q' \<and> repr q' (xs @ [p])"
    and deq_repr: "repr q (p # xs) \<Longrightarrow> \<exists>q'. deq p q = Inr q' \<and> repr q' xs \<and> ready p q'"
begin

definition turn :: "'q \<Rightarrow> 'p \<Rightarrow> 'q run" where
  "turn q p = run_bind (deq p q) (enq p)"

lemma turn_repr: "repr q (p # xs) \<Longrightarrow> \<exists>q'. turn q p = Inr q' \<and> repr q' (xs @ [p])"
  using deq_repr [of q p xs] repr_distinct [of q "p # xs"] enq_repr by (fastforce simp: turn_def)

lemma turns_repr:
  "repr q xs \<Longrightarrow> xs \<noteq> [] \<Longrightarrow>
    \<exists>q'. run_foldl turn q (map (\<lambda>k. xs ! (k mod length xs)) [0..<n]) = Inr q' \<and> repr q' (rotate n xs)"
proof (induction n)
  case (Suc n)
  then obtain q' where q': "run_foldl turn q (map (\<lambda>k. xs ! (k mod length xs)) [0..<n]) = Inr q'" "repr q' (rotate n xs)"
    by blast
  obtain p ys where r: "rotate n xs = p # ys" using Suc.prems(2) by (cases "rotate n xs") auto
  then have p: "p = xs ! (n mod length xs)" using hd_rotate_conv_nth [of xs n] Suc.prems(2) by simp
  obtain q'' where "turn q' p = Inr q''" "repr q'' (ys @ [p])" using turn_repr [OF q'(2) [unfolded r]] by blast
  then show ?case using q'(1) r p by (simp add: run_foldl_append)
qed simp

end

subsection \<open>The linked list\<close>

fun path :: "(xptr \<Rightarrow> transfer option) \<Rightarrow> xptr option \<Rightarrow> xptr list \<Rightarrow> bool" where
  "path h x [] = (x = None)"
| "path h x (p # ps) = (x = Some p \<and> (\<exists>t. h p = Some t \<and> path h (xnext t) ps))"

lemma path_other: "p \<notin> set xs \<Longrightarrow> path (h(p := v)) x xs = path h x xs"
  by (induction xs arbitrary: x) auto

lemma path_same_next: "h p = Some t \<Longrightarrow> xnext t' = xnext t \<Longrightarrow> path (h(p := Some t')) x xs = path h x xs"
  by (induction xs arbitrary: x) auto

lemma path_dom: "path h x xs \<Longrightarrow> p \<in> set xs \<Longrightarrow> h p \<noteq> None"
  by (induction xs arbitrary: x) auto

lemma path_snoc:
  "path h x xs \<Longrightarrow> xs \<noteq> [] \<Longrightarrow> distinct xs \<Longrightarrow> p \<notin> set xs \<Longrightarrow> h p = Some tp \<Longrightarrow> xnext tp = None \<Longrightarrow> h (last xs) = Some tn \<Longrightarrow>
    path (h(last xs := Some (tn\<lparr>xnext := Some p\<rparr>))) x (xs @ [p])"
proof (induction xs arbitrary: x)
  case (Cons y ys)
  then show ?case
  proof (cases "ys = []")
    case False
    then have "last (y # ys) \<noteq> y" using Cons.prems(3) last_in_set by fastforce
    then show ?thesis using Cons False by auto
  qed auto
qed simp

definition active :: "queue \<Rightarrow> xptr list \<Rightarrow> bool" where
  "active q xs \<longleftrightarrow> path (xheap q) (active_head q) xs \<and> distinct xs \<and> active_tail q = (if xs = [] then None else Some (last xs))"

definition states :: "queue \<Rightarrow> xptr \<Rightarrow> xfer_state option" where
  "states q p = map_option xstate (xheap q p)"

definition same_rest :: "queue \<Rightarrow> queue \<Rightarrow> bool" where
  "same_rest q q' \<longleftrightarrow> transfers q' = transfers q \<and> completion_flag q' = completion_flag q \<and> next_xptr q' = next_xptr q \<and>
     in_flight q' = in_flight q \<and> cancelling q' = cancelling q"

lemmas queue_ops = xget_def xset_def xmodify_def

lemma link_active_ok:
  assumes a: "active q xs" and p: "p \<notin> set xs" "xheap q p = Some t"
  shows "\<exists>q'. link_active p q = Inr q' \<and> active q' (xs @ [p]) \<and> states q' = states q \<and> same_rest q q'"
proof (cases "xs = []")
  case True
  then show ?thesis using a p
    by (simp add: link_active_def queue_ops active_def states_def same_rest_def fun_eq_iff)
next
  case False
  define l where "l = last xs"
  have l: "active_tail q = Some l" "l \<noteq> p" "l \<in> set xs" using a False p(1) by (auto simp: active_def l_def)
  obtain tn where tn: "xheap q l = Some tn" using a l(3) path_dom [of "xheap q" "active_head q" xs l] by (auto simp: active_def)
  define h where "h = (xheap q)(p := Some (t\<lparr>xnext := None\<rparr>))"
  have "path h (active_head q) xs" using a p(1) by (simp add: h_def path_other active_def)
  moreover have "h p = Some (t\<lparr>xnext := None\<rparr>)" "h (last xs) = Some tn" using l(2) tn by (simp_all add: h_def l_def)
  ultimately have "path (h(l := Some (tn\<lparr>xnext := Some p\<rparr>))) (active_head q) (xs @ [p])"
    using path_snoc [of h "active_head q" xs p] a False p(1) by (simp add: active_def l_def)
  moreover have "link_active p q = Inr (q\<lparr>xheap := h(l := Some (tn\<lparr>xnext := Some p\<rparr>)), active_tail := Some p\<rparr>)"
    using p(2) tn l(1,2) by (simp add: link_active_def queue_ops h_def)
  moreover have "states (q\<lparr>xheap := h(l := Some (tn\<lparr>xnext := Some p\<rparr>)), active_tail := Some p\<rparr>) = states q"
    using p(2) tn l(2) by (simp add: states_def h_def fun_eq_iff)
  ultimately show ?thesis using a p(1) by (simp add: active_def same_rest_def)
qed

lemma unlink_head_ok:
  assumes a: "active q (p # xs)"
  shows "\<exists>q'. unlink_head p q = Inr q' \<and> active q' xs \<and> states q' = (states q)(p := Some XFER_IDLE) \<and> same_rest q q'"
proof -
  from a obtain t where t: "xheap q p = Some t" "path (xheap q) (xnext t) xs" "active_head q = Some p" "distinct (p # xs)"
    by (auto simp: active_def)
  have x: "xnext t = None \<longleftrightarrow> xs = []" using t(2) by (cases xs) auto
  have "path ((xheap q)(p := Some (t\<lparr>xstate := XFER_IDLE\<rparr>))) (xnext t) xs"
    using t path_other by simp
  then show ?thesis using a t x
    by (simp add: unlink_head_def queue_ops active_def states_def same_rest_def fun_eq_iff)
qed

interpretation active_list: fifo active "\<lambda>p q. xheap q p \<noteq> None" link_active unlink_head
proof unfold_locales
  show "distinct xs" if "active q xs" for q xs using that by (simp add: active_def)
  show "\<exists>q'. link_active p q = Inr q' \<and> active q' (xs @ [p])" if "active q xs" "p \<notin> set xs" "xheap q p \<noteq> None" for q p xs
    using link_active_ok that by blast
  show "\<exists>q'. unlink_head p q = Inr q' \<and> active q' xs \<and> xheap q' p \<noteq> None" if "active q (p # xs)" for q p xs
  proof -
    from unlink_head_ok [OF that] obtain q' where q': "unlink_head p q = Inr q'" "active q' xs"
        "states q' = (states q)(p := Some XFER_IDLE)" by blast
    then have "states q' p = Some XFER_IDLE" by simp
    then have "xheap q' p \<noteq> None" by (auto simp: states_def)
    with q' show ?thesis by blast
  qed
qed

end
