(* ===== verification/StreamQueueInv.thy ===== *)
theory StreamQueueInv
  imports StreamQueueFacts
begin

section \<open>The invariant of the transfers\<close>

text \<open>
  The list holds exactly the transfers that are not idle, libusb holds exactly those that are busy, and every pointer is
  into the allocated array.
\<close>

definition queue_ok :: "queue \<Rightarrow> xptr list \<Rightarrow> bool" where
  "queue_ok q xs \<longleftrightarrow> active q xs \<and> distinct (transfers q) \<and>
     (\<forall>p. states q p \<noteq> None \<longleftrightarrow> p \<in> set (transfers q)) \<and>
     (\<forall>p. p \<in> set xs \<longleftrightarrow> states q p \<noteq> None \<and> states q p \<noteq> Some XFER_IDLE) \<and>
     (\<forall>p. p \<in> in_flight q \<longleftrightarrow> states q p = Some XFER_BUSY)"

lemma active_update [simp]:
  "active (q\<lparr>completion_flag := b\<rparr>) xs = active q xs" "active (q\<lparr>cancelling := c\<rparr>) xs = active q xs"
  "active (q\<lparr>in_flight := f\<rparr>) xs = active q xs"
  by (simp_all add: active_def)

lemma states_update [simp]:
  "states (q\<lparr>completion_flag := b\<rparr>) = states q" "states (q\<lparr>cancelling := c\<rparr>) = states q"
  "states (q\<lparr>in_flight := f\<rparr>) = states q" "states (q\<lparr>active_head := h\<rparr>) = states q" "states (q\<lparr>active_tail := h\<rparr>) = states q"
  by (simp_all add: states_def fun_eq_iff)

lemma queue_ok_update [simp]:
  "queue_ok (q\<lparr>completion_flag := b\<rparr>) xs = queue_ok q xs" "queue_ok (q\<lparr>cancelling := c\<rparr>) xs = queue_ok q xs"
  by (simp_all add: queue_ok_def)

lemma states_Some: "states q p = Some s \<longleftrightarrow> (\<exists>t. xheap q p = Some t \<and> xstate t = s)"
  by (auto simp: states_def)

lemma states_xset: "states (xset p t q) = (states q)(p := Some (xstate t))"
  by (simp add: states_def xset_def fun_eq_iff)

lemma active_xset: "active q xs \<Longrightarrow> xheap q p = Some t \<Longrightarrow> xnext t' = xnext t \<Longrightarrow> active (xset p t' q) xs"
  by (simp add: active_def xset_def path_same_next)

lemma xset_rest [simp]:
  "transfers (xset p t q) = transfers q" "completion_flag (xset p t q) = completion_flag q" "in_flight (xset p t q) = in_flight q"
  "cancelling (xset p t q) = cancelling q" "next_xptr (xset p t q) = next_xptr q" "active_head (xset p t q) = active_head q"
  "xheap (xset p t q) = (xheap q)(p := Some t)"
  by (simp_all add: xset_def)

lemma queue_ok_head: "queue_ok q (p # xs) \<Longrightarrow> active_head q = Some p"
  by (simp add: queue_ok_def active_def)

lemma queue_ok_subset: "queue_ok q xs \<Longrightarrow> set xs \<subseteq> set (transfers q)" "queue_ok q xs \<Longrightarrow> in_flight q \<subseteq> set xs"
  by (auto simp: queue_ok_def)

lemma queue_ok_get: "queue_ok q xs \<Longrightarrow> p \<in> set (transfers q) \<Longrightarrow> \<exists>t. xget p q = Inr t \<and> xheap q p = Some t \<and> states q p = Some (xstate t)"
  by (force simp: queue_ok_def states_def xget_def)

subsection \<open>Operations\<close>

lemma transfer_callback_ok:
  assumes ok: "queue_ok q xs" and p: "p \<in> in_flight q"
  shows "\<exists>q'. transfer_callback p status data q = Inr q' \<and> queue_ok q' xs \<and> completion_flag q' \<and> in_flight q' = in_flight q - {p} \<and>
    transfers q' = transfers q \<and> active_head q' = active_head q"
proof -
  from ok p obtain t where t: "xheap q p = Some t" "xstate t = XFER_BUSY" by (auto simp: queue_ok_def states_Some)
  define q' where "q' = xset p (t\<lparr>xstatus := status, xdata := data, xstate := XFER_COMPLETED\<rparr>) q"
  have s: "states q' = (states q)(p := Some XFER_COMPLETED)" by (simp add: q'_def states_xset)
  have b: "states q p = Some XFER_BUSY" using t by (simp add: states_Some)
  have "active q' xs" using active_xset [OF _ t(1)] ok by (simp add: q'_def queue_ok_def)
  moreover have "transfers q' = transfers q" "active_head q' = active_head q" "in_flight q' = in_flight q" by (simp_all add: q'_def)
  ultimately have "queue_ok (q'\<lparr>completion_flag := True, in_flight := in_flight q' - {p}, cancelling := cancelling q' - {p}\<rparr>) xs"
    using ok b by (auto simp: queue_ok_def s)
  then show ?thesis using t(1)
    by (simp add: transfer_callback_def xmodify_def xget_def q'_def)
qed

lemma submit_one_ok:
  assumes ok: "queue_ok q xs" and p: "states q p = Some XFER_IDLE"
  shows "\<exists>q'. submit_one_transfer L rc p q = Inr (q', if rc < 0 then translate_libusb_error L rc else PG2SDR_SUCCESS) \<and>
    transfers q' = transfers q \<and>
    (if rc < 0 then queue_ok q' xs \<and> in_flight q' = in_flight q
     else queue_ok q' (xs @ [p]) \<and> in_flight q' = insert p (in_flight q) \<and> states q' = (states q)(p := Some XFER_BUSY))"
proof -
  from p obtain t where t: "xheap q p = Some t" "xstate t = XFER_IDLE" by (auto simp: states_Some)
  have n: "p \<notin> set xs" "p \<notin> in_flight q" using ok p by (auto simp: queue_ok_def)
  show ?thesis
  proof (cases "rc < 0")
    case True
    have "xset p (t\<lparr>xstate := XFER_IDLE\<rparr>) (xset p (t\<lparr>xstate := XFER_BUSY\<rparr>) q) = q"
      using t by (cases t) (simp add: xset_def fun_upd_idem)
    then show ?thesis using True t ok by (simp add: submit_one_transfer_def xget_def)
  next
    case False
    define q1 where "q1 = xset p (t\<lparr>xstate := XFER_BUSY\<rparr>) q"
    have "active (q1\<lparr>in_flight := insert p (in_flight q1)\<rparr>) xs"
      using ok active_xset [OF _ t(1)] by (simp add: q1_def queue_ok_def)
    moreover have "xheap (q1\<lparr>in_flight := insert p (in_flight q1)\<rparr>) p = Some (t\<lparr>xstate := XFER_BUSY\<rparr>)" by (simp add: q1_def)
    ultimately obtain q' where q': "link_active p (q1\<lparr>in_flight := insert p (in_flight q1)\<rparr>) = Inr q'" "active q' (xs @ [p])"
        "states q' = states q1" "same_rest (q1\<lparr>in_flight := insert p (in_flight q1)\<rparr>) q'"
      using link_active_ok n(1) by (metis states_update(3))
    have s: "states q' = (states q)(p := Some XFER_BUSY)" using q'(3) by (simp add: q1_def states_xset)
    have r: "transfers q' = transfers q" "in_flight q' = insert p (in_flight q)" using q'(4) by (simp_all add: same_rest_def q1_def)
    have "queue_ok q' (xs @ [p])" using ok p q'(2) by (auto simp: queue_ok_def s r)
    then show ?thesis using False t q'(1) s r by (simp add: submit_one_transfer_def xget_def q1_def)
  qed
qed

lemma submit_list_ok:
  assumes "queue_ok q xs" "distinct ps" "\<forall>p \<in> set ps. states q p = Some XFER_IDLE"
  shows "\<exists>q' e n. submit_list L rc ps q = Inr (q', e) \<and> queue_ok q' (xs @ take n ps) \<and> transfers q' = transfers q \<and>
    in_flight q' = in_flight q \<union> set (take n ps) \<and> (\<not> e < 0 \<longrightarrow> n = length ps)"
  using assms
proof (induction ps arbitrary: q xs)
  case (Cons p ps)
  note ps = Cons.prems
  from ps(3) obtain t where t: "xheap q p = Some t" "xstate t = XFER_IDLE" by (auto simp: states_Some)
  obtain q1 where q1: "submit_one_transfer L (rc p) p q = Inr (q1, if rc p < 0 then translate_libusb_error L (rc p) else PG2SDR_SUCCESS)"
      "transfers q1 = transfers q" "if rc p < 0 then queue_ok q1 xs \<and> in_flight q1 = in_flight q
     else queue_ok q1 (xs @ [p]) \<and> in_flight q1 = insert p (in_flight q) \<and> states q1 = (states q)(p := Some XFER_BUSY)"
    using submit_one_ok [OF ps(1), of p L "rc p"] ps(3) by auto
  show ?case
  proof (cases "rc p < 0")
    case True
    then have "translate_libusb_error L (rc p) < 0" by (simp add: translate_libusb_error_neg)
    then show ?thesis using True t q1 by (intro exI [of _ q1] exI [of _ "translate_libusb_error L (rc p)"] exI [of _ 0]) (simp add: xget_def)
  next
    case False
    have "\<forall>p \<in> set ps. states q1 p = Some XFER_IDLE" using False q1(3) ps(2,3) by auto
    then obtain q' e n where q': "submit_list L rc ps q1 = Inr (q', e)" "queue_ok q' ((xs @ [p]) @ take n ps)" "transfers q' = transfers q1"
        "in_flight q' = in_flight q1 \<union> set (take n ps)" "\<not> e < 0 \<longrightarrow> n = length ps"
      using Cons.IH [of q1 "xs @ [p]"] False q1(3) ps(2) by auto
    then show ?thesis using False t q1
      by (intro exI [of _ q'] exI [of _ e] exI [of _ "Suc n"]) (simp add: xget_def)
  qed
qed (auto intro!: exI [of _ 0])

lemma unlink_completed_ok:
  assumes ok: "queue_ok q (p # xs)" and c: "p \<notin> in_flight q"
  shows "\<exists>q'. unlink_head p q = Inr q' \<and> queue_ok q' xs \<and> states q' p = Some XFER_IDLE \<and> in_flight q' = in_flight q \<and>
    transfers q' = transfers q"
proof -
  from ok have a: "active q (p # xs)" by (simp add: queue_ok_def)
  from unlink_head_ok [OF a] obtain q' where q': "unlink_head p q = Inr q'" "active q' xs"
      "states q' = (states q)(p := Some XFER_IDLE)" "same_rest q q'" by blast
  have d: "p \<notin> set xs" using a by (simp add: active_def)
  have "states q p \<noteq> None" using ok by (auto simp: queue_ok_def)
  then have "queue_ok q' xs" using ok q'(2-4) c d by (auto simp: queue_ok_def same_rest_def)
  then show ?thesis using q' by (auto simp: same_rest_def)
qed

lemma cancel_transfers_ok:
  assumes ok: "queue_ok q xs"
  shows "cancel_transfers q = Inr (q\<lparr>cancelling := cancelling q \<union> in_flight q\<rparr>)"
proof -
  have "run_foldl cancel_one (q\<lparr>cancelling := c\<rparr>) ps = Inr (q\<lparr>cancelling := c \<union> (in_flight q \<inter> set ps)\<rparr>)"
    if "set ps \<subseteq> set (transfers q)" for ps c
    using that
  proof (induction ps arbitrary: c)
    case (Cons p ps)
    obtain t where t: "xget p q = Inr t" "states q p = Some (xstate t)" using queue_ok_get [OF ok, of p] Cons.prems by auto
    have "xget p (q\<lparr>cancelling := c\<rparr>) = Inr t" using t(1) by (simp add: xget_def)
    moreover have "xstate t = XFER_BUSY \<longleftrightarrow> p \<in> in_flight q" using ok t(2) by (simp add: queue_ok_def)
    ultimately show ?case using Cons by (simp add: cancel_one_def)
  qed simp
  from this [of "transfers q" "cancelling q"] queue_ok_subset [OF ok] show ?thesis
    by (simp add: cancel_transfers_def Int_absorb2)
qed

lemma any_busy_ok:
  assumes ok: "queue_ok q xs"
  shows "check_any_transfer_busy q = Inr (in_flight q \<noteq> {})"
proof -
  have "any_busy ps q = Inr (in_flight q \<inter> set ps \<noteq> {})" if "set ps \<subseteq> set (transfers q)" for ps
    using that
  proof (induction ps)
    case (Cons p ps)
    obtain t where t: "xget p q = Inr t" "states q p = Some (xstate t)" using queue_ok_get [OF ok, of p] Cons.prems by auto
    have "xstate t = XFER_BUSY \<longleftrightarrow> p \<in> in_flight q" using ok t(2) by (simp add: queue_ok_def)
    then show ?case using t(1) Cons by auto
  qed simp
  from this [of "transfers q"] queue_ok_subset [OF ok] show ?thesis
    by (simp add: check_any_transfer_busy_def Int_absorb2)
qed

lemma unlink_all_ok:
  assumes "queue_ok q xs" "in_flight q = {}"
  shows "\<exists>q'. unlink_all q = Some (Inr q') \<and> queue_ok q' [] \<and> in_flight q' = {} \<and> transfers q' = transfers q"
proof -
  have "\<exists>q'. unlink_all q = Some (Inr q') \<and> active q' [] \<and> states q' = (\<lambda>p. if p \<in> set xs then Some XFER_IDLE else states q p) \<and> same_rest q q'"
    if "path (xheap q) (active_head q) xs" "distinct xs" for q xs
    using that
  proof (induction xs arbitrary: q)
    case Nil
    then show ?case by (subst unlink_all.simps) (simp add: active_def same_rest_def)
  next
    case (Cons p xs)
    then obtain t where t: "xheap q p = Some t" "path (xheap q) (xnext t) xs" "active_head q = Some p" by auto
    define q1 where "q1 = (xset p (t\<lparr>xstate := XFER_IDLE, xnext := None\<rparr>) q)\<lparr>active_head := xnext t\<rparr>"
    have "path (xheap q1) (active_head q1) xs" using t(2) Cons.prems(2) by (simp add: q1_def path_other)
    then obtain q' where q': "unlink_all q1 = Some (Inr q')" "active q' []"
        "states q' = (\<lambda>p. if p \<in> set xs then Some XFER_IDLE else states q1 p)" "same_rest q1 q'"
      using Cons.IH [of q1] Cons.prems(2) by auto
    have "states q' = (\<lambda>x. if x \<in> set (p # xs) then Some XFER_IDLE else states q x)"
      by (simp add: q'(3) q1_def states_xset fun_eq_iff)
    moreover have "same_rest q q'" using q'(4) by (simp add: same_rest_def q1_def)
    moreover have "unlink_all q = Some (Inr q')"
      using t(1,3) q'(1) by (subst unlink_all.simps) (simp add: xget_def q1_def)
    ultimately show ?case using q'(2) by blast
  qed
  from this [of q xs] assms(1) obtain q' where q': "unlink_all q = Some (Inr q')" "active q' []"
      "states q' = (\<lambda>p. if p \<in> set xs then Some XFER_IDLE else states q p)" "same_rest q q'"
    by (auto simp: queue_ok_def active_def)
  have r: "transfers q' = transfers q" "in_flight q' = {}" using q'(4) assms(2) by (simp_all add: same_rest_def)
  have "queue_ok q' []" using assms q'(2) unfolding queue_ok_def q'(3) r by auto
  then show ?thesis using q'(1) r by blast
qed

lemma free_dev_transfers_ok:
  assumes ok: "queue_ok q []" "in_flight q = {}"
  shows "\<exists>q'. free_dev_transfers q = Inr q' \<and> queue_ok q' [] \<and> in_flight q' = {} \<and> transfers q' = [] \<and> xheap q' = (\<lambda>p. None)"
proof -
  have "run_foldl free_one q ps = Inr (q\<lparr>xheap := (\<lambda>p. if p \<in> set ps then None else xheap q p)\<rparr>)" if "in_flight q = {}" for q ps
    using that
  proof (induction ps arbitrary: q)
    case (Cons p ps)
    have e: "(\<lambda>x. if x \<in> set ps then None else ((xheap q)(p := None)) x) = (\<lambda>x. if x = p \<or> x \<in> set ps then None else xheap q x)"
      by (auto simp: fun_eq_iff)
    have "run_foldl free_one (q\<lparr>xheap := (xheap q)(p := None)\<rparr>) ps =
        Inr (q\<lparr>xheap := (\<lambda>x. if x \<in> set ps then None else ((xheap q)(p := None)) x)\<rparr>)"
      using Cons.IH [of "q\<lparr>xheap := (xheap q)(p := None)\<rparr>"] Cons.prems by (simp cong: if_cong)
    moreover have "free_one q p = Inr (q\<lparr>xheap := (xheap q)(p := None)\<rparr>)" using Cons.prems by (simp add: free_one_def)
    ultimately show ?case unfolding e by simp
  qed simp
  moreover have "(\<lambda>p. if p \<in> set (transfers q) then None else xheap q p) = (\<lambda>p. None)"
    using ok(1) by (auto simp: queue_ok_def states_def fun_eq_iff)
  ultimately have "free_dev_transfers q = Inr (q\<lparr>xheap := (\<lambda>p. None), transfers := []\<rparr>)"
    using ok(2) by (simp add: free_dev_transfers_def)
  moreover have "queue_ok (q\<lparr>xheap := (\<lambda>p. None), transfers := []\<rparr>) []"
    using ok by (simp add: queue_ok_def active_def states_def)
  ultimately show ?thesis using ok(2) by simp
qed

end
