(* ===== verification/StreamFrozen.thy ===== *)
theory StreamFrozen
  imports ConfigFacts
begin

section \<open>Configuration while streaming\<close>

text \<open>
  The fields the streaming thread reads between its waits, when other threads can call the configuration functions. No
  such call changes them while \<open>streaming\<close> is set.
\<close>

definition geometry :: "'u device \<Rightarrow> (conversion_mode \<times> u64 \<times> u32 \<times> u32) \<times> (u32 \<times> u32 \<times> u32 \<times> nat) \<times> adc_pll_config" where
  "geometry d = ((conv_mode d, buffer_size d, usb_bytes_per_block d, usb_samples_per_block d),
     (usb_transfer_size d, adc_samples_per_transfer d, adc_samples_per_user_sample d, post_decimation d), adc_config d)"

definition keeps :: "'u device \<Rightarrow> 'u device \<Rightarrow> bool" where
  "keeps d d' \<longleftrightarrow> streaming d' = streaming d \<and> (streaming d \<longrightarrow> geometry d' = geometry d)"

lemma keeps_refl [simp]: "keeps d d"
  by (simp add: keeps_def)

lemma keeps_trans: "keeps d d' \<Longrightarrow> keeps d' d'' \<Longrightarrow> keeps d d''"
  by (simp add: keeps_def)

lemma keeps_update [simp]:
  "keeps d (d\<lparr>usb := x0\<rparr>)" "keeps d (d\<lparr>changing_rate := b\<rparr>)" "keeps d (d\<lparr>changing_freq := b\<rparr>)"
  "keeps d (d\<lparr>changing_bandpass := b\<rparr>)" "keeps d (d\<lparr>tuner_config := c\<rparr>)" "keeps d (d\<lparr>current_bandpass_entry := e\<rparr>)"
  "keeps d (d\<lparr>usb := x0, tuner_config := c\<rparr>)" "keeps d (d\<lparr>usb := x0, current_bandpass_entry := e\<rparr>)"
  "keeps d (d\<lparr>changing_rate := b, changing_freq := b1, changing_bandpass := b2\<rparr>)"
  "keeps d (d\<lparr>bandpass_table := t, current_bandpass_entry := e\<rparr>)"
  by (simp_all add: keeps_def geometry_def)

lemma apply_tuner_changeset_keeps: "apply_tuner_changeset E d cs = (d', e) \<Longrightarrow> keeps d d'"
  using apply_tuner_changeset_usb by fastforce

lemma try_vco_currents_keeps: "try_vco_currents E d cs r = (d', e) \<Longrightarrow> keeps d d'"
  using try_vco_currents_usb by fastforce

lemma start_pll_keeps:
  assumes run: "start_pll E d c = Inr (d', e)"
  shows "keeps d d'"
proof -
  from run obtain d1 e1 where a: "configure_pll_settings E d c = Inr (d1, e1)"
    by (auto simp: start_pll_def run_bind_Inr_iff)
  then have k: "keeps d d1"
    by (auto simp: configure_pll_settings_def run_bind_Inr_iff split: if_splits intro: apply_tuner_changeset_keeps)
  show ?thesis
  proof (cases "e1 < 0")
    case True
    then show ?thesis using run a k by (simp add: start_pll_def)
  next
    case False
    obtain d2 r2 where l: "try_vco_currents E d1 [4, 3, 2, 1, 0] 0 = (d2, r2)" by fastforce
    obtain d3 e3 where b: "apply_tuner_changeset E d2 (set_tuner_bits empty_change_set PLL_AUTO_CLK 2) = (d3, e3)" by fastforce
    have "d' = d2 \<or> d' = d3" using run a False by (simp add: start_pll_def l b del: try_vco_currents.simps split: if_splits)
    then show ?thesis
      using k try_vco_currents_keeps [OF l] apply_tuner_changeset_keeps [OF b] keeps_trans by metis
  qed
qed

lemma apply_rate_change_keeps: "apply_rate_change tab d = Inr (d', e) \<Longrightarrow> keeps d d'"
  by (cases "streaming d") (auto simp: apply_rate_change_def run_bind_Inr_iff keeps_def split: if_splits option.splits)

lemma apply_freq_change_keeps:
  assumes run: "apply_freq_change E d = Inr (d', e)"
  shows "keeps d d'"
proof -
  define finish where "finish c = (\<lambda>(d1, e1). if e1 < 0 then Inr (d1\<lparr>tuner_config := (tuner_config d1)\<lparr>pll_valid := False\<rparr>\<rparr>, e1)
      else Inr (d1\<lparr>tuner_config := c\<rparr>, PG2SDR_SUCCESS) :: ('a device \<times> int) run)" for c
  have "d' = d \<or> (\<exists>c. run_bind (start_pll E d c) (finish c) = Inr (d', e))"
    using run unfolding apply_freq_change_def finish_def
    by (cases "find_pll_parameters (lo_target d) (of_nat (unat (tuner_xtal d)))")
      (auto split: if_splits option.splits)
  then show ?thesis
  proof (elim disjE exE)
    fix c
    assume "run_bind (start_pll E d c) (finish c) = Inr (d', e)"
    then obtain d1 e1 where s: "start_pll E d c = Inr (d1, e1)" "finish c (d1, e1) = Inr (d', e)"
      by (auto simp: run_bind_Inr_iff)
    have "keeps d1 d'" using s(2) by (auto simp: finish_def split: if_splits)
    then show ?thesis using start_pll_keeps [OF s(1)] keeps_trans by blast
  qed simp
qed

lemma apply_bandpass_change_keeps:
  assumes run: "apply_bandpass_change E d = Inr (d', e)"
  shows "keeps d d'"
proof (cases "d' = d")
  case False
  then obtain cs d1 e1 x where s: "apply_tuner_changeset E d cs = (d1, e1)" "d' = d1\<lparr>current_bandpass_entry := x\<rparr>"
    using run by (auto simp: apply_bandpass_change_def tuner_set_bandpass_def Let_def run_bind_Inr_iff
        split: if_splits option.splits prod.splits)
  have "keeps d1 d'" by (simp add: s(2))
  then show ?thesis using apply_tuner_changeset_keeps [OF s(1)] keeps_trans by blast
qed simp

lemma stage_keeps:
  assumes run: "stage pending f finish rest d = Inr (d', e)"
    and f: "\<And>d d' e. f d = Inr (d', e) \<Longrightarrow> keeps d d'" and fin: "\<And>d. keeps d (finish d)"
    and rest: "\<And>d d' e. rest d = Inr (d', e) \<Longrightarrow> keeps d d'"
  shows "keeps d d'"
proof (cases pending)
  case True
  then obtain d1 e1 where d1: "f d = Inr (d1, e1)" "if e1 < 0 then d' = d1 else rest (finish d1) = Inr (d', e)"
    using run by (auto simp: stage_def run_bind_Inr_iff split: if_splits)
  then show ?thesis using f [OF d1(1)] fin [of d1] rest [of "finish d1" d' e] keeps_trans by (metis (full_types))
qed (use run rest in \<open>auto simp: stage_def\<close>)

lemma with_dev_keeps:
  assumes "with_dev (Some d) f fail = Inr (dev, e)" and "\<And>d' r. f d = Inr (d', r) \<Longrightarrow> keeps d d'"
  shows "\<exists>d'. dev = Some d' \<and> keeps d d'"
  using assms by (auto simp: with_dev_def run_bind_Inr_iff split: if_splits)

lemma apply_changes_keeps: "apply_changes E tab (Some d) = Inr (dev, e) \<Longrightarrow> \<exists>d'. dev = Some d' \<and> keeps d d'"
  unfolding apply_changes_def
  by (erule with_dev_keeps, rule stage_keeps, assumption, erule apply_rate_change_keeps, simp,
      rule stage_keeps, assumption, erule apply_freq_change_keeps, simp,
      rule stage_keeps, assumption, erule apply_bandpass_change_keeps, simp, simp)

lemma setter_keeps:
  "(\<And>d' r. f d = (d', r) \<Longrightarrow> keeps d d') \<Longrightarrow> with_dev (Some d) (\<lambda>d. Inr (f d)) fail = Inr (dev, e) \<Longrightarrow>
    \<exists>d'. dev = Some d' \<and> keeps d d'"
  by (erule with_dev_keeps) simp

lemma config_exec_keeps:
  assumes run: "config_exec E tab (Some d) op = Inr (dev, e)" and op: "\<nexists>b. op = Streaming b"
  shows "\<exists>d'. dev = Some d' \<and> keeps d d'"
proof (cases op)
  case Apply
  then show ?thesis using run apply_changes_keeps by simp
next
  case (Filters a t)
  then show ?thesis using run by (auto simp: set_bandpass_table_def split: if_splits option.splits)
next
  case (Conversion m)
  then show ?thesis using run unfolding Conversion config_exec.simps set_conversion_mode_def
    by (elim setter_keeps [rotated]) (auto simp: keeps_def geometry_def split: if_splits option.splits)
next
  case (Buffer n)
  show ?thesis using run unfolding Buffer config_exec.simps set_buffer_size_def
    by (elim setter_keeps [rotated]) (auto simp: keeps_def geometry_def split: if_splits)
next
  case (Rate r)
  show ?thesis using run unfolding Rate config_exec.simps set_sample_rate_def
    by (elim setter_keeps [rotated]) (auto simp: keeps_def geometry_def split: if_splits)
next
  case (Decimation n)
  show ?thesis using run unfolding Decimation config_exec.simps set_decimation_mode_def
    by (elim setter_keeps [rotated]) (auto simp: keeps_def geometry_def split: if_splits)
next
  case (Undersampling n)
  show ?thesis using run unfolding Undersampling config_exec.simps set_undersampling_mode_def
    by (elim setter_keeps [rotated]) (auto simp: keeps_def geometry_def split: if_splits)
next
  case (Limit l)
  show ?thesis using run unfolding Limit config_exec.simps set_adc_limit_def
    by (elim setter_keeps [rotated]) (auto simp: keeps_def geometry_def split: if_splits)
next
  case (Sideband m)
  show ?thesis using run unfolding Sideband config_exec.simps set_sideband_def
    by (elim setter_keeps [rotated]) (auto simp: keeps_def geometry_def split: if_splits option.splits)
next
  case (Frequency f)
  show ?thesis using run unfolding Frequency config_exec.simps set_frequency_def
    by (elim setter_keeps [rotated]) (auto simp: keeps_def geometry_def split: if_splits)
next
  case (Passband l h)
  show ?thesis using run unfolding Passband config_exec.simps set_bandpass_def
    by (elim setter_keeps [rotated]) (auto simp: keeps_def geometry_def Let_def split: if_splits)
next
  case (Streaming b)
  then show ?thesis using op by blast
qed

end
