(* ===== verification/StreamSession.thy ===== *)
theory StreamSession
  imports StreamLoop StreamQueueInv StreamFrozen
begin

section \<open>One call of pg2sdr_stream_data\<close>

text \<open>
  The invariant of the machine of \<open>StreamLoop\<close>, and what follows from it for every interleaving: no pointer into freed
  memory, no lost wakeup, transfers dispatched in turn, everything released at the end, an end of every drain.
\<close>

subsection \<open>The invariant\<close>

definition clean :: "('u, 'c) machine \<Rightarrow> bool" where
  "clean m \<longleftrightarrow> queue_ok (m_queue m) [] \<and> in_flight (m_queue m) = {} \<and> transfers (m_queue m) = [] \<and>
     streaming (m_dev m) = False \<and> m_pc m = Returned"

definition looping :: "queue \<Rightarrow> xptr list \<Rightarrow> 'u device \<Rightarrow> bool" where
  "looping q xs d \<longleftrightarrow> transfers q \<noteq> [] \<and> (\<exists>n. xs = rotate n (transfers q)) \<and> streaming d"

definition pc_inv :: "('u, 'c) machine \<Rightarrow> xptr list \<Rightarrow> bool" where
  "pc_inv m xs \<longleftrightarrow>
    (let q = m_queue m in
     case m_pc m of
       Loop_top \<Rightarrow> looping q xs (m_dev m)
     | Loop_check \<Rightarrow> looping q xs (m_dev m)
     | Loop_wait \<Rightarrow> looping q xs (m_dev m) \<and> (completion_flag q \<or> \<not> draining (m_conv m) \<and> hd xs \<in> in_flight q)
     | Drain_start \<Rightarrow> transfers q \<noteq> []
     | Drain_top \<Rightarrow> transfers q \<noteq> []
     | Drain_check \<Rightarrow> transfers q \<noteq> []
     | Drain_wait \<Rightarrow> transfers q \<noteq> [] \<and> (completion_flag q \<or> in_flight q \<noteq> {})
     | Cleaning_up \<Rightarrow> xs = [] \<and> in_flight q = {}
     | Finishing \<Rightarrow> transfers q \<noteq> [] \<or> xs = [] \<and> in_flight q = {}
     | Returned \<Rightarrow> (transfers q \<noteq> [] \<or> xs = [] \<and> in_flight q = {}) \<and> \<not> streaming (m_dev m))"

definition stream_inv :: "('u, 'c) machine \<Rightarrow> bool" where
  "stream_inv m \<longleftrightarrow> (\<exists>xs. queue_ok (m_queue m) xs \<and> pc_inv m xs)"

lemma stream_invI: "queue_ok (m_queue m) xs \<Longrightarrow> pc_inv m xs \<Longrightarrow> stream_inv m"
  by (auto simp: stream_inv_def)

lemma looping_list:
  assumes "looping q xs d" "queue_ok q xs"
  shows "\<exists>p ys. xs = p # ys \<and> active_head q = Some p"
proof -
  obtain n where "xs = rotate n (transfers q)" "transfers q \<noteq> []" using assms(1) by (auto simp: looping_def)
  then have "xs \<noteq> []" by simp
  then show ?thesis using assms(2) queue_ok_head by (cases xs) auto
qed

subsection \<open>Setup\<close>

lemma allocate_ok:
  assumes ok: "queue_ok q []" "in_flight q = {}"
  shows "(\<exists>f. allocate_transfers A d q = Inl f) \<or> (\<exists>q' e. allocate_transfers A d q = Inr (q', e) \<and> queue_ok q' [] \<and> in_flight q' = {} \<and>
    (if e < 0 then transfers q' = []
     else transfers q' \<noteq> [] \<and> (\<forall>p \<in> set (transfers q'). states q' p = Some XFER_IDLE)))"
proof -
  obtain q1 where q1: "free_dev_transfers q = Inr q1" "queue_ok q1 []" "in_flight q1 = {}" "transfers q1 = []" "xheap q1 = (\<lambda>p. None)"
    using free_dev_transfers_ok [OF ok] by blast
  show ?thesis
  proof (cases "\<exists>f. allocate_transfers A d q = Inl f")
    case False
    then obtain n ms where n: "count_transfers d = Inr n" "transfer_timeout d n = Inr ms"
      by (cases "count_transfers d"; cases "transfer_timeout d (projr (count_transfers d))") (auto simp: allocate_transfers_def q1(1))
    have "n \<noteq> 0" using n(1) by (auto simp: count_transfers_def run_bind_Inr_iff split: if_splits)
    then have pos: "0 < unat n" by (simp add: unat_gt_0)
    define ps where "ps = [next_xptr q1..<next_xptr q1 + unat n]"
    define q2 where "q2 = q1\<lparr>xheap := (\<lambda>p. if p \<in> set ps then Some (new_transfer d ms) else xheap q1 p),
      transfers := ps, next_xptr := next_xptr q1 + unat n\<rparr>"
    have s: "states q2 = (\<lambda>p. if p \<in> set ps then Some XFER_IDLE else None)"
      by (simp add: states_def q2_def q1(5) new_transfer_def fun_eq_iff)
    have "queue_ok q2 []" using q1(2,3) unfolding queue_ok_def s by (auto simp: q2_def active_def ps_def)
    moreover have "in_flight q2 = {}" "transfers q2 \<noteq> []" "\<forall>p \<in> set (transfers q2). states q2 p = Some XFER_IDLE"
      using q1(3) pos by (simp_all add: s) (simp_all add: q2_def ps_def)
    ultimately show ?thesis using q1(1-4) n
      by (simp add: allocate_transfers_def q2_def [symmetric] ps_def [symmetric] Let_def)
  qed simp
qed

lemma start_transfers_inv:
  assumes ok: "queue_ok (m_queue m) []" "in_flight (m_queue m) = {}" "transfers (m_queue m) \<noteq> []"
      "\<forall>p \<in> set (transfers (m_queue m)). states (m_queue m) p = Some XFER_IDLE"
    and run: "start_transfers E R m = Inr m'"
  shows "stream_inv m'"
proof (cases "clear_halt_error R < 0")
  case True
  then show ?thesis using run ok by (auto simp: start_transfers_def stream_inv_def pc_inv_def)
next
  case False
  then obtain params where params: "start_params (adc_config (m_dev m)) = Inr params"
    using run by (cases "start_params (adc_config (m_dev m))") (auto simp: start_transfers_def Let_def)
  obtain u e where u: "ctrl_start_transfer E (usb (m_dev m)) params (control_timeout_ms (m_dev m)) = (u, e)" by fastforce
  have dist: "distinct (transfers (m_queue m))" using ok(1) by (simp add: queue_ok_def)
  obtain q' e' n where q': "submit_transfers (lu E) (submit_error R) (m_queue m) = Inr (q', e')"
      "queue_ok q' (take n (transfers (m_queue m)))" "transfers q' = transfers (m_queue m)"
      "\<not> e' < 0 \<longrightarrow> n = length (transfers (m_queue m))"
    using submit_list_ok [OF ok(1) dist ok(4), of "lu E" "submit_error R"] by (auto simp: submit_transfers_def)
  have rot: "\<exists>k. transfers q' = rotate k (transfers q')" by (rule exI [of _ 0]) simp
  consider "e < 0" | "\<not> e < 0" "e' < 0" | "\<not> e < 0" "\<not> e' < 0" by blast
  then show ?thesis
  proof cases
    case 1
    then show ?thesis using run False params u ok(1-3)
      by (intro stream_invI [of m' "[]"]) (auto simp: start_transfers_def Let_def pc_inv_def)
  next
    case 2
    then show ?thesis using run False params u q' ok(3)
      by (intro stream_invI [of m' "take n (transfers (m_queue m))"]) (auto simp: start_transfers_def Let_def pc_inv_def)
  next
    case 3
    then show ?thesis using run False params u q' ok(3) rot
      by (intro stream_invI [of m' "transfers (m_queue m)"]) (auto simp: start_transfers_def Let_def pc_inv_def looping_def)
  qed
qed

lemma stream_setup_inv:
  assumes c: "clean m" and run: "stream_setup E tab R m = Inr m'"
  shows "stream_inv m'"
proof -
  from c have q: "queue_ok (m_queue m) []" "in_flight (m_queue m) = {}" "transfers (m_queue m) = []" "\<not> streaming (m_dev m)" "m_pc m = Returned"
    by (simp_all add: clean_def)
  show ?thesis
  proof (cases "CHECK_DEV (Some (m_dev m)) < 0")
    case True
    then show ?thesis using run q by (auto simp: stream_setup_def stream_inv_def pc_inv_def)
  next
    case False
    then obtain dev e where a: "apply_changes E tab (Some (m_dev m)) = Inr (dev, e)"
      using run q(4) by (cases "apply_changes E tab (Some (m_dev m))") (auto simp: stream_setup_def)
    then obtain d where d: "dev = Some d" using apply_changes_keeps by blast
    show ?thesis
    proof (cases "e < 0 \<or> \<not> adc_valid (adc_config d)")
      case True
      then show ?thesis using run False q a d
        by (auto simp: stream_setup_def stream_inv_def pc_inv_def Let_def split: if_splits)
    next
      case ok: False
      then obtain ms where ms: "event_timeout d = Inr ms"
        using run False q(4) a d by (cases "event_timeout d") (auto simp: stream_setup_def)
      have "\<nexists>f. allocate_transfers (allocs R) d (m_queue m) = Inl f"
        using run False ok q(4) a d ms by (auto simp: stream_setup_def)
      then obtain q' e' where q': "allocate_transfers (allocs R) d (m_queue m) = Inr (q', e')" "queue_ok q' []" "in_flight q' = {}"
          "if e' < 0 then transfers q' = [] else transfers q' \<noteq> [] \<and> (\<forall>p \<in> set (transfers q'). states q' p = Some XFER_IDLE)"
        using allocate_ok [OF q(1,2), of "allocs R" d] by blast
      show ?thesis
      proof (cases "e' < 0")
        case True
        then show ?thesis using run False ok q(4) a d ms q'(1-3)
          by (auto simp: stream_setup_def stream_inv_def pc_inv_def Let_def)
      next
        case e: False
        then obtain s okc where s: "setup_conversion R d (m_conv m) = Inr (s, okc)"
          using run False ok q(4) a d ms q'(1) by (cases "setup_conversion R d (m_conv m)") (auto simp: stream_setup_def)
        let ?m = "m\<lparr>m_dev := d, m_queue := q', m_error := e', m_conv := s\<rparr>"
        show ?thesis
        proof (cases okc)
          case True
          then have "start_transfers E R ?m = Inr m'"
            using run False ok e q(4) a d ms q'(1) s by (simp add: stream_setup_def Let_def)
          then show ?thesis using start_transfers_inv [of ?m] q' e by simp
        next
          case c: False
          then show ?thesis using run False ok e q(4) a d ms q' s
            by (auto simp: stream_setup_def stream_inv_def pc_inv_def Let_def)
        qed
      qed
    qed
  qed
qed

subsection \<open>Steps\<close>

definition dispatch_fault ::
  "block_format \<Rightarrow> 'c stream_callback \<Rightarrow> thread_results \<Rightarrow> ('u, 'c) machine \<Rightarrow> fault \<Rightarrow> bool" where
  "dispatch_fault F callback R m f \<longleftrightarrow> m_pc m = Loop_check \<and> (\<exists>p t. active_head (m_queue m) = Some p \<and> xheap (m_queue m) p = Some t \<and>
     dispatch_transfer F (m_dev m) (buffer_alloc_ok R) callback (xdata t) (m_conv m, m_user m) = Inl f)"

lemma looping_update [simp]:
  "looping (q\<lparr>completion_flag := b\<rparr>) xs d = looping q xs d" "looping q xs (d\<lparr>usb := u\<rparr>) = looping q xs d"
  by (simp_all add: looping_def)

lemma looping_nonempty: "looping q xs d \<Longrightarrow> transfers q \<noteq> []"
  by (simp add: looping_def)

lemma looping_turn: "looping q (p # ys) d \<Longrightarrow> transfers q' = transfers q \<Longrightarrow> looping q' (ys @ [p]) d"
proof -
  assume l: "looping q (p # ys) d" and t: "transfers q' = transfers q"
  then obtain n where "p # ys = rotate n (transfers q)" by (auto simp: looping_def)
  then have "ys @ [p] = rotate (Suc n) (transfers q)" by (metis rotate1.simps(2) rotate_Suc)
  then have "\<exists>n. ys @ [p] = rotate n (transfers q)" by blast
  then show ?thesis using l t unfolding looping_def by auto
qed

lemma stream_check_inv:
  fixes m :: "('u, 'c) machine"
  assumes inv: "stream_inv m" and pc: "m_pc m = Loop_check"
  shows "(\<exists>f. stream_check E F callback R m = Inl f \<and> dispatch_fault F callback R m f) \<or>
    (\<exists>m'. stream_check E F callback R m = Inr m' \<and> stream_inv m')"
proof -
  define q where "q = m_queue m"
  from inv obtain xs where ok: "queue_ok q xs" and l: "looping q xs (m_dev m)"
    using pc by (auto simp: stream_inv_def pc_inv_def q_def Let_def)
  obtain p ys where p: "xs = p # ys" "active_head q = Some p" using looping_list [OF l ok] by blast
  then have "p \<in> set (transfers q)" using ok queue_ok_subset by fastforce
  then obtain t where t: "xget p q = Inr t" "xheap q p = Some t" "states q p = Some (xstate t)" using queue_ok_get [OF ok] by blast
  have tn: "transfers q \<noteq> []" using l by (simp add: looping_def)
  have stopped: "stream_inv m'" if "m_queue m' = q" "m_pc m' = Drain_start" for m' :: "('u, 'c) machine"
    using that ok tn by (intro stream_invI [of m' xs]) (simp_all add: pc_inv_def)
  show ?thesis
  proof (cases "draining (m_conv m)")
    case True
    then show ?thesis using stopped by (simp add: stream_check_def q_def)
  next
    case nd: False
    show ?thesis
    proof (cases "xstate t = XFER_COMPLETED \<and> xstatus t = TRANSFER_COMPLETED")
      case False
      have "stream_inv (m\<lparr>m_pc := Loop_wait\<rparr>)" if "xstate t = XFER_BUSY"
        using ok l nd p(1) t(3) that by (intro stream_invI [of _ xs]) (simp_all add: pc_inv_def queue_ok_def q_def)
      then show ?thesis using False nd p(2) t(1) stopped
        by (cases "xstate t = XFER_BUSY"; cases "xstate t = XFER_COMPLETED") (auto simp: stream_check_def Let_def q_def)
    next
      case True
      show ?thesis
      proof (cases "dispatch_transfer F (m_dev m) (buffer_alloc_ok R) callback (xdata t) (m_conv m, m_user m)")
        case (Inl f)
        then have "dispatch_fault F callback R m f" using pc p(2) t(2) by (auto simp: dispatch_fault_def q_def)
        then show ?thesis using Inl True nd p(2) t(1) by (simp add: stream_check_def Let_def q_def)
      next
        case (Inr r)
        then obtain s c e where r: "dispatch_transfer F (m_dev m) (buffer_alloc_ok R) callback (xdata t) (m_conv m, m_user m) = Inr ((s, c), e)"
          by (cases r) auto
        have nb: "p \<notin> in_flight q" using True t(3) ok by (simp add: queue_ok_def)
        obtain q1 where q1: "unlink_head p q = Inr q1" "queue_ok q1 ys" "states q1 p = Some XFER_IDLE" "in_flight q1 = in_flight q"
            "transfers q1 = transfers q"
          using unlink_completed_ok [OF _ nb] ok p(1) by blast
        define rc where "rc = resubmit_error R"
        obtain q2 where q2: "submit_one_transfer (lu E) rc p q1 = Inr (q2, if rc < 0 then translate_libusb_error (lu E) rc else PG2SDR_SUCCESS)"
            "transfers q2 = transfers q1" "if rc < 0 then queue_ok q2 ys else queue_ok q2 (ys @ [p])"
          using submit_one_ok [OF q1(2,3), of "lu E" rc] by (auto split: if_splits)
        have neg: "rc < 0 \<Longrightarrow> translate_libusb_error (lu E) rc < 0" by (simp add: translate_libusb_error_neg)
        define m1 where "m1 = m\<lparr>m_conv := s, m_user := c, m_queue := q2, m_error := if rc < 0 then translate_libusb_error (lu E) rc else PG2SDR_SUCCESS,
            m_pc := if rc < 0 then Drain_start else Loop_top\<rparr>"
        have "stream_inv m1"
        proof (cases "rc < 0")
          case True
          then show ?thesis using q1(5) q2(2,3) tn by (intro stream_invI [of m1 ys]) (simp_all add: pc_inv_def m1_def)
        next
          case False
          then show ?thesis using q1(5) q2(2,3) looping_turn [OF l [unfolded p(1)], of q2]
            by (intro stream_invI [of m1 "ys @ [p]"]) (simp_all add: pc_inv_def m1_def)
        qed
        moreover have "stream_check E F callback R m = Inr (if e < 0 then m\<lparr>m_conv := s, m_user := c, m_error := e, m_pc := Drain_start\<rparr> else m1)"
          using True nd p(2) t(1) r q1(1) q2(1) neg
          by (auto simp: stream_check_def Let_def q_def [symmetric] m1_def rc_def [symmetric])
        ultimately show ?thesis using stopped by (auto simp: q_def)
      qed
    qed
  qed
qed

lemma drain_check_inv:
  assumes inv: "stream_inv m" and pc: "m_pc m = Drain_check"
  shows "\<exists>m'. drain_check m = Some (Inr m') \<and> stream_inv m' \<and>
    m_pc m' = (if in_flight (m_queue m) = {} then Cleaning_up else Drain_wait)"
proof -
  from inv obtain xs where ok: "queue_ok (m_queue m) xs" and tn: "transfers (m_queue m) \<noteq> []"
    using pc by (auto simp: stream_inv_def pc_inv_def)
  show ?thesis
  proof (cases "in_flight (m_queue m) = {}")
    case True
    obtain q' where q': "unlink_all (m_queue m) = Some (Inr q')" "queue_ok q' []" "in_flight q' = {}"
      using unlink_all_ok [OF ok True] by blast
    have "stream_inv (m\<lparr>m_queue := q', m_conv := (m_conv m)\<lparr>draining := False\<rparr>, m_pc := Cleaning_up\<rparr>)"
      using q' by (intro stream_invI [of _ "[]"]) (simp_all add: pc_inv_def)
    then show ?thesis using True q'(1) any_busy_ok [OF ok] by (simp add: drain_check_def)
  next
    case False
    have "stream_inv (m\<lparr>m_pc := Drain_wait\<rparr>)" using ok tn False by (intro stream_invI [of _ xs]) (simp_all add: pc_inv_def)
    then show ?thesis using False any_busy_ok [OF ok] by (simp add: drain_check_def)
  qed
qed

lemma drain_start_inv:
  assumes inv: "stream_inv m" and pc: "m_pc m = Drain_start"
  shows "\<exists>m'. drain_start E m = Inr m' \<and> stream_inv m' \<and> m_pc m' = Drain_top \<and> in_flight (m_queue m') = in_flight (m_queue m) \<and>
    in_flight (m_queue m') \<subseteq> cancelling (m_queue m')"
proof -
  from inv obtain xs where ok: "queue_ok (m_queue m) xs" and tn: "transfers (m_queue m) \<noteq> []"
    using pc by (auto simp: stream_inv_def pc_inv_def)
  obtain u e where u: "ctrl_stop_transfer E (usb (m_dev m)) (control_timeout_ms (m_dev m)) = (u, e)" by fastforce
  have "stream_inv (m\<lparr>m_conv := (m_conv m)\<lparr>draining := True\<rparr>, m_dev := (m_dev m)\<lparr>usb := u\<rparr>,
      m_queue := (m_queue m)\<lparr>cancelling := cancelling (m_queue m) \<union> in_flight (m_queue m)\<rparr>, m_pc := Drain_top\<rparr>)"
    using ok tn by (intro stream_invI [of _ xs]) (simp_all add: pc_inv_def)
  then show ?thesis using cancel_transfers_ok [OF ok] by (simp add: drain_start_def u)
qed

lemma stream_cleanup_inv:
  assumes inv: "stream_inv m" and pc: "m_pc m = Cleaning_up"
  shows "\<exists>m'. stream_cleanup m = Inr m' \<and> stream_inv m' \<and> m_pc m' = Finishing \<and> transfers (m_queue m') = [] \<and>
    in_flight (m_queue m') = {} \<and> xheap (m_queue m') = (\<lambda>p. None)"
proof -
  from inv have ok: "queue_ok (m_queue m) []" "in_flight (m_queue m) = {}"
    using pc by (auto simp: stream_inv_def pc_inv_def)
  obtain q' where q': "free_dev_transfers (m_queue m) = Inr q'" "queue_ok q' []" "in_flight q' = {}" "transfers q' = []" "xheap q' = (\<lambda>p. None)"
    using free_dev_transfers_ok [OF ok] by blast
  have "stream_inv (m\<lparr>m_conv := (m_conv m)\<lparr>post_decimators := [], downconverter := None\<rparr>, m_queue := q', m_pc := Finishing\<rparr>)"
    using q' by (intro stream_invI [of _ "[]"]) (simp_all add: pc_inv_def)
  then show ?thesis using q' by (simp add: stream_cleanup_def)
qed

lemma thread_step_inv:
  fixes m :: "('u, 'c) machine"
  assumes inv: "stream_inv m" and pc: "m_pc m \<noteq> Returned"
  shows "(\<exists>f. thread_step E F callback R m = Some (Inl f) \<and> dispatch_fault F callback R m f) \<or>
    (\<exists>m'. thread_step E F callback R m = Some (Inr m') \<and> stream_inv m')"
proof -
  from inv obtain xs where ok: "queue_ok (m_queue m) xs" and p: "pc_inv m xs" by (auto simp: stream_inv_def)
  have same: "stream_inv m'" if "queue_ok (m_queue m') xs" "pc_inv m' xs" for m' :: "('u, 'c) machine"
    using that by (rule stream_invI)
  show ?thesis
  proof (cases "m_pc m")
    case Loop_check
    then show ?thesis using stream_check_inv [OF inv Loop_check, of E F callback R] by (auto simp: thread_step_def)
  next
    case Drain_check
    then show ?thesis using drain_check_inv [OF inv Drain_check] by (auto simp: thread_step_def)
  next
    case Drain_start
    then show ?thesis using drain_start_inv [OF inv Drain_start, of E] by (auto simp: thread_step_def)
  next
    case Cleaning_up
    then show ?thesis using stream_cleanup_inv [OF inv Cleaning_up] by (auto simp: thread_step_def)
  next
    case Finishing
    have "stream_inv (m\<lparr>m_dev := (m_dev m)\<lparr>streaming := False\<rparr>, m_conv := (m_conv m)\<lparr>draining := False\<rparr>, m_pc := Returned\<rparr>)"
      using ok p Finishing by (intro same) (simp_all add: pc_inv_def)
    then show ?thesis using Finishing by (simp add: thread_step_def)
  qed (use pc ok p in \<open>auto simp: thread_step_def pc_inv_def Let_def looping_nonempty intro!: same\<close>)
qed

end
