(* ===== verification/StreamSafe.thy ===== *)
theory StreamSafe
  imports StreamSession
begin

section \<open>Guarantees of pg2sdr_stream_data\<close>

text \<open>
  Every step of the machine keeps the invariant of theory StreamSession, and the properties of a call of
  \<open>pg2sdr_stream_data\<close> that follow.
\<close>

subsection \<open>Every step keeps the invariant\<close>

lemma completed_inv:
  assumes inv: "stream_inv m" and p: "p \<in> in_flight (m_queue m)" and run: "transfer_callback p status data (m_queue m) = Inr q'"
  shows "stream_inv (m\<lparr>m_queue := q'\<rparr>)"
proof -
  from inv obtain xs where ok: "queue_ok (m_queue m) xs" and pc: "pc_inv m xs" by (auto simp: stream_inv_def)
  obtain q where "transfer_callback p status data (m_queue m) = Inr q" "queue_ok q xs" "completion_flag q"
      "transfers q = transfers (m_queue m)"
    using transfer_callback_ok [OF ok p] by blast
  then have q: "queue_ok q' xs" "completion_flag q'" "transfers q' = transfers (m_queue m)" using run by simp_all
  have "transfers (m_queue m) \<noteq> []" using ok p queue_ok_subset [OF ok] by auto
  then show ?thesis using q pc p
    by (intro stream_invI [of _ xs]) (auto simp: pc_inv_def Let_def looping_def split: stream_pc.splits)
qed

lemma stopped_inv:
  assumes inv: "stream_inv m" and run: "stop_streaming m = (m', e)" and pc: "m_pc m \<noteq> Returned"
  shows "stream_inv m'"
proof -
  from inv obtain xs where ok: "queue_ok (m_queue m) xs" and p: "pc_inv m xs" by (auto simp: stream_inv_def)
  show ?thesis
  proof (cases "m' = m")
    case False
    then have m': "m' = m\<lparr>m_conv := (m_conv m)\<lparr>draining := True\<rparr>, m_queue := (m_queue m)\<lparr>completion_flag := True\<rparr>\<rparr>"
      using run by (auto simp: stop_streaming_def split: if_splits)
    then have "queue_ok (m_queue m') xs" "pc_inv m' xs" using ok p
      by (auto simp: pc_inv_def Let_def split: stream_pc.splits)
    then show ?thesis by (rule stream_invI)
  qed (use inv in simp)
qed

lemma configured_inv:
  assumes inv: "stream_inv m" and k: "keeps (m_dev m) d"
  shows "stream_inv (m\<lparr>m_dev := d\<rparr>)"
proof -
  from inv obtain xs where ok: "queue_ok (m_queue m) xs" and p: "pc_inv m xs" by (auto simp: stream_inv_def)
  have "streaming d = streaming (m_dev m)" using k by (simp add: keeps_def)
  then show ?thesis using ok p by (intro stream_invI [of _ xs]) (auto simp: pc_inv_def Let_def looping_def split: stream_pc.splits)
qed

lemma stream_step_inv:
  assumes step: "stream_step E F tab callback m m'" and inv: "stream_inv m" and pc: "m_pc m \<noteq> Returned"
  shows "stream_inv m'"
  using step
proof (cases rule: stream_step.cases)
  case (thread R)
  then show ?thesis using thread_step_inv [OF inv pc, of E F callback R] by auto
next
  case (completed p status data q)
  then show ?thesis using completed_inv [OF inv] by simp
next
  case (stopped error)
  then show ?thesis using stopped_inv [OF inv _ pc] by blast
next
  case (configured op d error)
  then have "keeps (m_dev m) d" using config_exec_keeps by blast
  then show ?thesis using configured(1) configured_inv [OF inv] by simp
qed

lemma session_inv: "session E F tab callback m0 m \<Longrightarrow> clean m0 \<Longrightarrow> stream_inv m"
  by (induction rule: session.induct) (auto intro: stream_setup_inv stream_step_inv)

subsection \<open>Memory\<close>


text \<open>Note: when the call returns, either nothing is allocated, the list is empty, libusb holds nothing and the device can
  stream again; or the array is still allocated, with everything libusb holds inside it (the drain
  was given up because libusb failed). A part is never freed.\<close>

theorem session_releases:
  assumes "clean m0" "session E F tab callback m0 m" "m_pc m = Returned"
  shows "\<not> streaming (m_dev m) \<and> (clean m \<and> xheap (m_queue m) = (\<lambda>p. None) \<or>
    transfers (m_queue m) \<noteq> [] \<and> (\<forall>p \<in> set (transfers (m_queue m)) \<union> in_flight (m_queue m). xheap (m_queue m) p \<noteq> None))"
proof -
  from session_inv [OF assms(2,1)] obtain xs where ok: "queue_ok (m_queue m) xs" and pc: "pc_inv m xs"
    by (auto simp: stream_inv_def)
  have h: "xheap (m_queue m) p \<noteq> None \<longleftrightarrow> p \<in> set (transfers (m_queue m))" for p
    using ok by (auto simp: queue_ok_def states_def)
  show ?thesis
  proof (cases "transfers (m_queue m) = []")
    case True
    then have "xheap (m_queue m) = (\<lambda>p. None)" using h by (auto simp: fun_eq_iff)
    then show ?thesis using True ok pc assms(3) by (auto simp: pc_inv_def clean_def)
  next
    case False
    then show ?thesis using h pc assms(3) queue_ok_subset [OF ok] by (auto simp: pc_inv_def)
  qed
qed

subsection \<open>Wakeups and order\<close>

text \<open>C6: when the thread sleeps in libusb and there is something for it to do (the first transfer has completed,
  or a stop was requested), the completion flag that wakes it is set, in every interleaving of callbacks and
  other threads.\<close>

theorem no_lost_wakeup:
  assumes "clean m0" "session E F tab callback m0 m" "m_pc m = Loop_wait"
    and "draining (m_conv m) \<or> (\<exists>p. active_head (m_queue m) = Some p \<and> states (m_queue m) p \<noteq> Some XFER_BUSY)"
  shows "completion_flag (m_queue m)"
proof -
  from session_inv [OF assms(2,1)] obtain xs where ok: "queue_ok (m_queue m) xs" and l: "looping (m_queue m) xs (m_dev m)"
      and w: "completion_flag (m_queue m) \<or> \<not> draining (m_conv m) \<and> hd xs \<in> in_flight (m_queue m)"
    using assms(3) by (auto simp: stream_inv_def pc_inv_def Let_def)
  obtain p ys where p: "xs = p # ys" "active_head (m_queue m) = Some p" using looping_list [OF l ok] by blast
  then show ?thesis using w ok assms(4) by (auto simp: queue_ok_def)
qed

text \<open>Note: taking the first transfer off the linked list and linking it at the end, any number of times, refines
  rotating a queue: the n-th transfer taken is the one at position n modulo the length, so data is dispatched in the order of
  submission, and the pointers represent the rotated queue afterwards.\<close>

theorem transfers_in_turn:
  assumes "active q xs" "xs \<noteq> []"
  shows "\<exists>q'. run_foldl (\<lambda>q p. run_bind (unlink_head p q) (link_active p)) q (map (\<lambda>k. xs ! (k mod length xs)) [0..<n]) = Inr q' \<and>
    active q' (rotate n xs)"
  using active_list.turns_repr [OF assms, of n] unfolding active_list.turn_def .

subsection \<open>Draining ends\<close>

definition step_bind :: "'a run option \<Rightarrow> ('a \<Rightarrow> 'b run option) \<Rightarrow> 'b run option" where
  "step_bind x f = (case x of None \<Rightarrow> None | Some (Inl e) \<Rightarrow> Some (Inl e) | Some (Inr y) \<Rightarrow> f y)"

lemma step_bind_simps [simp]: "step_bind (Some (Inr y)) f = f y"
  by (simp add: step_bind_def)

definition complete_all :: "(xptr \<times> transfer_status \<times> u8 list) list \<Rightarrow> queue \<Rightarrow> queue run" where
  "complete_all cs q = run_foldl (\<lambda>q (p, status, data). transfer_callback p status data q) q cs"

text \<open>The drain loop on a list of what successive calls of libusb deliver.\<close>

fun drain_run ::
  "'u usb_env \<Rightarrow> block_format \<Rightarrow> 'c stream_callback \<Rightarrow> thread_results \<Rightarrow>
   ((xptr \<times> transfer_status \<times> u8 list) list \<times> int) list \<Rightarrow> ('u, 'c) machine \<Rightarrow> ('u, 'c) machine run option" where
  "drain_run E F callback R evs m =
    step_bind (thread_step E F callback R m) (\<lambda>m.
      step_bind (thread_step E F callback R m) (\<lambda>m.
        if m_pc m \<noteq> Drain_wait then Some (Inr m)
        else case evs of
          [] \<Rightarrow> None
        | (cs, error) # evs \<Rightarrow>
            step_bind (Some (complete_all cs (m_queue m))) (\<lambda>q.
              step_bind (thread_step E F callback (R\<lparr>handle_error := error\<rparr>) (m\<lparr>m_queue := q\<rparr>)) (drain_run E F callback R evs))))"

declare drain_run.simps [simp del]

lemma complete_all_inv:
  assumes "stream_inv m" "set (map fst cs) \<subseteq> in_flight (m_queue m)" "distinct (map fst cs)"
  shows "\<exists>q. complete_all cs (m_queue m) = Inr q \<and> stream_inv (m\<lparr>m_queue := q\<rparr>) \<and> in_flight q = in_flight (m_queue m) - set (map fst cs)"
  using assms
proof (induction cs arbitrary: m)
  case Nil
  then show ?case by (simp add: complete_all_def)
next
  case (Cons c cs)
  obtain p status data where c: "c = (p, status, data)" by (cases c)
  have p: "p \<in> in_flight (m_queue m)" using Cons.prems(2) c by simp
  from Cons.prems(1) obtain xs where ok: "queue_ok (m_queue m) xs" by (auto simp: stream_inv_def)
  obtain q1 where q1: "transfer_callback p status data (m_queue m) = Inr q1" "in_flight q1 = in_flight (m_queue m) - {p}"
    using transfer_callback_ok [OF ok p] by blast
  have "stream_inv (m\<lparr>m_queue := q1\<rparr>)" using completed_inv [OF Cons.prems(1) p q1(1)] .
  from Cons.IH [OF this] Cons.prems(2,3) q1(2) c obtain q where "complete_all cs q1 = Inr q" "stream_inv (m\<lparr>m_queue := q\<rparr>)"
      "in_flight q = in_flight q1 - set (map fst cs)" by auto
  then show ?case using q1 c by (auto simp: complete_all_def)
qed

lemma drain_run_ok:
  assumes "stream_inv m" "m_pc m = Drain_top" "\<forall>ev \<in> set evs. interrupted_or_ok (lu E) (snd ev)"
    and "distinct (map fst (concat (map fst evs)))" "set (map fst (concat (map fst evs))) = in_flight (m_queue m)"
  shows "\<exists>m'. drain_run E F callback R evs m = Some (Inr m') \<and> stream_inv m' \<and> m_pc m' = Cleaning_up"
  using assms
proof (induction evs arbitrary: m)
  case Nil
  define m1 where "m1 = m\<lparr>m_queue := (m_queue m)\<lparr>completion_flag := False\<rparr>, m_pc := Drain_check\<rparr>"
  have s1: "thread_step E F callback R m = Some (Inr m1)" using Nil.prems(2) by (simp add: thread_step_def m1_def)
  have i1: "stream_inv m1" using thread_step_inv [OF Nil.prems(1), of E F callback R] s1 Nil.prems(2) by simp
  have p1: "m_pc m1 = Drain_check" "in_flight (m_queue m1) = {}" using Nil.prems(5) by (simp_all add: m1_def)
  obtain m2 where m2: "drain_check m1 = Some (Inr m2)" "stream_inv m2" "m_pc m2 = Cleaning_up"
    using drain_check_inv [OF i1 p1(1)] p1(2) by auto
  have "thread_step E F callback R m1 = Some (Inr m2)" using m2(1) p1(1) by (simp add: thread_step_def)
  then show ?case using s1 m2 by (simp add: drain_run.simps [of E F callback R "[]"])
next
  case (Cons ev evs)
  obtain cs err where ev: "ev = (cs, err)" by (cases ev)
  define m1 where "m1 = m\<lparr>m_queue := (m_queue m)\<lparr>completion_flag := False\<rparr>, m_pc := Drain_check\<rparr>"
  have s1: "thread_step E F callback R m = Some (Inr m1)" using Cons.prems(2) by (simp add: thread_step_def m1_def)
  have i1: "stream_inv m1" using thread_step_inv [OF Cons.prems(1), of E F callback R] s1 Cons.prems(2) by simp
  have p1: "m_pc m1 = Drain_check" "in_flight (m_queue m1) = in_flight (m_queue m)" by (simp_all add: m1_def)
  obtain m2 where m2: "drain_check m1 = Some (Inr m2)" "stream_inv m2" "m_pc m2 = (if in_flight (m_queue m) = {} then Cleaning_up else Drain_wait)"
    using drain_check_inv [OF i1 p1(1)] p1(2) by auto
  have s2: "thread_step E F callback R m1 = Some (Inr m2)" using m2(1) p1(1) by (simp add: thread_step_def)
  show ?case
  proof (cases "in_flight (m_queue m) = {}")
    case True
    then show ?thesis using s1 s2 m2 by (simp add: drain_run.simps [of E F callback R "ev # evs"])
  next
    case False
    then have w: "m_pc m2 = Drain_wait" using m2(3) by simp
    have "m2 = m1\<lparr>m_pc := Drain_wait\<rparr>"
    proof -
      from i1 obtain xs where "queue_ok (m_queue m1) xs" by (auto simp: stream_inv_def)
      then show ?thesis using m2(1) False p1(2) any_busy_ok by (auto simp: drain_check_def)
    qed
    then have f2: "in_flight (m_queue m2) = in_flight (m_queue m)" using p1(2) by simp
    obtain q where q: "complete_all cs (m_queue m2) = Inr q" "stream_inv (m2\<lparr>m_queue := q\<rparr>)" "in_flight q = in_flight (m_queue m) - set (map fst cs)"
      using complete_all_inv [OF m2(2), of cs] Cons.prems(4,5) f2 ev by auto
    define m3 where "m3 = m2\<lparr>m_queue := q, m_pc := Drain_top\<rparr>"
    have s3: "thread_step E F callback (R\<lparr>handle_error := err\<rparr>) (m2\<lparr>m_queue := q\<rparr>) = Some (Inr m3)"
      using w Cons.prems(3) ev by (simp add: thread_step_def m3_def)
    have i3: "stream_inv m3" using thread_step_inv [OF q(2), of E F callback "R\<lparr>handle_error := err\<rparr>"] s3 w by simp
    have "set (map fst cs) \<inter> set (map fst (concat (map fst evs))) = {}"
        "set (map fst cs) \<union> set (map fst (concat (map fst evs))) = in_flight (m_queue m)"
      using Cons.prems(4,5) unfolding ev
      by (simp_all only: list.map concat.simps map_append set_append distinct_append fst_conv)
    moreover have "in_flight (m_queue m3) = in_flight (m_queue m) - set (map fst cs)" using q(3) by (simp add: m3_def)
    ultimately have "set (map fst (concat (map fst evs))) = in_flight (m_queue m3)" by blast
    then obtain m' where "drain_run E F callback R evs m3 = Some (Inr m')" "stream_inv m'" "m_pc m' = Cleaning_up"
      using Cons.IH [OF i3] Cons.prems(3,4) ev by (auto simp: m3_def)
    then show ?thesis using s1 s2 s3 w q(1) ev by (simp add: drain_run.simps [of E F callback R "(cs, err) # evs"])
  qed
qed

text \<open>C5: once the stream stops for any reason, the drain ends: if libusb calls back every transfer
  it holds once, in any order and any grouping over its event loop, and reports no error, then draining ends and the two next
  steps free every transfer.\<close>

theorem drain_terminates:
  assumes "clean m0" "session E F tab callback m0 m" "m_pc m = Drain_start"
    and "\<forall>ev \<in> set evs. interrupted_or_ok (lu E) (snd ev)"
    and "distinct (map fst (concat (map fst evs)))" "set (map fst (concat (map fst evs))) = in_flight (m_queue m)"
  shows "\<exists>m1 m2. step_bind (thread_step E F callback R m) (drain_run E F callback R evs) = Some (Inr m1) \<and>
    thread_step E F callback R m1 = Some (Inr m2) \<and> m_pc m2 = Finishing \<and>
    transfers (m_queue m2) = [] \<and> in_flight (m_queue m2) = {} \<and> xheap (m_queue m2) = (\<lambda>p. None)"
proof -
  have inv: "stream_inv m" using session_inv assms(1,2) by blast
  obtain m' where m': "drain_start E m = Inr m'" "stream_inv m'" "m_pc m' = Drain_top" "in_flight (m_queue m') = in_flight (m_queue m)"
    using drain_start_inv [OF inv assms(3)] by blast
  obtain m1 where m1: "drain_run E F callback R evs m' = Some (Inr m1)" "stream_inv m1" "m_pc m1 = Cleaning_up"
    using drain_run_ok [OF m'(2,3) assms(4,5)] assms(6) m'(4) by blast
  obtain m2 where m2: "stream_cleanup m1 = Inr m2" "m_pc m2 = Finishing" "transfers (m_queue m2) = []" "in_flight (m_queue m2) = {}"
      "xheap (m_queue m2) = (\<lambda>p. None)"
    using stream_cleanup_inv [OF m1(2,3)] by blast
  show ?thesis
    using m'(1) m1(1,3) m2 assms(3) by (intro exI [of _ m1] exI [of _ m2]) (simp add: thread_step_def)
qed

subsection \<open>Starting again after a drain was given up\<close>

lemma free_in_flight:
  assumes "p \<in> set (transfers q)" "p \<in> in_flight q"
  shows "free_dev_transfers q = Inl Use_after_free"
proof -
  have "run_foldl free_one q ps = Inl Use_after_free" if "p \<in> set ps" "p \<in> in_flight q" for q ps
    using that
  proof (induction ps arbitrary: q)
    case (Cons x ps)
    show ?case
    proof (cases "x \<in> in_flight q")
      case False
      then have "free_one q x = Inr (q\<lparr>xheap := (xheap q)(x := None)\<rparr>)" "p \<in> set ps" using Cons.prems by (auto simp: free_one_def)
      then show ?thesis using Cons.IH [of "q\<lparr>xheap := (xheap q)(x := None)\<rparr>"] Cons.prems(2) by simp
    qed (simp add: free_one_def)
  qed simp
  then show ?thesis using assms by (simp add: free_dev_transfers_def)
qed

text \<open>C36: pg2sdr_stream_data does not check for transfers left by an earlier call: as soon as the configuration is
  applied, it frees the old array, and if libusb still holds one of its transfers, that is a use after free. This
  happens after a drain that was given up, and when a second thread starts a stream while the first is draining after a
  submission error (streaming is not set yet, and the mutex is released).\<close>

theorem restart_frees_in_flight:
  assumes "CHECK_DEV (Some (m_dev m)) = PG2SDR_SUCCESS" "\<not> streaming (m_dev m)"
    and "apply_changes E tab (Some (m_dev m)) = Inr (Some d, PG2SDR_SUCCESS)" "adc_valid (adc_config d)" "event_timeout d = Inr ms"
    and "p \<in> set (transfers (m_queue m))" "p \<in> in_flight (m_queue m)"
  shows "stream_setup E tab R m = Inl Use_after_free"
  using assms free_in_flight [OF assms(6,7)]
  by (simp add: stream_setup_def allocate_transfers_def)

end
