(* ===== verification/StreamFacts.thy ===== *)
theory StreamFacts
  imports StreamConvert
begin

section \<open>Conversion keeps the count of samples\<close>

text \<open>
  \<open>T\<close> is the number of ADC samples converted since the stream started. It determines how many samples every
  filter holds back, and so the number of user samples each call delivers and the correction of the timestamps.
\<close>

subsection \<open>Filters\<close>

definition stage_ok :: "halfband_state \<Rightarrow> nat \<Rightarrow> bool" where
  "stage_ok f T \<longleftrightarrow> halfband_ok f \<and> length (hb_history f) = length (hb_taps f) - 1 + T mod 2"

primrec chain_ok :: "halfband_state list \<Rightarrow> nat \<Rightarrow> bool" where
  "chain_ok [] T = True"
| "chain_ok (f # fs) T = (stage_ok f T \<and> chain_ok fs (T div 2))"

lemma half_sum: "(T mod 2 + n) div 2 = (T + n) div 2 - T div (2 :: nat)"
proof -
  have "T + n = (T mod 2 + n) + T div 2 * 2" by simp
  then have "(T + n) div 2 = (T mod 2 + n) div 2 + T div 2" by (metis div_mult_self1 add.commute zero_neq_numeral)
  then show ?thesis by simp
qed

lemma half_diff: "(T + n) div 2 - T div 2 \<le> (n :: nat)"
proof (cases n)
  case (Suc m)
  have "T mod 2 \<le> 1" by simp
  then have "(T mod 2 + Suc m) div 2 \<le> Suc m" by linarith
  then show ?thesis by (simp only: Suc half_sum)
qed simp

lemma stage_process:
  assumes ok: "stage_ok f T"
  shows "\<exists>f' out. halfband_decimate_process f zs = Inr (f', out) \<and> stage_ok f' (T + length zs) \<and>
    length out = (T + length zs) div 2 - T div 2"
proof -
  obtain t ts where ts: "hb_taps f = t # ts" using ok by (cases "hb_taps f") (auto simp: stage_ok_def halfband_ok_def)
  define h where "h = hb_history f"
  have hl: "length h = length ts + T mod 2" using ok ts by (simp add: h_def stage_ok_def)
  have c0: "hb.count t ts h = 0" unfolding hb.count_def hl by simp
  have c1: "hb.count t ts (h @ zs) = (T mod 2 + length zs) div 2" unfolding hb.count_def by (simp add: hl)
  have room: "2 * length (t # ts) + 2 * 2 \<le> 2 * length (t # ts) + 4" "length (t # ts) + 2 \<le> 2 * length (t # ts) + 1"
    by simp_all
  define h' where "h' = hb.rest t ts (h @ zs)"
  define out where "out = hb.outputs t ts (h @ zs)"
  have run: "halfband_decimate_process f zs = Inr (f\<lparr>hb_history := h'\<rparr>, out)"
    using hb.history_process_spec [OF c0 room, of zs] ok
    by (simp add: halfband_decimate_process_def stage_ok_def halfband_ok_def ts h_def h'_def out_def)
  have "length out = (T + length zs) div 2 - T div 2" unfolding out_def hb.outputs_def c1 half_sum by simp
  moreover have "length h' = length ts + (T + length zs) mod 2"
  proof -
    have "length h' = length (h @ zs) - (T mod 2 + length zs) div 2 * 2"
      unfolding h'_def hb.rest_def c1 by (rule length_drop)
    also have "length (h @ zs) = length ts + (T mod 2 + length zs)" by (simp add: hl)
    also have "length ts + (T mod 2 + length zs) - (T mod 2 + length zs) div 2 * 2 =
        length ts + ((T mod 2 + length zs) - (T mod 2 + length zs) div 2 * 2)"
      by (rule diff_add_assoc) (rule div_times_less_eq_dividend)
    also have "... = length ts + (T mod 2 + length zs) mod 2" by (simp only: minus_div_mult_eq_mod)
    finally show ?thesis by (simp only: mod_add_left_eq)
  qed
  ultimately show ?thesis using run ok ts by (auto simp: stage_ok_def halfband_ok_def)
qed

lemma chain_process:
  "chain_ok fs T \<Longrightarrow> 2 * length zs \<le> room \<Longrightarrow>
    \<exists>fs' out. decimate_chain room fs zs = Inr (fs', out) \<and> chain_ok fs' (T + length zs) \<and> length fs' = length fs \<and>
      length out = (T + length zs) div 2 ^ length fs - T div 2 ^ length fs"
proof (induction fs arbitrary: T zs)
  case (Cons f fs)
  from stage_process [of f T zs] Cons.prems(1) obtain f' out1
    where p: "halfband_decimate_process f zs = Inr (f', out1)" "stage_ok f' (T + length zs)"
      "length out1 = (T + length zs) div 2 - T div 2" by auto
  have s: "T div 2 + length out1 = (T + length zs) div 2" using p(3) div_le_mono [of T "T + length zs" 2] by simp
  have "2 * length out1 \<le> room" using half_diff [of T "length zs"] p(3) Cons.prems(2) by linarith
  from Cons.IH [of "T div 2" out1, OF _ this] Cons.prems(1) obtain fs' out
    where q: "decimate_chain room fs out1 = Inr (fs', out)" "chain_ok fs' ((T + length zs) div 2)" "length fs' = length fs"
      "length out = (T + length zs) div 2 div 2 ^ length fs - T div 2 div 2 ^ length fs" by (auto simp: s)
  show ?case using p q Cons.prems(2) by (simp add: div_mult2_eq)
qed simp

lemma downconvert_counts:
  assumes ok: "stage_ok (dc_decimate dc) T" and n: "4 dvd length xs" "length xs \<le> dc_max_in_length dc"
  shows "\<exists>dc' zs. downconvert_process dc xs = Inr (dc', zs) \<and> stage_ok (dc_decimate dc') (T + length xs) \<and>
    dc_max_in_length dc' = dc_max_in_length dc \<and> length zs = (T + length xs) div 2 - T div 2"
  using stage_process [OF ok, of "fs4_loop xs"] n by (auto simp: downconvert_process_def fs4_mix_def)

subsection \<open>Unpacking\<close>

lemma length_le_words [simp]: "length (le_words bs) = length bs div 4"
  by (induction bs rule: le_words.induct) simp_all

lemma length_unpack: "length ws mod 3 = 0 \<Longrightarrow> length (unpack_loop ws) = 8 * (length ws div 3)"
proof (induction ws rule: unpack_loop.induct)
  case (1 a b c ws)
  then have "length ws mod 3 = 0" by (simp add: mod_Suc split: if_splits)
  with 1 show ?case by simp
qed simp_all

lemma length_unpack_invert: "length (unpack_invert_loop ws) = length (unpack_loop ws)"
  by (induction ws rule: unpack_loop.induct) simp_all

definition format_ok :: "block_format \<Rightarrow> 'u device \<Rightarrow> bool" where
  "format_ok F d \<longleftrightarrow> 0 < unat (usb_samples_per_block d) \<and> 8 dvd unat (usb_samples_per_block d) \<and>
     header_size F + unat (usb_samples_per_block d) div 8 * 12 \<le> unat (usb_bytes_per_block d)"

lemma block_samples_ok:
  assumes f: "format_ok F d" and len: "i + unat (usb_bytes_per_block d) \<le> length data"
  shows "\<exists>xs. block_samples F d iv data i = Inr xs \<and> length xs = unat (usb_samples_per_block d)"
proof -
  define s where "s = unat (usb_samples_per_block d)"
  have w: "unat (usb_samples_per_block d div 8 * 3) = s div 8 * 3"
  proof -
    have "unat (usb_samples_per_block d) < 2 ^ LENGTH(32)" by (rule unsigned_less)
    then have "s < 2 ^ 32" by (simp add: s_def)
    then have "s div 8 * 3 < 2 ^ 32" by linarith
    then show ?thesis by (simp add: unat_word_ariths unat_div s_def)
  qed
  define ws where "ws = le_words (take (4 * (s div 8 * 3)) (drop (i + header_size F) data))"
  have l: "\<not> length (drop (i + header_size F) data) < 4 * (s div 8 * 3)"
    using f len unfolding format_ok_def s_def length_drop by linarith
  then have lw: "length ws = s div 8 * 3" by (simp add: ws_def min_def)
  then have d3: "length ws mod 3 = 0" by simp
  have "length (unpack_loop ws) = s" using length_unpack [OF d3] lw f by (simp add: format_ok_def s_def)
  then show ?thesis
    unfolding block_samples_def Let_def w ws_def [symmetric] if_not_P [OF l]
    using d3 by (simp add: unpack_raw_adc_data_def unpack_raw_adc_data_invert_def length_unpack_invert s_def)
qed

lemma unpack_blocks_ok:
  assumes f: "format_ok F d" and len: "n * unat (usb_bytes_per_block d) \<le> length data"
  shows "\<exists>xs. unpack_blocks F d iv data (n * unat (usb_bytes_per_block d)) = Inr xs \<and>
    length xs = n * unat (usb_samples_per_block d)"
proof -
  define bpb where "bpb = unat (usb_bytes_per_block d)"
  have b: "0 < bpb" using f by (auto simp: format_ok_def bpb_def)
  have "\<exists>xs. run_foldl (\<lambda>acc i. run_bind (block_samples F d iv data i) (\<lambda>xs. Inr (acc @ xs))) [] (map (\<lambda>k. k * bpb) [0..<m]) = Inr xs \<and>
      length xs = m * unat (usb_samples_per_block d)" if "m \<le> n" for m
    using that
  proof (induction m)
    case (Suc m)
    then obtain xs where xs: "run_foldl (\<lambda>acc i. run_bind (block_samples F d iv data i) (\<lambda>xs. Inr (acc @ xs))) [] (map (\<lambda>k. k * bpb) [0..<m]) = Inr xs"
        "length xs = m * unat (usb_samples_per_block d)" by auto
    have "m * bpb + bpb \<le> n * bpb" using Suc.prems mult_le_mono1 [of "Suc m" n bpb] by simp
    then have "m * bpb + unat (usb_bytes_per_block d) \<le> length data" using len by (simp add: bpb_def)
    from block_samples_ok [OF f this] obtain ys where "block_samples F d iv data (m * bpb) = Inr ys"
        "length ys = unat (usb_samples_per_block d)" by blast
    then show ?case using xs by (simp add: run_foldl_append)
  qed simp
  from this [of n] show ?thesis using b by (simp add: unpack_blocks_def block_offsets_def bpb_def)
qed

end
