(* ===== verification/ConfigProps.thy ===== *)
theory ConfigProps
  imports ConfigFacts
begin

section \<open>Properties of the configuration (src/config.c)\<close>

text \<open>
  The invariant of \<open>ConfigFacts\<close> over sequences of calls, the frequency the receiver is tuned to, the decimation
  and the transfer sizes, and two defects.
\<close>

text \<open>C28: whenever the configuration is settled, with no rate or frequency change pending,
  a valid ADC clock and a requested frequency, the frequency that \<open>pg2sdr_get_frequency\<close> reports as actual
  is within 15 steps of the 18-bit PLL fraction (at the output divider in use) of the requested one,
  up to the rounding of three doubles. This covers the case where the PLL was left alone because the
  registers would not change, and the offset of the LO in every conversion and sideband mode.\<close>

theorem tuned_frequency_accuracy:
  assumes inv: "config_inv tab d" and idle: "\<not> changing_rate d" "\<not> changing_freq d"
    and adc: "adc_valid (adc_config d)" and f: "requested_frequency d \<noteq> 0" and xtal: "0 < tuner_xtal d"
    and range: "\<bar>requested_frequency d\<bar> \<le> 2 ^ 33" "\<bar>lo_offset d\<bar> \<le> 2 ^ 33"
  shows "\<exists>a. get_frequency (Some d) True True = (PG2SDR_SUCCESS, Some (requested_frequency d), Some a) \<and>
    \<bar>a - requested_frequency d\<bar>
      \<le> 15 / 2 ^ 18 * (2 * pll_ref_of (of_nat (unat (tuner_xtal d)))) / of_int (pll_seldiv (tuner_config d)) *
        (1 + 1 / 2 ^ 50) + 1 / 2 ^ 17"
proof -
  define x :: rat where "x = of_nat (unat (tuner_xtal d))"
  define P where "P = pll_ref_of x"
  have "0 < unat (tuner_xtal d)" using xtal by (simp add: word_less_nat_alt)
  then have x: "0 < x" unfolding x_def by (simp only: of_nat_0_less_iff)
  obtain c where c: "find_pll_parameters (lo_target d) x = Inr (PG2SDR_SUCCESS, Some c)"
      and eq: "tuner_pll_config_equal c (tuner_config d)"
    using inv idle adc f unfolding config_inv_def settled_freq_def x_def by blast
  have v: "pll_valid (tuner_config d)" "pll_seldiv (tuner_config d) = pll_seldiv c"
    using eq by (simp_all add: tuner_pll_config_equal_def)
  then obtain r where r: "find_pll_parameters r x = Inr (PG2SDR_SUCCESS, Some (tuner_config d))"
    using inv unfolding config_inv_def x_def by blast
  define S :: rat where "S = of_int (pll_seldiv c)"
  define A where "A = pll_actual_frequency (tuner_config d)"
  define q where "q = 15 / 2 ^ 18 * (2 * P) / S"
  have S: "1 \<le> S"
  proof (cases rule: find_pll_cases [of "lo_target d" x])
    case out_of_range
    then show ?thesis using c by simp
  next
    case (in_range n sdm vco)
    then show ?thesis using c by (auto simp: S_def)
  qed
  have "\<bar>A * S - lo_target d * S\<bar> \<le> 15 / 2 ^ 18 * (2 * P)"
    using same_registers_near [OF x c r eq] find_pll_error [OF x c] unfolding A_def S_def P_def by linarith
  moreover have "\<bar>A * S - lo_target d * S\<bar> = \<bar>A - lo_target d\<bar> * S"
    using S by (simp add: abs_mult left_diff_distrib [symmetric])
  ultimately have A: "\<bar>A - lo_target d\<bar> \<le> q" using S by (simp add: q_def pos_le_divide_eq)
  define R where "R = requested_frequency d"
  define L where "L = lo_offset d"
  have P: "0 < P" using x by (simp add: P_def pll_ref_pos)
  have q: "0 \<le> q" using P S by (simp add: q_def)
  have t: "\<bar>lo_target d - (R + L)\<bar> \<le> eps_d * 2 ^ 34"
    unfolding lo_target_def R_def L_def using range by (intro dbl.rnd_near) (simp add: abs_le_iff)
  have r1: "\<bar>R\<bar> \<le> 2 ^ 33" "(2 :: rat) ^ 34 = 2 * 2 ^ 33" "eps_d * 2 ^ 34 \<le> (1 :: rat)" "(1 :: rat) \<le> 2 ^ 33"
    using range(1) by (simp_all add: R_def eps_d_def)
  have b: "\<bar>A - L\<bar> \<le> q + 2 ^ 34"
    using A t r1 unfolding abs_le_iff by linarith
  have a: "\<bar>rd (A - L) - (A - L)\<bar> \<le> eps_d * (q + 2 ^ 34)"
    using b by (rule dbl.rnd_near)
  define q' where "q' = q * (1 / 2 ^ 50)"
  have e: "eps_d * (q + 2 ^ 34) \<le> q' + 1 / 2 ^ 19" "eps_d * 2 ^ 34 = 1 / 2 ^ 19"
    "(1 / 2 ^ 19 + 1 / 2 ^ 19 :: rat) \<le> 1 / 2 ^ 17"
    using q by (simp_all add: eps_d_def q'_def)
  have q': "q * (1 + 1 / 2 ^ 50) = q + q'" by (simp only: distrib_left mult_1_right q'_def)
  have "\<bar>rd (A - L) - R\<bar> \<le> q * (1 + 1 / 2 ^ 50) + 1 / 2 ^ 17"
    using A t a e unfolding q' by linarith
  moreover have "get_frequency (Some d) True True = (PG2SDR_SUCCESS, Some R, Some (rd (A - L)))"
    using config_inv_chk [OF inv] v idle adc by (simp add: get_frequency_def actual_frequency_def R_def A_def L_def)
  ultimately show ?thesis
    unfolding R_def q_def P_def S_def v(2) [symmetric] x_def by blast
qed

text \<open>A device tuned to 1090 MHz at 12 Msps, for concrete evaluations.\<close>

definition tuned_device :: "unit device" where
  "tuned_device = sample_device\<lparr>undersampling_mode := 1, conv_mode := MODE_LOWIF_REAL,
     bandpass_table := bandpass_table bandpass_device, adc_config := no_pll_config 12000000 1,
     tuner_config := \<lparr>pll_valid = True, pll_refdiv = True, pll_seldiv = 2, pll_feedback_n = 75,
       pll_feedback_sdm = 45511, pll_actual_vco = 558080015625 / 256,
       pll_actual_frequency = 558080015625 / 512\<rparr>,
     usb_transfer_size := 104448, adc_samples_per_transfer := 65280, adc_samples_per_user_sample := 1,
     post_decimation := 0\<rparr>"

lemma tuned_device_rate:
  "rate_settings (Some tab) tuned_device = Inr (PG2SDR_SUCCESS, Some (no_pll_config 12000000 1, 104448, 65280, 1, 0))"
proof -
  have conv: "to_unsigned (of_int (c_round (rd (adc_reference_frequency / 12000000)))) = (Inr 1 :: u32 run)"
    using c_round_of_int [of 1] by (simp add: adc_reference_frequency_def to_unsigned_def)
  have find: "adc_find_divisors (Some tab) 12000000 False True True (rd (1 / 10 ^ 5)) =
      Inr (PG2SDR_SUCCESS, Some (no_pll_config 12000000 1))"
    unfolding adc_find_divisors_def conv
    by (simp add: no_pll_config_def Let_def adc_reference_frequency_def dbl.rnd_nonneg)
  have ts: "transfer_sizes 65536 1 320 512 = Inr (104448, 65280)"
    by (simp add: transfer_sizes_def MAX_USB_TRANSFER_def)
  have ch: "choose_decimation tuned_device = Some (1, 0)"
    by (simp add: choose_decimation_def tuned_device_def)
  show ?thesis
    unfolding rate_settings_def ch
    using find ts by (simp add: tuned_device_def sample_device_def Let_def)
qed

lemma tuned_device_lo: "lo_offset tuned_device = 0" "lo_target tuned_device = 1090000000"
  by (simp_all add: lo_target_def lo_offset_def undersampling_offset_def tuned_device_def sample_device_def)

lemma tuned_device_inv: "config_inv (Some tab) tuned_device"
proof -
  have p: "find_pll_parameters 1090000000 28800000 = Inr (PG2SDR_SUCCESS, Some
      \<lparr>pll_valid = True, pll_refdiv = True, pll_seldiv = 2, pll_feedback_n = 75,
       pll_feedback_sdm = 45511, pll_actual_vco = 558080015625 / 256,
       pll_actual_frequency = 558080015625 / 512\<rparr>)"
    by code_simp
  have t: "tuner_xtal tuned_device = 28800000" "tuner_config tuned_device = \<lparr>pll_valid = True, pll_refdiv = True,
      pll_seldiv = 2, pll_feedback_n = 75, pll_feedback_sdm = 45511, pll_actual_vco = 558080015625 / 256,
      pll_actual_frequency = 558080015625 / 512\<rparr>"
    by (simp_all add: tuned_device_def sample_device_def)
  have r: "settled_rate (Some tab) tuned_device"
    unfolding settled_rate_def tuned_device_rate by (simp add: tuned_device_def)
  have f: "settled_freq tuned_device"
    unfolding settled_freq_def tuned_device_lo t using p by (simp add: tuner_pll_config_equal_def)
  have "\<exists>r. find_pll_parameters r (of_nat (unat (tuner_xtal tuned_device))) = Inr (PG2SDR_SUCCESS, Some (tuner_config tuned_device))"
    unfolding t by (rule exI [of _ 1090000000]) (use p in simp)
  moreover have "current_bandpass_entry tuned_device = None" "CHECK_DEV (Some tuned_device) = PG2SDR_SUCCESS"
    "bandpass_table tuned_device \<noteq> []" "0 < usb_samples_per_block tuned_device" "1000 < requested_sample_rate tuned_device"
    by (simp_all add: tuned_device_def sample_device_def bandpass_device_def CHECK_DEV_def)
  ultimately show ?thesis using r f by (simp add: config_inv_def)
qed

theorem tuned_frequency_accuracy_witness:
  "\<exists>a. get_frequency (Some tuned_device) True True = (PG2SDR_SUCCESS, Some 1090000000, Some a) \<and>
     \<bar>a - 1090000000\<bar> \<le> 824"
proof -
  have d: "requested_frequency tuned_device = 1090000000" "tuner_xtal tuned_device = 28800000"
    "pll_seldiv (tuner_config tuned_device) = 2" "\<not> changing_rate tuned_device" "\<not> changing_freq tuned_device"
    "adc_valid (adc_config tuned_device)"
    by (simp_all add: tuned_device_def sample_device_def)
  have x: "of_nat (unat (28800000 :: u32)) = (28800000 :: rat)" by simp
  have ref: "pll_ref_of 28800000 = 14400000" by code_simp
  have n: "15 / 2 ^ 18 * (2 * 14400000) / of_int 2 * (1 + 1 / 2 ^ 50) + 1 / 2 ^ 17 \<le> (824 :: rat)" by simp
  obtain a where a: "get_frequency (Some tuned_device) True True = (PG2SDR_SUCCESS, Some 1090000000, Some a)"
      "\<bar>a - 1090000000\<bar> \<le> 15 / 2 ^ 18 * (2 * 14400000) / of_int 2 * (1 + 1 / 2 ^ 50) + 1 / 2 ^ 17"
    using tuned_frequency_accuracy [OF tuned_device_inv [of undefined] d(4-6)]
    unfolding d(1-3) x ref tuned_device_lo by auto
  then show ?thesis using n by (meson order_trans)
qed

text \<open>C1: take any sequence of calls that set and apply the configuration, the
  beginning and end of streams included, with any arguments and any behaviour of the device. Either it meets the one
  undefined conversion of this code (the VCO DAC of a low VCO frequency), or it runs to the end
  without an assertion failure, a null pointer, a division by zero or an access outside a table, and
  the settings in effect that are not marked as changing are those the requests call for: the ADC
  clock, decimation and transfer sizes, the registers of the LO, and the filter.\<close>

theorem config_settled:
  assumes "config_inv tab d"
  shows "config_run E tab (Some d) ps = Inl Undefined_conversion \<or>
    (\<exists>d'. config_run E tab (Some d) ps = Inr (Some d') \<and> config_inv tab d')"
  using assms
proof (induction ps arbitrary: d)
  case (Cons p ps)
  from config_exec_inv [OF Cons.prems, of E p] show ?case
  proof (elim disjE exE conjE)
    fix d' e assume "config_exec E tab (Some d) p = Inr (Some d', e)" "config_inv tab d'"
    then show ?case using Cons.IH [of d'] by simp
  qed simp
qed simp

text \<open>What \<open>build_device\<close> leaves.\<close>

definition fresh_device :: "unit device" where
  "fresh_device = sample_device\<lparr>adc_limit := 28000000, requested_sample_rate := 0, requested_frequency := 0,
     requested_bandpass_low := - 100000000, requested_bandpass_high := 100000000, decimation_mode := -1,
     undersampling_mode := 1, buffer_size := 262144, bandpass_table := bandpass_table bandpass_device\<rparr>"

lemma fresh_device_inv: "config_inv tab fresh_device"
  by (simp add: fresh_device_def config_defs sample_device_def bandpass_device_def)

theorem config_settled_witness:
  "config_run accepting_env None (Some fresh_device) [Rate 12000000, Frequency 1090000000, Apply] = Inl Undefined_conversion \<or>
    (\<exists>d'. config_run accepting_env None (Some fresh_device) [Rate 12000000, Frequency 1090000000, Apply] = Inr (Some d') \<and>
       config_inv None d')"
  using config_settled [OF fresh_device_inv] .

text \<open>C35: \<open>pg2sdr_apply_changes\<close> succeeds only when nothing is left to apply (no change is
  pending, and the clock, oscillator and filter that the handle holds are those the requests call for; a low-IF
  sideband may not have reached the tuner, \<open>lowif_sideband_ignored\<close>), and when it fails a change is still pending, so that a later call
  tries again. With nothing pending it succeeds and touches neither the handle nor the device.\<close>

theorem apply_changes_outcome:
  assumes inv: "config_inv tab d" and run: "apply_changes E tab (Some d) = Inr (dev', e)"
  shows "\<exists>d'. dev' = Some d' \<and>
    (e = PG2SDR_SUCCESS \<and> \<not> changing_rate d' \<and> \<not> changing_freq d' \<and> \<not> changing_bandpass d' \<and>
       settled_rate tab d' \<and> settled_freq d' \<and> (current_bandpass_entry d' \<noteq> None \<longrightarrow> settled_bandpass d') \<or>
     e < 0 \<and> (changing_rate d' \<or> changing_freq d' \<or> changing_bandpass d')) \<and>
    (\<not> changing_rate d \<and> \<not> changing_freq d \<and> \<not> changing_bandpass d \<longrightarrow> d' = d \<and> e = PG2SDR_SUCCESS)"
proof -
  from apply_changes_inv [OF inv, of E] run obtain d' where d': "dev' = Some d'" "config_inv tab d'"
     "e < 0 \<and> (changing_rate d' \<or> changing_freq d' \<or> changing_bandpass d') \<or>
       e = PG2SDR_SUCCESS \<and> \<not> changing_freq d' \<and> \<not> changing_bandpass d' \<and> \<not> changing_rate d'" by auto
  have "d' = d \<and> e = PG2SDR_SUCCESS" if "\<not> changing_rate d" "\<not> changing_freq d" "\<not> changing_bandpass d"
    using run that d'(1) unfolding apply_changes_def with_dev_ok [OF config_inv_chk [OF inv]] by (simp add: stage_def)
  then show ?thesis using d' unfolding config_inv_def by auto
qed

theorem apply_changes_outcome_witness:
  "apply_changes accepting_env (Some undefined) (Some tuned_device) = Inr (Some tuned_device, PG2SDR_SUCCESS) \<and>
     settled_freq tuned_device"
proof -
  have i: "\<not> changing_rate tuned_device" "\<not> changing_freq tuned_device" "\<not> changing_bandpass tuned_device"
    by (simp_all add: tuned_device_def sample_device_def)
  then have run: "apply_changes accepting_env (Some undefined) (Some tuned_device) = Inr (Some tuned_device, PG2SDR_SUCCESS)"
    unfolding apply_changes_def with_dev_ok [OF config_inv_chk [OF tuned_device_inv [of undefined]]] by (simp add: stage_def)
  show ?thesis using apply_changes_outcome [OF tuned_device_inv run] run i by simp
qed

text \<open>Note: on a settled device in low-IF mode without undersampling, changing the sideband succeeds,
  and applying it then succeeds without any transfer to the device: the LO frequency does not depend on the
  sideband in this mode, so the PLL registers compare equal and the write of the sideband
  selection (the image rejection bit), which is part of the PLL's register update, is skipped.\<close>

theorem lowif_sideband_ignored:
  assumes inv: "config_inv tab d" and idle: "\<not> changing_rate d" "\<not> changing_freq d"
    and mode: "conv_mode d = MODE_LOWIF_REAL" "undersampling_mode d = 1" and sb: "sb \<noteq> sideband d"
  shows "\<exists>d'. set_sideband (Some d) (Some sb) = Inr (Some d', PG2SDR_SUCCESS) \<and>
    sideband d' = sb \<and> changing_freq d' \<and> usb d' = usb d \<and> apply_freq_change E d' = Inr (d', PG2SDR_SUCCESS)"
proof -
  define d' where "d' = d\<lparr>sideband := sb, changing_freq := True, changing_bandpass := True\<rparr>"
  have set: "set_sideband (Some d) (Some sb) = Inr (Some d', PG2SDR_SUCCESS)"
    using sb by (simp add: set_sideband_def with_dev_ok [OF config_inv_chk [OF inv]] d'_def)
  have lo: "lo_offset d = 0" "lo_offset d' = 0"
    using mode by (simp_all add: lo_offset_def undersampling_offset_def d'_def)
  then have t: "lo_target d' = lo_target d" by (simp add: lo_target_def d'_def)
  have s: "settled_freq d" using inv idle by (simp add: config_inv_def)
  have "apply_freq_change E d' = Inr (d', PG2SDR_SUCCESS)"
    using s unfolding settled_freq_def apply_freq_change_def t by (auto simp: d'_def)
  then show ?thesis using set by (simp add: d'_def)
qed

theorem lowif_sideband_ignored_witness:
  "\<exists>d'. set_sideband (Some tuned_device) (Some SIDEBAND_UPPER) = Inr (Some d', PG2SDR_SUCCESS) \<and>
    sideband d' = SIDEBAND_UPPER \<and> apply_freq_change accepting_env d' = Inr (d', PG2SDR_SUCCESS)"
  using lowif_sideband_ignored [OF tuned_device_inv [of undefined], of SIDEBAND_UPPER accepting_env]
  by (auto simp: tuned_device_def sample_device_def)

text \<open>Note: in baseband mode both decimation loops end, with at most 8 stages. An
  explicit setting gets the largest number of stages, up to the setting and 8, that keeps the ADC rate within its limit (or none). The
  automatic setting gets the smallest number such that the ADC rate exceeds the user rate by enough,
  or one more stage would exceed the limit.\<close>

theorem decimation_choice:
  assumes mode: "conv_mode d = MODE_BASEBAND" "-1 \<le> decimation_mode d"
    and double: "rd (requested_sample_rate d) = requested_sample_rate d"
  shows "\<exists>pd \<le> 8. choose_decimation d = Some (2 * 2 ^ pd, pd) \<and>
    (if 0 \<le> decimation_mode d
     then int pd \<le> decimation_mode d \<and>
       (pd = 0 \<or> requested_sample_rate d * 2 ^ (pd + 1) \<le> adc_limit d) \<and>
       (\<forall>q. pd < q \<and> q \<le> 8 \<and> int q \<le> decimation_mode d \<longrightarrow> adc_limit d < requested_sample_rate d * 2 ^ (q + 1))
     else
       (\<forall>q < pd. requested_sample_rate d * 2 ^ (q + 2) \<le> adc_limit d \<and>
          rd (requested_sample_rate d * 2 ^ q - requested_sample_rate d) < 500000) \<and>
       (pd = 8 \<or> adc_limit d < requested_sample_rate d * 2 ^ (pd + 2) \<or>
          500000 \<le> rd (requested_sample_rate d * 2 ^ pd - requested_sample_rate d)))"
proof -
  define r where "r = requested_sample_rate d"
  define l where "l = adc_limit d"
  have rr: "rd (r * of_nat (2 * 2 ^ q)) = r * 2 ^ (q + 1)" for q
    using rd_scale [of r "q + 1"] double by (simp add: r_def)
  show ?thesis
  proof (cases "0 \<le> decimation_mode d")
    case True
    define m where "m = (if int DECIMATION_MAX \<le> decimation_mode d then DECIMATION_MAX else nat (decimation_mode d))"
    define pd where "pd = limit_decimation r l m"
    have m: "m \<le> 8" "int m \<le> decimation_mode d" "\<And>q. q \<le> 8 \<Longrightarrow> int q \<le> decimation_mode d \<Longrightarrow> q \<le> m"
      using True by (auto simp: m_def DECIMATION_MAX_def)
    have c: "choose_decimation d = Some (2 * 2 ^ pd, pd)"
      using mode(1) True by (simp add: choose_decimation_def pd_def m_def r_def l_def Let_def)
    have p: "pd \<le> m" "pd = 0 \<or> r * 2 ^ (pd + 1) \<le> l" "\<forall>q. pd < q \<and> q \<le> m \<longrightarrow> l < r * 2 ^ (q + 1)"
      using limit_decimation_props [of r l m] unfolding pd_def [symmetric] rr by blast+
    show ?thesis
      unfolding r_def [symmetric] l_def [symmetric]
      by (rule exI [of _ pd], simp only: True if_True, intro conjI)
        (use c p m in \<open>auto simp only: intro: order_trans\<close>)
  next
    case False
    then have dm: "decimation_mode d = -1" using mode(2) by simp
    define pd where "pd = auto_decimation r l r 0"
    have c: "choose_decimation d = Some (2 * 2 ^ pd, pd)"
      using mode(1) dm by (simp add: choose_decimation_def pd_def r_def l_def Let_def)
    have p: "pd \<le> 8" "\<forall>q < pd. auto_wants_more r l q" "\<not> auto_wants_more r l pd"
      using auto_decimation_props [of r r 0 l] double unfolding pd_def [symmetric]
      by (simp_all add: r_def DECIMATION_MAX_def)
    show ?thesis
      unfolding r_def [symmetric] l_def [symmetric]
      by (rule exI [of _ pd], simp only: False if_False, intro conjI)
        (use c p in \<open>auto simp: auto_wants_more_def DECIMATION_MAX_def not_less not_le\<close>)
  qed
qed

theorem decimation_choice_witness:
  "\<exists>pd \<le> 8. choose_decimation (fresh_device\<lparr>requested_sample_rate := 2400000\<rparr>) = Some (2 * 2 ^ pd, pd)"
  using decimation_choice [of "fresh_device\<lparr>requested_sample_rate := 2400000\<rparr>"]
  by (auto simp: fresh_device_def sample_device_def)

text \<open>The clock that \<open>find_divisors\<close> settles on is within 11 millionths of its target, for the tolerance that the library asks for.\<close>

lemma adc_clock_error:
  assumes t: "1 \<le> target"
    and run: "adc_find_divisors tab target minimize fr no_pll (rd (1 / 10 ^ 5)) = Inr (PG2SDR_SUCCESS, Some c)"
  shows "\<bar>adc_actual_frequency c - target\<bar> \<le> target * (11 / 10 ^ 6)"
proof -
  define eps where "eps = rd (1 / 10 ^ 5)"
  have eps: "0 \<le> eps" "eps \<le> (1 + eps_d) * (1 / 10 ^ 5)" "\<not> eps \<le> 0"
    using dbl.rnd_upper [of "1 / 10 ^ 5"] dbl.rnd_pos [of "1 / 10 ^ 5"] by (simp_all add: eps_def dbl.rnd_nonneg)
  define thr where "thr = rd (target * eps)"
  obtain table where tab: "tab = Some table" "target \<le> 80000000"
    using run by (cases tab) (auto simp: adc_find_divisors_def not_less split: if_splits)
  have thr0: "0 \<le> thr" using t eps(1) by (simp add: thr_def dbl.rnd_nonneg)
  have "thr \<le> (1 + eps_d) * (target * eps)" unfolding thr_def by (rule dbl.rnd_upper) (use t eps(1) in simp)
  also have "\<dots> \<le> (1 + eps_d) * (target * ((1 + eps_d) * (1 / 10 ^ 5)))"
    using t eps(2) by (intro mult_left_mono) (simp_all add: eps_d_def)
  also have "\<dots> = target * ((1 + eps_d) * (1 + eps_d) * (1 / 10 ^ 5))" by simp
  also have "\<dots> \<le> target * (102 / 10 ^ 7)" using t by (intro mult_left_mono) (simp_all add: eps_d_def)
  finally have thr: "thr \<le> target * (102 / 10 ^ 7)" .
  have "rs thr \<le> (1 + eps_s) * thr" by (rule sgl.rnd_upper [OF thr0])
  also have "\<dots> \<le> (1 + eps_s) * (target * (102 / 10 ^ 7))" using thr by (intro mult_left_mono) (simp_all add: eps_s_def)
  also have "\<dots> = target * ((1 + eps_s) * (102 / 10 ^ 7))" by simp
  also have "\<dots> \<le> target * (105 / 10 ^ 7)" using t by (intro mult_left_mono) (simp_all add: eps_s_def)
  finally have rs: "rs thr \<le> target * (105 / 10 ^ 7)" .
  have le: "thr \<le> target * (105 / 10 ^ 7)" using thr t by simp
  have "\<bar>rd (adc_actual_frequency c - target)\<bar> \<le> target * (105 / 10 ^ 7)"
  proof -
    consider (direct) d where "c = no_pll_config target d" "adc_error c \<le> thr"
      | (pll) "search_pll table target minimize fr thr = Inr (PG2SDR_SUCCESS, Some c)"
    proof -
      have "adc_find_divisors tab target minimize fr no_pll eps = Inr (PG2SDR_SUCCESS, Some c)" using run by (simp only: eps_def)
      then show thesis using that tab eps(3) by (auto simp: adc_find_divisors_def thr_def Let_def run_bind_Inr_iff split: if_splits)
    qed
    then show ?thesis
    proof cases
      case direct
      then show ?thesis using le by (simp add: no_pll_config_def Let_def)
    next
      case pll
      then have "adc.scan minimize (rs thr) None (all_adc_candidates table target fr) = Some c"
        using search_pll_scan [OF t, of table minimize fr thr] by (auto split: option.splits)
      then have c: "adc_acceptable (rs thr) c" "c \<in> set (all_adc_candidates table target fr)"
        using adc.scan_best [OF all_adc_candidates_sound] by blast+
      then obtain s where "c \<in> set (adc_candidates table target fr s)" by (auto simp: all_adc_candidates_def)
      then have "adc_error c = \<bar>rd (adc_actual_frequency c - target)\<bar>" by (rule in_adc_candidates(9))
      then show ?thesis using c(1) rs by (simp add: adc_acceptable_def)
    qed
  qed
  moreover have "\<bar>adc_actual_frequency c - target\<bar> * (1 - eps_d) \<le> \<bar>rd (adc_actual_frequency c - target)\<bar>"
    using dbl.rnd_error [of "adc_actual_frequency c - target"] by (simp add: algebra_simps)
  ultimately have "\<bar>adc_actual_frequency c - target\<bar> * (1 - eps_d) \<le> target * (105 / 10 ^ 7)" by linarith
  then have "\<bar>adc_actual_frequency c - target\<bar> \<le> target * (105 / 10 ^ 7) / (1 - eps_d)"
    by (simp add: pos_le_divide_eq eps_d_def)
  also have "\<dots> = target * ((105 / 10 ^ 7) / (1 - eps_d))" by simp
  also have "\<dots> \<le> target * (11 / 10 ^ 6)" using t by (intro mult_left_mono) (simp_all add: eps_d_def)
  finally show ?thesis .
qed

text \<open>C34: when a rate change is applied to a device that is not streaming, with a requested rate above 1000, blocks of at least one
  sample and at most two bytes per sample, and a buffer below 2 ^ 22 samples (from 2 ^ 31 ADC samples on the sizes wrap,
  config.c:614), a failure changes nothing. On success the target of the ADC clock is the user rate times the decimation, not
  above the limit, and the clock that is set is within 11 millionths of the target, so it exceeds the limit by at
  most that; a USB transfer is a whole number of blocks of at most 2 MiB whose samples fit the user's buffer (the assertion of
  the stream dispatcher), and at least one block if one fits the buffer.\<close>

theorem rate_change_effect:
  assumes idle: "\<not> streaming d" and rate: "1000 < requested_sample_rate d"
    and blocks: "0 < usb_samples_per_block d" "unat (usb_bytes_per_block d) \<le> 2 * unat (usb_samples_per_block d)"
    and buffer: "unat (buffer_size d) < 2 ^ 22"
    and run: "apply_rate_change tab d = Inr (d', e)"
  shows "e < 0 \<and> d' = d \<or>
    (\<exists>aspu pd n. e = PG2SDR_SUCCESS \<and> choose_decimation d = Some (aspu, pd) \<and>
       rd (requested_sample_rate d * of_nat aspu) \<le> adc_limit d \<and>
       adc_find_divisors tab (rd (requested_sample_rate d * of_nat aspu)) False True (0x00090600 \<le> fw_version d)
         (rd (1 / 10 ^ 5)) = Inr (PG2SDR_SUCCESS, Some (adc_config d')) \<and>
       \<bar>adc_actual_frequency (adc_config d') - rd (requested_sample_rate d * of_nat aspu)\<bar>
         \<le> rd (requested_sample_rate d * of_nat aspu) * (11 / 10 ^ 6) \<and>
       adc_actual_frequency (adc_config d') \<le> adc_limit d * (1 + 11 / 10 ^ 6) \<and>
       unat (adc_samples_per_user_sample d') = aspu \<and> post_decimation d' = pd \<and>
       unat (usb_transfer_size d') = n * unat (usb_bytes_per_block d) \<and> unat (usb_transfer_size d') \<le> 2 * 1024 * 1024 \<and>
       unat (adc_samples_per_transfer d') = n * unat (usb_samples_per_block d) \<and>
       unat (adc_samples_per_transfer d') \<le> unat (buffer_size d) * aspu \<and>
       (unat (usb_samples_per_block d) \<le> unat (buffer_size d) * aspu \<and> unat (usb_bytes_per_block d) \<le> 2 * 1024 * 1024
          \<longrightarrow> 0 < n))"
proof -
  have nz: "requested_sample_rate d \<noteq> 0" using rate by simp
  from rate_settings_total [OF rate blocks(1), of tab]
  consider (err) e' where "rate_settings tab d = Inr (e', None)" "e' < 0"
    | (ok) c b s a p where "rate_settings tab d = Inr (PG2SDR_SUCCESS, Some (c, b, s, a, p))" by fastforce
  then show ?thesis
  proof cases
    case err
    then show ?thesis using run idle nz by (auto simp: apply_rate_change_def)
  next
    case ok
    then have e: "e = PG2SDR_SUCCESS" and d': "d' = d\<lparr>adc_config := c, usb_transfer_size := b, adc_samples_per_transfer := s,
        adc_samples_per_user_sample := a, post_decimation := p\<rparr>"
      using run idle nz by (simp_all add: apply_rate_change_def)
    obtain aspu pd where ch: "choose_decimation d = Some (aspu, pd)"
      using ok by (cases "choose_decimation d") (auto simp: rate_settings_def)
    note sh = choose_decimation_shape [OF ch]
    define target where "target = rd (requested_sample_rate d * of_nat aspu)"
    have t1: "1 \<le> target"
    proof -
      have "1 \<le> requested_sample_rate d * of_nat aspu"
        using rate sh mult_mono [of 1 "requested_sample_rate d" 1 "of_nat aspu"] by simp
      then show ?thesis using rd_ge [of 1] by (simp add: target_def)
    qed
    have r: "target \<le> adc_limit d" "a = of_nat aspu" "p = pd"
        "adc_find_divisors tab target False True (0x00090600 \<le> fw_version d) (rd (1 / 10 ^ 5)) = Inr (PG2SDR_SUCCESS, Some c)"
        "transfer_sizes (buffer_size d) (of_nat aspu) (usb_samples_per_block d) (usb_bytes_per_block d) = Inr (b, s)"
    proof -
      from adc_find_divisors_total [OF t1, of tab False True "0x00090600 \<le> fw_version d" "rd (1 / 10 ^ 5)"]
      obtain e1 r1 where f: "adc_find_divisors tab target False True (0x00090600 \<le> fw_version d) (rd (1 / 10 ^ 5)) = Inr (e1, r1)"
        "e1 < 0 \<and> r1 = None \<or> e1 = PG2SDR_SUCCESS \<and> (\<exists>c. r1 = Some c \<and> adc_valid c)" by blast
      have "target \<le> adc_limit d \<and> a = of_nat aspu \<and> p = pd \<and> e1 = PG2SDR_SUCCESS \<and> r1 = Some c \<and>
        transfer_sizes (buffer_size d) (of_nat aspu) (usb_samples_per_block d) (usb_bytes_per_block d) = Inr (b, s)"
        using ok f(2) unfolding rate_settings_def ch option.case prod.case target_def [symmetric] Let_def f(1) run_bind_simps
        by (auto simp: run_bind_Inr_iff split: if_splits)
      then show "target \<le> adc_limit d" "a = of_nat aspu" "p = pd"
        "adc_find_divisors tab target False True (0x00090600 \<le> fw_version d) (rd (1 / 10 ^ 5)) = Inr (PG2SDR_SUCCESS, Some c)"
        "transfer_sizes (buffer_size d) (of_nat aspu) (usb_samples_per_block d) (usb_bytes_per_block d) = Inr (b, s)"
        using f(1) by simp_all
    qed
    have wrap: "unat (buffer_size d) * aspu < 2 ^ 31"
    proof -
      have "unat (buffer_size d) * aspu \<le> unat (buffer_size d) * 512" using sh by simp
      also have "... < 2 ^ 31" using buffer by simp
      finally show ?thesis .
    qed
    have un: "unat (of_nat aspu :: u32) = aspu" using sh by (intro unat_of_nat_small) simp
    have aspu: "aspu < 2 ^ 31" using sh by simp
    from transfer_sizes_ok [OF blocks(1) wrap blocks(2) aspu] obtain n bb ss
      where t: "transfer_sizes (buffer_size d) (of_nat aspu) (usb_samples_per_block d) (usb_bytes_per_block d) = Inr (bb, ss)"
        "unat bb = n * unat (usb_bytes_per_block d)" "unat ss = n * unat (usb_samples_per_block d)"
        "unat bb \<le> 2 * 1024 * 1024" "unat ss \<le> unat (buffer_size d) * aspu"
        "unat (usb_samples_per_block d) \<le> unat (buffer_size d) * aspu \<and> unat (usb_bytes_per_block d) \<le> 2 * 1024 * 1024
          \<longrightarrow> 0 < n" by blast
    have "bb = b" "ss = s" using t(1) r(5) by simp_all
    note t = t(2-6) [unfolded this]
    have clock: "\<bar>adc_actual_frequency c - target\<bar> \<le> target * (11 / 10 ^ 6)" by (rule adc_clock_error [OF t1 r(4)])
    then have "adc_actual_frequency c - target \<le> target * (11 / 10 ^ 6)" by (rule order_trans [OF abs_ge_self])
    then have "adc_actual_frequency c \<le> target * (1 + 11 / 10 ^ 6)" by (simp add: algebra_simps)
    also have "\<dots> \<le> adc_limit d * (1 + 11 / 10 ^ 6)" using r(1) by (intro mult_right_mono) simp_all
    finally have limit: "adc_actual_frequency c \<le> adc_limit d * (1 + 11 / 10 ^ 6)" .
    show ?thesis
      using t e d' ch r un clock limit unfolding target_def by (intro disjI2 exI [of _ aspu] exI [of _ pd] exI [of _ n]) simp
  qed
qed

theorem rate_change_effect_witness:
  "\<exists>d'. apply_rate_change (Some undefined) tuned_device = Inr (d', PG2SDR_SUCCESS) \<and>
     unat (usb_transfer_size d') \<le> 2 * 1024 * 1024"
proof -
  have d: "\<not> streaming tuned_device" "1000 < requested_sample_rate tuned_device" "0 < usb_samples_per_block tuned_device"
    "unat (usb_bytes_per_block tuned_device) \<le> 2 * unat (usb_samples_per_block tuned_device)"
    "unat (buffer_size tuned_device) < 2 ^ 22"
    by (simp_all add: tuned_device_def sample_device_def)
  have "apply_rate_change (Some undefined) tuned_device = Inr (tuned_device, PG2SDR_SUCCESS)"
    using d(1,2) by (simp add: apply_rate_change_def tuned_device_rate) (simp add: tuned_device_def)
  then show ?thesis using rate_change_effect [OF d, of "Some undefined" tuned_device PG2SDR_SUCCESS] by auto
qed

text \<open>Note: with a user buffer of 2 ^ 31 samples, which \<open>pg2sdr_set_buffer_size\<close>
  accepts, the count of ADC samples of a baseband transfer wraps to zero, and both transfer sizes with it.\<close>

theorem transfer_size_wraps:
  "set_buffer_size (Some fresh_device) 2147483648 = Inr (Some (fresh_device\<lparr>buffer_size := 2147483648, changing_rate := True\<rparr>), PG2SDR_SUCCESS) \<and>
   transfer_sizes 2147483648 2 320 512 = Inr (0, 0)"
  by (simp add: set_buffer_size_def with_dev_ok [OF config_inv_chk [OF fresh_device_inv]] transfer_sizes_def MAX_USB_TRANSFER_def)
    (simp add: fresh_device_def sample_device_def)

end
