(* ===== verification/StreamProps.thy ===== *)
theory StreamProps
  imports StreamFacts ConfigProps
begin

section \<open>What the user's callback receives\<close>

text \<open>
  The invariant of the conversion state, the counts and timestamps of the buffers, and the ranges of blocks a
  transfer is divided into.
\<close>

subsection \<open>Conversion\<close>

definition conv_ok :: "'u device \<Rightarrow> stream_state \<Rightarrow> nat \<Rightarrow> bool" where
  "conv_ok d s T \<longleftrightarrow>
    (case conv_mode d of
       MODE_LOWIF_REAL \<Rightarrow> unat (adc_samples_per_user_sample d) = 1
     | MODE_BASEBAND \<Rightarrow>
         unat (adc_samples_per_user_sample d) = 2 * 2 ^ post_decimation d \<and>
         length (post_decimators s) = post_decimation d \<and> chain_ok (post_decimators s) (T div 2) \<and>
         (\<exists>dc. downconverter s = Some dc \<and> stage_ok (dc_decimate dc) T \<and>
            unat (adc_samples_per_transfer d) \<le> dc_max_in_length dc))"

definition stream_ok :: "block_format \<Rightarrow> 'u device \<Rightarrow> stream_state \<Rightarrow> nat \<Rightarrow> bool" where
  "stream_ok F d s T \<longleftrightarrow> format_ok F d \<and> conv_ok d s T \<and>
     unat (partial_samples s) = T mod unat (adc_samples_per_user_sample d)"

lemma conv_ok_update [simp]:
  "conv_ok d (s\<lparr>partial_samples := p\<rparr>) T = conv_ok d s T" "conv_ok d (s\<lparr>draining := b\<rparr>) T = conv_ok d s T"
  by (cases "conv_mode d"; simp add: conv_ok_def)+

lemma conv_ok_pos: "conv_ok d s T \<Longrightarrow> 0 < unat (adc_samples_per_user_sample d)"
  by (auto simp: conv_ok_def split: conversion_mode.splits)

lemma window_count:
  assumes "0 < A" "n \<le> B * A"
  shows "(T + n) div A - T div A \<le> (B :: nat)"
proof -
  have "(T + n) div A \<le> (T + B * A) div A" using assms(2) by (intro div_le_mono) simp
  then show ?thesis using assms(1) by simp
qed

lemma convert_ok:
  assumes f: "format_ok F d" and c: "conv_ok d s T" and data: "n * unat (usb_bytes_per_block d) \<le> length data"
    and N: "N = n * unat (usb_samples_per_block d)" "N \<le> unat (adc_samples_per_transfer d)"
    and room: "N \<le> unat (buffer_size d) * unat (adc_samples_per_user_sample d)"
  shows "\<exists>s' xs. convert_adc_blocks F d s data (n * unat (usb_bytes_per_block d)) = Inr (s', xs) \<and>
    sample_count xs = (T + N) div unat (adc_samples_per_user_sample d) - T div unat (adc_samples_per_user_sample d) \<and>
    conv_ok d s' (T + N) \<and> partial_samples s' = partial_samples s \<and> draining s' = draining s"
proof -
  define A where "A = unat (adc_samples_per_user_sample d)"
  define B where "B = unat (buffer_size d)"
  have A: "0 < A" using conv_ok_pos [OF c] by (simp add: A_def)
  have bpb: "usb_bytes_per_block d \<noteq> 0" using f by (auto simp: format_ok_def)
  have dv: "8 dvd N" using f N(1) by (simp add: format_ok_def)
  have fit: "(T + N) div A - T div A \<le> B" using window_count [OF A] room by (simp add: A_def B_def)
  show ?thesis
  proof (cases "conv_mode d")
    case MODE_LOWIF_REAL
    from unpack_blocks_ok [OF f data, of False] obtain xs
      where xs: "unpack_blocks F d False data (n * unat (usb_bytes_per_block d)) = Inr xs" "length xs = N" by (auto simp: N)
    have "A = 1" using c MODE_LOWIF_REAL by (simp add: conv_ok_def A_def)
    then show ?thesis
      using xs bpb fit c MODE_LOWIF_REAL by (simp add: convert_adc_blocks_def conv_ok_def A_def [symmetric] B_def [symmetric])
  next
    case MODE_BASEBAND
    from unpack_blocks_ok [OF f data, of "inverted_spectrum d"] obtain xs
      where xs: "unpack_blocks F d (inverted_spectrum d) data (n * unat (usb_bytes_per_block d)) = Inr xs" "length xs = N"
      by (auto simp: N)
    obtain dc where dc: "downconverter s = Some dc" "stage_ok (dc_decimate dc) T"
        "unat (adc_samples_per_transfer d) \<le> dc_max_in_length dc"
      and fs: "length (post_decimators s) = post_decimation d" "chain_ok (post_decimators s) (T div 2)"
      and AA: "A = 2 * 2 ^ post_decimation d"
      using c MODE_BASEBAND by (auto simp: conv_ok_def A_def)
    have d4: "4 dvd length xs" using dv xs(2) by (simp add: dvd_trans [of 4 8])
    have le: "length xs \<le> dc_max_in_length dc" using dc(3) N(2) xs(2) by simp
    from downconvert_counts [OF dc(2) d4 le] obtain dc' zs
      where p: "downconvert_process dc xs = Inr (dc', zs)" "stage_ok (dc_decimate dc') (T + N)"
        "dc_max_in_length dc' = dc_max_in_length dc" "length zs = (T + N) div 2 - T div 2" by (auto simp: xs(2))
    have s2: "T div 2 + length zs = (T + N) div 2" using p(4) div_le_mono [of T "T + N" 2] by simp
    obtain m where m: "N = 8 * m" using dv by blast
    have "(T + N) div 2 = T div 2 + 4 * m" unfolding m by simp
    then have "length zs = 4 * m" using p(4) by simp
    then have "2 * length zs \<le> unat (adc_samples_per_transfer d)" using m N(2) by simp
    from chain_process [OF fs(2) this] obtain fs' out
      where q: "decimate_chain (unat (adc_samples_per_transfer d)) (post_decimators s) zs = Inr (fs', out)"
        "chain_ok fs' ((T + N) div 2)" "length fs' = length (post_decimators s)"
        "length out = (T + N) div 2 div 2 ^ length (post_decimators s) - T div 2 div 2 ^ length (post_decimators s)"
      by (auto simp: s2)
    have out: "length out = (T + N) div A - T div A" unfolding q(4) AA fs(1) by (simp only: div_mult2_eq)
    define s' where "s' = s\<lparr>downconverter := Some dc', post_decimators := fs'\<rparr>"
    have "convert_adc_blocks F d s data (n * unat (usb_bytes_per_block d)) = Inr (s', Complex_samples out)"
      using MODE_BASEBAND bpb xs N(2) dc(1) fs(1) p(1) q(1) fit out
      by (simp add: convert_adc_blocks_def s'_def B_def [symmetric])
    moreover have "conv_ok d s' (T + N)"
      using MODE_BASEBAND q(2,3) fs(1) p(2,3) dc(3) AA by (simp add: conv_ok_def s'_def A_def [symmetric])
    ultimately show ?thesis using out by (simp add: s'_def A_def)
  qed
qed

subsection \<open>Dispatching a contiguous range\<close>

lemma floor_timestamp: "(S + T - T mod A) div A = S div A + T div (A :: nat)" if "0 < A"
proof -
  have "S + T - T mod A = S + T div A * A" by (simp add: minus_mod_eq_div_mult [symmetric])
  then show ?thesis using that by simp
qed

text \<open>C3: let a stream have converted T ADC samples (the conversion state in its invariant, no overrun since the
  first block, whose first sample has number S) and the next blocks be contiguous, with at most as many
  samples as a transfer and the user's buffer hold, and let the number of their first ADC sample, S + T, be below 2 ^ 32 (at 2 ^ 32, within minutes, the
  32-bit product of stream.c:218 wraps and the timestamps go back). Then, whatever their contents, dispatching them
  does not fault, and calls the callback once, with as many user samples as the ADC samples so far make up whole ones, and
  with a timestamp of S divided by the decimation plus the number of user samples delivered before: buffers follow
  each other without a gap or an overlap, however many partial samples the filters hold back. The invariant holds for what follows.\<close>

theorem dispatch_contiguous_exact:
  assumes inv: "stream_ok F d s T" and data: "n * unat (usb_bytes_per_block d) \<le> length data"
    and N: "N = n * unat (usb_samples_per_block d)" "N \<le> unat (adc_samples_per_transfer d)" "N < 2 ^ 31"
    and room: "N \<le> unat (buffer_size d) * unat (adc_samples_per_user_sample d)"
    and A: "A = unat (adc_samples_per_user_sample d)" "A \<le> 512"
    and sequence: "unat (h_sequence (unpack_header F data)) * unat (usb_samples_per_block d) = S + T" "S + T < 2 ^ 32"
  shows "\<exists>b s' c' release stop.
    sb_count b = (T + N) div A - T div A \<and> unat (sb_timestamp b) = S div A + T div A \<and>
    sample_count (sb_samples b) = sb_count b \<and> sb_count b \<le> unat (buffer_size d) \<and>
    callback c b = (c', release, stop) \<and> stream_ok F d s' (T + N) \<and> draining s' = (stop \<or> draining s) \<and>
    dispatch_contiguous_blocks F d True callback data (n * unat (usb_bytes_per_block d)) (s, c) = Inr (s', c')"
proof -
  have f: "format_ok F d" and cv: "conv_ok d s T" and pt: "unat (partial_samples s) = T mod A"
    using inv A(1) by (simp_all add: stream_ok_def)
  have Apos: "0 < A" "adc_samples_per_user_sample d \<noteq> 0" using conv_ok_pos [OF cv] by (auto simp: A(1))
  have bpb: "usb_bytes_per_block d \<noteq> 0" "0 < unat (usb_bytes_per_block d)" using f by (auto simp: format_ok_def)
  define adc where "adc = (of_nat (n * unat (usb_bytes_per_block d) div unat (usb_bytes_per_block d) * unat (usb_samples_per_block d)) :: u32)"
  have adc: "unat adc = N" unfolding adc_def using bpb N by (simp add: unat_of_nat_small del: unat_of_nat of_nat_mult)
  have us: "unat (adc div adc_samples_per_user_sample d) = N div A" by (simp add: unat_div adc A(1))
  have "N div A \<le> unat (buffer_size d)" using room window_count [of A N "unat (buffer_size d)" 0] Apos by (simp add: A(1))
  then have us_le: "\<not> unat (buffer_size d) < unat (adc div adc_samples_per_user_sample d)" by (simp add: us)
  obtain s1 xs where cnv: "convert_adc_blocks F d s data (n * unat (usb_bytes_per_block d)) = Inr (s1, xs)"
      "sample_count xs = (T + N) div A - T div A" "conv_ok d s1 (T + N)" "partial_samples s1 = partial_samples s" "draining s1 = draining s"
    using convert_ok [OF f cv data N(1,2) room] by (auto simp: A(1))
  define ts where "ts = block_timestamp (h_sequence (unpack_header F data)) (usb_samples_per_block d) (partial_samples s1)
      (adc_samples_per_user_sample d)"
  define b where "b = \<lparr>sb_mode = conv_mode d, sb_samples = xs, sb_count = sample_count xs, sb_timestamp = ts\<rparr>"
  define s2 where "s2 = s1\<lparr>partial_samples := (partial_samples s1 + adc) mod adc_samples_per_user_sample d\<rparr>"
  obtain c' release stop where cb: "callback c b = (c', release, stop)" by (cases "callback c b")
  have run: "dispatch_contiguous_blocks F d True callback data (n * unat (usb_bytes_per_block d)) (s, c) =
      Inr (if stop then s2\<lparr>draining := True\<rparr> else s2, c')"
    using bpb Apos us_le cb cnv(1) unfolding dispatch_contiguous_blocks_def prod.case Let_def adc_def [symmetric]
    by (simp add: get_buffer_def ts_def [symmetric] b_def [symmetric] s2_def)
  have "unat ts = S div A + T div A"
  proof -
    have "unat (h_sequence (unpack_header F data) * usb_samples_per_block d) = S + T"
      using sequence by (simp add: unat_word_ariths)
    moreover have "T mod A \<le> S + T" using mod_le_divisor order_trans by (metis le_add2 mod_less_eq_dividend)
    ultimately have "unat (h_sequence (unpack_header F data) * usb_samples_per_block d - partial_samples s) = S + T - T mod A"
      using pt by (simp add: unat_sub word_le_nat_alt)
    then have "unat ((h_sequence (unpack_header F data) * usb_samples_per_block d - partial_samples s) div adc_samples_per_user_sample d) =
        S div A + T div A"
      unfolding unat_div A(1) [symmetric] using floor_timestamp [OF Apos(1), of S T] by simp
    moreover have "unat (ucast (w :: u32) :: u64) = unat w" for w
      by (simp add: unsigned_ucast_eq take_bit_nat_eq_self unsigned_less [THEN order_less_trans])
    ultimately show ?thesis unfolding ts_def block_timestamp_def cnv(4) by simp
  qed
  moreover have "sb_count b \<le> unat (buffer_size d)"
    using window_count [OF Apos(1) room [folded A(1)], of T] by (simp add: b_def cnv(2))
  moreover have "stream_ok F d s2 (T + N)"
  proof -
    have "unat (partial_samples s + adc) = T mod A + N"
    proof -
      have "T mod A < A" using Apos(1) by simp
      then have "T mod A + N < 2 ^ 32" using A(2) N(3) by simp
      then show ?thesis by (simp add: unat_word_ariths pt adc)
    qed
    then have "unat (partial_samples s2) = (T + N) mod A"
      by (simp add: s2_def cnv(4) unat_mod A(1) [symmetric] mod_add_left_eq)
    moreover have "conv_ok d s2 (T + N)" using cnv(3) by (simp add: s2_def)
    ultimately show ?thesis using f by (simp add: stream_ok_def A(1))
  qed
  ultimately show ?thesis
    unfolding run using cb cnv(2,5)
    by (intro exI [of _ b] exI [of _ "if stop then s2\<lparr>draining := True\<rparr> else s2"] exI [of _ c'] exI [of _ release] exI [of _ stop])
      (auto simp: b_def s2_def stream_ok_def)
qed

definition sample_format :: block_format where
  "sample_format = \<lparr>header_size = 20, off_magic = 0, off_block_len = 4, off_samples = 8, off_sequence = 12, off_status = 16,
     BLOCK_MAGIC = 0\<rparr>"

definition idle_state :: stream_state where
  "idle_state = \<lparr>downconverter = None, post_decimators = [], partial_samples = 0, draining = False\<rparr>"

lemma idle_stream_ok: "stream_ok sample_format tuned_device idle_state 0"
  by (simp add: stream_ok_def format_ok_def conv_ok_def sample_format_def idle_state_def tuned_device_def sample_device_def)

theorem dispatch_contiguous_exact_witness:
  "\<exists>b s'. dispatch_contiguous_blocks sample_format tuned_device True (\<lambda>c b. (c @ [b], True, False)) (replicate 512 0) 512 (idle_state, [])
      = Inr (s', [b]) \<and> sb_count b = 320 \<and> unat (sb_timestamp b) = 0"
proof -
  have d: "unat (usb_bytes_per_block tuned_device) = 512" "unat (usb_samples_per_block tuned_device) = 320"
    "unat (adc_samples_per_transfer tuned_device) = 65280" "unat (buffer_size tuned_device) = 65536"
    "unat (adc_samples_per_user_sample tuned_device) = 1"
    by (simp_all add: tuned_device_def sample_device_def)
  have "replicate 4 (0 :: u8) = [0, 0, 0, 0]" by (simp add: numeral_eq_Suc)
  then have h: "h_sequence (unpack_header sample_format (replicate 512 0)) = 0"
    by (simp add: unpack_header_def sample_format_def le_at_def le_word_def)
  show ?thesis
    using dispatch_contiguous_exact [OF idle_stream_ok, where n = 1 and N = 320 and A = 1 and S = 0 and data = "replicate 512 0"
        and callback = "\<lambda>c b. (c @ [b], True, False)" and c = "[]"]
    by (fastforce simp: d h)
qed

subsection \<open>Timestamps wrap\<close>

text \<open>Note: the timestamp is computed in 32 bits although it is stored and documented as a 64-bit
  cumulative count of samples: with 320 samples per block and decimation 2, the block with sequence number
  13421773, about two minutes into a stream of 40 million ADC samples per second, has a smaller timestamp than the one before it.\<close>

theorem timestamp_goes_back:
  "block_timestamp 13421772 320 0 2 = 2147483520 \<and> block_timestamp (13421772 + 1) 320 0 2 = 32"
  by (simp add: block_timestamp_def)

subsection \<open>The ranges of a transfer\<close>

definition block_seq :: "block_format \<Rightarrow> 'u device \<Rightarrow> u8 list \<Rightarrow> nat \<Rightarrow> u32" where
  "block_seq F d data k = h_sequence (unpack_header F (drop (k * unat (usb_bytes_per_block d)) data))"

definition block_valid :: "block_format \<Rightarrow> 'u device \<Rightarrow> u8 list \<Rightarrow> nat \<Rightarrow> bool" where
  "block_valid F d data k = valid_header F d (unpack_header F (drop (k * unat (usb_bytes_per_block d)) data))"

definition gaps :: "block_format \<Rightarrow> 'u device \<Rightarrow> u8 list \<Rightarrow> nat \<Rightarrow> nat \<Rightarrow> nat list" where
  "gaps F d data j m = filter (\<lambda>k. 0 < k \<and> block_seq F d data k \<noteq> block_seq F d data (k - 1) + 1) [j..<m]"

definition dispatch_ranges ::
  "'u device \<Rightarrow> (u8 list \<Rightarrow> nat \<Rightarrow> 's \<Rightarrow> 's run) \<Rightarrow> u8 list \<Rightarrow> (nat \<times> nat) list \<Rightarrow> 's \<Rightarrow> 's run" where
  "dispatch_ranges d dispatch data ranges sc =
    run_foldl (\<lambda>sc (a, b). dispatch (drop (a * unat (usb_bytes_per_block d)) data) ((b - a) * unat (usb_bytes_per_block d)) sc) sc ranges"

lemma scan_prefix:
  assumes bpb: "0 < unat (usb_bytes_per_block d)" and valid: "\<forall>i. j \<le> i \<and> i < m \<longrightarrow> block_valid F d data i" and jm: "j \<le> m"
    and e: "0 < j \<Longrightarrow> expected = block_seq F d data (j - 1) + 1"
  shows "scan_blocks F d dispatch data (a * unat (usb_bytes_per_block d)) expected
      (map (\<lambda>k. k * unat (usb_bytes_per_block d)) [j..<m] @ offs) sc =
    run_bind (dispatch_ranges d dispatch data (zip (a # gaps F d data j m) (gaps F d data j m)) sc)
      (scan_blocks F d dispatch data (last (a # gaps F d data j m) * unat (usb_bytes_per_block d))
        (if j < m then block_seq F d data (m - 1) + 1 else expected) offs)"
  using jm valid e
proof (induction "m - j" arbitrary: j a expected sc)
  case 0
  then show ?case by (simp add: gaps_def dispatch_ranges_def)
next
  case (Suc x)
  define bpb where "bpb = unat (usb_bytes_per_block d)"
  have lt: "j < m" using Suc.hyps(2) by simp
  then have up: "[j..<m] = j # [Suc j..<m]" by (rule upt_conv_Cons)
  have v: "valid_header F d (unpack_header F (drop (j * bpb) data))"
    using Suc.prems(2) lt by (simp add: block_valid_def bpb_def)
  have sq: "h_sequence (unpack_header F (drop (j * bpb) data)) = block_seq F d data j"
    by (simp add: block_seq_def bpb_def)
  note IH = Suc.hyps(1) [of "Suc j", folded bpb_def]
  have end_seq: "(if Suc j < m then block_seq F d data (m - 1) + 1 else block_seq F d data j + 1) = block_seq F d data (m - 1) + 1"
    using lt by (cases "Suc j < m") (auto simp: not_less le_Suc_eq dest: le_antisym)
  show ?case
  proof (cases "0 < j \<and> block_seq F d data j \<noteq> block_seq F d data (j - 1) + 1")
    case True
    have g: "gaps F d data j m = j # gaps F d data (Suc j) m" using True by (simp add: gaps_def up)
    have diff: "j * bpb - a * bpb = (j - a) * bpb" by (simp add: diff_mult_distrib)
    have step: "scan_blocks F d dispatch data (a * bpb) expected (map (\<lambda>k. k * bpb) [j..<m] @ offs) sc =
        run_bind (dispatch (drop (a * bpb) data) ((j - a) * bpb) sc)
          (scan_blocks F d dispatch data (j * bpb) (block_seq F d data j + 1) (map (\<lambda>k. k * bpb) [Suc j..<m] @ offs))"
      using True v Suc.prems(3) assms(1) unfolding up
      by (simp add: sq bpb_def [symmetric] diff [symmetric] Let_def)
    show ?thesis
    proof (cases "dispatch (drop (a * bpb) data) ((j - a) * bpb) sc")
      case (Inl f)
      then show ?thesis unfolding bpb_def [symmetric] step g by (simp add: dispatch_ranges_def bpb_def)
    next
      case (Inr sc')
      have "scan_blocks F d dispatch data (j * bpb) (block_seq F d data j + 1) (map (\<lambda>k. k * bpb) [Suc j..<m] @ offs) sc' =
        run_bind (dispatch_ranges d dispatch data (zip (j # gaps F d data (Suc j) m) (gaps F d data (Suc j) m)) sc')
          (scan_blocks F d dispatch data (last (j # gaps F d data (Suc j) m) * bpb)
            (if Suc j < m then block_seq F d data (m - 1) + 1 else block_seq F d data j + 1) offs)"
        by (rule IH) (use Suc lt in auto)
      then show ?thesis unfolding bpb_def [symmetric] step g Inr run_bind_simps end_seq using Inr lt
        by (simp add: dispatch_ranges_def bpb_def)
    qed
  next
    case False
    have g: "gaps F d data j m = gaps F d data (Suc j) m" using False by (simp add: gaps_def up)
    have "scan_blocks F d dispatch data (a * bpb) expected (map (\<lambda>k. k * bpb) [j..<m] @ offs) sc =
        scan_blocks F d dispatch data (a * bpb) (block_seq F d data j + 1) (map (\<lambda>k. k * bpb) [Suc j..<m] @ offs) sc"
      using False v Suc.prems(3) assms(1) unfolding up by (auto simp: sq bpb_def [symmetric] Let_def)
    also have "... = run_bind (dispatch_ranges d dispatch data (zip (a # gaps F d data (Suc j) m) (gaps F d data (Suc j) m)) sc)
          (scan_blocks F d dispatch data (last (a # gaps F d data (Suc j) m) * bpb)
            (if Suc j < m then block_seq F d data (m - 1) + 1 else block_seq F d data j + 1) offs)"
      by (rule IH) (use Suc lt in auto)
    finally show ?thesis unfolding bpb_def [symmetric] g end_seq using lt by simp
  qed
qed

lemma zip_last: "zip (a # xs) (xs @ [n]) = zip (a # xs) xs @ [(last (a # xs), n)]"
  by (induction xs arbitrary: a) simp_all

text \<open>C4: the blocks of a transfer are handed over in ranges that begin and end exactly where the sequence numbers
  are not consecutive: together they are all the blocks, in order. When a header is invalid the transfer is
  rejected with TRANSFER_FORMAT; the ranges completed before that block have been dispatched, the range
  it interrupts has not.\<close>

theorem dispatch_transfer_ranges:
  assumes bpb: "0 < unat (usb_bytes_per_block d)" and len: "length data = n * unat (usb_bytes_per_block d)"
    and m: "m \<le> n" "\<forall>i < m. block_valid F d data i" "m < n \<longrightarrow> \<not> block_valid F d data m"
  shows "dispatch_transfer F d alloc_ok callback data sc =
    (if m = n
     then run_bind (dispatch_ranges d (dispatch_contiguous_blocks F d alloc_ok callback) data
            (zip (0 # gaps F d data 0 n) (gaps F d data 0 n @ [n])) sc) (\<lambda>sc. Inr (sc, PG2SDR_SUCCESS))
     else run_bind (dispatch_ranges d (dispatch_contiguous_blocks F d alloc_ok callback) data
            (zip (0 # gaps F d data 0 m) (gaps F d data 0 m)) sc) (\<lambda>sc. Inr (sc, PG2SDR_ERROR_TRANSFER_FORMAT)))"
proof -
  define D where "D = dispatch_contiguous_blocks F d alloc_ok callback"
  define G where "G = gaps F d data 0 m"
  define b where "b = unat (usb_bytes_per_block d)"
  have b0: "0 < b" "usb_bytes_per_block d \<noteq> 0" using bpb by (auto simp: b_def)
  have offs: "block_offsets b (length data) = map (\<lambda>k. k * b) [0..<m] @ map (\<lambda>k. k * b) [m..<n]"
    using b0 len m(1) upt_add_eq_append [of 0 m "n - m"] by (simp add: block_offsets_def b_def)
  have start: "dispatch_transfer F d alloc_ok callback data sc =
      scan_blocks F d D data (0 * b) 0 (map (\<lambda>k. k * b) [0..<m] @ map (\<lambda>k. k * b) [m..<n]) sc"
    using b0(2) len offs by (simp add: dispatch_transfer_def D_def b_def)
  also have "... = run_bind (dispatch_ranges d D data (zip (0 # G) G) sc)
      (scan_blocks F d D data (last (0 # G) * b) (if 0 < m then block_seq F d data (m - 1) + 1 else 0) (map (\<lambda>k. k * b) [m..<n]))"
    unfolding b_def G_def by (rule scan_prefix [OF bpb]) (use m in auto)
  finally have run: "dispatch_transfer F d alloc_ok callback data sc = ..." .
  show ?thesis
  proof (cases "m = n")
    case True
    have G: "gaps F d data 0 n = G" using True by (simp add: G_def)
    have l: "length data - last (0 # G) * b = (n - last (0 # G)) * b" by (simp add: len b_def diff_mult_distrib)
    have "dispatch_ranges d D data (zip (0 # G) (G @ [n])) sc =
        run_bind (dispatch_ranges d D data (zip (0 # G) G) sc) (D (drop (last (0 # G) * b) data) ((n - last (0 # G)) * b))"
      unfolding zip_last dispatch_ranges_def run_foldl_append b_def
      by (cases "run_foldl (\<lambda>sc (a, b). D (drop (a * unat (usb_bytes_per_block d)) data) ((b - a) * unat (usb_bytes_per_block d)) sc) sc (zip (0 # G) G)")
        (auto simp: run_bind_def split: sum.splits)
    then show ?thesis
      unfolding run D_def [symmetric] G using True l
      by (cases "dispatch_ranges d D data (zip (0 # G) G) sc") simp_all
  next
    case False
    then have "m < n" using m(1) by simp
    then have up: "[m..<n] = m # [Suc m..<n]" by (rule upt_conv_Cons)
    have "\<not> valid_header F d (unpack_header F (drop (m * b) data))"
      using m(3) \<open>m < n\<close> by (simp add: block_valid_def b_def)
    then show ?thesis
      unfolding run D_def [symmetric] up using False
      by (cases "dispatch_ranges d D data (zip (0 # G) G) sc") (simp_all add: G_def [symmetric])
  qed
qed

definition small_block :: "u8 \<Rightarrow> u8 list" where
  "small_block k = [0, 0, 0, 0, 32, 0, 0, 0, 8, 0, 0, 0, k, 0, 0, 0, 0, 0, 0, 0] @ replicate 12 0"

theorem dispatch_transfer_ranges_witness:
  "\<forall>callback sc. dispatch_transfer sample_format (tuned_device\<lparr>usb_bytes_per_block := 32, usb_samples_per_block := 8\<rparr>) True callback
      (small_block 5 @ small_block 6 @ small_block 8) sc =
    run_bind (dispatch_ranges (tuned_device\<lparr>usb_bytes_per_block := 32, usb_samples_per_block := 8\<rparr>)
        (dispatch_contiguous_blocks sample_format (tuned_device\<lparr>usb_bytes_per_block := 32, usb_samples_per_block := 8\<rparr>) True callback)
        (small_block 5 @ small_block 6 @ small_block 8) [(0, 2), (2, 3)] sc) (\<lambda>sc. Inr (sc, PG2SDR_SUCCESS))"
proof (intro allI)
  fix callback :: "'c stream_callback" and sc
  define d where "d = tuned_device\<lparr>usb_bytes_per_block := 32, usb_samples_per_block := 8\<rparr>"
  define data where "data = small_block 5 @ small_block 6 @ small_block 8"
  have b: "unat (usb_bytes_per_block d) = 32" by (simp add: d_def)
  have l: "length data = 3 * unat (usb_bytes_per_block d)" by (simp add: data_def b small_block_def)
  have hs: "unpack_header sample_format (drop (k * 32) data) =
      \<lparr>h_magic = 0, h_block_len = 32, h_samples = 8, h_sequence = [5, 6, 8] ! k, h_status = 0\<rparr>" if "k < 3" for k
  proof -
    have "k = 0 \<or> k = 1 \<or> k = 2" using that by linarith
    then show ?thesis
      by (auto simp: data_def small_block_def unpack_header_def sample_format_def le_at_def le_word_def)
  qed
  have v: "\<forall>i < 3. block_valid sample_format d data i"
    by (simp add: block_valid_def b hs valid_header_def) (simp add: d_def sample_format_def)
  have up: "[0..<3] = [0, 1, 2 :: nat]" by (simp add: upt_rec)
  have g: "gaps sample_format d data 0 3 = [2]" by (simp add: gaps_def up block_seq_def b hs [of 0, simplified] hs [of 1, simplified] hs [of 2, simplified])
  show "dispatch_transfer sample_format (tuned_device\<lparr>usb_bytes_per_block := 32, usb_samples_per_block := 8\<rparr>) True callback
      (small_block 5 @ small_block 6 @ small_block 8) sc =
    run_bind (dispatch_ranges (tuned_device\<lparr>usb_bytes_per_block := 32, usb_samples_per_block := 8\<rparr>)
        (dispatch_contiguous_blocks sample_format (tuned_device\<lparr>usb_bytes_per_block := 32, usb_samples_per_block := 8\<rparr>) True callback)
        (small_block 5 @ small_block 6 @ small_block 8) [(0, 2), (2, 3)] sc) (\<lambda>sc. Inr (sc, PG2SDR_SUCCESS))"
    using dispatch_transfer_ranges [where F = sample_format and d = d and m = 3 and n = 3 and data = data and callback = callback
        and sc = sc and alloc_ok = True] b l v
    by (simp add: g d_def [symmetric] data_def [symmetric])
qed

end
