(* ===== verification/StreamDemo.thy ===== *)
theory StreamDemo
  imports StreamSafe StreamProps
begin

section \<open>A concrete stream\<close>

text \<open>
  Runs of the machine on small concrete streams, as witnesses of the guarantees of theory StreamSafe.
\<close>

definition demo_device :: "unit device" where
  "demo_device = sample_device\<lparr>conv_mode := MODE_LOWIF_REAL, undersampling_mode := 1,
     adc_config := (adc_config sample_device)\<lparr>adc_valid := True, adc_n := 1, adc_m := 1, adc_p := 1, adc_i := 1, adc_actual_frequency := 2560\<rparr>,
     usb_transfer_size := 512, adc_samples_per_transfer := 320\<rparr>"

definition demo :: "(unit, nat) machine" where
  "demo = \<lparr>m_dev = demo_device,
     m_conv = \<lparr>downconverter = None, post_decimators = [], partial_samples = 0, draining = False\<rparr>, m_user = 0,
     m_queue = \<lparr>xheap = (\<lambda>p. None), transfers = [], active_head = None, active_tail = None, completion_flag = False, next_xptr = 0,
       in_flight = {}, cancelling = {}\<rparr>, m_error = 0, m_pc = Returned\<rparr>"

definition demo_results :: "(xptr \<Rightarrow> int) \<Rightarrow> setup_results" where
  "demo_results submit = \<lparr>allocs = \<lparr>calloc_ok = True, buffer_ok = (\<lambda>_. True), transfer_ok = (\<lambda>_. True)\<rparr>,
     downconvert_allocs = (True, True, True, True), work_buffer_allocs = (True, True), decimator_allocs = (\<lambda>_. (True, True)),
     clear_halt_error = 0, submit_error = submit\<rparr>"

lemma demo_clean: "clean demo"
  by (simp add: clean_def demo_def queue_ok_def active_def states_def demo_device_def sample_device_def)

lemma rs_numeral: "(numeral n :: int) < 2 ^ 24 \<Longrightarrow> rs (numeral n) = numeral n"
  using fl_of_int [of "numeral n" 24] by (simp add: rs_def)

lemma demo_changes: "apply_changes E tab (Some demo_device) = Inr (Some demo_device, PG2SDR_SUCCESS)"
  by (simp add: apply_changes_def with_dev_def CHECK_DEV_def stage_def demo_device_def sample_device_def MAGIC_DEV_def MAGIC_CTX_def)

lemma demo_timeout: "event_timeout demo_device = Inr 1125"
  by (simp add: event_timeout_def demo_device_def sample_device_def to_unsigned_def)

lemma demo_count: "count_transfers demo_device = Inr 4"
  by (simp add: count_transfers_def demo_device_def sample_device_def to_unsigned_def)

lemma demo_transfer_timeout: "transfer_timeout demo_device 4 = Inr 1500"
  by (simp add: transfer_timeout_def demo_device_def sample_device_def to_unsigned_def rs_numeral)

definition demo_queue :: queue where
  "demo_queue = (m_queue demo)\<lparr>xheap := (\<lambda>p. if p \<in> set [0..<4] then Some (new_transfer demo_device 1500) else None),
     transfers := [0..<4], next_xptr := 4\<rparr>"

lemma demo_allocate:
  "allocate_transfers (allocs (demo_results submit)) demo_device (m_queue demo) = Inr (demo_queue, PG2SDR_SUCCESS)"
proof -
  have "next_xptr (m_queue demo) = 0" "transfers (m_queue demo) = []" "xheap (m_queue demo) = (\<lambda>p. None)"
    by (simp_all add: demo_def)
  then show ?thesis
    by (simp add: allocate_transfers_def free_dev_transfers_def demo_count demo_transfer_timeout demo_results_def demo_queue_def
        Let_def cong: if_cong)
qed

lemma demo_start: "ctrl_start_transfer accepting_env u params t = (u, PG2SDR_SUCCESS)"
  by (simp add: ctrl_start_transfer_def control_out_def accepting_env_def)

lemma demo_params: "\<exists>params. start_params (adc_config demo_device) = Inr params"
  by (simp add: start_params_def demo_device_def to_unsigned_def c_round_def)

lemma demo_setup:
  "stream_setup accepting_env None (demo_results submit) demo =
    run_bind (submit_transfers libusb_1_0 submit demo_queue)
      (\<lambda>(q, e). Inr (demo\<lparr>m_dev := demo_device\<lparr>streaming := \<not> e < 0\<rparr>, m_queue := q, m_error := e, m_pc := if e < 0 then Drain_start else Loop_top\<rparr>))"
proof -
  obtain params where params: "start_params (adc_config demo_device) = Inr params" using demo_params by blast
  have d: "m_dev demo = demo_device" "adc_valid (adc_config demo_device)" "\<not> streaming demo_device" "conv_mode demo_device = MODE_LOWIF_REAL"
      "CHECK_DEV (Some demo_device) = PG2SDR_SUCCESS"
    by (simp_all add: demo_def demo_device_def sample_device_def CHECK_DEV_def MAGIC_DEV_def MAGIC_CTX_def)
  have l: "lu accepting_env = libusb_1_0" "clear_halt_error (demo_results submit) = 0" "submit_error (demo_results submit) = submit"
    by (simp_all add: accepting_env_def demo_results_def)
  show ?thesis
  proof (cases "submit_transfers libusb_1_0 submit demo_queue")
    case (Inr r)
    then obtain q e where r: "submit_transfers libusb_1_0 submit demo_queue = Inr (q, e)" by (cases r) simp
    have c: "m_conv demo\<lparr>partial_samples := 0\<rparr> = m_conv demo" "m_error demo = 0" by (simp_all add: demo_def)
    have b: "demo_device\<lparr>usb := (), streaming := b\<rparr> = demo_device\<lparr>streaming := b\<rparr>" "demo_device\<lparr>usb := ()\<rparr> = demo_device\<lparr>streaming := False\<rparr>"
      for b by (simp_all add: demo_device_def sample_device_def)
    show ?thesis
      by (cases "e < 0")
        (simp_all add: stream_setup_def d demo_changes demo_timeout demo_allocate setup_conversion_def start_transfers_def l demo_start params
          r b c)
  qed (simp add: stream_setup_def d demo_changes demo_timeout demo_allocate setup_conversion_def start_transfers_def l demo_start params Let_def)
qed


lemma demo_queue_ok:
  "queue_ok demo_queue []" "in_flight demo_queue = {}" "distinct (transfers demo_queue)" "transfers demo_queue = [0..<4]"
  "\<forall>p \<in> set (transfers demo_queue). states demo_queue p = Some XFER_IDLE"
  by (auto simp: demo_queue_def demo_def queue_ok_def active_def states_def new_transfer_def)

text \<open>One run in which every submission succeeds, and one in which the second fails.\<close>

lemma demo_running:
  "\<exists>m. session accepting_env F None callback demo m \<and> m_pc m = Loop_top \<and> queue_ok (m_queue m) [0..<4] \<and>
    in_flight (m_queue m) = {0..<4} \<and> \<not> draining (m_conv m)"
proof -
  have "states demo_queue p = Some XFER_IDLE" if "p < 4" for p using demo_queue_ok(4,5) that by simp
  obtain q e n where q: "submit_transfers libusb_1_0 (\<lambda>_. 0) demo_queue = Inr (q, e)" "queue_ok q (take n [0..<4])"
      "in_flight q = set (take n [0..<4])" "\<not> e < 0 \<longrightarrow> n = 4"
    using submit_list_ok [OF demo_queue_ok(1,3,5), of libusb_1_0 "\<lambda>_. 0"] demo_queue_ok(2,4) by (auto simp: submit_transfers_def)
  have e: "submit_list L (\<lambda>_. 0) ps q = Inr (q', e) \<Longrightarrow> e = PG2SDR_SUCCESS" for L ps q q' e
  proof (induction ps arbitrary: q)
    case (Cons p ps)
    then show ?case
      by (auto simp: run_bind_Inr_iff submit_one_transfer_def split: if_splits)
  qed simp
  have "e = PG2SDR_SUCCESS" using q(1) e by (simp add: submit_transfers_def)
  then have "stream_setup accepting_env None (demo_results (\<lambda>_. 0)) demo =
      Inr (demo\<lparr>m_dev := demo_device\<lparr>streaming := True\<rparr>, m_queue := q, m_error := e, m_pc := Loop_top\<rparr>)"
    by (simp add: demo_setup q(1))
  from session.started [OF this] show ?thesis
    using q \<open>e = PG2SDR_SUCCESS\<close> by (intro exI conjI) (assumption, auto simp: demo_def)
qed

lemma demo_draining:
  "\<exists>m. session accepting_env F None callback demo m \<and> m_pc m = Drain_start \<and> in_flight (m_queue m) = {0} \<and>
    transfers (m_queue m) = [0..<4] \<and> m_dev m = demo_device"
proof -
  obtain q1 where q1: "submit_one_transfer libusb_1_0 0 0 demo_queue = Inr (q1, PG2SDR_SUCCESS)" "transfers q1 = [0..<4]"
      "queue_ok q1 [0]" "in_flight q1 = {0}" "states q1 = (states demo_queue)(0 := Some XFER_BUSY)"
    using submit_one_ok [OF demo_queue_ok(1), of 0 libusb_1_0 0] demo_queue_ok(2,4,5) by auto
  have "states q1 1 = Some XFER_IDLE" using demo_queue_ok(4,5) q1(5) by simp
  then obtain q2 where q2: "submit_one_transfer libusb_1_0 (- 1) 1 q1 = Inr (q2, translate_libusb_error libusb_1_0 (- 1))"
      "queue_ok q2 [0]" "in_flight q2 = {0}" "transfers q2 = [0..<4]"
    using submit_one_ok [OF q1(3), of 1 libusb_1_0 "- 1"] q1(2,4) by auto
  define err where "err = translate_libusb_error libusb_1_0 (- 1)"
  have neg: "err < 0" by (simp add: err_def translate_libusb_error_neg)
  have g0: "\<exists>t. xget 0 demo_queue = Inr t \<and> xstate t = XFER_IDLE" "\<exists>t. xget 1 q1 = Inr t \<and> xstate t = XFER_IDLE"
    using queue_ok_get [OF demo_queue_ok(1), of 0] queue_ok_get [OF q1(3), of 1] demo_queue_ok(4,5) q1(2) \<open>states q1 1 = _\<close> by auto
  have up: "[0..<4] = [0, 1, 2, 3 :: nat]" by (simp add: upt_rec)
  have "submit_transfers libusb_1_0 (\<lambda>p. if p = 0 then 0 else - 1) demo_queue = Inr (q2, err)"
    using g0 q1(1) q2(1) neg by (auto simp: submit_transfers_def demo_queue_ok(4) up err_def [symmetric])
  then have "stream_setup accepting_env None (demo_results (\<lambda>p. if p = 0 then 0 else - 1)) demo =
      Inr (demo\<lparr>m_dev := demo_device\<lparr>streaming := False\<rparr>, m_queue := q2, m_error := err, m_pc := Drain_start\<rparr>)"
    using neg by (simp add: demo_setup)
  from session.started [OF this] show ?thesis
    using q2 by (intro exI conjI) (assumption, auto simp: demo_device_def sample_device_def)
qed


definition demo_callback :: "nat stream_callback" where
  "demo_callback c b = (c + sb_count b, True, False)"

abbreviation demo_session :: "(unit, nat) machine \<Rightarrow> bool" where
  "demo_session \<equiv> session accepting_env sample_format None demo_callback demo"

lemma session_thread:
  "session E F tab callback m0 m \<Longrightarrow> m_pc m \<noteq> Returned \<Longrightarrow> thread_step E F callback R m = Some (Inr m') \<Longrightarrow>
    session E F tab callback m0 m'"
  by (rule session.continued [OF _ _ stream_step.thread])

lemma session_completed:
  assumes s: "session E F tab callback m0 m" and c: "clean m0" "m_pc m \<noteq> Returned" "p \<in> in_flight (m_queue m)"
  shows "\<exists>q. session E F tab callback m0 (m\<lparr>m_queue := q\<rparr>) \<and> in_flight q = in_flight (m_queue m) - {p} \<and>
    active_head q = active_head (m_queue m) \<and> states q p \<noteq> Some XFER_BUSY"
proof -
  obtain xs where ok: "queue_ok (m_queue m) xs" using session_inv [OF s c(1)] by (auto simp: stream_inv_def)
  obtain q where q: "transfer_callback p TRANSFER_CANCELLED [] (m_queue m) = Inr q" "queue_ok q xs" "in_flight q = in_flight (m_queue m) - {p}"
      "active_head q = active_head (m_queue m)"
    using transfer_callback_ok [OF ok c(3)] by blast
  have "session E F tab callback m0 (m\<lparr>m_queue := q\<rparr>)"
    by (rule session.continued [OF s c(2) stream_step.completed [OF c(3) q(1)]])
  moreover have "states q p \<noteq> Some XFER_BUSY" using q(2,3) by (auto simp: queue_ok_def)
  ultimately show ?thesis using q(3,4) by blast
qed


lemma no_lost_wakeup_witness:
  "\<exists>m. demo_session m \<and> m_pc m = Loop_wait \<and> \<not> draining (m_conv m) \<and> completion_flag (m_queue m)"
proof -
  obtain m where m: "demo_session m" "m_pc m = Loop_top" "queue_ok (m_queue m) [0..<4]" "in_flight (m_queue m) = {0..<4}" "\<not> draining (m_conv m)"
    using demo_running [of sample_format demo_callback] by blast
  define m1 where "m1 = m\<lparr>m_queue := (m_queue m)\<lparr>completion_flag := False\<rparr>, m_pc := Loop_check\<rparr>"
  have s1: "demo_session m1"
    by (rule session_thread [OF m(1)]) (simp_all add: m(2) thread_step_def m1_def)
  have ok: "queue_ok (m_queue m1) (0 # [1..<4])" using m(3) by (simp add: m1_def upt_rec [of 0])
  have "0 \<in> set (transfers (m_queue m1))" using queue_ok_subset(1) [OF ok] by simp
  then obtain t where t: "xget 0 (m_queue m1) = Inr t" "states (m_queue m1) 0 = Some (xstate t)" using queue_ok_get [OF ok] by blast
  have "0 \<in> in_flight (m_queue m1)" using m(4) by (simp add: m1_def)
  then have b: "xstate t = XFER_BUSY" using ok t(2) by (simp add: queue_ok_def)
  define m2 where "m2 = m1\<lparr>m_pc := Loop_wait\<rparr>"
  have s2: "demo_session m2"
    by (rule session_thread [OF s1]) (use queue_ok_head [OF ok] t(1) b m(5) in \<open>simp_all add: m1_def m2_def thread_step_def stream_check_def\<close>)
  have "0 \<in> in_flight (m_queue m2)" using m(4) by (simp add: m2_def m1_def)
  then obtain q where q: "demo_session (m2\<lparr>m_queue := q\<rparr>)" "active_head q = active_head (m_queue m2)" "states q 0 \<noteq> Some XFER_BUSY"
    using session_completed [OF s2 demo_clean] by (auto simp: m2_def)
  have "completion_flag (m_queue (m2\<lparr>m_queue := q\<rparr>))"
    by (rule no_lost_wakeup [OF demo_clean q(1)]) (use q(2,3) queue_ok_head [OF ok] in \<open>simp_all add: m2_def\<close>)
  then show ?thesis using q(1) m(5) by (intro exI [of _ "m2\<lparr>m_queue := q\<rparr>"]) (simp add: m2_def m1_def)
qed

lemma transfers_in_turn_witness:
  "\<exists>q q'. active q [0..<4] \<and>
    run_foldl (\<lambda>q p. run_bind (unlink_head p q) (link_active p)) q (map (\<lambda>k. [0..<4] ! (k mod 4)) [0..<6]) = Inr q' \<and> active q' [2, 3, 0, 1]"
proof -
  obtain m :: "(unit, nat) machine" where "queue_ok (m_queue m) [0..<4]" using demo_running [of sample_format demo_callback] by blast
  then have a: "active (m_queue m) [0..<4]" by (simp add: queue_ok_def)
  have r: "rotate 6 [0..<4] = [2, 3, 0, 1 :: nat]" by (simp add: upt_rec rotate_drop_take)
  show ?thesis using transfers_in_turn [OF a, of 6] a by (auto simp: r)
qed

lemma drain_terminates_witness:
  "\<exists>m m1. demo_session m \<and> in_flight (m_queue m) = {0} \<and> step_bind (thread_step accepting_env sample_format demo_callback \<lparr>handle_error = 0, resubmit_error = 0, buffer_alloc_ok = True\<rparr> m)
      (drain_run accepting_env sample_format demo_callback \<lparr>handle_error = 0, resubmit_error = 0, buffer_alloc_ok = True\<rparr>
        [([], - 10), ([(0, TRANSFER_CANCELLED, [])], 0)]) = Some (Inr m1)"
proof -
  obtain m where m: "demo_session m" "m_pc m = Drain_start" "in_flight (m_queue m) = {0}"
    using demo_draining [of sample_format demo_callback] by blast
  have "interrupted_or_ok (lu accepting_env) (- 10)" "interrupted_or_ok (lu accepting_env) 0"
    by (simp_all add: interrupted_or_ok_def accepting_env_def libusb_1_0_def)
  then obtain m1 m2 where m1: "step_bind (thread_step accepting_env sample_format demo_callback \<lparr>handle_error = 0, resubmit_error = 0, buffer_alloc_ok = True\<rparr> m)
      (drain_run accepting_env sample_format demo_callback \<lparr>handle_error = 0, resubmit_error = 0, buffer_alloc_ok = True\<rparr>
        [([], - 10), ([(0, TRANSFER_CANCELLED, [])], 0)]) = Some (Inr m1)"
      "thread_step accepting_env sample_format demo_callback \<lparr>handle_error = 0, resubmit_error = 0, buffer_alloc_ok = True\<rparr> m1 = Some (Inr m2)"
      "m_pc m2 = Finishing"
    using drain_terminates [OF demo_clean m(1,2), of "[([], - 10), ([(0, TRANSFER_CANCELLED, [])], 0)]"
        "\<lparr>handle_error = 0, resubmit_error = 0, buffer_alloc_ok = True\<rparr>"] m(3) by auto
  show ?thesis using m(1,3) m1 by blast
qed


lemma drained_returns:
  assumes s: "session E F tab callback m0 m" and c: "clean m0" and pc: "m_pc m = Drain_start" and none: "in_flight (m_queue m) = {}"
  shows "\<exists>m'. session E F tab callback m0 m' \<and> m_pc m' = Returned \<and> transfers (m_queue m') = []"
proof -
  note step = session_thread [where R = undefined]
  obtain m1 where m1: "drain_start E m = Inr m1" "stream_inv m1" "m_pc m1 = Drain_top" "in_flight (m_queue m1) = {}"
    using drain_start_inv [OF session_inv [OF s c] pc, of E] none by auto
  have s1: "session E F tab callback m0 m1" by (rule step [OF s]) (use m1(1) pc in \<open>simp_all add: thread_step_def\<close>)
  define m2 where "m2 = m1\<lparr>m_queue := (m_queue m1)\<lparr>completion_flag := False\<rparr>, m_pc := Drain_check\<rparr>"
  have s2: "session E F tab callback m0 m2" by (rule step [OF s1]) (use m1(3) in \<open>simp_all add: thread_step_def m2_def\<close>)
  have p2: "m_pc m2 = Drain_check" "in_flight (m_queue m2) = {}" using m1(4) by (simp_all add: m2_def)
  obtain m3 where m3: "drain_check m2 = Some (Inr m3)" "m_pc m3 = Cleaning_up"
    using drain_check_inv [OF session_inv [OF s2 c] p2(1)] p2(2) by auto
  have s3: "session E F tab callback m0 m3" by (rule step [OF s2]) (use m3(1) p2(1) in \<open>simp_all add: thread_step_def\<close>)
  obtain m4 where m4: "stream_cleanup m3 = Inr m4" "m_pc m4 = Finishing" "transfers (m_queue m4) = []"
    using stream_cleanup_inv [OF session_inv [OF s3 c] m3(2)] by blast
  have s4: "session E F tab callback m0 m4" by (rule step [OF s3]) (use m4(1) m3(2) in \<open>simp_all add: thread_step_def\<close>)
  define m5 where "m5 = m4\<lparr>m_dev := (m_dev m4)\<lparr>streaming := False\<rparr>, m_conv := (m_conv m4)\<lparr>draining := False\<rparr>, m_pc := Returned\<rparr>"
  have "session E F tab callback m0 m5" by (rule step [OF s4]) (use m4(2) in \<open>simp_all add: thread_step_def m5_def\<close>)
  then show ?thesis using m4(3) by (intro exI [of _ m5]) (simp add: m5_def)
qed

lemma session_releases_witness: "\<exists>m. demo_session m \<and> m_pc m = Returned \<and> clean m \<and> xheap (m_queue m) = (\<lambda>p. None)"
proof -
  obtain m where m: "demo_session m" "m_pc m = Drain_start" "in_flight (m_queue m) = {0}"
    using demo_draining [of sample_format demo_callback] by blast
  obtain q where q: "demo_session (m\<lparr>m_queue := q\<rparr>)" "in_flight q = {}"
    using session_completed [OF m(1) demo_clean, of 0] m(2,3) by auto
  obtain m' where m': "demo_session m'" "m_pc m' = Returned" "transfers (m_queue m') = []"
    using drained_returns [OF q(1) demo_clean] q(2) m(2) by auto
  then show ?thesis using session_releases [OF demo_clean m'(1,2)] by blast
qed

text \<open>The first stream waits for its cancelled transfer with the mutex released; a second call on the same device frees it.\<close>

lemma restart_frees_in_flight_witness:
  "\<exists>m R. demo_session m \<and> m_pc m = Drain_wait \<and> mutex_free m \<and> stream_setup accepting_env None R m = Inl Use_after_free"
proof -
  obtain m where m: "demo_session m" "m_pc m = Drain_start" "in_flight (m_queue m) = {0}" "transfers (m_queue m) = [0..<4]"
      "m_dev m = demo_device"
    using demo_draining [of sample_format demo_callback] by blast
  note step = session_thread [where R = undefined]
  obtain xs where ok: "queue_ok (m_queue m) xs" using session_inv [OF m(1) demo_clean] by (auto simp: stream_inv_def)
  obtain e where stop: "ctrl_stop_transfer accepting_env (usb (m_dev m)) (control_timeout_ms (m_dev m)) = ((), e)"
    by (cases "ctrl_stop_transfer accepting_env (usb (m_dev m)) (control_timeout_ms (m_dev m))") simp
  have dev: "demo_device\<lparr>usb := ()\<rparr> = demo_device" by (simp add: demo_device_def sample_device_def)
  define m1 where "m1 = m\<lparr>m_conv := (m_conv m)\<lparr>draining := True\<rparr>, m_queue := (m_queue m)\<lparr>cancelling := cancelling (m_queue m) \<union> {0}\<rparr>, m_pc := Drain_top\<rparr>"
  have "m\<lparr>m_dev := demo_device\<rparr> = m" using m(5) by simp
  then have "drain_start accepting_env m = Inr m1"
    using cancel_transfers_ok [OF ok] stop m(3,5) dev by (simp add: drain_start_def m1_def)
  then have s1: "demo_session m1" by (intro step [OF m(1)]) (simp_all add: m(2) thread_step_def)
  define m2 where "m2 = m1\<lparr>m_queue := (m_queue m1)\<lparr>completion_flag := False\<rparr>, m_pc := Drain_check\<rparr>"
  have s2: "demo_session m2" by (rule step [OF s1]) (simp_all add: thread_step_def m1_def m2_def)
  have "queue_ok (m_queue m2) xs" using ok by (simp add: m1_def m2_def)
  then have "drain_check m2 = Some (Inr (m2\<lparr>m_pc := Drain_wait\<rparr>))"
    using any_busy_ok m(3) by (simp add: drain_check_def m1_def m2_def)
  then have s3: "demo_session (m2\<lparr>m_pc := Drain_wait\<rparr>)" by (intro step [OF s2]) (simp_all add: thread_step_def m2_def)
  have "stream_setup accepting_env None (demo_results (\<lambda>_. 0)) (m2\<lparr>m_pc := Drain_wait\<rparr>) = Inl Use_after_free"
    by (rule restart_frees_in_flight [where p = 0 and d = demo_device and ms = 1125])
      (use m(3,4,5) demo_changes demo_timeout in \<open>simp_all add: m1_def m2_def\<close>,
       simp_all add: demo_device_def sample_device_def CHECK_DEV_def MAGIC_DEV_def MAGIC_CTX_def)
  then show ?thesis using s3 by (intro exI [of _ "m2\<lparr>m_pc := Drain_wait\<rparr>"] exI) (auto simp: mutex_free_def)
qed

end
