(* ===== verification/Decimal.thy ===== *)
theory Decimal
  imports Discovery
begin

section \<open>Decimal numbers\<close>

text \<open>The digits a number is printed as: its recursion, its characters, its length and its value.\<close>

definition digit :: "char \<Rightarrow> bool" where
  "digit c \<longleftrightarrow> 48 \<le> (of_char c :: nat) \<and> of_char c < (58 :: nat)"

definition decimal_value :: "string \<Rightarrow> nat" where
  "decimal_value s = foldl (\<lambda>a c. a * 10 + (of_char c - 48)) 0 s"

lemma of_char_digit: "(n :: nat) < 10 \<Longrightarrow> (of_char (char_of (48 + n)) :: nat) = 48 + n"
  by simp

lemma digit_char: "(n :: nat) < 10 \<Longrightarrow> digit (char_of (48 + n))"
  by (simp add: digit_def)

lemma decimal_small: "n < 10 \<Longrightarrow> decimal n = [char_of (48 + n)]"
  by (subst decimal.simps) simp

lemma decimal_large: "\<not> n < 10 \<Longrightarrow> decimal n = decimal (n div 10) @ [char_of (48 + n mod 10)]"
  by (subst decimal.simps) simp

lemma decimal_induct [case_names small large]:
  assumes "\<And>n. n < 10 \<Longrightarrow> P n" "\<And>n. \<not> n < 10 \<Longrightarrow> P (n div 10) \<Longrightarrow> P n"
  shows "P (n :: nat)"
proof (induction n rule: less_induct)
  case (less n)
  show ?case
  proof (cases "n < 10")
    case False
    then have "n div 10 < n" by simp
    then show ?thesis using assms(2) [OF False] less by blast
  qed (rule assms(1))
qed

lemma decimal_digits: "c \<in> set (decimal n) \<Longrightarrow> digit c"
  by (induction n rule: decimal_induct) (use digit_char in \<open>auto simp: decimal_small decimal_large\<close>)

lemma decimal_length: "n < 10 ^ k \<Longrightarrow> 0 < k \<Longrightarrow> length (decimal n) \<le> k"
proof (induction n arbitrary: k rule: decimal_induct)
  case (small n)
  then show ?case by (simp add: decimal_small)
next
  case (large n)
  then obtain j where j: "k = Suc j" "0 < j" by (cases k; cases "k = 1") auto
  then have "n div 10 < 10 ^ j" using large(3) by (simp add: div_less_iff_less_mult mult.commute)
  then show ?case using large(1,2) j by (simp add: decimal_large)
qed

lemma decimal_value: "decimal_value (decimal n) = n"
proof (induction n rule: decimal_induct)
  case (small n)
  then show ?case by (simp add: decimal_small decimal_value_def of_char_digit)
next
  case (large n)
  then show ?case using of_char_digit [of "n mod 10"] by (simp add: decimal_large decimal_value_def)
qed

lemma decimal_head: "decimal n \<noteq> [] \<and> (hd (decimal n) = CHR ''0'' \<longrightarrow> n = 0)"
proof (induction n rule: decimal_induct)
  case (small n)
  have "(of_char CHR ''0'' :: nat) = 48" by simp
  then have "char_of (48 + n) = CHR ''0'' \<longrightarrow> 48 + n = 48" using of_char_digit [OF small] by metis
  then show ?case by (simp add: decimal_small [OF small])
next
  case (large n)
  then have "hd (decimal (n div 10)) \<noteq> CHR ''0''" by auto
  then show ?case using large by (simp add: decimal_large)
qed

end
