(* ===== verification/DiscoveryProps.thy ===== *)
theory DiscoveryProps
  imports Decimal "HOL-Library.Multiset" "HOL-Library.List_Lexorder"
begin

section \<open>What discovery returns and owns\<close>

text \<open>
  A port path determines its device and fits its buffer; discovery returns the matching devices in order, and what it owns is
  what freeing its list gives back.
\<close>

subsection \<open>Port paths\<close>

definition path_tail :: "u8 list \<Rightarrow> string" where
  "path_tail ps = concat (map (\<lambda>p. ''.'' @ decimal (unat p)) ps)"

definition path_string :: "u8 \<Rightarrow> u8 list \<Rightarrow> string" where
  "path_string b ps = (case ps of [] \<Rightarrow> '''' | p # ps \<Rightarrow> decimal (unat b) @ ''-'' @ decimal (unat p) @ path_tail ps)"

lemma decimal_prefix:
  assumes "decimal n @ s = decimal m @ t" "s = [] \<or> \<not> digit (hd s)" "t = [] \<or> \<not> digit (hd t)"
  shows "n = m \<and> s = t"
proof -
  have tw: "takeWhile digit (decimal k @ r) = decimal k" if "r = [] \<or> \<not> digit (hd r)" for k r
    using that decimal_digits by (cases r) (simp_all add: takeWhile_append2)
  have "decimal n = decimal m" using tw [OF assms(2), of n] tw [OF assms(3), of m] assms(1) by simp
  then show ?thesis using assms(1) decimal_value by (metis append_same_eq same_append_eq)
qed

lemma sep_not_digit: "\<not> digit (CHR ''.'')" "\<not> digit (CHR ''-'')"
  by (simp_all add: digit_def)

lemma path_tail_start: "path_tail ps = [] \<or> \<not> digit (hd (path_tail ps))"
  by (cases ps) (simp_all add: path_tail_def sep_not_digit)

lemma path_tail_inj:
  fixes p p' :: u8
  shows "decimal (unat p) @ path_tail ps = decimal (unat p') @ path_tail ps' \<Longrightarrow> p = p' \<and> ps = ps'"
proof (induction ps arbitrary: p p' ps')
  case Nil
  then have "unat p = unat p' \<and> [] = path_tail ps'"
    using decimal_prefix [of "unat p" "[]"] path_tail_start by (auto simp: path_tail_def)
  then show ?case by (cases ps') (auto simp: path_tail_def intro: unsigned_word_eqI)
next
  case (Cons q qs)
  then have e: "unat p = unat p'" "path_tail (q # qs) = path_tail ps'"
    using decimal_prefix path_tail_start by blast+
  obtain q' qs' where ps': "ps' = q' # qs'" using e(2) by (cases ps') (auto simp: path_tail_def)
  then have "decimal (unat q) @ path_tail qs = decimal (unat q') @ path_tail qs'" using e(2) by (simp add: path_tail_def)
  then have "q = q' \<and> qs = qs'" by (rule Cons.IH)
  then show ?case using e(1) ps' by (auto intro: unsigned_word_eqI)
qed

lemma path_string_inj:
  assumes "path_string b ps = path_string b' ps'" "ps \<noteq> []"
  shows "b = b' \<and> ps = ps'"
proof -
  obtain p qs where ps: "ps = p # qs" using assms(2) by (cases ps) auto
  have "decimal n \<noteq> []" for n by (subst decimal.simps) simp
  then obtain p' qs' where ps': "ps' = p' # qs'" using assms ps by (cases ps') (auto simp: path_string_def)
  have "unat b = unat b' \<and> ''-'' @ decimal (unat p) @ path_tail qs = ''-'' @ decimal (unat p') @ path_tail qs'"
    using assms(1) ps ps' by (intro decimal_prefix) (simp_all add: path_string_def sep_not_digit)
  then show ?thesis using path_tail_inj ps ps' by (auto intro: unsigned_word_eqI)
qed

lemma decimal_byte: "length (decimal (unat (b :: u8))) \<le> 3"
proof -
  have "unat b < 2 ^ LENGTH(8)" by (rule unsigned_less)
  then show ?thesis by (intro decimal_length) simp_all
qed

lemma print_to_fits:
  assumes "length s + length r \<le> 32"
  shows "print_to (length s, s) r = Inr (length (s @ r), s @ r)"
  using assms by (simp add: print_to_def PORT_BUFFER_def)

lemma path_loop:
  "length s + 4 * length ps \<le> 32 \<Longrightarrow>
    run_foldl (\<lambda>buf p. print_to buf (''.'' @ decimal (unat p))) (length s, s) ps = Inr (length (s @ path_tail ps), s @ path_tail ps)"
proof (induction ps arbitrary: s)
  case (Cons p ps)
  have l: "length (decimal (unat p)) \<le> 3" by (rule decimal_byte)
  then have "print_to (length s, s) (''.'' @ decimal (unat p)) = Inr (length (s @ ''.'' @ decimal (unat p)), s @ ''.'' @ decimal (unat p))"
    using Cons.prems by (intro print_to_fits) simp
  moreover have "length (s @ ''.'' @ decimal (unat p)) + 4 * length ps \<le> 32" using Cons.prems l by simp
  ultimately show ?case using Cons.IH [of "s @ ''.'' @ decimal (unat p)"] by (simp add: path_tail_def)
qed (simp add: path_tail_def)

lemma path_tail_length: "length (path_tail ps) \<le> 4 * length ps"
proof (induction ps)
  case (Cons p ps)
  then show ?case using decimal_byte [of p] by (simp add: path_tail_def)
qed (simp add: path_tail_def)

definition device_path :: "bus_device \<Rightarrow> string" where
  "device_path d = (case port_numbers d of Inl e \<Rightarrow> '''' | Inr ps \<Rightarrow> path_string (bus_number d) ps)"

text \<open>libusb reports at most 7 ports, the depth USB allows.\<close>

definition ports_documented :: "bus_device \<Rightarrow> bool" where
  "ports_documented d \<longleftrightarrow> (case port_numbers d of Inl e \<Rightarrow> e < 0 | Inr ps \<Rightarrow> length ps \<le> 7)"

lemma strdup_ports_path:
  assumes "ports_documented d"
  shows "strdup_ports d L = Inr (strdup (device_path d) L) \<and> length (device_path d) < 33"
proof (cases "port_numbers d")
  case (Inr ps)
  show ?thesis
  proof (cases ps)
    case (Cons p qs)
    define s where "s = decimal (unat (bus_number d)) @ CHR ''-'' # decimal (unat p)"
    have s: "length s \<le> 7" using decimal_byte [of "bus_number d"] decimal_byte [of p] by (simp add: s_def)
    have q: "length qs \<le> 6" using assms Inr Cons by (simp add: ports_documented_def)
    have "print_to (0, '''') s = Inr (length s, s)" using print_to_fits [of "''''" s] s by simp
    moreover have "run_foldl (\<lambda>buf p. print_to buf (''.'' @ decimal (unat p))) (length s, s) qs = Inr (length (s @ path_tail qs), s @ path_tail qs)"
      using s q by (intro path_loop) simp
    moreover have "device_path d = s @ path_tail qs" by (simp add: device_path_def Inr Cons path_string_def s_def)
    moreover have "length (s @ path_tail qs) < 33" using path_tail_length [of qs] s q by simp
    ultimately show ?thesis by (simp add: strdup_ports_def Inr Cons s_def [symmetric])
  qed (simp add: strdup_ports_def Inr device_path_def path_string_def)
qed (simp add: strdup_ports_def device_path_def)

text \<open>C9: the port path of a device always fits the 33-byte buffer (no truncation, no write past its end), and two devices
  with the same path are on the same bus and ports, so a path given to discovery selects one device.\<close>

theorem port_path_identifies:
  assumes "ports_documented d" "port_numbers d = Inr ps" "ps \<noteq> []"
  shows "\<exists>s. strdup_ports d L = Inr (strdup s L) \<and> length s < 33 \<and>
    (\<forall>d' L'. ports_documented d' \<longrightarrow> strdup_ports d' L' = Inr (strdup s L') \<longrightarrow> alloc_ok L' (next_id L') \<longrightarrow>
       bus_number d' = bus_number d \<and> port_numbers d' = Inr ps)"
proof (intro exI conjI allI impI)
  show "strdup_ports d L = Inr (strdup (device_path d) L)" "length (device_path d) < 33"
    using strdup_ports_path [OF assms(1)] by blast+
  fix d' L'
  assume d': "ports_documented d'" and s: "strdup_ports d' L' = Inr (strdup (device_path d) L')" and ok: "alloc_ok L' (next_id L')"
  have "strdup (device_path d') L' = strdup (device_path d) L'" using strdup_ports_path [OF d', of L'] s by simp
  then have "device_path d' = device_path d" using ok by (simp add: strdup_def alloc_success)
  then have e: "device_path d' = path_string (bus_number d) ps" by (simp add: device_path_def assms(2))
  have "path_string (bus_number d) ps \<noteq> []" using assms(3) by (cases ps) (simp_all add: path_string_def)
  then obtain qs where qs: "port_numbers d' = Inr qs" using e by (cases "port_numbers d'") (auto simp: device_path_def)
  then show "bus_number d' = bus_number d" "port_numbers d' = Inr ps"
    using path_string_inj [of "bus_number d" ps "bus_number d'" qs] e assms(3) by (simp_all add: device_path_def)
qed


subsection \<open>Blocks and references\<close>

definition block_list :: "usb_device list \<Rightarrow> nat list" where
  "block_list us = concat (map (\<lambda>u. [fst (ud_serial u), fst (ud_ports u), ud_block u]) us)"

definition ref_count :: "usb_device list \<Rightarrow> nat \<Rightarrow> nat" where
  "ref_count us i = length (filter (\<lambda>u. ud_lu u = i) us)"

lemma block_list_simps [simp]:
  "block_list [] = []" "block_list (u # us) = fst (ud_serial u) # fst (ud_ports u) # ud_block u # block_list us"
  "block_list (us @ vs) = block_list us @ block_list vs"
  by (simp_all add: block_list_def)

lemma ref_count_simps [simp]:
  "ref_count [] i = 0" "ref_count (u # us) i = (if ud_lu u = i then Suc (ref_count us i) else ref_count us i)"
  by (simp_all add: ref_count_def)

definition device_key :: "usb_device \<Rightarrow> nat \<times> string \<times> string" where
  "device_key u = (ud_lu u, snd (ud_serial u), snd (ud_ports u))"

definition wanted ::
  "usb_ids \<Rightarrow> string option \<Rightarrow> string option \<Rightarrow> u32 \<Rightarrow> (nat \<times> bus_device) list \<Rightarrow> (nat \<times> string \<times> string) list" where
  "wanted I sp mp types ds =
    map (\<lambda>(i, d). (i, serial_string d, device_path d))
      (filter (\<lambda>(i, d). identify_device I d AND types \<noteq> 0 \<and> matches sp mp (serial_string d) (device_path d)) ds)"

text \<open>What the loop adds to the ledger.\<close>

definition adds :: "ledger \<Rightarrow> ledger \<Rightarrow> usb_device list \<Rightarrow> bool" where
  "adds L L' us \<longleftrightarrow> live L' = live L \<union> set (block_list us) \<and> distinct (block_list us) \<and>
     (\<forall>b \<in> set (block_list us). next_id L \<le> b \<and> b < next_id L') \<and> next_id L \<le> next_id L' \<and> alloc_ok L' = alloc_ok L \<and>
     refs L' = (\<lambda>i. refs L i + ref_count us i) \<and> handles L' = handles L \<and> mutexes L' = mutexes L"

lemma adds_skip:
  "adds L3 L' us \<Longrightarrow> live L3 = live L \<Longrightarrow> next_id L \<le> next_id L3 \<Longrightarrow> alloc_ok L3 = alloc_ok L \<Longrightarrow> refs L3 = refs L \<Longrightarrow>
    handles L3 = handles L \<Longrightarrow> mutexes L3 = mutexes L \<Longrightarrow> adds L L' us"
  by (auto simp: adds_def)

lemma alloc_cases:
  "alloc L = (L\<lparr>live := (if alloc_ok L (next_id L) then insert (next_id L) (live L) else live L), next_id := Suc (next_id L)\<rparr>,
     if alloc_ok L (next_id L) then Some (next_id L) else None)"
  by (simp add: alloc_def Let_def)

lemma discover_loop_ok:
  assumes "ledger_ok L" "\<forall>(i, d) \<in> set ds. ports_documented d"
  shows "\<exists>L' us ok. discover_loop I sp mp types ds matched L = Inr (L', matched @ us, ok) \<and> adds L L' us \<and>
    (ok \<longrightarrow> map device_key us = wanted I sp mp types ds) \<and> ((\<forall>n. alloc_ok L n) \<longrightarrow> ok)"
  using assms
proof (induction ds arbitrary: matched L)
  case Nil
  then show ?case by (auto simp: wanted_def adds_def)
next
  case (Cons x ds)
  obtain i d where x: "x = (i, d)" by (cases x)
  have docs: "\<forall>(i, d) \<in> set ds. ports_documented d" using Cons.prems(2) by simp
  define n where "n = next_id L"
  have fresh: "n \<notin> live L" "Suc n \<notin> live L" using Cons.prems(1) by (auto simp: ledger_ok_def n_def)
  show ?case
  proof (cases "identify_device I d AND types = 0")
    case True
    then show ?thesis using Cons.IH [OF Cons.prems(1) docs] x by (simp add: wanted_def)
  next
    case type: False
    define L1 where "L1 = fst (alloc L)"
    define L2 where "L2 = fst (alloc L1)"
    have L1: "live L1 = (if alloc_ok L n then insert n (live L) else live L)" "next_id L1 = Suc n" "alloc_ok L1 = alloc_ok L"
      by (simp_all add: L1_def alloc_cases n_def)
    have L2: "live L2 = (if alloc_ok L (Suc n) then insert (Suc n) (live L1) else live L1)" "next_id L2 = Suc (Suc n)"
        "alloc_ok L2 = alloc_ok L"
      by (simp_all add: L2_def alloc_cases L1)
    have same: "refs L2 = refs L" "handles L2 = handles L" "mutexes L2 = mutexes L"
      by (simp_all add: L2_def L1_def alloc_cases)
    have s: "strdup_serial d L = (L1, if alloc_ok L n then Some (n, serial_string d) else None)"
      by (simp add: strdup_serial_def strdup_def L1_def alloc_cases n_def)
    have p: "strdup_ports d L1 = Inr (L2, if alloc_ok L (Suc n) then Some (Suc n, device_path d) else None)"
      using strdup_ports_path [of d] Cons.prems(2) x by (simp add: strdup_def L2_def alloc_cases L1)
    have skip: "adds L (L2\<lparr>live := live L\<rparr>) []" "ledger_ok (L2\<lparr>live := live L\<rparr>)"
      using Cons.prems(1) by (auto simp: adds_def L2 same ledger_ok_def n_def)
    show ?thesis
    proof (cases "alloc_ok L n \<and> alloc_ok L (Suc n)")
      case False
      have e: "L2\<lparr>live := live L\<rparr> = L2" if "live L2 = live L" unfolding that [symmetric] by simp
      have "discover_loop I sp mp types (x # ds) matched L = Inr (L2\<lparr>live := live L\<rparr>, matched @ [], False)"
        using type s p x fresh False e
        by (cases "alloc_ok L n"; cases "alloc_ok L (Suc n)") (simp_all add: release_def L2 L1)
      then show ?thesis using skip(1) False by blast
    next
      case ok: True
      have rel: "release (Some n) L2' = Inr (L2'\<lparr>live := live L2' - {n}\<rparr>)" if "n \<in> live L2'" for L2' using that by (simp add: release_def)
      have l2: "live L2 = insert (Suc n) (insert n (live L))" using ok by (simp add: L2 L1)
      have free2: "run_bind (release (Some n) L2') (\<lambda>L. run_bind (release (Some (Suc n)) L) f) = f (L2'\<lparr>live := live L\<rparr>)"
        if "live L2' = live L2" for L2' and f :: "ledger \<Rightarrow> (ledger \<times> usb_device list \<times> bool) run"
      proof -
        have "insert (Suc n) (insert n (live L)) - {n} - {Suc n} = live L" using fresh by auto
        then show ?thesis by (simp add: release_def that l2)
      qed
      show ?thesis
      proof (cases "matches sp mp (serial_string d) (device_path d)")
        case False
        from Cons.IH [OF skip(2) docs, of matched] obtain L' us okf where
            q: "discover_loop I sp mp types ds matched (L2\<lparr>live := live L\<rparr>) = Inr (L', matched @ us, okf)" "adds (L2\<lparr>live := live L\<rparr>) L' us"
            "okf \<longrightarrow> map device_key us = wanted I sp mp types ds" "(\<forall>n. alloc_ok L n) \<longrightarrow> okf"
          by (auto simp: L2)
        have "adds L L' us" by (rule adds_skip [OF q(2)]) (simp_all add: L2 same n_def)
        moreover have "discover_loop I sp mp types (x # ds) matched L = Inr (L', matched @ us, okf)"
          using type False ok s p free2 [of L2] q(1) x by (simp add: L2)
        ultimately show ?thesis using q(3,4) type False x by (intro exI [of _ L'] exI [of _ us] exI [of _ okf]) (simp add: wanted_def)
      next
        case True
        show ?thesis
        proof (cases "alloc_ok L (Suc (Suc n))")
          case False
          define L3 where "L3 = L2\<lparr>next_id := Suc (Suc (Suc n))\<rparr>"
          have "alloc L2 = (L3, None)" using False by (simp add: alloc_cases L2 L3_def)
          then have "discover_loop I sp mp types (x # ds) matched L = Inr (L3\<lparr>live := live L\<rparr>, matched @ [], False)"
            using type True ok s p free2 [of L3] x by (simp add: L3_def)
          moreover have "adds L (L3\<lparr>live := live L\<rparr>) []" by (auto simp: adds_def L3_def L2 same n_def)
          ultimately show ?thesis using False by blast
        next
          case a: True
          define u where "u = \<lparr>ud_block = Suc (Suc n), ud_serial = (n, serial_string d), ud_ports = (Suc n, device_path d), ud_lu = i\<rparr>"
          define L3 where "L3 = ref_device i (L2\<lparr>live := insert (Suc (Suc n)) (live L2), next_id := Suc (Suc (Suc n))\<rparr>)"
          have al: "alloc L2 = (L2\<lparr>live := insert (Suc (Suc n)) (live L2), next_id := Suc (Suc (Suc n))\<rparr>, Some (Suc (Suc n)))"
            using a by (simp add: alloc_cases L2)
          have l3: "live L3 = live L \<union> {n, Suc n, Suc (Suc n)}" "next_id L3 = Suc (Suc (Suc n))" "alloc_ok L3 = alloc_ok L"
              "refs L3 = (\<lambda>j. refs L j + (if i = j then 1 else 0))" "handles L3 = handles L" "mutexes L3 = mutexes L"
            by (auto simp: L3_def l2 L2 same ref_device_def)
          have "ledger_ok L3" using Cons.prems(1) by (auto simp: ledger_ok_def l3 n_def)
          from Cons.IH [OF this docs, of "matched @ [u]"] obtain L' us okf where
              q: "discover_loop I sp mp types ds (matched @ [u]) L3 = Inr (L', (matched @ [u]) @ us, okf)" "adds L3 L' us"
              "okf \<longrightarrow> map device_key us = wanted I sp mp types ds" "(\<forall>n. alloc_ok L n) \<longrightarrow> okf"
            by (auto simp: l3)
          have "adds L L' (u # us)" using q(2) unfolding adds_def l3 by (auto simp: u_def n_def fun_eq_iff)
          moreover have "okf \<longrightarrow> map device_key (u # us) = wanted I sp mp types (x # ds)"
            using q(3) type True x by (simp add: wanted_def device_key_def u_def)
          moreover have "discover_loop I sp mp types (x # ds) matched L = Inr (L', matched @ u # us, okf)"
            using type True ok s p al q(1) x by (simp add: L3_def u_def)
          ultimately show ?thesis using q(4) by blast
        qed
      qed
    qed
  qed
qed

lemma free_entries_ok:
  assumes "distinct (block_list us)" "set (block_list us) \<subseteq> live L" "\<forall>i. ref_count us i \<le> refs L i"
  shows "run_foldl free_entry L us = Inr (L\<lparr>live := live L - set (block_list us), refs := (\<lambda>i. refs L i - ref_count us i)\<rparr>)"
  using assms
proof (induction us arbitrary: L)
  case (Cons u us)
  define L1 where "L1 = L\<lparr>live := live L - {fst (ud_serial u), fst (ud_ports u), ud_block u}, refs := (refs L)(ud_lu u := refs L (ud_lu u) - 1)\<rparr>"
  have "refs L (ud_lu u) \<noteq> 0" using Cons.prems(3) by (metis Suc_le_D nat.distinct(1) ref_count_simps(2))
  moreover have "live L - {fst (ud_serial u)} - {fst (ud_ports u)} - {ud_block u} = live L - {fst (ud_serial u), fst (ud_ports u), ud_block u}"
    by blast
  moreover have "fst (ud_serial u) \<in> live L" "fst (ud_ports u) \<in> live L" "ud_block u \<in> live L"
      "fst (ud_serial u) \<noteq> fst (ud_ports u)" "fst (ud_serial u) \<noteq> ud_block u" "fst (ud_ports u) \<noteq> ud_block u"
    using Cons.prems(1,2) by auto
  ultimately have f: "free_entry L u = Inr L1"
    by (simp add: free_entry_def unref_device_def release_def L1_def)
  have "\<forall>i. ref_count us i \<le> refs L1 i"
  proof
    fix i
    show "ref_count us i \<le> refs L1 i" using Cons.prems(3) [rule_format, of i] by (auto simp: L1_def split: if_splits)
  qed
  moreover have "set (block_list us) \<subseteq> live L1" using Cons.prems(1,2) by (auto simp: L1_def)
  ultimately have "run_foldl free_entry L1 us = Inr (L1\<lparr>live := live L1 - set (block_list us), refs := (\<lambda>i. refs L1 i - ref_count us i)\<rparr>)"
    using Cons.IH [of L1] Cons.prems(1) by simp
  moreover have "live L1 - set (block_list us) = live L - set (block_list (u # us))" by (auto simp: L1_def)
  moreover have "(\<lambda>i. refs L1 i - ref_count us i) = (\<lambda>i. refs L i - ref_count (u # us) i)" by (auto simp: L1_def fun_eq_iff)
  ultimately show ?case using f by (simp add: L1_def)
qed simp

lemma block_list_mset: "mset us = mset vs \<Longrightarrow> mset (block_list us) = mset (block_list vs)"
proof -
  have "mset (block_list us) = \<Sum>\<^sub># (image_mset (\<lambda>u. mset [fst (ud_serial u), fst (ud_ports u), ud_block u]) (mset us))" for us
    by (induction us) simp_all
  then show "mset us = mset vs \<Longrightarrow> ?thesis" by simp
qed

lemma ref_count_mset: "mset us = mset vs \<Longrightarrow> ref_count us = ref_count vs"
  unfolding ref_count_def by (metis mset_filter size_mset)

lemma documented_enumerate:
  "\<forall>d \<in> set devs. ports_documented d \<Longrightarrow> \<forall>(i, d) \<in> set (enumerate n devs). ports_documented d"
  by (auto simp: in_set_enumerate_eq)

definition is_device_sort :: "(usb_device list \<Rightarrow> usb_device list) \<Rightarrow> bool" where
  "is_device_sort qs \<longleftrightarrow> (\<forall>us. mset (qs us) = mset us \<and> sorted_wrt (\<lambda>a b. sort_devices a b \<le> 0) (qs us))"

lemma discover_matching_ok:
  assumes "CHECK_CTX ctx = PG2SDR_SUCCESS" "is_device_sort qsort" "ledger_ok L" "\<forall>n. alloc_ok L n" "\<forall>d \<in> set devs. ports_documented d"
  shows "\<exists>L' block us L''.
    discover_matching K I qsort (Inr devs) ctx True sp mp types L = Inr (L', Inr (block, us)) \<and>
    mset (map device_key us) = mset (wanted I sp mp types (enumerate 0 devs)) \<and>
    sorted_wrt (\<lambda>a b. sort_devices a b \<le> 0) us \<and>
    live L' = live L \<union> {block} \<union> set (block_list us) \<and> refs L' = (\<lambda>i. refs L i + ref_count us i) \<and>
    free_device_list (Some (block, us)) L' = Inr L'' \<and> live L'' = live L \<and> refs L'' = refs L \<and> ledger_ok L''"
proof -
  define b where "b = next_id L"
  define L1 where "L1 = L\<lparr>live := insert b (live L), next_id := Suc b\<rparr>"
  have a: "alloc L = (L1, Some b)" using assms(4) by (simp add: alloc_success L1_def b_def)
  have bl: "b \<notin> live L" using assms(3) by (auto simp: ledger_ok_def b_def)
  have "ledger_ok L1" "\<forall>n. alloc_ok L1 n" using assms(3,4) by (auto simp: ledger_ok_def L1_def b_def)
  then obtain L' vs where q: "discover_loop I sp mp types (enumerate 0 devs) [] L1 = Inr (L', vs, True)"
      "map device_key vs = wanted I sp mp types (enumerate 0 devs)" "adds L1 L' vs"
    using discover_loop_ok [of L1 "enumerate 0 devs" I sp mp types "[]"] documented_enumerate [OF assms(5)] by auto
  define us where "us = (if 1 < length vs then qsort vs else vs)"
  have m: "mset us = mset vs" using assms(2) by (simp add: us_def is_device_sort_def)
  have "sorted_wrt (\<lambda>a b. sort_devices a b \<le> 0) vs" if "\<not> 1 < length vs"
    using that by (cases vs; cases "tl vs") auto
  then have sorted: "sorted_wrt (\<lambda>a b. sort_devices a b \<le> 0) us" using assms(2) by (simp add: us_def is_device_sort_def)
  have bm: "set (block_list us) = set (block_list vs)" "distinct (block_list us)" "ref_count us = ref_count vs"
    using mset_eq_setD [OF block_list_mset [OF m]] mset_eq_imp_distinct_iff [OF block_list_mset [OF m]] q(3) ref_count_mset [OF m]
    by (simp_all add: adds_def)
  have l': "live L' = live L \<union> {b} \<union> set (block_list us)" "refs L' = (\<lambda>i. refs L i + ref_count us i)"
      "\<forall>x \<in> set (block_list us). Suc b \<le> x"
    using q(3) unfolding adds_def bm by (auto simp: L1_def)
  define L2 where "L2 = L'\<lparr>live := live L' - set (block_list us), refs := (\<lambda>i. refs L' i - ref_count us i)\<rparr>"
  have f: "run_foldl free_entry L' us = Inr L2"
    unfolding L2_def using bm(2) l' by (intro free_entries_ok) auto
  have nb: "b \<notin> set (block_list us)" "set (block_list us) \<inter> live L = {}"
    using l'(3) assms(3) by (fastforce simp: ledger_ok_def b_def)+
  then have "b \<in> live L2" "live L2 - {b} = live L" "refs L2 = refs L" using l'(1,2) bl by (auto simp: L2_def)
  then have "free_device_list (Some (b, us)) L' = Inr (L2\<lparr>live := live L2 - {b}\<rparr>)"
    by (simp add: free_device_list_def f release_def)
  moreover have "discover_matching K I qsort (Inr devs) ctx True sp mp types L = Inr (L', Inr (b, us))"
    using assms(1) a q(1) by (simp add: discover_matching_def us_def)
  moreover have "mset (map device_key us) = mset (wanted I sp mp types (enumerate 0 devs))"
    using q(2) m by (metis mset_map)
  moreover have "next_id L < next_id L2" using q(3) unfolding adds_def by (simp add: L2_def L1_def b_def)
  then have "ledger_ok (L2\<lparr>live := live L2 - {b}\<rparr>)"
    using \<open>live L2 - {b} = live L\<close> assms(3) by (fastforce simp: ledger_ok_def)
  ultimately show ?thesis using sorted l'(1,2) \<open>live L2 - {b} = live L\<close> \<open>refs L2 = refs L\<close>
    by (intro exI [of _ L'] exI [of _ b] exI [of _ us] exI [of _ "L2\<lparr>live := live L2 - {b}\<rparr>"]) simp
qed

text \<open>C8: when memory does not run out, discovery returns exactly the devices of the bus that have a requested type and
  match the serial prefix and the port path, each once, sorted by serial number; the ledger grows by exactly the blocks and references of that list; and freeing
  the list gives everything back without a double release.\<close>

theorem discovery_owns:
  assumes "CHECK_CTX ctx = PG2SDR_SUCCESS" "is_device_sort qsort" "ledger_ok L" "\<forall>n. alloc_ok L n" "\<forall>d \<in> set devs. ports_documented d"
  shows "\<exists>L' block us L''.
    discover_matching K I qsort (Inr devs) ctx True sp mp types L = Inr (L', Inr (block, us)) \<and>
    mset (map device_key us) = mset (wanted I sp mp types (enumerate 0 devs)) \<and>
    sorted_wrt (\<lambda>a b. sort_devices a b \<le> 0) us \<and>
    live L' = live L \<union> {block} \<union> set (block_list us) \<and> refs L' = (\<lambda>i. refs L i + ref_count us i) \<and>
    free_device_list (Some (block, us)) L' = Inr L'' \<and> live L'' = live L \<and> refs L'' = refs L"
  using discover_matching_ok [OF assms] by blast

text \<open>Note: when the list is allocated and a later allocation fails, the error path frees the list twice: pg2sdr_free_device_list
  frees the array itself, and the caller frees it again.\<close>

theorem discovery_double_free:
  assumes "CHECK_CTX ctx = PG2SDR_SUCCESS" "ledger_ok L" "alloc_ok L (next_id L)" "\<forall>d \<in> set devs. ports_documented d"
    and "discover_loop I sp mp types (enumerate 0 devs) [] (fst (alloc L)) = Inr (L1, us, False)"
  shows "discover_matching K I qsort (Inr devs) ctx True sp mp types L = Inl Double_free"
proof -
  define b where "b = next_id L"
  define La where "La = L\<lparr>live := insert b (live L), next_id := Suc b\<rparr>"
  have a: "alloc L = (La, Some b)" using assms(3) by (simp add: alloc_success La_def b_def)
  have "ledger_ok La" using assms(2) by (auto simp: ledger_ok_def La_def b_def)
  then have ad: "adds La L1 us"
    using discover_loop_ok [of La "enumerate 0 devs" I sp mp types "[]"] documented_enumerate [OF assms(4)] assms(5) a by auto
  have "b \<in> live L1" "b \<notin> set (block_list us)" "set (block_list us) \<subseteq> live L1" "\<forall>i. ref_count us i \<le> refs L1 i" "distinct (block_list us)"
    using ad by (auto simp: adds_def La_def)
  then have "free_device_list (Some (b, us)) L1 =
      Inr (L1\<lparr>live := live L1 - set (block_list us) - {b}, refs := (\<lambda>i. refs L1 i - ref_count us i)\<rparr>)"
    by (simp add: free_device_list_def free_entries_ok release_def)
  then show ?thesis using assms(1,5) a by (simp add: discover_matching_def release_def)
qed

subsection \<open>Two devices on a bus\<close>

definition demo_bus :: "bus_device list" where
  "demo_bus = [\<lparr>bd_id = (1, 2), iSerialNumber = 3, open_error = 0, serial_descriptor = Inr ''0002'', bus_number = 1, port_numbers = Inr [4, 11]\<rparr>,
     \<lparr>bd_id = (7, 7), iSerialNumber = 0, open_error = 0, serial_descriptor = Inl (- 1), bus_number = 1, port_numbers = Inr [2]\<rparr>]"

definition demo_ids :: usb_ids where "demo_ids = \<lparr>PG2SDR_ID = (1, 2), AIRSPYMINI_ID = (3, 4)\<rparr>"

definition demo_ledger :: "(nat \<Rightarrow> bool) \<Rightarrow> ledger" where
  "demo_ledger ok = \<lparr>live = {}, next_id = 0, alloc_ok = ok, refs = (\<lambda>_. 0), handles = 0, mutexes = 0\<rparr>"

definition demo_ctx :: pg_context where "demo_ctx = \<lparr>ctx_block = 0, magic = MAGIC_CTX, debug_log = False\<rparr>"

lemma demo_documented: "\<forall>d \<in> set demo_bus. ports_documented d"
  by (simp add: demo_bus_def ports_documented_def)

lemma demo_ctx_ok: "CHECK_CTX (Some demo_ctx) = PG2SDR_SUCCESS"
  by (simp add: CHECK_CTX_def demo_ctx_def)

lemma demo_ledger_ok: "ledger_ok (demo_ledger ok)"
  by (simp add: ledger_ok_def demo_ledger_def)


definition sort_by_serial :: "usb_device list \<Rightarrow> usb_device list" where
  "sort_by_serial us = sort_key (\<lambda>u. map of_char (snd (ud_serial u)) :: nat list) us"

lemma strcmp_le: "strcmp xs ys \<le> 0 \<longleftrightarrow> (map of_char xs :: nat list) \<le> map of_char ys"
  by (induction xs ys rule: strcmp.induct) auto

lemma sort_by_serial_sorts: "is_device_sort sort_by_serial"
proof -
  have "sorted_wrt (\<lambda>a b. (map of_char (snd (ud_serial a)) :: nat list) \<le> map of_char (snd (ud_serial b))) (sort_by_serial us)" for us
    unfolding sort_by_serial_def using sorted_sort_key [of "\<lambda>u. map of_char (snd (ud_serial u)) :: nat list" us]
    by (simp add: sorted_map)
  then show ?thesis by (simp add: is_device_sort_def sort_devices_def strcmp_le) (simp add: sort_by_serial_def)
qed

lemma demo_path: "device_path (demo_bus ! 0) = ''1-4.11''"
  by code_simp

lemma demo_wanted: "wanted demo_ids (Some ''00'') None (DEVTYPE_PG2SDR OR DEVTYPE_AIRSPYMINI) (enumerate 0 demo_bus) = [(0, ''0002'', ''1-4.11'')]"
  using demo_path
  by (simp add: wanted_def demo_bus_def serial_string_def identify_device_def demo_ids_def matches_def prefix_match_def
      DEVTYPE_PG2SDR_def DEVTYPE_AIRSPYMINI_def DEVTYPE_OTHER_def PROTOTYPE_ID_def LPC_ROM_ID_def)

lemma discovery_owns_witness:
  "\<exists>L' block us L''. discover_matching libusb_1_0 demo_ids sort_by_serial (Inr demo_bus) (Some demo_ctx) True (Some ''00'') None
      (DEVTYPE_PG2SDR OR DEVTYPE_AIRSPYMINI) (demo_ledger (\<lambda>_. True)) = Inr (L', Inr (block, us)) \<and>
    map device_key us = [(0, ''0002'', ''1-4.11'')] \<and> free_device_list (Some (block, us)) L' = Inr L'' \<and> live L'' = {}"
proof -
  have "\<forall>n. alloc_ok (demo_ledger (\<lambda>_. True)) n" "live (demo_ledger (\<lambda>_. True)) = {}" by (simp_all add: demo_ledger_def)
  then obtain L' block us L'' where d: "discover_matching libusb_1_0 demo_ids sort_by_serial (Inr demo_bus) (Some demo_ctx) True (Some ''00'') None
      (DEVTYPE_PG2SDR OR DEVTYPE_AIRSPYMINI) (demo_ledger (\<lambda>_. True)) = Inr (L', Inr (block, us))"
      "mset (map device_key us) = {#(0, ''0002'', ''1-4.11'')#}" "free_device_list (Some (block, us)) L' = Inr L''" "live L'' = {}"
    using discovery_owns [OF demo_ctx_ok sort_by_serial_sorts demo_ledger_ok _ demo_documented, of "\<lambda>_. True" libusb_1_0 demo_ids "Some ''00''" None
        "DEVTYPE_PG2SDR OR DEVTYPE_AIRSPYMINI"] unfolding demo_wanted by auto
  then show ?thesis by fastforce
qed

lemma discovery_double_free_witness:
  "discover_matching libusb_1_0 demo_ids sort_by_serial (Inr demo_bus) (Some demo_ctx) True None None
     (DEVTYPE_PG2SDR OR DEVTYPE_AIRSPYMINI) (demo_ledger (\<lambda>n. n = 0)) = Inl Double_free"
proof -
  have a: "alloc_ok (demo_ledger (\<lambda>n. n = 0)) (next_id (demo_ledger (\<lambda>n. n = 0)))" by (simp add: demo_ledger_def)
  define d where "d = demo_bus ! 0"
  define ds where "ds = enumerate (Suc 0) (tl demo_bus)"
  have bus: "enumerate 0 demo_bus = (0, d) # ds" by (simp add: demo_bus_def d_def ds_def)
  have i: "identify_device demo_ids d AND (DEVTYPE_PG2SDR OR DEVTYPE_AIRSPYMINI) \<noteq> 0"
    by (simp add: d_def demo_bus_def identify_device_def demo_ids_def DEVTYPE_PG2SDR_def DEVTYPE_AIRSPYMINI_def)
  have doc: "ports_documented d" by (simp add: d_def demo_bus_def ports_documented_def)
  have "discover_loop demo_ids None None (DEVTYPE_PG2SDR OR DEVTYPE_AIRSPYMINI) (enumerate 0 demo_bus) [] (fst (alloc (demo_ledger (\<lambda>n. n = 0)))) =
      Inr ((demo_ledger (\<lambda>n. n = 0))\<lparr>live := {0}, next_id := 3\<rparr>, [], False)"
    using i strdup_ports_path [OF doc] unfolding bus
    by (simp add: strdup_serial_def strdup_def alloc_def demo_ledger_def Let_def)
  then show ?thesis by (rule discovery_double_free [OF demo_ctx_ok demo_ledger_ok a demo_documented])
qed

lemma port_path_identifies_witness:
  "\<exists>s. strdup_ports (demo_bus ! 0) (demo_ledger (\<lambda>_. True)) = Inr (strdup s (demo_ledger (\<lambda>_. True))) \<and> length s < 33"
  using port_path_identifies [of "demo_bus ! 0" "[4, 11]" "demo_ledger (\<lambda>_. True)"] demo_documented
  by (auto simp: demo_bus_def)

end
