(* ===== verification/DeviceOpenProps.thy ===== *)
theory DeviceOpenProps
  imports DeviceOpen DiscoveryProps
begin

section \<open>What opening and closing a device leave behind\<close>

text \<open>
  The ledger through \<open>open_device\<close> and \<open>close_device\<close>: what a failure gives back, what a handle owns, and what closing it leaks.
\<close>

subsection \<open>Releasing\<close>

definition blocks :: "nat option list \<Rightarrow> nat list" where
  "blocks ps = concat (map (\<lambda>p. case p of None \<Rightarrow> [] | Some n \<Rightarrow> [n]) ps)"

lemma blocks_simps [simp]: "blocks [] = []" "blocks (None # ps) = blocks ps" "blocks (Some n # ps) = n # blocks ps"
  by (simp_all add: blocks_def)

lemma release_blocks:
  "set (blocks [p]) \<subseteq> live L \<Longrightarrow> release p L = Inr (L\<lparr>live := live L - set (blocks [p])\<rparr>)"
  by (cases p) (simp_all add: release_def)

lemma blocks_Cons: "set (blocks (p # ps)) = set (blocks [p]) \<union> set (blocks ps)"
  by (cases p) simp_all

lemma cleanup_nomutex_ok:
  assumes "distinct (blocks [dev, ser, por])" "set (blocks [dev, ser, por]) \<subseteq> live L"
  shows "cleanup_nomutex dev ser por L = Inr (L\<lparr>live := live L - set (blocks [dev, ser, por])\<rparr>)"
proof -
  have "live L - {a} - {b} - {c} = live L - {a, b, c}" "live L - {a} - {b} = live L - {a, b}" for a b c by auto
  then show ?thesis
    using assms by (cases dev; cases ser; cases por) (simp_all add: cleanup_nomutex_def release_def)
qed

lemma cleanup_ok:
  assumes "distinct (blocks [bp, g, dev, ser, por])" "set (blocks [bp, g, dev, ser, por]) \<subseteq> live L"
  shows "cleanup bp g h dev ser por L = Inr (L\<lparr>live := live L - set (blocks [bp, g, dev, ser, por]),
    handles := (if h then handles L - 1 else handles L), mutexes := mutexes L - 1\<rparr>)"
proof -
  define L1 where "L1 = L\<lparr>live := live L - set (blocks [bp])\<rparr>"
  define L2 where "L2 = L1\<lparr>live := live L1 - set (blocks [g])\<rparr>"
  define L3 where "L3 = (if h then L2\<lparr>handles := handles L2 - 1\<rparr> else L2)\<lparr>mutexes := mutexes L2 - 1\<rparr>"
  have "release bp L = Inr L1" unfolding L1_def by (rule release_blocks) (use assms in \<open>auto simp: blocks_def\<close>)
  moreover have "release g L1 = Inr L2"
    unfolding L2_def by (rule release_blocks) (use assms in \<open>auto simp: L1_def blocks_def split: option.splits\<close>)
  moreover have "live L3 = live L - set (blocks [bp, g])" by (cases bp; cases g) (auto simp: L3_def L2_def L1_def)
  then have "set (blocks [dev, ser, por]) \<subseteq> live L3" "distinct (blocks [dev, ser, por])"
    using assms by (auto simp: blocks_def split: option.splits)
  then have "cleanup_nomutex dev ser por L3 = Inr (L3\<lparr>live := live L3 - set (blocks [dev, ser, por])\<rparr>)"
    by (intro cleanup_nomutex_ok)
  moreover have "live L3 - set (blocks [dev, ser, por]) = live L - set (blocks [bp, g, dev, ser, por])"
    unfolding \<open>live L3 = _\<close> by (cases bp; cases g) auto
  moreover have "(if h then L2\<lparr>handles := handles L2 - 1\<rparr> else L2)\<lparr>mutexes := mutexes (if h then L2\<lparr>handles := handles L2 - 1\<rparr> else L2) - 1\<rparr> = L3"
    by (simp add: L3_def)
  ultimately show ?thesis by (cases h) (simp_all add: cleanup_def Let_def L3_def L2_def L1_def)
qed

subsection \<open>What the probe leaves\<close>

text \<open>The gains cached in a new handle are 0, which is also what \<open>init_tuner\<close> resets them to.\<close>

lemma init_tuner_usb:
  assumes "lna_gain d = 0" "mix_gain d = 0" "vga_gain d = 0" and run: "init_tuner E d = (d', e)"
  shows "\<exists>u. d' = d\<lparr>usb := u\<rparr>"
proof -
  obtain u1 e1 where rf: "ctrl_set_rf_power E (usb d) (RF_POWER_RESET (proto E)) (control_timeout_ms d) = (u1, e1)" by fastforce
  obtain d2 i where rd: "read_tuner_bits E (d\<lparr>usb := u1\<rparr>) TUNER_ID = (d2, i)" by fastforce
  then obtain u2 where d2: "d2 = d\<lparr>usb := u2\<rparr>" by (auto simp: read_tuner_bits_def Let_def split: prod.splits if_splits)
  show ?thesis
  proof (cases "e1 < 0 \<or> i < 0 \<or> i \<noteq> 0x96")
    case True
    then show ?thesis using run rf rd d2 by (auto simp: init_tuner_def Let_def split: if_splits)
  next
    case False
    have same: "d2\<lparr>lna_gain := 0, mix_gain := 0, vga_gain := 0\<rparr> = d2" using assms(1-3) d2 by (cases d) simp
    have "apply_tuner_changeset E d2 (set_fields empty_change_set init_tuner_fields) = (d', e)"
      using run rf rd False by (simp add: init_tuner_def Let_def same)
    from apply_tuner_changeset_usb [OF this] show ?thesis by (auto simp: d2)
  qed
qed

text \<open>A device that has been opened and not used: nothing requested, nothing pending, nothing streaming.\<close>

definition probed :: "'u usb_env \<Rightarrow> string \<Rightarrow> string \<Rightarrow> 'u device \<Rightarrow> bool" where
  "probed E ser por d \<longleftrightarrow> CHECK_DEV (Some d) = PG2SDR_SUCCESS \<and> serial d = ser \<and> ports d = por \<and> \<not> streaming d \<and>
     requested_sample_rate d = 0 \<and> requested_frequency d = 0 \<and> \<not> adc_valid (adc_config d) \<and> \<not> pll_valid (tuner_config d) \<and>
     \<not> changing_rate d \<and> \<not> changing_freq d \<and> \<not> changing_bandpass d \<and>
     lna_gain d = 0 \<and> mix_gain d = 0 \<and> vga_gain d = 0 \<and> PG2_COMPAT_VERSION (proto E) \<le> fw_version d"

lemma probed_usb [simp]: "probed E s p (d\<lparr>usb := u\<rparr>) = probed E s p d"
  by (simp add: probed_def)

lemma probe_device_ok:
  assumes run: "probe_device E (blank_device u ser por) = (d, error)" and ok: "\<not> error < 0"
  shows "probed E ser por d"
proof -
  obtain u1 e1 where cc: "ctrl_comms_check E u 0 = (u1, e1)" by fastforce
  obtain u2 e2 m where gm: "ctrl_get_metadata E u1 0 = (u2, e2, m)" by (metis prod_cases3)
  have m: "(m = None) = (e2 < 0)" "m \<noteq> None \<longrightarrow> e2 = PG2SDR_SUCCESS"
    using gm by (auto simp: ctrl_get_metadata_def Let_def split: prod.splits if_splits)
  have e1: "\<not> e1 < 0" using run ok cc by (auto simp: probe_device_def Let_def blank_device_def)
  then obtain m' where m': "m = Some m'"
    using run ok cc gm m by (cases m) (auto simp: probe_device_def Let_def blank_device_def)
  have v: "\<not> md_version m' < PG2_COMPAT_VERSION (proto E)" "\<not> PG2_CURRENT_VERSION (proto E) < md_compat m'"
    using run ok cc gm m' e1 by (auto simp: probe_device_def Let_def blank_device_def split: if_splits)
  obtain u3 e3 st where gs: "ctrl_get_status E u2 False (unat (md_control_timeout_ms m')) = (u3, e3, st)" by (metis prod_cases3)
  have "(st = None) \<longrightarrow> (e3 < 0)" using gs by (auto simp: ctrl_get_status_def Let_def split: prod.splits if_splits)
  then obtain s where s: "st = Some s"
    using run ok cc gm m' e1 v gs by (cases st) (auto simp: probe_device_def Let_def blank_device_def)
  define d0 where "d0 = (blank_device u ser por)\<lparr>fw_version := md_version m', control_timeout_ms := unat (md_control_timeout_ms m'),
      usb := u3, conv_mode := MODE_BASEBAND, adc_limit := 28000000,
      requested_bandpass_low := -100000000, requested_bandpass_high := 100000000,
      decimation_mode := -1, undersampling_mode := 1,
      usb_bytes_per_block := st_field s ST_usb_bytes_per_block,
      usb_samples_per_block := st_field s ST_usb_samples_per_block,
      tuner_xtal := st_field s ST_tuner_xtal, buffer_size := 262144\<rparr>"
  have "init_tuner E d0 = (d, error)"
    using run cc gm m' e1 v gs s by (simp add: probe_device_def Let_def blank_device_def d0_def no_adc_config_def no_tuner_config_def)
  moreover have "lna_gain d0 = 0" "mix_gain d0 = 0" "vga_gain d0 = 0" by (simp_all add: d0_def blank_device_def)
  ultimately obtain u4 where "d = d0\<lparr>usb := u4\<rparr>" using init_tuner_usb by blast
  then show ?thesis using v
    by (simp add: probed_def d0_def blank_device_def CHECK_DEV_def no_adc_config_def no_tuner_config_def)
qed


subsection \<open>The tables\<close>

definition tables_documented :: "default_tables \<Rightarrow> bool" where
  "tables_documented T \<longleftrightarrow> default_gain_table T \<noteq> [] \<and> default_bandpass_table T \<noteq> [] \<and>
     length (default_lna_table T) = 16 \<and> length (default_mix_table T) = 16 \<and> length (default_vga_table T) = 16"

definition ready :: "'u usb_env \<Rightarrow> default_tables \<Rightarrow> string \<Rightarrow> string \<Rightarrow> 'u device \<Rightarrow> bool" where
  "ready E T ser por d \<longleftrightarrow> probed E ser por d \<and> gain_inv d \<and> mset (gain_table d) = mset (default_gain_table T) \<and>
     current_gain_entry d = None \<and> bandpass_table d = default_bandpass_table T \<and> current_bandpass_entry d = None"

lemma ready_config:
  "ready E T ser por d \<Longrightarrow> tables_documented T \<Longrightarrow> 0 < usb_samples_per_block d \<Longrightarrow> config_inv tab d"
  by (auto simp: ready_def probed_def tables_documented_def config_defs)

text \<open>What an attempt to open has made of the ledger, given the blocks \<open>gone\<close> that it took over.\<close>

definition settled ::
  "'u usb_env \<Rightarrow> default_tables \<Rightarrow> string \<Rightarrow> string \<Rightarrow> nat \<Rightarrow> nat \<Rightarrow> ledger \<Rightarrow> nat set \<Rightarrow> ledger \<times> (int + 'u opened) \<Rightarrow> bool" where
  "settled E T ser por s p L gone res \<longleftrightarrow> (case res of
     (L', Inl e) \<Rightarrow> live L' = live L - gone \<and> handles L' = handles L \<and> mutexes L' = mutexes L
   | (L', Inr od) \<Rightarrow> ready E T ser por (od_dev od) \<and> od_serial od = s \<and> od_ports od = p \<and>
       distinct [od_block od, od_gain_table od, od_bandpass_table od] \<and>
       {od_block od, od_gain_table od, od_bandpass_table od} \<inter> live L = {} \<and>
       live L' = live L \<union> {od_block od, od_gain_table od, od_bandpass_table od} \<and>
       handles L' = Suc (handles L) \<and> mutexes L' = Suc (mutexes L))"

lemma fail_with_ok: "r = Inr L' \<Longrightarrow> fail_with e r = Inr (L', Inl e)"
  by (simp add: fail_with_def)

lemma load_tables_ok:
  assumes "ledger_ok L" "is_qsort qs" "tables_documented T" "probed E ser por d"
    and own: "distinct [b, s, p]" "{b, s, p} \<subseteq> live L"
    and L0: "live L = insert b (live L0)" "b \<notin> live L0" "handles L = Suc (handles L0)" "mutexes L = Suc (mutexes L0)"
  shows "\<exists>res. load_tables qs T b s p d L = Inr res \<and> settled E T ser por s p L0 {s, p} res"
proof -
  define n where "n = next_id L"
  have fresh: "n \<notin> live L" "Suc n \<notin> live L" using assms(1) by (auto simp: ledger_ok_def n_def)
  have chk: "CHECK_DEV (Some d) = PG2SDR_SUCCESS" using assms(4) by (simp add: probed_def)
  define d1 where "d1 = d\<lparr>lna_table := default_lna_table T, mix_table := default_mix_table T, vga_table := default_vga_table T\<rparr>"
  define d2 where "d2 = d1\<lparr>gain_table := qs (default_gain_table T), current_gain_entry := None\<rparr>"
  define d3 where "d3 = d2\<lparr>bandpass_table := default_bandpass_table T, current_bandpass_entry := None\<rparr>"
  have sg: "set_gain_tables a qs (Some d) (Some (default_gain_table T)) (Some (default_lna_table T)) (Some (default_mix_table T))
      (Some (default_vga_table T)) = Inr (if a then (Some d2, PG2SDR_SUCCESS) else (Some d1, PG2SDR_ERROR_NO_MEMORY))" for a
    unfolding set_gain_tables_def with_dev_ok [OF chk] using assms(3) by (simp add: tables_documented_def d2_def d1_def)
  have chk2: "CHECK_DEV (Some d2) = PG2SDR_SUCCESS" using chk by (simp add: d2_def d1_def)
  have sb: "set_bandpass_table a (Some d2) (Some (default_bandpass_table T)) =
      Inr (if a then (Some d3, PG2SDR_SUCCESS) else (Some d2, PG2SDR_ERROR_NO_MEMORY))" for a
    using assms(3) by (simp add: set_bandpass_table_def chk2 tables_documented_def d3_def)
  have rest: "live L - {b, s, p} = live L0 - {s, p}" using L0(1,2) own by auto
  show ?thesis
  proof (cases "alloc_ok L n")
    case False
    define L1 where "L1 = L\<lparr>next_id := Suc n\<rparr>"
    have "alloc L = (L1, None)" using False by (simp add: alloc_cases n_def L1_def)
    then have "load_tables qs T b s p d L = fail_with PG2SDR_ERROR_NO_MEMORY (cleanup None None True (Some b) (Some s) (Some p) L1)"
      by (simp add: load_tables_def sg)
    also have "... = Inr (L1\<lparr>live := live L - {b, s, p}, handles := handles L - 1, mutexes := mutexes L - 1\<rparr>, Inl PG2SDR_ERROR_NO_MEMORY)"
      by (rule fail_with_ok) (use own in \<open>simp add: cleanup_ok L1_def\<close>)
    finally show ?thesis using L0 rest by (simp add: settled_def)
  next
    case gain: True
    define L1 where "L1 = L\<lparr>live := insert n (live L), next_id := Suc n\<rparr>"
    have a1: "alloc L = (L1, Some n)" using gain by (simp add: alloc_cases n_def L1_def)
    show ?thesis
    proof (cases "alloc_ok L (Suc n)")
      case False
      define L2 where "L2 = L1\<lparr>next_id := Suc (Suc n)\<rparr>"
      have "alloc L1 = (L2, None)" using False by (simp add: alloc_cases L1_def L2_def)
      then have "load_tables qs T b s p d L = fail_with PG2SDR_ERROR_NO_MEMORY (cleanup None (Some n) True (Some b) (Some s) (Some p) L2)"
        by (simp add: load_tables_def a1 sg sb)
      also have "... = Inr (L2\<lparr>live := live L2 - {n, b, s, p}, handles := handles L - 1, mutexes := mutexes L - 1\<rparr>, Inl PG2SDR_ERROR_NO_MEMORY)"
        by (rule fail_with_ok) (use own fresh in \<open>subst cleanup_ok; auto simp: L2_def L1_def\<close>)
      finally have r: "load_tables qs T b s p d L =
        Inr (L2\<lparr>live := live L2 - {n, b, s, p}, handles := handles L - 1, mutexes := mutexes L - 1\<rparr>, Inl PG2SDR_ERROR_NO_MEMORY)" .
      have "live L2 - {n, b, s, p} = live L0 - {s, p}" using rest fresh by (auto simp: L2_def L1_def)
      then show ?thesis using r L0 by (simp add: settled_def)
    next
      case True
      define L2 where "L2 = L1\<lparr>live := insert (Suc n) (live L1), next_id := Suc (Suc n)\<rparr>"
      have "alloc L1 = (L2, Some (Suc n))" using True by (simp add: alloc_cases L1_def L2_def)
      then have r: "load_tables qs T b s p d L = Inr (L2, Inr \<lparr>od_dev = d3, od_block = b, od_serial = s, od_ports = p,
          od_gain_table = n, od_bandpass_table = Suc n\<rparr>)"
        by (simp add: load_tables_def a1 sg sb)
      have "gain_inv d3"
        using chk assms(3,4) qsort_sorted(1,2) [OF assms(2)]
        by (simp add: gain_inv_def d3_def d2_def d1_def tables_documented_def probed_def CHECK_DEV_def)
      moreover have "probed E ser por d3"
        using assms(4) by (simp add: probed_def d3_def d2_def d1_def CHECK_DEV_def)
      moreover have "mset (gain_table d3) = mset (default_gain_table T)" "current_gain_entry d3 = None"
          "bandpass_table d3 = default_bandpass_table T" "current_bandpass_entry d3 = None"
        using qsort_sorted(3) [OF assms(2)] by (simp_all add: d3_def d2_def)
      ultimately have "ready E T ser por d3" by (simp add: ready_def)
      moreover have "live L2 = live L0 \<union> {b, n, Suc n}" "handles L2 = Suc (handles L0)" "mutexes L2 = Suc (mutexes L0)"
        using L0 by (auto simp: L2_def L1_def)
      moreover have "distinct [b, n, Suc n]" "{b, n, Suc n} \<inter> live L0 = {}" using fresh own L0 by auto
      ultimately show ?thesis using r by (simp add: settled_def)
    qed
  qed
qed

subsection \<open>build_device\<close>

lemma build_device_ok:
  assumes L: "ledger_ok L" and tabs: "is_qsort qs" "tables_documented T"
    and own: "distinct [s, p]" "{s, p} \<subseteq> live L"
  shows "\<exists>res. build_device E qs T R u (Some (s, ser)) (Some (p, por)) L = Inr res \<and> settled E T ser por s p L {s, p} res"
proof -
  define n where "n = next_id L"
  have fresh: "n \<notin> live L" using L by (auto simp: ledger_ok_def n_def)
  show ?thesis
  proof (cases "alloc_ok L n")
    case False
    have a: "alloc L = (L\<lparr>next_id := Suc n\<rparr>, None)" using False by (simp add: alloc_cases n_def)
    have "build_device E qs T R u (Some (s, ser)) (Some (p, por)) L =
        Inr (L\<lparr>next_id := Suc n, live := live L - {s, p}\<rparr>, Inl PG2SDR_ERROR_NO_MEMORY)"
      unfolding build_device_def using own by (simp add: a cleanup_nomutex_ok fail_with_def)
    then show ?thesis by (simp add: settled_def)
  next
    case True
    define L1 where "L1 = L\<lparr>live := insert n (live L), next_id := Suc n\<rparr>"
    define L2 where "L2 = L1\<lparr>mutexes := Suc (mutexes L)\<rparr>"
    define L3 where "L3 = L2\<lparr>handles := Suc (handles L)\<rparr>"
    have a: "alloc L = (L1, Some n)" using True by (simp add: alloc_cases n_def L1_def)
    have own3: "distinct [n, s, p]" "{n, s, p} \<subseteq> live L1" using own fresh by (auto simp: L1_def)
    have gone: "live L1 - {n, s, p} = live L - {s, p}" using fresh own by (auto simp: L1_def)
    have f1: "fail_with e (cleanup_nomutex (Some n) (Some s) (Some p) L1) = Inr (L1\<lparr>live := live L - {s, p}\<rparr>, Inl e)" for e
      using own3 gone by (simp add: fail_with_def cleanup_nomutex_ok)
    have f2: "fail_with e (cleanup None None False (Some n) (Some s) (Some p) L2) =
        Inr (L2\<lparr>live := live L - {s, p}, mutexes := mutexes L\<rparr>, Inl e)" for e
      using own3 gone by (simp add: fail_with_def cleanup_ok L2_def)
    have f3: "fail_with e (cleanup None None True (Some n) (Some s) (Some p) L3) =
        Inr (L3\<lparr>live := live L - {s, p}, handles := handles L, mutexes := mutexes L\<rparr>, Inl e)" for e
      using own3 gone by (simp add: fail_with_def cleanup_ok L3_def L2_def)
    have m2: "L1\<lparr>mutexes := Suc (mutexes L1)\<rparr> = L2" and h3: "L2\<lparr>handles := Suc (handles L2)\<rparr> = L3"
      by (simp_all add: L1_def L2_def L3_def)
    obtain d error where pr: "probe_device E (blank_device u ser por) = (d, error)" by fastforce
    have b: "build_device E qs T R u (Some (s, ser)) (Some (p, por)) L =
      (if mutex_result R < 0 then Inr (L1\<lparr>live := live L - {s, p}\<rparr>, Inl (translate_errno (open_errno R)))
       else if open_result R < 0 then Inr (L2\<lparr>live := live L - {s, p}, mutexes := mutexes L\<rparr>, Inl (translate_libusb_error (lu E) (open_result R)))
       else if set_configuration_result R < 0 then Inr (L3\<lparr>live := live L - {s, p}, handles := handles L, mutexes := mutexes L\<rparr>,
         Inl (translate_libusb_error (lu E) (set_configuration_result R)))
       else if claim_interface_result R < 0 then Inr (L3\<lparr>live := live L - {s, p}, handles := handles L, mutexes := mutexes L\<rparr>,
         Inl (translate_libusb_error (lu E) (claim_interface_result R)))
       else if error < 0 then Inr (L3\<lparr>live := live L - {s, p}, handles := handles L, mutexes := mutexes L\<rparr>, Inl error)
       else load_tables qs T n s p d L3)"
      by (simp add: build_device_def a Let_def pr f1 L2_def [symmetric] L3_def [symmetric] m2 h3 f2 f3)
    show ?thesis
    proof (cases "mutex_result R < 0 \<or> open_result R < 0 \<or> set_configuration_result R < 0 \<or> claim_interface_result R < 0 \<or> error < 0")
      case True
      then show ?thesis by (subst b) (auto simp: settled_def L3_def L2_def L1_def)
    next
      case False
      have "ledger_ok L3" using L by (auto simp: ledger_ok_def L3_def L2_def L1_def n_def)
      then have "\<exists>res. load_tables qs T n s p d L3 = Inr res \<and> settled E T ser por s p L {s, p} res"
        using tabs probe_device_ok [OF pr] False own3 fresh
        by (intro load_tables_ok) (simp_all add: L3_def L2_def L1_def)
      then show ?thesis using False by (subst b) simp
    qed
  qed
qed


subsection \<open>Opening and closing\<close>

definition owned :: "'u opened \<Rightarrow> nat list" where
  "owned od = [od_serial od, od_ports od, od_block od, od_gain_table od, od_bandpass_table od]"

lemma strdup_cases:
  assumes "ledger_ok L"
  obtains (fail) L' where "strdup t L = (L', None)" "live L' = live L" "ledger_ok L'" "handles L' = handles L" "mutexes L' = mutexes L"
  | (ok) L' n where "strdup t L = (L', Some (n, t))" "n \<notin> live L" "live L' = insert n (live L)" "ledger_ok L'" "handles L' = handles L"
      "mutexes L' = mutexes L"
proof (cases "alloc_ok L (next_id L)")
  case True
  then show ?thesis using assms
    by (intro ok [of "fst (alloc L)" "next_id L"]) (auto simp: strdup_def alloc_cases ledger_ok_def less_Suc_eq)
next
  case False
  then show ?thesis using assms
    by (intro fail [of "fst (alloc L)"]) (auto simp: strdup_def alloc_cases ledger_ok_def less_Suc_eq)
qed

definition open_ends ::
  "'u usb_env \<Rightarrow> default_tables \<Rightarrow> string \<Rightarrow> string \<Rightarrow> ledger \<Rightarrow> ledger \<times> (int + 'u opened) \<Rightarrow> bool" where
  "open_ends E T ser por L res \<longleftrightarrow> (case res of
     (L', Inl e) \<Rightarrow> live L' = live L \<and> handles L' = handles L \<and> mutexes L' = mutexes L
   | (L', Inr od) \<Rightarrow> ready E T ser por (od_dev od) \<and> distinct (owned od) \<and> set (owned od) \<inter> live L = {} \<and>
       live L' = live L \<union> set (owned od) \<and> handles L' = Suc (handles L) \<and> mutexes L' = Suc (mutexes L))"

lemma build_device_none:
  assumes "distinct (blocks [map_option fst so, map_option fst po])" "set (blocks [map_option fst so, map_option fst po]) \<subseteq> live L"
    "so = None \<or> po = None"
  shows "build_device E qs T R u so po L =
    Inr (L\<lparr>live := live L - set (blocks [map_option fst so, map_option fst po])\<rparr>, Inl PG2SDR_ERROR_NO_MEMORY)"
  using assms by (cases so; cases po) (auto simp: build_device_def cleanup_nomutex_ok fail_with_def)

lemma open_strings_ok:
  assumes L: "ledger_ok L" and tabs: "is_qsort qs" "tables_documented T"
    and st: "strdup t1 L = (L1, so)" "strdup t2 L1 = (L2, po)"
  shows "\<exists>res. build_device E qs T R u so po L2 = Inr res \<and> open_ends E T t1 t2 L res"
  using L
proof (cases rule: strdup_cases [where t = t1])
  case fail
  then have l1: "live L1 = live L" "ledger_ok L1" "handles L1 = handles L" "mutexes L1 = mutexes L" "so = None" using st(1) by simp_all
  from l1(2) show ?thesis
    by (cases rule: strdup_cases [where t = t2]) (use st(2) l1 in \<open>auto simp: build_device_none open_ends_def\<close>)
next
  case (ok L1' s)
  then have l1: "live L1 = insert s (live L)" "ledger_ok L1" "handles L1 = handles L" "mutexes L1 = mutexes L" "so = Some (s, t1)"
      "s \<notin> live L"
    using st(1) by simp_all
  from l1(2) show ?thesis
  proof (cases rule: strdup_cases [where t = t2])
    case fail
    then show ?thesis using st(2) l1 by (auto simp: build_device_none open_ends_def)
  next
    case (ok L2' p)
    then have l2: "live L2 = insert p (live L1)" "ledger_ok L2" "handles L2 = handles L" "mutexes L2 = mutexes L" "po = Some (p, t2)"
        "p \<notin> live L1"
      using st(2) l1 by simp_all
    obtain res where r: "build_device E qs T R u so po L2 = Inr res" "settled E T t1 t2 s p L2 {s, p} res"
      using build_device_ok [OF l2(2) tabs, where s = s and p = p and E = E and R = R and u = u and ser = t1 and por = t2] l1 l2 by auto
    have "open_ends E T t1 t2 L res"
    proof (cases res)
      case (Pair L' r')
      show ?thesis
      proof (cases r')
        case (Inl e)
        then show ?thesis using r(2) l1 l2 Pair by (auto simp: settled_def open_ends_def)
      next
        case (Inr od)
        then have "ready E T t1 t2 (od_dev od)" "od_serial od = s" "od_ports od = p"
          "distinct [od_block od, od_gain_table od, od_bandpass_table od]"
          "{od_block od, od_gain_table od, od_bandpass_table od} \<inter> live L2 = {}"
          "live L' = live L2 \<union> {od_block od, od_gain_table od, od_bandpass_table od}"
          "handles L' = Suc (handles L)" "mutexes L' = Suc (mutexes L)"
          using r(2) Pair l2(3,4) by (simp_all add: settled_def)
        then show ?thesis using l1(1,6) l2(1,6) Pair Inr by (auto simp: open_ends_def owned_def)
      qed
    qed
    with r(1) show ?thesis by blast
  qed
qed


lemma opened_facts:
  assumes "ledger_ok L" "is_qsort qs" "tables_documented T" "CHECK_CTX ctx = PG2SDR_SUCCESS"
    and "open_device E qs T R ctx u (Some ud) True L = Inr (L', Inr od)"
  shows "CHECK_DEV (Some (od_dev od)) = PG2SDR_SUCCESS" "\<not> streaming (od_dev od)" "distinct (owned od)" "set (owned od) \<inter> live L = {}"
    "live L' = live L \<union> set (owned od)" "handles L' = Suc (handles L)" "mutexes L' = Suc (mutexes L)"
proof -
  obtain L1 so where s: "strdup (snd (ud_serial ud)) L = (L1, so)" by fastforce
  obtain L2 po where p: "strdup (snd (ud_ports ud)) L1 = (L2, po)" by fastforce
  have "build_device E qs T R u so po L2 = Inr (L', Inr od)"
    using assms(4,5) by (simp add: open_device_def s p)
  then have "open_ends E T (snd (ud_serial ud)) (snd (ud_ports ud)) L (L', Inr od)"
    using open_strings_ok [OF assms(1-3) s p, where E = E and R = R and u = u] by simp
  then show "CHECK_DEV (Some (od_dev od)) = PG2SDR_SUCCESS" "\<not> streaming (od_dev od)" "distinct (owned od)" "set (owned od) \<inter> live L = {}"
      "live L' = live L \<union> set (owned od)" "handles L' = Suc (handles L)" "mutexes L' = Suc (mutexes L)"
    by (simp_all add: open_ends_def ready_def probed_def)
qed

text \<open>Note: closing a device that has just been opened, whatever the power-off request does, frees its handle,
  its mutex, its tables and the handle's block, but not the copies of the serial number and the port path that \<open>build_device\<close> took over: exactly these
  two blocks stay allocated after every cycle of open and close.\<close>

theorem close_device_leaks:
  assumes "ledger_ok L" "is_qsort qs" "tables_documented T" "CHECK_CTX ctx = PG2SDR_SUCCESS"
    and opened: "open_device E qs T R ctx u (Some ud) True L = Inr (L', Inr od)"
  shows "\<exists>L'' od'. close_device E' od L' = Inr (L'', od', PG2SDR_SUCCESS) \<and>
    live L'' = live L \<union> {od_serial od, od_ports od} \<and> od_serial od \<noteq> od_ports od \<and> {od_serial od, od_ports od} \<inter> live L = {} \<and>
    handles L'' = handles L \<and> mutexes L'' = mutexes L \<and> dev_magic (od_dev od') = MAGIC_FREE"
proof -
  note f = opened_facts [OF assms]
  obtain w e where rf: "ctrl_set_rf_power E' (usb (od_dev od)) (RF_POWER_OFF (proto E')) (control_timeout_ms (od_dev od)) = (w, e)" by fastforce
  have own: "od_gain_table od \<in> live L'" "od_bandpass_table od \<in> live L'" "od_block od \<in> live L'"
      "od_bandpass_table od \<noteq> od_gain_table od" "od_block od \<noteq> od_gain_table od" "od_block od \<noteq> od_bandpass_table od"
    using f(3,5) by (auto simp: owned_def)
  have "live L' - {od_gain_table od} - {od_bandpass_table od} - {od_block od} = live L \<union> {od_serial od, od_ports od}"
      and "od_serial od \<noteq> od_ports od" "{od_serial od, od_ports od} \<inter> live L = {}"
    using f(3-5) by (auto simp: owned_def)
  then show ?thesis
    using f(1,2,6,7) own rf by (simp add: close_device_def release_def)
qed

subsection \<open>A device that answers\<close>

definition answering_env :: "unit usb_env" where
  "answering_env = accepting_env\<lparr>libusb_control_transfer :=
     (\<lambda>u s. (u, uint (wLength s),
       if \<not> dir_in s then []
       else if bRequest s = 5 then [0x78, 0x56, 0x34, 0x12]
       else if bRequest s = 4 then [0, 7, 9, 0, 0, 0, 9, 0] @ replicate (unat (wLength s) - 8) 0
       else replicate (unat (wLength s)) 0x96))\<rparr>"

definition demo_tables :: default_tables where
  "demo_tables = \<lparr>default_gain_table = gain_table gain_device, default_lna_table = lna_table gain_device,
     default_mix_table = mix_table gain_device, default_vga_table = vga_table gain_device,
     default_bandpass_table = bandpass_table bandpass_device\<rparr>"

definition open_demo_results :: open_results where
  "open_demo_results = \<lparr>mutex_result = 0, open_errno = 0, open_result = 0, set_configuration_result = 0, claim_interface_result = 0\<rparr>"

definition open_demo :: usb_device where
  "open_demo = \<lparr>ud_block = 0, ud_serial = (1, ''0002''), ud_ports = (2, ''1-4''), ud_lu = 0\<rparr>"

lemma demo_tables_documented: "tables_documented demo_tables"
  by (simp add: tables_documented_def demo_tables_def gain_device_def bandpass_device_def)

lemma answering_probe:
  "\<exists>d. probe_device answering_env (blank_device () ser por) = (d, PG2SDR_SUCCESS)"
proof -
  have "ctrl_comms_check answering_env () 0 = ((), PG2SDR_SUCCESS)" by code_simp
  moreover obtain m where m: "ctrl_get_metadata answering_env () 0 = ((), PG2SDR_SUCCESS, Some m)"
      "\<not> PG2_CURRENT_VERSION (proto answering_env) < md_compat m" "\<not> md_version m < PG2_COMPAT_VERSION (proto answering_env)"
      "unat (md_control_timeout_ms m) = 0"
  proof -
    have "case ctrl_get_metadata answering_env () 0 of (u, e, Some m) \<Rightarrow> e = PG2SDR_SUCCESS \<and>
        \<not> PG2_CURRENT_VERSION (proto answering_env) < md_compat m \<and> \<not> md_version m < PG2_COMPAT_VERSION (proto answering_env) \<and>
        md_control_timeout_ms m = 0 | _ \<Rightarrow> False" by code_simp
    then show ?thesis using that by (auto split: prod.splits option.splits)
  qed
  moreover obtain st where "ctrl_get_status answering_env () False 0 = ((), PG2SDR_SUCCESS, Some st)"
  proof -
    have "case ctrl_get_status answering_env () False 0 of (u, e, Some m) \<Rightarrow> e = PG2SDR_SUCCESS | _ \<Rightarrow> False" by code_simp
    then show ?thesis using that by (auto split: prod.splits option.splits)
  qed
  moreover have "init_tuner answering_env d = (d, PG2SDR_SUCCESS)"
    if "control_timeout_ms d = 0" "lna_gain d = 0" "mix_gain d = 0" "vga_gain d = 0" for d
  proof -
    have "read_tuner_bits answering_env d TUNER_ID = (d, 0x96)"
    proof -
      have "ctrl_read_tuner_register answering_env () (of_nat (fld_reg TUNER_ID)) (CACHE_NORMAL (proto answering_env)) 1 0 = ((), 0, [0x96])"
        by code_simp
      moreover have "uint (drop_bit (fld_offset TUNER_ID) (le_at 1 0 [0x96] AND fld_mask TUNER_ID)) = (0x96 :: int)" by code_simp
      ultimately show ?thesis using that by (simp add: read_tuner_bits_def)
    qed
    then have rd: "read_tuner_bits answering_env d TUNER_ID = (d, 0x96)" .
    have rf: "ctrl_set_rf_power answering_env () (RF_POWER_RESET (proto answering_env)) 0 = ((), PG2SDR_SUCCESS)" by code_simp
    have up: "ctrl_tuner_update answering_env () 5 init_payload_bytes 0 = ((), PG2SDR_SUCCESS)" by code_simp
    have d: "control_timeout_ms d = 0" "d\<lparr>usb := ()\<rparr> = d" "d\<lparr>lna_gain := 0, mix_gain := 0, vga_gain := 0\<rparr> = d" "usb d = ()"
      using that by (cases d; simp)+
    have "apply_tuner_changeset answering_env d (set_fields empty_change_set init_tuner_fields) = (d, PG2SDR_SUCCESS)"
      unfolding apply_tuner_changeset_def init_payload using up by (simp add: d)
    then show ?thesis unfolding init_tuner_def d(1,4) rf Let_def prod.case d(2) rd d(3) by simp
  qed
  ultimately show ?thesis by (simp add: probe_device_def Let_def blank_device_def)
qed

lemma demo_open:
  "\<exists>L' od. open_device answering_env (sort_key gain_db) demo_tables open_demo_results (Some demo_ctx) () (Some open_demo) True
     (demo_ledger (\<lambda>_. True)) = Inr (L', Inr od)"
proof -
  obtain d where d: "probe_device answering_env (blank_device () ''0002'' ''1-4'') = (d, PG2SDR_SUCCESS)"
    using answering_probe by blast
  have p: "probed answering_env ''0002'' ''1-4'' d" using probe_device_ok [OF d] by simp
  then have chk: "CHECK_DEV (Some d) = PG2SDR_SUCCESS" by (simp add: probed_def)
  have tab: "default_gain_table demo_tables \<noteq> []" "default_bandpass_table demo_tables \<noteq> []"
    using demo_tables_documented by (simp_all add: tables_documented_def)
  have "\<exists>L' od. load_tables (sort_key gain_db) demo_tables b s p d L = Inr (L', Inr od)" if "\<forall>n. alloc_ok L n" for b s p L
    unfolding load_tables_def set_gain_tables_def with_dev_ok [OF chk] set_bandpass_table_def
    using that tab chk by (simp add: alloc_cases CHECK_DEV_def split: if_splits)
  then show ?thesis
    using demo_ctx_ok d by (simp add: open_device_def strdup_def alloc_cases demo_ledger_def open_demo_def build_device_def open_demo_results_def)
qed


theorem close_device_leaks_witness:
  "\<exists>L' od L'' od'. open_device answering_env (sort_key gain_db) demo_tables open_demo_results (Some demo_ctx) () (Some open_demo) True
     (demo_ledger (\<lambda>_. True)) = Inr (L', Inr od) \<and>
   close_device answering_env od L' = Inr (L'', od', PG2SDR_SUCCESS) \<and> live L'' = {od_serial od, od_ports od} \<and> handles L'' = 0"
proof -
  obtain L' od where o: "open_device answering_env (sort_key gain_db) demo_tables open_demo_results (Some demo_ctx) () (Some open_demo) True
     (demo_ledger (\<lambda>_. True)) = Inr (L', Inr od)" using demo_open by blast
  then show ?thesis
    using close_device_leaks [OF demo_ledger_ok sort_key_is_qsort demo_tables_documented demo_ctx_ok o, of answering_env]
    by (auto simp: demo_ledger_def)
qed

end
