(* ===== verification/Crc.thy ===== *)
theory Crc
  imports PgPrelude
begin

section \<open>The checksum of firmware images (cli/pg2-util/image.c)\<close>

text \<open>The table of the code, and the loop that uses it. The table's type in C is wider, its values fit 32 bits.\<close>

definition dfu_crc_table :: "u32 list" where
  "dfu_crc_table = [
     0x00000000, 0x77073096, 0xee0e612c, 0x990951ba, 0x076dc419, 0x706af48f, 0xe963a535, 0x9e6495a3,
     0x0edb8832, 0x79dcb8a4, 0xe0d5e91e, 0x97d2d988, 0x09b64c2b, 0x7eb17cbd, 0xe7b82d07, 0x90bf1d91,
     0x1db71064, 0x6ab020f2, 0xf3b97148, 0x84be41de, 0x1adad47d, 0x6ddde4eb, 0xf4d4b551, 0x83d385c7,
     0x136c9856, 0x646ba8c0, 0xfd62f97a, 0x8a65c9ec, 0x14015c4f, 0x63066cd9, 0xfa0f3d63, 0x8d080df5,
     0x3b6e20c8, 0x4c69105e, 0xd56041e4, 0xa2677172, 0x3c03e4d1, 0x4b04d447, 0xd20d85fd, 0xa50ab56b,
     0x35b5a8fa, 0x42b2986c, 0xdbbbc9d6, 0xacbcf940, 0x32d86ce3, 0x45df5c75, 0xdcd60dcf, 0xabd13d59,
     0x26d930ac, 0x51de003a, 0xc8d75180, 0xbfd06116, 0x21b4f4b5, 0x56b3c423, 0xcfba9599, 0xb8bda50f,
     0x2802b89e, 0x5f058808, 0xc60cd9b2, 0xb10be924, 0x2f6f7c87, 0x58684c11, 0xc1611dab, 0xb6662d3d,
     0x76dc4190, 0x01db7106, 0x98d220bc, 0xefd5102a, 0x71b18589, 0x06b6b51f, 0x9fbfe4a5, 0xe8b8d433,
     0x7807c9a2, 0x0f00f934, 0x9609a88e, 0xe10e9818, 0x7f6a0dbb, 0x086d3d2d, 0x91646c97, 0xe6635c01,
     0x6b6b51f4, 0x1c6c6162, 0x856530d8, 0xf262004e, 0x6c0695ed, 0x1b01a57b, 0x8208f4c1, 0xf50fc457,
     0x65b0d9c6, 0x12b7e950, 0x8bbeb8ea, 0xfcb9887c, 0x62dd1ddf, 0x15da2d49, 0x8cd37cf3, 0xfbd44c65,
     0x4db26158, 0x3ab551ce, 0xa3bc0074, 0xd4bb30e2, 0x4adfa541, 0x3dd895d7, 0xa4d1c46d, 0xd3d6f4fb,
     0x4369e96a, 0x346ed9fc, 0xad678846, 0xda60b8d0, 0x44042d73, 0x33031de5, 0xaa0a4c5f, 0xdd0d7cc9,
     0x5005713c, 0x270241aa, 0xbe0b1010, 0xc90c2086, 0x5768b525, 0x206f85b3, 0xb966d409, 0xce61e49f,
     0x5edef90e, 0x29d9c998, 0xb0d09822, 0xc7d7a8b4, 0x59b33d17, 0x2eb40d81, 0xb7bd5c3b, 0xc0ba6cad,
     0xedb88320, 0x9abfb3b6, 0x03b6e20c, 0x74b1d29a, 0xead54739, 0x9dd277af, 0x04db2615, 0x73dc1683,
     0xe3630b12, 0x94643b84, 0x0d6d6a3e, 0x7a6a5aa8, 0xe40ecf0b, 0x9309ff9d, 0x0a00ae27, 0x7d079eb1,
     0xf00f9344, 0x8708a3d2, 0x1e01f268, 0x6906c2fe, 0xf762575d, 0x806567cb, 0x196c3671, 0x6e6b06e7,
     0xfed41b76, 0x89d32be0, 0x10da7a5a, 0x67dd4acc, 0xf9b9df6f, 0x8ebeeff9, 0x17b7be43, 0x60b08ed5,
     0xd6d6a3e8, 0xa1d1937e, 0x38d8c2c4, 0x4fdff252, 0xd1bb67f1, 0xa6bc5767, 0x3fb506dd, 0x48b2364b,
     0xd80d2bda, 0xaf0a1b4c, 0x36034af6, 0x41047a60, 0xdf60efc3, 0xa867df55, 0x316e8eef, 0x4669be79,
     0xcb61b38c, 0xbc66831a, 0x256fd2a0, 0x5268e236, 0xcc0c7795, 0xbb0b4703, 0x220216b9, 0x5505262f,
     0xc5ba3bbe, 0xb2bd0b28, 0x2bb45a92, 0x5cb36a04, 0xc2d7ffa7, 0xb5d0cf31, 0x2cd99e8b, 0x5bdeae1d,
     0x9b64c2b0, 0xec63f226, 0x756aa39c, 0x026d930a, 0x9c0906a9, 0xeb0e363f, 0x72076785, 0x05005713,
     0x95bf4a82, 0xe2b87a14, 0x7bb12bae, 0x0cb61b38, 0x92d28e9b, 0xe5d5be0d, 0x7cdcefb7, 0x0bdbdf21,
     0x86d3d2d4, 0xf1d4e242, 0x68ddb3f8, 0x1fda836e, 0x81be16cd, 0xf6b9265b, 0x6fb077e1, 0x18b74777,
     0x88085ae6, 0xff0f6a70, 0x66063bca, 0x11010b5c, 0x8f659eff, 0xf862ae69, 0x616bffd3, 0x166ccf45,
     0xa00ae278, 0xd70dd2ee, 0x4e048354, 0x3903b3c2, 0xa7672661, 0xd06016f7, 0x4969474d, 0x3e6e77db,
     0xaed16a4a, 0xd9d65adc, 0x40df0b66, 0x37d83bf0, 0xa9bcae53, 0xdebb9ec5, 0x47b2cf7f, 0x30b5ffe9,
     0xbdbdf21c, 0xcabac28a, 0x53b39330, 0x24b4a3a6, 0xbad03605, 0xcdd70693, 0x54de5729, 0x23d967bf,
     0xb3667a2e, 0xc4614ab8, 0x5d681b02, 0x2a6f2b94, 0xb40bbe37, 0xc30c8ea1, 0x5a05df1b, 0x2d02ef8d]"

definition crc_step :: "u32 \<Rightarrow> u8 \<Rightarrow> u32" where
  "crc_step crc b = dfu_crc_table ! unat ((crc XOR ucast b) AND 0xFF) XOR drop_bit 8 crc"

definition calc_dfu_crc :: "u8 list \<Rightarrow> u32" where
  "calc_dfu_crc buf = foldl crc_step 0xFFFFFFFF buf"

subsection \<open>The reference: one bit at a time\<close>

definition crc_bit :: "u32 \<Rightarrow> u32" where
  "crc_bit c = (if bit c 0 then 0xEDB88320 XOR drop_bit 1 c else drop_bit 1 c)"

definition crc_bits :: "u32 \<Rightarrow> u32" where
  "crc_bits c = crc_bit (crc_bit (crc_bit (crc_bit (crc_bit (crc_bit (crc_bit (crc_bit c)))))))"

fun table_from :: "u32 \<Rightarrow> u32 list \<Rightarrow> bool" where
  "table_from i [] = True"
| "table_from i (x # xs) = (crc_bits i = x \<and> table_from (i + 1) xs)"

lemma table_from_nth: "table_from i xs \<Longrightarrow> k < length xs \<Longrightarrow> xs ! k = crc_bits (i + of_nat k)"
proof (induction i xs arbitrary: k rule: table_from.induct)
  case (2 i x xs)
  then show ?case by (cases k) (simp_all add: algebra_simps)
qed simp

lemma dfu_crc_table_ok: "table_from 0 dfu_crc_table"
  by (simp add: dfu_crc_table_def crc_bits_def crc_bit_def)

lemma dfu_crc_table_length: "length dfu_crc_table = 256"
  by (simp add: dfu_crc_table_def)

subsection \<open>The table loop is the bitwise checksum\<close>

lemma crc_bit_xor: "crc_bit (x XOR y) = crc_bit x XOR crc_bit y"
  by (auto simp: crc_bit_def bit_xor_iff ac_simps)

lemma crc_bits_xor: "crc_bits (x XOR y) = crc_bits x XOR crc_bits y"
  by (simp add: crc_bits_def crc_bit_xor)

lemma crc_bit_even: "\<not> bit c 0 \<Longrightarrow> crc_bit c = drop_bit 1 c"
  by (simp add: crc_bit_def)

lemma crc_bits_high: "(\<And>k. k < 8 \<Longrightarrow> \<not> bit c k) \<Longrightarrow> crc_bits c = drop_bit 8 c"
  by (simp add: crc_bits_def crc_bit_even bit_drop_bit_eq) (simp add: eval_nat_numeral)

lemma crc_step_bits: "crc_step crc b = crc_bits (crc XOR ucast b)"
proof -
  define v where "v = crc XOR (ucast b :: u32)"
  define low where "low = v AND 0xFF"
  define high where "high = v AND NOT 0xFF"
  have m: "(0xFF :: u32) = mask 8" by (simp add: mask_eq_exp_minus_1)
  have v: "v = low XOR high" by (rule bit_word_eqI) (auto simp: low_def high_def bit_simps)
  have "unat low < 256"
  proof -
    have "low \<le> mask 8" unfolding low_def m by (rule word_and_le1)
    then have "unat low \<le> unat (mask 8 :: u32)" by (simp add: word_le_nat_alt)
    then show ?thesis by (simp add: m [symmetric])
  qed
  then have "dfu_crc_table ! unat low = crc_bits low"
    using table_from_nth [OF dfu_crc_table_ok, of "unat low"] by (simp add: dfu_crc_table_length)
  moreover have "drop_bit 8 crc = drop_bit 8 high"
    by (rule bit_word_eqI) (auto simp: high_def v_def m bit_simps dest: bit_imp_le_length)
  moreover have "crc_bits high = drop_bit 8 high"
    by (rule crc_bits_high) (auto simp: high_def m bit_simps)
  ultimately have "crc_step crc b = crc_bits low XOR crc_bits high"
    by (simp add: crc_step_def low_def v_def)
  then show ?thesis by (simp add: crc_bits_xor [symmetric] v [symmetric] v_def)
qed

text \<open>The bitwise checksum of CRC-32 (reflected polynomial 0xEDB88320) without the final complement.\<close>

definition crc_reference :: "u8 list \<Rightarrow> u32" where
  "crc_reference buf = foldl (\<lambda>crc b. crc_bits (crc XOR ucast b)) 0xFFFFFFFF buf"

lemma crc_reference: "calc_dfu_crc buf = crc_reference buf"
proof -
  have "crc_step = (\<lambda>crc b. crc_bits (crc XOR ucast b))" by (intro ext) (rule crc_step_bits)
  then show ?thesis by (simp add: calc_dfu_crc_def crc_reference_def)
qed

subsection \<open>What it detects\<close>

lemma crc_bit_inj: "crc_bit x = crc_bit y \<Longrightarrow> x = y"
proof -
  assume e: "crc_bit x = crc_bit y"
  have top: "bit (crc_bit c) 31 = bit c 0" for c
  proof -
    have "bit (0xEDB88320 :: u32) 31" by simp
    then show ?thesis by (auto simp: crc_bit_def bit_xor_iff bit_drop_bit_eq dest: bit_imp_le_length)
  qed
  then have b: "bit x 0 = bit y 0" using e by metis
  have "drop_bit 1 x = drop_bit 1 y"
  proof (cases "bit x 0")
    case True
    then have "0xEDB88320 XOR drop_bit 1 x = 0xEDB88320 XOR drop_bit 1 y" using e b by (simp add: crc_bit_def)
    then have "0xEDB88320 XOR (0xEDB88320 XOR drop_bit 1 x) = 0xEDB88320 XOR (0xEDB88320 XOR drop_bit 1 y)" by simp
    then show ?thesis by (simp only: xor_self_eq xor.assoc [symmetric] xor.left_neutral)
  next
    case False
    then show ?thesis using e b by (simp add: crc_bit_def)
  qed
  then have "bit x (Suc k) = bit y (Suc k)" for k by (metis bit_drop_bit_eq comp_apply plus_1_eq_Suc)
  then show "x = y" using b by (intro bit_word_eqI) (metis not0_implies_Suc)
qed

lemma crc_bits_inj: "crc_bits x = crc_bits y \<Longrightarrow> x = y"
  unfolding crc_bits_def by (drule crc_bit_inj)+ assumption

lemma crc_step_inj: "foldl crc_step c s = foldl crc_step d s \<Longrightarrow> c = d"
proof (induction s arbitrary: c d)
  case (Cons b s)
  then have "crc_step c b = crc_step d b" by simp
  then have "c XOR ucast b = d XOR ucast b" unfolding crc_step_bits by (rule crc_bits_inj)
  then have "(c XOR ucast b) XOR ucast b = (d XOR ucast b) XOR ucast b" by simp
  then show ?case by (simp add: xor.assoc)
qed simp

lemma crc_window:
  "length bs \<le> 4 \<Longrightarrow> foldl crc_step c bs = (crc_bits ^^ length bs) (c XOR le_word bs)"
proof (induction bs arbitrary: c)
  case (Cons b bs)
  define w where "w = (le_word bs :: u32)"
  have drop: "crc_bits (push_bit 8 w) = w"
  proof -
    have "drop_bit 8 (push_bit 8 w) = w"
    proof (rule bit_word_eqI)
      fix k assume "k < LENGTH(32)"
      show "bit (drop_bit 8 (push_bit 8 w)) k = bit w k"
        using Cons.prems by (auto simp: w_def bit_simps bit_le_word less_mult_imp_div_less)
    qed
    then show ?thesis by (subst crc_bits_high) (auto simp: bit_simps)
  qed
  have le: "(le_word (b # bs) :: u32) = ucast b XOR push_bit 8 w"
    by (rule bit_word_eqI) (auto simp: w_def bit_simps dest: bit_imp_le_length)
  have "foldl crc_step c (b # bs) = (crc_bits ^^ length bs) (crc_bits (c XOR ucast b) XOR w)"
    using Cons.IH [of "crc_bits (c XOR ucast b)"] Cons.prems by (simp add: crc_step_bits [of c b] w_def)
  also have "crc_bits (c XOR ucast b) XOR w = crc_bits (c XOR le_word (b # bs))"
    by (simp only: le crc_bits_xor drop xor.assoc)
  finally show ?case by (simp only: funpow_Suc_right length_Cons comp_apply)
qed simp

lemma funpow_inj:
  fixes f :: "'a \<Rightarrow> 'a"
  shows "(\<And>x y. f x = f y \<Longrightarrow> x = y) \<Longrightarrow> (f ^^ n) x = (f ^^ n) y \<Longrightarrow> x = y"
proof (induction n)
  case (Suc n)
  then have "f ((f ^^ n) x) = f ((f ^^ n) y)" by simp
  then show ?case using Suc.IH Suc.prems(1) by blast
qed simp

lemma crc_bursts:
  assumes "length u = length v" "length u \<le> 4" "calc_dfu_crc (p @ u @ s) = calc_dfu_crc (p @ v @ s)"
  shows "u = v"
proof -
  define c where "c = foldl crc_step 0xFFFFFFFF p"
  have "foldl crc_step c u = foldl crc_step c v"
    using assms(3) unfolding calc_dfu_crc_def foldl_append c_def [symmetric] by (rule crc_step_inj)
  then have "(crc_bits ^^ length v) (c XOR le_word u) = (crc_bits ^^ length v) (c XOR le_word v)"
    using assms(1,2) by (simp add: crc_window)
  then have "c XOR le_word u = c XOR le_word v" using funpow_inj crc_bits_inj by metis
  then have "c XOR (c XOR le_word u) = c XOR (c XOR le_word v)" by simp
  then have "(le_word u :: u32) = le_word v" by (simp add: xor.assoc [symmetric])
  then have w: "le_bytes (length u) (le_word u :: u32) = le_bytes (length v) (le_word v :: u32)" using assms(1) by simp
  have "u = le_bytes (length u) (le_word u :: u32)"
    by (rule le_bytes_le_word [symmetric]) (use assms(2) in simp)
  also have "... = v"
    unfolding w by (rule le_bytes_le_word) (use assms(1,2) in simp)
  finally show "u = v" .
qed

text \<open>C15: the table of the code makes its loop the bitwise CRC-32, and so it detects every corruption
  that stays within four consecutive bytes, wherever they are.\<close>

theorem crc_detects_bursts:
  assumes "length u = length v" "length u \<le> 4" "u \<noteq> v"
  shows "calc_dfu_crc (p @ u @ s) = crc_reference (p @ u @ s) \<and> calc_dfu_crc (p @ u @ s) \<noteq> calc_dfu_crc (p @ v @ s)"
proof
  show "calc_dfu_crc (p @ u @ s) = crc_reference (p @ u @ s)" by (rule crc_reference)
  show "calc_dfu_crc (p @ u @ s) \<noteq> calc_dfu_crc (p @ v @ s)"
    by (rule notI) (use assms(3) crc_bursts [OF assms(1,2)] in metis)
qed

theorem crc_detects_bursts_witness:
  "calc_dfu_crc [1, 2, 3, 4, 5] \<noteq> calc_dfu_crc [1, 0xFF, 3, 4, 5]"
  using crc_detects_bursts [of "[2]" "[0xFF]" "[1]" "[3, 4, 5]"] by auto

end
