(* ===== verification/FlashIo.thy ===== *)
theory FlashIo
  imports UsbControl
begin

section \<open>Access to files and to the flash of a device (cli/pg2-util/io.c)\<close>

text \<open>
  The code's \<open>firmware_io_t\<close> is a structure of function pointers: a record of functions here, over a state \<open>'s\<close> that stands for
  what is behind the object. Offsets are numbers; none reaches 2 ^ 32 for the images of this tool (at most 64 KiB). A read returns
  \<open>None\<close> on error.
\<close>

record 's firmware_io =
  io_read :: "'s \<Rightarrow> nat \<Rightarrow> nat \<Rightarrow> 's \<times> u8 list option"
  io_write_page :: "'s \<Rightarrow> nat \<Rightarrow> u8 list \<Rightarrow> 's \<times> bool"
  io_erase_sector :: "'s \<Rightarrow> nat \<Rightarrow> 's \<times> bool"

definition FLASH_PAGE_SIZE :: nat where "FLASH_PAGE_SIZE = 256"
definition FLASH_SECTOR_SIZE :: nat where "FLASH_SECTOR_SIZE = 4096"

subsection \<open>Files\<close>

text \<open>\<open>pread\<close> (a parameter) returns an error or the bytes it read, at most those asked for.\<close>

definition file_read :: "('s \<Rightarrow> nat \<Rightarrow> nat \<Rightarrow> 's \<times> u8 list option) \<Rightarrow> 's \<Rightarrow> nat \<Rightarrow> nat \<Rightarrow> 's \<times> u8 list option" where
  "file_read pread s start len =
    (case pread s len start of
       (s, None) \<Rightarrow> (s, None)
     | (s, Some bytes) \<Rightarrow> if length bytes < len then (s, None) else (s, Some bytes))"

definition file_io :: "('s \<Rightarrow> nat \<Rightarrow> nat \<Rightarrow> 's \<times> u8 list option) \<Rightarrow> 's firmware_io" where
  "file_io pread = \<lparr>io_read = file_read pread, io_write_page = (\<lambda>s start buf. (s, False)), io_erase_sector = (\<lambda>s start. (s, False))\<rparr>"

subsection \<open>Flash\<close>

text \<open>The bytes after \<open>start\<close> to the end of its page, at most \<open>len\<close>.\<close>

definition page_len :: "nat \<Rightarrow> nat \<Rightarrow> nat" where
  "page_len start len = min (FLASH_PAGE_SIZE - start mod FLASH_PAGE_SIZE) len"

lemma page_len_pos: "0 < len \<Longrightarrow> 0 < page_len start len" "page_len start len \<le> len"
  by (simp_all add: page_len_def FLASH_PAGE_SIZE_def)

function flash_read :: "'u usb_env \<Rightarrow> 'u \<Rightarrow> nat \<Rightarrow> nat \<Rightarrow> 'u \<times> u8 list option" where
  "flash_read E u start len =
    (if len = 0 then (u, Some [])
     else let n = page_len start len;
              (u, pg2_error, bytes) = ctrl_flash_read_quad E u (of_nat start) n 0
          in if pg2_error < 0 then (u, None)
             else let (u, r) = flash_read E u (start + n) (len - n) in (u, map_option ((@) bytes) r))"
  by pat_completeness auto

termination
  by (relation "measure (\<lambda>(E, u, start, len). len)") (simp_all add: page_len_pos)

declare flash_read.simps [simp del]

definition flash_write_page :: "'u usb_env \<Rightarrow> 'u \<Rightarrow> nat \<Rightarrow> u8 list \<Rightarrow> 'u \<times> bool" where
  "flash_write_page E u start buf =
    (if start mod FLASH_PAGE_SIZE \<noteq> 0 then (u, False)
     else let (u, pg2_error) = ctrl_flash_write E u (of_nat start) (take FLASH_PAGE_SIZE buf) 0
          in (u, \<not> pg2_error < 0))"

definition flash_erase_sector :: "'u usb_env \<Rightarrow> 'u \<Rightarrow> nat \<Rightarrow> 'u \<times> bool" where
  "flash_erase_sector E u start =
    (if start mod FLASH_SECTOR_SIZE \<noteq> 0 then (u, False)
     else let (u, pg2_error) = ctrl_flash_erase E u (of_nat start) 0 in (u, \<not> pg2_error < 0))"

definition dryrun_write_page :: "'u \<Rightarrow> nat \<Rightarrow> u8 list \<Rightarrow> 'u \<times> bool" where
  "dryrun_write_page u start buf = (u, True)"

definition dryrun_erase_sector :: "'u \<Rightarrow> nat \<Rightarrow> 'u \<times> bool" where
  "dryrun_erase_sector u start = (u, True)"

definition flash_io :: "'u usb_env \<Rightarrow> bool \<Rightarrow> 'u firmware_io" where
  "flash_io E readonly = \<lparr>io_read = flash_read E,
     io_write_page = (if readonly then dryrun_write_page else flash_write_page E),
     io_erase_sector = (if readonly then dryrun_erase_sector else flash_erase_sector E)\<rparr>"

text \<open>The address travels in two halves.\<close>

lemma address_halves:
  fixes a :: nat
  assumes "a < 2 ^ 20"
  shows "unat (low16 (of_nat a)) + 65536 * unat (high16 (of_nat a)) = a"
proof -
  have a: "unat (of_nat a :: u32) = a" using assms by (intro unat_of_nat_small) simp
  have m: "(0xFFFF :: u32) = mask 16" by (simp add: mask_eq_exp_minus_1)
  have l: "unat (low16 (of_nat a)) = a mod 65536"
    unfolding low16_def m take_bit_eq_mask [symmetric] using a
    by (simp add: unsigned_ucast_eq unsigned_take_bit_eq) (simp add: take_bit_eq_mod)
  have d: "a div 65536 < 65536" using assms by simp
  have "unat (high16 (of_nat a)) = a div 65536 mod 65536"
    unfolding high16_def using a assms d
    by (simp add: unsigned_ucast_eq unsigned_drop_bit_eq) (simp add: take_bit_eq_mod drop_bit_eq_div)
  then show ?thesis using l assms by simp
qed

subsection \<open>What a client may rely on\<close>

text \<open>
  The contract of io.h over the bytes \<open>mem s\<close> behind the object, below \<open>limit\<close>: a read that succeeds returns them and no read changes
  them. On flash, an erase fills its sector with 0xFF; programming a page can only clear bits, so that it stores its data on
  an erased page only. Operations that fail may leave anything in the page or sector they were given, and nothing elsewhere.
\<close>

locale flash_reader =
  fixes io :: "'s firmware_io" and mem :: "'s \<Rightarrow> nat \<Rightarrow> u8" and limit :: nat
  assumes read: "io_read io s a n = (s', r) \<Longrightarrow> a + n \<le> limit \<Longrightarrow>
    mem s' = mem s \<and> (\<forall>bs. r = Some bs \<longrightarrow> bs = map (mem s) [a..<a + n])"

locale nor_flash = flash_reader +
  assumes write_page: "io_write_page io s a buf = (s', ok) \<Longrightarrow> a mod 256 = 0 \<Longrightarrow> length buf = 256 \<Longrightarrow> a + 256 \<le> limit \<Longrightarrow>
      (\<forall>x. x div 256 \<noteq> a div 256 \<longrightarrow> mem s' x = mem s x) \<and> (ok \<longrightarrow> (\<forall>i < 256. mem s' (a + i) = mem s (a + i) AND buf ! i))"
    and erase_sector: "io_erase_sector io s a = (s', ok) \<Longrightarrow> a mod 4096 = 0 \<Longrightarrow> a + 4096 \<le> limit \<Longrightarrow>
      (\<forall>x. x div 4096 \<noteq> a div 4096 \<longrightarrow> mem s' x = mem s x) \<and> (ok \<longrightarrow> (\<forall>i < 4096. mem s' (a + i) = 0xFF))"

text \<open>What the three requests of the firmware do to the flash of a device, of which \<open>mem\<close> gives the bytes.\<close>

locale flash_device =
  fixes E :: "'u usb_env" and mem :: "'u \<Rightarrow> nat \<Rightarrow> u8" and limit :: nat
  assumes quad_read: "ctrl_flash_read_quad E u (of_nat a) n t = (u', e, bytes) \<Longrightarrow> 0 < n \<Longrightarrow> a mod 256 + n \<le> 256 \<Longrightarrow> a + n \<le> limit \<Longrightarrow>
      mem u' = mem u \<and> (\<not> e < 0 \<longrightarrow> bytes = map (mem u) [a..<a + n])"
    and page_write: "ctrl_flash_write E u (of_nat a) buf t = (u', e) \<Longrightarrow> a mod 256 = 0 \<Longrightarrow> length buf = 256 \<Longrightarrow> a + 256 \<le> limit \<Longrightarrow>
      (\<forall>x. x div 256 \<noteq> a div 256 \<longrightarrow> mem u' x = mem u x) \<and> (\<not> e < 0 \<longrightarrow> (\<forall>i < 256. mem u' (a + i) = mem u (a + i) AND buf ! i))"
    and sector_erase: "ctrl_flash_erase E u (of_nat a) t = (u', e) \<Longrightarrow> a mod 4096 = 0 \<Longrightarrow> a + 4096 \<le> limit \<Longrightarrow>
      (\<forall>x. x div 4096 \<noteq> a div 4096 \<longrightarrow> mem u' x = mem u x) \<and> (\<not> e < 0 \<longrightarrow> (\<forall>i < 4096. mem u' (a + i) = 0xFF))"

context flash_device
begin

lemma flash_read_ok:
  "flash_read E u a n = (u', r) \<Longrightarrow> a + n \<le> limit \<Longrightarrow>
    mem u' = mem u \<and> (\<forall>bs. r = Some bs \<longrightarrow> bs = map (mem u) [a..<a + n])"
proof (induction n arbitrary: u a u' r rule: less_induct)
  case (less n)
  show ?case
  proof (cases "n = 0")
    case True
    then show ?thesis using less.prems by (auto simp: flash_read.simps)
  next
    case False
    define k where "k = page_len a n"
    have k: "0 < k" "k \<le> n" "a mod 256 + k \<le> 256" using False by (simp_all add: k_def page_len_def FLASH_PAGE_SIZE_def)
    obtain v e bytes where q: "ctrl_flash_read_quad E u (of_nat a) k 0 = (v, e, bytes)" by (metis prod_cases3)
    have mv: "mem v = mem u \<and> (\<not> e < 0 \<longrightarrow> bytes = map (mem u) [a..<a + k])"
      using quad_read [OF q k(1,3)] k less.prems(2) by simp
    show ?thesis
    proof (cases "e < 0")
      case True
      then show ?thesis using less.prems(1) q mv False by (subst (asm) flash_read.simps) (auto simp: Let_def k_def)
    next
      case ok: False
      obtain w r' where rest: "flash_read E v (a + k) (n - k) = (w, r')" by fastforce
      have r: "r = map_option ((@) bytes) r'" "u' = w"
        using less.prems(1) q rest False ok by (subst (asm) (2) flash_read.simps, simp add: Let_def k_def)+
      have "mem w = mem v \<and> (\<forall>bs. r' = Some bs \<longrightarrow> bs = map (mem v) [a + k..<a + n])"
        using less.IH [OF _ rest] k less.prems(2) by simp
      moreover have "[a..<a + n] = [a..<a + k] @ [a + k..<a + n]"
        using k(2) upt_add_eq_append [of a "a + k" "n - k"] by simp
      ultimately show ?thesis using mv ok r by auto
    qed
  qed
qed

end

sublocale flash_device \<subseteq> dry: flash_reader "flash_io E True" mem limit
  by unfold_locales (simp_all add: flash_io_def flash_read_ok)

sublocale flash_device \<subseteq> real: nor_flash "flash_io E False" mem limit
proof unfold_locales
  fix s a n s' r
  assume "io_read (flash_io E False) s a n = (s', r)" "a + n \<le> limit"
  then show "mem s' = mem s \<and> (\<forall>bs. r = Some bs \<longrightarrow> bs = map (mem s) [a..<a + n])"
    by (simp add: flash_io_def flash_read_ok)
next
  fix s a buf s' ok
  assume w: "io_write_page (flash_io E False) s a buf = (s', ok)" and a: "a mod 256 = 0" "length buf = 256" "a + 256 \<le> limit"
  obtain e where "ctrl_flash_write E s (of_nat a) buf 0 = (s', e)" "ok = (\<not> e < 0)"
    using w a by (auto simp: flash_io_def flash_write_page_def FLASH_PAGE_SIZE_def split: prod.splits)
  then show "(\<forall>x. x div 256 \<noteq> a div 256 \<longrightarrow> mem s' x = mem s x) \<and> (ok \<longrightarrow> (\<forall>i < 256. mem s' (a + i) = mem s (a + i) AND buf ! i))"
    using page_write a by simp
next
  fix s a s' ok
  assume w: "io_erase_sector (flash_io E False) s a = (s', ok)" and a: "a mod 4096 = 0" "a + 4096 \<le> limit"
  obtain e where "ctrl_flash_erase E s (of_nat a) 0 = (s', e)" "ok = (\<not> e < 0)"
    using w a by (auto simp: flash_io_def flash_erase_sector_def FLASH_SECTOR_SIZE_def split: prod.splits)
  then show "(\<forall>x. x div 4096 \<noteq> a div 4096 \<longrightarrow> mem s' x = mem s x) \<and> (ok \<longrightarrow> (\<forall>i < 4096. mem s' (a + i) = 0xFF))"
    using sector_erase a by simp
qed

context flash_device
begin

lemma axioms_nor: "nor_flash (flash_io E False) mem limit"
  by (rule real.nor_flash_axioms)

end

end
