(* ===== verification/Image.thy ===== *)
theory Image
  imports Crc FlashIo
begin

section \<open>Firmware images (cli/pg2-util/image.c)\<close>

text \<open>
  An image is an LPC header of 16 bytes, the code to load, and a DFU suffix of 16 bytes. The pointers into the image are offsets.
  The layout of the metadata is in the protocol header, a parameter; reading beyond the allocated bytes is a fault.
\<close>

record firmware_image =
  image_size :: nat
  image_bytes :: "u8 list"
  dfu_release :: u16
  dfu_crc :: u32
  load_size :: nat
  img_metadata :: firmware_metadata
  raw_metadata :: "nat option"
  raw_metadata_size :: nat

definition no_metadata :: firmware_metadata where
  "no_metadata = \<lparr>md_version = 0, md_compat = 0, md_max_control_transfer = 0, md_control_timeout_ms = 0, md_build_type = [], md_boot_mode = 0\<rparr>"

definition read_at :: "nat \<Rightarrow> nat \<Rightarrow> u8 list \<Rightarrow> ('a::len word) run" where
  "read_at n off bs = (if off + n \<le> length bs then Inr (le_at n off bs) else Inl Out_of_bounds)"

definition header_ok :: "u8 list \<Rightarrow> bool" where
  "header_ok h \<longleftrightarrow> \<not> (le_at 2 0 h \<noteq> (0x3F1A :: u16) \<or> le_at 8 4 h \<noteq> (0 :: u64) \<or> le_at 4 12 h \<noteq> (0xFFFFFFFF :: u32))"

definition header_load_size :: "u8 list \<Rightarrow> nat" where
  "header_load_size h = unat (le_at 2 2 h :: u16) * 512"

text \<open>The suffix and the checksum of the whole image but its last four bytes.\<close>

definition suffix_ok :: "u8 list \<Rightarrow> bool" where
  "suffix_ok bs =
    (let suffix = drop (length bs - 16) bs
     in if suffix ! 10 \<noteq> 0x44 \<or> suffix ! 9 \<noteq> 0x46 \<or> suffix ! 8 \<noteq> 0x55 then False
        else if suffix ! 11 \<noteq> 16 then False
        else if le_at 2 6 suffix \<noteq> (0x0100 :: u16) then False
        else le_at 4 12 suffix = calc_dfu_crc (take (length bs - 4) bs))"

definition vector :: "u8 list \<Rightarrow> nat \<Rightarrow> u32 run" where
  "vector bs i = read_at 4 (16 + 4 * i) bs"

definition vector_sum :: "u8 list \<Rightarrow> u32 run" where
  "vector_sum bs = run_foldl (\<lambda>sum i. run_bind (vector bs i) (\<lambda>v. Inr (sum + v))) 0 [0..<8]"

definition meta_base_size :: "protocol \<Rightarrow> nat" where "meta_base_size P = off_boot_mode P"
definition meta_0970_size :: "protocol \<Rightarrow> nat" where "meta_0970_size P = meta_size P"

text \<open>The metadata at an address of the vector table; \<open>load\<close> is the size of the code. \<open>available\<close> is unsigned arithmetic.\<close>

definition copy_metadata :: "protocol \<Rightarrow> nat \<Rightarrow> nat \<Rightarrow> firmware_image \<Rightarrow> firmware_image run" where
  "copy_metadata P off available img =
    (let bs = image_bytes img; raw = 16 + off
     in run_bind (read_at 4 (raw + off_version P) bs) (\<lambda>version.
        run_bind (read_at 4 (raw + off_compat P) bs) (\<lambda>compat.
        run_bind (read_at 2 (raw + off_max_control_transfer P) bs) (\<lambda>max_transfer.
        run_bind (read_at 2 (raw + off_control_timeout_ms P) bs) (\<lambda>timeout.
        run_bind (if raw + off_build_type P + size_build_type P \<le> length bs then Inr (take (size_build_type P) (drop (raw + off_build_type P) bs))
                  else Inl Out_of_bounds) (\<lambda>build.
        let meta = \<lparr>md_version = version, md_compat = compat, md_max_control_transfer = max_transfer, md_control_timeout_ms = timeout,
                     md_build_type = build[size_build_type P - 1 := 0], md_boot_mode = 0\<rparr>;
            img = img\<lparr>raw_metadata := Some raw, raw_metadata_size := meta_base_size P, img_metadata := meta\<rparr>
        in if 0x00090700 \<le> version \<and> meta_0970_size P \<le> available
           then run_bind (read_at 2 (raw + off_boot_mode P) bs) (\<lambda>boot_mode.
                  Inr (img\<lparr>raw_metadata_size := meta_0970_size P, img_metadata := meta\<lparr>md_boot_mode := boot_mode\<rparr>\<rparr>))
           else Inr img))))))"

definition load_metadata :: "protocol \<Rightarrow> nat \<Rightarrow> firmware_image \<Rightarrow> firmware_image run" where
  "load_metadata P load img =
    run_bind (vector (image_bytes img) 8) (\<lambda>meta_addr.
      if 0x10000000 \<le> meta_addr \<and> meta_addr \<le> 0x1000ffff
      then let off = meta_addr - 0x10000000; available = unat (of_nat load - off)
           in if meta_base_size P \<le> available then copy_metadata P (unat off) available img else Inr img
      else Inr img)"

text \<open>From the vector table on, with the image read and its suffix checked.\<close>

definition accept_image :: "protocol \<Rightarrow> nat \<Rightarrow> u8 list \<Rightarrow> 's \<Rightarrow> ('s \<times> firmware_image option) run" where
  "accept_image P load bs s =
    (let suffix = drop (length bs - 16) bs
     in run_bind (vector_sum bs) (\<lambda>sum.
          if sum \<noteq> 0 then Inr (s, None)
          else run_bind (load_metadata P load
                 \<lparr>image_size = length bs, image_bytes = bs, dfu_release = le_at 2 0 suffix, dfu_crc = le_at 4 12 suffix,
                  load_size = 16 + load, img_metadata = no_metadata, raw_metadata = None, raw_metadata_size = 0\<rparr>)
                 (\<lambda>img. Inr (s, Some img))))"

definition image_read :: "protocol \<Rightarrow> bool \<Rightarrow> bool \<Rightarrow> 's firmware_io \<Rightarrow> 's \<Rightarrow> ('s \<times> firmware_image option) run" where
  "image_read P calloc_ok malloc_ok io s =
    (if \<not> calloc_ok then Inr (s, None)
     else case io_read io s 0 16 of
       (s, None) \<Rightarrow> Inr (s, None)
     | (s, Some h) \<Rightarrow>
         if \<not> header_ok h then Inr (s, None)
         else let load = header_load_size h
              in if 65536 \<le> load then Inr (s, None)
                 else if \<not> malloc_ok then Inr (s, None)
                 else case io_read io s 0 (16 + load + 16) of
                   (s, None) \<Rightarrow> Inr (s, None)
                 | (s, Some bs) \<Rightarrow> if \<not> suffix_ok bs then Inr (s, None) else accept_image P load bs s)"

text \<open>Patching the boot mode writes into the raw bytes.\<close>

definition image_patch_boot_mode :: "protocol \<Rightarrow> firmware_image \<Rightarrow> u16 \<Rightarrow> firmware_image run" where
  "image_patch_boot_mode P img boot_mode =
    (if md_version (img_metadata img) < 0x00090700 \<or> raw_metadata_size img < meta_0970_size P then Inr img
     else case raw_metadata img of
       None \<Rightarrow> Inl Null_dereference
     | Some raw \<Rightarrow>
         let k = raw + off_boot_mode P; bs = image_bytes img
         in if k + 2 \<le> length bs
            then Inr (img\<lparr>img_metadata := (img_metadata img)\<lparr>md_boot_mode := boot_mode\<rparr>,
                       image_bytes := take k bs @ le_bytes 2 boot_mode @ drop (k + 2) bs\<rparr>)
            else Inl Out_of_bounds)"

end
