(* ===== verification/FlashWrite.thy ===== *)
theory FlashWrite
  imports Image
begin

section \<open>Writing and verifying the flash (cli/pg2-util/write.c)\<close>

text \<open>
  The loops over sectors and pages run over lists of their offsets. A result \<open>None\<close> is the code's early return with \<open>-1\<close>. The
  page at an offset of a buffer is a slice of it. The code's \<open>assert\<close> is a fault.
\<close>

definition slice :: "nat \<Rightarrow> nat \<Rightarrow> 'a list \<Rightarrow> 'a list" where
  "slice a n xs = take n (drop a xs)"

definition is_erased_page :: "u8 list \<Rightarrow> bool" where
  "is_erased_page bs = list_all (\<lambda>b. b = 0xFF) (take FLASH_PAGE_SIZE bs)"

definition sector_pages :: "nat list" where
  "sector_pages = map (\<lambda>k. k * FLASH_PAGE_SIZE) [0..<FLASH_SECTOR_SIZE div FLASH_PAGE_SIZE]"

text \<open>The contents a sector should have.\<close>

definition fw_sector :: "firmware_image \<Rightarrow> nat \<Rightarrow> u8 list" where
  "fw_sector img address =
    (if address < image_size img
     then let remaining = min (image_size img - address) FLASH_SECTOR_SIZE
          in slice address remaining (image_bytes img) @ replicate (FLASH_SECTOR_SIZE - remaining) 0xFF
     else replicate FLASH_SECTOR_SIZE 0xFF)"

text \<open>Reading the sector a page at a time, and whether some page that differs is not erased.\<close>

fun scan_pages ::
  "'s firmware_io \<Rightarrow> nat \<Rightarrow> u8 list \<Rightarrow> nat list \<Rightarrow> u8 list \<Rightarrow> bool \<Rightarrow> 's \<Rightarrow> 's \<times> (u8 list \<times> bool) option" where
  "scan_pages io address fw [] flash erase s = (s, Some (flash, erase))"
| "scan_pages io address fw (page # pages) flash erase s =
    (case io_read io s (address + page) FLASH_PAGE_SIZE of
       (s, None) \<Rightarrow> (s, None)
     | (s, Some bs) \<Rightarrow>
         scan_pages io address fw pages (flash @ bs) (erase \<or> slice page FLASH_PAGE_SIZE fw \<noteq> bs \<and> \<not> is_erased_page bs) s)"

text \<open>Writing the pages that differ.\<close>

fun update_pages ::
  "'s firmware_io \<Rightarrow> nat \<Rightarrow> u8 list \<Rightarrow> u8 list \<Rightarrow> nat list \<Rightarrow> nat \<Rightarrow> 's \<Rightarrow> ('s \<times> nat option) run" where
  "update_pages io address fw flash [] modified s = Inr (s, Some modified)"
| "update_pages io address fw flash (page # pages) modified s =
    (let old = slice page FLASH_PAGE_SIZE flash; new = slice page FLASH_PAGE_SIZE fw
     in if old = new then update_pages io address fw flash pages modified s
        else if \<not> is_erased_page old then Inl Assertion_failed
        else case io_write_page io s (address + page) new of
          (s, False) \<Rightarrow> Inr (s, None)
        | (s, True) \<Rightarrow> update_pages io address fw flash pages (Suc modified) s)"

definition write_sector ::
  "firmware_image \<Rightarrow> 's firmware_io \<Rightarrow> bool \<Rightarrow> nat \<Rightarrow> nat \<Rightarrow> 's \<Rightarrow> ('s \<times> nat option) run" where
  "write_sector img io force_erase address modified s =
    (let fw = fw_sector img address
     in case (if force_erase then (s, Some ([], True)) else scan_pages io address fw sector_pages [] False s) of
          (s, None) \<Rightarrow> Inr (s, None)
        | (s, Some (flash, erase)) \<Rightarrow>
            if erase
            then case io_erase_sector io s address of
                   (s, False) \<Rightarrow> Inr (s, None)
                 | (s, True) \<Rightarrow> update_pages io address fw (replicate FLASH_SECTOR_SIZE 0xFF) sector_pages modified s
            else update_pages io address fw flash sector_pages modified s)"

fun write_sectors ::
  "firmware_image \<Rightarrow> 's firmware_io \<Rightarrow> bool \<Rightarrow> nat list \<Rightarrow> nat \<Rightarrow> 's \<Rightarrow> ('s \<times> nat option) run" where
  "write_sectors img io force_erase [] modified s = Inr (s, Some modified)"
| "write_sectors img io force_erase (address # addresses) modified s =
    run_bind (write_sector img io force_erase address modified s) (\<lambda>(s, r).
      case r of None \<Rightarrow> Inr (s, None) | Some modified \<Rightarrow> write_sectors img io force_erase addresses modified s)"

definition image_sectors :: "firmware_image \<Rightarrow> nat" where
  "image_sectors img = (image_size img + FLASH_SECTOR_SIZE - 1) div FLASH_SECTOR_SIZE"

definition write_image :: "firmware_image \<Rightarrow> 's firmware_io \<Rightarrow> bool \<Rightarrow> 's \<Rightarrow> ('s \<times> nat option) run" where
  "write_image img io force_erase s =
    write_sectors img io force_erase (map (\<lambda>k. k * FLASH_SECTOR_SIZE) [0..<image_sectors img]) 0 s"

fun verify_pages :: "firmware_image \<Rightarrow> 's firmware_io \<Rightarrow> nat list \<Rightarrow> 's \<Rightarrow> 's \<times> bool" where
  "verify_pages img io [] s = (s, True)"
| "verify_pages img io (address # addresses) s =
    (let readsize = min (image_size img - address) FLASH_PAGE_SIZE
     in case io_read io s address readsize of
          (s, None) \<Rightarrow> (s, False)
        | (s, Some bs) \<Rightarrow>
            if list_all (\<lambda>i. bs ! i = image_bytes img ! (address + i)) [0..<readsize]
            then verify_pages img io addresses s else (s, False))"

definition verify_image :: "firmware_image \<Rightarrow> 's firmware_io \<Rightarrow> 's \<Rightarrow> 's \<times> bool" where
  "verify_image img io s =
    verify_pages img io (map (\<lambda>k. k * FLASH_PAGE_SIZE) [0..<(image_size img + FLASH_PAGE_SIZE - 1) div FLASH_PAGE_SIZE]) s"

subsection \<open>The contents wanted\<close>

text \<open>The image, padded with 0xFF.\<close>

definition wanted_byte :: "firmware_image \<Rightarrow> nat \<Rightarrow> u8" where
  "wanted_byte img x = (if x < image_size img then image_bytes img ! x else 0xFF)"

lemma length_fw_sector: "length (image_bytes img) = image_size img \<Longrightarrow> length (fw_sector img a) = 4096"
  by (simp add: fw_sector_def slice_def FLASH_SECTOR_SIZE_def Let_def)

lemma nth_fw_sector:
  "length (image_bytes img) = image_size img \<Longrightarrow> i < 4096 \<Longrightarrow> fw_sector img a ! i = wanted_byte img (a + i)"
  by (auto simp: fw_sector_def slice_def FLASH_SECTOR_SIZE_def Let_def nth_append wanted_byte_def min_def)

lemma sector_pages: "sector_pages = map (\<lambda>k. k * 256) [0..<16]"
  by (simp add: sector_pages_def FLASH_SECTOR_SIZE_def FLASH_PAGE_SIZE_def)

lemma erased_page: "length bs = 256 \<Longrightarrow> is_erased_page bs \<longleftrightarrow> (\<forall>i < 256. bs ! i = 0xFF)"
  by (simp add: is_erased_page_def FLASH_PAGE_SIZE_def list_all_length)

end
