(* ===== verification/ImageProps.thy ===== *)
theory ImageProps
  imports Image
begin

section \<open>Which images are accepted\<close>

text \<open>
  What \<open>image_read\<close> returns for a file, the images it refuses, the malformed ones it overruns, and files that it accepts.
\<close>

text \<open>What the code expects of the layout of the metadata: all of it before \<open>boot_mode\<close>, which comes last.\<close>

definition meta_layout :: "protocol \<Rightarrow> bool" where
  "meta_layout P \<longleftrightarrow> off_version P + 4 \<le> off_boot_mode P \<and> off_compat P + 4 \<le> off_boot_mode P \<and>
     off_max_control_transfer P + 2 \<le> off_boot_mode P \<and> off_control_timeout_ms P + 2 \<le> off_boot_mode P \<and>
     off_build_type P + size_build_type P \<le> off_boot_mode P \<and> off_boot_mode P + 2 \<le> meta_size P"

text \<open>The two ways in which a valid image makes the code read outside it.\<close>

definition meta_address :: "u8 list \<Rightarrow> u32" where
  "meta_address bs = le_at 4 48 bs"

definition strays :: "nat \<Rightarrow> u8 list \<Rightarrow> bool" where
  "strays load bs \<longleftrightarrow> load = 0 \<or>
     (0x10000000 \<le> meta_address bs \<and> meta_address bs \<le> 0x1000ffff \<and> load < unat (meta_address bs - 0x10000000))"

lemma le_at_take: "k + n \<le> j \<Longrightarrow> le_at n k (take j bs) = le_at n k bs"
  by (simp add: le_at_def drop_take take_take min_def)

lemma header_take: "header_ok (take 16 bs) = header_ok bs" "header_load_size (take 16 bs) = header_load_size bs"
  by (simp_all add: header_ok_def header_load_size_def le_at_take)

lemma header_load_size_mult: "header_load_size h = 0 \<or> 512 \<le> header_load_size h"
  by (cases "unat (le_at 2 2 h :: u16)") (simp_all add: header_load_size_def)

lemma load_size_le: "header_load_size h < 65536 \<Longrightarrow> header_load_size h \<le> 65024"
proof -
  assume "header_load_size h < 65536"
  then have "unat (le_at 2 2 h :: u16) < 128" by (simp add: header_load_size_def)
  then have "unat (le_at 2 2 h :: u16) \<le> 127" by simp
  then show ?thesis by (simp add: header_load_size_def)
qed

lemma vector_sum_ok: "48 \<le> length bs \<Longrightarrow> \<exists>x. vector_sum bs = Inr x"
proof -
  assume l: "48 \<le> length bs"
  have "run_foldl (\<lambda>sum i. run_bind (vector bs i) (\<lambda>v. Inr (sum + v))) a [0..<8] =
      Inr (foldl (\<lambda>sum i. sum + le_at 4 (16 + 4 * i) bs) a [0..<8])" for a
    by (rule run_foldl_total) (use l in \<open>simp add: vector_def read_at_def\<close>)
  then show ?thesis by (simp add: vector_sum_def)
qed

lemma copy_metadata_ok:
  assumes "meta_layout P" "16 + off + off_boot_mode P \<le> length (image_bytes img)"
    "meta_0970_size P \<le> avail \<longrightarrow> 16 + off + meta_size P \<le> length (image_bytes img)"
  shows "\<exists>img'. copy_metadata P off avail img = Inr img' \<and> image_bytes img' = image_bytes img \<and> image_size img' = image_size img \<and>
    load_size img' = load_size img \<and> dfu_crc img' = dfu_crc img \<and> dfu_release img' = dfu_release img \<and>
    raw_metadata img' = Some (16 + off) \<and> (raw_metadata_size img' = meta_base_size P \<or> raw_metadata_size img' = meta_0970_size P \<and> meta_0970_size P \<le> avail)"
  using assms by (auto simp: meta_layout_def copy_metadata_def read_at_def Let_def)

lemma available_ok:
  fixes a :: u32
  assumes "unat a \<le> load" "load < 65536"
  shows "unat (of_nat load - a) = load - unat a"
proof -
  have "unat (of_nat load :: u32) = load" using assms(2) by (intro unat_of_nat_small) simp
  then show ?thesis using assms by (subst unat_sub) (simp_all add: word_le_nat_alt)
qed

lemma load_metadata_ok:
  assumes "meta_layout P" "\<not> strays load (image_bytes img)" "length (image_bytes img) = 32 + load" "512 \<le> load" "load < 65536"
    "raw_metadata img = None"
  shows "\<exists>img'. load_metadata P load img = Inr img' \<and> image_bytes img' = image_bytes img \<and> image_size img' = image_size img \<and>
    load_size img' = load_size img \<and> dfu_crc img' = dfu_crc img \<and> dfu_release img' = dfu_release img \<and>
    (\<forall>raw. raw_metadata img' = Some raw \<longrightarrow> 16 \<le> raw \<and> raw + raw_metadata_size img' \<le> 16 + load) \<and>
    (raw_metadata img' = None \<longrightarrow> raw_metadata_size img' = raw_metadata_size img)"
proof -
  define a where "a = meta_address (image_bytes img)"
  have v: "vector (image_bytes img) 8 = Inr a"
    using assms(3,4) by (simp add: vector_def read_at_def a_def meta_address_def)
  show ?thesis
  proof (cases "0x10000000 \<le> a \<and> a \<le> 0x1000ffff")
    case False
    then have "load_metadata P load img = Inr img" by (auto simp: load_metadata_def v)
    then show ?thesis using assms(6) by simp
  next
    case True
    define off where "off = a - 0x10000000"
    have off: "unat off \<le> load" using assms(2,4) True by (auto simp: strays_def a_def [symmetric] off_def)
    note av = available_ok [OF off assms(5)]
    show ?thesis
    proof (cases "meta_base_size P \<le> load - unat off")
      case False
      then have "load_metadata P load img = Inr img" using True by (simp add: load_metadata_def v off_def [symmetric] av Let_def)
      then show ?thesis using assms(6) by simp
    next
      case base: True
      then have e: "load_metadata P load img = copy_metadata P (unat off) (load - unat off) img"
        using True by (simp add: load_metadata_def v off_def [symmetric] av Let_def)
      have "16 + unat off + off_boot_mode P \<le> length (image_bytes img)"
          "meta_0970_size P \<le> load - unat off \<longrightarrow> 16 + unat off + meta_size P \<le> length (image_bytes img)"
        using base off assms(3) by (auto simp: meta_base_size_def meta_0970_size_def)
      from copy_metadata_ok [OF assms(1) this] show ?thesis unfolding e using base off by auto
    qed
  qed
qed

definition image_ok :: "protocol \<Rightarrow> (nat \<Rightarrow> u8) \<Rightarrow> firmware_image \<Rightarrow> bool" where
  "image_ok P content img \<longleftrightarrow> image_bytes img = map content [0..<image_size img] \<and> image_size img = load_size img + 16 \<and>
     header_ok (image_bytes img) \<and> load_size img = 16 + header_load_size (image_bytes img) \<and> suffix_ok (image_bytes img) \<and>
     vector_sum (image_bytes img) = Inr 0 \<and> image_size img \<le> 65056 \<and>
     (strays (header_load_size (image_bytes img)) (image_bytes img) \<or>
       (case raw_metadata img of None \<Rightarrow> raw_metadata_size img = 0 | Some raw \<Rightarrow> 16 \<le> raw \<and> raw + raw_metadata_size img \<le> load_size img))"

lemma load_metadata_keeps:
  "load_metadata P load img = Inr img' \<Longrightarrow> image_bytes img' = image_bytes img \<and> image_size img' = image_size img \<and> load_size img' = load_size img"
proof -
  have copy: "image_bytes img' = image_bytes img \<and> image_size img' = image_size img \<and> load_size img' = load_size img"
    if "copy_metadata P off avail img = Inr img'" for off avail
    using that unfolding copy_metadata_def Let_def run_bind_Inr_iff by (clarsimp split: if_splits) (auto simp: run_bind_Inr_iff)
  assume "load_metadata P load img = Inr img'"
  then show ?thesis unfolding load_metadata_def Let_def run_bind_Inr_iff by (auto dest: copy split: if_splits)
qed

lemma accept_image_result:
  assumes lay: "meta_layout P" and load: "load = header_load_size bs" "load < 65536" and bs: "length bs = 32 + load" "header_ok bs" "suffix_ok bs"
  shows "case accept_image P load bs s of
      Inl f \<Rightarrow> strays load bs
    | Inr (s', None) \<Rightarrow> s' = s
    | Inr (s', Some img) \<Rightarrow> s' = s \<and> image_bytes img = bs \<and> (\<forall>content. bs = map content [0..<32 + load] \<longrightarrow> image_ok P content img)"
proof (cases "strays load bs")
  case True
  have "32 + load \<le> 65056" using load_size_le [of bs] load by simp
  then have ok: "image_ok P content img" if "load_metadata P load img0 = Inr img" "vector_sum bs = Inr 0" "bs = map content [0..<32 + load]"
      "image_bytes img0 = bs" "image_size img0 = 32 + load" "load_size img0 = 16 + load" for content img img0
    using load_metadata_keeps [OF that(1)] that(2,4-6) that(3) [symmetric] load(1) [symmetric] bs(2,3) True by (simp add: image_ok_def)
  define img0 where "img0 = \<lparr>image_size = length bs, image_bytes = bs, dfu_release = le_at 2 0 (drop (length bs - 16) bs),
      dfu_crc = le_at 4 12 (drop (length bs - 16) bs), load_size = 16 + load, img_metadata = no_metadata, raw_metadata = None,
      raw_metadata_size = 0\<rparr>"
  have i0: "image_bytes img0 = bs" "image_size img0 = 32 + load" "load_size img0 = 16 + load" by (simp_all add: img0_def bs(1))
  have e: "accept_image P load bs s = run_bind (vector_sum bs) (\<lambda>sum. if sum \<noteq> 0 then Inr (s, None)
      else run_bind (load_metadata P load img0) (\<lambda>img. Inr (s, Some img)))"
    unfolding accept_image_def img0_def Let_def ..
  show ?thesis
  proof (cases "vector_sum bs = Inr 0")
    case zero: True
    show ?thesis
    proof (cases "load_metadata P load img0")
      case (Inr img)
      then show ?thesis using zero ok [OF Inr zero _ i0] load_metadata_keeps [OF Inr] i0(1) unfolding e by simp
    qed (use zero True in \<open>simp add: e\<close>)
  next
    case False
    then show ?thesis using True unfolding e by (cases "vector_sum bs") simp_all
  qed
next
  case False
  then have l: "512 \<le> load" using header_load_size_mult [of bs] load(1) by (auto simp: strays_def)
  have "32 + load \<le> 65056" using load_size_le [of bs] load by simp
  define img0 where "img0 = \<lparr>image_size = length bs, image_bytes = bs, dfu_release = le_at 2 0 (drop (length bs - 16) bs),
      dfu_crc = le_at 4 12 (drop (length bs - 16) bs), load_size = 16 + load, img_metadata = no_metadata, raw_metadata = None,
      raw_metadata_size = 0\<rparr>"
  obtain sum where sum: "vector_sum bs = Inr sum" using vector_sum_ok bs(1) l by fastforce
  obtain img where img: "load_metadata P load img0 = Inr img" "image_bytes img = bs" "image_size img = length bs" "load_size img = 16 + load"
      "case raw_metadata img of None \<Rightarrow> raw_metadata_size img = 0 | Some raw \<Rightarrow> 16 \<le> raw \<and> raw + raw_metadata_size img \<le> load_size img"
    using load_metadata_ok [OF lay, of load img0] False bs(1) l load(2) by (auto simp: img0_def split: option.splits)
  have "accept_image P load bs s = (if sum \<noteq> 0 then Inr (s, None) else Inr (s, Some img))"
    using sum img(1) by (simp add: accept_image_def Let_def img0_def)
  then show ?thesis
    using \<open>32 + load \<le> 65056\<close> img sum load(1) bs by (auto simp: image_ok_def)
qed

subsection \<open>Reading through an object that meets its contract\<close>

context flash_reader
begin

lemma image_read_cases:
  assumes lim: "65568 \<le> limit"
  obtains (refused) s' where "image_read P c m io s = Inr (s', None)" "mem s' = mem s"
  | (accepted) s' load bs where "image_read P c m io s = accept_image P load bs s'" "mem s' = mem s"
      "load = header_load_size bs" "header_ok bs" "load < 65536" "bs = map (mem s) [0..<32 + load]" "suffix_ok bs"
proof -
  obtain s1 r1 where r1: "io_read io s 0 16 = (s1, r1)" by fastforce
  then have m1: "mem s1 = mem s" "\<forall>h. r1 = Some h \<longrightarrow> h = map (mem s) [0..<16]" using read [OF r1] lim by auto
  define h where "h = map (mem s) [0..<16]"
  define load where "load = header_load_size h"
  obtain s2 r2 where r2: "io_read io s1 0 (16 + load + 16) = (s2, r2)" by fastforce
  show thesis
  proof (cases "\<not> c \<or> r1 = None \<or> \<not> header_ok h \<or> 65536 \<le> load \<or> \<not> m")
    case True
    then show thesis
      using refused [of "if c then s1 else s"] r1 m1 by (cases r1) (auto simp: image_read_def load_def h_def Let_def split: if_splits)
  next
    case go: False
    then have h: "c" "m" "r1 = Some h" "header_ok h" "load < 65536" using m1(2) h_def by auto
    have m2: "mem s2 = mem s" "\<forall>bs. r2 = Some bs \<longrightarrow> bs = map (mem s) [0..<32 + load]"
      using read [OF r2] lim h(5) m1(1) by auto
    define bs where "bs = map (mem s) [0..<32 + load]"
    have tk: "take 16 bs = h" by (simp add: bs_def h_def take_map)
    have hb: "header_ok bs" "header_load_size bs = load"
      using h(4) by (simp_all add: header_take [of bs, symmetric] tk load_def)
    show thesis
    proof (cases "r2 = None \<or> \<not> suffix_ok bs")
      case True
      then show thesis using refused [of s2] m2 r1 r2 h by (cases r2) (auto simp: image_read_def load_def [symmetric] bs_def)
    next
      case False
      then have "r2 = Some bs" using m2(2) bs_def by auto
      then have "image_read P c m io s = accept_image P load bs s2"
        using r1 r2 h False by (simp add: image_read_def load_def [symmetric])
      then show thesis using accepted [OF _ m2(1) hb(2) [symmetric] hb(1) h(5) bs_def] False by blast
    qed
  qed
qed

lemma image_read_result:
  assumes lim: "65568 \<le> limit" and lay: "meta_layout P"
  shows "case image_read P c m io s of
      Inl f \<Rightarrow> strays (header_load_size (map (mem s) [0..<16])) (map (mem s) [0..<32 + header_load_size (map (mem s) [0..<16])])
    | Inr (s', None) \<Rightarrow> mem s' = mem s
    | Inr (s', Some img) \<Rightarrow> mem s' = mem s \<and> image_ok P (mem s) img"
  using lim
proof (cases rule: image_read_cases [where P = P and c = c and m = m and s = s])
  case (accepted s' load bs)
  have "take 16 bs = map (mem s) [0..<16]" by (simp add: accepted(6) take_map)
  then have h: "header_load_size (map (mem s) [0..<16]) = load" by (metis accepted(3) header_take(2))
  have r: "case accept_image P load bs s' of
      Inl f \<Rightarrow> strays load bs
    | Inr (s'', None) \<Rightarrow> s'' = s'
    | Inr (s'', Some img) \<Rightarrow> s'' = s' \<and> image_bytes img = bs \<and> (\<forall>content. bs = map content [0..<32 + load] \<longrightarrow> image_ok P content img)"
    using accept_image_result [OF lay accepted(3,5) _ accepted(4,7), of s'] accepted(6) by simp
  show ?thesis
  proof (cases "accept_image P load bs s'")
    case (Inl f)
    then show ?thesis using r accepted(1,6) by (simp add: h)
  next
    case (Inr q)
    obtain s'' o' where q: "q = (s'', o')" by (cases q)
    show ?thesis
    proof (cases o')
      case None
      then show ?thesis using r accepted(1,2) Inr q by simp
    next
      case (Some img)
      then show ?thesis using r accepted(1,2) accepted(6) Inr q by simp
    qed
  qed
qed simp

end

subsection \<open>Files\<close>

text \<open>What POSIX says of \<open>pread\<close> on a file with these contents: an error, or some of the bytes from the offset on.\<close>

locale posix_file =
  fixes pread :: "'s \<Rightarrow> nat \<Rightarrow> nat \<Rightarrow> 's \<times> u8 list option" and content :: "'s \<Rightarrow> u8 list"
  assumes pread: "pread s len start = (s', r) \<Longrightarrow>
    content s' = content s \<and> (\<forall>bs. r = Some bs \<longrightarrow> (\<exists>n. bs = take n (take len (drop start (content s)))))"

sublocale posix_file \<subseteq> contents: flash_reader "file_io pread" "\<lambda>s i. content s ! i" limit
proof unfold_locales
  fix s a n s' r
  assume r: "io_read (file_io pread) s a n = (s', r)"
  obtain s1 r1 where p: "pread s n a = (s1, r1)" by fastforce
  have c: "content s1 = content s" "\<forall>bs. r1 = Some bs \<longrightarrow> (\<exists>k. bs = take k (take n (drop a (content s))))" using pread [OF p] by blast+
  have "bs = map ((!) (content s)) [a..<a + n]" if "r1 = Some bs" "\<not> length bs < n" for bs
  proof -
    obtain k where "bs = take k (take n (drop a (content s)))" using c(2) \<open>r1 = Some bs\<close> by blast
    then have "bs = take n (drop a (content s))" "length bs = n" using that(2) by (auto simp: min_def split: if_splits)
    then show ?thesis by (intro nth_equalityI) simp_all
  qed
  then show "(!) (content s') = (!) (content s) \<and> (\<forall>bs. r = Some bs \<longrightarrow> bs = map ((!) (content s)) [a..<a + n])"
    using r p c(1) by (cases r1) (auto simp: file_io_def file_read_def split: if_splits)
qed

definition pread_of :: "u8 list \<Rightarrow> unit \<Rightarrow> nat \<Rightarrow> nat \<Rightarrow> unit \<times> u8 list option" where
  "pread_of bytes s len start = (s, Some (take len (drop start bytes)))"

interpretation image_file: posix_file "pread_of bytes" "\<lambda>_. bytes" for bytes
proof unfold_locales
  fix s len start s' r
  assume "pread_of bytes s len start = (s', r)"
  then have "bs = take len (take len (drop start bytes))" if "r = Some bs" for bs using that by (auto simp: pread_of_def)
  then show "bytes = bytes \<and> (\<forall>bs. r = Some bs \<longrightarrow> (\<exists>n. bs = take n (take len (drop start bytes))))" by blast
qed

subsection \<open>Properties\<close>

text \<open>C13: \<open>image_read\<close>, on any file or flash that meets the contract of io.h, leaves the contents alone and returns
  either nothing or a valid image of exactly the first bytes (header, suffix and checksum right, vector table summing to zero),
  whose metadata lie inside the loaded code; it reads outside the image only for the two malformed headers named by
  \<open>strays\<close> (a size of zero, or metadata placed after the code).\<close>

theorem image_read_sound:
  assumes "flash_reader io mem limit" "65568 \<le> limit" "meta_layout P"
  shows "case image_read P c m io s of
      Inl f \<Rightarrow> strays (header_load_size (map (mem s) [0..<16])) (map (mem s) [0..<32 + header_load_size (map (mem s) [0..<16])])
    | Inr (s', None) \<Rightarrow> mem s' = mem s
    | Inr (s', Some img) \<Rightarrow> mem s' = mem s \<and> image_ok P (mem s) img"
  by (rule flash_reader.image_read_result [OF assms])

text \<open>C14: if an image is accepted, then every image that differs from it, and only within four consecutive bytes that lie
  after the first four bytes of the header (its magic and the size) and before the last four bytes (the checksum itself), is
  refused. A change of the size moves the checksum, and a change of the checksum together with the contents may agree; both are
  outside this statement.\<close>

theorem corrupted_image_refused:
  assumes io: "flash_reader io mem limit" "65568 \<le> limit" and io': "flash_reader io' mem' limit'" "65568 \<le> limit'"
    and lay: "meta_layout P" and acc: "image_read P c m io s = Inr (s1, Some img)"
    and win: "4 \<le> k" "k + 4 \<le> image_size img - 4"
    and same: "\<forall>i < image_size img. i < k \<or> k + 4 \<le> i \<longrightarrow> mem' t i = mem s i"
    and diff: "\<exists>i. k \<le> i \<and> i < k + 4 \<and> mem' t i \<noteq> mem s i"
  shows "\<exists>t1. image_read P c' m' io' t = Inr (t1, None)"
proof -
  define n where "n = image_size img"
  define bs where "bs = map (mem s) [0..<n]"
  have iok: "image_ok P (mem s) img"
    using flash_reader.image_read_result [OF io lay, where c = c and m = m and s = s] unfolding acc by simp
  then have b: "image_bytes img = bs" unfolding image_ok_def bs_def n_def by blast
  have "image_size img = load_size img + 16" "load_size img = 16 + header_load_size (image_bytes img)" "suffix_ok (image_bytes img)"
    using iok unfolding image_ok_def by blast+
  then have ok: "image_bytes img = bs" "header_load_size bs + 32 = n" "suffix_ok bs" unfolding b n_def by simp_all
  show ?thesis
  proof (cases rule: flash_reader.image_read_cases [OF io', where P = P and c = c' and m = m' and s = t, case_names refused accepted])
    case refused
    then show ?thesis by blast
  next
    case (accepted t' load bs')
    have n8: "8 \<le> n" "k + 8 \<le> n" using win by (simp_all add: n_def)
    have "take 4 bs' = map (mem' t) [0..<4]" unfolding accepted(6) by (simp add: take_map take_upt)
    also have "... = map (mem s) [0..<4]" using same win(1) n8 by (simp add: n_def)
    also have "... = take 4 bs" using n8 by (simp add: bs_def take_map take_upt)
    finally have "take 4 bs' = take 4 bs" .
    then have "header_load_size bs' = header_load_size bs"
      using le_at_take [of 2 2 4 bs', where 'a = 16] le_at_take [of 2 2 4 bs, where 'a = 16] by (simp add: header_load_size_def)
    then have nl: "32 + load = n" using accepted(3) ok(2) by linarith
    have len: "bs' = map (mem' t) [0..<n]" "n = 32 + load" using accepted(6) nl by (simp_all only: nl)
    define p u v r where "p = map (mem s) [0..<k]" and "u = map (mem' t) [k..<k + 4]" and "v = map (mem s) [k..<k + 4]"
      and "r = map (mem s) [k + 4..<n - 4]"
    have split: "[0..<n - 4] = [0..<k] @ [k..<k + 4] @ [k + 4..<n - 4]"
    proof -
      obtain d where "n - 4 = k + 4 + d" using win(2) by (auto simp: n_def le_iff_add)
      moreover have "[0..<k + 4 + d] = [0..<k + 4] @ [k + 4..<k + 4 + d]" by (rule upt_add_eq_append) simp
      moreover have "[0..<k + 4] = [0..<k] @ [k..<k + 4]" by (rule upt_add_eq_append) simp
      ultimately show ?thesis by simp
    qed
    have "map (mem' t) [0..<k] = p" "map (mem' t) [k + 4..<n - 4] = r"
      unfolding p_def r_def using same win(2) by (auto simp: n_def)
    then have tk: "take (n - 4) bs' = p @ u @ r" "take (n - 4) bs = p @ v @ r"
      unfolding len(1) bs_def u_def v_def by (simp_all add: take_map take_upt split p_def r_def)
    have "drop (n - 4) bs' = drop (n - 4) bs"
      unfolding len(1) bs_def using same win(2) by (auto simp: drop_map n_def)
    then have "(le_at 4 12 (drop (n - 16) bs') :: u32) = le_at 4 12 (drop (n - 16) bs)"
      using len(2) by (simp add: le_at_def)
    moreover have "length bs' = n" "length bs = n" by (simp_all add: len(1) bs_def)
    ultimately have "calc_dfu_crc (p @ u @ r) = calc_dfu_crc (p @ v @ r)"
      using accepted(7) ok(3) tk by (simp add: suffix_ok_def Let_def split: if_splits)
    then have "u = v" by (intro crc_bursts) (simp_all add: u_def v_def)
    then have "mem' t i = mem s i" if "k \<le> i" "i < k + 4" for i
      using that unfolding u_def v_def by (auto simp: map_eq_conv)
    then show ?thesis using diff by blast
  qed
qed

lemma file_accepted:
  assumes "header_ok bs" "header_load_size bs = load" "load < 65536" "length bs = 32 + load" "suffix_ok bs"
  shows "image_read P True True (file_io (pread_of bs)) () = accept_image P load bs ()"
proof -
  have r: "io_read (file_io (pread_of bs)) () 0 n = ((), Some (take n bs))" if "n \<le> length bs" for n
    using that by (simp add: file_io_def file_read_def pread_of_def)
  have "header_ok (take 16 bs)" "header_load_size (take 16 bs) = load" using assms(1,2) by (simp_all add: header_take)
  then show ?thesis using assms r [of 16] r [of "16 + load + 16"] by (simp add: image_read_def)
qed

text \<open>Note: an image with a right checksum makes \<open>image_read\<close> read beyond the bytes it allocated when its header gives the
  size zero, or when its vector table places the metadata after the code: the unsigned subtraction that computes how
  much is available wraps.\<close>

theorem image_overrun:
  assumes hdr: "header_ok bs" "header_load_size bs = load" "load < 65536" "length bs = 32 + load" "suffix_ok bs"
    and lay: "off_boot_mode P \<le> 2 ^ 31"
    and stray: "load = 0 \<or> vector_sum bs = Inr 0 \<and> 0x10000000 \<le> meta_address bs \<and> meta_address bs \<le> 0x1000ffff \<and>
      16 + load < unat (meta_address bs - 0x10000000)"
  shows "image_read P True True (file_io (pread_of bs)) () = Inl Out_of_bounds"
proof -
  have e: "image_read P True True (file_io (pread_of bs)) () = accept_image P load bs ()"
    using hdr by (rule file_accepted)
  show ?thesis
  proof (cases "load = 0")
    case True
    have "[0..<8] = [0, 1, 2, 3, 4 :: nat, 5, 6, 7]" by code_simp
    then have "vector_sum bs = Inl Out_of_bounds"
      using hdr(4) True by (simp add: vector_sum_def vector_def read_at_def)
    then show ?thesis unfolding e by (simp add: accept_image_def Let_def)
  next
    case False
    define a where "a = meta_address bs"
    have st: "vector_sum bs = Inr 0" "0x10000000 \<le> a" "a \<le> 0x1000ffff" "16 + load < unat (a - 0x10000000)"
      using stray False by (simp_all add: a_def)
    have "512 \<le> load" using header_load_size_mult [of bs] hdr(2) False by simp
    then have v: "vector bs 8 = Inr a" using hdr(4) by (simp add: vector_def read_at_def a_def meta_address_def)
    define off where "off = a - 0x10000000"
    have "unat off \<le> 0xffff"
    proof -
      have "off \<le> 0xffff" unfolding off_def using st(2,3) by (simp add: word_le_nat_alt unat_sub)
      then show ?thesis by (simp add: word_le_nat_alt)
    qed
    moreover have "unat (of_nat load :: u32) = load" using hdr(3) by (intro unat_of_nat_small) simp
    ultimately have "2 ^ 31 \<le> unat (of_nat load - off)"
      using st(4) by (simp add: unat_sub_if' off_def [symmetric])
    then have "meta_base_size P \<le> unat (of_nat load - off)" using lay by (simp add: meta_base_size_def)
    then have "load_metadata P load img = Inl Out_of_bounds" if "image_bytes img = bs" for img
      using st(2-4) v hdr(4) that
      by (simp add: load_metadata_def off_def [symmetric] copy_metadata_def read_at_def Let_def)
    then show ?thesis unfolding e using st(1) by (simp add: accept_image_def Let_def)
  qed
qed

subsection \<open>A small image\<close>

definition image_body :: "nat \<Rightarrow> u32 \<Rightarrow> u8 list" where
  "image_body blocks address =
    [0x1A, 0x3F, of_nat blocks, 0, 0, 0, 0, 0, 0, 0, 0, 0, 0xFF, 0xFF, 0xFF, 0xFF] @
    replicate 32 0 @ le_bytes 4 address @ replicate (512 * blocks - 36) 0 @
    [0, 0, 0x0c, 0, 0xc9, 0x1f, 0, 1, 0x55, 0x46, 0x44, 16]"

definition sealed :: "u8 list \<Rightarrow> u8 list" where
  "sealed body = body @ le_bytes 4 (calc_dfu_crc body)"

lemma sealed_ok:
  assumes "body = pre @ [a, b, c, d, e, f, 0, 1, 0x55, 0x46, 0x44, 16]"
  shows "suffix_ok (sealed body)"
proof -
  have "drop (length (sealed body) - 16) (sealed body) = [a, b, c, d, e, f, 0, 1, 0x55, 0x46, 0x44, 16] @ le_bytes 4 (calc_dfu_crc body)"
    by (simp add: sealed_def assms)
  moreover have "take (length (sealed body) - 4) (sealed body) = body" by (simp add: sealed_def)
  moreover have "le_word (le_bytes 4 (calc_dfu_crc body)) = calc_dfu_crc body" by (rule le_word_le_bytes) simp
  ultimately show ?thesis by (simp add: suffix_ok_def Let_def le_at_def)
qed

definition small_image :: "u32 \<Rightarrow> u8 list" where
  "small_image a = sealed (image_body 1 a)"

lemma image_body_ok:
  "header_ok (small_image a)" "header_load_size (small_image a) = 512" "length (small_image a) = 544"
  "suffix_ok (small_image a)" "vector_sum (small_image a) = Inr 0" "meta_address (small_image a) = a"
proof -
  define rest where "rest = replicate 476 0 @ [0, 0, 0x0c, 0, 0xc9, 0x1f, 0, 1, 0x55, 0x46, 0x44, 16] @ le_bytes 4 (calc_dfu_crc (image_body 1 a))"
  have s: "small_image a = [0x1A, 0x3F, 1, 0, 0, 0, 0, 0, 0, 0, 0, 0, 0xFF, 0xFF, 0xFF, 0xFF] @ replicate 32 0 @ le_bytes 4 a @ rest"
    by (simp add: small_image_def sealed_def rest_def image_body_def)
  have r: "length rest = 492" by (simp add: rest_def)
  show "header_ok (small_image a)" "header_load_size (small_image a) = 512" "length (small_image a) = 544"
    by (simp_all add: s header_ok_def header_load_size_def le_at_def r)
  show "suffix_ok (small_image a)" unfolding small_image_def by (rule sealed_ok) (simp add: image_body_def)
  have "[0..<8] = [0, 1, 2, 3, 4 :: nat, 5, 6, 7]" by code_simp
  moreover have "(le_word (replicate n 0) :: u32) = 0" for n by (induction n) simp_all
  ultimately show "vector_sum (small_image a) = Inr 0"
    by (simp add: s r vector_sum_def vector_def read_at_def le_at_def)
  have "le_word (le_bytes 4 a) = a" by (rule le_word_le_bytes) simp
  then show "meta_address (small_image a) = a"
    by (simp add: s meta_address_def le_at_def)
qed

theorem image_overrun_witness:
  "image_read sample_protocol True True (file_io (pread_of (small_image 0x1000ffff))) () = Inl Out_of_bounds"
  by (rule image_overrun [where load = 512]) (simp_all add: image_body_ok sample_protocol_def)

lemma sample_layout: "meta_layout sample_protocol"
  by (simp add: meta_layout_def sample_protocol_def)

lemma small_image_accepted:
  "\<exists>img. image_read sample_protocol True True (file_io (pread_of (small_image 0))) () = Inr ((), Some img) \<and> image_size img = 544"
proof -
  have "image_read sample_protocol True True (file_io (pread_of (small_image 0))) () = accept_image sample_protocol 512 (small_image 0) ()"
    by (rule file_accepted) (simp_all add: image_body_ok)
  moreover have "vector (small_image 0) 8 = Inr 0"
    using image_body_ok(3,6) [of 0] by (simp add: vector_def read_at_def meta_address_def)
  ultimately show ?thesis
    by (simp add: accept_image_def image_body_ok load_metadata_def Let_def)
qed

theorem image_read_sound_witness:
  "\<exists>img. image_read sample_protocol True True (file_io (pread_of (small_image 0))) () = Inr ((), Some img) \<and>
     image_ok sample_protocol (\<lambda>i. small_image 0 ! i) img"
proof -
  obtain img where "image_read sample_protocol True True (file_io (pread_of (small_image 0))) () = Inr ((), Some img)"
    using small_image_accepted by blast
  then show ?thesis
    using image_read_sound [OF image_file.contents.flash_reader_axioms [of "small_image 0" 65568] order_refl sample_layout,
      where c = True and m = True and s = "()"] by simp
qed

theorem corrupted_image_refused_witness:
  "\<exists>t1. image_read sample_protocol True True (file_io (pread_of ((small_image 0)[100 := 7]))) () = Inr (t1, None)"
proof -
  obtain img where img: "image_read sample_protocol True True (file_io (pread_of (small_image 0))) () = Inr ((), Some img)" "image_size img = 544"
    using small_image_accepted by blast
  have z: "small_image 0 ! 100 = 0"
    by (simp add: small_image_def sealed_def image_body_def nth_append)
  show ?thesis
    by (rule corrupted_image_refused [OF image_file.contents.flash_reader_axioms [of "small_image 0" 65568] order_refl
          image_file.contents.flash_reader_axioms [of "(small_image 0)[100 := 7]" 65568] order_refl sample_layout img(1), of 100])
      (use img(2) z image_body_ok(3) [of 0] in \<open>auto intro: exI [of _ 100]\<close>)
qed

end
