(* ===== verification/FlashWriteProps.thy ===== *)
theory FlashWriteProps
  imports FlashWrite ImageProps
begin

section \<open>The flash after a write\<close>

text \<open>
  The contracts of a readable and a writable flash as locales, what the write and verify commands do under them, and a
  simulated device that satisfies them.
\<close>

lemma slice_eq: "length xs = 4096 \<Longrightarrow> length ys = 4096 \<Longrightarrow> p + 256 \<le> 4096 \<Longrightarrow>
    (slice p 256 xs = slice p 256 ys) = (\<forall>i < 256. xs ! (p + i) = ys ! (p + i))"
  by (simp add: slice_def list_eq_iff_nth_eq)

lemma slice_erased: "length xs = 4096 \<Longrightarrow> p + 256 \<le> 4096 \<Longrightarrow> is_erased_page (slice p 256 xs) = (\<forall>i < 256. xs ! (p + i) = 0xFF)"
  by (simp add: erased_page slice_def)

lemma concat_pages: "concat (map (\<lambda>k. map f [a + k * 256..<a + k * 256 + 256]) [0..<n]) = map f [a..<a + n * 256]"
proof (induction n)
  case (Suc n)
  have "[a..<a + n * 256 + 256] = [a..<a + n * 256] @ [a + n * 256..<a + n * 256 + 256]" by (rule upt_add_eq_append) simp
  then show ?case using Suc.IH by (simp add: ac_simps)
qed simp

lemma page_cover: "i < 4096 \<Longrightarrow> \<exists>p \<in> set sector_pages. \<exists>j < 256. i = p + j"
proof -
  assume i: "i < 4096"
  have "i div 256 * 256 \<in> set sector_pages" "i mod 256 < 256" "i = i div 256 * 256 + i mod 256"
    using i by (auto simp: sector_pages)
  then show ?thesis by blast
qed

lemma sector_page_facts: "p \<in> set sector_pages \<Longrightarrow> p mod 256 = 0 \<and> p + 256 \<le> 4096"
  by (auto simp: sector_pages)

lemma sector_aligned: "(a :: nat) mod 4096 = 0 \<Longrightarrow> a mod 256 = 0"
proof -
  assume "a mod 4096 = 0"
  then obtain k where "a = 4096 * k" by (auto simp: mod_eq_0_iff_dvd elim: dvdE)
  then have "a = 256 * (16 * k)" by simp
  then show ?thesis by (simp only: mod_mult_self1_is_0)
qed

lemma in_page: "(b :: nat) mod 256 = 0 \<Longrightarrow> i < 256 \<Longrightarrow> (b + i) div 256 = b div 256"
proof -
  assume "b mod 256 = 0" "i < 256"
  then obtain k where "b = 256 * k" by (auto simp: mod_eq_0_iff_dvd elim: dvdE)
  then show ?thesis using \<open>i < 256\<close> by simp
qed

lemma page_in_sector:
  fixes a :: nat
  assumes "a mod 4096 = 0" "p + 256 \<le> 4096" "p mod 256 = 0" "x div 256 = (a + p) div 256"
  shows "x div 4096 = a div 4096"
proof -
  obtain k where k: "a = 4096 * k" using assms(1) by (auto simp: mod_eq_0_iff_dvd elim: dvdE)
  obtain j where j: "p = 256 * j" using assms(3) by (auto simp: mod_eq_0_iff_dvd elim: dvdE)
  have "x div 4096 = x div 256 div 16" by (simp add: div_mult2_eq [symmetric])
  also have "x div 256 = (256 * (16 * k + j)) div 256" unfolding assms(4) by (simp add: k j algebra_simps)
  also have "... div 16 = k" using assms(2) j by simp
  finally show ?thesis by (simp add: k)
qed

lemma image_fits: "image_size img \<le> image_sectors img * 4096"
proof -
  define q where "q = (image_size img + 4095) div 4096"
  have "image_size img + 4095 < (q + 1) * 4096" unfolding q_def by (simp add: dividend_less_div_times)
  then show ?thesis by (simp add: image_sectors_def FLASH_SECTOR_SIZE_def q_def)
qed

context flash_reader
begin

lemma scan_pages_ok:
  assumes "scan_pages io a fw pages flash erase s = (s', r)" "\<forall>p \<in> set pages. p + 256 \<le> 4096" "a + 4096 \<le> limit"
  shows "mem s' = mem s \<and> (\<forall>fl er. r = Some (fl, er) \<longrightarrow>
    fl = flash @ concat (map (\<lambda>p. map (mem s) [a + p..<a + p + 256]) pages) \<and>
    er = (erase \<or> (\<exists>p \<in> set pages. slice p 256 fw \<noteq> map (mem s) [a + p..<a + p + 256] \<and>
      \<not> is_erased_page (map (mem s) [a + p..<a + p + 256]))))"
  using assms
proof (induction pages arbitrary: flash erase s s' r)
  case (Cons p ps)
  obtain s1 r1 where r1: "io_read io s (a + p) 256 = (s1, r1)" by fastforce
  then have m: "mem s1 = mem s" "\<forall>bs. r1 = Some bs \<longrightarrow> bs = map (mem s) [a + p..<a + p + 256]"
    using read [OF r1] Cons.prems(2,3) by auto
  define bs where "bs = map (mem s) [a + p..<a + p + 256]"
  show ?case
  proof (cases r1)
    case None
    then show ?thesis using Cons.prems(1) r1 m by (auto simp: FLASH_PAGE_SIZE_def)
  next
    case (Some bs')
    then have b: "bs' = bs" using m(2) by (simp add: bs_def)
    have "scan_pages io a fw ps (flash @ bs) (erase \<or> slice p 256 fw \<noteq> bs \<and> \<not> is_erased_page bs) s1 = (s', r)"
      using Cons.prems(1) r1 Some b by (simp add: FLASH_PAGE_SIZE_def)
    from Cons.IH [OF this] Cons.prems(2,3)
    have "mem s' = mem s1 \<and> (\<forall>fl er. r = Some (fl, er) \<longrightarrow>
      fl = (flash @ bs) @ concat (map (\<lambda>p. map (mem s1) [a + p..<a + p + 256]) ps) \<and>
      er = ((erase \<or> slice p 256 fw \<noteq> bs \<and> \<not> is_erased_page bs) \<or> (\<exists>p \<in> set ps. slice p 256 fw \<noteq> map (mem s1) [a + p..<a + p + 256] \<and>
        \<not> is_erased_page (map (mem s1) [a + p..<a + p + 256]))))" by simp
    then show ?thesis unfolding m(1) by (auto simp: bs_def)
  qed
qed simp

lemma scan_sector:
  assumes "scan_pages io a fw sector_pages [] False s = (s', r)" "a + 4096 \<le> limit" "length fw = 4096"
  shows "mem s' = mem s \<and> (\<forall>fl er. r = Some (fl, er) \<longrightarrow> fl = map (mem s) [a..<a + 4096] \<and>
    (if er then \<exists>i < 4096. fw ! i \<noteq> mem s (a + i)
     else \<forall>p \<in> set sector_pages. (\<forall>i < 256. fw ! (p + i) = mem s (a + p + i)) \<or> (\<forall>i < 256. mem s (a + p + i) = 0xFF)))"
proof -
  have c: "concat (map (\<lambda>p. map (mem s) [a + p..<a + p + 256]) sector_pages) = map (mem s) [a..<a + 4096]"
    using concat_pages [of "mem s" a 16] by (simp add: sector_pages comp_def)
  have e: "(slice p 256 fw = map (mem s) [a + p..<a + p + 256]) = (\<forall>i < 256. fw ! (p + i) = mem s (a + p + i))"
    if "p \<in> set sector_pages" for p
    using sector_page_facts [OF that] assms(3) by (auto simp: slice_def list_eq_iff_nth_eq ac_simps min_def)
  have er: "is_erased_page (map (mem s) [a + p..<a + p + 256]) = (\<forall>i < 256. mem s (a + p + i) = 0xFF)" for p
    by (simp add: erased_page)
  have "\<forall>p \<in> set sector_pages. p + 256 \<le> 4096" using sector_page_facts by blast
  from scan_pages_ok [OF assms(1) this assms(2)]
  have r: "mem s' = mem s" "\<And>fl b. r = Some (fl, b) \<Longrightarrow> fl = map (mem s) [a..<a + 4096] \<and>
      b = (\<exists>p \<in> set sector_pages. slice p 256 fw \<noteq> map (mem s) [a + p..<a + p + 256] \<and> \<not> (\<forall>i < 256. mem s (a + p + i) = 0xFF))"
    unfolding c er by simp_all
  have "if b then \<exists>i < 4096. fw ! i \<noteq> mem s (a + i)
     else \<forall>p \<in> set sector_pages. (\<forall>i < 256. fw ! (p + i) = mem s (a + p + i)) \<or> (\<forall>i < 256. mem s (a + p + i) = 0xFF)"
    if rb: "r = Some (fl, b)" for fl b
  proof (cases b)
    case True
    then obtain p where p: "p \<in> set sector_pages" "slice p 256 fw \<noteq> map (mem s) [a + p..<a + p + 256]" using r(2) [OF rb] by blast
    then obtain i where "i < 256" "fw ! (p + i) \<noteq> mem s (a + p + i)" using e by blast
    then show ?thesis using True sector_page_facts [OF p(1)] by (auto intro!: exI [of _ "p + i"] simp: add.assoc)
  next
    case False
    then show ?thesis using r(2) [OF rb] e by auto
  qed
  then show ?thesis using r by blast
qed

lemma verify_pages_ok:
  assumes "verify_pages img io as s = (s', ok)" "image_size img \<le> limit" "\<forall>a \<in> set as. a \<le> image_size img"
  shows "mem s' = mem s \<and> (ok \<longrightarrow> (\<forall>a \<in> set as. \<forall>x. a \<le> x \<and> x < a + 256 \<and> x < image_size img \<longrightarrow> mem s x = image_bytes img ! x))"
  using assms
proof (induction "as" arbitrary: s s' ok)
  case (Cons a as)
  define n where "n = min (image_size img - a) 256"
  obtain s1 r1 where r1: "io_read io s a n = (s1, r1)" by fastforce
  have "a + n \<le> limit" using Cons.prems(2,3) by (auto simp: n_def min_def)
  then have m: "mem s1 = mem s" "\<forall>bs. r1 = Some bs \<longrightarrow> bs = map (mem s) [a..<a + n]" using read [OF r1] by auto
  show ?case
  proof (cases r1)
    case None
    then show ?thesis using Cons.prems(1) r1 m by (auto simp: FLASH_PAGE_SIZE_def n_def)
  next
    case (Some bs)
    then have b: "bs = map (mem s) [a..<a + n]" using m(2) by simp
    show ?thesis
    proof (cases "\<forall>i < n. mem s (a + i) = image_bytes img ! (a + i)")
      case False
      then have "\<not> list_all (\<lambda>i. bs ! i = image_bytes img ! (a + i)) [0..<n]" by (auto simp: list_all_iff b)
      then show ?thesis using Cons.prems(1) r1 Some m by (auto simp: FLASH_PAGE_SIZE_def n_def)
    next
      case True
      then have "list_all (\<lambda>i. bs ! i = image_bytes img ! (a + i)) [0..<n]" by (simp add: list_all_iff b)
      then have "verify_pages img io as s1 = (s', ok)"
        using Cons.prems(1) r1 Some by (simp add: FLASH_PAGE_SIZE_def n_def)
      from Cons.IH [OF this Cons.prems(2)] Cons.prems(3) m(1)
      have "mem s' = mem s \<and> (ok \<longrightarrow> (\<forall>a \<in> set as. \<forall>x. a \<le> x \<and> x < a + 256 \<and> x < image_size img \<longrightarrow> mem s x = image_bytes img ! x))" by simp
      moreover have "mem s x = image_bytes img ! x" if "a \<le> x" "x < a + 256" "x < image_size img" for x
      proof -
        have "x - a < n" using that by (auto simp: n_def min_def)
        then show ?thesis using True that(1) by fastforce
      qed
      ultimately show ?thesis by auto
    qed
  qed
qed simp

lemma verify_pages_complete:
  assumes "\<forall>t a n. snd (io_read io t a n) \<noteq> None" "image_size img \<le> limit" "\<forall>a \<in> set as. a \<le> image_size img"
    "\<forall>x < image_size img. mem s x = image_bytes img ! x"
  shows "snd (verify_pages img io as s)"
  using assms(3,4)
proof (induction "as" arbitrary: s)
  case (Cons a as)
  define n where "n = min (image_size img - a) 256"
  obtain s1 r1 where r1: "io_read io s a n = (s1, r1)" by fastforce
  have "a + n \<le> limit" using Cons.prems(1) assms(2) by (auto simp: n_def min_def)
  then have m: "mem s1 = mem s" "\<forall>bs. r1 = Some bs \<longrightarrow> bs = map (mem s) [a..<a + n]" using read [OF r1] by auto
  obtain bs where bs: "r1 = Some bs" using assms(1) r1 by (metis option.exhaust snd_conv)
  have "list_all (\<lambda>i. bs ! i = image_bytes img ! (a + i)) [0..<n]"
    using m(2) bs Cons.prems(2) by (auto simp: list_all_iff n_def)
  then show ?case using Cons r1 bs m(1) by (simp add: FLASH_PAGE_SIZE_def n_def)
qed simp

lemma verify_image_complete:
  assumes "\<forall>t a n. snd (io_read io t a n) \<noteq> None" "image_size img \<le> limit" "\<forall>x < image_size img. mem s x = image_bytes img ! x"
  shows "snd (verify_image img io s)"
  unfolding verify_image_def by (rule verify_pages_complete [OF assms(1,2) _ assms(3)]) (auto simp: FLASH_PAGE_SIZE_def)

lemma verify_image_sound:
  assumes "verify_image img io s = (s', ok)" "image_size img \<le> limit"
  shows "mem s' = mem s \<and> (ok \<longrightarrow> (\<forall>x < image_size img. mem s x = image_bytes img ! x))"
proof -
  define as where "as = map (\<lambda>k. k * 256) [0..<(image_size img + 256 - 1) div 256]"
  have b: "\<forall>a \<in> set as. a \<le> image_size img" by (auto simp: as_def)
  have "verify_pages img io as s = (s', ok)" using assms(1) by (simp add: verify_image_def FLASH_PAGE_SIZE_def as_def)
  from verify_pages_ok [OF this assms(2) b] show ?thesis
  proof (elim conjE, intro conjI impI allI)
    fix x assume ok: ok "ok \<longrightarrow> (\<forall>a \<in> set as. \<forall>x. a \<le> x \<and> x < a + 256 \<and> x < image_size img \<longrightarrow> mem s x = image_bytes img ! x)"
      and x: "x < image_size img"
    have "x div 256 * 256 \<in> set as" "x div 256 * 256 \<le> x" "x < x div 256 * 256 + 256"
      using x by (auto simp: as_def)
    then show "mem s x = image_bytes img ! x" using ok x by blast
  qed
qed

end

context nor_flash
begin

lemma write_erased:
  assumes "io_write_page io s a buf = (s', ok)" "a mod 256 = 0" "length buf = 256" "a + 256 \<le> limit" "\<forall>i < 256. mem s (a + i) = 0xFF"
  shows "\<forall>x. x div 256 \<noteq> a div 256 \<longrightarrow> mem s' x = mem s x" "ok \<Longrightarrow> \<forall>i < 256. mem s' (a + i) = buf ! i"
proof -
  have m: "(0xFF :: u8) = - 1" by simp
  have "(0xFF :: u8) AND b = b" for b unfolding m by simp
  then show "\<forall>x. x div 256 \<noteq> a div 256 \<longrightarrow> mem s' x = mem s x" "ok \<Longrightarrow> \<forall>i < 256. mem s' (a + i) = buf ! i"
    using write_page [OF assms(1-4)] assms(5) by auto
qed

lemma update_pages_ok:
  assumes "a mod 4096 = 0" "a + 4096 \<le> limit" "length fw = 4096" "length flash = 4096"
    and "\<forall>p \<in> set pages. p mod 256 = 0 \<and> p + 256 \<le> 4096" "distinct pages"
    and "\<forall>p \<in> set pages. \<forall>i < 256. mem s (a + p + i) = flash ! (p + i)"
    and "\<forall>p \<in> set pages. (\<forall>i < 256. fw ! (p + i) = flash ! (p + i)) \<or> (\<forall>i < 256. flash ! (p + i) = 0xFF)"
  shows "\<exists>s' r. update_pages io a fw flash pages modified s = Inr (s', r) \<and>
    (\<forall>x. (\<forall>p \<in> set pages. x div 256 \<noteq> (a + p) div 256) \<longrightarrow> mem s' x = mem s x) \<and>
    (\<forall>m. r = Some m \<longrightarrow> (\<forall>p \<in> set pages. \<forall>i < 256. mem s' (a + p + i) = fw ! (p + i)) \<and> modified \<le> m \<and>
       ((\<forall>p \<in> set pages. \<forall>i < 256. fw ! (p + i) = flash ! (p + i)) \<longrightarrow> m = modified))"
  using assms(5-8)
proof (induction pages arbitrary: modified s)
  case (Cons p ps)
  have p: "p mod 256 = 0" "p + 256 \<le> 4096" "p \<notin> set ps" using Cons.prems by simp_all
  have other: "(a + q) div 256 \<noteq> (a + p) div 256" if "q \<in> set ps" for q
  proof
    have q: "q mod 256 = 0" using Cons.prems(1) that by simp
    assume "(a + q) div 256 = (a + p) div 256"
    moreover have "(a + q) mod 256 = 0" "(a + p) mod 256 = 0"
      using sector_aligned [OF assms(1)] p(1) q by (simp_all add: mod_eq_0_iff_dvd)
    ultimately have "a + q = a + p" by (metis div_mult_mod_eq)
    then show False using that p(3) by simp
  qed
  have al: "(a + p) mod 256 = 0" using sector_aligned [OF assms(1)] p(1) by (simp add: mod_eq_0_iff_dvd)
  have idle: "slice p 256 flash = slice p 256 fw \<longleftrightarrow> (\<forall>i < 256. fw ! (p + i) = flash ! (p + i))"
    using slice_eq [OF assms(4,3) p(2)] by auto
  have pr: "\<forall>p \<in> set ps. p mod 256 = 0 \<and> p + 256 \<le> 4096" "distinct ps" "\<forall>p \<in> set ps. \<forall>i < 256. mem s (a + p + i) = flash ! (p + i)"
      "\<forall>p \<in> set ps. (\<forall>i < 256. fw ! (p + i) = flash ! (p + i)) \<or> (\<forall>i < 256. flash ! (p + i) = 0xFF)"
    using Cons.prems by simp_all
  show ?case
  proof (cases "\<forall>i < 256. fw ! (p + i) = flash ! (p + i)")
    case True
    then have u: "update_pages io a fw flash (p # ps) modified s = update_pages io a fw flash ps modified s"
      using idle by (simp add: FLASH_PAGE_SIZE_def)
    obtain s' r where q: "update_pages io a fw flash ps modified s = Inr (s', r)"
        "\<forall>x. (\<forall>p \<in> set ps. x div 256 \<noteq> (a + p) div 256) \<longrightarrow> mem s' x = mem s x"
        "\<forall>m. r = Some m \<longrightarrow> (\<forall>p \<in> set ps. \<forall>i < 256. mem s' (a + p + i) = fw ! (p + i)) \<and> modified \<le> m \<and>
          ((\<forall>p \<in> set ps. \<forall>i < 256. fw ! (p + i) = flash ! (p + i)) \<longrightarrow> m = modified)"
      using Cons.IH [OF pr, of modified] by blast
    have "mem s' (a + p + i) = fw ! (p + i)" if "i < 256" for i
    proof -
      have "(a + p + i) div 256 = (a + p) div 256"
        by (rule in_page [OF al that])
      then have "mem s' (a + p + i) = mem s (a + p + i)" using q(2) other by metis
      then show ?thesis using True Cons.prems(3) that by simp
    qed
    then have "\<forall>i < 256. mem s' (a + p + i) = fw ! (p + i)" by blast
    then have "\<forall>m. r = Some m \<longrightarrow> (\<forall>q \<in> set (p # ps). \<forall>i < 256. mem s' (a + q + i) = fw ! (q + i)) \<and> modified \<le> m \<and>
        ((\<forall>q \<in> set (p # ps). \<forall>i < 256. fw ! (q + i) = flash ! (q + i)) \<longrightarrow> m = modified)"
      using q(3) by (simp only: list.set ball_simps simp_thms) blast
    moreover have "\<forall>x. (\<forall>q \<in> set (p # ps). x div 256 \<noteq> (a + q) div 256) \<longrightarrow> mem s' x = mem s x" using q(2) by simp
    ultimately show ?thesis unfolding u using q(1) by blast
  next
    case False
    then have ne: "slice p 256 flash \<noteq> slice p 256 fw" using idle by blast
    define new where "new = slice p 256 fw"
    have er: "is_erased_page (slice p 256 flash)"
      using Cons.prems(4) False p(2) slice_erased [OF assms(4) p(2)] by auto
    have new: "length new = 256" "\<forall>i < 256. new ! i = fw ! (p + i)"
      using assms(3) p(2) by (simp_all add: new_def slice_def)
    obtain s1 ok where w: "io_write_page io s (a + p) new = (s1, ok)" by fastforce
    have old: "\<forall>i < 256. mem s (a + p + i) = 0xFF"
      using er Cons.prems(3) slice_erased [OF assms(4) p(2)] by simp
    have lim: "a + p + 256 \<le> limit" using assms(2) p(2) by simp
    note w1 = write_erased [OF w al new(1) lim old]
    have u: "update_pages io a fw flash (p # ps) modified s =
        (if ok then update_pages io a fw flash ps (Suc modified) s1 else Inr (s1, None))"
      using ne er w by (simp add: FLASH_PAGE_SIZE_def new_def Let_def)
    show ?thesis
    proof (cases ok)
      case ok: True
      have same: "\<forall>q \<in> set ps. \<forall>i < 256. mem s1 (a + q + i) = flash ! (q + i)"
      proof (intro ballI allI impI)
        fix q i :: nat assume q: "q \<in> set ps" and i: "i < 256"
        have "(a + q) mod 256 = 0" using q Cons.prems(1) sector_aligned [OF assms(1)] by (simp add: mod_eq_0_iff_dvd)
        then have "(a + q + i) div 256 = (a + q) div 256" using i by (rule in_page)
        then have "mem s1 (a + q + i) = mem s (a + q + i)" using w1(1) other [OF q] by metis
        then show "mem s1 (a + q + i) = flash ! (q + i)" using Cons.prems(3) q i by simp
      qed
      obtain s' r where q: "update_pages io a fw flash ps (Suc modified) s1 = Inr (s', r)"
          "\<forall>x. (\<forall>p \<in> set ps. x div 256 \<noteq> (a + p) div 256) \<longrightarrow> mem s' x = mem s1 x"
          "\<forall>m. r = Some m \<longrightarrow> (\<forall>p \<in> set ps. \<forall>i < 256. mem s' (a + p + i) = fw ! (p + i)) \<and> Suc modified \<le> m"
        using Cons.IH [OF pr(1,2) same pr(4), of "Suc modified"] by blast
      have "mem s' (a + p + i) = fw ! (p + i)" if "i < 256" for i
      proof -
        have "(a + p + i) div 256 = (a + p) div 256"
          by (rule in_page [OF al that])
        then have "mem s' (a + p + i) = mem s1 (a + p + i)" using q(2) other by metis
        then show ?thesis using w1(2) [OF ok] new(2) that by simp
      qed
      moreover have "\<forall>x. (\<forall>q \<in> set (p # ps). x div 256 \<noteq> (a + q) div 256) \<longrightarrow> mem s' x = mem s x" using q(2) w1(1) by simp
      moreover have "\<not> (\<forall>q \<in> set (p # ps). \<forall>i < 256. fw ! (q + i) = flash ! (q + i))" using False by auto
      ultimately show ?thesis unfolding u using ok q(1,3) by (intro exI [of _ s'] exI [of _ r]) auto
    next
      case no: False
      then show ?thesis unfolding u using w1(1) by (intro exI [of _ s1] exI [of _ None]) auto
    qed
  qed
qed simp

lemma update_sector:
  assumes a: "a mod 4096 = 0" "a + 4096 \<le> limit" and len: "length fw = 4096" "length flash = 4096"
    and flash: "\<forall>i < 4096. mem s (a + i) = flash ! i"
    and ready: "\<forall>p \<in> set sector_pages. (\<forall>i < 256. fw ! (p + i) = flash ! (p + i)) \<or> (\<forall>i < 256. flash ! (p + i) = 0xFF)"
  shows "\<exists>s' r. update_pages io a fw flash sector_pages modified s = Inr (s', r) \<and>
    (\<forall>x. x div 4096 \<noteq> a div 4096 \<longrightarrow> mem s' x = mem s x) \<and>
    (\<forall>m. r = Some m \<longrightarrow> (\<forall>i < 4096. mem s' (a + i) = fw ! i) \<and> modified \<le> m \<and> ((\<forall>i < 4096. fw ! i = flash ! i) \<longrightarrow> m = modified))"
proof -
  have pr: "\<forall>p \<in> set sector_pages. p mod 256 = 0 \<and> p + 256 \<le> 4096" "distinct sector_pages"
      "\<forall>p \<in> set sector_pages. \<forall>i < 256. mem s (a + p + i) = flash ! (p + i)"
    using sector_page_facts flash by (auto simp: sector_pages distinct_map inj_on_def add.assoc)
  obtain s' r where u: "update_pages io a fw flash sector_pages modified s = Inr (s', r)"
      "\<forall>x. (\<forall>p \<in> set sector_pages. x div 256 \<noteq> (a + p) div 256) \<longrightarrow> mem s' x = mem s x"
      "\<forall>m. r = Some m \<longrightarrow> (\<forall>p \<in> set sector_pages. \<forall>i < 256. mem s' (a + p + i) = fw ! (p + i)) \<and> modified \<le> m \<and>
         ((\<forall>p \<in> set sector_pages. \<forall>i < 256. fw ! (p + i) = flash ! (p + i)) \<longrightarrow> m = modified)"
    using update_pages_ok [OF a len pr ready, of modified] by blast
  have frame: "mem s' x = mem s x" if "x div 4096 \<noteq> a div 4096" for x
  proof -
    have "\<forall>p \<in> set sector_pages. x div 256 \<noteq> (a + p) div 256"
    proof
      fix p assume p: "p \<in> set sector_pages"
      show "x div 256 \<noteq> (a + p) div 256"
      proof
        assume "x div 256 = (a + p) div 256"
        then have "x div 4096 = a div 4096" using page_in_sector [OF a(1), of p x] sector_page_facts [OF p] by simp
        then show False using that by simp
      qed
    qed
    then show ?thesis using u(2) by blast
  qed
  have all: "\<forall>i < 4096. mem s' (a + i) = fw ! i" if "\<forall>p \<in> set sector_pages. \<forall>i < 256. mem s' (a + p + i) = fw ! (p + i)"
  proof (intro allI impI)
    fix i :: nat assume "i < 4096"
    then obtain p j where "p \<in> set sector_pages" "j < 256" "i = p + j" using page_cover by blast
    then show "mem s' (a + i) = fw ! i" using that by (simp add: add.assoc)
  qed
  have un: "\<forall>p \<in> set sector_pages. \<forall>i < 256. fw ! (p + i) = flash ! (p + i)" if "\<forall>i < 4096. fw ! i = flash ! i"
  proof (intro ballI allI impI)
    fix p i :: nat assume "p \<in> set sector_pages" "i < 256"
    then have "p + i < 4096" using sector_page_facts [of p] by simp
    then show "fw ! (p + i) = flash ! (p + i)" using that by blast
  qed
  have "\<forall>m. r = Some m \<longrightarrow> (\<forall>i < 4096. mem s' (a + i) = fw ! i) \<and> modified \<le> m \<and> ((\<forall>i < 4096. fw ! i = flash ! i) \<longrightarrow> m = modified)"
    using u(3) all un by simp
  then show ?thesis using u(1) frame by auto
qed

lemma write_sector_ok:
  assumes a: "a mod 4096 = 0" "a + 4096 \<le> limit" and img: "length (image_bytes img) = image_size img"
  shows "\<exists>s' r. write_sector img io force a modified s = Inr (s', r) \<and>
    (\<forall>x. x div 4096 \<noteq> a div 4096 \<longrightarrow> mem s' x = mem s x) \<and>
    (\<forall>m. r = Some m \<longrightarrow> (\<forall>i < 4096. mem s' (a + i) = wanted_byte img (a + i)) \<and> modified \<le> m \<and>
       (\<not> force \<and> (\<forall>i < 4096. mem s (a + i) = wanted_byte img (a + i)) \<longrightarrow> m = modified))"
proof -
  define fw where "fw = fw_sector img a"
  have fw: "length fw = 4096" "\<And>i. i < 4096 \<Longrightarrow> fw ! i = wanted_byte img (a + i)"
    using length_fw_sector [OF img] nth_fw_sector [OF img] by (simp_all add: fw_def)
  define scan where "scan = (if force then (s, Some ([], True)) else scan_pages io a fw sector_pages [] False s)"
  obtain s1 r1 where sc: "scan = (s1, r1)" by fastforce
  have m1: "mem s1 = mem s" "\<And>fl e. r1 = Some (fl, e) \<Longrightarrow> if e then force \<or> (\<exists>i < 4096. fw ! i \<noteq> mem s (a + i))
      else fl = map (mem s) [a..<a + 4096] \<and>
        (\<forall>p \<in> set sector_pages. (\<forall>i < 256. fw ! (p + i) = mem s (a + p + i)) \<or> (\<forall>i < 256. mem s (a + p + i) = 0xFF))"
  proof -
    have "mem s1 = mem s \<and> (\<forall>fl e. r1 = Some (fl, e) \<longrightarrow> (if e then force \<or> (\<exists>i < 4096. fw ! i \<noteq> mem s (a + i))
      else fl = map (mem s) [a..<a + 4096] \<and>
        (\<forall>p \<in> set sector_pages. (\<forall>i < 256. fw ! (p + i) = mem s (a + p + i)) \<or> (\<forall>i < 256. mem s (a + p + i) = 0xFF))))"
    proof (cases force)
      case True
      then show ?thesis using sc by (auto simp: scan_def)
    next
      case False
      then have "scan_pages io a fw sector_pages [] False s = (s1, r1)" using sc by (simp add: scan_def)
      from scan_sector [OF this a(2) fw(1)] show ?thesis by (metis (mono_tags, lifting))
    qed
    then show "mem s1 = mem s" "\<And>fl e. r1 = Some (fl, e) \<Longrightarrow> if e then force \<or> (\<exists>i < 4096. fw ! i \<noteq> mem s (a + i))
      else fl = map (mem s) [a..<a + 4096] \<and>
        (\<forall>p \<in> set sector_pages. (\<forall>i < 256. fw ! (p + i) = mem s (a + p + i)) \<or> (\<forall>i < 256. mem s (a + p + i) = 0xFF))" by blast+
  qed
  show ?thesis
  proof (cases r1)
    case None
    have "write_sector img io force a modified s = Inr (s1, None)"
      unfolding write_sector_def Let_def fw_def [symmetric] scan_def [symmetric] sc None by simp
    then show ?thesis using m1(1) by auto
  next
    case (Some q)
    obtain fl e where q: "q = (fl, e)" by (cases q)
    show ?thesis
    proof (cases e)
      case False
      have w: "write_sector img io force a modified s = update_pages io a fw fl sector_pages modified s1"
        unfolding write_sector_def Let_def fw_def [symmetric] scan_def [symmetric] sc Some q using False by simp
      have fl: "fl = map (mem s) [a..<a + 4096]"
          "\<forall>p \<in> set sector_pages. (\<forall>i < 256. fw ! (p + i) = mem s (a + p + i)) \<or> (\<forall>i < 256. mem s (a + p + i) = 0xFF)"
        using m1(2) [OF Some [unfolded q]] False by simp_all
      have l: "length fl = 4096" using fl(1) by simp
      have n: "fl ! i = mem s (a + i)" if "i < 4096" for i using fl(1) that by simp
      have fm: "\<forall>i < 4096. mem s1 (a + i) = fl ! i" using m1(1) n by simp
      have rd: "\<forall>p \<in> set sector_pages. (\<forall>i < 256. fw ! (p + i) = fl ! (p + i)) \<or> (\<forall>i < 256. fl ! (p + i) = 0xFF)"
      proof
        fix p assume p: "p \<in> set sector_pages"
        then have "fl ! (p + i) = mem s (a + p + i)" if "i < 256" for i
          using n [of "p + i"] sector_page_facts [OF p] that by (simp add: add.assoc)
        then show "(\<forall>i < 256. fw ! (p + i) = fl ! (p + i)) \<or> (\<forall>i < 256. fl ! (p + i) = 0xFF)" using fl(2) p by auto
      qed
      obtain s' r where u: "update_pages io a fw fl sector_pages modified s1 = Inr (s', r)"
          "\<forall>x. x div 4096 \<noteq> a div 4096 \<longrightarrow> mem s' x = mem s1 x"
          "\<forall>m. r = Some m \<longrightarrow> (\<forall>i < 4096. mem s' (a + i) = fw ! i) \<and> modified \<le> m \<and> ((\<forall>i < 4096. fw ! i = fl ! i) \<longrightarrow> m = modified)"
        using update_sector [OF a fw(1) l fm rd, of modified] by blast
      have "(\<forall>i < 4096. fw ! i = fl ! i) = (\<forall>i < 4096. mem s (a + i) = wanted_byte img (a + i))" using fw(2) n by auto
      then have "\<forall>m. r = Some m \<longrightarrow> (\<forall>i < 4096. mem s' (a + i) = wanted_byte img (a + i)) \<and> modified \<le> m \<and>
          (\<not> force \<and> (\<forall>i < 4096. mem s (a + i) = wanted_byte img (a + i)) \<longrightarrow> m = modified)"
        using u(3) fw(2) by simp
      then show ?thesis unfolding w using u(1,2) m1(1) by auto
    next
      case True
      obtain s2 ok where er: "io_erase_sector io s1 a = (s2, ok)" by fastforce
      note e2 = erase_sector [OF er a]
      have w: "write_sector img io force a modified s = (if ok then
          update_pages io a fw (replicate 4096 0xFF) sector_pages modified s2 else Inr (s2, None))"
        unfolding write_sector_def Let_def fw_def [symmetric] scan_def [symmetric] sc Some q using True er
        by (simp add: FLASH_SECTOR_SIZE_def)
      show ?thesis
      proof (cases ok)
        case ok: True
        have fm: "\<forall>i < 4096. mem s2 (a + i) = replicate 4096 0xFF ! i" using e2 ok by simp
        have ready: "\<forall>p \<in> set sector_pages. (\<forall>i < 256. fw ! (p + i) = replicate 4096 0xFF ! (p + i)) \<or> (\<forall>i < 256. replicate 4096 0xFF ! (p + i) = 0xFF)"
          using sector_page_facts by fastforce
        have ne: "\<exists>i < 4096. mem s (a + i) \<noteq> wanted_byte img (a + i)" if "\<not> force"
          using m1(2) [OF Some [unfolded q]] True that fw(2) by fastforce
        obtain s' r where u: "update_pages io a fw (replicate 4096 0xFF) sector_pages modified s2 = Inr (s', r)"
            "\<forall>x. x div 4096 \<noteq> a div 4096 \<longrightarrow> mem s' x = mem s2 x"
            "\<forall>m. r = Some m \<longrightarrow> (\<forall>i < 4096. mem s' (a + i) = fw ! i) \<and> modified \<le> m"
          using update_sector [OF a fw(1) _ fm ready, of modified] by (metis length_replicate)
        have w': "write_sector img io force a modified s = Inr (s', r)" using w u(1) ok by simp
        have "\<forall>x. x div 4096 \<noteq> a div 4096 \<longrightarrow> mem s' x = mem s x" using u(2) e2 m1(1) by simp
        moreover have "\<forall>m. r = Some m \<longrightarrow> (\<forall>i < 4096. mem s' (a + i) = wanted_byte img (a + i)) \<and> modified \<le> m"
          using u(3) fw(2) by simp
        ultimately show ?thesis using w' ne by blast
      next
        case False
        then show ?thesis unfolding w using e2 m1(1) by auto
      qed
    qed
  qed
qed

lemma write_sectors_ok:
  assumes "n * 4096 \<le> limit" "length (image_bytes img) = image_size img"
  shows "\<exists>s' r. write_sectors img io force (map (\<lambda>k. k * 4096) [k..<n]) modified s = Inr (s', r) \<and>
    (\<forall>x. \<not> (k * 4096 \<le> x \<and> x < n * 4096) \<longrightarrow> mem s' x = mem s x) \<and>
    (\<forall>m. r = Some m \<longrightarrow> (\<forall>x. k * 4096 \<le> x \<and> x < n * 4096 \<longrightarrow> mem s' x = wanted_byte img x) \<and> modified \<le> m \<and>
       (\<not> force \<and> (\<forall>x. k * 4096 \<le> x \<and> x < n * 4096 \<longrightarrow> mem s x = wanted_byte img x) \<longrightarrow> m = modified))"
proof (induction "n - k" arbitrary: k modified s)
  case 0
  then show ?case by (auto intro!: exI [of _ s] exI [of _ "Some modified"])
next
  case (Suc d)
  then have k: "k < n" "d = n - Suc k" "[k..<n] = k # [Suc k..<n]" by (simp_all add: upt_conv_Cons)
  define a where "a = k * 4096"
  have a: "a mod 4096 = 0" "a + 4096 \<le> limit" "a div 4096 = k"
    using assms(1) k(1) by (simp_all add: a_def)
  obtain s1 r1 where w: "write_sector img io force a modified s = Inr (s1, r1)" "\<forall>x. x div 4096 \<noteq> k \<longrightarrow> mem s1 x = mem s x"
      "\<forall>m. r1 = Some m \<longrightarrow> (\<forall>i < 4096. mem s1 (a + i) = wanted_byte img (a + i)) \<and> modified \<le> m \<and>
         (\<not> force \<and> (\<forall>i < 4096. mem s (a + i) = wanted_byte img (a + i)) \<longrightarrow> m = modified)"
    using write_sector_ok [OF a(1,2) assms(2), of force modified s] a(3) by auto
  have split: "k * 4096 \<le> x \<and> x < n * 4096 \<longleftrightarrow> x div 4096 = k \<or> Suc k * 4096 \<le> x \<and> x < n * 4096" for x
    using k(1) by (auto simp: div_nat_eqI less_Suc_eq_le)
  show ?case
  proof (cases r1)
    case None
    then show ?thesis using w(1,2) k(3) split by (auto simp: a_def [symmetric] intro!: exI [of _ s1] exI [of _ None])
  next
    case (Some m1)
    obtain s2 r2 where q: "write_sectors img io force (map (\<lambda>k. k * 4096) [Suc k..<n]) m1 s1 = Inr (s2, r2)"
        "\<forall>x. \<not> (Suc k * 4096 \<le> x \<and> x < n * 4096) \<longrightarrow> mem s2 x = mem s1 x"
        "\<forall>m. r2 = Some m \<longrightarrow> (\<forall>x. Suc k * 4096 \<le> x \<and> x < n * 4096 \<longrightarrow> mem s2 x = wanted_byte img x) \<and> m1 \<le> m \<and>
           (\<not> force \<and> (\<forall>x. Suc k * 4096 \<le> x \<and> x < n * 4096 \<longrightarrow> mem s1 x = wanted_byte img x) \<longrightarrow> m = m1)"
      using Suc.hyps(1) [OF k(2), of m1 s1] by blast
    have e: "write_sectors img io force (map (\<lambda>k. k * 4096) [k..<n]) modified s = Inr (s2, r2)"
      using w(1) q(1) Some k(3) by (simp add: a_def)
    have sector: "mem s1 x = wanted_byte img x" if "x div 4096 = k" for x
    proof -
      have "x = a + x mod 4096" using that div_mult_mod_eq [of x 4096] by (simp add: a_def)
      then show ?thesis using w(3) Some by (metis mod_less_divisor zero_less_numeral)
    qed
    have far: "x div 4096 \<noteq> k" if "Suc k * 4096 \<le> x" for x
    proof -
      have "Suc k \<le> x div 4096" using div_le_mono [OF that, of 4096] by simp
      then show ?thesis by simp
    qed
    have near: "\<not> (Suc k * 4096 \<le> x \<and> x < n * 4096)" if "x div 4096 = k" for x using far that by blast
    have frame: "\<forall>x. \<not> (k * 4096 \<le> x \<and> x < n * 4096) \<longrightarrow> mem s2 x = mem s x" using split q(2) w(2) by simp
    have res: "mem s2 x = wanted_byte img x" if "r2 = Some m" "k * 4096 \<le> x \<and> x < n * 4096" for m x
    proof (cases "x div 4096 = k")
      case True
      then show ?thesis using q(2) near sector by metis
    next
      case False
      then show ?thesis using that split q(3) by blast
    qed
    have same: "m = modified" if "r2 = Some m" "\<not> force" "\<forall>x. k * 4096 \<le> x \<and> x < n * 4096 \<longrightarrow> mem s x = wanted_byte img x" for m
    proof -
      have "a + i < n * 4096" if "i < 4096" for i
      proof -
        have "(a + i) div 4096 = k" using that by (simp add: a_def)
        then show ?thesis using split by blast
      qed
      then have "\<forall>i < 4096. mem s (a + i) = wanted_byte img (a + i)" using that(3) by (simp add: a_def)
      then have "m1 = modified" using w(3) Some that(2) by blast
      moreover have "\<forall>x. Suc k * 4096 \<le> x \<and> x < n * 4096 \<longrightarrow> mem s1 x = wanted_byte img x"
        using that(3) w(2) far split by metis
      then have "m = m1" using q(3) that(1,2) by blast
      ultimately show ?thesis by simp
    qed
    have le: "modified \<le> m" if "r2 = Some m" for m using q(3) w(3) Some that by fastforce
    show ?thesis using e frame res same le by (intro exI [of _ s2] exI [of _ r2]) simp
  qed
qed

lemma write_image_result:
  assumes "image_sectors img * 4096 \<le> limit" "length (image_bytes img) = image_size img"
  shows "\<exists>s' r. write_image img io force s = Inr (s', r) \<and> (\<forall>x. image_sectors img * 4096 \<le> x \<longrightarrow> mem s' x = mem s x) \<and>
    (\<forall>m. r = Some m \<longrightarrow> (\<forall>x < image_sectors img * 4096. mem s' x = wanted_byte img x) \<and>
       (\<not> force \<and> (\<forall>x < image_sectors img * 4096. mem s x = wanted_byte img x) \<longrightarrow> m = 0))"
  using write_sectors_ok [OF assms, of force 0 0 s] by (auto simp: write_image_def FLASH_SECTOR_SIZE_def not_less)

end

subsection \<open>Properties\<close>

text \<open>C11: on flash that meets the contract of io.h, \<open>write_image\<close> never trips its assertion and never changes a
  byte after the image's last sector. When it returns a number of pages (no operation failed), the flash holds exactly the image,
  padded with 0xFF to the end of that sector, whatever it held before; the number is 0 when it already did and no erase was
  forced; and \<open>verify_image\<close> then succeeds unless a read fails.\<close>

theorem write_image_correct:
  assumes "nor_flash io mem limit" "image_sectors img * 4096 \<le> limit" "length (image_bytes img) = image_size img"
  shows "\<exists>s' r. write_image img io force s = Inr (s', r) \<and> (\<forall>x. image_sectors img * 4096 \<le> x \<longrightarrow> mem s' x = mem s x) \<and>
    (\<forall>m. r = Some m \<longrightarrow> (\<forall>x < image_sectors img * 4096. mem s' x = wanted_byte img x) \<and>
       (\<not> force \<and> (\<forall>x < image_sectors img * 4096. mem s x = wanted_byte img x) \<longrightarrow> m = 0) \<and>
       ((\<forall>t a n. snd (io_read io t a n) \<noteq> None) \<longrightarrow> snd (verify_image img io s')))"
proof -
  obtain s' r where w: "write_image img io force s = Inr (s', r)" "\<forall>x. image_sectors img * 4096 \<le> x \<longrightarrow> mem s' x = mem s x"
      "\<forall>m. r = Some m \<longrightarrow> (\<forall>x < image_sectors img * 4096. mem s' x = wanted_byte img x) \<and>
         (\<not> force \<and> (\<forall>x < image_sectors img * 4096. mem s x = wanted_byte img x) \<longrightarrow> m = 0)"
    using nor_flash.write_image_result [OF assms, of force s] by blast
  have rd: "flash_reader io mem limit" using assms(1) by (simp add: nor_flash_def)
  have "snd (verify_image img io s')" if "r = Some m" "\<forall>t a n. snd (io_read io t a n) \<noteq> None" for m
  proof (rule flash_reader.verify_image_complete [OF rd that(2)])
    show "image_size img \<le> limit" using image_fits assms(2) by (rule order_trans)
    have "x < image_sectors img * 4096" if "x < image_size img" for x using that image_fits [of img] by simp
    then have "\<forall>x < image_size img. mem s' x = wanted_byte img x" using w(3) that(1) by blast
    then show "\<forall>x < image_size img. mem s' x = image_bytes img ! x" by (simp add: wanted_byte_def)
  qed
  then show ?thesis using w by (intro exI [of _ s'] exI [of _ r]) simp
qed

text \<open>Note: \<open>verify_image\<close> changes nothing, reports a match only when the flash holds the image, and reports one whenever it
  does, unless a read fails.\<close>

theorem verify_image_correct:
  assumes "flash_reader io mem limit" "image_size img \<le> limit"
  shows "mem (fst (verify_image img io s)) = mem s \<and>
    (snd (verify_image img io s) \<longrightarrow> (\<forall>x < image_size img. mem s x = image_bytes img ! x)) \<and>
    ((\<forall>t a n. snd (io_read io t a n) \<noteq> None) \<and> (\<forall>x < image_size img. mem s x = image_bytes img ! x) \<longrightarrow> snd (verify_image img io s))"
  using flash_reader.verify_image_sound [OF assms(1) surjective_pairing assms(2)]
    flash_reader.verify_image_complete [OF assms(1) _ assms(2)] by blast

subsection \<open>A dry run\<close>

text \<open>The flash object that \<open>-n\<close> opens only reads, and the code's assertion still holds.\<close>

lemma update_dry:
  assumes "\<forall>p \<in> set pages. slice p 256 fw = slice p 256 flash \<or> is_erased_page (slice p 256 flash)"
  shows "\<exists>k. update_pages (flash_io E True) a fw flash pages modified s = Inr (s, Some k)"
  using assms
proof (induction pages arbitrary: modified)
  case (Cons p ps)
  then show ?case by (auto simp: FLASH_PAGE_SIZE_def flash_io_def dryrun_write_page_def Let_def)
qed simp

context flash_device
begin

lemma write_sector_dry:
  assumes "a + 4096 \<le> limit" "length (image_bytes img) = image_size img"
  shows "\<exists>s' r. write_sector img (flash_io E True) force a modified s = Inr (s', r) \<and> mem s' = mem s"
proof -
  define fw where "fw = fw_sector img a"
  have fw: "length fw = 4096" using length_fw_sector [OF assms(2)] by (simp add: fw_def)
  have erased: "\<exists>k. update_pages (flash_io E True) a fw (replicate 4096 0xFF) sector_pages modified t = Inr (t, Some k)" for t
  proof (rule update_dry)
    show "\<forall>p \<in> set sector_pages. slice p 256 fw = slice p 256 (replicate 4096 0xFF) \<or> is_erased_page (slice p 256 (replicate 4096 0xFF))"
      using sector_page_facts slice_erased [of "replicate 4096 0xFF"] by fastforce
  qed
  show ?thesis
  proof (cases force)
    case True
    then show ?thesis using erased [of s]
      by (auto simp: write_sector_def fw_def flash_io_def dryrun_erase_sector_def FLASH_SECTOR_SIZE_def)
  next
    case False
    obtain s1 r1 where sc: "scan_pages (flash_io E True) a fw sector_pages [] False s = (s1, r1)" by fastforce
    note scan = dry.scan_sector [OF sc assms(1) fw]
    show ?thesis
    proof (cases r1)
      case None
      then show ?thesis using sc scan False by (simp add: write_sector_def fw_def)
    next
      case (Some q)
      obtain fl e where q: "q = (fl, e)" by (cases q)
      show ?thesis
      proof (cases e)
        case True
        then show ?thesis using sc scan False Some q erased [of s1]
          by (auto simp: write_sector_def fw_def flash_io_def dryrun_erase_sector_def FLASH_SECTOR_SIZE_def)
      next
        case e: False
        have fl: "fl = map (mem s) [a..<a + 4096]" using scan Some q by blast
        have rd: "\<forall>p \<in> set sector_pages. (\<forall>i < 256. fw ! (p + i) = mem s (a + p + i)) \<or> (\<forall>i < 256. mem s (a + p + i) = 0xFF)"
          using scan Some q e by auto
        have "slice p 256 fw = slice p 256 fl \<or> is_erased_page (slice p 256 fl)" if p: "p \<in> set sector_pages" for p
        proof -
          have flp: "fl ! (p + i) = mem s (a + p + i)" if "i < 256" for i
            using sector_page_facts [OF p] that by (simp add: fl add.assoc)
          have len: "length fl = 4096" by (simp add: fl)
          have ps: "p + 256 \<le> 4096" using sector_page_facts [OF p] by blast
          have "(slice p 256 fw = slice p 256 fl) = (\<forall>i < 256. fw ! (p + i) = mem s (a + p + i))"
              "is_erased_page (slice p 256 fl) = (\<forall>i < 256. mem s (a + p + i) = 0xFF)"
            unfolding slice_eq [OF fw len ps] slice_erased [OF len ps] by (simp_all add: flp)
          then show ?thesis using rd p by blast
        qed
        then have "\<forall>p \<in> set sector_pages. slice p 256 fw = slice p 256 fl \<or> is_erased_page (slice p 256 fl)" ..
        from update_dry [OF this, of E a modified s1]
        obtain k where "update_pages (flash_io E True) a fw fl sector_pages modified s1 = Inr (s1, Some k)" ..
        then show ?thesis using sc scan False Some q e by (simp add: write_sector_def fw_def)
      qed
    qed
  qed
qed

lemma write_sectors_dry:
  assumes "\<forall>a \<in> set as. a + 4096 \<le> limit" "length (image_bytes img) = image_size img"
  shows "\<exists>s' r. write_sectors img (flash_io E True) force as modified s = Inr (s', r) \<and> mem s' = mem s"
  using assms(1)
proof (induction "as" arbitrary: modified s)
  case (Cons a as)
  obtain s1 r1 where w: "write_sector img (flash_io E True) force a modified s = Inr (s1, r1)" "mem s1 = mem s"
    using write_sector_dry [of a img force modified s] Cons.prems assms(2) by auto
  then show ?case using Cons.IH [of "the r1" s1] Cons.prems by (cases r1) auto
qed auto

end

subsection \<open>A simulated device\<close>

definition sim_env :: "(nat \<Rightarrow> u8) usb_env" where
  "sim_env = \<lparr>libusb_control_transfer = (\<lambda>u c.
     let a = unat (wValue c) + 65536 * unat (wIndex c)
     in if bRequest c = 11 then (u, uint (wLength c), map u [a..<a + unat (wLength c)])
        else if bRequest c = 12
        then (\<lambda>x. if a \<le> x \<and> x < a + length (out_data c) then u x AND out_data c ! (x - a) else u x, uint (wLength c), [])
        else (\<lambda>x. if x div 4096 = a div 4096 then 0xFF else u x, 0, [])),
     lu = libusb_1_0, proto = sample_protocol\<rparr>"

interpretation sim: flash_device sim_env "\<lambda>u. u" "2 ^ 20"
proof unfold_locales
  fix u :: "nat \<Rightarrow> u8" and a n :: nat and t u' e bytes
  assume r: "ctrl_flash_read_quad sim_env u (of_nat a) n t = (u', e, bytes)" "0 < n" "a mod 256 + n \<le> 256" "a + n \<le> 2 ^ 20"
  have "unat (of_nat n :: u16) = n" using r(3) by (intro unat_of_nat_small) simp
  then show "u' = u \<and> (\<not> e < 0 \<longrightarrow> bytes = map u [a..<a + n])"
    using r address_halves [of a]
    by (auto simp: ctrl_flash_read_quad_def control_in_def sim_env_def sample_protocol_def Let_def split: if_splits)
next
  fix u :: "nat \<Rightarrow> u8" and a buf t u' e
  assume w: "ctrl_flash_write sim_env u (of_nat a) buf t = (u', e)" "a mod 256 = 0" "length buf = 256" "a + 256 \<le> 2 ^ 20"
  have u': "u' = (\<lambda>x. if a \<le> x \<and> x < a + 256 then u x AND buf ! (x - a) else u x)"
    using w address_halves [of a]
    by (auto simp: ctrl_flash_write_def control_out_def sim_env_def sample_protocol_def Let_def split: if_splits)
  show "(\<forall>x. x div 256 \<noteq> a div 256 \<longrightarrow> u' x = u x) \<and> (\<not> e < 0 \<longrightarrow> (\<forall>i < 256. u' (a + i) = u (a + i) AND buf ! i))"
  proof (intro conjI allI impI)
    fix x assume "x div 256 \<noteq> a div 256"
    then have "\<not> (a \<le> x \<and> x < a + 256)" using in_page [OF w(2), of "x - a"] by fastforce
    then show "u' x = u x" unfolding u' by (rule if_not_P)
  qed (simp add: u')
next
  fix u :: "nat \<Rightarrow> u8" and a t u' e
  assume w: "ctrl_flash_erase sim_env u (of_nat a) t = (u', e)" "a mod 4096 = 0" "a + 4096 \<le> 2 ^ 20"
  have u': "u' = (\<lambda>x. if x div 4096 = a div 4096 then 0xFF else u x)"
    using w address_halves [of a]
    by (auto simp: ctrl_flash_erase_def control_out_def sim_env_def sample_protocol_def Let_def split: if_splits)
  have "(a + i) div 4096 = a div 4096" if "i < 4096" for i
  proof -
    obtain k where "a = 4096 * k" using w(2) by (auto simp: mod_eq_0_iff_dvd elim: dvdE)
    then show ?thesis using that by simp
  qed
  then show "(\<forall>x. x div 4096 \<noteq> a div 4096 \<longrightarrow> u' x = u x) \<and> (\<not> e < 0 \<longrightarrow> (\<forall>i < 4096. u' (a + i) = 0xFF))"
    unfolding u' by auto
qed

definition sim_image :: firmware_image where
  "sim_image = \<lparr>image_size = 544, image_bytes = small_image 0, dfu_release = 0, dfu_crc = 0, load_size = 528, img_metadata = no_metadata,
     raw_metadata = None, raw_metadata_size = 0\<rparr>"

lemma sim_image: "image_sectors sim_image = 1" "length (image_bytes sim_image) = image_size sim_image"
  by (simp_all add: sim_image_def image_sectors_def FLASH_SECTOR_SIZE_def image_body_ok)

theorem write_image_correct_witness:
  "\<exists>s' r. write_image sim_image (flash_io sim_env False) True (\<lambda>_. 0x55) = Inr (s', r) \<and> s' 4096 = 0x55 \<and>
    (r \<noteq> None \<longrightarrow> s' 0 = 0x1A \<and> s' 4095 = 0xFF)"
proof -
  have 0: "wanted_byte sim_image 0 = 0x1A" "wanted_byte sim_image 4095 = 0xFF"
    by (simp_all add: wanted_byte_def sim_image_def small_image_def sealed_def image_body_def)
  show ?thesis
    using write_image_correct [OF sim.real.nor_flash_axioms, of sim_image True "\<lambda>_. 0x55"] sim_image 0 by fastforce
qed

theorem verify_image_correct_witness:
  "\<not> snd (verify_image sim_image (flash_io sim_env True) (\<lambda>_. 0x55))"
proof -
  have "image_bytes sim_image ! 0 = 0x1A" "image_size sim_image = 544"
    by (simp_all add: sim_image_def small_image_def sealed_def image_body_def)
  then show ?thesis
    using verify_image_correct [OF sim.dry.flash_reader_axioms, of sim_image "\<lambda>_. 0x55"] by fastforce
qed

text \<open>C12: with \<open>-n\<close> the flash object reads the device but writes nothing, and \<open>write_image\<close> on it runs to the end without
  tripping its assertion and leaves the flash unchanged.\<close>

theorem dry_run_harmless:
  assumes "flash_device E mem limit" "image_sectors img * 4096 \<le> limit" "length (image_bytes img) = image_size img"
  shows "\<exists>s' r. write_image img (flash_io E True) force s = Inr (s', r) \<and> mem s' = mem s"
proof -
  have "\<forall>a \<in> set (map (\<lambda>k. k * 4096) [0..<image_sectors img]). a + 4096 \<le> limit"
  proof
    fix a assume "a \<in> set (map (\<lambda>k. k * 4096) [0..<image_sectors img])"
    then obtain k where "a = k * 4096" "Suc k \<le> image_sectors img" by auto
    then have "a + 4096 \<le> image_sectors img * 4096" by (simp only: mult_Suc [symmetric] add.commute [of "k * 4096"]) (rule mult_le_mono1)
    then show "a + 4096 \<le> limit" using assms(2) by simp
  qed
  from flash_device.write_sectors_dry [OF assms(1) this assms(3)] show ?thesis
    by (simp add: write_image_def FLASH_SECTOR_SIZE_def)
qed

theorem dry_run_harmless_witness:
  "\<exists>s' r. write_image sim_image (flash_io sim_env True) False (\<lambda>_. 0x55) = Inr (s', r) \<and> s' = (\<lambda>_. 0x55)"
  using dry_run_harmless [OF sim.flash_device_axioms, of sim_image] sim_image by simp

end
