(* ===== verification/Loaders.thy ===== *)
theory Loaders
  imports FlashIo
begin

section \<open>Loading firmware into the device (cli/pg2-util/mem_load.c, dfu_load.c)\<close>

text \<open>
  Both loaders send the image in blocks, set up the wait for the new device, start the firmware and wait. \<open>load_env\<close> holds what
  the parts outside this model answer: whether the device opens, whether the hotplug callback is set up, and the device
  that appears, if any. The handle and the log lines are left out.
\<close>

record load_env =
  open_ok :: bool
  prepare_ok :: bool
  awaited :: "nat option"

subsection \<open>Over the vendor requests\<close>

definition BLOCK_SIZE :: nat where "BLOCK_SIZE = 512"

fun load_blocks :: "'u usb_env \<Rightarrow> u8 list \<Rightarrow> nat \<Rightarrow> nat list \<Rightarrow> 'u \<Rightarrow> 'u \<times> bool" where
  "load_blocks E bytes timeout_ms [] u = (u, True)"
| "load_blocks E bytes timeout_ms (addr # addrs) u =
    (let transfer_size = min (length bytes - addr) BLOCK_SIZE;
         (u, pg2_error) = ctrl_load_image E u (of_nat addr) (take transfer_size (drop addr bytes)) timeout_ms
     in if pg2_error < 0 then (u, False) else load_blocks E bytes timeout_ms addrs u)"

definition load_image_bytes :: "'u usb_env \<Rightarrow> u8 list \<Rightarrow> nat \<Rightarrow> 'u \<Rightarrow> 'u \<times> bool" where
  "load_image_bytes E bytes timeout_ms u =
    load_blocks E bytes timeout_ms (map (\<lambda>k. k * BLOCK_SIZE) [0..<(length bytes + BLOCK_SIZE - 1) div BLOCK_SIZE]) u"

definition load_image_end :: "'u usb_env \<Rightarrow> nat \<Rightarrow> nat \<Rightarrow> 'u \<Rightarrow> 'u \<times> bool" where
  "load_image_end E load_size timeout_ms u =
    (let (u, pg2_error) = ctrl_load_image E u (of_nat load_size) [] timeout_ms in (u, \<not> pg2_error < 0))"

definition mem_load :: "'u usb_env \<Rightarrow> load_env \<Rightarrow> u8 list \<Rightarrow> 'u \<Rightarrow> 'u \<times> nat option" where
  "mem_load E R bytes u =
    (if \<not> open_ok R then (u, None)
     else let (u, ok) = load_image_bytes E bytes 0 u
          in if \<not> ok then (u, None)
             else if \<not> prepare_ok R then (u, None)
             else let (u, ok) = load_image_end E (length bytes) 0 u
                  in if \<not> ok then (u, None) else (u, awaited R))"

subsection \<open>Over DFU\<close>

record dfu_status =
  bStatus :: nat
  bwPollTimeout :: nat
  bState :: nat
  iString :: nat

definition DFU_DOWNLOAD_IDLE :: nat where "DFU_DOWNLOAD_IDLE = 5"
definition DFU_CONTROL_TIMEOUT :: nat where "DFU_CONTROL_TIMEOUT = 1000"

definition dfu_setup :: "bool \<Rightarrow> u8 \<Rightarrow> nat \<Rightarrow> u8 list \<Rightarrow> nat \<Rightarrow> ctrl_setup" where
  "dfu_setup dir req val data len =
    \<lparr>req_kind = Class_interface, dir_in = dir, bRequest = req, wValue = of_nat val, wIndex = 0, out_data = data,
     wLength = of_nat len, ctrl_timeout = DFU_CONTROL_TIMEOUT\<rparr>"

definition dfu_ctrl_get_status :: "'u usb_env \<Rightarrow> 'u \<Rightarrow> 'u \<times> int \<times> dfu_status option" where
  "dfu_ctrl_get_status E u =
    (let (u, error, buffer) = libusb_control_transfer E u (dfu_setup True 3 0 [] 6)
     in if error < 0 then (u, error, None)
        else (u, error, Some \<lparr>bStatus = unat (buffer ! 0),
                bwPollTimeout = unat (buffer ! 3) * 65536 + unat (buffer ! 2) * 256 + unat (buffer ! 1),
                bState = unat (buffer ! 4), iString = unat (buffer ! 5)\<rparr>))"

definition dfu_ctrl_download :: "'u usb_env \<Rightarrow> 'u \<Rightarrow> nat \<Rightarrow> u8 list \<Rightarrow> 'u \<times> int" where
  "dfu_ctrl_download E u block data =
    (let (u, error, _) = libusb_control_transfer E u (dfu_setup False 1 block data (length data)) in (u, error))"

definition DFU_BLOCK_SIZE :: nat where "DFU_BLOCK_SIZE = 2048"

function dfu_blocks :: "'u usb_env \<Rightarrow> u8 list \<Rightarrow> nat \<Rightarrow> nat \<Rightarrow> 'u \<Rightarrow> 'u \<times> bool" where
  "dfu_blocks E fw block off u =
    (if off < length fw
     then let send_size = min (length fw - off) DFU_BLOCK_SIZE;
              (u, usb_error) = dfu_ctrl_download E u block (take send_size (drop off fw))
          in if usb_error < 0 then (u, False)
             else let (u, usb_error, status) = dfu_ctrl_get_status E u
                  in case status of
                       None \<Rightarrow> (u, False)
                     | Some status \<Rightarrow>
                         if bState status \<noteq> DFU_DOWNLOAD_IDLE then (u, False)
                         else dfu_blocks E fw (Suc block) (off + send_size) u
     else let (u, usb_error) = dfu_ctrl_download E u block [] in (u, \<not> usb_error < 0))"
  by pat_completeness auto

termination
  by (relation "measure (\<lambda>(E, fw, block, off, u). length fw - off)") (auto simp: DFU_BLOCK_SIZE_def)

declare dfu_blocks.simps [simp del]

definition dfu_download_bytes :: "'u usb_env \<Rightarrow> u8 list \<Rightarrow> 'u \<Rightarrow> 'u \<times> bool" where
  "dfu_download_bytes E fw u = dfu_blocks E fw 0 0 u"

text \<open>The last status request starts the firmware; a pipe or I/O error is expected.\<close>

definition dfu_manifest :: "'u usb_env \<Rightarrow> 'u \<Rightarrow> 'u \<times> bool" where
  "dfu_manifest E u =
    (let (u, usb_error, status) = dfu_ctrl_get_status E u
     in (u, \<not> (usb_error < 0 \<and> usb_error \<noteq> LIBUSB_ERROR_PIPE (lu E) \<and> usb_error \<noteq> LIBUSB_ERROR_IO (lu E))))"

definition dfu_load :: "'u usb_env \<Rightarrow> load_env \<Rightarrow> u8 list \<Rightarrow> 'u \<Rightarrow> 'u \<times> nat option" where
  "dfu_load E R bytes u =
    (if \<not> open_ok R then (u, None)
     else let (u, ok) = dfu_download_bytes E bytes u
          in if \<not> ok then (u, None)
             else if \<not> prepare_ok R then (u, None)
             else let (u, ok) = dfu_manifest E u
                  in if \<not> ok then (u, None) else (u, awaited R))"

subsection \<open>What the device has received\<close>

text \<open>
  A device that keeps the vendor blocks it has acknowledged at their addresses (\<open>ram\<close>) and the DFU blocks in their order (\<open>blocks\<close>);
  an empty block ends either. Status requests change neither.
\<close>

locale loading_device =
  fixes E :: "'u usb_env" and ram :: "'u \<Rightarrow> nat \<Rightarrow> u8" and blocks :: "'u \<Rightarrow> (nat \<times> u8 list) list"
  assumes load_image: "ctrl_load_image E u (of_nat a) buf t = (u', e) \<Longrightarrow> \<not> e < 0 \<Longrightarrow> a + length buf \<le> 65536 \<Longrightarrow>
      \<forall>x. ram u' x = (if a \<le> x \<and> x < a + length buf then buf ! (x - a) else ram u x)"
    and download: "dfu_ctrl_download E u block buf = (u', e) \<Longrightarrow> \<not> e < 0 \<Longrightarrow> block < 65536 \<Longrightarrow> length buf \<le> 2048 \<Longrightarrow>
      blocks u' = blocks u @ [(block, buf)]"
    and get_status: "dfu_ctrl_get_status E u = (u', e, r) \<Longrightarrow> blocks u' = blocks u"

context loading_device
begin

lemma load_blocks_ok:
  assumes "load_blocks E bytes t (map (\<lambda>k. k * 512) [k..<n]) u = (u', True)" "length bytes \<le> 65536" "n * 512 < length bytes + 512"
  shows "\<forall>x. ram u' x = (if k * 512 \<le> x \<and> x < min (n * 512) (length bytes) then bytes ! x else ram u x)"
  using assms
proof (induction "n - k" arbitrary: k u)
  case (Suc d)
  then have k: "k < n" "d = n - Suc k" "[k..<n] = k # [Suc k..<n]" by (simp_all add: upt_conv_Cons)
  define a where "a = k * 512"
  define m where "m = min (length bytes - a) 512"
  have "Suc k * 512 \<le> n * 512" using k(1) by (intro mult_le_mono1) simp
  then have a: "a < length bytes" "a + m \<le> length bytes" using Suc.prems(3) by (auto simp: a_def m_def)
  obtain u1 e where l: "ctrl_load_image E u (of_nat a) (take m (drop a bytes)) t = (u1, e)" by fastforce
  have ok: "\<not> e < 0" and rest: "load_blocks E bytes t (map (\<lambda>k. k * 512) [Suc k..<n]) u1 = (u', True)"
    using Suc.prems(1) l unfolding k(3) by (auto simp: a_def [symmetric] m_def BLOCK_SIZE_def Let_def split: if_splits)
  have lm: "length (take m (drop a bytes)) = m" using a(2) by simp
  have r1: "\<forall>x. ram u1 x = (if a \<le> x \<and> x < a + m then bytes ! x else ram u x)"
  proof -
    have "take m (drop a bytes) ! (x - a) = bytes ! x" if "a \<le> x" "x < a + m" for x
    proof -
      have "x - a < m" "a + (x - a) = x" using that by simp_all
      then show ?thesis using a(2) by (simp add: nth_append)
    qed
    then show ?thesis using load_image [OF l ok] a(2) Suc.prems(2) by (auto simp: lm)
  qed
  have "\<forall>x. ram u' x = (if Suc k * 512 \<le> x \<and> x < min (n * 512) (length bytes) then bytes ! x else ram u1 x)"
    by (rule Suc.hyps(1) [OF k(2) rest Suc.prems(2,3)])
  moreover have "(a \<le> x \<and> x < a + m) \<or> (Suc k * 512 \<le> x \<and> x < min (n * 512) (length bytes)) \<longleftrightarrow>
      k * 512 \<le> x \<and> x < min (n * 512) (length bytes)" for x
    using \<open>Suc k * 512 \<le> n * 512\<close> a by (auto simp: a_def m_def min_def split: if_splits)
  ultimately show ?case using r1 by (metis (full_types))
qed auto

lemma dfu_blocks_ok:
  assumes "dfu_blocks E fw block off u = (u', True)" "off \<le> length fw" "block + (length fw - off) < 65536"
  shows "\<exists>new. blocks u' = blocks u @ new \<and> concat (map snd new) = drop off fw \<and> map fst new = [block..<block + length new] \<and>
    new \<noteq> [] \<and> snd (last new) = [] \<and> (\<forall>b \<in> set (butlast new). snd b \<noteq> [] \<and> length (snd b) \<le> 2048)"
  using assms
proof (induction "length fw - off" arbitrary: off block u rule: less_induct)
  case less
  show ?case
  proof (cases "off < length fw")
    case False
    obtain u1 e where d: "dfu_ctrl_download E u block [] = (u1, e)" by fastforce
    have "\<not> e < 0" "u1 = u'" using less.prems(1) d False by (subst (asm) dfu_blocks.simps, simp)+
    then have "blocks u' = blocks u @ [(block, [])]" using download [OF d] less.prems(3) by simp
    then show ?thesis using False less.prems(2) by (intro exI [of _ "[(block, [])]"]) simp
  next
    case True
    define m where "m = min (length fw - off) 2048"
    have m: "0 < m" "off + m \<le> length fw" "m \<le> 2048" using True by (auto simp: m_def)
    obtain u1 e where d: "dfu_ctrl_download E u block (take m (drop off fw)) = (u1, e)" by fastforce
    obtain u2 e2 st where g: "dfu_ctrl_get_status E u1 = (u2, e2, st)" by (metis prod_cases3)
    have "\<not> e < 0" and rest: "dfu_blocks E fw (Suc block) (off + m) u2 = (u', True)"
      using less.prems(1) d g True
      by (subst (asm) dfu_blocks.simps, simp add: m_def DFU_BLOCK_SIZE_def Let_def split: if_splits option.splits)+
    then have b: "blocks u2 = blocks u @ [(block, take m (drop off fw))]"
      using download [OF d] get_status [OF g] less.prems(3) m(3) by simp
    obtain new where new: "blocks u' = blocks u2 @ new" "concat (map snd new) = drop (off + m) fw"
        "map fst new = [Suc block..<Suc block + length new]" "new \<noteq> []" "snd (last new) = []"
        "\<forall>b \<in> set (butlast new). snd b \<noteq> [] \<and> length (snd b) \<le> 2048"
    proof -
      have "length fw - (off + m) < length fw - off" "Suc block + (length fw - (off + m)) < 65536"
        using m less.prems(3) True by simp_all
      then show ?thesis using less.hyps [OF _ rest m(2)] that by blast
    qed
    have "take m (drop off fw) @ drop (off + m) fw = drop off fw"
      by (metis append_take_drop_id drop_drop add.commute)
    moreover have "take m (drop off fw) \<noteq> []" using m by simp
    moreover have "[block..<block + length ((block, take m (drop off fw)) # new)] = block # [Suc block..<Suc block + length new]"
      by (simp add: upt_rec)
    ultimately show ?thesis using b new m(3)
      by (intro exI [of _ "(block, take m (drop off fw)) # new"]) simp
  qed
qed

lemma load_image_bytes_ok:
  assumes "load_image_bytes E bytes t u = (u', True)" "length bytes \<le> 65536"
  shows "\<forall>x. ram u' x = (if x < length bytes then bytes ! x else ram u x)"
proof -
  define n where "n = (length bytes + 511) div 512"
  have n: "n * 512 < length bytes + 512" "length bytes \<le> n * 512"
    using div_mult_mod_eq [of "length bytes + 511" 512] unfolding n_def by linarith+
  have "load_blocks E bytes t (map (\<lambda>k. k * 512) [0..<n]) u = (u', True)"
    using assms(1) by (simp add: load_image_bytes_def BLOCK_SIZE_def n_def add.commute)
  from load_blocks_ok [OF this assms(2) n(1)] show ?thesis using n(2) by (simp add: min_def)
qed

lemma mem_load_ok:
  assumes "mem_load E R bytes u = (u', Some d)" "length bytes \<le> 65536"
  shows "\<forall>x < length bytes. ram u' x = bytes ! x"
proof -
  obtain u1 where u1: "load_image_bytes E bytes 0 u = (u1, True)"
    using assms(1) by (auto simp: mem_load_def split: prod.splits if_splits)
  obtain u2 e where u2: "ctrl_load_image E u1 (of_nat (length bytes)) [] 0 = (u2, e)" by fastforce
  have "\<not> e < 0" "u' = u2"
    using assms(1) u1 u2 by (auto simp: mem_load_def load_image_end_def Let_def split: if_splits)
  then have "ram u' x = ram u1 x" for x using load_image [OF u2] assms(2) by auto
  then show ?thesis using load_image_bytes_ok [OF u1 assms(2)] by simp
qed

lemma dfu_load_ok:
  assumes "dfu_load E R bytes u = (u', Some d)" "length bytes < 65536"
  shows "\<exists>new. blocks u' = blocks u @ new \<and> concat (map snd new) = bytes \<and> map fst new = [0..<length new] \<and>
    new \<noteq> [] \<and> snd (last new) = [] \<and> (\<forall>b \<in> set (butlast new). snd b \<noteq> [] \<and> length (snd b) \<le> 2048)"
proof -
  obtain u1 where u1: "dfu_blocks E bytes 0 0 u = (u1, True)"
    using assms(1) by (auto simp: dfu_load_def dfu_download_bytes_def split: prod.splits if_splits)
  obtain u2 e st where u2: "dfu_ctrl_get_status E u1 = (u2, e, st)" by (metis prod_cases3)
  have "u' = u2"
    using assms(1) u1 u2 by (auto simp: dfu_load_def dfu_download_bytes_def dfu_manifest_def Let_def split: if_splits)
  then show ?thesis using dfu_blocks_ok [OF u1] get_status [OF u2] assms(2) by simp
qed

end

subsection \<open>Properties\<close>

text \<open>C16: when a loader reports a loaded device, the device has received the whole image and nothing else in its place:
  over the vendor requests every byte is at its address, over DFU the blocks are numbered from 0 without a gap, hold at
  most 2048 bytes each, concatenate to the image and end with the empty block.\<close>

theorem loaders_deliver:
  assumes "loading_device E ram blocks" "length bytes < 65536"
  shows "(mem_load E R bytes u = (u', Some d) \<longrightarrow> (\<forall>x < length bytes. ram u' x = bytes ! x)) \<and>
    (dfu_load E R bytes u = (u', Some d) \<longrightarrow> (\<exists>new. blocks u' = blocks u @ new \<and> concat (map snd new) = bytes \<and>
       map fst new = [0..<length new] \<and> new \<noteq> [] \<and> snd (last new) = [] \<and> (\<forall>b \<in> set (butlast new). snd b \<noteq> [] \<and> length (snd b) \<le> 2048)))"
  using loading_device.mem_load_ok [OF assms(1)] loading_device.dfu_load_ok [OF assms(1)] assms(2) by (meson less_imp_le_nat)

text \<open>A simulated device with both interfaces.\<close>

definition load_sim :: "((nat \<Rightarrow> u8) \<times> (nat \<times> u8 list) list) usb_env" where
  "load_sim = \<lparr>libusb_control_transfer = (\<lambda>(m, bs) c.
     let a = unat (wValue c) + 65536 * unat (wIndex c); n = length (out_data c)
     in if req_kind c = Vendor_device
        then ((\<lambda>x. if a \<le> x \<and> x < a + n then out_data c ! (x - a) else m x, bs), uint (wLength c), [])
        else if bRequest c = 1 then ((m, bs @ [(unat (wValue c), out_data c)]), 0, [])
        else ((m, bs), 6, [0, 0, 0, 0, 5, 0])),
     lu = libusb_1_0, proto = sample_protocol\<rparr>"

interpretation load_sim: loading_device load_sim fst snd
proof unfold_locales
  fix u :: "(nat \<Rightarrow> u8) \<times> (nat \<times> u8 list) list" and a buf t u' e
  assume l: "ctrl_load_image load_sim u (of_nat a) buf t = (u', e)" "\<not> e < 0" "a + length buf \<le> 65536"
  show "\<forall>x. fst u' x = (if a \<le> x \<and> x < a + length buf then buf ! (x - a) else fst u x)"
    using l address_halves [of a] by (cases u) (auto simp: ctrl_load_image_def control_out_def load_sim_def Let_def split: if_splits)
next
  fix u :: "(nat \<Rightarrow> u8) \<times> (nat \<times> u8 list) list" and block buf u' e
  assume d: "dfu_ctrl_download load_sim u block buf = (u', e)" "block < 65536"
  have "unat (of_nat block :: u16) = block" using d(2) by (intro unat_of_nat_small) simp
  then show "snd u' = snd u @ [(block, buf)]" using d(1) by (cases u) (auto simp: dfu_ctrl_download_def dfu_setup_def load_sim_def)
next
  fix u :: "(nat \<Rightarrow> u8) \<times> (nat \<times> u8 list) list" and u' e r
  assume "dfu_ctrl_get_status load_sim u = (u', e, r)"
  then show "snd u' = snd u" by (cases u) (auto simp: dfu_ctrl_get_status_def dfu_setup_def load_sim_def)
qed

definition load_ok :: load_env where
  "load_ok = \<lparr>open_ok = True, prepare_ok = True, awaited = Some 7\<rparr>"

theorem loaders_deliver_witness:
  "\<exists>new u'. dfu_load load_sim load_ok [1, 2, 3] (\<lambda>_. 0, []) = (u', Some 7) \<and> snd u' = new \<and> concat (map snd new) = [1, 2, 3]"
proof -
  have "case dfu_load load_sim load_ok [1, 2, 3] (\<lambda>_. 0, []) of (u', r) \<Rightarrow> r = Some 7"
    by (simp add: dfu_load_def load_ok_def dfu_download_bytes_def dfu_blocks.simps dfu_ctrl_download_def dfu_ctrl_get_status_def
        dfu_setup_def load_sim_def dfu_manifest_def DFU_BLOCK_SIZE_def DFU_DOWNLOAD_IDLE_def)
  then obtain u' where r: "dfu_load load_sim load_ok [1, 2, 3] (\<lambda>_. 0, []) = (u', Some 7)" by auto
  then show ?thesis
    using loaders_deliver [OF load_sim.loading_device_axioms, of "[1, 2, 3]" load_ok "(\<lambda>_. 0, [])" u' 7] by auto
qed

end
