(* ===== verification/FlashTool.thy ===== *)
theory FlashTool
  imports FlashWriteProps Loaders Discovery
begin

section \<open>The write and verify commands (cli/pg2-util/write.c)\<close>

text \<open>
  \<open>file\<close> is the opened image file, \<open>found\<close> whether the search found one device and \<open>devtype\<close> its type, \<open>R\<close> the answers of the loader's
  surroundings, \<open>flash_ok\<close> whether the flash object opens. Closing and the log lines are left out.
\<close>

definition prepare_device :: "'u usb_env \<Rightarrow> load_env \<Rightarrow> u32 \<Rightarrow> firmware_image \<Rightarrow> 'u \<Rightarrow> 'u \<times> bool" where
  "prepare_device E R devtype img u =
    (if devtype = DEVTYPE_RECOVERY
     then let (u, new_dev) = dfu_load E R (take (load_size img) (image_bytes img)) u in (u, new_dev \<noteq> None)
     else (u, devtype = DEVTYPE_PG2SDR \<or> devtype = DEVTYPE_AIRSPYMINI \<or> devtype = DEVTYPE_PROTOTYPE))"

definition do_write_verify ::
  "protocol \<Rightarrow> bool \<Rightarrow> bool \<Rightarrow> 'f firmware_io option \<Rightarrow> 'f \<Rightarrow> 'u usb_env \<Rightarrow> load_env \<Rightarrow> bool \<Rightarrow> u32 \<Rightarrow> bool \<Rightarrow>
   bool \<Rightarrow> bool \<Rightarrow> bool \<Rightarrow> 'u \<Rightarrow> ('u \<times> bool) run" where
  "do_write_verify P calloc_ok malloc_ok file_obj fs E R found devtype flash_ok dryrun force_erase verify_only u =
    (case file_obj of
       None \<Rightarrow> Inr (u, False)
     | Some fio \<Rightarrow> run_bind (image_read P calloc_ok malloc_ok fio fs) (\<lambda>(fs, r). case r of
           None \<Rightarrow> Inr (u, False)
         | Some img \<Rightarrow>
             if \<not> found then Inr (u, False)
             else let (u, ok) = prepare_device E R devtype img u
                  in if \<not> ok \<or> \<not> flash_ok then Inr (u, False)
                     else if verify_only then Inr (verify_image img (flash_io E dryrun) u)
                     else run_bind (write_image img (flash_io E dryrun) force_erase u) (\<lambda>(u, r). case r of
                         None \<Rightarrow> Inr (u, False)
                       | Some modified \<Rightarrow>
                           if modified = 0 \<or> dryrun then Inr (u, True) else Inr (verify_image img (flash_io E dryrun) u))))"

lemma image_ok_sectors: "image_ok P content img \<Longrightarrow> length (image_bytes img) = image_size img \<and> image_sectors img * 4096 \<le> 65536"
proof -
  assume "image_ok P content img"
  then have l: "image_size img \<le> 65056" and b: "image_bytes img = map content [0..<image_size img]"
    unfolding image_ok_def by blast+
  have "image_sectors img \<le> 69151 div 4096" unfolding image_sectors_def FLASH_SECTOR_SIZE_def using l by (intro div_le_mono) simp
  then have "image_sectors img * 4096 \<le> 65536" by simp
  then show ?thesis using arg_cong [OF b, of length] by simp
qed

text \<open>C10: when the write command (not a dry run) or the verify command reports success, the image file was valid and the
  flash of the device holds exactly its bytes. The write command never trips the assertion of \<open>write_image\<close>: the only fault left is
  the one of the malformed images that \<open>image_read\<close> overruns.\<close>

theorem firmware_update:
  assumes fileio: "flash_reader fio content flimit" "65568 \<le> flimit" and flash: "flash_device E mem limit" "65568 \<le> limit"
    and lay: "meta_layout P"
  shows "case do_write_verify P c m (Some fio) fs E R found devtype flash_ok False force verify u of
      Inl f \<Rightarrow> strays (header_load_size (map (content fs) [0..<16])) (map (content fs) [0..<32 + header_load_size (map (content fs) [0..<16])])
    | Inr (u', ok) \<Rightarrow> ok \<longrightarrow> (\<exists>img. image_ok P (content fs) img \<and> (\<forall>x < image_size img. mem u' x = content fs x))"
proof -
  have nor: "nor_flash (flash_io E False) mem limit" by (rule flash_device.axioms_nor [OF flash(1)])
  then have rd: "flash_reader (flash_io E False) mem limit" by (simp add: nor_flash_def)
  show ?thesis
  proof (cases "image_read P c m fio fs")
    case (Inl f)
    then show ?thesis using flash_reader.image_read_result [OF fileio lay, where c = c and m = m and s = fs]
      by (simp add: do_write_verify_def)
  next
    case (Inr q)
    obtain fs' r where q: "q = (fs', r)" by (cases q)
    show ?thesis
    proof (cases r)
      case None
      then show ?thesis using Inr q by (simp add: do_write_verify_def)
    next
      case (Some img)
      have iok: "image_ok P (content fs) img"
        using flash_reader.image_read_result [OF fileio lay, where c = c and m = m and s = fs] Inr q Some by simp
      note sec = image_ok_sectors [OF iok]
      have bytes: "image_bytes img ! x = content fs x" if "x < image_size img" for x
      proof -
        have "image_bytes img = map (content fs) [0..<image_size img]" using iok unfolding image_ok_def by blast
        then show ?thesis using that by simp
      qed
      obtain u1 ok1 where pr: "prepare_device E R devtype img u = (u1, ok1)" by fastforce
      have lim: "image_size img \<le> limit" "image_sectors img * 4096 \<le> limit" using sec flash(2) image_fits [of img] by auto
      have ver: "\<forall>x < image_size img. mem w x = content fs x" if "verify_image img (flash_io E False) v = (w, True)" for v w
        using flash_reader.verify_image_sound [OF rd that lim(1)] bytes by simp
      show ?thesis
      proof (cases "\<not> found \<or> \<not> ok1 \<or> \<not> flash_ok")
        case True
        then show ?thesis using Inr q Some pr by (auto simp: do_write_verify_def)
      next
        case go: False
        show ?thesis
        proof (cases verify)
          case True
          obtain w ok where v: "verify_image img (flash_io E False) u1 = (w, ok)" by fastforce
          then show ?thesis using Inr q Some pr go True ver [of u1 w] iok by (auto simp: do_write_verify_def)
        next
          case False
          obtain u2 r2 where w: "write_image img (flash_io E False) force u1 = Inr (u2, r2)"
              "\<forall>m. r2 = Some m \<longrightarrow> (\<forall>x < image_sectors img * 4096. mem u2 x = wanted_byte img x)"
            using nor_flash.write_image_result [OF nor lim(2) conjunct1 [OF sec], of force u1] by blast
          have filled: "\<forall>x < image_size img. mem u2 x = content fs x" if "r2 = Some n" for n
          proof (intro allI impI)
            fix x assume x: "x < image_size img"
            then have "mem u2 x = wanted_byte img x" using w(2) that image_fits [of img] by simp
            then show "mem u2 x = content fs x" using x bytes by (simp add: wanted_byte_def)
          qed
          obtain w3 ok3 where v: "verify_image img (flash_io E False) u2 = (w3, ok3)" by fastforce
          show ?thesis
            using Inr q Some pr go False w(1) v filled ver [of u2 w3] iok
            by (cases r2) (auto simp: do_write_verify_def)
        qed
      qed
    qed
  qed
qed

subsection \<open>A verification that succeeds\<close>

lemma sim_read: "snd (flash_read sim_env u a n) \<noteq> None"
proof (induction n arbitrary: u a rule: less_induct)
  case (less n)
  show ?case
  proof (cases "n = 0")
    case True
    then show ?thesis by (simp add: flash_read.simps)
  next
    case False
    define k where "k = page_len a n"
    have k: "0 < k" "k \<le> n" using page_len_pos False by (simp_all add: k_def)
    obtain v e bs where r: "ctrl_flash_read_quad sim_env u (of_nat a) k 0 = (v, e, bs)" by (metis prod_cases3)
    then have "\<not> e < 0"
      by (auto simp: ctrl_flash_read_quad_def control_in_def sim_env_def sample_protocol_def Let_def split: if_splits)
    then show ?thesis using less.IH [of "n - k" v "a + k"] k False r
      by (subst flash_read.simps) (auto simp: k_def [symmetric] Let_def split: prod.splits)
  qed
qed

theorem firmware_update_witness:
  "\<exists>u' img. do_write_verify sample_protocol True True (Some (file_io (pread_of (small_image 0)))) () sim_env load_ok True DEVTYPE_PG2SDR True
      False False True (\<lambda>x. small_image 0 ! x) = Inr (u', True) \<and>
    image_ok sample_protocol (\<lambda>x. small_image 0 ! x) img \<and> (\<forall>x < image_size img. u' x = small_image 0 ! x)"
proof -
  obtain img where img: "image_read sample_protocol True True (file_io (pread_of (small_image 0))) () = Inr ((), Some img)" "image_size img = 544"
    using small_image_accepted by blast
  have "image_ok sample_protocol (\<lambda>x. small_image 0 ! x) img"
    using flash_reader.image_read_result [OF image_file.contents.flash_reader_axioms [of "small_image 0" 65568] order_refl sample_layout,
        where c = True and m = True and s = "()"] img(1) by simp
  then have b: "image_bytes img = map (\<lambda>x. small_image 0 ! x) [0..<image_size img]" unfolding image_ok_def by blast
  have "snd (verify_image img (flash_io sim_env False) (\<lambda>x. small_image 0 ! x))"
    by (rule sim.real.verify_image_complete) (use img(2) b sim_read in \<open>auto simp: flash_io_def\<close>)
  then obtain u' where "verify_image img (flash_io sim_env False) (\<lambda>x. small_image 0 ! x) = (u', True)" by (metis prod.collapse)
  then have e: "do_write_verify sample_protocol True True (Some (file_io (pread_of (small_image 0)))) () sim_env load_ok True DEVTYPE_PG2SDR True
      False False True (\<lambda>x. small_image 0 ! x) = Inr (u', True)"
    using img(1) by (simp add: do_write_verify_def prepare_device_def DEVTYPE_PG2SDR_def DEVTYPE_RECOVERY_def)
  then show ?thesis
    using firmware_update [OF image_file.contents.flash_reader_axioms [of "small_image 0" 65568] order_refl sim.flash_device_axioms _ sample_layout,
      where c = True and m = True and fs = "()" and R = load_ok and found = True and devtype = DEVTYPE_PG2SDR and flash_ok = True
        and force = False and verify = True and u = "\<lambda>x. small_image 0 ! x"] by auto
qed

end
