(* ===== verification/NanoJson.thy ===== *)
theory NanoJson
  imports Decimal
begin

section \<open>Writing JSON (cli/pg2-util/nanojson.c)\<close>

text \<open>
  The writer keeps the text written so far and whether the next value needs a comma. Strings are C strings: no character is
  NUL. Whether \<open>char\<close> is signed is up to the implementation, a parameter. A parser of JSON is the reference the writer is held against.
\<close>

subsection \<open>The writer\<close>

record json_state =
  json_file :: string
  json_needs_comma :: bool

definition json_set_output :: json_state where
  "json_set_output = \<lparr>json_file = '''', json_needs_comma = False\<rparr>"

definition json_put :: "string \<Rightarrow> json_state \<Rightarrow> json_state" where
  "json_put s st = st\<lparr>json_file := json_file st @ s\<rparr>"

definition json_comma :: "json_state \<Rightarrow> json_state" where
  "json_comma st = (if json_needs_comma st then (json_put '','' st)\<lparr>json_needs_comma := False\<rparr> else st)"

definition json_start_array :: "json_state \<Rightarrow> json_state" where
  "json_start_array st = (json_put ''['' (json_comma st))\<lparr>json_needs_comma := False\<rparr>"

definition json_end_array :: "json_state \<Rightarrow> json_state" where
  "json_end_array st = (json_put '']'' st)\<lparr>json_needs_comma := True\<rparr>"

definition json_start_object :: "json_state \<Rightarrow> json_state" where
  "json_start_object st = (json_put ''{'' (json_comma st))\<lparr>json_needs_comma := False\<rparr>"

definition json_end_object :: "json_state \<Rightarrow> json_state" where
  "json_end_object st = (json_put ''}'' st)\<lparr>json_needs_comma := True\<rparr>"

definition char_value :: "bool \<Rightarrow> char \<Rightarrow> int" where
  "char_value signed_char c = (if signed_char \<and> 128 \<le> (of_char c :: nat) then of_char c - 256 else of_char c)"

definition hex_digit :: "nat \<Rightarrow> char" where
  "hex_digit n = (if n < 10 then char_of (48 + n) else char_of (87 + n))"

fun hexadecimal :: "nat \<Rightarrow> string" where
  "hexadecimal n = (if n < 16 then [hex_digit n] else hexadecimal (n div 16) @ [hex_digit (n mod 16)])"

declare hexadecimal.simps [simp del]

text \<open>The conversion \<open>%0Wx\<close> of a 32-bit value.\<close>

definition padded_hex :: "nat \<Rightarrow> u32 \<Rightarrow> string" where
  "padded_hex width w = (let h = hexadecimal (unat w) in replicate (width - length h) CHR ''0'' @ h)"

definition json_escape :: "bool \<Rightarrow> char \<Rightarrow> string" where
  "json_escape signed_char c =
    (let ch = char_value signed_char c
     in if c = CHR 0x5C then [CHR 0x5C, CHR 0x5C]
        else if c = CHR 0x22 then [CHR 0x5C, CHR 0x22]
        else if c = CHR 0x0A then [CHR 0x5C, CHR ''n'']
        else if c = CHR 0x0D then [CHR 0x5C, CHR ''r'']
        else if c = CHR 0x09 then [CHR 0x5C, CHR ''t'']
        else if ch < 32 \<or> 127 < ch then [CHR 0x5C, CHR ''u''] @ padded_hex 4 (of_int ch)
        else [c])"

definition quoted :: "bool \<Rightarrow> string \<Rightarrow> string" where
  "quoted signed_char s = CHR 0x22 # concat (map (json_escape signed_char) s) @ [CHR 0x22]"

definition json_string :: "bool \<Rightarrow> string \<Rightarrow> json_state \<Rightarrow> json_state" where
  "json_string signed_char s st = (json_put (quoted signed_char s) (json_comma st))\<lparr>json_needs_comma := True\<rparr>"

definition json_key :: "bool \<Rightarrow> string \<Rightarrow> json_state \<Rightarrow> json_state" where
  "json_key signed_char key st = (json_put '':'' (json_string signed_char key st))\<lparr>json_needs_comma := False\<rparr>"

text \<open>The argument of \<open>json_value_fmt\<close> and \<open>json_string_fmt\<close> is the formatted text; the second goes through 256 bytes.\<close>

definition json_value_fmt :: "string \<Rightarrow> json_state \<Rightarrow> json_state" where
  "json_value_fmt formatted st = (json_put formatted (json_comma st))\<lparr>json_needs_comma := True\<rparr>"

definition json_string_fmt :: "bool \<Rightarrow> string \<Rightarrow> json_state \<Rightarrow> json_state" where
  "json_string_fmt signed_char formatted = json_string signed_char (take 255 formatted)"

definition json_number :: "u32 \<Rightarrow> json_state \<Rightarrow> json_state" where
  "json_number i = json_value_fmt (decimal (unat i))"

definition json_bool :: "bool \<Rightarrow> json_state \<Rightarrow> json_state" where
  "json_bool x = json_value_fmt (if x then ''true'' else ''false'')"

subsection \<open>JSON values and their texts\<close>

datatype json =
    JString string
  | JNumber u32
  | JBool bool
  | JArray "json list"
  | JObject "(string \<times> json) list"

text \<open>How a caller writes a value.\<close>

fun write_json :: "bool \<Rightarrow> json \<Rightarrow> json_state \<Rightarrow> json_state" where
  "write_json sg (JString s) st = json_string sg s st"
| "write_json sg (JNumber n) st = json_number n st"
| "write_json sg (JBool b) st = json_bool b st"
| "write_json sg (JArray vs) st = json_end_array (foldl (\<lambda>st v. write_json sg v st) (json_start_array st) vs)"
| "write_json sg (JObject kvs) st =
    json_end_object (foldl (\<lambda>st kv. write_json sg (snd kv) (json_key sg (fst kv) st)) (json_start_object st) kvs)"

fun join_commas :: "string list \<Rightarrow> string" where
  "join_commas [] = ''''"
| "join_commas [s] = s"
| "join_commas (s # t # ts) = s @ '','' @ join_commas (t # ts)"

fun json_text :: "bool \<Rightarrow> json \<Rightarrow> string" where
  "json_text sg (JString s) = quoted sg s"
| "json_text sg (JNumber n) = decimal (unat n)"
| "json_text sg (JBool b) = (if b then ''true'' else ''false'')"
| "json_text sg (JArray vs) = ''['' @ join_commas (map (json_text sg) vs) @ '']''"
| "json_text sg (JObject kvs) = ''{'' @ join_commas (map (\<lambda>kv. quoted sg (fst kv) @ '':'' @ json_text sg (snd kv)) kvs) @ ''}''"

lemmas json_writers = json_put_def json_comma_def json_start_array_def json_end_array_def json_start_object_def
  json_end_object_def json_string_def json_key_def json_value_fmt_def json_number_def json_bool_def

definition after_value :: "json_state \<Rightarrow> string \<Rightarrow> json_state" where
  "after_value st s = \<lparr>json_file = json_file st @ (if json_needs_comma st then '','' else '''') @ s, json_needs_comma = True\<rparr>"

lemma after_value_twice: "after_value (after_value st s) t = after_value st (s @ '','' @ t)"
  by (simp add: after_value_def)

lemma join_commas_Cons: "join_commas (s # ts) = (if ts = [] then s else s @ '','' @ join_commas ts)"
  by (cases ts) simp_all

lemma foldl_after:
  assumes "\<And>v st. v \<in> set vs \<Longrightarrow> f st v = after_value st (g v)"
  shows "foldl f st vs = (if vs = [] then st else after_value st (join_commas (map g vs)))"
  using assms by (induction vs arbitrary: st) (auto simp: after_value_twice join_commas_Cons)

lemma write_json_text: "write_json sg v st = after_value st (json_text sg v)"
proof (induction v arbitrary: st rule: json.induct)
  case (JArray vs)
  have "foldl (\<lambda>st v. write_json sg v st) (json_start_array st) vs =
      (if vs = [] then json_start_array st else after_value (json_start_array st) (join_commas (map (json_text sg) vs)))"
    by (rule foldl_after) (use JArray in blast)
  then show ?case by (cases st) (auto simp: json_writers after_value_def)
next
  case (JObject kvs)
  have "foldl (\<lambda>st kv. write_json sg (snd kv) (json_key sg (fst kv) st)) (json_start_object st) kvs =
      (if kvs = [] then json_start_object st else after_value (json_start_object st)
        (join_commas (map (\<lambda>kv. quoted sg (fst kv) @ '':'' @ json_text sg (snd kv)) kvs)))"
  proof (rule foldl_after)
    fix kv st assume "kv \<in> set kvs"
    then have "\<And>st. write_json sg (snd kv) st = after_value st (json_text sg (snd kv))" using JObject by (cases kv) (auto simp: snds.simps)
    then show "write_json sg (snd kv) (json_key sg (fst kv) st) = after_value st (quoted sg (fst kv) @ '':'' @ json_text sg (snd kv))"
      by (auto simp: json_writers after_value_def)
  qed
  then show ?case by (cases st) (auto simp: json_writers after_value_def)
qed (auto simp: json_writers after_value_def)

subsection \<open>A parser\<close>

text \<open>RFC 8259 without white space, negative numbers, fractions and exponents, and for code points below 256.\<close>

definition hex_value :: "char \<Rightarrow> nat option" where
  "hex_value c =
    (let n = of_char c :: nat
     in if 48 \<le> n \<and> n < 58 then Some (n - 48) else if 97 \<le> n \<and> n < 103 then Some (n - 87)
        else if 65 \<le> n \<and> n < 71 then Some (n - 55) else None)"

definition hex4 :: "char \<Rightarrow> char \<Rightarrow> char \<Rightarrow> char \<Rightarrow> char option" where
  "hex4 a b c d =
    (case (hex_value a, hex_value b, hex_value c, hex_value d) of
       (Some x, Some y, Some z, Some w) \<Rightarrow> if x = 0 \<and> y = 0 then Some (char_of (16 * z + w)) else None
     | _ \<Rightarrow> None)"

definition simple_escape :: "char \<Rightarrow> char option" where
  "simple_escape c =
    (if c = CHR 0x5C \<or> c = CHR 0x22 \<or> c = CHR ''/'' then Some c
     else if c = CHR ''n'' then Some (CHR 0x0A)
     else if c = CHR ''r'' then Some (CHR 0x0D)
     else if c = CHR ''t'' then Some (CHR 0x09)
     else if c = CHR ''b'' then Some (CHR 0x08)
     else if c = CHR ''f'' then Some (CHR 0x0C) else None)"

fun parse_chars :: "string \<Rightarrow> (string \<times> string) option" where
  "parse_chars [] = None"
| "parse_chars (c # s) =
    (if c = CHR 0x22 then Some ([], s)
     else if c = CHR 0x5C
     then (case s of
             [] \<Rightarrow> None
           | e # s' \<Rightarrow>
               if e = CHR ''u''
               then (case s' of
                       x # y # z # w # s'' \<Rightarrow>
                         (case hex4 x y z w of None \<Rightarrow> None | Some ch \<Rightarrow> map_option (apfst ((#) ch)) (parse_chars s''))
                     | _ \<Rightarrow> None)
               else (case simple_escape e of None \<Rightarrow> None | Some ch \<Rightarrow> map_option (apfst ((#) ch)) (parse_chars s')))
     else if (of_char c :: nat) < 32 then None
     else map_option (apfst ((#) c)) (parse_chars s))"

definition parse_number :: "string \<Rightarrow> (json \<times> string) option" where
  "parse_number s =
    (let ds = takeWhile digit s
     in if ds = [] \<or> (1 < length ds \<and> hd ds = CHR ''0'') \<or> 2 ^ 32 \<le> decimal_value ds then None
        else Some (JNumber (of_nat (decimal_value ds)), dropWhile digit s))"

fun parse_value :: "nat \<Rightarrow> string \<Rightarrow> (json \<times> string) option"
  and parse_items :: "nat \<Rightarrow> string \<Rightarrow> (json list \<times> string) option"
  and parse_members :: "nat \<Rightarrow> string \<Rightarrow> ((string \<times> json) list \<times> string) option" where
  "parse_value 0 s = None"
| "parse_value (Suc n) s =
    (case s of
       [] \<Rightarrow> None
     | c # r \<Rightarrow>
         if c = CHR 0x22 then map_option (apfst JString) (parse_chars r)
         else if c = CHR ''['' then (case r of [] \<Rightarrow> None | d # r' \<Rightarrow>
           if d = CHR '']'' then Some (JArray [], r') else map_option (apfst JArray) (parse_items n r))
         else if c = CHR ''{'' then (case r of [] \<Rightarrow> None | d # r' \<Rightarrow>
           if d = CHR ''}'' then Some (JObject [], r') else map_option (apfst JObject) (parse_members n r))
         else if take 4 s = ''true'' then Some (JBool True, drop 4 s)
         else if take 5 s = ''false'' then Some (JBool False, drop 5 s)
         else parse_number s)"
| "parse_items 0 s = None"
| "parse_items (Suc n) s =
    (case parse_value n s of
       None \<Rightarrow> None
     | Some (v, r) \<Rightarrow>
         (case r of
            [] \<Rightarrow> None
          | c # r' \<Rightarrow>
              if c = CHR '']'' then Some ([v], r')
              else if c = CHR '','' then map_option (apfst ((#) v)) (parse_items n r') else None))"
| "parse_members 0 s = None"
| "parse_members (Suc n) s =
    (case s of
       [] \<Rightarrow> None
     | c # s' \<Rightarrow>
         if c \<noteq> CHR 0x22 then None
         else (case parse_chars s' of
           None \<Rightarrow> None
         | Some (k, r) \<Rightarrow>
             (case r of
                [] \<Rightarrow> None
              | d # r' \<Rightarrow>
                  if d \<noteq> CHR '':'' then None
                  else (case parse_value n r' of
                    None \<Rightarrow> None
                  | Some (v, q) \<Rightarrow>
                      (case q of
                         [] \<Rightarrow> None
                       | e # q' \<Rightarrow>
                           if e = CHR ''}'' then Some ([(k, v)], q')
                           else if e = CHR '','' then map_option (apfst ((#) (k, v))) (parse_members n q') else None)))))"

definition parse_json :: "string \<Rightarrow> json option" where
  "parse_json s = (case parse_value (Suc (2 * length s)) s of Some (v, []) \<Rightarrow> Some v | _ \<Rightarrow> None)"

subsection \<open>Reading back what was written\<close>

definition readable_char :: "bool \<Rightarrow> char \<Rightarrow> bool" where
  "readable_char sg c \<longleftrightarrow> (sg \<longrightarrow> (of_char c :: nat) < 128)"

fun readable :: "bool \<Rightarrow> json \<Rightarrow> bool" where
  "readable sg (JString s) \<longleftrightarrow> list_all (readable_char sg) s"
| "readable sg (JArray vs) \<longleftrightarrow> (\<forall>v \<in> set vs. readable sg v)"
| "readable sg (JObject kvs) \<longleftrightarrow> (\<forall>kv \<in> set kvs. list_all (readable_char sg) (fst kv) \<and> readable sg (snd kv))"
| "readable sg (JNumber n) \<longleftrightarrow> True"
| "readable sg (JBool b) \<longleftrightarrow> True"

lemma of_char_lt [simp]: "(of_char c :: nat) < 256"
  by (rule nat_of_char_less_256)

lemma of_char_int: "(of_char c :: int) = int (of_char c)"
  by (simp add: of_nat_of_char)

lemma hex_value_digit: "k < 16 \<Longrightarrow> hex_value (hex_digit k) = Some k"
  by (auto simp: hex_value_def hex_digit_def Let_def)

lemma hexadecimal_small: "n < 16 \<Longrightarrow> hexadecimal n = [hex_digit n]"
  by (subst hexadecimal.simps) simp

lemma hexadecimal_large: "\<not> n < 16 \<Longrightarrow> hexadecimal n = hexadecimal (n div 16) @ [hex_digit (n mod 16)]"
  by (subst hexadecimal.simps) simp

lemma padded_hex_byte: "n < 256 \<Longrightarrow> padded_hex 4 (of_nat n) = [CHR ''0'', CHR ''0'', hex_digit (n div 16), hex_digit (n mod 16)]"
proof -
  assume n: "n < 256"
  then have u: "unat (of_nat n :: u32) = n" by (intro unat_of_nat_small) simp
  have zero: "hex_digit 0 = CHR ''0''" by code_simp
  have pad: "replicate 3 CHR ''0'' = [CHR ''0'', CHR ''0'', CHR ''0'']" "replicate 2 CHR ''0'' = [CHR ''0'', CHR ''0'']"
    by (simp_all add: numeral_eq_Suc)
  show ?thesis
  proof (cases "n < 16")
    case True
    then show ?thesis by (simp add: padded_hex_def u zero pad hexadecimal_small)
  next
    case False
    then have "hexadecimal n = [hex_digit (n div 16), hex_digit (n mod 16)]" using n by (simp add: hexadecimal_large hexadecimal_small)
    then show ?thesis by (simp add: padded_hex_def u pad)
  qed
qed

lemma parse_escaped:
  assumes "readable_char sg c"
  shows "parse_chars (json_escape sg c @ s) = map_option (apfst ((#) c)) (parse_chars s)"
proof -
  define n where "n = (of_char c :: nat)"
  have c: "c = char_of n" "n < 256" by (simp_all add: n_def)
  have v: "char_value sg c = int n" using assms by (auto simp: char_value_def readable_char_def n_def of_char_int)
  consider "c \<in> {CHR 0x5C, CHR 0x22, CHR 0x0A, CHR 0x0D, CHR 0x09}"
    | "c \<notin> {CHR 0x5C, CHR 0x22, CHR 0x0A, CHR 0x0D, CHR 0x09}" "n < 32 \<or> 127 < n"
    | "c \<notin> {CHR 0x5C, CHR 0x22, CHR 0x0A, CHR 0x0D, CHR 0x09}" "32 \<le> n" "n \<le> 127" by linarith
  then show ?thesis
  proof cases
    case 1
    then show ?thesis by (auto simp: json_escape_def simple_escape_def)
  next
    case 2
    have "hex4 CHR ''0'' CHR ''0'' (hex_digit (n div 16)) (hex_digit (n mod 16)) = Some c"
    proof -
      have "hex_value CHR ''0'' = Some 0" by code_simp
      moreover have "n div 16 < 16" using c(2) by simp
      ultimately show ?thesis using c by (simp add: hex4_def hex_value_digit)
    qed
    moreover have "json_escape sg c = [CHR 0x5C, CHR ''u'', CHR ''0'', CHR ''0'', hex_digit (n div 16), hex_digit (n mod 16)]"
      using 2 padded_hex_byte [OF c(2)] by (auto simp: json_escape_def v Let_def)
    ultimately show ?thesis by simp
  next
    case 3
    then have "json_escape sg c = [c]" by (auto simp: json_escape_def v Let_def)
    then show ?thesis using 3 by (simp add: n_def)
  qed
qed

lemma parse_quoted:
  "list_all (readable_char sg) s \<Longrightarrow> parse_chars (concat (map (json_escape sg) s) @ CHR 0x22 # rest) = Some (s, rest)"
  by (induction s) (simp_all add: parse_escaped)

lemma parse_decimal:
  assumes "rest = [] \<or> \<not> digit (hd rest)"
  shows "parse_number (decimal (unat (w :: u32)) @ rest) = Some (JNumber w, rest)"
proof -
  let ?d = "decimal (unat w)"
  have t: "takeWhile digit (?d @ rest) = ?d" "dropWhile digit (?d @ rest) = rest"
    using assms decimal_digits [of _ "unat w"] by (cases rest; simp)+
  have "\<not> (1 < length ?d \<and> hd ?d = CHR ''0'')"
    using decimal_head [of "unat w"] decimal_small [of 0] by auto
  moreover have "unat w < 4294967296" using unsigned_less [of w] by simp
  ultimately show ?thesis using decimal_head [of "unat w"] unfolding parse_number_def Let_def t decimal_value by simp
qed

text \<open>The fuel the parser needs for the text of a value.\<close>

fun parse_need :: "json \<Rightarrow> nat" where
  "parse_need (JArray vs) = Suc (sum_list (map (\<lambda>v. Suc (parse_need v)) vs))"
| "parse_need (JObject kvs) = Suc (sum_list (map (\<lambda>kv. Suc (parse_need (snd kv))) kvs))"
| "parse_need _ = 1"

lemma join_need:
  assumes "\<And>v. v \<in> set vs \<Longrightarrow> f v \<le> 2 * length (g v)"
  shows "sum_list (map (\<lambda>v. Suc (f v)) vs) \<le> Suc (2 * length (join_commas (map g vs)))"
  using assms by (induction vs) (fastforce simp: join_commas_Cons)+

lemma parse_need_length: "parse_need v \<le> 2 * length (json_text sg v)"
proof (induction v rule: json.induct)
  case (JArray vs)
  then show ?case using join_need [of vs parse_need "json_text sg"] by simp
next
  case (JObject kvs)
  have "parse_need (snd kv) \<le> 2 * length (quoted sg (fst kv) @ '':'' @ json_text sg (snd kv))" if "kv \<in> set kvs" for kv
    using JObject [OF that, of "snd kv"] by (simp add: snds.simps)
  then show ?case
    using join_need [of kvs "\<lambda>kv. parse_need (snd kv)" "\<lambda>kv. quoted sg (fst kv) @ '':'' @ json_text sg (snd kv)"] by simp
next
  case (JNumber n)
  then show ?case using decimal_head [of "unat n"] by (cases "decimal (unat n)") simp_all
qed (simp_all add: quoted_def)

definition ends_value :: "string \<Rightarrow> bool" where
  "ends_value rest \<longleftrightarrow> rest = [] \<or> \<not> digit (hd rest)"

lemma json_text_head: "\<exists>c cs. json_text sg v = c # cs \<and> c \<noteq> CHR '']'' \<and> c \<noteq> CHR ''}''"
proof (cases v)
  case (JNumber n)
  obtain c cs where "decimal (unat n) = c # cs" using decimal_head [of "unat n"] by (cases "decimal (unat n)") auto
  moreover then have "digit c" using decimal_digits [of c "unat n"] by simp
  moreover have "\<not> digit CHR '']''" "\<not> digit CHR ''}''" by (simp_all add: digit_def)
  ultimately show ?thesis using JNumber by auto
qed (auto simp: quoted_def)

lemma parse_items_text:
  assumes "\<And>v n rest. v \<in> set vs \<Longrightarrow> parse_need v \<le> n \<Longrightarrow> ends_value rest \<Longrightarrow> parse_value n (json_text sg v @ rest) = Some (v, rest)"
    and "vs \<noteq> []" "sum_list (map (\<lambda>v. Suc (parse_need v)) vs) \<le> n"
  shows "parse_items n (join_commas (map (json_text sg) vs) @ CHR '']'' # rest) = Some (vs, rest)"
  using assms
proof (induction vs arbitrary: n)
  case (Cons v vs)
  then obtain m where m: "n = Suc m" "parse_need v \<le> m" by (cases n) auto
  have e: "ends_value (CHR '']'' # s)" "ends_value (CHR '','' # s)" for s by (simp_all add: ends_value_def digit_def)
  show ?case
  proof (cases "vs = []")
    case True
    then show ?thesis using Cons.prems(1) [OF _ m(2) e(1)] m(1) by simp
  next
    case False
    have "parse_items m (join_commas (map (json_text sg) vs) @ CHR '']'' # rest) = Some (vs, rest)"
      by (rule Cons.IH) (use Cons.prems False m(1) in auto)
    then show ?thesis using Cons.prems(1) [OF _ m(2) e(2)] m(1) False by (simp add: join_commas_Cons)
  qed
qed simp

lemma parse_members_text:
  assumes "\<And>kv n rest. kv \<in> set kvs \<Longrightarrow> parse_need (snd kv) \<le> n \<Longrightarrow> ends_value rest \<Longrightarrow>
      parse_value n (json_text sg (snd kv) @ rest) = Some (snd kv, rest)"
    and "\<And>kv. kv \<in> set kvs \<Longrightarrow> list_all (readable_char sg) (fst kv)"
    and "kvs \<noteq> []" "sum_list (map (\<lambda>kv. Suc (parse_need (snd kv))) kvs) \<le> n"
  shows "parse_members n (join_commas (map (\<lambda>kv. quoted sg (fst kv) @ '':'' @ json_text sg (snd kv)) kvs) @ CHR ''}'' # rest) = Some (kvs, rest)"
  using assms
proof (induction kvs arbitrary: n)
  case (Cons kv kvs)
  then obtain m where m: "n = Suc m" "parse_need (snd kv) \<le> m" by (cases n) auto
  have e: "ends_value (CHR ''}'' # s)" "ends_value (CHR '','' # s)" for s by (simp_all add: ends_value_def digit_def)
  have key: "parse_chars (concat (map (json_escape sg) (fst kv)) @ CHR 0x22 # s) = Some (fst kv, s)" for s
    using Cons.prems(2) by (intro parse_quoted) simp
  show ?case
  proof (cases "kvs = []")
    case True
    then show ?thesis using Cons.prems(1) [OF _ m(2) e(1)] m(1) key by (simp add: quoted_def)
  next
    case False
    have "parse_members m (join_commas (map (\<lambda>kv. quoted sg (fst kv) @ '':'' @ json_text sg (snd kv)) kvs) @ CHR ''}'' # rest) = Some (kvs, rest)"
      by (rule Cons.IH) (use Cons.prems False m(1) in auto)
    then show ?thesis using Cons.prems(1) [OF _ m(2) e(2)] m(1) False key by (simp add: join_commas_Cons quoted_def)
  qed
qed simp

lemma parse_value_text:
  "readable sg v \<Longrightarrow> parse_need v \<le> n \<Longrightarrow> ends_value rest \<Longrightarrow> parse_value n (json_text sg v @ rest) = Some (v, rest)"
proof (induction v arbitrary: n rest rule: json.induct)
  case (JString s)
  then obtain m where "n = Suc m" by (cases n) auto
  then show ?case using JString.prems(1) parse_quoted [of sg s rest] by (simp add: quoted_def)
next
  case (JNumber w)
  then obtain m where n: "n = Suc m" by (cases n) auto
  obtain c cs where c: "decimal (unat w) = c # cs" using decimal_head [of "unat w"] by (cases "decimal (unat w)") auto
  then have "digit c" using decimal_digits [of c "unat w"] by simp
  then have "c \<noteq> CHR 0x22" "c \<noteq> CHR ''[''" "c \<noteq> CHR ''{''" "c \<noteq> CHR ''t''" "c \<noteq> CHR ''f''" by (auto simp: digit_def)
  then have "parse_value n (decimal (unat w) @ rest) = parse_number (decimal (unat w) @ rest)" by (simp add: n c)
  then show ?case using parse_decimal [of rest w] JNumber.prems(3) by (simp add: ends_value_def)
next
  case (JBool b)
  then obtain m where "n = Suc m" by (cases n) auto
  then show ?case by (cases b) simp_all
next
  case (JArray vs)
  then obtain m where n: "n = Suc m" "sum_list (map (\<lambda>v. Suc (parse_need v)) vs) \<le> m" by (cases n) auto
  show ?case
  proof (cases "vs = []")
    case False
    have items: "parse_items m (join_commas (map (json_text sg) vs) @ CHR '']'' # rest) = Some (vs, rest)"
      by (rule parse_items_text [OF _ False n(2)]) (use JArray in auto)
    obtain v us where vs: "vs = v # us" using False by (cases vs) auto
    obtain c cs where c: "json_text sg v = c # cs" "c \<noteq> CHR '']''" using json_text_head [of sg v] by blast
    show ?thesis using items unfolding n(1) vs by (cases "us = []") (simp_all add: join_commas_Cons c)
  qed (simp add: n)
next
  case (JObject kvs)
  then obtain m where n: "n = Suc m" "sum_list (map (\<lambda>kv. Suc (parse_need (snd kv))) kvs) \<le> m" by (cases n) auto
  show ?case
  proof (cases "kvs = []")
    case False
    have items: "parse_members m (join_commas (map (\<lambda>kv. quoted sg (fst kv) @ '':'' @ json_text sg (snd kv)) kvs) @ CHR ''}'' # rest) = Some (kvs, rest)"
    proof (rule parse_members_text [OF _ _ False n(2)])
      fix kv k r assume "kv \<in> set kvs" "parse_need (snd kv) \<le> k" "ends_value r"
      then show "parse_value k (json_text sg (snd kv) @ r) = Some (snd kv, r)"
        using JObject.IH [of kv "snd kv" k r] JObject.prems(1) by (simp add: snds.simps)
    qed (use JObject.prems(1) in simp)
    obtain kv us where kvs: "kvs = kv # us" using False by (cases kvs) auto
    show ?thesis using items unfolding n(1) kvs by (cases "us = []") (simp_all add: join_commas_Cons quoted_def)
  qed (simp add: n)
qed

lemma written_parses:
  "readable sg v \<Longrightarrow> parse_json (json_file (write_json sg v json_set_output)) = Some v"
proof -
  assume r: "readable sg v"
  have "json_file (write_json sg v json_set_output) = json_text sg v"
    by (simp add: write_json_text after_value_def json_set_output_def)
  moreover have "parse_need v \<le> Suc (2 * length (json_text sg v))" using parse_need_length [of v sg] by simp
  ultimately show ?thesis
    using parse_value_text [OF r, of "Suc (2 * length (json_text sg v))" "[]"]
    by (simp add: parse_json_def ends_value_def del: parse_value.simps)
qed

text \<open>Note: whatever value is written to a fresh output, the text is JSON and stands for that value: the parser reads
  it back, commas, escapes and nesting included. Where \<open>char\<close> is signed this needs strings of 7-bit characters.\<close>

theorem json_roundtrip:
  "readable sg v \<Longrightarrow> parse_json (json_file (write_json sg v json_set_output)) = Some v"
  by (rule written_parses)

theorem json_roundtrip_witness:
  "parse_json (json_file (write_json True (JObject [(''a'', JArray [JNumber 0, JString [CHR 0x22, CHR 0x0A, CHR 0x01]]), (''b'', JBool False)]) json_set_output))
    = Some (JObject [(''a'', JArray [JNumber 0, JString [CHR 0x22, CHR 0x0A, CHR 0x01]]), (''b'', JBool False)])"
  by (rule json_roundtrip) (simp add: readable_char_def)

text \<open>With signed characters, a byte above 127 comes out as eight digits.\<close>

lemma json_high_byte: "parse_json (json_file (write_json True (JString [CHR 0xE9]) json_set_output)) = None"
proof -
  have "char_value True CHR 0xE9 = - 23" by code_simp
  moreover have "hex_digit 15 = CHR ''f''" "hex_digit 14 = CHR ''e''" "hex_digit 9 = CHR ''9''" by code_simp+
  then have "hexadecimal 4294967273 = ''ffffffe9''" by (simp add: hexadecimal_small hexadecimal_large)
  ultimately have t: "json_escape True CHR 0xE9 = [CHR 0x5C, CHR ''u''] @ ''ffffffe9''"
    by (simp add: json_escape_def padded_hex_def)
  have "hex_value CHR ''f'' = Some 15" by code_simp
  then have "hex4 CHR ''f'' CHR ''f'' CHR ''f'' CHR ''f'' = None" by (simp add: hex4_def)
  then have "parse_value (Suc n) ([CHR 0x22, CHR 0x5C, CHR ''u''] @ ''ffffffe9'' @ [CHR 0x22]) = None" for n by simp
  from this [of 24] show ?thesis
    by (simp add: write_json_text after_value_def json_set_output_def quoted_def t parse_json_def del: parse_value.simps)
qed

end
