(* ===== verification/HandleCache.thy ===== *)
theory HandleCache
  imports DiscoveryProps
begin

section \<open>The tool's device handles (cli/pg2-util/device.c)\<close>

text \<open>
  The tool keeps the last handle it opened, so that it does not open the same device again and again. An open handle is an
  address that \<open>open_handles\<close> maps to its device. What libusb answers is a parameter, the address of a new handle
  included: libusb may give out an address again once it is free. Log lines are left out.
\<close>

subsection \<open>Opening and closing\<close>

record usb_cache =
  open_handles :: "nat \<Rightarrow> nat option"
  cache_dev :: "nat option"
  cache_handle :: "nat option"
  cache_handle_in_use :: bool

record open_answers =
  ans_open :: "int + nat"
  ans_configuration :: "int + int"
  ans_set_configuration :: int
  ans_claim :: int

definition libusb_close :: "nat \<Rightarrow> usb_cache \<Rightarrow> usb_cache run" where
  "libusb_close h c = (if open_handles c h = None then Inl Double_free else Inr (c\<lparr>open_handles := (open_handles c)(h := None)\<rparr>))"

definition cache_hit :: "nat \<Rightarrow> bool \<Rightarrow> usb_cache \<Rightarrow> bool" where
  "cache_hit dev claim_interface c \<longleftrightarrow>
    \<not> claim_interface \<and> cache_handle c \<noteq> None \<and> \<not> cache_handle_in_use c \<and> cache_dev c = Some dev"

text \<open>The handle is put into the cache in place of the old one, which is closed if nobody uses it.\<close>

definition cache_replace :: "nat \<Rightarrow> nat \<Rightarrow> usb_cache \<times> ledger \<Rightarrow> (usb_cache \<times> ledger) run" where
  "cache_replace dev handle cL = (case cL of (c, L) \<Rightarrow>
    run_bind (case cache_handle c of
        None \<Rightarrow> Inr c
      | Some old \<Rightarrow>
          run_bind (if \<not> cache_handle_in_use c then libusb_close old c else Inr c) (\<lambda>c.
            Inr (c\<lparr>cache_handle_in_use := False, cache_handle := None\<rparr>))) (\<lambda>c.
    run_bind (case cache_dev c of
        None \<Rightarrow> Inr (c, L)
      | Some d \<Rightarrow> run_bind (unref_device d L) (\<lambda>L. Inr (c\<lparr>cache_dev := None\<rparr>, L))) (\<lambda>(c, L).
    Inr (if cache_handle c = None
         then (c\<lparr>cache_dev := Some dev, cache_handle := Some handle, cache_handle_in_use := True\<rparr>, ref_device dev L)
         else (c, L)))))"

definition device_open ::
  "open_answers \<Rightarrow> nat \<Rightarrow> bool \<Rightarrow> usb_cache \<times> ledger \<Rightarrow> ((usb_cache \<times> ledger) \<times> nat option) run" where
  "device_open A dev claim_interface cL = (case cL of (c, L) \<Rightarrow>
    let opened =
      (if cache_hit dev claim_interface c then Inr (c\<lparr>cache_handle_in_use := True\<rparr>, the (cache_handle c))
       else case ans_open A of
              Inl e \<Rightarrow> Inl c
            | Inr h \<Rightarrow> Inr (c\<lparr>open_handles := (open_handles c)(h := Some dev)\<rparr>, h))
    in case opened of
      Inl c \<Rightarrow> Inr ((c, L), None)
    | Inr (c, handle) \<Rightarrow>
        let fail = run_bind (libusb_close handle c) (\<lambda>c. Inr ((c, L), None))
        in case ans_configuration A of
             Inl e \<Rightarrow> fail
           | Inr config \<Rightarrow>
               if config = 0 \<and> ans_set_configuration A < 0 then fail
               else if claim_interface \<and> ans_claim A < 0 then fail
               else if claim_interface then Inr ((c, L), Some handle)
               else run_bind (cache_replace dev handle (c, L)) (\<lambda>cL. Inr (cL, Some handle)))"

definition device_close :: "nat \<Rightarrow> usb_cache \<Rightarrow> usb_cache run" where
  "device_close handle c =
    (if cache_handle_in_use c \<and> cache_handle c = Some handle then Inr (c\<lparr>cache_handle_in_use := False\<rparr>)
     else libusb_close handle c)"

subsection \<open>Well-behaved use\<close>

text \<open>
  The caller closes only handles it holds. libusb opens at addresses that are not open, and a handle from the cache can
  still be configured: its device has not been unplugged in between.
\<close>

definition fair_answers :: "open_answers \<Rightarrow> nat \<Rightarrow> bool \<Rightarrow> usb_cache \<Rightarrow> bool" where
  "fair_answers A dev claim_interface c \<longleftrightarrow>
    (\<forall>h. ans_open A = Inr h \<longrightarrow> open_handles c h = None) \<and>
    (cache_hit dev claim_interface c \<longrightarrow>
       (\<exists>config. ans_configuration A = Inr config \<and> \<not> (config = 0 \<and> ans_set_configuration A < 0)))"

definition empty_cache :: usb_cache where
  "empty_cache = \<lparr>open_handles = Map.empty, cache_dev = None, cache_handle = None, cache_handle_in_use = False\<rparr>"

inductive cache_run :: "ledger \<Rightarrow> usb_cache \<Rightarrow> ledger \<Rightarrow> nat set \<Rightarrow> bool" for L0 where
  start: "cache_run L0 empty_cache L0 {}"
| opened: "cache_run L0 c L held \<Longrightarrow> fair_answers A dev claim c \<Longrightarrow> device_open A dev claim (c, L) = Inr ((c', L'), Some h) \<Longrightarrow>
    cache_run L0 c' L' (insert h held)"
| refused: "cache_run L0 c L held \<Longrightarrow> fair_answers A dev claim c \<Longrightarrow> device_open A dev claim (c, L) = Inr ((c', L'), None) \<Longrightarrow>
    cache_run L0 c' L' held"
| closed: "cache_run L0 c L held \<Longrightarrow> h \<in> held \<Longrightarrow> device_close h c = Inr c' \<Longrightarrow> cache_run L0 c' L (held - {h})"

definition idle :: "usb_cache \<Rightarrow> nat set" where
  "idle c = (if cache_handle_in_use c then {} else set_option (cache_handle c))"

definition cache_inv :: "ledger \<Rightarrow> usb_cache \<Rightarrow> ledger \<Rightarrow> nat set \<Rightarrow> bool" where
  "cache_inv L0 c L held \<longleftrightarrow>
    dom (open_handles c) = held \<union> idle c \<and> held \<inter> idle c = {} \<and>
    refs L = (\<lambda>i. refs L0 i + (if cache_dev c = Some i then 1 else 0)) \<and> live L = live L0 \<and>
    (case cache_handle c of
       None \<Rightarrow> cache_dev c = None \<and> \<not> cache_handle_in_use c
     | Some h \<Rightarrow> cache_dev c \<noteq> None \<and> open_handles c h = cache_dev c \<and> (cache_handle_in_use c \<longrightarrow> h \<in> held))"

lemma unref_cached: "refs L = (\<lambda>i. R i + (if d = i then 1 else 0)) \<Longrightarrow> unref_device d L = Inr (L\<lparr>refs := R\<rparr>)"
  by (auto simp: unref_device_def fun_eq_iff)

text \<open>Replacing the cached handle by one that is open and not cached.\<close>

lemma cache_replace_inv:
  assumes inv: "cache_inv L0 c L held" and h: "h \<notin> held" "cache_handle c \<noteq> Some h"
    and o: "open_handles c' = (open_handles c)(h \<mapsto> dev)" "cache_dev c' = cache_dev c" "cache_handle c' = cache_handle c"
      "cache_handle_in_use c' = cache_handle_in_use c"
  shows "\<exists>c'' L'. cache_replace dev h (c', L) = Inr (c'', L') \<and> cache_inv L0 c'' L' (insert h held) \<and>
    open_handles c'' h = Some dev"
proof (cases "cache_handle c")
  case None
  then have n: "cache_dev c = None" "\<not> cache_handle_in_use c" "dom (open_handles c) = held" "refs L = refs L0" "live L = live L0" using inv
    by (auto simp: cache_inv_def idle_def)
  then show ?thesis using None h o by (auto simp: cache_replace_def cache_inv_def idle_def ref_device_def)
next
  case (Some old)
  then obtain d where d: "cache_dev c = Some d" "open_handles c old = Some d" "cache_handle_in_use c \<longrightarrow> old \<in> held"
      "refs L = (\<lambda>i. refs L0 i + (if d = i then 1 else 0))" "live L = live L0" "dom (open_handles c) = held \<union> idle c" "held \<inter> idle c = {}"
    using inv by (auto simp: cache_inv_def)
  have "old \<noteq> h" using Some h(2) by auto
  then show ?thesis
    using Some d h o
    by (cases "cache_handle_in_use c") (auto simp: cache_replace_def libusb_close_def cache_inv_def idle_def ref_device_def unref_cached)
qed

text \<open>Taking the cached handle out and putting it back.\<close>

lemma cache_reuse_inv:
  assumes inv: "cache_inv L0 c L held" and hit: "cache_hit dev False c" "cache_handle c = Some h"
  shows "\<exists>c'' L'. cache_replace dev h (c\<lparr>cache_handle_in_use := True\<rparr>, L) = Inr (c'', L') \<and> cache_inv L0 c'' L' (insert h held) \<and>
    open_handles c'' h = Some dev \<and> h \<notin> held"
  using assms by (auto simp: cache_hit_def cache_replace_def cache_inv_def idle_def ref_device_def unref_cached)

lemma device_open_inv:
  assumes inv: "cache_inv L0 c L held" and fair: "fair_answers A dev claim c"
  shows "\<exists>c' L' r. device_open A dev claim (c, L) = Inr ((c', L'), r) \<and>
    (case r of None \<Rightarrow> cache_inv L0 c' L' held
     | Some h \<Rightarrow> cache_inv L0 c' L' (insert h held) \<and> open_handles c' h = Some dev \<and> h \<notin> held)"
proof (cases "cache_hit dev claim c")
  case True
  then obtain h where h: "cache_handle c = Some h" "\<not> claim" by (auto simp: cache_hit_def)
  obtain config where config: "ans_configuration A = Inr config" "\<not> (config = 0 \<and> ans_set_configuration A < 0)"
    using fair True by (auto simp: fair_answers_def)
  obtain c'' L' where r: "cache_replace dev h (c\<lparr>cache_handle_in_use := True\<rparr>, L) = Inr (c'', L')"
      "cache_inv L0 c'' L' (insert h held)" "open_handles c'' h = Some dev" "h \<notin> held"
    using cache_reuse_inv [OF inv _ h(1), of dev] True h(2) by auto
  have "device_open A dev claim (c, L) = Inr ((c'', L'), Some h)"
    unfolding device_open_def using True h config r(1) by (auto simp: Let_def)
  then show ?thesis using r by auto
next
  case False
  show ?thesis
  proof (cases "ans_open A")
    case (Inl e)
    then show ?thesis using False inv by (simp add: device_open_def Let_def)
  next
    case (Inr h)
    define c1 where "c1 = c\<lparr>open_handles := (open_handles c)(h \<mapsto> dev)\<rparr>"
    have fresh: "open_handles c h = None" using fair Inr by (simp add: fair_answers_def)
    then have h: "h \<notin> held" "cache_handle c \<noteq> Some h"
      using inv by (auto simp: cache_inv_def split: option.splits)
    have closed: "libusb_close h c1 = Inr c" using fresh by (simp add: libusb_close_def c1_def fun_upd_idem)
    define failed where "failed = ((case ans_configuration A of Inl e \<Rightarrow> True | Inr config \<Rightarrow> config = 0 \<and> ans_set_configuration A < 0) \<or>
      claim \<and> ans_claim A < 0)"
    show ?thesis
    proof (cases failed)
      case True
      then have "device_open A dev claim (c, L) = Inr ((c, L), None)"
        using False Inr closed unfolding failed_def by (auto simp: device_open_def Let_def c1_def split: sum.splits)
      then show ?thesis using inv by simp
    next
      case ok: False
      then obtain config where config: "ans_configuration A = Inr config" "\<not> (config = 0 \<and> ans_set_configuration A < 0)" "\<not> (claim \<and> ans_claim A < 0)"
        unfolding failed_def by (auto split: sum.splits)
      show ?thesis
      proof (cases claim)
        case True
        then have "device_open A dev claim (c, L) = Inr ((c1, L), Some h)"
          using False Inr config by (auto simp: device_open_def Let_def c1_def)
        moreover have "cache_inv L0 c1 L (insert h held)"
          using inv h fresh by (auto simp: cache_inv_def c1_def idle_def split: option.splits)
        ultimately show ?thesis using h by (auto simp: c1_def)
      next
        case no: False
        obtain c'' L' where r: "cache_replace dev h (c1, L) = Inr (c'', L')"
            "cache_inv L0 c'' L' (insert h held)" "open_handles c'' h = Some dev"
          using cache_replace_inv [OF inv h, of c1 dev] by (auto simp: c1_def)
        have "device_open A dev claim (c, L) = Inr ((c'', L'), Some h)"
          unfolding device_open_def using False no Inr config r(1) by (auto simp: Let_def c1_def)
        then show ?thesis using r h by auto
      qed
    qed
  qed
qed

text \<open>Opening changes nothing in the ledger but references.\<close>

lemma unref_only: "unref_device d L = Inr L' \<Longrightarrow> \<exists>R. L' = L\<lparr>refs := R\<rparr>"
  by (auto simp: unref_device_def split: if_splits)

lemma ref_only: "\<exists>R. ref_device d L = L\<lparr>refs := R\<rparr>"
  by (auto simp: ref_device_def)

lemma cache_replace_ledger:
  assumes "cache_replace dev h (c, L) = Inr (c', L')"
  shows "\<exists>R. L' = L\<lparr>refs := R\<rparr>"
proof -
  obtain c1 p where p: "(case cache_dev c1 of None \<Rightarrow> Inr (c1, L)
        | Some d \<Rightarrow> run_bind (unref_device d L) (\<lambda>L. Inr (c1\<lparr>cache_dev := None\<rparr>, L))) = Inr p"
      and l: "(case p of (c, L) \<Rightarrow> Inr (if cache_handle c = None
         then (c\<lparr>cache_dev := Some dev, cache_handle := Some h, cache_handle_in_use := True\<rparr>, ref_device dev L)
         else (c, L))) = (Inr (c', L') :: (usb_cache \<times> ledger) run)"
    using assms unfolding cache_replace_def by (auto simp only: run_bind_Inr_iff prod.case)
  obtain c2 L1 where q: "p = (c2, L1)" by (cases p)
  then have l: "L' = (if cache_handle c2 = None then ref_device dev L1 else L1)" using l by (auto split: if_splits)
  have "\<exists>R. L1 = L\<lparr>refs := R\<rparr>"
  proof (cases "cache_dev c1")
    case None
    then show ?thesis using p q by (auto intro: exI [of _ "refs L"])
  next
    case (Some d)
    then show ?thesis using p q unref_only [of d L L1] by (auto simp: run_bind_Inr_iff)
  qed
  then show ?thesis using l ref_only [of dev L1] by auto
qed

lemma device_open_ledger:
  assumes "device_open A dev claim (c, L) = Inr ((c', L'), r)"
  shows "\<exists>R. L' = L\<lparr>refs := R\<rparr>"
proof -
  have fail: "\<exists>R. L' = L\<lparr>refs := R\<rparr>" if "run_bind (libusb_close h c1) (\<lambda>c. Inr ((c, L), None)) = Inr ((c', L'), r)" for h c1
    using that by (auto simp: run_bind_Inr_iff intro: exI [of _ "refs L"])
  have replace: "\<exists>R. L' = L\<lparr>refs := R\<rparr>" if "run_bind (cache_replace dev h (c1, L)) (\<lambda>cL. Inr (cL, Some h)) = Inr ((c', L'), r)" for h c1
    using that cache_replace_ledger by (auto simp: run_bind_Inr_iff)
  have same: "\<exists>R. L = L\<lparr>refs := R\<rparr>" by (rule exI [of _ "refs L"]) simp
  have rest: "\<exists>R. L' = L\<lparr>refs := R\<rparr>" if "(case ans_configuration A of
        Inl e \<Rightarrow> run_bind (libusb_close h c1) (\<lambda>c. Inr ((c, L), None))
      | Inr config \<Rightarrow>
          if config = 0 \<and> ans_set_configuration A < 0 then run_bind (libusb_close h c1) (\<lambda>c. Inr ((c, L), None))
          else if claim \<and> ans_claim A < 0 then run_bind (libusb_close h c1) (\<lambda>c. Inr ((c, L), None))
          else if claim then Inr ((c1, L), Some h)
          else run_bind (cache_replace dev h (c1, L)) (\<lambda>cL. Inr (cL, Some h))) = Inr ((c', L'), r)" for h c1
    using that fail replace same by (cases "ans_configuration A") (simp split: if_splits; blast)+
  show ?thesis
    using assms rest same unfolding device_open_def Let_def
    by (cases "cache_hit dev claim c"; cases "ans_open A") (simp; blast)+
qed

lemma device_close_inv:
  assumes inv: "cache_inv L0 c L held" and h: "h \<in> held"
  shows "\<exists>c'. device_close h c = Inr c' \<and> cache_inv L0 c' L (held - {h})"
proof (cases "cache_handle_in_use c \<and> cache_handle c = Some h")
  case True
  then show ?thesis using inv h by (auto simp: device_close_def cache_inv_def idle_def)
next
  case False
  have "open_handles c h \<noteq> None" "cache_handle c = Some g \<Longrightarrow> g \<noteq> h" for g
    using inv h False by (auto simp: cache_inv_def idle_def dom_def split: if_splits)
  then show ?thesis using inv h False
    by (auto simp: device_close_def libusb_close_def cache_inv_def idle_def split: option.splits if_splits)
qed

lemma cache_run_inv: "cache_run L0 c L held \<Longrightarrow> cache_inv L0 c L held"
proof (induction rule: cache_run.induct)
  case start
  then show ?case by (simp add: cache_inv_def empty_cache_def idle_def ref_device_def)
next
  case (opened c L held A dev claim c' L' h)
  then show ?case using device_open_inv [of L0 c L held A dev claim] by auto
next
  case (refused c L held A dev claim c' L')
  then show ?case using device_open_inv [of L0 c L held A dev claim] by auto
next
  case (closed c L held h c')
  then show ?case using device_close_inv [of L0 c L held h] by auto
qed

text \<open>C19: in every sequence of opens and closes, with or without claiming the interface, in which libusb opens at addresses that are
  not open and a handle taken from the cache can always be configured (otherwise see \<open>stale_cache_entry\<close>, device.c:109): no handle is closed twice, every open gives a handle that nobody else holds and that is open on the device
  asked for, and the handles open are those held and at most one idle in the cache. The cache holds one reference to
  its device and to no other.\<close>

theorem handle_cache_sound:
  assumes "cache_run L0 c L held"
  shows "(\<forall>h \<in> held. \<exists>c'. device_close h c = Inr c') \<and>
    (fair_answers A dev claim c \<longrightarrow>
       (\<exists>c' L' r. device_open A dev claim (c, L) = Inr ((c', L'), r) \<and> (\<forall>h. r = Some h \<longrightarrow> open_handles c' h = Some dev \<and> h \<notin> held))) \<and>
    held \<subseteq> dom (open_handles c) \<and> dom (open_handles c) - held \<subseteq> set_option (cache_handle c) \<and>
    refs L = (\<lambda>i. refs L0 i + (if cache_dev c = Some i then 1 else 0)) \<and> live L = live L0"
proof -
  note inv = cache_run_inv [OF assms]
  have "\<forall>h \<in> held. \<exists>c'. device_close h c = Inr c'" using device_close_inv [OF inv] by blast
  moreover have "fair_answers A dev claim c \<longrightarrow>
       (\<exists>c' L' r. device_open A dev claim (c, L) = Inr ((c', L'), r) \<and> (\<forall>h. r = Some h \<longrightarrow> open_handles c' h = Some dev \<and> h \<notin> held))"
    using device_open_inv [OF inv, of A dev claim] by (fastforce split: option.splits)
  ultimately show ?thesis using inv by (auto simp: cache_inv_def idle_def ref_device_def split: if_splits)
qed

subsection \<open>A device that goes away\<close>

definition answer_with :: "int + nat \<Rightarrow> int + int \<Rightarrow> open_answers" where
  "answer_with r config = \<lparr>ans_open = r, ans_configuration = config, ans_set_configuration = 0, ans_claim = 0\<rparr>"

lemmas cache_eval = device_open_def device_close_def cache_hit_def cache_replace_def libusb_close_def answer_with_def
  ref_device_def unref_device_def

definition hc_ledger :: ledger where
  "hc_ledger = \<lparr>live = {}, next_id = 0, alloc_ok = (\<lambda>_. True), refs = (\<lambda>_. 0), handles = 0, mutexes = 0\<rparr>"

theorem handle_cache_sound_witness:
  "\<exists>c. cache_run hc_ledger c (ref_device 1 hc_ledger) {} \<and> dom (open_handles c) \<subseteq> {5} \<and> cache_dev c = Some 1"
proof -
  define c1 where "c1 = \<lparr>open_handles = [5 \<mapsto> 1], cache_dev = Some 1, cache_handle = Some 5, cache_handle_in_use = True\<rparr>"
  have o: "device_open (answer_with (Inr 5) (Inr 1)) 1 False (empty_cache, hc_ledger) = Inr ((c1, ref_device 1 hc_ledger), Some 5)"
    by (simp add: cache_eval empty_cache_def c1_def)
  have "fair_answers (answer_with (Inr 5) (Inr 1)) 1 False empty_cache"
    by (simp add: fair_answers_def empty_cache_def cache_hit_def)
  then have "cache_run hc_ledger c1 (ref_device 1 hc_ledger) {5}"
    using cache_run.opened [OF cache_run.start _ o] by simp
  then have "cache_run hc_ledger (c1\<lparr>cache_handle_in_use := False\<rparr>) (ref_device 1 hc_ledger) ({5} - {5})"
    by (rule cache_run.closed) (simp_all add: device_close_def c1_def)
  then have r: "cache_run hc_ledger (c1\<lparr>cache_handle_in_use := False\<rparr>) (ref_device 1 hc_ledger) {}" by simp
  from handle_cache_sound [OF r] have "dom (open_handles (c1\<lparr>cache_handle_in_use := False\<rparr>)) \<subseteq> {5}" by (simp add: c1_def)
  then show ?thesis using r by (intro exI [of _ "c1\<lparr>cache_handle_in_use := False\<rparr>"]) (simp add: c1_def)
qed

text \<open>
  Without the condition on the configuration: a cached handle that fails is closed but stays in the cache as one in use.
  When its address is given out again, to the handle of another device, closing that one makes it the cached handle, and the
  next open of the first device returns a handle on the second.
\<close>

lemma stale_cache_entry:
  assumes "c = \<lparr>open_handles = [5 \<mapsto> 1], cache_dev = Some 1, cache_handle = Some 5, cache_handle_in_use = False\<rparr>"
    and "ans_configuration A = Inl e"
  shows "\<exists>c1 c2 c3 c4 L'. device_open A 1 False (c, L) = Inr ((c1, L), None) \<and> device_open (answer_with (Inr 5) (Inr 1)) 2 True (c1, L) = Inr ((c2, L), Some 5) \<and>
    device_close 5 c2 = Inr c3 \<and> device_open (answer_with (Inr 6) (Inr 1)) 1 False (c3, ref_device 1 L) = Inr ((c4, L'), Some 5) \<and> open_handles c4 5 = Some 2"
  using assms by (simp add: cache_eval)

end
