(* ===== verification/Reports.thy ===== *)
theory Reports
  imports NanoJson HandleCache ImageProps
begin

section \<open>Reports on images and devices (cli/pg2-util/image.c, meta.c, image-info.c, device-info.c)\<close>

text \<open>
  The output of \<open>image-info\<close> and \<open>device-info\<close>, machine-readable or not. Each function of the code that writes a part of
  it is a function on the state of the writer. The text forms of the reports are strings; both go to the standard output,
  which the writer's state holds.
\<close>

subsection \<open>Images\<close>

text \<open>A C string in a buffer: the bytes before the first NUL.\<close>

definition c_string :: "u8 list \<Rightarrow> string" where
  "c_string bs = map (\<lambda>b. char_of (unat b)) (takeWhile (\<lambda>b. b \<noteq> 0) bs)"

text \<open>The boot modes and status flags are numbered in the protocol header, a parameter.\<close>

record boot_modes =
  bm_flash :: u16
  bm_load_image :: u16
  bm_recovery :: u16

definition boot_mode_str :: "boot_modes \<Rightarrow> u16 \<Rightarrow> string" where
  "boot_mode_str B m =
    (if m = bm_flash B then ''flash'' else if m = bm_load_image B then ''load_image''
     else if m = bm_recovery B then ''recovery'' else ''unknown'')"

text \<open>\<open>%u.%u.%u.%u\<close> of the four bytes of a version.\<close>

definition version_str :: "u32 \<Rightarrow> string" where
  "version_str v =
    decimal (unat (drop_bit 24 v AND 0xFF)) @ ''.'' @ decimal (unat (drop_bit 16 v AND 0xFF)) @ ''.'' @
    decimal (unat (drop_bit 8 v AND 0xFF)) @ ''.'' @ decimal (unat (v AND 0xFF))"

definition json_firmware_metadata :: "bool \<Rightarrow> boot_modes \<Rightarrow> firmware_metadata \<Rightarrow> json_state \<Rightarrow> json_state" where
  "json_firmware_metadata sg B m st =
    (if md_version m = 0 then st
     else let st = json_string_fmt sg (version_str (md_version m)) (json_key sg ''version'' st);
              st = json_string_fmt sg (version_str (md_compat m)) (json_key sg ''compat'' st);
              st = json_number (ucast (md_max_control_transfer m)) (json_key sg ''max_control_transfer'' st);
              st = json_number (ucast (md_control_timeout_ms m)) (json_key sg ''control_timeout_ms'' st);
              st = json_string sg (c_string (md_build_type m)) (json_key sg ''build_type'' st)
          in json_string sg (boot_mode_str B (md_boot_mode m)) (json_key sg ''boot_mode'' st))"

definition json_firmware_image :: "bool \<Rightarrow> boot_modes \<Rightarrow> firmware_image \<Rightarrow> json_state \<Rightarrow> json_state" where
  "json_firmware_image sg B img st =
    (let st = json_firmware_metadata sg B (img_metadata img) st;
         st = json_number (of_nat (image_size img)) (json_key sg ''image_size'' st);
         st = json_string_fmt sg (padded_hex 4 (ucast (dfu_release img))) (json_key sg ''dfu_release'' st)
     in json_string_fmt sg (padded_hex 8 (dfu_crc img)) (json_key sg ''dfu_crc'' st))"

text \<open>The same as text: a line is an indented name and value.\<close>

definition line :: "string \<Rightarrow> string \<Rightarrow> string \<Rightarrow> string" where
  "line indent name val = indent @ name @ val @ [CHR 0x0A]"

definition show_firmware_metadata :: "boot_modes \<Rightarrow> string \<Rightarrow> firmware_metadata \<Rightarrow> string" where
  "show_firmware_metadata B indent m =
    (if md_version m = 0 then ''''
     else line indent ''Version:            '' (version_str (md_version m)) @
          line indent ''Compat:             '' (version_str (md_compat m)) @
          line indent ''Max control xfer:   '' (decimal (unat (md_max_control_transfer m)) @ '' bytes'') @
          line indent ''Control timeout:    '' (decimal (unat (md_control_timeout_ms m)) @ '' ms'') @
          line indent ''Build type:         '' (c_string (md_build_type m)) @
          line indent ''Boot mode:          '' (boot_mode_str B (md_boot_mode m)))"

definition show_firmware_image :: "boot_modes \<Rightarrow> string \<Rightarrow> firmware_image \<Rightarrow> string" where
  "show_firmware_image B indent img =
    show_firmware_metadata B indent (img_metadata img) @
    line indent ''Total image size:   '' (decimal (image_size img) @ '' bytes'') @
    line indent ''DFU release number: '' (padded_hex 4 (ucast (dfu_release img))) @
    line indent ''DFU CRC:            '' (padded_hex 8 (dfu_crc img))"

text \<open>\<open>image-info\<close> after option parsing: what it prints and whether it succeeds.\<close>

definition do_image_info ::
  "protocol \<Rightarrow> bool \<Rightarrow> boot_modes \<Rightarrow> bool \<Rightarrow> bool \<Rightarrow> 's firmware_io option \<Rightarrow> 's \<Rightarrow> string \<Rightarrow> bool \<Rightarrow> (string \<times> bool) run" where
  "do_image_info P sg B calloc_ok malloc_ok file_obj s image_path json_output =
    (case file_obj of
       None \<Rightarrow> Inr ('''', False)
     | Some io \<Rightarrow> run_bind (image_read P calloc_ok malloc_ok io s) (\<lambda>(s, image). case image of
           None \<Rightarrow> Inr ('''', False)
         | Some img \<Rightarrow>
             if json_output
             then Inr (json_file (json_end_object (json_firmware_image sg B img (json_start_object json_set_output))) @ [CHR 0x0A], True)
             else Inr (line '''' ''Image file: '' image_path @ show_firmware_image B ''  '' img, True)))"

subsection \<open>Querying a device\<close>

record status_bits =
  STATUS_SW1_USBBOOT :: u32
  STATUS_RF_POWER_ON :: u32
  STATUS_HSADC_RUN :: u32
  STATUS_IS_PG2SDR :: u32

record port_metadata =
  pm_block :: nat
  pm_port :: "(nat \<times> string) option"
  pm_device_type :: u32
  pm_serial :: "(nat \<times> string) option"
  pm_active_firmware :: "firmware_metadata option"
  pm_status :: "(bool \<times> bool \<times> bool \<times> string) option"
  pm_flash_image :: "firmware_image option"

text \<open>
  What libusb and the allocator answer while one device is queried. The answers to control requests depend on the handle
  they are sent on: \<open>E h\<close> is the environment behind handle \<open>h\<close>.
\<close>

record meta_answers =
  ma_status :: open_answers
  ma_active :: open_answers
  ma_flash :: open_answers
  ma_calloc :: bool
  ma_malloc :: bool

definition hw_type :: "status_bits \<Rightarrow> u32 \<Rightarrow> string" where
  "hw_type S flags =
    (if flags AND STATUS_IS_PG2SDR S \<noteq> 0 then ''pg2sdr''
     else if flags AND STATUS_IS_PG2SDR S \<noteq> 0 then ''airspy'' else ''unknown'')"

definition populate_status ::
  "(nat \<Rightarrow> 'u usb_env) \<Rightarrow> status_bits \<Rightarrow> open_answers \<Rightarrow> nat \<Rightarrow> (usb_cache \<times> ledger) \<times> 'u \<Rightarrow> port_metadata \<Rightarrow> (((usb_cache \<times> ledger) \<times> 'u) \<times> port_metadata) run" where
  "populate_status E S A dev s meta = (case s of (cL, u) \<Rightarrow>
    run_bind (device_open A dev False cL) (\<lambda>(cL, handle). case handle of
      None \<Rightarrow> Inr ((cL, u), meta)
    | Some h \<Rightarrow>
        let (u, pg2_error, status) = ctrl_get_status (E h) u False 0
        in case status of
             None \<Rightarrow> Inr ((cL, u), meta)
           | Some status \<Rightarrow>
               let flags = st_field status ST_flags
               in Inr ((cL, u), meta\<lparr>pm_status := Some (flags AND STATUS_SW1_USBBOOT S \<noteq> 0, flags AND STATUS_RF_POWER_ON S \<noteq> 0,
                    flags AND STATUS_HSADC_RUN S \<noteq> 0, hw_type S flags)\<rparr>)))"

definition populate_active_meta ::
  "(nat \<Rightarrow> 'u usb_env) \<Rightarrow> open_answers \<Rightarrow> nat \<Rightarrow> (usb_cache \<times> ledger) \<times> 'u \<Rightarrow> port_metadata \<Rightarrow> (((usb_cache \<times> ledger) \<times> 'u) \<times> port_metadata) run" where
  "populate_active_meta E A dev s meta = (case s of (cL, u) \<Rightarrow>
    run_bind (device_open A dev False cL) (\<lambda>(cL, handle). case handle of
      None \<Rightarrow> Inr ((cL, u), meta)
    | Some h \<Rightarrow>
        let (u, pg2_error, metadata) = ctrl_get_metadata (E h) u 0
        in Inr ((cL, u), meta\<lparr>pm_active_firmware := metadata\<rparr>)))"

definition io_open_flash ::
  "open_answers \<Rightarrow> nat \<Rightarrow> bool \<Rightarrow> usb_cache \<times> ledger \<Rightarrow> ((usb_cache \<times> ledger) \<times> (nat \<times> nat) option) run" where
  "io_open_flash A dev readonly cL = (case cL of (c, L) \<Rightarrow>
    (case alloc L of
       (L, None) \<Rightarrow> Inr ((c, L), None)
     | (L, Some io) \<Rightarrow>
         run_bind (device_open A dev (if readonly then False else True) (c, L)) (\<lambda>((c, L), handle). case handle of
           None \<Rightarrow> run_bind (release (Some io) L) (\<lambda>L. Inr ((c, L), None))
         | Some h \<Rightarrow> Inr ((c, L), Some (io, h)))))"

definition flash_close :: "nat \<times> nat \<Rightarrow> usb_cache \<times> ledger \<Rightarrow> (usb_cache \<times> ledger) run" where
  "flash_close flash cL = (case cL of (c, L) \<Rightarrow>
    run_bind (device_close (snd flash) c) (\<lambda>c. run_bind (release (Some (fst flash)) L) (\<lambda>L. Inr (c, L))))"

definition is_empty_flash :: "'u firmware_io \<Rightarrow> 'u \<Rightarrow> 'u \<times> bool" where
  "is_empty_flash io u =
    (case io_read io u 0 256 of
       (u, None) \<Rightarrow> (u, False)
     | (u, Some page) \<Rightarrow> (u, list_all (\<lambda>b. b = 0xFF) page))"

definition populate_flash_meta ::
  "(nat \<Rightarrow> 'u usb_env) \<Rightarrow> meta_answers \<Rightarrow> nat \<Rightarrow> (usb_cache \<times> ledger) \<times> 'u \<Rightarrow> port_metadata \<Rightarrow> (((usb_cache \<times> ledger) \<times> 'u) \<times> port_metadata) run" where
  "populate_flash_meta E A dev s meta = (case s of (cL, u) \<Rightarrow>
    run_bind (io_open_flash (ma_flash A) dev True cL) (\<lambda>(cL, flash). case flash of
      None \<Rightarrow> Inr ((cL, u), meta)
    | Some flash \<Rightarrow>
        let io = flash_io (E (snd flash)) True; (u, empty) = is_empty_flash io u
        in run_bind (if empty then Inr (u, meta)
              else run_bind (image_read (proto (E (snd flash))) (ma_calloc A) (ma_malloc A) io u) (\<lambda>(u, image). Inr (u, meta\<lparr>pm_flash_image := image\<rparr>)))
             (\<lambda>(u, meta). run_bind (flash_close flash cL) (\<lambda>cL. Inr ((cL, u), meta)))))"

definition meta_query ::
  "(nat \<Rightarrow> 'u usb_env) \<Rightarrow> status_bits \<Rightarrow> usb_ids \<Rightarrow> meta_answers \<Rightarrow> nat \<times> bus_device \<Rightarrow> (usb_cache \<times> ledger) \<times> 'u \<Rightarrow>
   (((usb_cache \<times> ledger) \<times> 'u) \<times> port_metadata option) run" where
  "meta_query E S I A dev s = (case s of ((c, L), u) \<Rightarrow>
    (case alloc L of
       (L, None) \<Rightarrow> Inr (((c, L), u), None)
     | (L, Some n) \<Rightarrow>
         run_bind (strdup_ports (snd dev) L) (\<lambda>(L, port).
           let type = identify_device I (snd dev);
               meta = \<lparr>pm_block = n, pm_port = port, pm_device_type = type, pm_serial = None, pm_active_firmware = None,
                 pm_status = None, pm_flash_image = None\<rparr>
           in if type = DEVTYPE_PG2SDR \<or> type = DEVTYPE_AIRSPYMINI \<or> type = DEVTYPE_PROTOTYPE
              then let (L, serial) = strdup_serial (snd dev) L
                   in run_bind (populate_status E S (ma_status A) (fst dev) ((c, L), u) (meta\<lparr>pm_serial := serial\<rparr>)) (\<lambda>(s, meta).
                        run_bind (populate_active_meta E (ma_active A) (fst dev) s meta) (\<lambda>(s, meta).
                          run_bind (populate_flash_meta E A (fst dev) s meta) (\<lambda>(s, meta). Inr (s, Some meta))))
              else Inr (((c, L), u), Some meta))))"

text \<open>The image's blocks are not in the ledger; the block of the structure itself is never freed.\<close>

definition meta_free :: "port_metadata option \<Rightarrow> ledger \<Rightarrow> ledger run" where
  "meta_free meta L =
    (case meta of
       None \<Rightarrow> Inr L
     | Some m \<Rightarrow> run_bind (release (map_option fst (pm_port m)) L) (release (map_option fst (pm_serial m))))"

subsection \<open>Devices\<close>

definition typestr :: "u32 \<Rightarrow> string" where
  "typestr type =
    (if type = DEVTYPE_PG2SDR then ''pg2sdr'' else if type = DEVTYPE_AIRSPYMINI then ''airspymini''
     else if type = DEVTYPE_PROTOTYPE then ''prototype'' else if type = DEVTYPE_RECOVERY then ''recovery'' else ''other'')"

definition json_port_metadata :: "bool \<Rightarrow> boot_modes \<Rightarrow> port_metadata \<Rightarrow> json_state \<Rightarrow> json_state run" where
  "json_port_metadata sg B m st =
    (let st = json_key sg ''port'' (json_start_object st)
     in case pm_port m of
       None \<Rightarrow> Inl Null_dereference
     | Some (_, port) \<Rightarrow>
         let st = json_string sg port st;
             st = json_string sg (typestr (pm_device_type m)) (json_key sg ''type'' st);
             st = (case pm_serial m of None \<Rightarrow> st | Some (_, ser) \<Rightarrow> json_string sg ser (json_key sg ''serial'' st));
             st = (case pm_status m of
                     None \<Rightarrow> st
                   | Some (recovery_switch_on, rf_power_on, adc_on, hw) \<Rightarrow>
                       let st = json_bool recovery_switch_on (json_key sg ''recovery_switch_on'' st);
                           st = json_bool rf_power_on (json_key sg ''rf_power_on'' st);
                           st = json_bool adc_on (json_key sg ''adc_on'' st)
                       in json_string sg hw (json_key sg ''hw_type'' st));
             st = (case pm_active_firmware m of
                     None \<Rightarrow> st
                   | Some md \<Rightarrow> json_end_object (json_firmware_metadata sg B md (json_start_object (json_key sg ''active'' st))));
             st = (case pm_flash_image m of
                     None \<Rightarrow> st
                   | Some img \<Rightarrow> json_end_object (json_firmware_image sg B img (json_start_object (json_key sg ''flash'' st))))
         in Inr (json_end_object st))"

definition type_text :: "u32 \<Rightarrow> string" where
  "type_text type =
    (if type = DEVTYPE_PG2SDR then ''Pro Stick Gen 2'' else if type = DEVTYPE_AIRSPYMINI then ''Airspy Mini with PG2 firmware''
     else if type = DEVTYPE_PROTOTYPE then ''Pro Stick Gen 2 (prototype VID/PID)''
     else if type = DEVTYPE_RECOVERY then ''Pro Stick Gen 2 (recovery mode)'' else ''Non-Pro Stick Gen 2 device'')"

definition show_port_metadata :: "boot_modes \<Rightarrow> port_metadata \<Rightarrow> json_state \<Rightarrow> json_state run" where
  "show_port_metadata B m st =
    (case pm_port m of
       None \<Rightarrow> Inl Null_dereference
     | Some (_, port) \<Rightarrow> Inr (json_put
         (line ''Port '' port '':'' @ line ''  '' ''Device type:          '' (type_text (pm_device_type m)) @
          (case pm_serial m of None \<Rightarrow> '''' | Some (_, ser) \<Rightarrow> line ''  '' ''Serial number:        '' ser) @
          (case pm_status m of
             None \<Rightarrow> ''''
           | Some (recovery_switch_on, rf_power_on, adc_on, hw) \<Rightarrow>
               line ''  '' ''Recovery switch:      '' (if recovery_switch_on then ''recovery mode'' else ''normal'') @
               line ''  '' ''RF power:             '' (if rf_power_on then ''on'' else ''off'') @
               line ''  '' ''ADC data stream:      '' (if adc_on then ''active'' else ''not active'') @
               line ''  '' ''Hardware type:        '' hw) @
          (case pm_active_firmware m of
             None \<Rightarrow> '''' | Some md \<Rightarrow> line ''  '' ''Active firmware:'' '''' @ show_firmware_metadata B ''    '' md) @
          (case pm_flash_image m of
             None \<Rightarrow> '''' | Some img \<Rightarrow> line ''  '' ''Flash firmware:'' '''' @ show_firmware_image B ''    '' img)) st))"

definition show_device_info ::
  "(nat \<Rightarrow> 'u usb_env) \<Rightarrow> status_bits \<Rightarrow> boot_modes \<Rightarrow> bool \<Rightarrow> usb_ids \<Rightarrow> (nat \<Rightarrow> meta_answers) \<Rightarrow> bool \<Rightarrow>
   ((usb_cache \<times> ledger) \<times> 'u) \<times> json_state \<times> bool \<Rightarrow> nat \<times> bus_device \<Rightarrow> (((usb_cache \<times> ledger) \<times> 'u) \<times> json_state \<times> bool) run" where
  "show_device_info E S B sg I A json_output x dev = (case x of (s, out, errors) \<Rightarrow>
    run_bind (meta_query E S I (A (fst dev)) dev s) (\<lambda>(((c, L), u), meta). case meta of
      None \<Rightarrow> Inr (((c, L), u), out, True)
    | Some m \<Rightarrow> run_bind (if json_output then json_port_metadata sg B m out else show_port_metadata B m out) (\<lambda>out.
        run_bind (meta_free (Some m) L) (\<lambda>L. Inr (((c, L), u), out, errors)))))"

text \<open>\<open>device-info\<close> after option parsing: the loop runs over the devices the search returned.\<close>

definition do_device_info ::
  "libusb_consts \<Rightarrow> (usb_device list \<Rightarrow> usb_device list) \<Rightarrow> bus_device list \<Rightarrow> pg_context option \<Rightarrow> (nat \<Rightarrow> 'u usb_env) \<Rightarrow> status_bits \<Rightarrow> boot_modes \<Rightarrow>
   bool \<Rightarrow> usb_ids \<Rightarrow> (nat \<Rightarrow> meta_answers) \<Rightarrow> string option \<Rightarrow> string option \<Rightarrow> bool \<Rightarrow> (usb_cache \<times> ledger) \<times> 'u \<Rightarrow>
   (((usb_cache \<times> ledger) \<times> 'u) \<times> string \<times> bool) run" where
  "do_device_info K qsort devs ctx E S B sg I A serial_prefix port_path json_output s = (case s of ((c, L), u) \<Rightarrow>
    run_bind (discover_matching K I qsort (Inr devs) ctx True serial_prefix port_path
        (DEVTYPE_PG2SDR OR DEVTYPE_AIRSPYMINI OR DEVTYPE_PROTOTYPE OR DEVTYPE_RECOVERY) L) (\<lambda>(L, r). case r of
      Inl e \<Rightarrow> Inr (((c, L), u), '''', False)
    | Inr (block, devices) \<Rightarrow>
        run_bind (run_foldl (show_device_info E S B sg I A json_output)
            (((c, L), u), if json_output then json_start_array json_set_output else json_set_output, False)
            (map (\<lambda>d. (ud_lu d, devs ! ud_lu d)) devices)) (\<lambda>(((c, L), u), out, errors).
          run_bind (free_device_list (Some (block, devices)) L) (\<lambda>L.
            Inr (((c, L), u), if json_output then json_file (json_end_array out) @ [CHR 0x0A] else json_file out, \<not> errors)))))"

subsection \<open>The values reported\<close>

definition metadata_members :: "boot_modes \<Rightarrow> firmware_metadata \<Rightarrow> (string \<times> json) list" where
  "metadata_members B m =
    (if md_version m = 0 then []
     else [(''version'', JString (version_str (md_version m))), (''compat'', JString (version_str (md_compat m))),
           (''max_control_transfer'', JNumber (ucast (md_max_control_transfer m))),
           (''control_timeout_ms'', JNumber (ucast (md_control_timeout_ms m))),
           (''build_type'', JString (c_string (md_build_type m))), (''boot_mode'', JString (boot_mode_str B (md_boot_mode m)))])"

definition image_members :: "boot_modes \<Rightarrow> firmware_image \<Rightarrow> (string \<times> json) list" where
  "image_members B img = metadata_members B (img_metadata img) @
    [(''image_size'', JNumber (of_nat (image_size img))), (''dfu_release'', JString (padded_hex 4 (ucast (dfu_release img)))),
     (''dfu_crc'', JString (padded_hex 8 (dfu_crc img)))]"

definition status_members :: "bool \<times> bool \<times> bool \<times> string \<Rightarrow> (string \<times> json) list" where
  "status_members s = (case s of (recovery, rf, adc, hw) \<Rightarrow>
    [(''recovery_switch_on'', JBool recovery), (''rf_power_on'', JBool rf), (''adc_on'', JBool adc), (''hw_type'', JString hw)])"

definition port_value :: "boot_modes \<Rightarrow> port_metadata \<Rightarrow> json" where
  "port_value B m = JObject
    ([(''port'', JString (case pm_port m of None \<Rightarrow> '''' | Some p \<Rightarrow> snd p)), (''type'', JString (typestr (pm_device_type m)))] @
     (case pm_serial m of None \<Rightarrow> [] | Some s \<Rightarrow> [(''serial'', JString (snd s))]) @
     (case pm_status m of None \<Rightarrow> [] | Some s \<Rightarrow> status_members s) @
     (case pm_active_firmware m of None \<Rightarrow> [] | Some md \<Rightarrow> [(''active'', JObject (metadata_members B md))]) @
     (case pm_flash_image m of None \<Rightarrow> [] | Some img \<Rightarrow> [(''flash'', JObject (image_members B img))]))"

definition write_member :: "bool \<Rightarrow> json_state \<Rightarrow> string \<times> json \<Rightarrow> json_state" where
  "write_member sg st kv = write_json sg (snd kv) (json_key sg (fst kv) st)"

lemma write_object: "write_json sg (JObject kvs) st = json_end_object (foldl (write_member sg) (json_start_object st) kvs)"
  by (simp add: write_member_def [abs_def])

lemma version_fits: "take 255 (version_str v) = version_str v"
proof -
  have "length (decimal (unat (w AND 0xFF))) \<le> 3" for w :: u32
  proof (rule decimal_length)
    have "w AND 0xFF \<le> 0xFF" by (rule word_and_le1)
    then have "unat (w AND 0xFF) \<le> 255" by (simp add: word_le_nat_alt)
    then show "unat (w AND 0xFF) < 10 ^ 3" by simp
  qed simp
  from this [of "drop_bit 24 v"] this [of "drop_bit 16 v"] this [of "drop_bit 8 v"] this [of v]
  show ?thesis by (simp add: version_str_def)
qed

lemma hexadecimal_length: "n < 16 ^ k \<Longrightarrow> 0 < k \<Longrightarrow> length (hexadecimal n) \<le> k"
proof (induction k arbitrary: n)
  case (Suc k)
  show ?case
  proof (cases "n < 16")
    case False
    then have "0 < k" using Suc.prems by (cases k) auto
    moreover have "n div 16 < 16 ^ k" using Suc.prems by (simp add: div_less_iff_less_mult mult.commute)
    ultimately show ?thesis using Suc.IH False by (simp add: hexadecimal_large)
  qed (simp add: hexadecimal_small)
qed simp

lemma padded_fits: "k \<le> 8 \<Longrightarrow> take 255 (padded_hex k w) = padded_hex k w"
proof -
  assume "k \<le> 8"
  moreover have "unat w < 16 ^ 8" using unsigned_less [of w] by simp
  then have "length (hexadecimal (unat w)) \<le> 8" by (rule hexadecimal_length) simp
  ultimately have "length (padded_hex k w) \<le> 255" by (simp add: padded_hex_def Let_def)
  then show ?thesis by simp
qed

lemma json_metadata_members: "json_firmware_metadata sg B m st = foldl (write_member sg) st (metadata_members B m)"
  by (simp add: json_firmware_metadata_def metadata_members_def write_member_def json_string_fmt_def version_fits Let_def)

lemma json_image_members: "json_firmware_image sg B img st = foldl (write_member sg) st (image_members B img)"
  by (simp add: json_firmware_image_def json_metadata_members image_members_def write_member_def json_string_fmt_def padded_fits Let_def)

lemma json_port_value:
  "pm_port m \<noteq> None \<Longrightarrow> json_port_metadata sg B m st = Inr (write_json sg (port_value B m) st)"
proof -
  assume "pm_port m \<noteq> None"
  then obtain n port where p: "pm_port m = Some (n, port)" by auto
  have o: "json_end_object (foldl (write_member sg) (json_start_object (json_key sg k st)) kvs) = write_member sg st (k, JObject kvs)" for k kvs st
    unfolding write_member_def [abs_def] by simp
  show ?thesis
    unfolding json_port_metadata_def port_value_def write_object Let_def p json_metadata_members json_image_members o
    by (simp add: write_member_def status_members_def split: option.split prod.split)
qed

subsection \<open>Readable strings\<close>

definition plain :: "string \<Rightarrow> bool" where
  "plain s \<longleftrightarrow> (\<forall>c \<in> set s. (of_char c :: nat) < 128)"

lemma plain_readable: "plain s \<Longrightarrow> list_all (readable_char sg) s"
  by (auto simp: plain_def list_all_iff readable_char_def)

lemma plain_decimal: "plain (decimal n)"
  using decimal_digits by (fastforce simp: plain_def digit_def)

lemma plain_append [simp]: "plain (s @ t) \<longleftrightarrow> plain s \<and> plain t"
  by (auto simp: plain_def)

lemma plain_Cons [simp]: "plain (c # s) \<longleftrightarrow> (of_char c :: nat) < 128 \<and> plain s" "plain []"
  by (auto simp: plain_def)

lemma plain_hex_digit: "n < 16 \<Longrightarrow> plain [hex_digit n]"
  by (simp add: hex_digit_def)

lemma plain_hexadecimal: "plain (hexadecimal n)"
proof (induction n rule: less_induct)
  case (less n)
  show ?case
  proof (cases "n < 16")
    case True
    then show ?thesis using plain_hex_digit by (simp add: hexadecimal_small)
  next
    case False
    then have "plain (hexadecimal (n div 16))" by (intro less) simp
    then show ?thesis using False plain_hex_digit [of "n mod 16"] by (simp add: hexadecimal_large)
  qed
qed

lemma plain_padded: "plain (padded_hex k w)"
  using plain_hexadecimal by (auto simp: padded_hex_def Let_def plain_def)

lemma plain_version: "plain (version_str v)"
  using plain_decimal by (simp add: version_str_def)

definition readable_metadata :: "bool \<Rightarrow> firmware_metadata \<Rightarrow> bool" where
  "readable_metadata sg m \<longleftrightarrow> list_all (readable_char sg) (c_string (md_build_type m))"

definition readable_report :: "bool \<Rightarrow> port_metadata \<Rightarrow> bool" where
  "readable_report sg m \<longleftrightarrow>
    (\<forall>p. pm_port m = Some p \<longrightarrow> list_all (readable_char sg) (snd p)) \<and>
    (\<forall>s. pm_serial m = Some s \<longrightarrow> list_all (readable_char sg) (snd s)) \<and>
    (\<forall>a b c hw. pm_status m = Some (a, b, c, hw) \<longrightarrow> list_all (readable_char sg) hw) \<and>
    (\<forall>md. pm_active_firmware m = Some md \<longrightarrow> readable_metadata sg md) \<and>
    (\<forall>img. pm_flash_image m = Some img \<longrightarrow> readable_metadata sg (img_metadata img))"

lemma readable_literals:
  "list_all (readable_char sg) ''version''" "list_all (readable_char sg) ''compat''" "list_all (readable_char sg) ''max_control_transfer''"
  "list_all (readable_char sg) ''control_timeout_ms''" "list_all (readable_char sg) ''build_type''" "list_all (readable_char sg) ''boot_mode''"
  "list_all (readable_char sg) ''image_size''" "list_all (readable_char sg) ''dfu_release''" "list_all (readable_char sg) ''dfu_crc''"
  "list_all (readable_char sg) ''port''" "list_all (readable_char sg) ''type''" "list_all (readable_char sg) ''serial''"
  "list_all (readable_char sg) ''recovery_switch_on''" "list_all (readable_char sg) ''rf_power_on''" "list_all (readable_char sg) ''adc_on''"
  "list_all (readable_char sg) ''hw_type''" "list_all (readable_char sg) ''active''" "list_all (readable_char sg) ''flash''"
  "list_all (readable_char sg) (boot_mode_str B bm)" "list_all (readable_char sg) (typestr t)"
  by (simp_all add: readable_char_def boot_mode_str_def typestr_def)

lemma readable_metadata_members: "readable_metadata sg m \<Longrightarrow> readable sg (JObject (metadata_members B m))"
  using plain_version plain_readable
  by (auto simp: metadata_members_def readable_metadata_def readable_literals simp del: list.pred_inject)

lemma readable_image_members: "readable_metadata sg (img_metadata img) \<Longrightarrow> readable sg (JObject (image_members B img))"
  using readable_metadata_members [of sg "img_metadata img" B] plain_padded plain_readable
  by (auto simp: image_members_def readable_literals simp del: list.pred_inject)

lemma readable_append: "readable sg (JObject (xs @ ys)) \<longleftrightarrow> readable sg (JObject xs) \<and> readable sg (JObject ys)"
  by auto

lemma readable_port_value:
  assumes "readable_report sg m"
  shows "readable sg (port_value B m)"
  unfolding port_value_def readable_append
proof (intro conjI)
  show "readable sg (JObject [(''port'', JString (case pm_port m of None \<Rightarrow> [] | Some p \<Rightarrow> snd p)), (''type'', JString (typestr (pm_device_type m)))])"
    using assms by (cases "pm_port m") (simp_all add: readable_report_def readable_literals del: list.pred_inject(2))
  show "readable sg (JObject (case pm_serial m of None \<Rightarrow> [] | Some s \<Rightarrow> [(''serial'', JString (snd s))]))"
    using assms by (cases "pm_serial m") (simp_all add: readable_report_def readable_literals del: list.pred_inject(2))
  show "readable sg (JObject (case pm_status m of None \<Rightarrow> [] | Some s \<Rightarrow> status_members s))"
    using assms by (cases "pm_status m") (auto simp: readable_report_def readable_literals status_members_def simp del: list.pred_inject(2))
  show "readable sg (JObject (case pm_active_firmware m of None \<Rightarrow> [] | Some md \<Rightarrow> [(''active'', JObject (metadata_members B md))]))"
  proof (cases "pm_active_firmware m")
    case (Some md)
    then have "readable sg (JObject (metadata_members B md))"
      using assms by (intro readable_metadata_members) (simp add: readable_report_def)
    then show ?thesis using Some by (simp add: readable_literals del: list.pred_inject(2))
  qed simp
  show "readable sg (JObject (case pm_flash_image m of None \<Rightarrow> [] | Some img \<Rightarrow> [(''flash'', JObject (image_members B img))]))"
  proof (cases "pm_flash_image m")
    case (Some img)
    then have "readable sg (JObject (image_members B img))"
      using assms by (intro readable_image_members) (simp add: readable_report_def)
    then show ?thesis using Some by (simp add: readable_literals del: list.pred_inject(2))
  qed simp
qed

subsection \<open>What a query reads\<close>

text \<open>
  What a report may say of a device, stated without the functions that collect it: an entry is what the device behind the
  handle opened for it answered, bit by bit, or is left out when the device gave no answer.
\<close>

definition queryable :: "usb_ids \<Rightarrow> bus_device \<Rightarrow> bool" where
  "queryable I d \<longleftrightarrow> bd_id d \<in> {PG2SDR_ID I, AIRSPYMINI_ID I, PROTOTYPE_ID}"

definition status_read :: "(nat \<Rightarrow> 'u usb_env) \<Rightarrow> status_bits \<Rightarrow> open_answers \<Rightarrow> nat \<Rightarrow> (bool \<times> bool \<times> bool \<times> string) option \<Rightarrow> bool" where
  "status_read E S A dev r \<longleftrightarrow>
    (\<exists>cL cL' handle. device_open A dev False cL = Inr (cL', handle) \<and>
      (case handle of
         None \<Rightarrow> r = None
       | Some h \<Rightarrow> \<exists>u u' e status. ctrl_get_status (E h) u False 0 = (u', e, status) \<and>
           (case status of
              None \<Rightarrow> r = None
            | Some st \<Rightarrow> \<exists>recovery rf adc hw. r = Some (recovery, rf, adc, hw) \<and>
                (recovery \<longleftrightarrow> st_field st ST_flags AND STATUS_SW1_USBBOOT S \<noteq> 0) \<and>
                (rf \<longleftrightarrow> st_field st ST_flags AND STATUS_RF_POWER_ON S \<noteq> 0) \<and>
                (adc \<longleftrightarrow> st_field st ST_flags AND STATUS_HSADC_RUN S \<noteq> 0) \<and>
                hw = (if st_field st ST_flags AND STATUS_IS_PG2SDR S \<noteq> 0 then ''pg2sdr'' else ''unknown''))))"

definition active_read :: "(nat \<Rightarrow> 'u usb_env) \<Rightarrow> open_answers \<Rightarrow> nat \<Rightarrow> firmware_metadata option \<Rightarrow> bool" where
  "active_read E A dev r \<longleftrightarrow>
    (\<exists>cL cL' handle. device_open A dev False cL = Inr (cL', handle) \<and>
      (case handle of None \<Rightarrow> r = None | Some h \<Rightarrow> \<exists>u u' e. ctrl_get_metadata (E h) u 0 = (u', e, r)))"

definition flash_read_image :: "(nat \<Rightarrow> 'u usb_env) \<Rightarrow> meta_answers \<Rightarrow> nat \<Rightarrow> firmware_image option \<Rightarrow> bool" where
  "flash_read_image E A dev r \<longleftrightarrow>
    (\<exists>cL cL' flash. io_open_flash (ma_flash A) dev True cL = Inr (cL', flash) \<and>
      (case flash of
         None \<Rightarrow> r = None
       | Some (n, h) \<Rightarrow> \<exists>u u1 page. io_read (flash_io (E h) True) u 0 256 = (u1, page) \<and>
           (if (\<exists>bs. page = Some bs \<and> set bs \<subseteq> {0xFF}) then r = None
            else \<exists>u2. image_read (proto (E h)) (ma_calloc A) (ma_malloc A) (flash_io (E h) True) u1 = Inr (u2, r))))"

definition report_of :: "(nat \<Rightarrow> 'u usb_env) \<Rightarrow> status_bits \<Rightarrow> usb_ids \<Rightarrow> (nat \<Rightarrow> meta_answers) \<Rightarrow> nat \<times> bus_device \<Rightarrow> port_metadata \<Rightarrow> bool" where
  "report_of E S I A d m \<longleftrightarrow>
    (ports_documented (snd d) \<longrightarrow> (\<forall>p. pm_port m = Some p \<longrightarrow> snd p = device_path (snd d))) \<and>
    pm_device_type m = identify_device I (snd d) \<and>
    (if queryable I (snd d)
     then (\<forall>s. pm_serial m = Some s \<longrightarrow> snd s = serial_string (snd d)) \<and>
       status_read E S (ma_status (A (fst d))) (fst d) (pm_status m) \<and>
       active_read E (ma_active (A (fst d))) (fst d) (pm_active_firmware m) \<and>
       flash_read_image E (A (fst d)) (fst d) (pm_flash_image m)
     else pm_serial m = None \<and> pm_status m = None \<and> pm_active_firmware m = None \<and> pm_flash_image m = None)"

lemma status_read_intros:
  assumes "device_open A dev False cL = Inr (cL', handle)"
  shows "handle = None \<Longrightarrow> status_read E S A dev None"
    "handle = Some h \<Longrightarrow> ctrl_get_status (E h) u False 0 = (u', e, None) \<Longrightarrow> status_read E S A dev None"
    "handle = Some h \<Longrightarrow> ctrl_get_status (E h) u False 0 = (u', e, Some st) \<Longrightarrow>
      status_read E S A dev (Some (st_field st ST_flags AND STATUS_SW1_USBBOOT S \<noteq> 0, st_field st ST_flags AND STATUS_RF_POWER_ON S \<noteq> 0,
        st_field st ST_flags AND STATUS_HSADC_RUN S \<noteq> 0, hw_type S (st_field st ST_flags)))"
proof -
  show "status_read E S A dev None" if "handle = None"
    unfolding status_read_def by (intro exI conjI, rule assms) (simp add: that)
  show "status_read E S A dev None" if "handle = Some h" "ctrl_get_status (E h) u False 0 = (u', e, None)"
    unfolding status_read_def
    by (intro exI conjI, rule assms) (unfold that(1) option.case, intro exI conjI, rule that(2), simp)
  assume h: "handle = Some h" "ctrl_get_status (E h) u False 0 = (u', e, Some st)"
  show "status_read E S A dev (Some (st_field st ST_flags AND STATUS_SW1_USBBOOT S \<noteq> 0, st_field st ST_flags AND STATUS_RF_POWER_ON S \<noteq> 0,
      st_field st ST_flags AND STATUS_HSADC_RUN S \<noteq> 0, hw_type S (st_field st ST_flags)))"
    unfolding status_read_def
    by (intro exI conjI, rule assms) (unfold h(1) option.case, intro exI conjI, rule h(2), simp add: hw_type_def)
qed

lemma populate_status_reads:
  assumes "populate_status E S A dev s m = Inr (s', m')" "pm_status m = None"
  shows "\<exists>r. m' = m\<lparr>pm_status := r\<rparr> \<and> status_read E S A dev r"
proof -
  obtain cL u where s: "s = (cL, u)" by (cases s)
  obtain cL' handle where o: "device_open A dev False cL = Inr (cL', handle)"
    using assms(1) s by (auto simp: populate_status_def run_bind_Inr_iff)
  note intros = status_read_intros [OF o, where E = E and S = S]
  have same: "m = m\<lparr>pm_status := None\<rparr>" using assms(2) by (cases m) simp
  show ?thesis
  proof (cases handle)
    case None
    then have "m' = m" using assms(1) s o by (simp add: populate_status_def)
    then show ?thesis using same intros(1) [OF None] by metis
  next
    case (Some h)
    obtain u' e st where g: "ctrl_get_status (E h) u False 0 = (u', e, st)" by (metis prod_cases3)
    show ?thesis
    proof (cases st)
      case None
      then have "m' = m" using assms(1) s o Some g by (simp add: populate_status_def Let_def)
      then show ?thesis using same intros(2) [OF Some] g None by metis
    next
      case (Some v)
      have "m' = m\<lparr>pm_status := Some (st_field v ST_flags AND STATUS_SW1_USBBOOT S \<noteq> 0, st_field v ST_flags AND STATUS_RF_POWER_ON S \<noteq> 0,
          st_field v ST_flags AND STATUS_HSADC_RUN S \<noteq> 0, hw_type S (st_field v ST_flags))\<rparr>"
        using assms(1) s o \<open>handle = Some h\<close> g Some by (simp add: populate_status_def Let_def)
      then show ?thesis using intros(3) [OF \<open>handle = Some h\<close>] g Some by blast
    qed
  qed
qed

lemma populate_active_reads:
  assumes "populate_active_meta E A dev s m = Inr (s', m')" "pm_active_firmware m = None"
  shows "\<exists>r. m' = m\<lparr>pm_active_firmware := r\<rparr> \<and> active_read E A dev r"
proof -
  obtain cL u where s: "s = (cL, u)" by (cases s)
  obtain cL' handle where o: "device_open A dev False cL = Inr (cL', handle)"
    using assms(1) s by (auto simp: populate_active_meta_def run_bind_Inr_iff)
  have same: "m = m\<lparr>pm_active_firmware := None\<rparr>" using assms(2) by (cases m) simp
  have read: "active_read E A dev r" if "case handle of None \<Rightarrow> r = None | Some h \<Rightarrow> \<exists>u u' e. ctrl_get_metadata (E h) u 0 = (u', e, r)" for r
    unfolding active_read_def using o that by (intro exI conjI)
  show ?thesis
  proof (cases handle)
    case None
    then have "m' = m" using assms(1) s o by (simp add: populate_active_meta_def)
    then show ?thesis using same read [of None] None by auto
  next
    case (Some h)
    obtain u' e md where g: "ctrl_get_metadata (E h) u 0 = (u', e, md)" by (metis prod_cases3)
    then have "m' = m\<lparr>pm_active_firmware := md\<rparr>" using assms(1) s o Some by (simp add: populate_active_meta_def Let_def)
    then show ?thesis using read [of md] Some g by auto
  qed
qed

lemma populate_flash_reads:
  assumes "populate_flash_meta E A dev s m = Inr (s', m')" "pm_flash_image m = None"
  shows "\<exists>r. m' = m\<lparr>pm_flash_image := r\<rparr> \<and> flash_read_image E A dev r"
proof -
  obtain cL u where s: "s = (cL, u)" by (cases s)
  obtain cL' flash where o: "io_open_flash (ma_flash A) dev True cL = Inr (cL', flash)"
    using assms(1) s by (auto simp: populate_flash_meta_def run_bind_Inr_iff)
  have same: "m = m\<lparr>pm_flash_image := None\<rparr>" using assms(2) by (cases m) simp
  have read: "flash_read_image E A dev r" if "(case flash of
         None \<Rightarrow> r = None
       | Some (n, h) \<Rightarrow> \<exists>u u1 page. io_read (flash_io (E h) True) u 0 256 = (u1, page) \<and>
           (if (\<exists>bs. page = Some bs \<and> set bs \<subseteq> {0xFF}) then r = None
            else \<exists>u2. image_read (proto (E h)) (ma_calloc A) (ma_malloc A) (flash_io (E h) True) u1 = Inr (u2, r)))" for r
    unfolding flash_read_image_def using o that by (intro exI conjI)
  show ?thesis
  proof (cases flash)
    case None
    then have "m' = m" using assms(1) s o by (simp add: populate_flash_meta_def)
    then show ?thesis using same read [of None] None by auto
  next
    case (Some f)
    obtain n h where f: "f = (n, h)" by (cases f)
    obtain u1 page where g: "io_read (flash_io (E h) True) u 0 256 = (u1, page)" by (cases "io_read (flash_io (E h) True) u 0 256")
    have e: "is_empty_flash (flash_io (E h) True) u = (u1, \<exists>bs. page = Some bs \<and> set bs \<subseteq> {0xFF})"
      using g by (auto simp: is_empty_flash_def list_all_iff split: option.split)
    show ?thesis
    proof (cases "\<exists>bs. page = Some bs \<and> set bs \<subseteq> {0xFF}")
      case True
      then have "m' = m" using assms(1) s o Some f e by (auto simp: populate_flash_meta_def run_bind_Inr_iff Let_def)
      moreover have "flash_read_image E A dev None"
      proof (rule read)
        show "case flash of None \<Rightarrow> None = None
         | Some (n, h) \<Rightarrow> \<exists>u u1 page. io_read (flash_io (E h) True) u 0 256 = (u1, page) \<and>
           (if (\<exists>bs. page = Some bs \<and> set bs \<subseteq> {0xFF}) then None = None
            else \<exists>u2. image_read (proto (E h)) (ma_calloc A) (ma_malloc A) (flash_io (E h) True) u1 = Inr (u2, None))"
          unfolding Some f option.case prod.case using g True by (intro exI conjI) auto
      qed
      ultimately show ?thesis using same by metis
    next
      case False
      then obtain u2 r where r: "image_read (proto (E h)) (ma_calloc A) (ma_malloc A) (flash_io (E h) True) u1 = Inr (u2, r)"
          "m' = m\<lparr>pm_flash_image := r\<rparr>"
        using assms(1) s o Some f e by (auto simp: populate_flash_meta_def run_bind_Inr_iff Let_def split: if_splits)
      have "flash_read_image E A dev r"
      proof (rule read)
        show "case flash of None \<Rightarrow> r = None
         | Some (n, h) \<Rightarrow> \<exists>u u1 page. io_read (flash_io (E h) True) u 0 256 = (u1, page) \<and>
           (if (\<exists>bs. page = Some bs \<and> set bs \<subseteq> {0xFF}) then r = None
            else \<exists>u2. image_read (proto (E h)) (ma_calloc A) (ma_malloc A) (flash_io (E h) True) u1 = Inr (u2, r))"
          unfolding Some f option.case prod.case if_not_P [OF False] using g r(1) False by (intro exI conjI) auto
      qed
      then show ?thesis using r(2) by blast
    qed
  qed
qed

lemma queryable_types:
  "queryable I d \<longleftrightarrow> identify_device I d = DEVTYPE_PG2SDR \<or> identify_device I d = DEVTYPE_AIRSPYMINI \<or> identify_device I d = DEVTYPE_PROTOTYPE"
  by (auto simp: queryable_def identify_device_def DEVTYPE_PG2SDR_def DEVTYPE_AIRSPYMINI_def DEVTYPE_PROTOTYPE_def
    DEVTYPE_RECOVERY_def DEVTYPE_OTHER_def)

lemma meta_query_reads:
  assumes "meta_query E S I (A (fst d)) d s = Inr (s', Some m)"
  shows "report_of E S I A d m"
proof -
  obtain c L u where s: "s = ((c, L), u)" by (metis prod.collapse)
  obtain L1 n where a: "alloc L = (L1, Some n)"
    using assms s by (auto simp: meta_query_def split: prod.splits option.splits)
  obtain L2 port where p: "strdup_ports (snd d) L1 = Inr (L2, port)"
    using assms s a by (auto simp: meta_query_def run_bind_Inr_iff)
  have port: "snd q = device_path (snd d)" if "ports_documented (snd d)" "port = Some q" for q
    using strdup_ports_path [OF that(1), of L1] p that(2) by (cases "alloc L1"; cases port) (auto simp: strdup_def map_option_case split: option.splits)
  define m0 where "m0 = \<lparr>pm_block = n, pm_port = port, pm_device_type = identify_device I (snd d), pm_serial = None,
    pm_active_firmware = None, pm_status = None, pm_flash_image = None\<rparr>"
  show ?thesis
  proof (cases "queryable I (snd d)")
    case False
    then have "m = m0" using assms s a p by (auto simp: meta_query_def queryable_types m0_def Let_def)
    then show ?thesis using False port by (auto simp: report_of_def m0_def)
  next
    case True
    obtain L3 serial where ser: "strdup_serial (snd d) L2 = (L3, serial)" by (cases "strdup_serial (snd d) L2")
    obtain s1 m1 s2 m2 where
        q: "populate_status E S (ma_status (A (fst d))) (fst d) ((c, L3), u) (m0\<lparr>pm_serial := serial\<rparr>) = Inr (s1, m1)"
          "populate_active_meta E (ma_active (A (fst d))) (fst d) s1 m1 = Inr (s2, m2)"
          "populate_flash_meta E (A (fst d)) (fst d) s2 m2 = Inr (s', m)"
      using assms s a p ser True [unfolded queryable_types]
      by (auto simp: meta_query_def m0_def run_bind_Inr_iff Let_def)
    obtain r1 where r1: "m1 = m0\<lparr>pm_serial := serial, pm_status := r1\<rparr>" "status_read E S (ma_status (A (fst d))) (fst d) r1"
      using populate_status_reads [OF q(1)] by (auto simp: m0_def)
    obtain r2 where r2: "m2 = m1\<lparr>pm_active_firmware := r2\<rparr>" "active_read E (ma_active (A (fst d))) (fst d) r2"
      using populate_active_reads [OF q(2)] r1(1) by (auto simp: m0_def)
    obtain r3 where r3: "m = m2\<lparr>pm_flash_image := r3\<rparr>" "flash_read_image E (A (fst d)) (fst d) r3"
      using populate_flash_reads [OF q(3)] r1(1) r2(1) by (auto simp: m0_def)
    have "snd x = serial_string (snd d)" if "serial = Some x" for x
      using ser that by (cases "alloc L2") (auto simp: strdup_serial_def strdup_def)
    then show ?thesis using True port r1 r2 r3 by (auto simp: report_of_def m0_def)
  qed
qed

text \<open>One query after the other, on the state the one before left.\<close>

fun query_all ::
  "(nat \<Rightarrow> 'u usb_env) \<Rightarrow> status_bits \<Rightarrow> usb_ids \<Rightarrow> (nat \<Rightarrow> meta_answers) \<Rightarrow> (usb_cache \<times> ledger) \<times> 'u \<Rightarrow> (nat \<times> bus_device) list \<Rightarrow>
   (((usb_cache \<times> ledger) \<times> 'u) \<times> port_metadata option list) run" where
  "query_all E S I A s [] = Inr (s, [])"
| "query_all E S I A s (d # ds) =
    run_bind (meta_query E S I (A (fst d)) d s) (\<lambda>(((c, L), u), m).
      run_bind (meta_free m L) (\<lambda>L.
        run_bind (query_all E S I A ((c, L), u) ds) (\<lambda>(s, ms). Inr (s, m # ms))))"

lemma query_all_reads:
  "query_all E S I A s ds = Inr (s', ms) \<Longrightarrow> list_all2 (\<lambda>d m. \<forall>r. m = Some r \<longrightarrow> report_of E S I A d r) ds ms"
proof (induction ds arbitrary: s ms)
  case (Cons d ds)
  then obtain c L u m s1 ms' where q: "meta_query E S I (A (fst d)) d s = Inr (((c, L), u), m)"
      "query_all E S I A s1 ds = Inr (s', ms')" "ms = m # ms'"
    by (fastforce simp: run_bind_Inr_iff)
  then show ?case using Cons.IH [OF q(2)] meta_query_reads by fastforce
qed simp

definition answered :: "'a option list \<Rightarrow> 'a list" where
  "answered ms = concat (map (\<lambda>m. case m of None \<Rightarrow> [] | Some x \<Rightarrow> [x]) ms)"

lemma answered_simps [simp]: "answered [] = []" "answered (None # ms) = answered ms" "answered (Some x # ms) = x # answered ms"
  by (simp_all add: answered_def)

subsection \<open>The reports\<close>

lemma device_info_loop:
  assumes "run_foldl (show_device_info E S B sg I A True) (s, js, errors) devs = Inr (s', js', errors')"
  shows "\<exists>ms. query_all E S I A s devs = Inr (s', ms) \<and>
    js' = foldl (\<lambda>st m. write_json sg (port_value B m) st) js (answered ms) \<and> errors' = (errors \<or> None \<in> set ms)"
  using assms
proof (induction devs arbitrary: s js errors)
  case Nil
  then show ?case by simp
next
  case (Cons d devs)
  obtain s1 js1 e1 where step: "show_device_info E S B sg I A True (s, js, errors) d = Inr (s1, js1, e1)"
      and rest: "run_foldl (show_device_info E S B sg I A True) (s1, js1, e1) devs = Inr (s', js', errors')"
    using Cons.prems by (auto simp: run_bind_Inr_iff)
  obtain ms where ms: "query_all E S I A s1 devs = Inr (s', ms)"
      "js' = foldl (\<lambda>st m. write_json sg (port_value B m) st) js1 (answered ms)" "errors' = (e1 \<or> None \<in> set ms)"
    using Cons.IH [OF rest] by blast
  obtain c L u r where q: "meta_query E S I (A (fst d)) d s = Inr (((c, L), u), r)"
    using step by (auto simp: show_device_info_def run_bind_Inr_iff)
  show ?case
  proof (cases r)
    case None
    then have "js1 = js" "e1" "s1 = ((c, L), u)" using step q by (auto simp: show_device_info_def)
    then show ?thesis using ms q None by (simp add: meta_free_def)
  next
    case (Some m)
    obtain st L' where st: "json_port_metadata sg B m js = Inr st" "meta_free (Some m) L = Inr L'"
        "s1 = ((c, L'), u)" "js1 = st" "e1 = errors"
      using step q Some by (auto simp: show_device_info_def run_bind_Inr_iff)
    then have "pm_port m \<noteq> None" by (cases "pm_port m") (simp_all add: json_port_metadata_def)
    then have "js1 = write_json sg (port_value B m) js" using st json_port_value [of m sg B js] by simp
    then show ?thesis using ms q Some st by simp
  qed
qed

lemma report_array:
  assumes "\<forall>m \<in> set ms. readable_report sg m"
  shows "parse_json (json_file (json_end_array (foldl (\<lambda>st m. write_json sg (port_value B m) st) (json_start_array json_set_output) ms)))
    = Some (JArray (map (port_value B) ms))"
proof -
  have "json_end_array (foldl (\<lambda>st m. write_json sg (port_value B m) st) (json_start_array json_set_output) ms) =
      write_json sg (JArray (map (port_value B) ms)) json_set_output"
    by (simp add: foldl_map)
  moreover have "readable sg (JArray (map (port_value B) ms))" using assms readable_port_value by auto
  ultimately show ?thesis using written_parses by metis
qed


definition demo_boot_modes :: boot_modes where
  "demo_boot_modes = \<lparr>bm_flash = 0, bm_load_image = 1, bm_recovery = 2\<rparr>"

definition demo_meta_env :: "unit usb_env" where
  "demo_meta_env = \<lparr>libusb_control_transfer = (\<lambda>u s. (u, uint (wLength s), replicate (unat (wLength s)) 0x11)), lu = libusb_1_0, proto = sample_protocol\<rparr>"

definition demo_status_bits :: status_bits where
  "demo_status_bits = \<lparr>STATUS_SW1_USBBOOT = 1, STATUS_RF_POWER_ON = 2, STATUS_HSADC_RUN = 4, STATUS_IS_PG2SDR = 16\<rparr>"

definition demo_meta_answers :: "nat \<Rightarrow> meta_answers" where
  "demo_meta_answers i = \<lparr>ma_status = answer_with (Inr (10 + i)) (Inr 1), ma_active = answer_with (Inl (-4)) (Inr 1),
     ma_flash = answer_with (Inl (-4)) (Inr 1), ma_calloc = True, ma_malloc = True\<rparr>"

lemma demo_status: "\<exists>st. ctrl_get_status demo_meta_env () False 0 = ((), PG2SDR_SUCCESS, Some st) \<and> st_field st ST_flags = 0x11111111"
proof -
  have "case ctrl_get_status demo_meta_env () False 0 of (u, e, Some st) \<Rightarrow> e = PG2SDR_SUCCESS \<and> st_field st ST_flags = 0x11111111 | _ \<Rightarrow> False"
    by code_simp
  then show ?thesis by (auto split: prod.splits option.splits)
qed

definition demo_target :: bus_device where "demo_target = demo_bus ! 0"

lemma demo_target_facts:
  "strdup_ports demo_target L = Inr (strdup ''1-4.11'' L)" "strdup_serial demo_target L = strdup ''0002'' L"
  "identify_device demo_ids demo_target = DEVTYPE_PG2SDR"
proof -
  have "ports_documented demo_target" using demo_documented by (simp add: demo_target_def demo_bus_def)
  then show "strdup_ports demo_target L = Inr (strdup ''1-4.11'' L)" using strdup_ports_path [of demo_target L] demo_path by (simp add: demo_target_def)
  show "strdup_serial demo_target L = strdup ''0002'' L" by (simp add: strdup_serial_def serial_string_def demo_target_def demo_bus_def)
  show "identify_device demo_ids demo_target = DEVTYPE_PG2SDR" by (simp add: identify_device_def demo_ids_def demo_target_def demo_bus_def)
qed

text \<open>One device on the bus: its status is read, the other opens fail.\<close>

definition demo_found :: ledger where
  "demo_found = (demo_ledger (\<lambda>_. True))\<lparr>live := {0, 1, 2, 3}, next_id := 4, refs := (\<lambda>i. if i = 0 then 1 else 0)\<rparr>"

definition demo_report :: port_metadata where
  "demo_report = \<lparr>pm_block = 4, pm_port = Some (5, ''1-4.11''), pm_device_type = DEVTYPE_PG2SDR, pm_serial = Some (6, ''0002''),
     pm_active_firmware = None, pm_status = Some (True, False, False, ''pg2sdr''), pm_flash_image = None\<rparr>"

lemma demo_search:
  "discover_matching libusb_1_0 demo_ids (\<lambda>x. x) (Inr [demo_target]) (Some demo_ctx) True None None
      (DEVTYPE_PG2SDR OR DEVTYPE_AIRSPYMINI OR DEVTYPE_PROTOTYPE OR DEVTYPE_RECOVERY) (demo_ledger (\<lambda>_. True)) =
    Inr (demo_found, Inr (0, [\<lparr>ud_block = 3, ud_serial = (1, ''0002''), ud_ports = (2, ''1-4.11''), ud_lu = 0\<rparr>]))"
  by (simp add: discover_matching_def demo_ctx_ok demo_target_facts strdup_def alloc_def demo_found_def demo_ledger_def matches_def
    ref_device_def Let_def DEVTYPE_PG2SDR_def DEVTYPE_AIRSPYMINI_def DEVTYPE_PROTOTYPE_def DEVTYPE_RECOVERY_def fun_eq_iff
    eval_nat_numeral insert_commute)

lemma demo_query:
  "\<exists>c L. meta_query (\<lambda>_. demo_meta_env) demo_status_bits demo_ids (demo_meta_answers 0) (0, demo_target) ((empty_cache, demo_found), ()) =
      Inr (((c, L), ()), Some demo_report) \<and> live L = {0, 1, 2, 3, 4, 5, 6} \<and> refs L 0 = 2"
proof -
  obtain st where st: "ctrl_get_status demo_meta_env () False 0 = ((), PG2SDR_SUCCESS, Some st)" "st_field st ST_flags = 0x11111111"
    using demo_status by blast
  show ?thesis
    by (simp add: meta_query_def demo_target_facts strdup_def alloc_def demo_found_def demo_ledger_def populate_status_def
      populate_active_meta_def populate_flash_meta_def io_open_flash_def release_def st cache_eval demo_meta_answers_def empty_cache_def
      demo_report_def demo_status_bits_def hw_type_def Let_def) auto
qed

lemma demo_loop:
  "\<exists>s. query_all (\<lambda>_. demo_meta_env) demo_status_bits demo_ids demo_meta_answers ((empty_cache, demo_found), ()) [(0, demo_target)] =
      Inr (s, [Some demo_report]) \<and> live (snd (fst s)) = {0, 1, 2, 3, 4} \<and> refs (snd (fst s)) 0 = 2"
  using demo_query by (auto simp: meta_free_def release_def demo_report_def)

lemma demo_device_info:
  "\<exists>t out. do_device_info libusb_1_0 (\<lambda>x. x) [demo_target] (Some demo_ctx) (\<lambda>_. demo_meta_env) demo_status_bits demo_boot_modes False demo_ids
     demo_meta_answers None None True ((empty_cache, demo_ledger (\<lambda>_. True)), ()) = Inr (t, out, True)"
proof -
  obtain c L where q: "meta_query (\<lambda>_. demo_meta_env) demo_status_bits demo_ids (demo_meta_answers 0) (0, demo_target) ((empty_cache, demo_found), ()) =
      Inr (((c, L), ()), Some demo_report)" "live L = {0, 1, 2, 3, 4, 5, 6}" "refs L 0 = 2" using demo_query by blast
  show ?thesis
    using q by (simp add: do_device_info_def demo_search show_device_info_def json_port_value demo_report_def meta_free_def release_def
      free_device_list_def free_entry_def unref_device_def Let_def)
qed


end
