(* ===== verification/LoadTool.thy ===== *)
theory LoadTool
  imports FlashTool Reports
begin

section \<open>The load command (cli/pg2-util/load.c)\<close>

text \<open>
  The command sends an image file to the memory of a device, over DFU when the device is in recovery mode and over the
  vendor requests when its firmware runs, after writing into the image how it is going to be started. The parameters are
  those of the write command in theory FlashTool. Closing and the log lines are left out.
\<close>

definition do_load ::
  "protocol \<Rightarrow> boot_modes \<Rightarrow> bool \<Rightarrow> bool \<Rightarrow> 'f firmware_io option \<Rightarrow> 'f \<Rightarrow> 'u usb_env \<Rightarrow> load_env \<Rightarrow> bool \<Rightarrow> u32 \<Rightarrow> 'u \<Rightarrow>
   ('u \<times> bool) run" where
  "do_load P B calloc_ok malloc_ok file_obj fs E R found devtype u =
    (case file_obj of
       None \<Rightarrow> Inr (u, False)
     | Some fio \<Rightarrow> run_bind (image_read P calloc_ok malloc_ok fio fs) (\<lambda>(fs, r). case r of
           None \<Rightarrow> Inr (u, False)
         | Some img \<Rightarrow>
             if \<not> found then Inr (u, False)
             else if devtype = DEVTYPE_RECOVERY
             then run_bind (image_patch_boot_mode P img (bm_recovery B)) (\<lambda>img.
                let (u, new_dev) = dfu_load E R (take (load_size img) (image_bytes img)) u in Inr (u, new_dev \<noteq> None))
             else if devtype = DEVTYPE_PG2SDR \<or> devtype = DEVTYPE_AIRSPYMINI \<or> devtype = DEVTYPE_PROTOTYPE
             then run_bind (image_patch_boot_mode P img (bm_load_image B)) (\<lambda>img.
                let (u, new_dev) = mem_load E R (take (load_size img) (image_bytes img)) u in Inr (u, new_dev \<noteq> None))
             else Inr (u, False)))"

subsection \<open>Patching the boot mode\<close>

definition boot_mode_bytes :: "protocol \<Rightarrow> firmware_image \<Rightarrow> nat set" where
  "boot_mode_bytes P img =
    (if md_version (img_metadata img) < 0x00090700 \<or> raw_metadata_size img < meta_0970_size P then {}
     else case raw_metadata img of None \<Rightarrow> {} | Some raw \<Rightarrow> {raw + off_boot_mode P, raw + off_boot_mode P + 1})"

text \<open>An image with its metadata in place has only the two bytes changed.\<close>

lemma patch_boot_mode_ok:
  assumes ok: "image_ok P content img" "\<not> strays (header_load_size (image_bytes img)) (image_bytes img)"
    and lay: "off_boot_mode P + 2 \<le> meta_0970_size P"
  shows "\<exists>img'. image_patch_boot_mode P img mode = Inr img' \<and> load_size img' = load_size img \<and> length (image_bytes img') = image_size img \<and>
    boot_mode_bytes P img \<subseteq> {16..<load_size img} \<and>
    (\<forall>x < image_size img. image_bytes img' ! x =
       (if x \<notin> boot_mode_bytes P img then content x else if x - 1 \<in> boot_mode_bytes P img then ucast (drop_bit 8 mode) else ucast mode))"
proof -
  have b: "image_bytes img = map content [0..<image_size img]" "image_size img = load_size img + 16"
      "case raw_metadata img of None \<Rightarrow> raw_metadata_size img = 0 | Some raw \<Rightarrow> 16 \<le> raw \<and> raw + raw_metadata_size img \<le> load_size img"
    using ok unfolding image_ok_def by blast+
  show ?thesis
  proof (cases "md_version (img_metadata img) < 0x00090700 \<or> raw_metadata_size img < meta_0970_size P")
    case True
    then show ?thesis using b by (simp add: image_patch_boot_mode_def boot_mode_bytes_def)
  next
    case False
    then obtain raw where raw: "raw_metadata img = Some raw" "16 \<le> raw" "raw + raw_metadata_size img \<le> load_size img"
      using b(3) lay by (cases "raw_metadata img") auto
    define k where "k = raw + off_boot_mode P"
    have k: "16 \<le> k" "k + 2 \<le> load_size img" using raw False lay by (simp_all add: k_def)
    have m: "boot_mode_bytes P img = {k, k + 1}" using False raw(1) by (simp add: boot_mode_bytes_def k_def)
    define bs where "bs = take k (image_bytes img) @ le_bytes 2 mode @ drop (k + 2) (image_bytes img)"
    have p: "image_patch_boot_mode P img mode =
        Inr (img\<lparr>img_metadata := (img_metadata img)\<lparr>md_boot_mode := mode\<rparr>, image_bytes := bs\<rparr>)"
      using False raw(1) k b(1,2) by (simp add: image_patch_boot_mode_def Let_def k_def [symmetric] bs_def)
    have kn: "k + 2 \<le> image_size img" using k b(2) by simp
    have e: "le_bytes 2 mode = [ucast mode, ucast (drop_bit 8 mode)]" by (simp add: numeral_2_eq_2)
    have l: "length bs = image_size img" using k b by (simp add: bs_def)
    have "bs ! x = (if x \<notin> {k, k + 1} then content x else if x - 1 \<in> {k, k + 1} then ucast (drop_bit 8 mode) else ucast mode)"
      if "x < image_size img" for x
    proof -
      consider "x < k" | "x = k" | "x = k + 1" | "k + 2 \<le> x" by linarith
      then show ?thesis
        using that kn k(1) le_add_diff_inverse [of "k + 2" x] unfolding bs_def e b(1) by cases (auto simp: nth_append nth_Cons' numeral_2_eq_2)
    qed
    then show ?thesis using p l k m by auto
  qed
qed

lemma patch_keeps:
  "image_patch_boot_mode P img mode = Inr img' \<Longrightarrow> load_size img' = load_size img \<and> length (image_bytes img') = length (image_bytes img)"
  by (auto simp: image_patch_boot_mode_def Let_def split: if_splits option.splits)

subsection \<open>What the device has received\<close>

definition load_mode :: "boot_modes \<Rightarrow> u32 \<Rightarrow> u16" where
  "load_mode B devtype = (if devtype = DEVTYPE_RECOVERY then bm_recovery B else bm_load_image B)"

definition loaded_bytes :: "protocol \<Rightarrow> (nat \<Rightarrow> u8) \<Rightarrow> firmware_image \<Rightarrow> u16 \<Rightarrow> u8 list \<Rightarrow> bool" where
  "loaded_bytes P content img mode sent \<longleftrightarrow> length sent = load_size img \<and>
     (\<not> strays (header_load_size (image_bytes img)) (image_bytes img) \<longrightarrow>
        boot_mode_bytes P img \<subseteq> {16..<load_size img} \<and>
        (\<forall>x < load_size img. sent ! x =
           (if x \<notin> boot_mode_bytes P img then content x else if x - 1 \<in> boot_mode_bytes P img then ucast (drop_bit 8 mode) else ucast mode)))"

text \<open>C18: when the load command reports success, the file was a valid image, a device was found, and the device has received
  the image's load part: over DFU as consecutive blocks from number 0 ended by an empty one, or over the vendor requests byte for byte.
  What it received are the bytes of the file except for the two of the boot mode, which tell it how it is started, and those
  only where the metadata has them. The only fault is the one of the malformed images that stray out of bounds.\<close>

theorem load_delivers:
  assumes fileio: "flash_reader fio content flimit" "65568 \<le> flimit" and lay: "meta_layout P" and dev: "loading_device E ram blocks"
  shows "case do_load P B c m (Some fio) fs E R found devtype u of
      Inl f \<Rightarrow> strays (header_load_size (map (content fs) [0..<16])) (map (content fs) [0..<32 + header_load_size (map (content fs) [0..<16])])
    | Inr (u', ok) \<Rightarrow>
        ok \<longrightarrow> (\<exists>img sent. found \<and> image_ok P (content fs) img \<and> loaded_bytes P (content fs) img (load_mode B devtype) sent \<and>
          (if devtype = DEVTYPE_RECOVERY
           then \<exists>new. blocks u' = blocks u @ new \<and> concat (map snd new) = sent \<and> map fst new = [0..<length new] \<and> new \<noteq> [] \<and> snd (last new) = []
           else \<forall>x < length sent. ram u' x = sent ! x))"
proof (cases "image_read P c m fio fs")
  case (Inl f)
  then show ?thesis using flash_reader.image_read_result [OF fileio lay, where c = c and m = m and s = fs]
    by (simp add: do_load_def)
next
  case (Inr q)
  obtain fs' r where q: "q = (fs', r)" by (cases q)
  show ?thesis
  proof (cases "r = None \<or> \<not> found")
    case True
    then show ?thesis using Inr q by (auto simp: do_load_def split: option.splits)
  next
    case False
    then obtain img where img: "r = Some img" and f: found by auto
    have iok: "image_ok P (content fs) img"
      using flash_reader.image_read_result [OF fileio lay, where c = c and m = m and s = fs] Inr q img by simp
    have ib: "image_bytes img = map (content fs) [0..<image_size img]" "image_size img = load_size img + 16"
        "load_size img = 16 + header_load_size (image_bytes img)" "image_size img \<le> 65056"
      using iok unfolding image_ok_def by blast+
    define mode where "mode = (if devtype = DEVTYPE_RECOVERY then bm_recovery B else bm_load_image B)"
    have hl: "header_load_size (map (content fs) [0..<16]) = header_load_size (image_bytes img)"
    proof -
      have "take 16 (image_bytes img) = map (content fs) [0..<16]" unfolding ib(1) using ib(2) by (simp add: take_map take_upt)
      then show ?thesis by (metis header_take(2))
    qed
    have whole: "map (content fs) [0..<32 + header_load_size (image_bytes img)] = image_bytes img"
    proof -
      have "image_size img = 32 + header_load_size (image_bytes img)" using ib(2,3) by simp
      then show ?thesis using ib(1) by metis
    qed
    have lay': "off_boot_mode P + 2 \<le> meta_0970_size P" using lay by (simp add: meta_layout_def meta_0970_size_def)
    have len: "length (image_bytes img) = image_size img" using arg_cong [OF ib(1), of length] by simp
    show ?thesis
    proof (cases "image_patch_boot_mode P img mode")
      case (Inl e)
      then have "strays (header_load_size (image_bytes img)) (image_bytes img)"
        using patch_boot_mode_ok [OF iok _ lay', of mode] by fastforce
      then show ?thesis using Inr q img f Inl by (auto simp: do_load_def hl whole mode_def)
    next
      case p: (Inr img')
      define sent where "sent = take (load_size img') (image_bytes img')"
      have ls: "length sent = load_size img" using patch_keeps [OF p] len ib(2) by (simp add: sent_def)
      have bytes: "loaded_bytes P (content fs) img (load_mode B devtype) sent"
        using patch_boot_mode_ok [OF iok _ lay', of mode] p ls ib(2) by (auto simp: loaded_bytes_def load_mode_def mode_def [symmetric] sent_def)
      have small: "length sent < 65536" using ls ib(2,4) by simp
      consider "devtype = DEVTYPE_RECOVERY" | "devtype \<noteq> DEVTYPE_RECOVERY" "devtype = DEVTYPE_PG2SDR \<or> devtype = DEVTYPE_AIRSPYMINI \<or> devtype = DEVTYPE_PROTOTYPE"
        | "devtype \<noteq> DEVTYPE_RECOVERY" "\<not> (devtype = DEVTYPE_PG2SDR \<or> devtype = DEVTYPE_AIRSPYMINI \<or> devtype = DEVTYPE_PROTOTYPE)" by blast
      then show ?thesis
      proof cases
        case 1
        obtain u1 nd where l: "dfu_load E R sent u = (u1, nd)" by fastforce
        have r: "do_load P B c m (Some fio) fs E R found devtype u = Inr (u1, nd \<noteq> None)"
          using Inr q img f p 1 l by (simp add: do_load_def mode_def sent_def)
        have d: "\<exists>new. blocks u1 = blocks u @ new \<and> concat (map snd new) = sent \<and> map fst new = [0..<length new] \<and> new \<noteq> [] \<and> snd (last new) = []"
          if "nd \<noteq> None" using loading_device.dfu_load_ok [OF dev _ small] l that by blast
        show ?thesis unfolding r using 1 f iok bytes d by (simp, blast)
      next
        case 2
        obtain u1 nd where l: "mem_load E R sent u = (u1, nd)" by fastforce
        have r: "do_load P B c m (Some fio) fs E R found devtype u = Inr (u1, nd \<noteq> None)"
          using Inr q img f p 2 l by (auto simp: do_load_def mode_def sent_def)
        have d: "\<forall>x < length sent. ram u1 x = sent ! x" if "nd \<noteq> None"
          using loading_device.mem_load_ok [OF dev _ less_imp_le [OF small]] l that by blast
        show ?thesis unfolding r using 2(1) f iok bytes d by (simp, blast)
      next
        case 3
        then have "do_load P B c m (Some fio) fs E R found devtype u = Inr (u, False)"
          using Inr q img f by (auto simp: do_load_def)
        then show ?thesis by simp
      qed
    qed
  qed
qed

lemma load_sim_blocks: "snd (dfu_blocks load_sim fw block off u)"
proof (induction "length fw - off" arbitrary: block off u rule: less_induct)
  case less
  show ?case
  proof (cases "off < length fw")
    case True
    then have "length fw - (off + min (length fw - off) 2048) < length fw - off" by auto
    then show ?thesis using less True
      by (cases u; subst dfu_blocks.simps)
        (auto simp: dfu_ctrl_download_def dfu_ctrl_get_status_def dfu_setup_def load_sim_def DFU_BLOCK_SIZE_def DFU_DOWNLOAD_IDLE_def Let_def)
  next
    case False
    then show ?thesis by (cases u; subst dfu_blocks.simps) (auto simp: dfu_ctrl_download_def dfu_setup_def load_sim_def)
  qed
qed

lemma load_sim_loads: "snd (dfu_load load_sim load_ok fw u) = Some 7"
proof -
  obtain u1 where u1: "dfu_blocks load_sim fw 0 0 u = (u1, True)" using load_sim_blocks [of fw 0 0 u] by (metis prod.collapse)
  have "snd (dfu_manifest load_sim u1)"
    by (cases u1) (simp add: dfu_manifest_def dfu_ctrl_get_status_def dfu_setup_def load_sim_def)
  then show ?thesis by (simp add: dfu_load_def load_ok_def dfu_download_bytes_def u1 split_beta)
qed

theorem load_delivers_witness:
  "\<exists>u' img sent new. do_load sample_protocol demo_boot_modes True True (Some (file_io (pread_of (small_image 0)))) () load_sim load_ok True
      DEVTYPE_RECOVERY (\<lambda>_. 0, []) = Inr (u', True) \<and> image_ok sample_protocol (\<lambda>x. small_image 0 ! x) img \<and>
    length sent = load_size img \<and> snd u' = new \<and> concat (map snd new) = sent"
proof -
  obtain img where img: "image_read sample_protocol True True (file_io (pread_of (small_image 0))) () = Inr ((), Some img)" "image_size img = 544"
    using small_image_accepted by blast
  have iok: "image_ok sample_protocol (\<lambda>x. small_image 0 ! x) img"
    using flash_reader.image_read_result [OF image_file.contents.flash_reader_axioms [of "small_image 0" 65568] order_refl sample_layout,
        where c = True and m = True and s = "()"] img(1) by simp
  then have b: "image_bytes img = small_image 0"
    using map_nth [of "small_image 0"] img(2) image_body_ok(3) [of 0] by (simp add: image_ok_def)
  have "\<not> strays (header_load_size (image_bytes img)) (image_bytes img)"
    by (simp add: strays_def b image_body_ok)
  from patch_boot_mode_ok [OF iok this, of "bm_recovery demo_boot_modes"] obtain img' where p: "image_patch_boot_mode sample_protocol img (bm_recovery demo_boot_modes) = Inr img'"
    by (auto simp: sample_protocol_def meta_0970_size_def)
  obtain u' where "dfu_load load_sim load_ok (take (load_size img') (image_bytes img')) (\<lambda>_. 0, []) = (u', Some 7)"
    using load_sim_loads [of "take (load_size img') (image_bytes img')" "(\<lambda>_. 0, [])"] by (metis prod.collapse)
  then have r: "do_load sample_protocol demo_boot_modes True True (Some (file_io (pread_of (small_image 0)))) () load_sim load_ok True
      DEVTYPE_RECOVERY (\<lambda>_. 0, []) = Inr (u', True)"
    using img(1) p by (simp add: do_load_def)
  show ?thesis
    using load_delivers [OF image_file.contents.flash_reader_axioms [of "small_image 0" 65568] order_refl sample_layout load_sim.loading_device_axioms,
        where B = demo_boot_modes and c = True and m = True and fs = "()" and R = load_ok and found = True and devtype = DEVTYPE_RECOVERY
          and u = "(\<lambda>_. 0, [])"] r by (auto simp: loaded_bytes_def)
qed

end
