(* ===== verification/Blink.thy ===== *)
theory Blink
  imports PgPrelude
begin

section \<open>LED patterns (cli/pg2-util/blink.c)\<close>

text \<open>
  The pattern of the \<open>blink\<close> command: groups of four characters, one for each quarter of a second, are packed into
  five bits each, the first group lowest, and the word is rotated by whole groups until its top group is not zero. The rotation
  is a loop that ends only when it finds such a group, hence a partial function.
\<close>

definition rf_led :: "char \<Rightarrow> u32" where
  "rf_led c = (if c = CHR ''y'' \<or> c = CHR ''Y'' then 0x10 else 0)"

definition bicolor1 :: "char \<Rightarrow> u32" where
  "bicolor1 c =
    (if c = CHR ''y'' \<or> c = CHR ''Y'' then 0x0C
     else if c = CHR ''g'' \<or> c = CHR ''G'' then 0x08
     else if c = CHR ''r'' \<or> c = CHR ''R'' then 0x04 else 0)"

definition bicolor2 :: "char \<Rightarrow> u32" where
  "bicolor2 c =
    (if c = CHR ''y'' \<or> c = CHR ''Y'' then 0x03
     else if c = CHR ''g'' \<or> c = CHR ''G'' then 0x02
     else if c = CHR ''r'' \<or> c = CHR ''R'' then 0x01 else 0)"

definition led_group :: "string \<Rightarrow> nat \<Rightarrow> u32" where
  "led_group p i = rf_led (p ! (i * 4)) OR bicolor1 (p ! (i * 4 + 1)) OR bicolor2 (p ! (i * 4 + 2))"

definition pack_groups :: "string \<Rightarrow> nat \<Rightarrow> u32" where
  "pack_groups p n = foldl (\<lambda>result i. push_bit 5 result OR led_group p i) 0 (rev [0..<n])"

partial_function (option) rotate_up :: "nat \<Rightarrow> u32 \<Rightarrow> u32 option" where
  "rotate_up shift result =
    (if result AND push_bit shift 0x1F = 0
     then rotate_up shift (drop_bit 5 result OR push_bit shift (result AND 0x1F))
     else Some result)"

definition parse_pattern :: "string \<Rightarrow> u32 option" where
  "parse_pattern p =
    (if length p mod 4 \<noteq> 0 then Some 0
     else if 24 < length p then Some 0
     else let n = length p div 4; result = pack_groups p n
          in if result = 0 then Some 0 else rotate_up ((n - 1) * 5) result)"

subsection \<open>Words as lists of groups\<close>

text \<open>\<open>w\<close> holds the five-bit groups \<open>gs\<close>, the first lowest.\<close>

definition holds :: "u32 list \<Rightarrow> u32 \<Rightarrow> bool" where
  "holds gs w \<longleftrightarrow> (\<forall>n. bit w n \<longleftrightarrow> n < 5 * length gs \<and> bit (gs ! (n div 5)) (n mod 5))"

lemma led_group_small: "bit (led_group p i) n \<Longrightarrow> n < 5"
proof -
  assume "bit (led_group p i) n"
  moreover have "take_bit 5 (led_group p i) = led_group p i"
    by (simp add: led_group_def rf_led_def bicolor1_def bicolor2_def)
  ultimately show "n < 5" by (metis bit_take_bit_iff)
qed

lemma low_group: "w AND 0x1F = take_bit 5 (w :: u32)"
  by (simp add: take_bit_eq_mask mask_eq_exp_minus_1)

lemma holds_Cons:
  assumes "holds gs w" "\<And>n. bit g n \<Longrightarrow> n < 5" "length gs < 6"
  shows "holds (g # gs) (push_bit 5 w OR g)"
  unfolding holds_def
proof
  fix n
  show "bit (push_bit 5 w OR g) n \<longleftrightarrow> n < 5 * length (g # gs) \<and> bit ((g # gs) ! (n div 5)) (n mod 5)"
  proof (cases "n < 5")
    case True
    then show ?thesis by (auto simp: bit_simps)
  next
    case False
    then obtain m where m: "n = m + 5" using le_Suc_ex by (metis add.commute not_less)
    have "(m + 5) div 5 = Suc (m div 5)" "(m + 5) mod 5 = m mod 5" by simp_all
    moreover have "bit (push_bit 5 w OR g) (m + 5) \<longleftrightarrow> m + 5 < 32 \<and> bit w m"
      using assms(2) [of "m + 5"] by (auto simp: bit_simps)
    moreover have "bit w m \<longleftrightarrow> m < 5 * length gs \<and> bit (gs ! (m div 5)) (m mod 5)" using assms(1) by (simp add: holds_def)
    moreover have "m < 5 * length gs \<Longrightarrow> m < 27" using assms(3) by simp
    ultimately show ?thesis unfolding m by auto
  qed
qed

lemma holds_nth: "holds gs w \<Longrightarrow> i < length gs \<Longrightarrow> (\<And>n. bit (gs ! i) n \<Longrightarrow> n < 5) \<Longrightarrow> take_bit 5 (drop_bit (5 * i) w) = gs ! i"
proof (rule bit_word_eqI)
  fix n assume a: "holds gs w" "i < length gs" "\<And>n. bit (gs ! i) n \<Longrightarrow> n < 5" "n < LENGTH(32)"
  have "5 * i + 5 \<le> 5 * length gs" using a(2) by simp
  then have "n < 5 \<Longrightarrow> (5 * i + n) div 5 = i \<and> (5 * i + n) mod 5 = n \<and> 5 * i + n < 5 * length gs" by auto
  then show "bit (take_bit 5 (drop_bit (5 * i) w)) n \<longleftrightarrow> bit (gs ! i) n"
    using a(1,3) by (auto simp: holds_def bit_simps)
qed

lemma bit_rotate_up:
  "s \<le> 27 \<Longrightarrow> bit (drop_bit 5 w OR push_bit s (take_bit 5 w)) n \<longleftrightarrow> bit (w :: u32) (n + 5) \<or> s \<le> n \<and> n < s + 5 \<and> bit w (n - s)"
  by (auto simp: bit_simps add.commute)

lemma holds_rotate1:
  assumes "holds gs w" "gs \<noteq> []" "length gs \<le> 6"
  shows "holds (rotate1 gs) (drop_bit 5 w OR push_bit ((length gs - 1) * 5) (w AND 0x1F))"
proof -
  obtain g hs where gs: "gs = g # hs" using assms(2) by (cases gs) auto
  define s where "s = length hs * 5"
  show ?thesis
    unfolding holds_def low_group gs
  proof
    fix n
    have lo: "bit w n \<longleftrightarrow> n < 5 * Suc (length hs) \<and> bit ((g # hs) ! (n div 5)) (n mod 5)" for n
      using assms(1) by (simp add: holds_def gs)
    have s: "s \<le> 27" "(length (g # hs) - 1) * 5 = s" using assms(3) gs by (simp_all add: s_def)
    have shift: "(n + 5) div 5 = Suc (n div 5)" "(n + 5) mod 5 = n mod 5" by simp_all
    consider "n < s" | k where "n = s + k" "k < 5" | "s + 5 \<le> n" by (metis le_Suc_ex nat_add_left_cancel_less not_less)
    then show "bit (drop_bit 5 w OR push_bit ((length (g # hs) - 1) * 5) (take_bit 5 w)) n \<longleftrightarrow>
      n < 5 * length (rotate1 (g # hs)) \<and> bit (rotate1 (g # hs) ! (n div 5)) (n mod 5)"
      unfolding s(2) bit_rotate_up [OF s(1)] lo shift
    proof cases
      case 1
      then have "n div 5 < length hs" by (simp add: s_def)
      then show "n + 5 < 5 * Suc (length hs) \<and> bit ((g # hs) ! Suc (n div 5)) (n mod 5) \<or>
          s \<le> n \<and> n < s + 5 \<and> n - s < 5 * Suc (length hs) \<and> bit ((g # hs) ! ((n - s) div 5)) ((n - s) mod 5) \<longleftrightarrow>
        n < 5 * length (rotate1 (g # hs)) \<and> bit (rotate1 (g # hs) ! (n div 5)) (n mod 5)"
        using 1 by (simp add: s_def nth_append)
    next
      case 2
      then have "n div 5 = length hs" "n mod 5 = k" by (simp_all add: s_def)
      then show "n + 5 < 5 * Suc (length hs) \<and> bit ((g # hs) ! Suc (n div 5)) (n mod 5) \<or>
          s \<le> n \<and> n < s + 5 \<and> n - s < 5 * Suc (length hs) \<and> bit ((g # hs) ! ((n - s) div 5)) ((n - s) mod 5) \<longleftrightarrow>
        n < 5 * length (rotate1 (g # hs)) \<and> bit (rotate1 (g # hs) ! (n div 5)) (n mod 5)"
        using 2 by (simp add: s_def nth_append)
    qed (simp add: s_def)
  qed
qed

lemma pack_groups_holds: "n \<le> 6 \<Longrightarrow> holds (map (led_group p) [0..<n]) (pack_groups p n)"
proof -
  assume n: "n \<le> 6"
  have "holds (map (led_group p) [k..<n]) (foldl (\<lambda>w i. push_bit 5 w OR led_group p i) 0 (rev [k..<n]))" for k
  proof (induction "n - k" arbitrary: k)
    case (Suc d)
    then have k: "[k..<n] = k # [Suc k..<n]" "n - Suc k < 6" using n by (simp_all add: upt_conv_Cons)
    have "holds (map (led_group p) [Suc k..<n]) (foldl (\<lambda>w i. push_bit 5 w OR led_group p i) 0 (rev [Suc k..<n]))"
      by (rule Suc.hyps(1)) (use Suc.hyps(2) in simp)
    then show ?case using holds_Cons led_group_small k(2) by (simp add: k(1))
  qed (simp add: holds_def)
  then show ?thesis by (simp add: pack_groups_def)
qed

lemma holds_top:
  assumes "holds gs w" "gs \<noteq> []" "length gs \<le> 6" "\<forall>g \<in> set gs. \<forall>n. bit g n \<longrightarrow> n < 5"
  shows "w AND push_bit ((length gs - 1) * 5) 0x1F = 0 \<longleftrightarrow> last gs = 0"
proof -
  define s where "s = (length gs - 1) * 5"
  have s: "s \<le> 27" "5 * (length gs - 1) = s" using assms(2,3) by (cases gs, simp_all add: s_def)
  have top: "take_bit 5 (drop_bit s w) = last gs"
  proof -
    have "gs ! (length gs - 1) \<in> set gs" "length gs - 1 < length gs" using assms(2) by simp_all
    then have "take_bit 5 (drop_bit (5 * (length gs - 1)) w) = gs ! (length gs - 1)"
      using assms(4) by (intro holds_nth [OF assms(1)]) blast+
    then show ?thesis using assms(2) by (simp add: last_conv_nth s_def mult.commute)
  qed
  have "w AND push_bit s 0x1F = push_bit s (take_bit 5 (drop_bit s w))"
    by (rule bit_word_eqI) (use s(1) in \<open>auto simp: bit_simps low_group [symmetric]\<close>)
  moreover have "push_bit s (take_bit 5 (drop_bit s w)) = 0 \<longleftrightarrow> take_bit 5 (drop_bit s w) = 0"
  proof -
    have "bit (push_bit s (take_bit 5 (drop_bit s w))) (s + n) \<longleftrightarrow> bit (take_bit 5 (drop_bit s w)) n" for n
      using s(1) by (auto simp: bit_simps)
    then have "take_bit 5 (drop_bit s w) = 0" if "push_bit s (take_bit 5 (drop_bit s w)) = 0"
      using that by (intro bit_word_eqI) simp
    then show ?thesis by (metis push_bit_of_0)
  qed
  ultimately show ?thesis using top by (simp add: s_def)
qed

lemma rotate_up_holds:
  assumes "holds gs w" "gs \<noteq> []" "length gs \<le> 6" "\<forall>g \<in> set gs. \<forall>n. bit g n \<longrightarrow> n < 5"
    and "last (rotate k gs) \<noteq> 0" "\<forall>j < k. last (rotate j gs) = 0"
  shows "\<exists>r. rotate_up ((length gs - 1) * 5) w = Some r \<and> holds (rotate k gs) r"
  using assms
proof (induction k arbitrary: gs w)
  case 0
  then show ?case using holds_top [OF 0(1-4)] by (subst rotate_up.simps) simp
next
  case (Suc k)
  define v where "v = drop_bit 5 w OR push_bit ((length gs - 1) * 5) (w AND 0x1F)"
  have rot: "rotate (Suc j) gs = rotate j (rotate1 gs)" for j by (simp add: rotate1_rotate_swap)
  have "last gs = 0" using Suc.prems(6) by (force dest: spec [of _ 0])
  then have "rotate_up ((length gs - 1) * 5) w = rotate_up ((length gs - 1) * 5) v"
    using holds_top [OF Suc.prems(1-4)] by (subst rotate_up.simps) (simp add: v_def)
  moreover have "\<exists>r. rotate_up ((length (rotate1 gs) - 1) * 5) v = Some r \<and> holds (rotate k (rotate1 gs)) r"
  proof (rule Suc.IH)
    show "holds (rotate1 gs) v" unfolding v_def by (rule holds_rotate1) (use Suc.prems in simp_all)
    show "\<forall>j < k. last (rotate j (rotate1 gs)) = 0" using Suc.prems(6) rot by (metis Suc_mono)
  qed (use Suc.prems rot in simp_all)
  ultimately show ?case unfolding rot by simp
qed

lemma last_rotate: "i < length gs \<Longrightarrow> last (rotate (Suc i) gs) = gs ! i"
proof -
  assume i: "i < length gs"
  then have "Suc i + (length gs - 1) = i + length gs" by simp
  then have "(Suc i + (length gs - 1)) mod length gs = i" using i by (metis mod_add_self2 mod_less)
  then show ?thesis using i by (subst last_conv_nth) (auto simp del: rotate_Suc simp: nth_rotate)
qed

text \<open>The LED states of a pattern, one five-bit group for each four characters, and those a word stands for when it is read
  from its lowest group up.\<close>

definition pattern_groups :: "string \<Rightarrow> u32 list" where
  "pattern_groups p = map (led_group p) [0..<length p div 4]"

definition word_groups :: "nat \<Rightarrow> u32 \<Rightarrow> u32 list" where
  "word_groups n w = map (\<lambda>i. take_bit 5 (drop_bit (5 * i) w)) [0..<n]"

lemma holds_groups:
  assumes "holds gs w" "\<forall>g \<in> set gs. \<forall>n. bit g n \<longrightarrow> n < 5"
  shows "word_groups (length gs) w = gs"
proof (rule nth_equalityI)
  fix i assume "i < length (word_groups (length gs) w)"
  then have i: "i < length gs" "gs ! i \<in> set gs" by (simp_all add: word_groups_def)
  then show "word_groups (length gs) w ! i = gs ! i"
    using holds_nth [OF assms(1) i(1)] assms(2) unfolding word_groups_def by (metis (no_types, lifting) add_0 diff_zero length_upt nth_map nth_upt)
qed (simp add: word_groups_def)

lemma holds_zero: "holds gs w \<Longrightarrow> length gs \<le> 6 \<Longrightarrow> \<forall>g \<in> set gs. \<forall>n. bit g n \<longrightarrow> n < 5 \<Longrightarrow> w = 0 \<longleftrightarrow> (\<forall>g \<in> set gs. g = 0)"
proof
  assume h: "holds gs w" "\<forall>g \<in> set gs. \<forall>n. bit g n \<longrightarrow> n < 5" and "w = 0"
  then have "word_groups (length gs) 0 = gs" using holds_groups by blast
  then have "gs = replicate (length gs) 0" by (simp add: word_groups_def map_replicate_const)
  then show "\<forall>g \<in> set gs. g = 0" by (metis in_set_replicate)
next
  assume h: "holds gs w" and z: "\<forall>g \<in> set gs. g = 0"
  then have "bit (gs ! (n div 5)) (n mod 5) = False" if "n < 5 * length gs" for n
    using that by (metis bit_0_eq bot_apply div_less_iff_less_mult mult.commute nth_mem zero_less_numeral bot_bool_def)
  then show "w = 0" using h by (intro bit_word_eqI) (auto simp: holds_def)
qed

text \<open>C24: the parser of LED patterns always ends. It refuses (returns 0) exactly the patterns that are not made of at
  most six groups of four characters or light no LED; for any other it returns the groups of the pattern, each read
  from its characters, rotated by the least number of groups that makes the last one light an LED.\<close>

theorem parse_pattern_rotates:
  "if length p mod 4 = 0 \<and> length p \<le> 24 \<and> (\<exists>g \<in> set (pattern_groups p). g \<noteq> 0)
   then \<exists>k r. parse_pattern p = Some r \<and> r \<noteq> 0 \<and> word_groups (length p div 4) r = rotate k (pattern_groups p) \<and>
     last (rotate k (pattern_groups p)) \<noteq> 0 \<and> (\<forall>j < k. last (rotate j (pattern_groups p)) = 0)
   else parse_pattern p = Some 0"
proof (cases "length p mod 4 = 0 \<and> length p \<le> 24")
  case False
  then show ?thesis by (auto simp: parse_pattern_def)
next
  case True
  define gs where "gs = pattern_groups p"
  define w where "w = pack_groups p (length p div 4)"
  have l: "length gs = length p div 4" "length gs \<le> 6" using True by (auto simp: gs_def pattern_groups_def)
  have h: "holds gs w" using pack_groups_holds [of "length p div 4" p] l by (simp add: gs_def w_def pattern_groups_def)
  have small: "\<forall>g \<in> set gs. \<forall>n. bit g n \<longrightarrow> n < 5" using led_group_small by (auto simp: gs_def pattern_groups_def)
  note z = holds_zero [OF h l(2) small]
  show ?thesis
  proof (cases "\<exists>g \<in> set gs. g \<noteq> 0")
    case False
    then have "w = 0" using z by blast
    then show ?thesis using True False by (simp add: parse_pattern_def gs_def w_def)
  next
    case some: True
    then obtain i where i: "i < length gs" "gs ! i \<noteq> 0" by (metis in_set_conv_nth)
    define k where "k = (LEAST k. last (rotate k gs) \<noteq> 0)"
    have k: "last (rotate k gs) \<noteq> 0" unfolding k_def by (rule LeastI [of _ "Suc i"]) (use i last_rotate [OF i(1)] in \<open>simp del: rotate_Suc\<close>)
    have least: "\<forall>j < k. last (rotate j gs) = 0" unfolding k_def using not_less_Least by blast
    have ne: "gs \<noteq> []" using i by auto
    obtain r where r: "rotate_up ((length gs - 1) * 5) w = Some r" "holds (rotate k gs) r"
      using rotate_up_holds [OF h ne l(2) small k least] by blast
    have "word_groups (length gs) r = rotate k gs" using holds_groups [OF r(2)] small by simp
    moreover have "r \<noteq> 0" using holds_zero [OF r(2)] some small l(2) by auto
    moreover have "parse_pattern p = Some r" using True z some r(1) l(1) by (auto simp: parse_pattern_def w_def Let_def)
    moreover have "length p mod 4 = 0 \<and> length p \<le> 24 \<and> (\<exists>g \<in> set (pattern_groups p). g \<noteq> 0)"
      using True some by (simp add: gs_def)
    ultimately show ?thesis using k least by (auto simp: l(1) gs_def [symmetric])
  qed
qed

lemma default_pattern: "parse_pattern ''yyy-000-'' = Some 0x3E0"
  by (simp add: parse_pattern_def pack_groups_def led_group_def rf_led_def bicolor1_def bicolor2_def upt_rec rotate_up.simps)

theorem parse_pattern_rotates_witness:
  "\<exists>k r. parse_pattern ''yyy-000-'' = Some r \<and> r \<noteq> 0 \<and> word_groups 2 r = rotate k [0x1F, 0] \<and> last (rotate k [0x1F, 0 :: u32]) \<noteq> 0"
proof -
  have g: "pattern_groups ''yyy-000-'' = [0x1F, 0]"
    by (simp add: pattern_groups_def led_group_def rf_led_def bicolor1_def bicolor2_def upt_rec)
  have "length ''yyy-000-'' div 4 = 2" by simp
  then show ?thesis using parse_pattern_rotates [of "''yyy-000-''"] unfolding g by auto
qed

end
