(* ===== verification/Hotplug.thy ===== *)
theory Hotplug
  imports Discovery
begin

section \<open>Waiting for new firmware (cli/pg2-util/hotplug.c)\<close>

text \<open>
  A program that starts new firmware registers a callback before, and waits for the device to come back after. The device that comes back is
  known by its bus and port, and failing that by being the first of the right kind anywhere. A device is its number, which counts its
  references in the ledger, and what libusb reports of it. The times and events of each round of the wait are a parameter; the events
  may depend on the timeout the code passes. Log lines are left out.
\<close>

subsection \<open>The callback\<close>

record hotplug_state =
  hp_block :: nat
  hp_completed :: bool
  hp_device :: "(nat \<times> bus_device) option"
  hp_maybe :: "(nat \<times> bus_device) option"
  match_bus :: u8
  match_ports :: "u8 list"

definition same_port :: "hotplug_state \<Rightarrow> bus_device \<Rightarrow> bool" where
  "same_port st d =
    (case port_numbers d of
       Inl e \<Rightarrow> False
     | Inr path \<Rightarrow> path \<noteq> [] \<and> bus_number d = match_bus st \<and> length path = length (match_ports st) \<and> path = match_ports st)"

definition pg2_like :: "usb_ids \<Rightarrow> bus_device \<Rightarrow> bool" where
  "pg2_like I d \<longleftrightarrow> identify_device I d \<in> {DEVTYPE_PG2SDR, DEVTYPE_AIRSPYMINI, DEVTYPE_PROTOTYPE, DEVTYPE_RECOVERY}"

definition hotplug_callback ::
  "usb_ids \<Rightarrow> hotplug_state \<times> ledger \<Rightarrow> nat \<times> bus_device \<Rightarrow> (hotplug_state \<times> ledger) run" where
  "hotplug_callback I sL dev = (case sL of (st, L) \<Rightarrow> case port_numbers (snd dev) of
      Inl e \<Rightarrow> Inr (st, L)
    | Inr [] \<Rightarrow> Inr (st, L)
    | Inr path \<Rightarrow>
        if bus_number (snd dev) = match_bus st \<and> length path = length (match_ports st) \<and> path = match_ports st
        then run_bind (case hp_device st of None \<Rightarrow> Inr L | Some old \<Rightarrow> unref_device (fst old) L)
               (\<lambda>L. Inr (st\<lparr>hp_device := Some dev, hp_completed := True\<rparr>, ref_device (fst dev) L))
        else if pg2_like I (snd dev)
        then (if hp_maybe st = None then Inr (st\<lparr>hp_maybe := Some dev\<rparr>, ref_device (fst dev) L) else Inr (st, L))
        else Inr (st, L))"

definition deliver :: "usb_ids \<Rightarrow> (nat \<times> bus_device) list \<Rightarrow> hotplug_state \<times> ledger \<Rightarrow> (hotplug_state \<times> ledger) run" where
  "deliver I ds sL = run_foldl (hotplug_callback I) sL ds"

subsection \<open>Preparing, waiting, cleaning up\<close>

definition hotplug_prepare :: "bus_device \<Rightarrow> int \<Rightarrow> ledger \<Rightarrow> (ledger \<times> hotplug_state option) run" where
  "hotplug_prepare d usb_error L =
    (case alloc L of
       (L, None) \<Rightarrow> Inr (L, None)
     | (L, Some n) \<Rightarrow>
         (case port_numbers d of
            Inl e \<Rightarrow> run_bind (release (Some n) L) (\<lambda>L. Inr (L, None))
          | Inr path \<Rightarrow>
              if usb_error < 0 then run_bind (release (Some n) L) (\<lambda>L. Inr (L, None))
              else Inr (L, Some \<lparr>hp_block = n, hp_completed = False, hp_device = None, hp_maybe = None,
                     match_bus = bus_number d, match_ports = path\<rparr>)))"

record timeval =
  tv_sec :: int
  tv_usec :: int

text \<open>Times are ordered by seconds, then microseconds.\<close>

instantiation timeval_ext :: (linorder) linorder
begin

definition less_eq_timeval_ext :: "'a timeval_scheme \<Rightarrow> 'a timeval_scheme \<Rightarrow> bool" where
  "less_eq_timeval_ext s t \<longleftrightarrow> tv_sec s < tv_sec t \<or> tv_sec s = tv_sec t \<and>
     (tv_usec s < tv_usec t \<or> tv_usec s = tv_usec t \<and> timeval.more s \<le> timeval.more t)"

definition less_timeval_ext :: "'a timeval_scheme \<Rightarrow> 'a timeval_scheme \<Rightarrow> bool" where
  "less_timeval_ext s t \<longleftrightarrow> s \<le> t \<and> \<not> t \<le> s"

instance
  by standard (auto simp: less_eq_timeval_ext_def less_timeval_ext_def timeval.equality)

end

function normalize :: "timeval \<Rightarrow> timeval" where
  "normalize t = (if 1000000 < tv_usec t then normalize (t\<lparr>tv_sec := tv_sec t + 1, tv_usec := tv_usec t - 1000000\<rparr>) else t)"
  by auto

termination
  by (relation "measure (\<lambda>t. nat (tv_usec t))") auto

declare normalize.simps [simp del]

definition timeout_ms :: nat where "timeout_ms = 3000"

definition deadline_of :: "timeval \<Rightarrow> timeval" where
  "deadline_of now =
    normalize \<lparr>tv_sec = tv_sec now + int (timeout_ms div 1000), tv_usec = tv_usec now + int (timeout_ms mod 1000)\<rparr>"

definition reached :: "timeval \<Rightarrow> timeval \<Rightarrow> bool" where
  "reached deadline now \<longleftrightarrow> tv_sec deadline < tv_sec now \<or> tv_sec now = tv_sec deadline \<and> tv_usec deadline \<le> tv_usec now"

lemma reached_iff: "reached deadline now \<longleftrightarrow> deadline \<le> now"
  by (auto simp: reached_def less_eq_timeval_ext_def)

definition time_left :: "timeval \<Rightarrow> timeval \<Rightarrow> timeval" where
  "time_left deadline now =
    (let s = tv_sec deadline - tv_sec now
     in if tv_usec now \<le> tv_usec deadline then \<lparr>tv_sec = s, tv_usec = tv_usec deadline - tv_usec now\<rparr>
        else \<lparr>tv_sec = s - 1, tv_usec = tv_usec deadline + 1000000 - tv_usec now\<rparr>)"

text \<open>A round of the wait: the time it starts, and for a timeout the devices that arrive and what libusb returns.\<close>

record wait_round =
  wr_now :: timeval
  wr_events :: "timeval \<Rightarrow> (nat \<times> bus_device) list \<times> int"

text \<open>\<open>None\<close>: still waiting after the given rounds. The flag says whether the loop was left without an error of libusb.\<close>

fun await_loop :: "usb_ids \<Rightarrow> timeval \<Rightarrow> wait_round list \<Rightarrow> hotplug_state \<times> ledger \<Rightarrow> ((hotplug_state \<times> ledger) \<times> bool) run option" where
  "await_loop I deadline rounds sL =
    (if hp_completed (fst sL) then Some (Inr (sL, True))
     else case rounds of
       [] \<Rightarrow> None
     | r # rounds' \<Rightarrow>
         if reached deadline (wr_now r) then Some (Inr (sL, True))
         else let (ds, usb_error) = wr_events r (time_left deadline (wr_now r))
              in case deliver I ds sL of
                   Inl f \<Rightarrow> Some (Inl f)
                 | Inr sL \<Rightarrow> if usb_error < 0 then Some (Inr (sL, False)) else await_loop I deadline rounds' sL)"

definition running_firmware :: "usb_ids \<Rightarrow> bus_device \<Rightarrow> bool" where
  "running_firmware I d \<longleftrightarrow> identify_device I d \<in> {DEVTYPE_PG2SDR, DEVTYPE_AIRSPYMINI, DEVTYPE_PROTOTYPE}"

definition post_hotplug :: "hotplug_state \<Rightarrow> (nat \<times> bus_device) option" where
  "post_hotplug st = (case hp_device st of Some d \<Rightarrow> Some d | None \<Rightarrow> hp_maybe st)"

definition hotplug_await ::
  "usb_ids \<Rightarrow> timeval \<Rightarrow> wait_round list \<Rightarrow> hotplug_state \<times> ledger \<Rightarrow> ((hotplug_state \<times> ledger) \<times> (nat \<times> bus_device) option) run option" where
  "hotplug_await I start rounds sL =
    map_option (\<lambda>r. run_bind r (\<lambda>((st, L), ok).
      if \<not> ok then Inr ((st, L), None)
      else case post_hotplug st of
             None \<Rightarrow> Inr ((st, L), None)
           | Some d \<Rightarrow>
               if running_firmware I (snd d) then Inr ((st, ref_device (fst d) L), Some d) else Inr ((st, L), None)))
      (await_loop I (deadline_of start) rounds sL)"

definition hotplug_cleanup :: "hotplug_state option \<Rightarrow> ledger \<Rightarrow> ledger run" where
  "hotplug_cleanup st L =
    (case st of
       None \<Rightarrow> Inr L
     | Some st \<Rightarrow>
         run_bind (case hp_device st of None \<Rightarrow> Inr L | Some d \<Rightarrow> unref_device (fst d) L) (\<lambda>L.
           run_bind (case hp_maybe st of None \<Rightarrow> Inr L | Some d \<Rightarrow> unref_device (fst d) L) (release (Some (hp_block st)))))"

subsection \<open>What the callback keeps\<close>

text \<open>The abstract effect of one arrival: the last device on the port, and the first of the right kind elsewhere.\<close>

definition elsewhere :: "usb_ids \<Rightarrow> hotplug_state \<Rightarrow> bus_device \<Rightarrow> bool" where
  "elsewhere I st d \<longleftrightarrow>
    \<not> same_port st d \<and> (case port_numbers d of Inl e \<Rightarrow> False | Inr path \<Rightarrow> path \<noteq> []) \<and> pg2_like I d"

definition arrive :: "usb_ids \<Rightarrow> hotplug_state \<Rightarrow> nat \<times> bus_device \<Rightarrow> hotplug_state" where
  "arrive I st d =
    (if same_port st (snd d) then st\<lparr>hp_device := Some d, hp_completed := True\<rparr>
     else if elsewhere I st (snd d) \<and> hp_maybe st = None then st\<lparr>hp_maybe := Some d\<rparr> else st)"

definition hp_owned :: "(nat \<times> bus_device) option \<Rightarrow> nat \<Rightarrow> nat" where
  "hp_owned r i = (case r of None \<Rightarrow> 0 | Some d \<Rightarrow> if fst d = i then 1 else 0)"

text \<open>A ledger and the references the state holds on top of it.\<close>

definition with_refs :: "ledger \<Rightarrow> (nat \<times> bus_device) option \<Rightarrow> (nat \<times> bus_device) option \<Rightarrow> ledger" where
  "with_refs L a b = L\<lparr>refs := (\<lambda>i. refs L i + hp_owned a i + hp_owned b i)\<rparr>"

lemma with_refs_None: "with_refs L None None = L"
  by (simp add: with_refs_def hp_owned_def)

lemma ref_with: "ref_device (fst d) (with_refs L None b) = with_refs L (Some d) b"
  "ref_device (fst d) (with_refs L a None) = with_refs L a (Some d)"
  by (auto simp: ref_device_def with_refs_def hp_owned_def fun_eq_iff)

lemma unref_with: "unref_device (fst d) (with_refs L (Some d) b) = Inr (with_refs L None b)"
  "unref_device (fst d) (with_refs L a (Some d)) = Inr (with_refs L a None)"
  by (auto simp: unref_device_def with_refs_def hp_owned_def fun_eq_iff)

lemma callback_arrive:
  "hotplug_callback I (st, with_refs L (hp_device st) (hp_maybe st)) d =
    Inr (arrive I st d, with_refs L (hp_device (arrive I st d)) (hp_maybe (arrive I st d)))"
proof (cases "same_port st (snd d)")
  case True
  then obtain p ps where p: "port_numbers (snd d) = Inr (p # ps)" "bus_number (snd d) = match_bus st" "match_ports st = p # ps"
    unfolding same_port_def by (auto split: sum.splits simp: neq_Nil_conv)
  then show ?thesis
    using True by (cases "hp_device st") (simp_all add: hotplug_callback_def arrive_def ref_with unref_with split_beta)
next
  case False
  show ?thesis
  proof (cases "elsewhere I st (snd d)")
    case True
    then obtain p ps where "port_numbers (snd d) = Inr (p # ps)" "pg2_like I (snd d)"
      unfolding elsewhere_def by (auto split: sum.splits simp: neq_Nil_conv)
    then show ?thesis using True False
      by (auto simp: hotplug_callback_def arrive_def ref_with same_port_def)
  next
    case not: False
    then show ?thesis using False
      by (auto simp: hotplug_callback_def arrive_def elsewhere_def same_port_def split: sum.splits list.splits)
  qed
qed

lemma deliver_arrive:
  "deliver I ds (st, with_refs L (hp_device st) (hp_maybe st)) =
    Inr (foldl (arrive I) st ds, with_refs L (hp_device (foldl (arrive I) st ds)) (hp_maybe (foldl (arrive I) st ds)))"
  unfolding deliver_def
proof (induction ds arbitrary: st)
  case (Cons d ds)
  then show ?case using callback_arrive [of I st L d] by simp
qed simp

lemma arrive_fixed [simp]:
  "hp_block (arrive I st d) = hp_block st" "same_port (arrive I st d) = same_port st" "elsewhere I (arrive I st d) = elsewhere I st"
  by (auto simp: arrive_def same_port_def elsewhere_def fun_eq_iff split: sum.splits)

lemma arrive_fields:
  "hp_device (arrive I st d) = (if same_port st (snd d) then Some d else hp_device st)"
  "hp_maybe (arrive I st d) = (if elsewhere I st (snd d) \<and> hp_maybe st = None then Some d else hp_maybe st)"
  "hp_completed (arrive I st d) = (hp_completed st \<or> same_port st (snd d))"
  by (auto simp: arrive_def elsewhere_def)

definition last_match :: "hotplug_state \<Rightarrow> (nat \<times> bus_device) list \<Rightarrow> (nat \<times> bus_device) option" where
  "last_match st ds = (let xs = filter (\<lambda>d. same_port st (snd d)) ds in if xs = [] then None else Some (last xs))"

definition first_elsewhere :: "usb_ids \<Rightarrow> hotplug_state \<Rightarrow> (nat \<times> bus_device) list \<Rightarrow> (nat \<times> bus_device) option" where
  "first_elsewhere I st ds = find (\<lambda>d. elsewhere I st (snd d)) ds"

lemma foldl_arrive_fields:
  "hp_block (foldl (arrive I) st ds) = hp_block st \<and>
    hp_device (foldl (arrive I) st ds) = (if last_match st ds = None then hp_device st else last_match st ds) \<and>
    hp_maybe (foldl (arrive I) st ds) = (if hp_maybe st = None then first_elsewhere I st ds else hp_maybe st) \<and>
    hp_completed (foldl (arrive I) st ds) = (hp_completed st \<or> last_match st ds \<noteq> None)"
proof (induction ds arbitrary: st)
  case (Cons d ds)
  have lm: "last_match (arrive I st d) ds = last_match st ds" and fe: "first_elsewhere I (arrive I st d) ds = first_elsewhere I st ds"
    by (simp_all add: last_match_def first_elsewhere_def)
  have lc: "last_match st (d # ds) = (if last_match st ds \<noteq> None then last_match st ds else if same_port st (snd d) then Some d else None)"
    by (simp add: last_match_def Let_def del: not_None_eq)
  have fc: "first_elsewhere I st (d # ds) = (if elsewhere I st (snd d) then Some d else first_elsewhere I st ds)"
    by (simp add: first_elsewhere_def)
  show ?case
    using Cons [of "arrive I st d"] unfolding lm fe lc fc arrive_fields arrive_fixed foldl_Cons by (simp del: not_None_eq)
qed (simp add: last_match_def first_elsewhere_def)

lemmas foldl_arrive = foldl_arrive_fields [THEN conjunct1] foldl_arrive_fields [THEN conjunct2, THEN conjunct1]
  foldl_arrive_fields [THEN conjunct2, THEN conjunct2, THEN conjunct1]
  foldl_arrive_fields [THEN conjunct2, THEN conjunct2, THEN conjunct2]

subsection \<open>What the wait sees\<close>

text \<open>The devices that arrive in the given rounds.\<close>

definition arrivals :: "timeval \<Rightarrow> wait_round list \<Rightarrow> (nat \<times> bus_device) list" where
  "arrivals deadline rounds = concat (map (\<lambda>r. fst (wr_events r (time_left deadline (wr_now r)))) rounds)"

lemma await_loop_result:
  assumes "await_loop I deadline rounds (st, with_refs L (hp_device st) (hp_maybe st)) = Some r"
  shows "\<exists>k ok. k \<le> length rounds \<and> (let st' = foldl (arrive I) st (arrivals deadline (take k rounds)) in
      r = Inr ((st', with_refs L (hp_device st') (hp_maybe st')), ok) \<and>
      (\<forall>w \<in> set (take k rounds). \<not> reached deadline (wr_now w)) \<and>
      (ok \<longrightarrow> hp_completed st' \<or> k < length rounds \<and> reached deadline (wr_now (rounds ! k))) \<and>
      (\<not> ok \<longrightarrow> (\<exists>w \<in> set rounds. snd (wr_events w (time_left deadline (wr_now w))) < 0)))"
  using assms
proof (induction rounds arbitrary: st)
  case Nil
  then show ?case by (auto simp: arrivals_def split: if_splits)
next
  case (Cons w rounds)
  show ?case
  proof (cases "hp_completed st \<or> reached deadline (wr_now w)")
    case True
    then show ?thesis using Cons.prems
      by (intro exI [of _ 0] exI [of _ True]) (auto simp: arrivals_def split: if_splits)
  next
    case False
    obtain ds e where ev: "wr_events w (time_left deadline (wr_now w)) = (ds, e)" by fastforce
    define st1 where "st1 = foldl (arrive I) st ds"
    have d: "deliver I ds (st, with_refs L (hp_device st) (hp_maybe st)) = Inr (st1, with_refs L (hp_device st1) (hp_maybe st1))"
      using deliver_arrive by (simp add: st1_def)
    show ?thesis
    proof (cases "e < 0")
      case True
      then show ?thesis using Cons.prems False ev d
        by (intro exI [of _ 1] exI [of _ False]) (auto simp: arrivals_def st1_def)
    next
      case ok: False
      then have "await_loop I deadline rounds (st1, with_refs L (hp_device st1) (hp_maybe st1)) = Some r"
        using Cons.prems False ev d by simp
      from Cons.IH [OF this] obtain k b where k: "k \<le> length rounds"
          "let st' = foldl (arrive I) st1 (arrivals deadline (take k rounds)) in
            r = Inr ((st', with_refs L (hp_device st') (hp_maybe st')), b) \<and>
            (\<forall>w \<in> set (take k rounds). \<not> reached deadline (wr_now w)) \<and>
            (b \<longrightarrow> hp_completed st' \<or> k < length rounds \<and> reached deadline (wr_now (rounds ! k))) \<and>
            (\<not> b \<longrightarrow> (\<exists>w \<in> set rounds. snd (wr_events w (time_left deadline (wr_now w))) < 0))" by blast
      have "foldl (arrive I) st (arrivals deadline (take (Suc k) (w # rounds))) = foldl (arrive I) st1 (arrivals deadline (take k rounds))"
        by (simp add: arrivals_def ev st1_def)
      then show ?thesis using k False
        by (intro exI [of _ "Suc k"] exI [of _ b]) (auto simp: Let_def)
    qed
  qed
qed

declare await_loop.simps [simp del]

lemma await_loop_returns:
  "\<exists>w \<in> set rounds. reached deadline (wr_now w) \<Longrightarrow> await_loop I deadline rounds sL \<noteq> None"
proof (induction rounds arbitrary: sL)
  case (Cons w rounds)
  then show ?case by (subst await_loop.simps) (auto split: prod.splits sum.splits)
qed simp


lemma await_result:
  assumes "hotplug_await I start rounds (st, with_refs L (hp_device st) (hp_maybe st)) = Some r"
    and "hp_completed st \<longleftrightarrow> hp_device st \<noteq> None"
  shows "\<exists>k ok. k \<le> length rounds \<and> (let st' = foldl (arrive I) st (arrivals (deadline_of start) (take k rounds));
        d = (if ok then Option.bind (post_hotplug st') (\<lambda>d. if running_firmware I (snd d) then Some d else None) else None) in
      (\<exists>L'. r = Inr ((st', L'), d) \<and> L' = (case d of None \<Rightarrow> id | Some d \<Rightarrow> ref_device (fst d)) (with_refs L (hp_device st') (hp_maybe st'))) \<and>
      (\<forall>w \<in> set (take k rounds). \<not> reached (deadline_of start) (wr_now w)) \<and>
      (ok \<longrightarrow> hp_device st' \<noteq> None \<or> k < length rounds \<and> reached (deadline_of start) (wr_now (rounds ! k))) \<and>
      (\<not> ok \<longrightarrow> (\<exists>w \<in> set rounds. snd (wr_events w (time_left (deadline_of start) (wr_now w))) < 0)))"
proof -
  obtain q where q: "await_loop I (deadline_of start) rounds (st, with_refs L (hp_device st) (hp_maybe st)) = Some q"
    using assms(1) by (auto simp: hotplug_await_def)
  obtain k ok where k: "k \<le> length rounds" "let st' = foldl (arrive I) st (arrivals (deadline_of start) (take k rounds)) in
      q = Inr ((st', with_refs L (hp_device st') (hp_maybe st')), ok) \<and>
      (\<forall>w \<in> set (take k rounds). \<not> reached (deadline_of start) (wr_now w)) \<and>
      (ok \<longrightarrow> hp_completed st' \<or> k < length rounds \<and> reached (deadline_of start) (wr_now (rounds ! k))) \<and>
      (\<not> ok \<longrightarrow> (\<exists>w \<in> set rounds. snd (wr_events w (time_left (deadline_of start) (wr_now w))) < 0))"
    using await_loop_result [OF q] by blast
  define st' where "st' = foldl (arrive I) st (arrivals (deadline_of start) (take k rounds))"
  have comp: "hp_completed st' \<longleftrightarrow> hp_device st' \<noteq> None"
    using assms(2) foldl_arrive [of I st "arrivals (deadline_of start) (take k rounds)"] by (simp add: st'_def)
  show ?thesis
    using k(2) assms(1) comp q unfolding st'_def [symmetric] Let_def hotplug_await_def
    by (intro exI [of _ k] exI [of _ ok] conjI k(1)) (auto simp: st'_def [symmetric] split: option.splits if_splits)
qed

lemma hotplug_wait:
  assumes prep: "hotplug_prepare d usb_error L = Inr (L1, Some st)" and L: "ledger_ok L"
    and ret: "\<exists>w \<in> set rounds. reached (deadline_of start) (wr_now w)"
  shows "\<exists>st1 L2 st2 L3 found L4 k. deliver I before (st, L1) = Inr (st1, L2) \<and>
    hotplug_await I start rounds (st1, L2) = Some (Inr ((st2, L3), found)) \<and> hotplug_cleanup (Some st2) L3 = Inr L4 \<and>
    L4 = (case found of None \<Rightarrow> id | Some f \<Rightarrow> ref_device (fst f)) (L\<lparr>next_id := next_id L1\<rparr>) \<and>
    (let seen = before @ arrivals (deadline_of start) (take k rounds);
         best = (if last_match st seen \<noteq> None then last_match st seen else first_elsewhere I st seen)
     in (\<forall>w \<in> set (take k rounds). \<not> reached (deadline_of start) (wr_now w)) \<and>
        (found = Option.bind best (\<lambda>f. if running_firmware I (snd f) then Some f else None) \<and>
           (last_match st seen = None \<longrightarrow> k < length rounds \<and> reached (deadline_of start) (wr_now (rounds ! k))) \<or>
         found = None \<and> (\<exists>w \<in> set rounds. snd (wr_events w (time_left (deadline_of start) (wr_now w))) < 0)))"
proof -
  obtain path where al: "alloc_ok L (next_id L)" "port_numbers d = Inr path" "\<not> usb_error < 0"
      and L1: "L1 = L\<lparr>live := insert (next_id L) (live L), next_id := Suc (next_id L)\<rparr>"
      and st: "st = \<lparr>hp_block = next_id L, hp_completed = False, hp_device = None, hp_maybe = None, match_bus = bus_number d, match_ports = path\<rparr>"
    using prep by (auto simp: hotplug_prepare_def alloc_def Let_def run_bind_Inr_iff split: if_splits sum.splits)
  define st1 where "st1 = foldl (arrive I) st before"
  define L2 where "L2 = with_refs L1 (hp_device st1) (hp_maybe st1)"
  have d1: "deliver I before (st, L1) = Inr (st1, L2)"
    using deliver_arrive [of I before st L1] by (simp add: st with_refs_None st1_def L2_def)
  obtain r where r: "hotplug_await I start rounds (st1, L2) = Some r"
    using await_loop_returns [OF ret, of I "(st1, L2)"] by (auto simp: hotplug_await_def)
  have comp: "hp_completed st1 \<longleftrightarrow> hp_device st1 \<noteq> None"
    using foldl_arrive [of I st before] by (simp add: st1_def st)
  obtain k ok where k: "let st' = foldl (arrive I) st1 (arrivals (deadline_of start) (take k rounds));
        d = (if ok then Option.bind (post_hotplug st') (\<lambda>d. if running_firmware I (snd d) then Some d else None) else None) in
      (\<exists>L'. r = Inr ((st', L'), d) \<and> L' = (case d of None \<Rightarrow> id | Some d \<Rightarrow> ref_device (fst d)) (with_refs L1 (hp_device st') (hp_maybe st'))) \<and>
      (\<forall>w \<in> set (take k rounds). \<not> reached (deadline_of start) (wr_now w)) \<and>
      (ok \<longrightarrow> hp_device st' \<noteq> None \<or> k < length rounds \<and> reached (deadline_of start) (wr_now (rounds ! k))) \<and>
      (\<not> ok \<longrightarrow> (\<exists>w \<in> set rounds. snd (wr_events w (time_left (deadline_of start) (wr_now w))) < 0))"
    using await_result [OF r [unfolded L2_def] comp] by blast
  define seen where "seen = before @ arrivals (deadline_of start) (take k rounds)"
  define st2 where "st2 = foldl (arrive I) st seen"
  define found where "found = (if ok then Option.bind (post_hotplug st2) (\<lambda>d. if running_firmware I (snd d) then Some d else None) else None)"
  define L3 where "L3 = (case found of None \<Rightarrow> id | Some f \<Rightarrow> ref_device (fst f)) (with_refs L1 (hp_device st2) (hp_maybe st2))"
  have st2: "foldl (arrive I) st1 (arrivals (deadline_of start) (take k rounds)) = st2" by (simp add: st2_def st1_def seen_def)
  note k = k [unfolded st2 Let_def, folded found_def]
  have r': "r = Inr ((st2, L3), found)" using k by (auto simp: L3_def)
  note dev = foldl_arrive [of I st seen, folded st2_def]
  have push: "with_refs (ref_device i M) a b = ref_device i (with_refs M a b)" for i M a b
    by (auto simp: with_refs_def ref_device_def fun_eq_iff)
  define M where "M = (case found of None \<Rightarrow> id | Some f \<Rightarrow> ref_device (fst f)) L1"
  have L3: "L3 = with_refs M (hp_device st2) (hp_maybe st2)" by (cases found) (simp_all add: L3_def M_def push)
  have "hotplug_cleanup (Some st2) L3 = release (Some (next_id L)) M"
    using dev(1) by (cases "hp_device st2"; cases "hp_maybe st2")
      (simp_all add: hotplug_cleanup_def L3 with_refs_None unref_with st)
  also have "\<dots> = Inr ((case found of None \<Rightarrow> id | Some f \<Rightarrow> ref_device (fst f)) (L\<lparr>next_id := next_id L1\<rparr>))"
    using L by (cases found) (auto simp: M_def L1 ref_device_def release_def ledger_ok_def)
  finally have clean: "hotplug_cleanup (Some st2) L3 = \<dots>" .
  have best: "post_hotplug st2 = (if last_match st seen \<noteq> None then last_match st seen else first_elsewhere I st seen)"
    using dev(2,3) by (auto simp: post_hotplug_def st split: option.splits)
  have last: "hp_device st2 = last_match st seen" using dev(2) by (auto simp: st)
  have "let best = (if last_match st seen \<noteq> None then last_match st seen else first_elsewhere I st seen)
     in (\<forall>w \<in> set (take k rounds). \<not> reached (deadline_of start) (wr_now w)) \<and>
        (found = Option.bind best (\<lambda>f. if running_firmware I (snd f) then Some f else None) \<and>
           (last_match st seen = None \<longrightarrow> k < length rounds \<and> reached (deadline_of start) (wr_now (rounds ! k))) \<or>
         found = None \<and> (\<exists>w \<in> set rounds. snd (wr_events w (time_left (deadline_of start) (wr_now w))) < 0))"
    unfolding Let_def best [symmetric]
  proof (intro conjI)
    show "\<forall>w \<in> set (take k rounds). \<not> reached (deadline_of start) (wr_now w)" using k by blast
    show "found = Option.bind (post_hotplug st2) (\<lambda>f. if running_firmware I (snd f) then Some f else None) \<and>
        (last_match st seen = None \<longrightarrow> k < length rounds \<and> reached (deadline_of start) (wr_now (rounds ! k))) \<or>
      found = None \<and> (\<exists>w \<in> set rounds. snd (wr_events w (time_left (deadline_of start) (wr_now w))) < 0)"
      using k last by (cases ok) (auto simp: found_def)
  qed
  note final = this [unfolded Let_def seen_def]
  have r2: "hotplug_await I start rounds (st1, L2) = Some (Inr ((st2, L3), found))" using r r' by simp
  show ?thesis unfolding Let_def
    by (rule exI [of _ st1], rule exI [of _ L2], rule exI [of _ st2], rule exI [of _ L3], rule exI [of _ found],
      rule exI [of _ "(case found of None \<Rightarrow> id | Some f \<Rightarrow> ref_device (fst f)) (L\<lparr>next_id := next_id L1\<rparr>)"],
      rule exI [of _ k]) (intro conjI d1 r2 clean refl final [THEN conjunct1] final [THEN conjunct2])
qed

text \<open>C22: a wait prepared before new firmware is started, whatever devices arrive before and during it, ends without
  a fault and gives back everything it took but one reference to the device it returns. That is the last device that arrived on the port of
  the old one, or, when none did before the deadline, the first of the right kind on another port; and only if it runs firmware.
  The wait is given up early only when libusb reports an error.\<close>

theorem hotplug_exact:
  assumes prep: "hotplug_prepare d usb_error L = Inr (L1, Some st)" and L: "ledger_ok L"
    and ret: "\<exists>w \<in> set rounds. reached (deadline_of start) (wr_now w)"
  shows "\<exists>st1 L2 st2 L3 found L4 k. deliver I before (st, L1) = Inr (st1, L2) \<and>
    hotplug_await I start rounds (st1, L2) = Some (Inr ((st2, L3), found)) \<and> hotplug_cleanup (Some st2) L3 = Inr L4 \<and>
    L4 = (case found of None \<Rightarrow> id | Some f \<Rightarrow> ref_device (fst f)) (L\<lparr>next_id := next_id L1\<rparr>) \<and>
    (let seen = before @ arrivals (deadline_of start) (take k rounds);
         best = (if last_match st seen \<noteq> None then last_match st seen else first_elsewhere I st seen)
     in (\<forall>w \<in> set (take k rounds). \<not> reached (deadline_of start) (wr_now w)) \<and>
        (found = Option.bind best (\<lambda>f. if running_firmware I (snd f) then Some f else None) \<and>
           (last_match st seen = None \<longrightarrow> k < length rounds \<and> reached (deadline_of start) (wr_now (rounds ! k))) \<or>
         found = None \<and> (\<exists>w \<in> set rounds. snd (wr_events w (time_left (deadline_of start) (wr_now w))) < 0)))"
  by (rule hotplug_wait [OF assms])

text \<open>A timeout that is a normalised, positive time and ends at \<open>deadline\<close> when it starts at \<open>now\<close>.\<close>

definition ends_at :: "timeval \<Rightarrow> timeval \<Rightarrow> timeval \<Rightarrow> bool" where
  "ends_at deadline now t \<longleftrightarrow> 0 \<le> tv_sec t \<and> 0 \<le> tv_usec t \<and> tv_usec t < 1000000 \<and> 0 < tv_sec t * 1000000 + tv_usec t \<and>
     (tv_sec now + tv_sec t) * 1000000 + tv_usec now + tv_usec t = tv_sec deadline * 1000000 + tv_usec deadline"

lemma time_left_ends:
  assumes "0 \<le> tv_usec now" "tv_usec now < 1000000" "0 \<le> tv_usec deadline" "tv_usec deadline < 1000000" "\<not> reached deadline now"
  shows "ends_at deadline now (time_left deadline now)"
  using assms by (auto simp: ends_at_def reached_def time_left_def Let_def)

text \<open>Two runs of the world with the same times, and the same events for every timeout that ends at the deadline.\<close>

definition agree_at :: "timeval \<Rightarrow> wait_round \<Rightarrow> wait_round \<Rightarrow> bool" where
  "agree_at deadline r r' \<longleftrightarrow> wr_now r' = wr_now r \<and> (\<forall>t. ends_at deadline (wr_now r) t \<longrightarrow> wr_events r' t = wr_events r t)"

lemma await_loop_agree:
  assumes "list_all2 (agree_at deadline) rounds rounds'" "\<forall>r \<in> set rounds. 0 \<le> tv_usec (wr_now r) \<and> tv_usec (wr_now r) < 1000000"
    "0 \<le> tv_usec deadline" "tv_usec deadline < 1000000"
  shows "await_loop I deadline rounds' sL = await_loop I deadline rounds sL"
  using assms(1,2)
proof (induction rounds rounds' arbitrary: sL rule: list_all2_induct)
  case Nil
  then show ?case by simp
next
  case (Cons r rs r' rs')
  have n: "wr_now r' = wr_now r" using Cons.hyps by (simp add: agree_at_def)
  have "wr_events r' (time_left deadline (wr_now r)) = wr_events r (time_left deadline (wr_now r))" if "\<not> reached deadline (wr_now r)"
    using Cons.hyps(1) Cons.prems assms(3,4) that time_left_ends [of "wr_now r" deadline] by (simp add: agree_at_def)
  then show ?case using Cons.IH Cons.prems n
    by (subst await_loop.simps, subst (2) await_loop.simps) (auto split: prod.splits sum.splits)
qed

text \<open>C23: the wait ends, and never asks libusb to wait past its deadline. The deadline is three seconds after the
  start. Whatever timeout the code hands to libusb, it is a normalised, positive time that ends exactly at the deadline: what
  libusb would do for any other timeout has no influence on the wait. Once a round begins at or after the deadline the wait has returned; with
  a clock that does not go back, every later round would begin after it too.\<close>

theorem hotplug_deadline:
  assumes "0 \<le> tv_usec start" "tv_usec start < 1000000"
    and "\<forall>r \<in> set rounds. 0 \<le> tv_usec (wr_now r) \<and> tv_usec (wr_now r) < 1000000"
  shows "(\<forall>rounds'. list_all2 (agree_at \<lparr>tv_sec = tv_sec start + 3, tv_usec = tv_usec start\<rparr>) rounds rounds' \<longrightarrow>
       hotplug_await I start rounds' sL = hotplug_await I start rounds sL) \<and>
    ((\<exists>w \<in> set rounds. \<lparr>tv_sec = tv_sec start + 3, tv_usec = tv_usec start\<rparr> \<le> wr_now w) \<longrightarrow> hotplug_await I start rounds sL \<noteq> None)"
proof -
  have d: "deadline_of start = \<lparr>tv_sec = tv_sec start + 3, tv_usec = tv_usec start\<rparr>"
    using assms by (simp add: deadline_of_def timeout_ms_def normalize.simps)
  have "hotplug_await I start rounds' sL = hotplug_await I start rounds sL" if "list_all2 (agree_at (deadline_of start)) rounds rounds'" for rounds'
    using await_loop_agree [OF that assms(3), of I sL] assms(1,2) by (simp add: hotplug_await_def d)
  moreover have "(\<exists>w \<in> set rounds. reached (deadline_of start) (wr_now w)) \<longrightarrow> hotplug_await I start rounds sL \<noteq> None"
    using await_loop_returns by (auto simp: hotplug_await_def)
  ultimately show ?thesis unfolding d reached_iff by blast
qed


subsection \<open>A wait that succeeds\<close>

text \<open>The device leaves and comes back on its port a second later; another one arrives elsewhere before.\<close>

definition hp_demo_ids :: usb_ids where
  "hp_demo_ids = \<lparr>PG2SDR_ID = (1, 2), AIRSPYMINI_ID = (3, 4)\<rparr>"

definition hp_demo_device :: "u8 \<Rightarrow> bus_device" where
  "hp_demo_device port = \<lparr>bd_id = (1, 2), iSerialNumber = 0, open_error = 0, serial_descriptor = Inl 0, bus_number = 1, port_numbers = Inr [port]\<rparr>"

definition hp_demo_ledger :: ledger where
  "hp_demo_ledger = \<lparr>live = {}, next_id = 0, alloc_ok = (\<lambda>_. True), refs = (\<lambda>_. 0), handles = 0, mutexes = 0\<rparr>"

definition hp_demo_rounds :: "wait_round list" where
  "hp_demo_rounds =
    [\<lparr>wr_now = \<lparr>tv_sec = 10, tv_usec = 500000\<rparr>, wr_events = (\<lambda>_. ([(7, hp_demo_device 2), (8, hp_demo_device 1)], 0))\<rparr>,
     \<lparr>wr_now = \<lparr>tv_sec = 13, tv_usec = 500000\<rparr>, wr_events = (\<lambda>_. ([], 0))\<rparr>]"

lemma hp_demo_deadline: "deadline_of \<lparr>tv_sec = 10, tv_usec = 400000\<rparr> = \<lparr>tv_sec = 13, tv_usec = 400000\<rparr>"
  by (simp add: deadline_of_def timeout_ms_def normalize.simps)

theorem hotplug_exact_witness:
  "\<exists>st L1 st2 L3. hotplug_prepare (hp_demo_device 1) 0 hp_demo_ledger = Inr (L1, Some st) \<and>
    hotplug_await hp_demo_ids \<lparr>tv_sec = 10, tv_usec = 400000\<rparr> hp_demo_rounds (st, L1) = Some (Inr ((st2, L3), Some (8, hp_demo_device 1))) \<and>
    hotplug_cleanup (Some st2) L3 = Inr (ref_device 8 (hp_demo_ledger\<lparr>next_id := 1\<rparr>))"
proof -
  define st where "st = \<lparr>hp_block = 0, hp_completed = False, hp_device = None, hp_maybe = None, match_bus = 1, match_ports = [1]\<rparr>"
  define L1 where "L1 = hp_demo_ledger\<lparr>live := {0}, next_id := 1\<rparr>"
  have p: "hotplug_prepare (hp_demo_device 1) 0 hp_demo_ledger = Inr (L1, Some st)"
    by (simp add: hotplug_prepare_def hp_demo_device_def hp_demo_ledger_def alloc_def L1_def st_def)
  have r: "\<exists>w \<in> set hp_demo_rounds. reached (deadline_of \<lparr>tv_sec = 10, tv_usec = 400000\<rparr>) (wr_now w)"
    by (simp add: hp_demo_rounds_def hp_demo_deadline reached_def)
  have ok: "ledger_ok hp_demo_ledger" by (simp add: ledger_ok_def hp_demo_ledger_def)
  obtain st1 L2 st2 L3 found L4 where w: "deliver hp_demo_ids [] (st, L1) = Inr (st1, L2)"
      "hotplug_await hp_demo_ids \<lparr>tv_sec = 10, tv_usec = 400000\<rparr> hp_demo_rounds (st1, L2) = Some (Inr ((st2, L3), found))"
      "hotplug_cleanup (Some st2) L3 = Inr L4"
      "L4 = (case found of None \<Rightarrow> id | Some f \<Rightarrow> ref_device (fst f)) (hp_demo_ledger\<lparr>next_id := next_id L1\<rparr>)"
    using hotplug_exact [OF p ok r, of hp_demo_ids "[]"] by blast
  have e: "(st1, L2) = (st, L1)" using w(1) by (simp add: deliver_def)
  have "map_option (\<lambda>r. case r of Inl f \<Rightarrow> None | Inr (s, d) \<Rightarrow> d) (hotplug_await hp_demo_ids \<lparr>tv_sec = 10, tv_usec = 400000\<rparr> hp_demo_rounds (st, L1))
      = Some (Some (8, hp_demo_device 1))"
    by (simp add: hotplug_await_def hp_demo_deadline await_loop.simps hp_demo_rounds_def reached_def time_left_def deliver_def
        hotplug_callback_def hp_demo_device_def st_def L1_def post_hotplug_def running_firmware_def pg2_like_def identify_device_def
        hp_demo_ids_def ref_device_def)
  then have "found = Some (8, hp_demo_device 1)" using w(2) e by simp
  then show ?thesis using p w e by (auto simp: L1_def)
qed

theorem hotplug_deadline_witness:
  "hotplug_await hp_demo_ids \<lparr>tv_sec = 10, tv_usec = 400000\<rparr> hp_demo_rounds (undefined, hp_demo_ledger) \<noteq> None"
  using hotplug_deadline [of "\<lparr>tv_sec = 10, tv_usec = 400000\<rparr>" hp_demo_rounds] by (simp add: hp_demo_rounds_def less_eq_timeval_ext_def)

end
