(* ===== verification/Commands.thy ===== *)
theory Commands
  imports HandleCache Hotplug
begin

section \<open>Commands of the tool (cli/pg2-util/device.c, blink.c, standby.c, reset.c)\<close>

text \<open>
  Each command finds the one device that matches, opens it, sends its requests and gives everything back. What the
  tool knows of the bus is in \<open>tool_env\<close>. Option parsing, log lines and the strings built for them are left out.
\<close>

subsection \<open>Finding the device\<close>

record tool_env =
  t_consts :: libusb_consts
  t_ids :: usb_ids
  t_qsort :: "usb_device list \<Rightarrow> usb_device list"
  t_bus :: "int + bus_device list"
  t_ctx :: "pg_context option"

definition SEARCH_RECOVERY :: u32 where "SEARCH_RECOVERY = 1"
definition SEARCH_PG2SDR :: u32 where "SEARCH_PG2SDR = 2"

definition typemask :: "u32 \<Rightarrow> u32" where
  "typemask flags =
    (if flags AND SEARCH_PG2SDR \<noteq> 0 then DEVTYPE_PG2SDR OR DEVTYPE_AIRSPYMINI OR DEVTYPE_PROTOTYPE else 0) OR
    (if flags AND SEARCH_RECOVERY \<noteq> 0 then DEVTYPE_RECOVERY else 0)"

definition device_search :: "tool_env \<Rightarrow> string option \<Rightarrow> string option \<Rightarrow> u32 \<Rightarrow> ledger \<Rightarrow> (ledger \<times> nat option) run" where
  "device_search T serial_prefix port_path flags L =
    run_bind (discover_matching (t_consts T) (t_ids T) (t_qsort T) (t_bus T) (t_ctx T) True serial_prefix port_path (typemask flags) L)
      (\<lambda>(L, r). case r of
         Inl e \<Rightarrow> Inr (L, None)
       | Inr (block, devices) \<Rightarrow>
           let (L, found) = (if length devices = 1 then (ref_device (ud_lu (devices ! 0)) L, Some (ud_lu (devices ! 0))) else (L, None))
           in run_bind (free_device_list (Some (block, devices)) L) (\<lambda>L. Inr (L, found)))"

text \<open>The label \<open>cleanup\<close> of the commands; only reset has a device to let go and a wait to clean up.\<close>

definition close_up ::
  "nat option \<Rightarrow> nat option \<Rightarrow> hotplug_state option \<Rightarrow> nat \<Rightarrow> usb_cache \<times> ledger \<Rightarrow> (usb_cache \<times> ledger) run" where
  "close_up handle post hotplug_state dev cL = (case cL of (c, L) \<Rightarrow>
    run_bind (case handle of None \<Rightarrow> Inr c | Some h \<Rightarrow> device_close h c) (\<lambda>c.
      run_bind (case post of None \<Rightarrow> Inr L | Some p \<Rightarrow> unref_device p L) (\<lambda>L.
        run_bind (hotplug_cleanup hotplug_state L) (\<lambda>L.
          run_bind (unref_device dev L) (\<lambda>L. Inr (c, L))))))"

subsection \<open>The commands\<close>

definition do_blink ::
  "tool_env \<Rightarrow> 'u usb_env \<Rightarrow> open_answers \<Rightarrow> string option \<Rightarrow> string option \<Rightarrow> u32 \<Rightarrow> (usb_cache \<times> ledger) \<times> 'u \<Rightarrow>
   (((usb_cache \<times> ledger) \<times> 'u) \<times> bool) run" where
  "do_blink T E A serial_prefix port_path pattern s = (case s of ((c, L), u) \<Rightarrow>
    run_bind (device_search T serial_prefix port_path SEARCH_PG2SDR L) (\<lambda>(L, dev). case dev of
      None \<Rightarrow> Inr (((c, L), u), False)
    | Some d \<Rightarrow>
        run_bind (device_open A d False (c, L)) (\<lambda>(cL, handle). case handle of
          None \<Rightarrow> run_bind (close_up None None None d cL) (\<lambda>cL. Inr ((cL, u), False))
        | Some h \<Rightarrow>
            let (u, pg2_error) = ctrl_led_pattern E u pattern 0
            in run_bind (close_up (Some h) None None d cL) (\<lambda>cL. Inr ((cL, u), \<not> pg2_error < 0)))))"

definition do_standby ::
  "tool_env \<Rightarrow> 'u usb_env \<Rightarrow> open_answers \<Rightarrow> string option \<Rightarrow> string option \<Rightarrow> (usb_cache \<times> ledger) \<times> 'u \<Rightarrow>
   (((usb_cache \<times> ledger) \<times> 'u) \<times> bool) run" where
  "do_standby T E A serial_prefix port_path s = (case s of ((c, L), u) \<Rightarrow>
    run_bind (device_search T serial_prefix port_path SEARCH_PG2SDR L) (\<lambda>(L, dev). case dev of
      None \<Rightarrow> Inr (((c, L), u), False)
    | Some d \<Rightarrow>
        run_bind (device_open A d True (c, L)) (\<lambda>(cL, handle). case handle of
          None \<Rightarrow> run_bind (close_up None None None d cL) (\<lambda>cL. Inr ((cL, u), False))
        | Some h \<Rightarrow>
            let (u, stop_error) = ctrl_stop_transfer E u 0;
                (u, power_error) = ctrl_set_rf_power E u (RF_POWER_OFF (proto E)) 0
            in run_bind (close_up (Some h) None None d cL) (\<lambda>cL. Inr ((cL, u), \<not> stop_error < 0 \<and> \<not> power_error < 0)))))"

text \<open>What happens around a reset: whether the callback can be registered, and the events before and during the wait.\<close>

record reset_env =
  re_register :: int
  re_before :: "(nat \<times> bus_device) list"
  re_start :: timeval
  re_rounds :: "wait_round list"

definition bus_entry :: "tool_env \<Rightarrow> nat \<Rightarrow> bus_device" where
  "bus_entry T d = (case t_bus T of Inl e \<Rightarrow> undefined | Inr devs \<Rightarrow> devs ! d)"

text \<open>After the request: the old handle is closed, and with \<open>wait\<close> the new device awaited and let go again.\<close>

definition after_reset ::
  "tool_env \<Rightarrow> reset_env \<Rightarrow> nat \<Rightarrow> nat \<Rightarrow> hotplug_state option \<Rightarrow> usb_cache \<times> ledger \<Rightarrow> ((usb_cache \<times> ledger) \<times> bool) run option" where
  "after_reset T R h d hotplug_state cL = (case cL of (c, L) \<Rightarrow>
    (case libusb_close h c of
       Inl f \<Rightarrow> Some (Inl f)
     | Inr c \<Rightarrow>
         (case hotplug_state of
            None \<Rightarrow> Some (run_bind (close_up None None None d (c, L)) (\<lambda>cL. Inr (cL, True)))
          | Some st \<Rightarrow>
              map_option (\<lambda>r. run_bind r (\<lambda>((st, L), post).
                run_bind (close_up None (map_option fst post) (Some st) d (c, L)) (\<lambda>cL. Inr (cL, post \<noteq> None))))
                (hotplug_await (t_ids T) (re_start R) (re_rounds R) (st, L)))))"

definition do_reset ::
  "tool_env \<Rightarrow> 'u usb_env \<Rightarrow> open_answers \<Rightarrow> reset_env \<Rightarrow> string option \<Rightarrow> string option \<Rightarrow> bool \<Rightarrow> (usb_cache \<times> ledger) \<times> 'u \<Rightarrow>
   (((usb_cache \<times> ledger) \<times> 'u) \<times> bool) run option" where
  "do_reset T E A R serial_prefix port_path wait s = (case s of ((c, L), u) \<Rightarrow>
    (case device_search T serial_prefix port_path SEARCH_PG2SDR L of
       Inl f \<Rightarrow> Some (Inl f)
     | Inr (L, None) \<Rightarrow> Some (Inr (((c, L), u), False))
     | Inr (L, Some d) \<Rightarrow>
         (case device_open A d False (c, L) of
            Inl f \<Rightarrow> Some (Inl f)
          | Inr (cL, None) \<Rightarrow> Some (run_bind (close_up None None None d cL) (\<lambda>cL. Inr ((cL, u), False)))
          | Inr ((c, L), Some h) \<Rightarrow>
              (case (if wait then hotplug_prepare (bus_entry T d) (re_register R) L else Inr (L, None)) of
                 Inl f \<Rightarrow> Some (Inl f)
               | Inr (L, hotplug_state) \<Rightarrow>
                   if wait \<and> hotplug_state = None then Some (run_bind (close_up (Some h) None None d (c, L)) (\<lambda>cL. Inr ((cL, u), False)))
                   else
                     (case (case hotplug_state of None \<Rightarrow> Inr (None, L)
                            | Some st \<Rightarrow> map_sum id (apfst Some) (deliver (t_ids T) (re_before R) (st, L))) of
                        Inl f \<Rightarrow> Some (Inl f)
                      | Inr (hotplug_state, L) \<Rightarrow>
                          let (u, pg2_error) = ctrl_reset E u 0
                          in if pg2_error < 0
                             then Some (run_bind (close_up (Some h) None hotplug_state d (c, L)) (\<lambda>cL. Inr ((cL, u), False)))
                             else map_option (\<lambda>r. run_bind r (\<lambda>(cL, success). Inr ((cL, u), success)))
                               (after_reset T R h d hotplug_state (c, L)))))))"

subsection \<open>What the search returns\<close>

lemma release_ref: "release p L = Inr L' \<Longrightarrow> release p (ref_device d L) = Inr (ref_device d L')"
  by (auto simp: release_def ref_device_def split: option.splits if_splits)

lemma unref_ref: "unref_device i L = Inr L' \<Longrightarrow> unref_device i (ref_device d L) = Inr (ref_device d L')"
  by (auto simp: unref_device_def ref_device_def fun_eq_iff split: if_splits)

lemma free_entry_ref: "free_entry L u = Inr L' \<Longrightarrow> free_entry (ref_device d L) u = Inr (ref_device d L')"
  unfolding free_entry_def run_bind_Inr_iff using release_ref unref_ref by blast

lemma free_entries_ref: "run_foldl free_entry L us = Inr L' \<Longrightarrow> run_foldl free_entry (ref_device d L) us = Inr (ref_device d L')"
  by (induction us arbitrary: L) (auto simp: run_bind_Inr_iff dest: free_entry_ref)

lemma free_device_list_ref: "free_device_list r L = Inr L' \<Longrightarrow> free_device_list r (ref_device d L) = Inr (ref_device d L')"
proof (cases r)
  case (Some x)
  obtain block us where x: "x = (block, us)" by (cases x)
  assume "free_device_list r L = Inr L'"
  then obtain L1 where "run_foldl free_entry L us = Inr L1" "release (Some block) L1 = Inr L'"
    unfolding Some x free_device_list_def by (auto simp: run_bind_Inr_iff)
  then show ?thesis using free_entries_ref release_ref unfolding Some x free_device_list_def by simp
qed (simp add: free_device_list_def)

text \<open>The devices of the bus that a command is meant for.\<close>

definition candidates :: "tool_env \<Rightarrow> bus_device list \<Rightarrow> string option \<Rightarrow> string option \<Rightarrow> u32 \<Rightarrow> (nat \<times> string \<times> string) list" where
  "candidates T devs sp pp flags = wanted (t_ids T) sp pp (typemask flags) (enumerate 0 devs)"

definition tool_ok :: "tool_env \<Rightarrow> bus_device list \<Rightarrow> ledger \<Rightarrow> bool" where
  "tool_ok T devs L \<longleftrightarrow> CHECK_CTX (t_ctx T) = PG2SDR_SUCCESS \<and> is_device_sort (t_qsort T) \<and> t_bus T = Inr devs \<and>
    ledger_ok L \<and> (\<forall>n. alloc_ok L n) \<and> (\<forall>d \<in> set devs. ports_documented d)"

lemma device_search_ok:
  assumes "tool_ok T devs L"
  shows "\<exists>L' r. device_search T sp pp flags L = Inr (L', r) \<and> ledger_ok L' \<and> live L' = live L \<and>
    refs L' = refs (case r of None \<Rightarrow> L | Some d \<Rightarrow> ref_device d L) \<and>
    (case r of None \<Rightarrow> length (candidates T devs sp pp flags) \<noteq> 1 | Some d \<Rightarrow> map fst (candidates T devs sp pp flags) = [d])"
proof -
  have ok: "CHECK_CTX (t_ctx T) = PG2SDR_SUCCESS" "is_device_sort (t_qsort T)" "ledger_ok L" "\<forall>n. alloc_ok L n" "\<forall>d \<in> set devs. ports_documented d"
    and bus: "t_bus T = Inr devs" using assms by (auto simp: tool_ok_def)
  obtain L1 block us L2 where d: "discover_matching (t_consts T) (t_ids T) (t_qsort T) (t_bus T) (t_ctx T) True sp pp (typemask flags) L = Inr (L1, Inr (block, us))"
      "mset (map device_key us) = mset (candidates T devs sp pp flags)" "free_device_list (Some (block, us)) L1 = Inr L2"
      "live L2 = live L" "refs L2 = refs L" "ledger_ok L2"
    using discover_matching_ok [OF ok, of "t_consts T" "t_ids T" sp pp "typemask flags"] unfolding bus candidates_def by blast
  have len: "length us = length (candidates T devs sp pp flags)" using d(2) by (metis length_map size_mset)
  show ?thesis
  proof (cases "length us = 1")
    case True
    then obtain v where us: "us = [v]" by (auto simp: length_Suc_conv)
    then have "candidates T devs sp pp flags = [device_key v]" using d(2) by auto
    then have "map fst (candidates T devs sp pp flags) = [ud_lu v]" by (simp add: device_key_def)
    moreover have "device_search T sp pp flags L = Inr (ref_device (ud_lu v) L2, Some (ud_lu v))"
      using d(1) free_device_list_ref [OF d(3)] us by (simp add: device_search_def)
    ultimately show ?thesis using d(4-6) by (auto simp: ref_device_def ledger_ok_def)
  next
    case False
    then have "device_search T sp pp flags L = Inr (L2, None)" using d(1,3) by (simp add: device_search_def)
    then show ?thesis using d(4-6) False len by auto
  qed
qed

subsection \<open>Everything is given back\<close>

text \<open>Of what a command took, the ledger keeps only the cache's reference to its device, and the only handle that may be open is the cached one.\<close>

definition balanced :: "ledger \<Rightarrow> usb_cache \<Rightarrow> ledger \<Rightarrow> bool" where
  "balanced L0 c L \<longleftrightarrow> refs L = (\<lambda>i. refs L0 i + (if cache_dev c = Some i then 1 else 0)) \<and> live L = live L0 \<and>
    dom (open_handles c) \<subseteq> set_option (cache_handle c)"

lemma inv_balanced: "cache_inv L0 c L {} \<Longrightarrow> balanced L0 c L"
  by (auto simp: cache_inv_def balanced_def idle_def split: if_splits)

lemma inv_start: "refs L1 = refs L0 \<Longrightarrow> live L1 = live L0 \<Longrightarrow> cache_inv L0 empty_cache L1 {}"
  by (simp add: cache_inv_def empty_cache_def idle_def)

lemma fair_start: "fair_answers A dev claim empty_cache"
  by (simp add: fair_answers_def empty_cache_def cache_hit_def)

lemma unref_base:
  assumes "cache_inv (ref_device d L0) c L held"
  shows "\<exists>L'. unref_device d L = Inr L' \<and> cache_inv L0 c L' held"
proof -
  have r: "refs L = (\<lambda>i. refs (ref_device d L0) i + (if cache_dev c = Some i then 1 else 0))" using assms by (simp add: cache_inv_def)
  then have "refs L d \<noteq> 0" by (simp add: ref_device_def)
  moreover have "(refs L)(d := refs L d - 1) = (\<lambda>i. refs L0 i + (if cache_dev c = Some i then 1 else 0))"
    unfolding r by (simp add: ref_device_def fun_eq_iff)
  moreover have "live L = live L0" using assms by (simp add: cache_inv_def ref_device_def)
  ultimately show ?thesis using assms by (simp add: unref_device_def cache_inv_def)
qed

lemma close_up_ok:
  assumes "cache_inv (ref_device d L0) c L (set_option handle)"
  shows "\<exists>c' L'. close_up handle None None d (c, L) = Inr (c', L') \<and> cache_inv L0 c' L' {}"
proof (cases handle)
  case None
  then show ?thesis using unref_base [of d L0 c L "{}"] assms by (auto simp: close_up_def hotplug_cleanup_def)
next
  case (Some h)
  then obtain c' where c': "device_close h c = Inr c'" "cache_inv (ref_device d L0) c' L ({h} - {h})"
    using device_close_inv [of "ref_device d L0" c L "{h}" h] assms by auto
  then show ?thesis using unref_base [of d L0 c' L "{}"] Some by (auto simp: close_up_def hotplug_cleanup_def)
qed

text \<open>The frame of a command: the search, the open, and what is done with the handle.\<close>

lemma found_inv:
  assumes "tool_ok T devs L" "device_search T sp pp flags L = Inr (L1, Some d)"
  shows "cache_inv (ref_device d L) empty_cache L1 {}"
proof (rule inv_start)
  obtain L' r where "device_search T sp pp flags L = Inr (L', r)" "live L' = live L"
      "refs L' = refs (case r of None \<Rightarrow> L | Some d \<Rightarrow> ref_device d L)"
    using device_search_ok [OF assms(1), of sp pp flags] by blast
  then show "refs L1 = refs (ref_device d L)" "live L1 = live (ref_device d L)" using assms(2) by (auto simp: ref_device_def)
qed

lemma blink_standby_ok:
  assumes "tool_ok T devs L"
  shows "\<exists>c' L' u' ok. do_blink T E A sp pp pattern ((empty_cache, L), u) = Inr (((c', L'), u'), ok) \<and> balanced L c' L' \<and>
      (ok \<longrightarrow> length (candidates T devs sp pp SEARCH_PG2SDR) = 1 \<and> u' = fst (ctrl_led_pattern E u pattern 0) \<and> \<not> snd (ctrl_led_pattern E u pattern 0) < 0)"
    and "\<exists>c' L' u' ok. do_standby T E A sp pp ((empty_cache, L), u) = Inr (((c', L'), u'), ok) \<and> balanced L c' L' \<and>
      (let stop = ctrl_stop_transfer E u 0; off = ctrl_set_rf_power E (fst stop) (RF_POWER_OFF (proto E)) 0
       in (ok \<longrightarrow> length (candidates T devs sp pp SEARCH_PG2SDR) = 1 \<and> u' = fst off \<and> \<not> snd stop < 0 \<and> \<not> snd off < 0) \<and>
          (u' = u \<or> u' = fst off))"
proof -
  obtain L1 r where s: "device_search T sp pp SEARCH_PG2SDR L = Inr (L1, r)" "live L1 = live L"
      "refs L1 = refs (case r of None \<Rightarrow> L | Some d \<Rightarrow> ref_device d L)"
      "case r of None \<Rightarrow> True | Some d \<Rightarrow> map fst (candidates T devs sp pp SEARCH_PG2SDR) = [d]"
    using device_search_ok [OF assms, of sp pp SEARCH_PG2SDR] by (auto split: option.splits)
  have one: "length (candidates T devs sp pp SEARCH_PG2SDR) = 1" if "r = Some d" for d
  proof -
    have "map fst (candidates T devs sp pp SEARCH_PG2SDR) = [d]" using s(4) that by simp
    from arg_cong [OF this, of length] show ?thesis by simp
  qed
  have opened: "\<exists>c2 L2 handle c3 L3. device_open A d claim (empty_cache, L1) = Inr ((c2, L2), handle) \<and>
      close_up handle None None d (c2, L2) = Inr (c3, L3) \<and> balanced L c3 L3" if "r = Some d" for d claim
  proof -
    have inv: "cache_inv (ref_device d L) empty_cache L1 {}" using found_inv [OF assms] s(1) that by blast
    obtain c2 L2 handle where o: "device_open A d claim (empty_cache, L1) = Inr ((c2, L2), handle)"
        "case handle of None \<Rightarrow> cache_inv (ref_device d L) c2 L2 {}
         | Some h \<Rightarrow> cache_inv (ref_device d L) c2 L2 (insert h {}) \<and> open_handles c2 h = Some d \<and> h \<notin> {}"
      using device_open_inv [OF inv fair_start, of A d claim] by blast
    then have "cache_inv (ref_device d L) c2 L2 (set_option handle)" by (cases handle) simp_all
    then show ?thesis using o(1) close_up_ok inv_balanced by blast
  qed
  have none: "balanced L empty_cache L1" if "r = None"
    using that s(2,3) inv_balanced [OF inv_start [of L1 L]] by simp
  show "\<exists>c' L' u' ok. do_blink T E A sp pp pattern ((empty_cache, L), u) = Inr (((c', L'), u'), ok) \<and> balanced L c' L' \<and>
      (ok \<longrightarrow> length (candidates T devs sp pp SEARCH_PG2SDR) = 1 \<and> u' = fst (ctrl_led_pattern E u pattern 0) \<and> \<not> snd (ctrl_led_pattern E u pattern 0) < 0)"
  proof (cases r)
    case None
    then show ?thesis using s(1) none by (auto simp: do_blink_def)
  next
    case (Some d)
    obtain c2 L2 handle c3 L3 where o: "device_open A d False (empty_cache, L1) = Inr ((c2, L2), handle)"
        "close_up handle None None d (c2, L2) = Inr (c3, L3)" "balanced L c3 L3" using opened [OF Some] by blast
    then show ?thesis using s(1) Some one [OF Some]
      by (cases handle) (auto simp: do_blink_def split: prod.split)
  qed
  show "\<exists>c' L' u' ok. do_standby T E A sp pp ((empty_cache, L), u) = Inr (((c', L'), u'), ok) \<and> balanced L c' L' \<and>
      (let stop = ctrl_stop_transfer E u 0; off = ctrl_set_rf_power E (fst stop) (RF_POWER_OFF (proto E)) 0
       in (ok \<longrightarrow> length (candidates T devs sp pp SEARCH_PG2SDR) = 1 \<and> u' = fst off \<and> \<not> snd stop < 0 \<and> \<not> snd off < 0) \<and>
          (u' = u \<or> u' = fst off))"
  proof (cases r)
    case None
    then show ?thesis using s(1) none by (auto simp: do_standby_def)
  next
    case (Some d)
    obtain c2 L2 handle c3 L3 where o: "device_open A d True (empty_cache, L1) = Inr ((c2, L2), handle)"
        "close_up handle None None d (c2, L2) = Inr (c3, L3)" "balanced L c3 L3" using opened [OF Some] by blast
    then show ?thesis using s(1) Some one [OF Some]
      by (cases handle) (auto simp: do_standby_def split: prod.split)
  qed
qed

text \<open>The wait of a reset, from preparing it to cleaning it up.\<close>

lemma wait_cleanup_ok:
  assumes "live L = insert n L0" "n \<notin> L0" "hp_block st = n"
  shows "hotplug_cleanup (Some st) (with_refs L (hp_device st) (hp_maybe st)) = Inr (L\<lparr>live := L0\<rparr>)"
proof -
  have "release (Some n) L = Inr (L\<lparr>live := L0\<rparr>)" using assms(1,2) by (simp add: release_def)
  then show ?thesis using assms(3)
    by (cases "hp_device st"; cases "hp_maybe st") (simp_all add: hotplug_cleanup_def with_refs_None unref_with)
qed

lemma inv_ledger: "cache_inv L0 c L held \<Longrightarrow> refs L' = refs L \<Longrightarrow> live L' = live L \<Longrightarrow> cache_inv L0 c L' held"
  by (simp add: cache_inv_def)

lemma hotplug_prepare_cases:
  assumes "ledger_ok L"
  obtains L1 where "hotplug_prepare d e L = Inr (L1, None)" "refs L1 = refs L" "live L1 = live L"
  | L1 st where "hotplug_prepare d e L = Inr (L1, Some st)" "refs L1 = refs L" "live L1 = insert (hp_block st) (live L)"
      "hp_block st \<notin> live L" "hp_device st = None" "hp_maybe st = None" "\<not> hp_completed st"
proof -
  have n: "next_id L \<notin> live L" using assms by (auto simp: ledger_ok_def)
  define A where "A = L\<lparr>next_id := Suc (next_id L)\<rparr>"
  define B where "B = L\<lparr>live := insert (next_id L) (live L), next_id := Suc (next_id L)\<rparr>"
  have rel: "release (Some (next_id L)) B = Inr (B\<lparr>live := live L\<rparr>)" using n by (simp add: release_def B_def)
  consider "\<not> alloc_ok L (next_id L)" | e' where "alloc_ok L (next_id L)" "port_numbers d = Inl e'"
    | path where "alloc_ok L (next_id L)" "port_numbers d = Inr path" "e < 0"
    | path where "alloc_ok L (next_id L)" "port_numbers d = Inr path" "\<not> e < 0" by (cases "port_numbers d") auto
  then show ?thesis
  proof cases
    case 1
    then have "hotplug_prepare d e L = Inr (A, None)" by (simp add: hotplug_prepare_def alloc_failure A_def)
    then show ?thesis using that(1) by (simp add: A_def)
  next
    case 2
    then have "hotplug_prepare d e L = Inr (B\<lparr>live := live L\<rparr>, None)"
      using rel by (simp add: hotplug_prepare_def alloc_success B_def [symmetric])
    then show ?thesis using that(1) by (simp add: B_def)
  next
    case 3
    then have "hotplug_prepare d e L = Inr (B\<lparr>live := live L\<rparr>, None)"
      using rel by (simp add: hotplug_prepare_def alloc_success B_def [symmetric])
    then show ?thesis using that(1) by (simp add: B_def)
  next
    case 4
    then show ?thesis using that(2) [of B] n by (simp add: hotplug_prepare_def alloc_success B_def)
  qed
qed

text \<open>\<open>close_up\<close> with a wait to clean up, and possibly a device to let go.\<close>

lemma close_up_wait:
  assumes "hp_block st \<notin> live L"
  shows "close_up handle (map_option fst post) (Some st) d
      (c, (case post of None \<Rightarrow> id | Some p \<Rightarrow> ref_device (fst p))
         (with_refs (L\<lparr>live := insert (hp_block st) (live L)\<rparr>) (hp_device st) (hp_maybe st))) =
    close_up handle None None d (c, L)"
proof -
  define W where "W = with_refs (L\<lparr>live := insert (hp_block st) (live L)\<rparr>) (hp_device st) (hp_maybe st)"
  have "hotplug_cleanup (Some st) W = Inr L"
    using wait_cleanup_ok [of "L\<lparr>live := insert (hp_block st) (live L)\<rparr>" "hp_block st" "live L" st] assms by (simp add: W_def)
  moreover have "(case map_option fst post of None \<Rightarrow> Inr V | Some p \<Rightarrow> unref_device p V) = Inr W"
    if "V = (case post of None \<Rightarrow> id | Some p \<Rightarrow> ref_device (fst p)) W" for V
    using that by (cases post) (auto simp: unref_device_def ref_device_def)
  ultimately show ?thesis unfolding W_def [symmetric] by (simp add: close_up_def hotplug_cleanup_def)
qed

lemma after_reset_ok:
  assumes inv: "cache_inv (ref_device d L0) c L {h}"
    and hs: "case hs of None \<Rightarrow> M = L
      | Some st \<Rightarrow> hp_block st \<notin> live L \<and> M = with_refs (L\<lparr>live := insert (hp_block st) (live L)\<rparr>) (hp_device st) (hp_maybe st) \<and>
          (hp_completed st \<longleftrightarrow> hp_device st \<noteq> None)"
    and ret: "hs \<noteq> None \<longrightarrow> (\<exists>w \<in> set (re_rounds R). reached (deadline_of (re_start R)) (wr_now w))"
  shows "\<exists>c' L' ok. after_reset T R h d hs (c, M) = Some (Inr ((c', L'), ok)) \<and> balanced L0 c' L'"
proof -
  define c2 where "c2 = c\<lparr>open_handles := (open_handles c)(h := None)\<rparr>"
  have cl: "libusb_close h c = Inr c2" using inv by (auto simp: libusb_close_def c2_def cache_inv_def)
  have idle: "dom (open_handles c2) \<subseteq> set_option (cache_handle c2)"
    using inv by (auto simp: c2_def cache_inv_def idle_def dom_def split: if_splits)
  have fin: "\<exists>L'. close_up None None None d (c2, L) = Inr (c2, L') \<and> balanced L0 c2 L'"
  proof -
    obtain L' where "unref_device d L = Inr L'" "cache_inv L0 c L' {h}" using unref_base [OF inv] by blast
    then show ?thesis using idle by (auto simp: close_up_def hotplug_cleanup_def balanced_def cache_inv_def c2_def)
  qed
  show ?thesis
  proof (cases hs)
    case None
    then show ?thesis using hs cl fin by (auto simp: after_reset_def)
  next
    case (Some st)
    define N where "N = L\<lparr>live := insert (hp_block st) (live L)\<rparr>"
    have M: "M = with_refs N (hp_device st) (hp_maybe st)" "hp_block st \<notin> live L" and comp: "hp_completed st \<longleftrightarrow> hp_device st \<noteq> None"
      using hs Some by (auto simp: N_def)
    obtain r where r: "hotplug_await (t_ids T) (re_start R) (re_rounds R) (st, M) = Some r"
      using await_loop_returns [of "re_rounds R" "deadline_of (re_start R)" "t_ids T" "(st, M)"] ret Some by (auto simp: hotplug_await_def)
    obtain k ok where k: "let st' = foldl (arrive (t_ids T)) st (arrivals (deadline_of (re_start R)) (take k (re_rounds R)));
        p = (if ok then Option.bind (post_hotplug st') (\<lambda>p. if running_firmware (t_ids T) (snd p) then Some p else None) else None) in
      \<exists>L'. r = Inr ((st', L'), p) \<and> L' = (case p of None \<Rightarrow> id | Some p \<Rightarrow> ref_device (fst p)) (with_refs N (hp_device st') (hp_maybe st'))"
      using await_result [OF r [unfolded M(1)] comp] unfolding Let_def by blast
    define st2 where "st2 = foldl (arrive (t_ids T)) st (arrivals (deadline_of (re_start R)) (take k (re_rounds R)))"
    define post where "post = (if ok then Option.bind (post_hotplug st2) (\<lambda>p. if running_firmware (t_ids T) (snd p) then Some p else None) else None)"
    have w: "r = Inr ((st2, (case post of None \<Rightarrow> id | Some p \<Rightarrow> ref_device (fst p)) (with_refs N (hp_device st2) (hp_maybe st2))), post)"
        "hp_block st2 = hp_block st"
      using k unfolding Let_def st2_def [symmetric] post_def [symmetric] by (auto simp: st2_def foldl_arrive(1))
    have "close_up None (map_option fst post) (Some st2) d
        (c2, (case post of None \<Rightarrow> id | Some p \<Rightarrow> ref_device (fst p)) (with_refs N (hp_device st2) (hp_maybe st2))) = close_up None None None d (c2, L)"
      using close_up_wait [of st2 L None post d c2] M(2) by (simp add: w(2) N_def)
    then show ?thesis using Some cl r w(1) fin by (auto simp: after_reset_def)
  qed
qed

lemma reset_ok:
  assumes ok: "tool_ok T devs L"
    and ret: "wait \<longrightarrow> (\<exists>w \<in> set (re_rounds R). reached (deadline_of (re_start R)) (wr_now w))"
  shows "\<exists>c' L' u' ok. do_reset T E A R sp pp wait ((empty_cache, L), u) = Some (Inr (((c', L'), u'), ok)) \<and> balanced L c' L' \<and>
    (ok \<longrightarrow> length (candidates T devs sp pp SEARCH_PG2SDR) = 1 \<and> u' = fst (ctrl_reset E u 0) \<and> \<not> snd (ctrl_reset E u 0) < 0)"
proof -
  obtain L1 r where s: "device_search T sp pp SEARCH_PG2SDR L = Inr (L1, r)" "live L1 = live L" "ledger_ok L1"
      "refs L1 = refs (case r of None \<Rightarrow> L | Some d \<Rightarrow> ref_device d L)"
      "case r of None \<Rightarrow> True | Some d \<Rightarrow> map fst (candidates T devs sp pp SEARCH_PG2SDR) = [d]"
    using device_search_ok [OF ok, of sp pp SEARCH_PG2SDR] by (auto split: option.splits)
  show ?thesis
  proof (cases r)
    case None
    have "balanced L empty_cache L1" using None s(2,4) inv_balanced [OF inv_start [of L1 L]] by simp
    then show ?thesis using None s(1) by (auto simp: do_reset_def)
  next
    case (Some d)
    have "map fst (candidates T devs sp pp SEARCH_PG2SDR) = [d]" using s(5) Some by simp
    from arg_cong [OF this, of length] have one: "length (candidates T devs sp pp SEARCH_PG2SDR) = 1" by simp
    have inv: "cache_inv (ref_device d L) empty_cache L1 {}" using found_inv [OF ok] s(1) Some by blast
    obtain c2 L2 handle where o: "device_open A d False (empty_cache, L1) = Inr ((c2, L2), handle)"
        "case handle of None \<Rightarrow> cache_inv (ref_device d L) c2 L2 {}
         | Some h \<Rightarrow> cache_inv (ref_device d L) c2 L2 (insert h {}) \<and> open_handles c2 h = Some d \<and> h \<notin> {}"
      using device_open_inv [OF inv fair_start, of A d False] by blast
    have L2: "ledger_ok L2" using device_open_ledger [OF o(1)] s(3) by (auto simp: ledger_ok_def)
    show ?thesis
    proof (cases handle)
      case None
      then show ?thesis using s(1) Some o close_up_ok [of d L c2 L2 None] inv_balanced by (fastforce simp: do_reset_def)
    next
      case h: (Some h)
      have inv2: "cache_inv (ref_device d L) c2 L2 {h}" using o(2) h by simp
      obtain u2 e where rs: "ctrl_reset E u 0 = (u2, e)" by fastforce
      have failed: "\<exists>c' L'. close_up (Some h) None None d (c2, M) = Inr (c', L') \<and> balanced L c' L'"
        if "refs M = refs L2" "live M = live L2" for M
        using close_up_ok [of d L c2 M "Some h"] inv_ledger [OF inv2 that] inv_balanced by force
      show ?thesis
      proof (cases wait)
        case False
        then show ?thesis using s(1) Some o(1) h rs failed [of L2] one after_reset_ok [OF inv2, where hs = None and M = L2 and R = R and T = T]
          by (cases "e < 0") (fastforce simp: do_reset_def)+
      next
        case wait: True
        show ?thesis
        proof (rule hotplug_prepare_cases [OF L2, of "bus_entry T d" "re_register R"])
          fix L3 assume "hotplug_prepare (bus_entry T d) (re_register R) L2 = Inr (L3, None)" "refs L3 = refs L2" "live L3 = live L2"
          then show ?thesis using s(1) Some o(1) h wait failed [of L3] by (fastforce simp: do_reset_def)
        next
          fix L3 st assume p: "hotplug_prepare (bus_entry T d) (re_register R) L2 = Inr (L3, Some st)" "refs L3 = refs L2"
            "live L3 = insert (hp_block st) (live L2)" "hp_block st \<notin> live L2" "hp_device st = None" "hp_maybe st = None" "\<not> hp_completed st"
          define L4 where "L4 = L3\<lparr>live := live L2\<rparr>"
          define st1 where "st1 = foldl (arrive (t_ids T)) st (re_before R)"
          have L4: "refs L4 = refs L2" "live L4 = live L2" "L3 = L4\<lparr>live := insert (hp_block st1) (live L4)\<rparr>" "hp_block st1 \<notin> live L4"
            using p(2-4) foldl_arrive(1) by (simp_all add: L4_def st1_def)
          have dl: "deliver (t_ids T) (re_before R) (st, L3) = Inr (st1, with_refs L3 (hp_device st1) (hp_maybe st1))"
            using deliver_arrive [of "t_ids T" "re_before R" st L3] p(5,6) by (simp add: with_refs_None st1_def)
          have comp: "hp_completed st1 \<longleftrightarrow> hp_device st1 \<noteq> None"
            using foldl_arrive [of "t_ids T" st "re_before R"] p(5,7) by (simp add: st1_def)
          show ?thesis
          proof (cases "e < 0")
            case True
            have "close_up (Some h) None (Some st1) d (c2, with_refs L3 (hp_device st1) (hp_maybe st1)) = close_up (Some h) None None d (c2, L4)"
              using close_up_wait [OF L4(4), of "Some h" None d c2] by (simp add: L4(3) [symmetric])
            then show ?thesis using s(1) Some o(1) h wait rs p(1) dl True failed [OF L4(1,2)] by (fastforce simp: do_reset_def)
          next
            case False
            have "\<exists>c' L' ok. after_reset T R h d (Some st1) (c2, with_refs L3 (hp_device st1) (hp_maybe st1)) = Some (Inr ((c', L'), ok)) \<and> balanced L c' L'"
              by (rule after_reset_ok [OF inv_ledger [OF inv2 L4(1,2)]]) (use L4 comp ret wait in auto)
            then show ?thesis using s(1) Some o(1) h wait rs p(1) dl False one by (fastforce simp: do_reset_def)
          qed
        qed
      qed
    qed
  qed
qed


subsection \<open>A reset without waiting\<close>

definition demo_tool :: tool_env where
  "demo_tool = \<lparr>t_consts = libusb_1_0, t_ids = demo_ids, t_qsort = sort_by_serial, t_bus = Inr demo_bus, t_ctx = Some demo_ctx\<rparr>"

definition counting_env :: "nat usb_env" where
  "counting_env = \<lparr>libusb_control_transfer = (\<lambda>n c. (Suc n, 0, [])), lu = libusb_1_0, proto = sample_protocol\<rparr>"

definition no_events :: reset_env where
  "no_events = \<lparr>re_register = 0, re_before = [], re_start = \<lparr>tv_sec = 0, tv_usec = 0\<rparr>, re_rounds = []\<rparr>"

lemma demo_tool_ok: "tool_ok demo_tool demo_bus (demo_ledger (\<lambda>_. True))"
  using demo_ctx_ok sort_by_serial_sorts demo_ledger_ok demo_documented by (simp add: tool_ok_def demo_tool_def demo_ledger_def)


end
