(* ===== verification/Receiver.thy ===== *)
theory Receiver
  imports StreamProps Gain ConfigProps
begin

section \<open>The receiver program (cli/pg2-rx/pg2-rx.c)\<close>

text \<open>
  The program configures a device, streams from it and writes the samples to a file in one of five formats. Its
  stream callback is a \<open>stream_callback\<close> of theory StreamConvert, except that it may fault or not return, should \<open>write\<close>
  make no progress. What \<open>write\<close>, the clock and the signal handler do is a parameter. Option parsing, messages and the abort when
  memory runs out are left out. The host is little-endian.
\<close>

subsection \<open>Formats\<close>

datatype output_format_t = FMT_UINT8 | FMT_INT16 | FMT_INT32 | FMT_FLOAT32 | FMT_FLOAT64

fun bytes_per_value :: "output_format_t \<Rightarrow> nat" where
  "bytes_per_value FMT_UINT8 = 1"
| "bytes_per_value FMT_INT16 = 2"
| "bytes_per_value FMT_INT32 = 4"
| "bytes_per_value FMT_FLOAT32 = 4"
| "bytes_per_value FMT_FLOAT64 = 8"

text \<open>
  The quotient of a 16-bit integer and 32768 in an IEEE format with \<open>ew\<close> bits of exponent and \<open>mw\<close> bits of fraction. It is
  exact and normal in both formats, so nothing is rounded.
\<close>

fun top_bit :: "nat \<Rightarrow> nat" where
  "top_bit m = (if m < 2 then 0 else Suc (top_bit (m div 2)))"

declare top_bit.simps [simp del]

definition ieee_bits :: "nat \<Rightarrow> nat \<Rightarrow> int \<Rightarrow> nat" where
  "ieee_bits ew mw x =
    (if x = 0 then 0
     else let m = nat \<bar>x\<bar>; k = top_bit m
          in (if x < 0 then 1 else 0) * 2 ^ (ew + mw) + (2 ^ (ew - 1) - 1 + k - 15) * 2 ^ mw + (m - 2 ^ k) * 2 ^ (mw - k))"

fun value_bytes :: "output_format_t \<Rightarrow> i16 \<Rightarrow> u8 list" where
  "value_bytes FMT_UINT8 x = [word_of_int (sint x sdiv 256 + 128)]"
| "value_bytes FMT_INT16 x = le_bytes 2 x"
| "value_bytes FMT_INT32 x = le_bytes 4 (scast x :: i32)"
| "value_bytes FMT_FLOAT32 x = le_bytes 4 (of_nat (ieee_bits 8 23 (sint x)) :: u32)"
| "value_bytes FMT_FLOAT64 x = le_bytes 8 (of_nat (ieee_bits 11 52 (sint x)) :: u64)"

primrec int16_values :: "samples \<Rightarrow> i16 list" where
  "int16_values (Real_samples xs) = xs"
| "int16_values (Complex_samples zs) = concat (map (\<lambda>z. [ci z, cq z]) zs)"

definition int16_count :: "sample_buffer \<Rightarrow> nat" where
  "int16_count b = (if sb_mode b = MODE_BASEBAND then sb_count b * 2 else sb_count b)"

definition convert_samples :: "output_format_t \<Rightarrow> sample_buffer \<Rightarrow> u8 list run" where
  "convert_samples fmt b =
    (if length (int16_values (sb_samples b)) < int16_count b then Inl Out_of_bounds
     else Inr (concat (map (value_bytes fmt) (take (int16_count b) (int16_values (sb_samples b))))))"

subsection \<open>The stream callback\<close>

record timespec =
  sec :: int
  nsec :: int

record rx_state =
  next_timestamp :: u64
  total_samples :: u64
  total_dropped :: u64
  stop_flag :: bool
  write_error :: bool
  out_bytes :: "u8 list"
  write_calls :: nat
  rx_calls :: nat

text \<open>
  \<open>write_result n k\<close>: what the \<open>n\<close>-th call of \<open>write\<close> returns for \<open>k\<close> bytes. \<open>clock n\<close> and \<open>interrupted n\<close>: the time during the \<open>n\<close>-th call
  of the callback, and whether SIGINT has arrived by its end.
\<close>

record rx_env =
  output_format :: output_format_t
  sample_limit :: u64
  time_limit :: timespec
  write_result :: "nat \<Rightarrow> nat \<Rightarrow> int"
  clock :: "nat \<Rightarrow> timespec"
  interrupted :: "nat \<Rightarrow> bool"

partial_function (option) write_all :: "(nat \<Rightarrow> nat \<Rightarrow> int) \<Rightarrow> u8 list \<Rightarrow> rx_state \<Rightarrow> rx_state option" where
  "write_all W data s =
    (if data = [] then Some s
     else let count = W (write_calls s) (length data); s = s\<lparr>write_calls := Suc (write_calls s)\<rparr>
          in if count < 0 then Some (s\<lparr>write_error := True, stop_flag := True\<rparr>)
             else write_all W (drop (nat count) data) (s\<lparr>out_bytes := out_bytes s @ take (nat count) data\<rparr>))"

definition count_samples :: "sample_buffer \<Rightarrow> rx_state \<Rightarrow> rx_state" where
  "count_samples b s =
    (let s = (if next_timestamp s \<noteq> 0 \<and> next_timestamp s < sb_timestamp b
              then s\<lparr>total_dropped := total_dropped s + (sb_timestamp b - next_timestamp s)\<rparr> else s)
     in s\<lparr>next_timestamp := sb_timestamp b + of_nat (sb_count b), total_samples := total_samples s + of_nat (sb_count b)\<rparr>)"

definition time_is_up :: "timespec \<Rightarrow> timespec \<Rightarrow> bool" where
  "time_is_up limit now \<longleftrightarrow> sec limit \<noteq> 0 \<and> (sec limit < sec now \<or> sec now = nsec limit \<and> nsec limit \<le> nsec now)"

definition rx_callback :: "rx_env \<Rightarrow> rx_state \<Rightarrow> sample_buffer \<Rightarrow> (rx_state \<times> bool \<times> bool) run option" where
  "rx_callback R s b =
    (let s = count_samples b s
     in case convert_samples (output_format R) b of
          Inl f \<Rightarrow> Some (Inl f)
        | Inr data \<Rightarrow>
            map_option (\<lambda>s.
              let s = (if 0 < sample_limit R \<and> sample_limit R \<le> total_samples s + total_dropped s then s\<lparr>stop_flag := True\<rparr> else s);
                  s = (if time_is_up (time_limit R) (clock R (rx_calls s)) then s\<lparr>stop_flag := True\<rparr> else s);
                  s = (if interrupted R (rx_calls s) then s\<lparr>stop_flag := True\<rparr> else s)
              in Inr (s\<lparr>rx_calls := Suc (rx_calls s)\<rparr>, True, stop_flag s)) (write_all (write_result R) data s))"

text \<open>The callback on one buffer after another.\<close>

fun rx_run :: "rx_env \<Rightarrow> rx_state \<Rightarrow> sample_buffer list \<Rightarrow> rx_state run option" where
  "rx_run R s [] = Some (Inr s)"
| "rx_run R s (b # bs) =
    (case rx_callback R s b of
       None \<Rightarrow> None
     | Some (Inl f) \<Rightarrow> Some (Inl f)
     | Some (Inr (s, release, stop)) \<Rightarrow> rx_run R s bs)"

subsection \<open>Formats keep the samples\<close>

definition ieee_value :: "nat \<Rightarrow> nat \<Rightarrow> nat \<Rightarrow> rat" where
  "ieee_value ew mw n =
    (let f = n mod 2 ^ mw; e = (n div 2 ^ mw) mod 2 ^ ew; s = n div 2 ^ (ew + mw)
     in if e = 0 then 0
        else (if s = 0 then 1 else - 1) * (1 + of_nat f / 2 ^ mw) * 2 ^ e / 2 ^ (2 ^ (ew - 1) - 1))"

definition read_value :: "output_format_t \<Rightarrow> u8 list \<Rightarrow> rat" where
  "read_value fmt bs =
    (case fmt of
       FMT_UINT8 \<Rightarrow> (of_nat (unat (bs ! 0)) - 128) / 128
     | FMT_INT16 \<Rightarrow> of_int (sint (le_word bs :: i16)) / 32768
     | FMT_INT32 \<Rightarrow> of_int (sint (le_word bs :: i32)) / 32768
     | FMT_FLOAT32 \<Rightarrow> ieee_value 8 23 (unat (le_word bs :: u32))
     | FMT_FLOAT64 \<Rightarrow> ieee_value 11 52 (unat (le_word bs :: u64)))"

lemma top_bit_bounds: "0 < m \<Longrightarrow> 2 ^ top_bit m \<le> m \<and> m < 2 ^ Suc (top_bit m)"
proof (induction m rule: top_bit.induct)
  case (1 m)
  show ?case
  proof (cases "m < 2")
    case True
    then have "m = 1" "top_bit m = 0" using 1(2) by (simp, subst top_bit.simps, simp)
    then show ?thesis by simp
  next
    case False
    then have ih: "2 ^ top_bit (m div 2) \<le> m div 2" "m div 2 < 2 * 2 ^ top_bit (m div 2)" using 1 by simp_all
    have "top_bit m = Suc (top_bit (m div 2))" using False by (subst top_bit.simps) simp
    moreover have "2 * 2 ^ top_bit (m div 2) \<le> m" "m < 2 * (2 * 2 ^ top_bit (m div 2))" using ih by linarith+
    ultimately show ?thesis by simp
  qed
qed

lemma ieee_fields:
  fixes s e f :: nat
  assumes "f < 2 ^ mw" "e < 2 ^ ew"
  shows "(s * 2 ^ (ew + mw) + e * 2 ^ mw + f) mod 2 ^ mw = f"
    "(s * 2 ^ (ew + mw) + e * 2 ^ mw + f) div 2 ^ mw mod 2 ^ ew = e"
    "(s * 2 ^ (ew + mw) + e * 2 ^ mw + f) div 2 ^ (ew + mw) = s"
proof -
  have n: "s * 2 ^ (ew + mw) + e * 2 ^ mw + f = (s * 2 ^ ew + e) * 2 ^ mw + f" by (simp add: power_add algebra_simps)
  show "(s * 2 ^ (ew + mw) + e * 2 ^ mw + f) mod 2 ^ mw = f" unfolding n using assms(1) by simp
  have d: "(s * 2 ^ (ew + mw) + e * 2 ^ mw + f) div 2 ^ mw = s * 2 ^ ew + e" unfolding n using assms(1) by simp
  show "(s * 2 ^ (ew + mw) + e * 2 ^ mw + f) div 2 ^ mw mod 2 ^ ew = e" unfolding d using assms(2) by simp
  have "(s * 2 ^ (ew + mw) + e * 2 ^ mw + f) div 2 ^ (ew + mw) = (s * 2 ^ ew + e) div 2 ^ ew"
    by (simp only: d [symmetric] div_mult2_eq [symmetric] power_add mult.commute)
  then show "(s * 2 ^ (ew + mw) + e * 2 ^ mw + f) div 2 ^ (ew + mw) = s" using assms(2) by simp
qed

lemma ieee_exact:
  assumes x: "\<bar>x\<bar> \<le> 32768" and w: "15 \<le> mw" "6 \<le> ew"
  shows "ieee_value ew mw (ieee_bits ew mw x) = of_int x / 32768" "ieee_bits ew mw x < 2 ^ (1 + ew + mw)"
proof -
  have "ieee_value ew mw (ieee_bits ew mw x) = of_int x / 32768 \<and> ieee_bits ew mw x < 2 ^ (1 + ew + mw)"
  proof (cases "x = 0")
    case True
    then show ?thesis by (simp add: ieee_bits_def ieee_value_def)
  next
    case False
    define m where "m = nat \<bar>x\<bar>"
    define k where "k = top_bit m"
    define s where "s = (if x < 0 then 1 else 0 :: nat)"
    define B where "B = (2 ^ (ew - 1) - 1 :: nat)"
    define e where "e = B + k - 15"
    define f where "f = (m - 2 ^ k) * 2 ^ (mw - k)"
    have m: "0 < m" "m \<le> 32768" using False x by (simp_all add: m_def)
    have k: "2 ^ k \<le> m" "m < 2 * 2 ^ k" using top_bit_bounds [OF m(1)] by (simp_all add: k_def)
    have "k \<le> 15"
    proof (rule ccontr)
      assume "\<not> k \<le> 15"
      then have "(2 :: nat) ^ 16 \<le> 2 ^ k" by (intro power_increasing) simp_all
      then show False using k(1) m(2) by simp
    qed
    have "(2 :: nat) ^ 5 \<le> 2 ^ (ew - 1)" using w(2) by (intro power_increasing) simp_all
    then have B: "31 \<le> B" "B + 1 = 2 ^ (ew - 1)" by (simp_all add: B_def)
    have ew: "2 ^ ew = 2 * (B + 1)" using B(2) w(2) by (simp add: power_eq_if)
    have e: "0 < e" "e < 2 ^ ew" "B + k = e + 15" using \<open>k \<le> 15\<close> B(1) ew by (simp_all add: e_def)
    have mw: "2 ^ k * 2 ^ (mw - k) = (2 ^ mw :: nat)" using \<open>k \<le> 15\<close> w(1) by (simp flip: power_add)
    have f: "f < 2 ^ mw"
    proof -
      have "(m - 2 ^ k) * 2 ^ (mw - k) < 2 ^ k * 2 ^ (mw - k)" using k by (intro mult_strict_right_mono) simp_all
      then show ?thesis by (simp only: mw f_def)
    qed
    have bits: "ieee_bits ew mw x = s * 2 ^ (ew + mw) + e * 2 ^ mw + f"
      using False by (simp add: ieee_bits_def Let_def m_def [symmetric] k_def [symmetric] s_def B_def e_def f_def)
    have frac: "1 + of_nat f / 2 ^ mw = (of_nat m / 2 ^ k :: rat)"
    proof -
      have "of_nat f = (of_nat m - 2 ^ k) * (2 ^ (mw - k) :: rat)" using k(1) by (simp add: f_def of_nat_diff)
      moreover have "(2 ^ mw :: rat) = 2 ^ k * 2 ^ (mw - k)" using \<open>k \<le> 15\<close> w(1) by (simp flip: power_add)
      ultimately show ?thesis by (simp add: field_simps)
    qed
    have "(2 :: rat) ^ e * 2 ^ 15 = 2 ^ B * 2 ^ k" using e(3) by (simp only: power_add [symmetric] e(3))
    then have scale: "(of_nat m / 2 ^ k :: rat) * 2 ^ e / 2 ^ B = of_nat m / 32768" by (simp add: field_simps)
    have "of_int x = (if s = 0 then 1 else - 1) * (of_nat m :: rat)" using False by (simp add: s_def m_def)
    moreover have "ieee_value ew mw (ieee_bits ew mw x) = (if s = 0 then 1 else - 1) * (of_nat m / 32768)"
      unfolding ieee_value_def bits ieee_fields [OF f e(2)] Let_def B_def [symmetric] frac using e(1) scale by simp
    moreover have "s * 2 ^ (ew + mw) + e * 2 ^ mw + f < 2 ^ (1 + ew + mw)"
    proof -
      have "e * 2 ^ mw + f < (e + 1) * 2 ^ mw" using f by simp
      also have "\<dots> \<le> 2 ^ ew * 2 ^ mw" using e(2) by (intro mult_right_mono) simp_all
      finally have "e * 2 ^ mw + f < 2 ^ (ew + mw)" by (simp add: power_add)
      moreover have "s * 2 ^ (ew + mw) \<le> 2 ^ (ew + mw)" by (simp add: s_def)
      moreover have "2 ^ (1 + ew + mw) = 2 ^ (ew + mw) + (2 ^ (ew + mw) :: nat)" by simp
      ultimately show ?thesis by linarith
    qed
    ultimately show ?thesis by (simp add: bits)
  qed
  then show "ieee_value ew mw (ieee_bits ew mw x) = of_int x / 32768" "ieee_bits ew mw x < 2 ^ (1 + ew + mw)" by simp_all
qed

lemma sint_bounds: "\<bar>sint (x :: i16)\<bar> \<le> 32768"
  using sint_greater_eq [of x] sint_less [of x] by simp

lemma read_value_bytes:
  "if fmt = FMT_UINT8 then \<bar>read_value fmt (value_bytes fmt x) - of_int (sint x) / 32768\<bar> < 1 / 128
   else read_value fmt (value_bytes fmt x) = of_int (sint x) / 32768"
  "length (value_bytes fmt x) = bytes_per_value fmt"
proof -
  define y where "y = sint x"
  have y: "\<bar>y\<bar> \<le> 32768" using sint_bounds by (simp add: y_def)
  show "length (value_bytes fmt x) = bytes_per_value fmt" by (cases fmt) simp_all
  have small: "unat (of_nat (ieee_bits 8 23 y) :: u32) = ieee_bits 8 23 y" "unat (of_nat (ieee_bits 11 52 y) :: u64) = ieee_bits 11 52 y"
    using ieee_exact(2) [OF y, of 23 8] ieee_exact(2) [OF y, of 52 11] by (simp_all add: unat_of_nat_small)
  show "if fmt = FMT_UINT8 then \<bar>read_value fmt (value_bytes fmt x) - of_int (sint x) / 32768\<bar> < 1 / 128
   else read_value fmt (value_bytes fmt x) = of_int (sint x) / 32768"
  proof (cases fmt)
    case FMT_UINT8
    define q where "q = y sdiv 256"
    have q: "- 128 \<le> q" "q \<le> 127" "256 * q - y < 256" "y - 256 * q < 256"
      using y sint_less [of x] unfolding q_def y_def signed_divide_int_def by (auto simp: sgn_if abs_if)
    have "unat (word_of_int (q + 128) :: u8) = nat (q + 128)" 
    proof -
      have "word_of_int (q + 128) = (of_nat (nat (q + 128)) :: u8)" using q(1) by simp
      moreover have "unat (of_nat (nat (q + 128)) :: u8) = nat (q + 128)" using q(2) by (intro unat_of_nat_small) simp
      ultimately show ?thesis by simp
    qed
    then have v: "read_value fmt (value_bytes fmt x) = of_int q / 128"
      using q(1) by (simp add: FMT_UINT8 read_value_def q_def [symmetric] y_def [symmetric])
    have "\<bar>of_int (256 * q - y) :: rat\<bar> < of_int 256" using q(3,4) by (simp only: of_int_abs [symmetric] of_int_less_iff abs_less_iff) simp
    then have "\<bar>of_int q / 128 - of_int y / (32768 :: rat)\<bar> < 1 / 128" by (simp add: abs_less_iff field_simps)
    then have "\<bar>read_value fmt (value_bytes fmt x) - of_int (sint x) / 32768\<bar> < 1 / 128" unfolding v y_def .
    then show ?thesis using FMT_UINT8 by simp
  next
    case FMT_INT16
    then show ?thesis by (simp add: read_value_def le_word_le_bytes)
  next
    case FMT_INT32
    have "sint (scast x :: i32) = sint x" by (rule sint_up_scast) (simp add: is_up)
    then show ?thesis by (simp add: FMT_INT32 read_value_def le_word_le_bytes)
  next
    case FMT_FLOAT32
    then show ?thesis using ieee_exact(1) [OF y, of 23 8] by (simp add: read_value_def le_word_le_bytes small y_def [symmetric])
  next
    case FMT_FLOAT64
    then show ?thesis using ieee_exact(1) [OF y, of 52 11] by (simp add: read_value_def le_word_le_bytes small y_def [symmetric])
  qed
qed

lemma convert_samples_ok:
  "int16_count b = length (int16_values (sb_samples b)) \<Longrightarrow>
    convert_samples fmt b = Inr (concat (map (value_bytes fmt) (int16_values (sb_samples b))))"
  by (simp add: convert_samples_def)

lemma concat_same_length:
  assumes "\<forall>x. length (f x) = n" "i < length xs"
  shows "take n (drop (i * n) (concat (map f xs))) = f (xs ! i)"
  using assms(2)
proof (induction xs arbitrary: i)
  case (Cons x xs)
  show ?case
  proof (cases i)
    case 0
    then show ?thesis using assms(1) by simp
  next
    case (Suc j)
    then show ?thesis using Cons assms(1) by simp
  qed
qed simp

text \<open>C27: a buffer whose count is that of its samples is converted without a fault, and each value in the converted bytes,
  read in its format, is the sample divided by 32768: exactly in every format but \<open>uint8\<close>, and there within one step of 1/128.\<close>

theorem formats_exact:
  assumes "int16_count b = length (int16_values (sb_samples b))"
  shows "\<exists>bytes. convert_samples fmt b = Inr bytes \<and> length bytes = bytes_per_value fmt * int16_count b \<and>
    (\<forall>i < int16_count b.
       let v = read_value fmt (take (bytes_per_value fmt) (drop (i * bytes_per_value fmt) bytes));
           x = of_int (sint (int16_values (sb_samples b) ! i)) / 32768
       in if fmt = FMT_UINT8 then \<bar>v - x\<bar> < 1 / 128 else v = x)"
proof -
  have l: "\<forall>x. length (value_bytes fmt x) = bytes_per_value fmt" by (simp add: read_value_bytes(2))
  define xs where "xs = int16_values (sb_samples b)"
  define bytes where "bytes = concat (map (value_bytes fmt) xs)"
  have c: "convert_samples fmt b = Inr bytes" using convert_samples_ok [OF assms] by (simp add: bytes_def xs_def)
  have len: "length bytes = bytes_per_value fmt * int16_count b"
    unfolding bytes_def assms xs_def [symmetric] by (induction xs) (simp_all add: l)
  have v: "read_value fmt (take (bytes_per_value fmt) (drop (i * bytes_per_value fmt) bytes)) = read_value fmt (value_bytes fmt (xs ! i))"
    if "i < int16_count b" for i
    using that concat_same_length [OF l, of i xs] unfolding bytes_def assms xs_def [symmetric] by simp
  have "let v = read_value fmt (take (bytes_per_value fmt) (drop (i * bytes_per_value fmt) bytes)); x = of_int (sint (xs ! i)) / 32768
        in if fmt = FMT_UINT8 then \<bar>v - x\<bar> < 1 / 128 else v = x" if "i < int16_count b" for i
    unfolding Let_def v [OF that] by (rule read_value_bytes(1))
  then show ?thesis using c len unfolding xs_def by blast
qed

subsection \<open>What the program records\<close>

text \<open>What POSIX promises of \<open>write\<close> for a positive count: an error, or at least one byte and at most all of them.\<close>

definition write_ok :: "(nat \<Rightarrow> nat \<Rightarrow> int) \<Rightarrow> bool" where
  "write_ok W \<longleftrightarrow> (\<forall>n k. 0 < k \<longrightarrow> W n k < 0 \<or> 1 \<le> W n k \<and> W n k \<le> int k)"

lemma write_all_ok:
  assumes "write_ok W"
  shows "\<exists>n j err. write_all W data s = Some (s\<lparr>write_calls := n, out_bytes := out_bytes s @ take j data,
      write_error := write_error s \<or> err, stop_flag := stop_flag s \<or> err\<rparr>) \<and> (\<not> err \<longrightarrow> length data \<le> j)"
proof (induction "length data" arbitrary: data s rule: less_induct)
  case less
  show ?case
  proof (cases "data = []")
    case True
    then show ?thesis
      by (intro exI [of _ "write_calls s"] exI [of _ 0] exI [of _ False]) (subst write_all.simps, simp)
  next
    case False
    define c where "c = W (write_calls s) (length data)"
    define s1 where "s1 = s\<lparr>write_calls := Suc (write_calls s)\<rparr>"
    show ?thesis
    proof (cases "c < 0")
      case True
      then show ?thesis using False
        by (intro exI [of _ "Suc (write_calls s)"] exI [of _ 0] exI [of _ True]) (subst write_all.simps, simp add: c_def)
    next
      case progress: False
      define k where "k = nat c"
      have "0 < length data" using False by simp
      then have "1 \<le> c \<and> c \<le> int (length data)" using assms progress unfolding write_ok_def c_def by blast
      then have k: "1 \<le> k" "k \<le> length data" unfolding k_def by linarith+
      have step: "write_all W data s = write_all W (drop k data) (s1\<lparr>out_bytes := out_bytes s @ take k data\<rparr>)"
        using False progress by (subst write_all.simps) (simp add: c_def k_def s1_def Let_def)
      have "length (drop k data) < length data" using k False by simp
      from less [OF this, of "s1\<lparr>out_bytes := out_bytes s @ take k data\<rparr>"]
      obtain n j err where r: "write_all W (drop k data) (s1\<lparr>out_bytes := out_bytes s @ take k data\<rparr>) =
          Some (s1\<lparr>write_calls := n, out_bytes := (out_bytes s @ take k data) @ take j (drop k data),
            write_error := write_error s \<or> err, stop_flag := stop_flag s \<or> err\<rparr>)" "\<not> err \<longrightarrow> length (drop k data) \<le> j"
        by (elim exE conjE) (simp add: s1_def)
      have "take k data @ take j (drop k data) = take (k + j) data" by (simp add: take_add)
      then show ?thesis using step r k
        by (intro exI [of _ n] exI [of _ "k + j"] exI [of _ err]) (auto simp: s1_def)
    qed
  qed
qed

text \<open>One call of the callback on a buffer whose count is that of its samples.\<close>

definition converted :: "output_format_t \<Rightarrow> sample_buffer \<Rightarrow> u8 list" where
  "converted fmt b = concat (map (value_bytes fmt) (int16_values (sb_samples b)))"

lemma rx_callback_ok:
  assumes "write_ok (write_result R)" "int16_count b = length (int16_values (sb_samples b))"
  shows "\<exists>s'. rx_callback R s b = Some (Inr (s', True, stop_flag s')) \<and>
    next_timestamp s' = sb_timestamp b + of_nat (sb_count b) \<and>
    total_samples s' = total_samples s + of_nat (sb_count b) \<and>
    total_dropped s' = total_dropped (count_samples b s) \<and>
    (write_error s \<longrightarrow> write_error s') \<and>
    (\<not> write_error s' \<longrightarrow> out_bytes s' = out_bytes s @ converted (output_format R) b) \<and>
    (stop_flag s' \<longleftrightarrow> stop_flag s \<or> (write_error s' \<and> stop_flag s') \<or>
      (0 < sample_limit R \<and> sample_limit R \<le> total_samples s' + total_dropped s') \<or>
      time_is_up (time_limit R) (clock R (rx_calls s)) \<or> interrupted R (rx_calls s)) \<and>
    (write_error s' \<longrightarrow> write_error s \<or> stop_flag s') \<and> rx_calls s' = Suc (rx_calls s)"
proof -
  obtain n j err where w: "write_all (write_result R) (converted (output_format R) b) (count_samples b s) =
      Some ((count_samples b s)\<lparr>write_calls := n, out_bytes := out_bytes (count_samples b s) @ take j (converted (output_format R) b),
        write_error := write_error (count_samples b s) \<or> err, stop_flag := stop_flag (count_samples b s) \<or> err\<rparr>)"
      "\<not> err \<longrightarrow> length (converted (output_format R) b) \<le> j"
    using write_all_ok [OF assms(1)] by blast
  have same: "out_bytes (count_samples b s) = out_bytes s" "write_error (count_samples b s) = write_error s"
    "stop_flag (count_samples b s) = stop_flag s" "rx_calls (count_samples b s) = rx_calls s"
    "next_timestamp (count_samples b s) = sb_timestamp b + of_nat (sb_count b)"
    "total_samples (count_samples b s) = total_samples s + of_nat (sb_count b)"
    by (simp_all add: count_samples_def Let_def)
  show ?thesis
    using w convert_samples_ok [OF assms(2), of "output_format R", folded converted_def]
    by (auto simp: rx_callback_def Let_def same)
qed

text \<open>
  Buffers in the order of the stream: none is empty, none starts before the end of the one before, and the timestamps do not
  wrap. The count of each is that of its samples.
\<close>

fun timeline :: "u64 \<Rightarrow> sample_buffer list \<Rightarrow> bool" where
  "timeline n [] \<longleftrightarrow> True"
| "timeline n (b # bs) \<longleftrightarrow> n \<le> sb_timestamp b \<and> 0 < sb_count b \<and> unat (sb_timestamp b) + sb_count b < 2 ^ 64 \<and>
     int16_count b = length (int16_values (sb_samples b)) \<and> timeline (sb_timestamp b + of_nat (sb_count b)) bs"

definition rx_start :: rx_state where
  "rx_start = \<lparr>next_timestamp = 0, total_samples = 0, total_dropped = 0, stop_flag = False, write_error = False, out_bytes = [],
     write_calls = 0, rx_calls = 0\<rparr>"

lemma end_nonzero:
  fixes t :: u64
  assumes "0 < c" "unat t + c < 2 ^ 64"
  shows "t + of_nat c \<noteq> 0"
proof -
  have "unat (t + of_nat c) = unat t + c" using assms(2) by (simp add: unat_word_ariths unat_of_nat)
  then show ?thesis using assms(1) by force
qed

lemma rx_run_ok:
  assumes "write_ok (write_result R)" "timeline (next_timestamp s) bs" "next_timestamp s \<noteq> 0" "write_error s \<longrightarrow> stop_flag s"
    "0 < sample_limit R \<and> sample_limit R \<le> total_samples s + total_dropped s \<longrightarrow> stop_flag s"
  shows "\<exists>s'. rx_run R s bs = Some (Inr s') \<and>
    total_samples s' = total_samples s + of_nat (sum_list (map sb_count bs)) \<and>
    total_samples s' + total_dropped s' + next_timestamp s = total_samples s + total_dropped s + next_timestamp s' \<and>
    next_timestamp s' = (if bs = [] then next_timestamp s else sb_timestamp (last bs) + of_nat (sb_count (last bs))) \<and>
    (write_error s \<longrightarrow> write_error s') \<and>
    (\<not> write_error s' \<longrightarrow> out_bytes s' = out_bytes s @ concat (map (converted (output_format R)) bs)) \<and>
    (write_error s' \<longrightarrow> stop_flag s') \<and>
    (0 < sample_limit R \<and> sample_limit R \<le> total_samples s' + total_dropped s' \<longrightarrow> stop_flag s')"
  using assms(2-5)
proof (induction bs arbitrary: s)
  case Nil
  then show ?case by simp
next
  case (Cons b bs)
  have b: "next_timestamp s \<le> sb_timestamp b" "0 < sb_count b" "unat (sb_timestamp b) + sb_count b < 2 ^ 64"
      "int16_count b = length (int16_values (sb_samples b))" "timeline (sb_timestamp b + of_nat (sb_count b)) bs"
    using Cons.prems(1) by simp_all
  obtain s1 where s1: "rx_callback R s b = Some (Inr (s1, True, stop_flag s1))"
    "next_timestamp s1 = sb_timestamp b + of_nat (sb_count b)" "total_samples s1 = total_samples s + of_nat (sb_count b)"
    "total_dropped s1 = total_dropped (count_samples b s)" "write_error s \<longrightarrow> write_error s1"
    "\<not> write_error s1 \<longrightarrow> out_bytes s1 = out_bytes s @ converted (output_format R) b"
    "stop_flag s1 \<longleftrightarrow> stop_flag s \<or> (write_error s1 \<and> stop_flag s1) \<or>
      (0 < sample_limit R \<and> sample_limit R \<le> total_samples s1 + total_dropped s1) \<or>
      time_is_up (time_limit R) (clock R (rx_calls s)) \<or> interrupted R (rx_calls s)"
    "write_error s1 \<longrightarrow> write_error s \<or> stop_flag s1"
    using rx_callback_ok [OF assms(1) b(4), of s] by blast
  have d: "total_dropped s1 + next_timestamp s = total_dropped s + sb_timestamp b"
    using b(1) Cons.prems(2) by (auto simp: s1(4) count_samples_def Let_def)
  have "timeline (next_timestamp s1) bs" "next_timestamp s1 \<noteq> 0" "write_error s1 \<longrightarrow> stop_flag s1"
    "0 < sample_limit R \<and> sample_limit R \<le> total_samples s1 + total_dropped s1 \<longrightarrow> stop_flag s1"
    using b(5) end_nonzero [OF b(2,3)] s1(2,7,8) Cons.prems(3) by auto
  from Cons.IH [OF this] obtain s' where s': "rx_run R s1 bs = Some (Inr s')"
    "total_samples s' = total_samples s1 + of_nat (sum_list (map sb_count bs))"
    "total_samples s' + total_dropped s' + next_timestamp s1 = total_samples s1 + total_dropped s1 + next_timestamp s'"
    "next_timestamp s' = (if bs = [] then next_timestamp s1 else sb_timestamp (last bs) + of_nat (sb_count (last bs)))"
    "write_error s1 \<longrightarrow> write_error s'"
    "\<not> write_error s' \<longrightarrow> out_bytes s' = out_bytes s1 @ concat (map (converted (output_format R)) bs)"
    "write_error s' \<longrightarrow> stop_flag s'"
    "0 < sample_limit R \<and> sample_limit R \<le> total_samples s' + total_dropped s' \<longrightarrow> stop_flag s'" by blast
  have "total_samples s' + total_dropped s' + next_timestamp s = total_samples s + total_dropped s + next_timestamp s'"
  proof -
    have "(total_samples s' + total_dropped s' + next_timestamp s) + next_timestamp s1 =
        (total_samples s' + total_dropped s' + next_timestamp s1) + next_timestamp s" by (simp only: ac_simps)
    also have "\<dots> = total_samples s1 + (total_dropped s1 + next_timestamp s) + next_timestamp s'"
      unfolding s'(3) by (simp only: ac_simps)
    also have "\<dots> = (total_samples s + total_dropped s + next_timestamp s') + next_timestamp s1"
      unfolding d s1(2,3) by (simp only: ac_simps)
    finally show ?thesis by simp
  qed
  then show ?case using s1 s' by (intro exI [of _ s'] conjI) (auto simp: algebra_simps)
qed

text \<open>C26: on a stream of buffers in order, the program's callback always returns, whatever partial counts \<open>write\<close> answers with.
  The samples it counts are those it was given, and with those it counts as dropped they make up the whole time between the
  first sample and the last. Unless it records a write error, the file holds the converted samples of every buffer in order. It
  asks the stream to stop after a write error, and once the sample limit is reached.\<close>

theorem rx_records:
  assumes "write_ok (write_result R)" "timeline 0 bs" "bs \<noteq> []"
  shows "\<exists>s. rx_run R rx_start bs = Some (Inr s) \<and>
    total_samples s = of_nat (sum_list (map sb_count bs)) \<and>
    total_samples s + total_dropped s = sb_timestamp (last bs) + of_nat (sb_count (last bs)) - sb_timestamp (hd bs) \<and>
    (\<not> write_error s \<longrightarrow> out_bytes s = concat (map (converted (output_format R)) bs)) \<and>
    (write_error s \<or> 0 < sample_limit R \<and> sample_limit R \<le> total_samples s + total_dropped s \<longrightarrow> stop_flag s)"
proof -
  obtain b rest where bs: "bs = b # rest" using assms(3) by (cases bs) auto
  have b: "0 < sb_count b" "unat (sb_timestamp b) + sb_count b < 2 ^ 64"
      "int16_count b = length (int16_values (sb_samples b))" "timeline (sb_timestamp b + of_nat (sb_count b)) rest"
    using assms(2) by (simp_all add: bs)
  have fresh: "\<not> write_error rx_start" "out_bytes rx_start = []" "total_samples rx_start = 0" "total_dropped (count_samples b rx_start) = 0"
    by (simp_all add: rx_start_def count_samples_def Let_def)
  obtain s1 where s1: "rx_callback R rx_start b = Some (Inr (s1, True, stop_flag s1))"
    "next_timestamp s1 = sb_timestamp b + of_nat (sb_count b)" "total_samples s1 = of_nat (sb_count b)" "total_dropped s1 = 0"
    "\<not> write_error s1 \<longrightarrow> out_bytes s1 = converted (output_format R) b"
    "0 < sample_limit R \<and> sample_limit R \<le> total_samples s1 + total_dropped s1 \<longrightarrow> stop_flag s1"
    "write_error s1 \<longrightarrow> stop_flag s1"
    using rx_callback_ok [OF assms(1) b(3), of rx_start] by (elim exE conjE) (simp only: fresh append_Nil add_0_left, blast)
  have t: "timeline (next_timestamp s1) rest" "next_timestamp s1 \<noteq> 0" using b(4) end_nonzero [OF b(1,2)] s1(2) by simp_all
  obtain s where s: "rx_run R s1 rest = Some (Inr s)"
    "total_samples s = total_samples s1 + of_nat (sum_list (map sb_count rest))"
    "total_samples s + total_dropped s + next_timestamp s1 = total_samples s1 + total_dropped s1 + next_timestamp s"
    "next_timestamp s = (if rest = [] then next_timestamp s1 else sb_timestamp (last rest) + of_nat (sb_count (last rest)))"
    "write_error s1 \<longrightarrow> write_error s"
    "\<not> write_error s \<longrightarrow> out_bytes s = out_bytes s1 @ concat (map (converted (output_format R)) rest)"
    "write_error s \<longrightarrow> stop_flag s"
    "0 < sample_limit R \<and> sample_limit R \<le> total_samples s + total_dropped s \<longrightarrow> stop_flag s"
    using rx_run_ok [OF assms(1) t s1(7) s1(6)] by blast
  have e: "next_timestamp s = sb_timestamp (last bs) + of_nat (sb_count (last bs))" using s(4) s1(2) by (simp add: bs)
  have "total_samples s + total_dropped s = next_timestamp s - sb_timestamp b"
    using s(3) s1(2-4) by (simp add: algebra_simps)
  then show ?thesis using s s1 e by (intro exI [of _ s]) (auto simp: bs)
qed

text \<open>Two buffers with six samples lost between them; each \<open>write\<close> takes one byte.\<close>

definition demo_rx :: rx_env where
  "demo_rx = \<lparr>output_format = FMT_FLOAT32, sample_limit = 10, time_limit = \<lparr>sec = 0, nsec = 0\<rparr>, write_result = (\<lambda>n k. 1),
     clock = (\<lambda>n. \<lparr>sec = 0, nsec = 0\<rparr>), interrupted = (\<lambda>n. False)\<rparr>"

definition demo_rx_buffers :: "sample_buffer list" where
  "demo_rx_buffers =
    [\<lparr>sb_mode = MODE_LOWIF_REAL, sb_samples = Real_samples [-32768, 5], sb_count = 2, sb_timestamp = 100\<rparr>,
     \<lparr>sb_mode = MODE_LOWIF_REAL, sb_samples = Real_samples [0, 1, 2], sb_count = 3, sb_timestamp = 108\<rparr>]"

theorem formats_exact_witness:
  "\<exists>bytes. convert_samples FMT_FLOAT32 (hd demo_rx_buffers) = Inr bytes \<and> length bytes = 8 \<and>
     read_value FMT_FLOAT32 (take 4 bytes) = - 1"
  using formats_exact [of "hd demo_rx_buffers" FMT_FLOAT32]
  by (fastforce simp: demo_rx_buffers_def int16_count_def Let_def dest: spec [of _ 0])

theorem rx_records_witness:
  "\<exists>s. rx_run demo_rx rx_start demo_rx_buffers = Some (Inr s) \<and> total_samples s = 5 \<and> total_samples s + total_dropped s = 11 \<and>
     stop_flag s"
proof -
  have "write_ok (write_result demo_rx)" "timeline 0 demo_rx_buffers" "demo_rx_buffers \<noteq> []"
    by (simp_all add: write_ok_def demo_rx_def demo_rx_buffers_def int16_count_def)
  from rx_records [OF this] show ?thesis
    by (elim exE) (rule exI, auto simp: demo_rx_buffers_def demo_rx_def word_less_nat_alt word_le_nat_alt)
qed

subsection \<open>Configuring the device\<close>

record rx_options =
  opt_buffer_size :: u32
  opt_mode :: conversion_mode
  opt_sideband :: sideband_mode
  opt_rate :: double
  opt_frequency :: double
  opt_bandwidth :: double
  opt_gain :: double
  opt_adc_limit :: double
  opt_decimation :: int
  opt_undersampling :: u32

text \<open>One call after another; the program gives up at the first error.\<close>

fun until_error :: "('d \<Rightarrow> ('d \<times> int) run) list \<Rightarrow> 'd \<Rightarrow> ('d \<times> int) run" where
  "until_error [] d = Inr (d, PG2SDR_SUCCESS)"
| "until_error (f # fs) d = run_bind (f d) (\<lambda>(d, error). if error < 0 then Inr (d, error) else until_error fs d)"

definition rx_bandpass :: "rx_options \<Rightarrow> double \<times> double" where
  "rx_bandpass opts =
    (case opt_mode opts of
       MODE_BASEBAND \<Rightarrow> (rd (- opt_bandwidth opts / 2), rd (opt_bandwidth opts / 2))
     | MODE_LOWIF_REAL \<Rightarrow>
         (case opt_sideband opts of SIDEBAND_UPPER \<Rightarrow> (0, opt_bandwidth opts) | SIDEBAND_LOWER \<Rightarrow> (- opt_bandwidth opts, 0)))"

definition rx_configure ::
  "'u usb_env \<Rightarrow> p_i_table option \<Rightarrow> rx_options \<Rightarrow> 'u device option \<Rightarrow> ('u device option \<times> int) run" where
  "rx_configure E tab opts =
    until_error
     ([\<lambda>d. set_buffer_size d (ucast (opt_buffer_size opts)),
       \<lambda>d. set_conversion_mode d (Some (opt_mode opts)),
       \<lambda>d. set_sideband d (Some (opt_sideband opts)),
       \<lambda>d. set_sample_rate d (opt_rate opts),
       \<lambda>d. set_frequency d (opt_frequency opts)] @
      (if 0 < opt_bandwidth opts then [\<lambda>d. set_bandpass d (fst (rx_bandpass opts)) (snd (rx_bandpass opts))] else []) @
      [\<lambda>d. set_total_gain_db E d (opt_gain opts)] @
      (if 0 < opt_adc_limit opts then [\<lambda>d. set_adc_limit d (opt_adc_limit opts)] else []) @
      [\<lambda>d. set_decimation_mode d (opt_decimation opts),
       \<lambda>d. set_undersampling_mode d (opt_undersampling opts),
       \<lambda>d. apply_changes E tab d])"

text \<open>The gain is no part of the settings the invariant of the configuration is about.\<close>

lemma rate_settings_gain [simp]:
  "rate_settings tab (d\<lparr>lna_gain := x\<rparr>) = rate_settings tab d"
  "rate_settings tab (d\<lparr>mix_gain := x\<rparr>) = rate_settings tab d"
  "rate_settings tab (d\<lparr>vga_gain := x\<rparr>) = rate_settings tab d"
  "rate_settings tab (d\<lparr>current_gain_entry := y\<rparr>) = rate_settings tab d"
  by (simp_all add: rate_settings_def choose_decimation_def
      cong del: if_weak_cong conversion_mode.case_cong_weak option.case_cong_weak prod.case_cong_weak)

lemma lo_target_gain [simp]:
  "lo_target (d\<lparr>lna_gain := x\<rparr>) = lo_target d"
  "lo_target (d\<lparr>mix_gain := x\<rparr>) = lo_target d"
  "lo_target (d\<lparr>vga_gain := x\<rparr>) = lo_target d"
  "lo_target (d\<lparr>current_gain_entry := y\<rparr>) = lo_target d"
  by (simp_all add: lo_target_def lo_offset_def undersampling_offset_def Let_def
      cong del: if_weak_cong conversion_mode.case_cong_weak)

lemma wanted_filter_gain [simp]:
  "wanted_filter (d\<lparr>lna_gain := x\<rparr>) = wanted_filter d"
  "wanted_filter (d\<lparr>mix_gain := x\<rparr>) = wanted_filter d"
  "wanted_filter (d\<lparr>vga_gain := x\<rparr>) = wanted_filter d"
  "wanted_filter (d\<lparr>current_gain_entry := y\<rparr>) = wanted_filter d"
  by (simp_all add: wanted_filter_def if_limits_def center_if_frequency_def lo_offset_def undersampling_offset_def
      select_bandpass_filter_def Let_def
      cong del: if_weak_cong conversion_mode.case_cong_weak sideband_mode.case_cong_weak)

lemma config_inv_gain [simp]:
  "config_inv tab (d\<lparr>lna_gain := x\<rparr>) = config_inv tab d"
  "config_inv tab (d\<lparr>mix_gain := x\<rparr>) = config_inv tab d"
  "config_inv tab (d\<lparr>vga_gain := x\<rparr>) = config_inv tab d"
  "config_inv tab (d\<lparr>current_gain_entry := y\<rparr>) = config_inv tab d"
  by (simp_all add: config_defs)

text \<open>What no change of the configuration touches.\<close>

definition requests :: "'u device \<Rightarrow> _" where
  "requests d = (buffer_size d, conv_mode d, sideband d, requested_sample_rate d, requested_frequency d,
     requested_bandpass_low d, requested_bandpass_high d, adc_limit d, decimation_mode d, undersampling_mode d,
     gain_table d, current_gain_entry d, lna_gain d, mix_gain d, vga_gain d)"

lemma requests_update [simp]:
  "requests (d\<lparr>usb := u\<rparr>) = requests d"
  "requests (d\<lparr>changing_rate := b\<rparr>) = requests d"
  "requests (d\<lparr>changing_freq := b\<rparr>) = requests d"
  "requests (d\<lparr>changing_bandpass := b\<rparr>) = requests d"
  "requests (d\<lparr>tuner_config := t\<rparr>) = requests d"
  "requests (d\<lparr>current_bandpass_entry := k\<rparr>) = requests d"
  "requests (d\<lparr>adc_config := c, usb_transfer_size := n, adc_samples_per_transfer := n', adc_samples_per_user_sample := n'',
     post_decimation := m\<rparr>) = requests d"
  by (simp_all add: requests_def)

lemma apply_rate_change_requests: "apply_rate_change tab d = Inr (d', e) \<Longrightarrow> requests d' = requests d"
  by (auto simp: apply_rate_change_def run_bind_def split: if_splits sum.splits option.splits prod.splits)

lemma apply_freq_change_requests:
  assumes "apply_freq_change E d = Inr (d', e)"
  shows "requests d' = requests d"
proof (cases rule: find_pll_result [of "lo_target d" "of_nat (unat (tuner_xtal d))"])
  case 1
  then show ?thesis using assms by (auto simp: apply_freq_change_def simp del: of_nat_unat split: if_splits)
next
  case (2 c)
  from start_pll_frame [OF 2(3), of E d] show ?thesis
    using assms by (auto simp: apply_freq_change_def 2(1) simp del: of_nat_unat split: if_splits)
qed

lemma apply_bandpass_change_requests:
  assumes "apply_bandpass_change E d = Inr (d', e)"
  shows "requests d' = requests d"
proof (cases "\<not> adc_valid (adc_config d) \<or> changing_rate d \<or> (\<exists>f. wanted_filter d = Inl f)")
  case True
  then show ?thesis using assms by (auto simp: apply_bandpass_change_def split: if_splits)
next
  case False
  then obtain k where k: "wanted_filter d = Inr k" by (cases "wanted_filter d") auto
  obtain cs where "tuner_set_bandpass E d (Some (bandpass_table d ! k)) = Inr (apply_tuner_changeset E d cs)"
    by (simp add: tuner_set_bandpass_def)
  moreover obtain d1 e1 where ap: "apply_tuner_changeset E d cs = (d1, e1)" by fastforce
  moreover obtain u where "d1 = d\<lparr>usb := u\<rparr>" using apply_tuner_changeset_usb [OF ap] by blast
  ultimately show ?thesis using assms False k
    by (auto simp: apply_bandpass_change_def Let_def split: if_splits)
qed

lemma stage_requests:
  assumes "stage pending f fin rest d = Inr (d', e)"
    "\<And>d1 e. f d = Inr (d1, e) \<Longrightarrow> requests d1 = requests d" "\<And>d. requests (fin d) = requests d"
    "\<And>d1. rest d1 = Inr (d', e) \<Longrightarrow> requests d' = requests d1"
  shows "requests d' = requests d"
  using assms by (auto simp: stage_def run_bind_def split: if_splits sum.splits prod.splits)

lemma apply_changes_requests:
  assumes "CHECK_DEV (Some d) = PG2SDR_SUCCESS" "apply_changes E tab (Some d) = Inr (Some d', e)"
  shows "requests d' = requests d"
proof -
  have "run_bind (stage (changing_rate d) (apply_rate_change tab)
      (\<lambda>d. d\<lparr>changing_rate := False, changing_freq := True, changing_bandpass := True\<rparr>)
      (\<lambda>d. stage (changing_freq d) (apply_freq_change E) (\<lambda>d. d\<lparr>changing_freq := False\<rparr>)
        (\<lambda>d. stage (changing_bandpass d) (apply_bandpass_change E) (\<lambda>d. d\<lparr>changing_bandpass := False\<rparr>)
          (\<lambda>d. Inr (d, PG2SDR_SUCCESS)) d) d) d) (\<lambda>(d', r). Inr (Some d', r)) = Inr (Some d', e)"
    using assms(2) unfolding apply_changes_def with_dev_ok [OF assms(1)] .
  then have run: "stage (changing_rate d) (apply_rate_change tab)
      (\<lambda>d. d\<lparr>changing_rate := False, changing_freq := True, changing_bandpass := True\<rparr>)
      (\<lambda>d. stage (changing_freq d) (apply_freq_change E) (\<lambda>d. d\<lparr>changing_freq := False\<rparr>)
        (\<lambda>d. stage (changing_bandpass d) (apply_bandpass_change E) (\<lambda>d. d\<lparr>changing_bandpass := False\<rparr>)
          (\<lambda>d. Inr (d, PG2SDR_SUCCESS)) d) d) d = Inr (d', e)"
    by (auto simp: run_bind_def split: sum.splits prod.splits)
  show ?thesis
    apply (rule stage_requests [OF run apply_rate_change_requests], assumption, simp)
    apply (erule stage_requests [OF _ apply_freq_change_requests], assumption, simp)
    apply (erule stage_requests [OF _ apply_bandpass_change_requests], assumption, simp)
    apply simp
    done
qed

text \<open>
  A sequence of calls that starts in \<open>P\<close>: it meets the undefined conversion, or fails in \<open>I\<close>, or succeeds in \<open>Q\<close>.
\<close>

definition triple ::
  "('u device \<Rightarrow> bool) \<Rightarrow> ('u device option \<Rightarrow> ('u device option \<times> int) run) list \<Rightarrow> ('u device \<Rightarrow> bool) \<Rightarrow> ('u device \<Rightarrow> bool) \<Rightarrow> bool" where
  "triple P fs Q I \<longleftrightarrow> (\<forall>d. P d \<longrightarrow> until_error fs (Some d) = Inl Undefined_conversion \<or>
     (\<exists>d' e. until_error fs (Some d) = Inr (Some d', e) \<and> (e < 0 \<and> I d' \<or> e = PG2SDR_SUCCESS \<and> Q d')))"

lemma triple_Nil [intro]: "(\<And>d. P d \<Longrightarrow> Q d) \<Longrightarrow> triple P [] Q I"
  by (simp add: triple_def)

lemma triple_Cons:
  assumes "\<And>d. P d \<Longrightarrow> f (Some d) = Inl Undefined_conversion \<or>
      (\<exists>d' e. f (Some d) = Inr (Some d', e) \<and> (e < 0 \<and> I d' \<or> e = PG2SDR_SUCCESS \<and> Q d'))"
    and "triple Q fs R I"
  shows "triple P (f # fs) R I"
  unfolding triple_def
proof (intro allI impI)
  fix d
  assume "P d"
  from assms(1) [OF this] consider "f (Some d) = Inl Undefined_conversion"
    | d' e where "f (Some d) = Inr (Some d', e)" "e < 0" "I d'" | d' where "f (Some d) = Inr (Some d', PG2SDR_SUCCESS)" "Q d'"
    by blast
  then show "until_error (f # fs) (Some d) = Inl Undefined_conversion \<or>
     (\<exists>d' e. until_error (f # fs) (Some d) = Inr (Some d', e) \<and> (e < 0 \<and> I d' \<or> e = PG2SDR_SUCCESS \<and> R d'))"
    using assms(2) by cases (auto simp: triple_def)
qed

lemma triple_optional:
  assumes "b \<Longrightarrow> triple P (f # fs) R I" "\<not> b \<Longrightarrow> triple P fs R I"
  shows "triple P ((if b then [f] else []) @ fs) R I"
  using assms by simp

text \<open>The device after the first \<open>n\<close> calls.\<close>

definition asked :: "p_i_table option \<Rightarrow> rx_options \<Rightarrow> nat \<Rightarrow> 'u device \<Rightarrow> bool" where
  "asked tab opts n d \<longleftrightarrow> config_inv tab d \<and> gain_inv d \<and>
    (0 < n \<longrightarrow> buffer_size d = ucast (opt_buffer_size opts)) \<and>
    (1 < n \<longrightarrow> conv_mode d = opt_mode opts) \<and>
    (2 < n \<longrightarrow> sideband d = opt_sideband opts) \<and>
    (3 < n \<longrightarrow> requested_sample_rate d = opt_rate opts) \<and>
    (4 < n \<longrightarrow> requested_frequency d = opt_frequency opts) \<and>
    (5 < n \<and> 0 < opt_bandwidth opts \<longrightarrow> (requested_bandpass_low d, requested_bandpass_high d) = rx_bandpass opts) \<and>
    (6 < n \<longrightarrow> current_gain_entry d = Some (nearest_loop (gain_table d) (opt_gain opts) 0 [1..<length (gain_table d)])) \<and>
    (7 < n \<and> 0 < opt_adc_limit opts \<longrightarrow> adc_limit d = opt_adc_limit opts) \<and>
    (8 < n \<longrightarrow> decimation_mode d = opt_decimation opts) \<and>
    (9 < n \<longrightarrow> undersampling_mode d = opt_undersampling opts)"

lemma asked_inv: "asked tab opts n d \<Longrightarrow> config_inv tab d" "asked tab opts n d \<Longrightarrow> gain_inv d"
    "asked tab opts n d \<Longrightarrow> CHECK_DEV (Some d) = PG2SDR_SUCCESS"
  by (simp_all add: asked_def config_inv_def)

lemma gain_inv_settings [simp]:
  "gain_inv (d\<lparr>buffer_size := x0\<rparr>) = gain_inv d"
  "gain_inv (d\<lparr>conv_mode := x1\<rparr>) = gain_inv d"
  "gain_inv (d\<lparr>sideband := x2\<rparr>) = gain_inv d"
  "gain_inv (d\<lparr>requested_sample_rate := x3\<rparr>) = gain_inv d"
  "gain_inv (d\<lparr>requested_frequency := x4\<rparr>) = gain_inv d"
  "gain_inv (d\<lparr>requested_bandpass_low := x5\<rparr>) = gain_inv d"
  "gain_inv (d\<lparr>requested_bandpass_high := x6\<rparr>) = gain_inv d"
  "gain_inv (d\<lparr>adc_limit := x7\<rparr>) = gain_inv d"
  "gain_inv (d\<lparr>decimation_mode := x8\<rparr>) = gain_inv d"
  "gain_inv (d\<lparr>undersampling_mode := x9\<rparr>) = gain_inv d"
  "gain_inv (d\<lparr>changing_rate := x10\<rparr>) = gain_inv d"
  "gain_inv (d\<lparr>changing_freq := x11\<rparr>) = gain_inv d"
  "gain_inv (d\<lparr>changing_bandpass := x12\<rparr>) = gain_inv d"
  by (simp_all add: gain_inv_def CHECK_DEV_def)

text \<open>One setter: that it keeps the invariant of the configuration is known, what else it does is read off its definition.\<close>

lemma setter_triple:
  fixes f :: "'u device option \<Rightarrow> ('u device option \<times> int) run"
  assumes "\<And>d. asked tab opts n d \<Longrightarrow> \<exists>d' e. f (Some d) = Inr (Some d', e) \<and>
      (e < 0 \<or> e = PG2SDR_SUCCESS \<and> (config_inv tab d' \<longrightarrow> asked tab opts m d'))"
    and "\<And>d. f (Some d) = config_exec E tab (Some d) p"
    and "triple (asked tab opts m) fs Q (config_inv tab)"
  shows "triple (asked tab opts n) (f # fs) Q (config_inv tab)"
proof (rule triple_Cons [OF _ assms(3)])
  fix d :: "'u device"
  assume d: "asked tab opts n d"
  show "f (Some d) = Inl Undefined_conversion \<or>
      (\<exists>d' e. f (Some d) = Inr (Some d', e) \<and> (e < 0 \<and> config_inv tab d' \<or> e = PG2SDR_SUCCESS \<and> asked tab opts m d'))"
    using assms(1) [OF d] config_exec_inv [OF asked_inv(1) [OF d], of E p] unfolding assms(2) by auto
qed

lemma step_buffer:
  assumes "asked tab opts 0 d"
  shows "\<exists>d' e. set_buffer_size (Some d) (ucast (opt_buffer_size opts)) = Inr (Some d', e) \<and>
      (e < 0 \<or> e = PG2SDR_SUCCESS \<and> (config_inv tab d' \<longrightarrow> asked tab opts 1 d'))"
  using assms by (auto simp: set_buffer_size_def with_dev_ok [OF asked_inv(3) [OF assms]] asked_def split: if_splits)

lemma step_mode:
  assumes "asked tab opts 1 d"
  shows "\<exists>d' e. set_conversion_mode (Some d) (Some (opt_mode opts)) = Inr (Some d', e) \<and>
      (e < 0 \<or> e = PG2SDR_SUCCESS \<and> (config_inv tab d' \<longrightarrow> asked tab opts 2 d'))"
  using assms by (auto simp: set_conversion_mode_def with_dev_ok [OF asked_inv(3) [OF assms]] asked_def split: if_splits)

lemma step_sideband:
  assumes "asked tab opts 2 d"
  shows "\<exists>d' e. set_sideband (Some d) (Some (opt_sideband opts)) = Inr (Some d', e) \<and>
      (e < 0 \<or> e = PG2SDR_SUCCESS \<and> (config_inv tab d' \<longrightarrow> asked tab opts 3 d'))"
  using assms by (auto simp: set_sideband_def with_dev_ok [OF asked_inv(3) [OF assms]] asked_def split: if_splits)

lemma step_rate:
  assumes "asked tab opts 3 d"
  shows "\<exists>d' e. set_sample_rate (Some d) (opt_rate opts) = Inr (Some d', e) \<and>
      (e < 0 \<or> e = PG2SDR_SUCCESS \<and> (config_inv tab d' \<longrightarrow> asked tab opts 4 d'))"
  using assms by (auto simp: set_sample_rate_def with_dev_ok [OF asked_inv(3) [OF assms]] asked_def split: if_splits)

lemma step_frequency:
  assumes "asked tab opts 4 d"
  shows "\<exists>d' e. set_frequency (Some d) (opt_frequency opts) = Inr (Some d', e) \<and>
      (e < 0 \<or> e = PG2SDR_SUCCESS \<and> (config_inv tab d' \<longrightarrow> asked tab opts 5 d'))"
  using assms by (auto simp: set_frequency_def with_dev_ok [OF asked_inv(3) [OF assms]] asked_def split: if_splits)

lemma step_limit:
  assumes "asked tab opts 7 d"
  shows "\<exists>d' e. set_adc_limit (Some d) (opt_adc_limit opts) = Inr (Some d', e) \<and>
      (e < 0 \<or> e = PG2SDR_SUCCESS \<and> (config_inv tab d' \<longrightarrow> asked tab opts 8 d'))"
  using assms by (auto simp: set_adc_limit_def with_dev_ok [OF asked_inv(3) [OF assms]] asked_def split: if_splits)

lemma step_decimation:
  assumes "asked tab opts 8 d"
  shows "\<exists>d' e. set_decimation_mode (Some d) (opt_decimation opts) = Inr (Some d', e) \<and>
      (e < 0 \<or> e = PG2SDR_SUCCESS \<and> (config_inv tab d' \<longrightarrow> asked tab opts 9 d'))"
  using assms by (auto simp: set_decimation_mode_def with_dev_ok [OF asked_inv(3) [OF assms]] asked_def split: if_splits)

lemma step_undersampling:
  assumes "asked tab opts 9 d"
  shows "\<exists>d' e. set_undersampling_mode (Some d) (opt_undersampling opts) = Inr (Some d', e) \<and>
      (e < 0 \<or> e = PG2SDR_SUCCESS \<and> (config_inv tab d' \<longrightarrow> asked tab opts 10 d'))"
  using assms by (auto simp: set_undersampling_mode_def with_dev_ok [OF asked_inv(3) [OF assms]] asked_def split: if_splits)

lemma rx_bandpass_order: "0 < opt_bandwidth opts \<Longrightarrow> fst (rx_bandpass opts) \<le> snd (rx_bandpass opts)"
  by (auto simp: rx_bandpass_def intro: dbl.rnd_mono split: conversion_mode.splits sideband_mode.splits)

lemma step_bandpass:
  assumes "asked tab opts 5 d" "0 < opt_bandwidth opts"
  shows "\<exists>d' e. set_bandpass (Some d) (fst (rx_bandpass opts)) (snd (rx_bandpass opts)) = Inr (Some d', e) \<and>
      (e < 0 \<or> e = PG2SDR_SUCCESS \<and> (config_inv tab d' \<longrightarrow> asked tab opts 6 d'))"
proof -
  obtain l h where lh: "rx_bandpass opts = (l, h)" by (cases "rx_bandpass opts")
  have "\<not> h < l" using rx_bandpass_order [OF assms(2)] by (simp add: lh)
  then show ?thesis using assms
    by (auto simp: lh set_bandpass_def Let_def with_dev_ok [OF asked_inv(3) [OF assms(1)]] asked_def split: if_splits)
qed

lemma asked_skip:
  "\<not> 0 < opt_bandwidth opts \<Longrightarrow> asked tab opts 5 d \<Longrightarrow> asked tab opts 6 d"
  "\<not> 0 < opt_adc_limit opts \<Longrightarrow> asked tab opts 7 d \<Longrightarrow> asked tab opts 8 d"
  by (simp_all add: asked_def)

lemma set_total_gain_db_frame:
  assumes "gain_inv d" "set_total_gain_db E (Some d) g = Inr (Some d', e)"
  shows "\<exists>u l m v k. d' = d\<lparr>usb := u, lna_gain := l, mix_gain := m, vga_gain := v, current_gain_entry := k\<rparr>"
    "e < 0 \<or> e = PG2SDR_SUCCESS"
proof -
  have chk: "CHECK_DEV (Some d) = PG2SDR_SUCCESS" using assms(1) by (simp add: gain_inv_def)
  define k where "k = nearest_loop (gain_table d) g 0 [1..<length (gain_table d)]"
  define en where "en = gain_table d ! k"
  note r = uint_4_bits(1) [of "ge_lna en"] uint_4_bits(1) [of "ge_mix en"] uint_4_bits(1) [of "ge_vga en"]
  obtain d1 e1 where run: "tuner_set_gains E d (uint (ge_lna en)) (uint (ge_mix en)) (uint (ge_vga en)) = Inr (d1, e1)"
    using tuner_set_gains_total [OF r, of E d] by fastforce
  obtain u l m v where d1: "d1 = d\<lparr>usb := u, lna_gain := l, mix_gain := m, vga_gain := v\<rparr>"
  proof -
    from tuner_set_gains_result [OF r run] show thesis
    proof (elim disjE conjE)
      assume d1: "d1 = d\<lparr>usb := usb d1\<rparr>"
      define u where "u = usb d1"
      from d1 have "d1 = d\<lparr>usb := u\<rparr>" unfolding u_def .
      then show thesis using that [where u = u and l = "lna_gain d" and m = "mix_gain d" and v = "vga_gain d"] by simp
    qed (rule that)
  qed
  have res: "(if current_gain_entry d \<noteq> Some k
      then if e1 < 0 then (d1, e1) else (d1\<lparr>current_gain_entry := Some k\<rparr>, e1) else (d, PG2SDR_SUCCESS)) = (d', e)"
    using assms(2) unfolding set_total_gain_db_def with_dev_ok [OF chk] Let_def k_def [symmetric] en_def [symmetric]
    by (auto simp: run split: if_splits)
  have "d' = d \<or> d' = d1 \<or> d' = d1\<lparr>current_gain_entry := Some k\<rparr>" using res by (auto split: if_splits)
  then show "\<exists>u l m v k. d' = d\<lparr>usb := u, lna_gain := l, mix_gain := m, vga_gain := v, current_gain_entry := k\<rparr>"
  proof (elim disjE)
    assume "d' = d"
    then have "d' = d\<lparr>usb := usb d, lna_gain := lna_gain d, mix_gain := mix_gain d, vga_gain := vga_gain d,
      current_gain_entry := current_gain_entry d\<rparr>" by simp
    then show ?thesis by blast
  next
    assume "d' = d1"
    then have "d' = d\<lparr>usb := u, lna_gain := l, mix_gain := m, vga_gain := v, current_gain_entry := current_gain_entry d\<rparr>"
      by (simp add: d1)
    then show ?thesis by blast
  next
    assume "d' = d1\<lparr>current_gain_entry := Some k\<rparr>"
    then show ?thesis unfolding d1 by blast
  qed
  show "e < 0 \<or> e = PG2SDR_SUCCESS"
    using tuner_set_gains_result [OF r run] res by (auto split: if_splits)
qed

lemma step_gain:
  assumes "asked tab opts 6 d"
  shows "\<exists>d' e. set_total_gain_db E (Some d) (opt_gain opts) = Inr (Some d', e) \<and>
      (e < 0 \<and> config_inv tab d' \<or> e = PG2SDR_SUCCESS \<and> asked tab opts 7 d')"
proof -
  from set_total_gain_db_inv [OF asked_inv(2) [OF assms], of E "opt_gain opts"]
  obtain d' e where r: "set_total_gain_db E (Some d) (opt_gain opts) = Inr (Some d', e)" "gain_inv d'"
    "e = PG2SDR_SUCCESS \<longrightarrow> gain_table d' = gain_table d \<and>
       current_gain_entry d' = Some (nearest_loop (gain_table d) (opt_gain opts) 0 [1..<length (gain_table d)])" by blast
  from set_total_gain_db_frame [OF asked_inv(2) [OF assms] r(1)]
  obtain u l m v k where d': "d' = d\<lparr>usb := u, lna_gain := l, mix_gain := m, vga_gain := v, current_gain_entry := k\<rparr>"
    and e: "e < 0 \<or> e = PG2SDR_SUCCESS" by blast
  have inv: "config_inv tab d'" using asked_inv(1) [OF assms] by (simp add: d')
  show ?thesis
  proof (cases "e < 0")
    case False
    then have "asked tab opts 7 d'" using assms r(2,3) e inv unfolding asked_def by (simp add: d')
    then show ?thesis using r(1) e False by blast
  qed (use r(1) inv in blast)
qed

text \<open>
  The device as the options want it, stated without the program's own computations: nothing is pending, the settings that follow from the requests
  are the current ones, the band lies around the center or on the side of the sideband, and the gain entry is one of the
  nearest of the table.
\<close>

definition as_requested :: "p_i_table option \<Rightarrow> rx_options \<Rightarrow> 'u device \<Rightarrow> bool" where
  "as_requested tab opts d \<longleftrightarrow> config_inv tab d \<and> \<not> changing_rate d \<and> \<not> changing_freq d \<and> \<not> changing_bandpass d \<and>
     settled_rate tab d \<and> settled_freq d \<and> (current_bandpass_entry d \<noteq> None \<longrightarrow> settled_bandpass d) \<and>
     unat (buffer_size d) = unat (opt_buffer_size opts) \<and> conv_mode d = opt_mode opts \<and> sideband d = opt_sideband opts \<and>
     requested_sample_rate d = opt_rate opts \<and> requested_frequency d = opt_frequency opts \<and>
     (0 < opt_bandwidth opts \<longrightarrow>
        (opt_mode opts = MODE_BASEBAND \<longrightarrow>
           requested_bandpass_high d = rd (opt_bandwidth opts / 2) \<and> requested_bandpass_low d = - requested_bandpass_high d) \<and>
        (opt_mode opts = MODE_LOWIF_REAL \<and> opt_sideband opts = SIDEBAND_UPPER \<longrightarrow>
           requested_bandpass_low d = 0 \<and> requested_bandpass_high d = opt_bandwidth opts) \<and>
        (opt_mode opts = MODE_LOWIF_REAL \<and> opt_sideband opts = SIDEBAND_LOWER \<longrightarrow>
           requested_bandpass_low d = - opt_bandwidth opts \<and> requested_bandpass_high d = 0)) \<and>
     (\<exists>k < length (gain_table d). current_gain_entry d = Some k \<and>
        (\<forall>i < length (gain_table d). \<bar>rd (gain_db (gain_table d ! k) - opt_gain opts)\<bar> \<le> \<bar>rd (gain_db (gain_table d ! i) - opt_gain opts)\<bar>) \<and>
        lna_gain d = unat (ge_lna (gain_table d ! k)) \<and> mix_gain d = unat (ge_mix (gain_table d ! k)) \<and>
        vga_gain d = unat (ge_vga (gain_table d ! k))) \<and>
     (0 < opt_adc_limit opts \<longrightarrow> adc_limit d = opt_adc_limit opts) \<and>
     decimation_mode d = opt_decimation opts \<and> undersampling_mode d = opt_undersampling opts"

lemma unat_ucast_u64: "unat (ucast (w :: u32) :: u64) = unat w"
proof -
  have "unat w < 2 ^ LENGTH(32)" by (rule unsigned_less)
  then have "unat w < 2 ^ LENGTH(64)" by simp
  then show ?thesis by (simp add: unsigned_ucast_eq take_bit_nat_eq_self)
qed

lemma rx_bandpass_cases:
  assumes "rx_bandpass opts = (l, h)"
  shows "opt_mode opts = MODE_BASEBAND \<Longrightarrow> h = rd (opt_bandwidth opts / 2) \<and> l = - h"
    "opt_mode opts = MODE_LOWIF_REAL \<Longrightarrow> opt_sideband opts = SIDEBAND_UPPER \<Longrightarrow> l = 0 \<and> h = opt_bandwidth opts"
    "opt_mode opts = MODE_LOWIF_REAL \<Longrightarrow> opt_sideband opts = SIDEBAND_LOWER \<Longrightarrow> l = - opt_bandwidth opts \<and> h = 0"
  using assms dbl.rnd_uminus [of "opt_bandwidth opts / 2"] by (auto simp: rx_bandpass_def)

lemma asked_gain:
  assumes "asked tab opts n d" "6 < n"
  shows "\<exists>k < length (gain_table d). current_gain_entry d = Some k \<and>
        (\<forall>i < length (gain_table d). \<bar>rd (gain_db (gain_table d ! k) - opt_gain opts)\<bar> \<le> \<bar>rd (gain_db (gain_table d ! i) - opt_gain opts)\<bar>) \<and>
        lna_gain d = unat (ge_lna (gain_table d ! k)) \<and> mix_gain d = unat (ge_mix (gain_table d ! k)) \<and>
        vga_gain d = unat (ge_vga (gain_table d ! k))"
proof -
  define k where "k = nearest_loop (gain_table d) (opt_gain opts) 0 [1..<length (gain_table d)]"
  have inv: "gain_inv d" and k: "current_gain_entry d = Some k" using assms by (simp_all add: asked_def k_def)
  then have "k < length (gain_table d)" "\<forall>i < length (gain_table d). entry_distance (gain_table d) (opt_gain opts) k \<le>
      entry_distance (gain_table d) (opt_gain opts) i"
    using nearest_loop_range [of "gain_table d" "opt_gain opts"] unfolding k_def by (simp_all add: gain_inv_def)
  then show ?thesis using inv k by (intro exI [of _ k]) (simp add: gain_inv_def entry_distance_def)
qed

lemma step_apply:
  assumes "asked tab opts 10 d"
  shows "apply_changes E tab (Some d) = Inl Undefined_conversion \<or>
    (\<exists>d' e. apply_changes E tab (Some d) = Inr (Some d', e) \<and> (e < 0 \<and> config_inv tab d' \<or> e = PG2SDR_SUCCESS \<and> as_requested tab opts d'))"
proof -
  from apply_changes_inv [OF asked_inv(1) [OF assms], of E]
  consider "apply_changes E tab (Some d) = Inl Undefined_conversion"
    | d' e where "apply_changes E tab (Some d) = Inr (Some d', e)" "config_inv tab d'" "e < 0"
    | d' where "apply_changes E tab (Some d) = Inr (Some d', PG2SDR_SUCCESS)" "config_inv tab d'" "\<not> changing_freq d'"
      "\<not> changing_bandpass d'" "\<not> changing_rate d'" by blast
  then show ?thesis
  proof cases
    case (3 d')
    have req: "requests d' = requests d" by (rule apply_changes_requests [OF asked_inv(3) [OF assms] 3(1)])
    then have eq: "buffer_size d' = buffer_size d" "conv_mode d' = conv_mode d" "sideband d' = sideband d"
      "requested_sample_rate d' = requested_sample_rate d" "requested_frequency d' = requested_frequency d"
      "requested_bandpass_low d' = requested_bandpass_low d" "requested_bandpass_high d' = requested_bandpass_high d"
      "adc_limit d' = adc_limit d" "decimation_mode d' = decimation_mode d" "undersampling_mode d' = undersampling_mode d"
      "gain_table d' = gain_table d" "current_gain_entry d' = current_gain_entry d"
      "lna_gain d' = lna_gain d" "mix_gain d' = mix_gain d" "vga_gain d' = vga_gain d"
      by (simp_all add: requests_def)
    have settled: "settled_rate tab d'" "settled_freq d'" "current_bandpass_entry d' \<noteq> None \<longrightarrow> settled_bandpass d'"
      using 3(2-5) by (simp_all add: config_inv_def)
    have set: "unat (buffer_size d) = unat (opt_buffer_size opts)" "conv_mode d = opt_mode opts" "sideband d = opt_sideband opts"
      "requested_sample_rate d = opt_rate opts" "requested_frequency d = opt_frequency opts"
      "0 < opt_adc_limit opts \<longrightarrow> adc_limit d = opt_adc_limit opts"
      "decimation_mode d = opt_decimation opts" "undersampling_mode d = opt_undersampling opts"
      "0 < opt_bandwidth opts \<longrightarrow> rx_bandpass opts = (requested_bandpass_low d, requested_bandpass_high d)"
      using assms by (simp_all add: asked_def unat_ucast_u64)
    have "as_requested tab opts d'"
      unfolding as_requested_def eq
      using settled set(1-8) 3(2-5) asked_gain [OF assms] rx_bandpass_cases [OF set(9) [rule_format]]
      by (intro conjI impI) (simp_all only:, blast+)
    then show ?thesis using 3(1) by blast
  qed blast+
qed

text \<open>C25: on a device that satisfies the invariants of the configuration and of the gain, the program's sequence of
  calls from \<open>pg2sdr_set_buffer_size\<close> to \<open>pg2sdr_apply_changes\<close>, with any options and any behaviour of the device, meets the
  one undefined conversion, or stops at an error with the invariant kept, or succeeds. Then no change is pending and the handle holds
  the settings of the options: the clock, the local oscillator and the filter that follow from them; when a bandwidth is
  given, a band of that width around the center, or in low-IF mode above or below it as the sideband says; an entry of the gain table with the smallest
  distance to the gain, with its stages set; and the limit of the ADC when one is given. That is what the handle holds: in
  low-IF mode a new sideband is not always sent to the tuner (\<open>lowif_sideband_ignored\<close>).\<close>

theorem rx_configured:
  assumes "config_inv tab d" "gain_inv d"
  shows "rx_configure E tab opts (Some d) = Inl Undefined_conversion \<or>
    (\<exists>d' e. rx_configure E tab opts (Some d) = Inr (Some d', e) \<and>
       (e < 0 \<and> config_inv tab d' \<or> e = PG2SDR_SUCCESS \<and> as_requested tab opts d'))"
proof -
  let ?holds = "\<lambda>n fs. triple (asked tab opts n) fs (as_requested tab opts) (config_inv tab)"
  let ?apply = "[\<lambda>d. apply_changes E tab d]"
  have applied: "?holds 10 ?apply" by (rule triple_Cons, erule step_apply, rule triple_Nil)
  have undersampling: "?holds 9 ((\<lambda>d. set_undersampling_mode d (opt_undersampling opts)) # ?apply)"
    by (rule setter_triple [where E = E and p = "Undersampling (opt_undersampling opts)", OF _ _ applied]) (erule step_undersampling, simp)
  let ?last = "[\<lambda>d. set_decimation_mode d (opt_decimation opts), \<lambda>d. set_undersampling_mode d (opt_undersampling opts), \<lambda>d. apply_changes E tab d]"
  have decimation: "?holds 8 ?last"
    by (rule setter_triple [where E = E and p = "Decimation (opt_decimation opts)", OF _ _ undersampling]) (erule step_decimation, simp)
  let ?limit = "(if 0 < opt_adc_limit opts then [\<lambda>d. set_adc_limit d (opt_adc_limit opts)] else []) @ ?last"
  have limit: "?holds 7 ?limit"
  proof (rule triple_optional)
    show "?holds 7 ((\<lambda>d. set_adc_limit d (opt_adc_limit opts)) # ?last)"
      by (rule setter_triple [where E = E and p = "Limit (opt_adc_limit opts)", OF _ _ decimation]) (erule step_limit, simp)
    assume "\<not> 0 < opt_adc_limit opts"
    then show "?holds 7 ?last" using decimation asked_skip(2) unfolding triple_def by blast
  qed
  have gain: "?holds 6 ((\<lambda>d. set_total_gain_db E d (opt_gain opts)) # ?limit)"
    by (rule triple_Cons [OF _ limit]) (use step_gain in blast)
  let ?band = "(if 0 < opt_bandwidth opts then [\<lambda>d. set_bandpass d (fst (rx_bandpass opts)) (snd (rx_bandpass opts))] else []) @ (\<lambda>d. set_total_gain_db E d (opt_gain opts)) # ?limit"
  have band: "?holds 5 ?band"
  proof (rule triple_optional)
    assume "0 < opt_bandwidth opts"
    then show "?holds 5 ((\<lambda>d. set_bandpass d (fst (rx_bandpass opts)) (snd (rx_bandpass opts))) # (\<lambda>d. set_total_gain_db E d (opt_gain opts)) # ?limit)"
      by (intro setter_triple [where E = E and p = "Passband (fst (rx_bandpass opts)) (snd (rx_bandpass opts))", OF _ _ gain]) (use step_bandpass in blast, simp)
  next
    assume "\<not> 0 < opt_bandwidth opts"
    then show "?holds 5 ((\<lambda>d. set_total_gain_db E d (opt_gain opts)) # ?limit)" using gain asked_skip(1) unfolding triple_def by blast
  qed
  let ?frequency = "(\<lambda>d. set_frequency d (opt_frequency opts)) # ?band"
  have frequency: "?holds 4 ?frequency"
    by (rule setter_triple [where E = E and p = "Frequency (opt_frequency opts)", OF _ _ band]) (erule step_frequency, simp)
  let ?rate = "(\<lambda>d. set_sample_rate d (opt_rate opts)) # ?frequency"
  have rate: "?holds 3 ?rate"
    by (rule setter_triple [where E = E and p = "Rate (opt_rate opts)", OF _ _ frequency]) (erule step_rate, simp)
  let ?sideband = "(\<lambda>d. set_sideband d (Some (opt_sideband opts))) # ?rate"
  have sideband: "?holds 2 ?sideband"
    by (rule setter_triple [where E = E and p = "Sideband (Some (opt_sideband opts))", OF _ _ rate]) (erule step_sideband, simp)
  let ?mode = "(\<lambda>d. set_conversion_mode d (Some (opt_mode opts))) # ?sideband"
  have mode: "?holds 1 ?mode"
    by (rule setter_triple [where E = E and p = "Conversion (Some (opt_mode opts))", OF _ _ sideband]) (erule step_mode, simp)
  let ?buffer = "(\<lambda>d. set_buffer_size d (ucast (opt_buffer_size opts))) # ?mode"
  have buffer: "?holds 0 ?buffer"
    by (rule setter_triple [where E = E and p = "Buffer (ucast (opt_buffer_size opts))", OF _ _ mode]) (erule step_buffer, simp)
  have "asked tab opts 0 d" using assms by (simp add: asked_def)
  with buffer show ?thesis unfolding triple_def rx_configure_def by simp
qed

text \<open>The default options, with the required rate and frequency and a bandwidth.\<close>

definition demo_options :: rx_options where
  "demo_options = \<lparr>opt_buffer_size = 131072, opt_mode = MODE_BASEBAND, opt_sideband = SIDEBAND_LOWER, opt_rate = 2400000,
     opt_frequency = 1090000000, opt_bandwidth = 2000000, opt_gain = 20, opt_adc_limit = -1, opt_decimation = -1,
     opt_undersampling = 1\<rparr>"

definition demo_device :: "unit device" where
  "demo_device = fresh_device\<lparr>gain_table := gain_table gain_device, lna_table := lna_table gain_device,
     mix_table := mix_table gain_device, vga_table := vga_table gain_device\<rparr>"

theorem rx_configured_witness:
  "rx_configure accepting_env None demo_options (Some demo_device) = Inl Undefined_conversion \<or>
    (\<exists>d' e. rx_configure accepting_env None demo_options (Some demo_device) = Inr (Some d', e) \<and>
       (e < 0 \<and> config_inv None d' \<or> e = PG2SDR_SUCCESS \<and> as_requested None demo_options d'))"
proof (rule rx_configured)
  show "config_inv None demo_device"
    by (simp add: demo_device_def fresh_device_def config_defs sample_device_def bandpass_device_def)
  show "gain_inv demo_device"
    using gain_device_inv by (simp add: gain_inv_def demo_device_def fresh_device_def gain_device_def sample_device_def CHECK_DEV_def)
qed

text \<open>
  \<open>time_is_up\<close> compares the second with the nanoseconds of the deadline. So within the second of the deadline the program
  does not stop, unless the two happen to be equal; and it may stop long before.
\<close>

lemma time_is_up_late:
  "sec now = sec limit \<Longrightarrow> sec limit \<noteq> nsec limit \<Longrightarrow> \<not> time_is_up limit now"
  by (simp add: time_is_up_def)

lemma time_is_up_early: "time_is_up \<lparr>sec = 100000, nsec = 500\<rparr> \<lparr>sec = 500, nsec = 600\<rparr>"
  by (simp add: time_is_up_def)

end
